(* ===== verification/Octo_Prelude.thy ===== *)
theory Octo_Prelude
  imports Main "HOL-Library.Word"
begin

text \<open>
  Shared ground of the development.
  \<^item> Types: a byte of memory or of the wire is an \<open>8 word\<close>; a C buffer is a list of bytes;
    an address inside a buffer is an \<open>int\<close> offset, because the C code moves its cursor by
    signed 32-bit amounts and can move it backwards.
  \<^item> Reading memory: \<open>rd\<close> returns \<open>None\<close> outside the allocation, so that every
    out-of-bounds access of the C code is visible in the model.
  \<^item> Byte order: \<open>be_nat\<close> and \<open>nat_be\<close> are the value of a big-endian byte
    string and the big-endian string of a value; \<open>ntohl\<close>, \<open>ntohs\<close>, \<open>htonl\<close>, \<open>htons\<close> are
    their 32-bit and 16-bit instances.
  \<^item> C strings: \<open>scan_nul\<close> is the loop \<open>while (c < end && *c != 0) c++\<close> that most readers share.
  \<^item> Sequencing: \<open>bindE\<close> threads the error values (\<open>Inl\<close>) through a computation.
  The collection \<open>wire_simps\<close> gathers the equations that evaluate messages on concrete bytes.
\<close>

named_theorems wire_simps \<open>equations that evaluate byte-level definitions on concrete input\<close>

type_synonym byte = "8 word"
type_synonym bytes = "byte list"

section \<open>Errors as values\<close>

definition bindE :: "'e + 'a \<Rightarrow> ('a \<Rightarrow> 'e + 'b) \<Rightarrow> 'e + 'b" where
  "bindE m f = (case m of Inl e \<Rightarrow> Inl e | Inr x \<Rightarrow> f x)"

lemma bindE_simps [simp, wire_simps]:
  "bindE (Inl e) f = Inl e"
  "bindE (Inr x) f = f x"
  by (simp_all add: bindE_def)

lemma bindE_cong [fundef_cong]:
  "m = m' \<Longrightarrow> (\<And>x. m' = Inr x \<Longrightarrow> f x = f' x) \<Longrightarrow> bindE m f = bindE m' f'"
  by (cases m') (simp_all add: bindE_def)

lemma bindE_Inr_iff: "bindE m f = Inr y \<longleftrightarrow> (\<exists>x. m = Inr x \<and> f x = Inr y)"
  by (cases m) auto

lemma bindE_Inl_iff: "bindE m f = Inl e \<longleftrightarrow> m = Inl e \<or> (\<exists>x. m = Inr x \<and> f x = Inl e)"
  by (cases m) auto

definition guardE :: "bool \<Rightarrow> 'e \<Rightarrow> 'e + unit" where
  "guardE ok e = (if ok then Inr () else Inl e)"

lemma guardE_simps [simp, wire_simps]:
  "guardE True e = Inr ()"
  "guardE False e = Inl e"
  by (simp_all add: guardE_def)

lemma guardE_Inr_iff [simp]: "guardE b e = Inr u \<longleftrightarrow> b"
  by (simp add: guardE_def)

lemma guardE_Inl_iff [simp]: "guardE b e = Inl e' \<longleftrightarrow> \<not> b \<and> e' = e"
  by (auto simp: guardE_def)

text \<open>Walking down a chain of conditionals.\<close>

lemma if_eqE: "(if c then x else y) = z \<Longrightarrow> (c \<Longrightarrow> x = z \<Longrightarrow> P) \<Longrightarrow> (\<not> c \<Longrightarrow> y = z \<Longrightarrow> P) \<Longrightarrow> P"
  by (cases c) simp_all

lemma if_intro: "(c \<Longrightarrow> P x) \<Longrightarrow> (\<not> c \<Longrightarrow> P y) \<Longrightarrow> P (if c then x else y)"
  by simp

section \<open>Characters as bytes\<close>

definition ch :: "char \<Rightarrow> byte" where
  "ch c = of_char c"

definition lit :: "string \<Rightarrow> bytes" where
  "lit s = map ch s"

lemma lit_simps [simp, wire_simps]:
  "lit [] = []"
  "lit (c # s) = ch c # lit s"
  "lit (s @ t) = lit s @ lit t"
  "length (lit s) = length s"
  by (simp_all add: lit_def)

lemmas [wire_simps] = ch_def

section \<open>Memory reads\<close>

lemma take_drop_append [simp]: "take n x @ drop n x @ z = x @ z"
  by (metis append_assoc append_take_drop_id)

definition rd :: "bytes \<Rightarrow> int \<Rightarrow> byte option" where
  "rd m i = (if 0 \<le> i \<and> i < int (length m) then Some (m ! nat i) else None)"

definition rd_n :: "bytes \<Rightarrow> int \<Rightarrow> nat \<Rightarrow> bytes option" where
  "rd_n m i n = (if 0 \<le> i \<and> i + int n \<le> int (length m) then Some (take n (drop (nat i) m)) else None)"

lemmas [wire_simps] = rd_def rd_n_def

lemma rd_Some_iff: "rd m i = Some b \<longleftrightarrow> 0 \<le> i \<and> i < int (length m) \<and> m ! nat i = b"
  by (auto simp: rd_def)

lemma rd_None_iff: "rd m i = None \<longleftrightarrow> i < 0 \<or> int (length m) \<le> i"
  by (auto simp: rd_def)

lemma rd_n_None_iff: "rd_n m i n = None \<longleftrightarrow> i < 0 \<or> int (length m) < i + int n"
  by (auto simp: rd_n_def)

lemma rd_n_in_bounds: "0 \<le> i \<Longrightarrow> i + int n \<le> int (length m) \<Longrightarrow> \<exists>bs. rd_n m i n = Some bs \<and> length bs = n"
  by (auto simp: rd_n_def)

lemma rd_n_length: "rd_n m i n = Some bs \<Longrightarrow> length bs = n"
  by (auto simp: rd_n_def split: if_splits)

lemma rd_append_left: "0 \<le> i \<Longrightarrow> i < int (length xs) \<Longrightarrow> rd (xs @ ys) i = rd xs i"
  by (auto simp: rd_def nth_append nat_less_iff)

lemma rd_n_append_at:
  "rd_n (xs @ ys @ zs) (int (length xs)) (length ys) = Some ys"
  by (simp add: rd_n_def)

section \<open>Byte order\<close>

definition be_nat :: "bytes \<Rightarrow> nat" where
  "be_nat bs = foldl (\<lambda>acc b. acc * 256 + unat b) 0 bs"

fun nat_be :: "nat \<Rightarrow> nat \<Rightarrow> bytes" where
  "nat_be 0 v = []"
| "nat_be (Suc n) v = nat_be n (v div 256) @ [of_nat (v mod 256)]"

lemma be_nat_Nil [simp, wire_simps]: "be_nat [] = 0"
  by (simp add: be_nat_def)

lemma be_nat_snoc [simp]: "be_nat (bs @ [b]) = be_nat bs * 256 + unat b"
  by (simp add: be_nat_def)

lemma be_nat_unfold [wire_simps]: "be_nat bs = foldl (\<lambda>acc b. acc * 256 + unat b) 0 bs"
  by (simp add: be_nat_def)

lemma length_nat_be [simp]: "length (nat_be n v) = n"
  by (induction n arbitrary: v) simp_all

lemma unat_of_nat_byte [simp]: "unat (of_nat (v mod 256) :: byte) = v mod 256"
  by (simp add: unat_of_nat)

lemma unat_byte_less [simp]: "unat (b :: byte) < 256"
  using unsigned_less [of b, where 'a = nat] by simp

lemma be_nat_bound: "be_nat bs < 256 ^ length bs"
proof (induction bs rule: rev_induct)
  case Nil
  then show ?case by simp
next
  case (snoc b bs)
  have b: "unat b < 256"
    by (rule unat_byte_less)
  have "Suc (be_nat bs) \<le> 256 ^ length bs"
    using snoc by simp
  then have "Suc (be_nat bs) * 256 \<le> 256 ^ length bs * 256"
    by (rule mult_le_mono1)
  moreover have "be_nat bs * 256 + unat b < Suc (be_nat bs) * 256"
    using b by simp
  ultimately have "be_nat bs * 256 + unat b < 256 ^ length bs * 256"
    by (rule order.strict_trans2 [rotated])
  then show ?case by (simp add: mult.commute)
qed

lemma be_nat_nat_be: "be_nat (nat_be n v) = v mod 256 ^ n"
proof (induction n arbitrary: v)
  case 0
  then show ?case by simp
next
  case (Suc n)
  have "v mod (256 * 256 ^ n) = 256 * (v div 256 mod 256 ^ n) + v mod 256"
    by (rule mod_mult2_eq)
  with Suc show ?case by simp
qed

lemma nat_be_be_nat: "nat_be (length bs) (be_nat bs) = bs"
proof (induction bs rule: rev_induct)
  case Nil
  then show ?case by simp
next
  case (snoc b bs)
  have b: "unat b < 256"
    by simp
  then have "(be_nat bs * 256 + unat b) div 256 = be_nat bs"
    and "(be_nat bs * 256 + unat b) mod 256 = unat b"
    by simp_all
  with snoc show ?case by simp
qed

definition ntohl :: "bytes \<Rightarrow> 32 word" where
  "ntohl bs = of_nat (be_nat bs)"

definition ntohs :: "bytes \<Rightarrow> 16 word" where
  "ntohs bs = of_nat (be_nat bs)"

definition be64toh :: "bytes \<Rightarrow> 64 word" where
  "be64toh bs = of_nat (be_nat bs)"

definition htonl :: "32 word \<Rightarrow> bytes" where
  "htonl w = nat_be 4 (unat w)"

definition htons :: "16 word \<Rightarrow> bytes" where
  "htons w = nat_be 2 (unat w)"

lemmas [wire_simps] = ntohl_def ntohs_def be64toh_def

lemma htonl_eval [wire_simps]:
  "htonl w = [of_nat (unat w div 16777216 mod 256), of_nat (unat w div 65536 mod 256),
     of_nat (unat w div 256 mod 256), of_nat (unat w mod 256)]"
proof -
  have "v div 256 div 256 = v div 65536" "v div 65536 div 256 = v div 16777216" for v :: nat
    by (simp_all add: div_mult2_eq [symmetric])
  moreover have four: "4 = Suc (Suc (Suc (Suc 0)))"
    by simp
  ultimately show ?thesis
    unfolding htonl_def four nat_be.simps by simp
qed

lemma htons_eval [wire_simps]:
  "htons w = [of_nat (unat w div 256 mod 256), of_nat (unat w mod 256)]"
  unfolding htons_def numeral_2_eq_2 nat_be.simps by simp

lemma htonl_not_Nil [simp]: "htonl w \<noteq> []"
  by (simp add: htonl_eval)

lemma htons_not_Nil [simp]: "htons w \<noteq> []"
  by (simp add: htons_eval)

lemma length_htonl [simp]: "length (htonl w) = 4"
  by (simp add: htonl_def)

lemma length_htons [simp]: "length (htons w) = 2"
  by (simp add: htons_def)

lemma ntohl_htonl [simp]: "ntohl (htonl w) = w"
proof -
  have "unat w < 256 ^ 4"
    using unsigned_less [of w, where 'a = nat] by simp
  then have "be_nat (nat_be 4 (unat w)) = unat w"
    by (simp only: be_nat_nat_be mod_less)
  then show ?thesis by (simp add: ntohl_def htonl_def)
qed

lemma ntohs_htons [simp]: "ntohs (htons w) = w"
proof -
  have "unat w < 256 ^ 2"
    using unsigned_less [of w, where 'a = nat] by simp
  then have "be_nat (nat_be 2 (unat w)) = unat w"
    by (simp only: be_nat_nat_be mod_less)
  then show ?thesis by (simp add: ntohs_def htons_def)
qed

lemma unat_ntohl: "length bs = 4 \<Longrightarrow> unat (ntohl bs) = be_nat bs"
  using be_nat_bound [of bs] by (simp add: ntohl_def unat_of_nat)

lemma htonl_ntohl: "length bs = 4 \<Longrightarrow> htonl (ntohl bs) = bs"
  using nat_be_be_nat [of bs] by (simp add: htonl_def unat_ntohl)

lemma unat_ntohs: "length bs = 2 \<Longrightarrow> unat (ntohs bs) = be_nat bs"
  using be_nat_bound [of bs] by (simp add: ntohs_def unat_of_nat)

lemma htons_ntohs: "length bs = 2 \<Longrightarrow> htons (ntohs bs) = bs"
  using nat_be_be_nat [of bs] by (simp add: htons_def unat_ntohs)

text \<open>Counts and lengths that fit are read back as themselves through a signed field.\<close>

lemma sint_of_nat32:
  assumes "n < 2 ^ 31"
  shows "sint (of_nat n :: 32 word) = int n"
proof -
  have "signed_take_bit 31 (int n) = int n"
    using assms by (intro signed_take_bit_int_eq_self) simp_all
  then show ?thesis by (simp add: signed_of_nat)
qed

lemma sint_of_nat16:
  assumes "n < 2 ^ 15"
  shows "sint (of_nat n :: 16 word) = int n"
proof -
  have "signed_take_bit 15 (int n) = int n"
    using assms by (intro signed_take_bit_int_eq_self) simp_all
  then show ?thesis by (simp add: signed_of_nat)
qed

section \<open>C strings\<close>

text \<open>
  The scanning loop \<open>while (c < lst && *c != '\0') c++\<close> from offset \<open>c\<close>, reading memory \<open>m\<close>.
  \<open>None\<close> is a read outside the allocation.
\<close>

function scan_nul :: "bytes \<Rightarrow> int \<Rightarrow> int \<Rightarrow> int option" where
  "scan_nul m c lst =
     (if c < lst then
        (case rd m c of None \<Rightarrow> None
         | Some b \<Rightarrow> if b = 0 then Some c else scan_nul m (c + 1) lst)
      else Some c)"
  by pat_completeness auto
termination
  by (relation "measure (\<lambda>(m, c, lst). nat (lst - c))") auto

declare scan_nul.simps [simp del]
lemmas [wire_simps] = scan_nul.simps

text \<open>A NUL-terminated string as C sees it from an address on: the bytes before the first zero.\<close>

definition cstr :: "bytes \<Rightarrow> bytes" where
  "cstr bs = takeWhile (\<lambda>b. b \<noteq> 0) bs"

lemmas [wire_simps] = cstr_def

definition nul_free :: "bytes \<Rightarrow> bool" where
  "nul_free bs \<longleftrightarrow> 0 \<notin> set bs"

lemma cstr_append [simp]: "nul_free s \<Longrightarrow> cstr (s @ 0 # t) = s"
  by (induction s) (auto simp: cstr_def nul_free_def)

lemma nul_free_simps [simp]:
  "nul_free []"
  "nul_free (b # bs) \<longleftrightarrow> b \<noteq> 0 \<and> nul_free bs"
  "nul_free (xs @ ys) \<longleftrightarrow> nul_free xs \<and> nul_free ys"
  by (auto simp: nul_free_def)

lemma nul_free_cstr [simp]: "nul_free (cstr bs)"
  by (auto simp: nul_free_def cstr_def dest: set_takeWhileD)

lemma scan_nul_bounds:
  "scan_nul m c lst = Some d \<Longrightarrow> c \<le> d \<and> (c \<le> lst \<longrightarrow> d \<le> lst)"
proof (induction m c lst rule: scan_nul.induct)
  case (1 m c lst)
  have IH: "c < lst \<and> rd m c = Some b \<and> b \<noteq> 0 \<and> scan_nul m (c + 1) lst = Some d \<longrightarrow>
      c < d \<and> c \<le> d \<and> d \<le> lst" for b
    using "1.IH" by fastforce
  from "1.prems" show ?case
    by (subst (asm) scan_nul.simps) (auto split: if_splits option.splits simp: IH)
qed

lemma scan_nul_safe:
  "0 \<le> c \<Longrightarrow> lst \<le> int (length m) \<Longrightarrow> scan_nul m c lst \<noteq> None"
proof (induction m c lst rule: scan_nul.induct)
  case (1 m c lst)
  then show ?case
    by (subst scan_nul.simps) (auto simp: rd_None_iff split: option.splits)
qed

lemma scan_nul_hit:
  "scan_nul m c lst = Some d \<Longrightarrow> d < lst \<Longrightarrow> rd m d = Some 0"
proof (induction m c lst rule: scan_nul.induct)
  case (1 m c lst)
  from "1.prems" show ?case
    by (subst (asm) scan_nul.simps)
      (auto split: if_splits option.splits dest: "1.IH")
qed

text \<open>Scanning a NUL-free string that is followed by a NUL stops at that NUL.\<close>

lemma scan_nul_string:
  assumes "nul_free s" "int (length pre) + int (length s) < lst"
  shows "scan_nul (pre @ s @ 0 # post) (int (length pre)) lst
           = Some (int (length pre) + int (length s))"
  using assms
proof (induction s arbitrary: pre)
  case Nil
  then show ?case
    by (subst scan_nul.simps) (simp add: rd_def nth_append)
next
  case (Cons b s)
  have "scan_nul ((pre @ [b]) @ s @ 0 # post) (int (length (pre @ [b]))) lst
          = Some (int (length (pre @ [b])) + int (length s))"
    by (rule Cons.IH) (use Cons.prems in auto)
  then have step: "scan_nul (pre @ (b # s) @ 0 # post) (int (length pre) + 1) lst
          = Some (int (length pre) + 1 + int (length s))"
    by (simp add: algebra_simps)
  have "rd (pre @ (b # s) @ 0 # post) (int (length pre)) = Some b"
    by (simp add: rd_def nth_append)
  with Cons.prems step show ?case
    by (subst scan_nul.simps) simp
qed

text \<open>Scanning a NUL-free region runs to its end.\<close>

lemma scan_nul_none:
  assumes "nul_free s"
  shows "scan_nul (pre @ s @ post) (int (length pre)) (int (length pre) + int (length s))
           = Some (int (length pre) + int (length s))"
  using assms
proof (induction s arbitrary: pre)
  case Nil
  then show ?case by (subst scan_nul.simps) simp
next
  case (Cons b s)
  have "scan_nul ((pre @ [b]) @ s @ post) (int (length (pre @ [b])))
          (int (length (pre @ [b])) + int (length s))
          = Some (int (length (pre @ [b])) + int (length s))"
    by (rule Cons.IH) (use Cons.prems in auto)
  moreover have "rd (pre @ (b # s) @ post) (int (length pre)) = Some b"
    by (simp add: rd_def nth_append)
  ultimately show ?case
    using Cons.prems by (subst scan_nul.simps) (simp add: algebra_simps)
qed

lemma nul_in_set_iff: "0 \<in> set d \<longleftrightarrow> length (cstr d) < length d"
  by (induction d) (auto simp: cstr_def)

lemma length_cstr_le [simp]: "length (cstr d) \<le> length d"
  by (simp add: cstr_def length_takeWhile_le)

lemma cstr_split: "length (cstr d) < length d \<Longrightarrow> d = cstr d @ 0 # drop (Suc (length (cstr d))) d"
  by (induction d) (auto simp: cstr_def)

lemma cstr_nul_free [simp]: "nul_free d \<Longrightarrow> cstr d = d"
  by (auto simp: cstr_def nul_free_def takeWhile_eq_all_conv)

text \<open>Scanning a region of memory stops at its first NUL or at its end.\<close>

lemma scan_nul_region:
  "scan_nul (pre @ d @ post) (int (length pre)) (int (length pre) + int (length d))
     = Some (int (length pre) + int (length (cstr d)))"
proof (cases "length (cstr d) < length d")
  case True
  then have d: "d = cstr d @ 0 # drop (Suc (length (cstr d))) d" (is "_ = ?s @ 0 # ?t")
    by (rule cstr_split)
  have "scan_nul (pre @ ?s @ 0 # ?t @ post) (int (length pre)) (int (length pre) + int (length d))
          = Some (int (length pre) + int (length ?s))"
    by (rule scan_nul_string) (use True in auto)
  then show ?thesis by (subst (1) d) simp
next
  case False
  then have "0 \<notin> set d" by (simp add: nul_in_set_iff)
  then have "nul_free d" by (simp add: nul_free_def)
  then show ?thesis using scan_nul_none [of d pre post] by simp
qed

lemma nul_split_eq:
  "nul_free s \<Longrightarrow> nul_free s' \<Longrightarrow> s @ 0 # r = s' @ 0 # r' \<longleftrightarrow> s = s' \<and> r = r'"
  by (metis append_same_eq cstr_append list.inject same_append_eq)

text \<open>A block either has no NUL or is a NUL-free string, a NUL and a rest.\<close>

lemma nul_cases:
  obtains (no_nul) "nul_free d" | (nul) s r where "d = s @ 0 # r" "nul_free s"
proof (cases "length (cstr d) < length d")
  case True
  with cstr_split [of d] show ?thesis by (blast intro: nul nul_free_cstr)
next
  case False
  then show ?thesis using no_nul by (simp add: nul_free_def nul_in_set_iff)
qed

text \<open>Addresses relative to the end of a prefix.\<close>

lemma rd_shift: "k = int (length pre) \<Longrightarrow> 0 \<le> i \<Longrightarrow> rd (pre @ x) (k + i) = rd x i"
  by (auto simp: rd_def nth_append nat_add_distrib)

lemma rd_n_shift: "k = int (length pre) \<Longrightarrow> 0 \<le> i \<Longrightarrow> rd_n (pre @ x) (k + i) n = rd_n x i n"
  by (auto simp: rd_n_def nat_add_distrib)

lemma rd_n_prefix: "n = length x \<Longrightarrow> rd_n (x @ y) 0 n = Some x"
  by (simp add: rd_n_def)

lemma scan_nul_shift:
  "k = int (length pre) \<Longrightarrow> 0 \<le> i \<Longrightarrow>
   scan_nul (pre @ x) (k + i) (k + j) = map_option ((+) k) (scan_nul x i j)"
proof (induction x i j rule: scan_nul.induct)
  case (1 x i j)
  show ?case
  proof (cases "i < j")
    case True
    note lt = this
    have r: "rd (pre @ x) (k + i) = rd x i"
      using "1.prems" by (rule rd_shift)
    show ?thesis
    proof (cases "rd x i")
      case None
      with lt r show ?thesis
        by (simp add: scan_nul.simps [of "pre @ x"] scan_nul.simps [of x i j])
    next
      case (Some b)
      show ?thesis
      proof (cases "b = 0")
        case True
        with lt r Some show ?thesis
          by (simp add: scan_nul.simps [of "pre @ x"] scan_nul.simps [of x i j])
      next
        case False
        have "scan_nul (pre @ x) (k + (i + 1)) (k + j) = map_option ((+) k) (scan_nul x (i + 1) j)"
          using "1.prems" by (intro "1.IH" [OF lt Some False]) simp_all
        with lt r Some False show ?thesis
          by (simp add: scan_nul.simps [of "pre @ x" "k + i"] scan_nul.simps [of x i j] add.assoc)
      qed
    qed
  next
    case False
    then show ?thesis
      by (simp add: scan_nul.simps [of "pre @ x"] scan_nul.simps [of x i j])
  qed
qed

section \<open>Optional memory reads as error values\<close>

definition from_mem :: "'e \<Rightarrow> 'a option \<Rightarrow> 'e + 'a" where
  "from_mem e r = (case r of None \<Rightarrow> Inl e | Some x \<Rightarrow> Inr x)"

lemma from_mem_simps [simp, wire_simps]:
  "from_mem e None = Inl e"
  "from_mem e (Some x) = Inr x"
  by (simp_all add: from_mem_def)

lemma from_mem_Inr_iff [simp]: "from_mem e r = Inr x \<longleftrightarrow> r = Some x"
  by (cases r) auto

lemma from_mem_Inl_iff [simp]: "from_mem e r = Inl e' \<longleftrightarrow> r = None \<and> e' = e"
  by (cases r) auto

end
