(* ===== verification/Message_Formats.thy ===== *)
theory Message_Formats
  imports Octo_Prelude
begin

text \<open>
  The PostgreSQL wire messages of rocto: the type letters of \<open>octo_types.h\<close>, the structures of
  \<open>rocto/message_formats.h\<close> that the backend reads, and the errors the readers report.
  A structure whose C fields are pointers into its own trailing \<open>data[]\<close> keeps the copied block and
  the pointers as offsets into that block; offset 0 is the \<open>type\<close> field, offset 5 is \<open>data\<close>.
  Integers keep their C width.
\<close>

section \<open>Message type letters\<close>

definition PSQL_Bind :: byte where "PSQL_Bind = ch CHR ''B''"
definition PSQL_Close :: byte where "PSQL_Close = ch CHR ''C''"
definition PSQL_Describe :: byte where "PSQL_Describe = ch CHR ''D''"
definition PSQL_Execute :: byte where "PSQL_Execute = ch CHR ''E''"
definition PSQL_Flush :: byte where "PSQL_Flush = ch CHR ''H''"
definition PSQL_Query :: byte where "PSQL_Query = ch CHR ''Q''"
definition PSQL_Parse :: byte where "PSQL_Parse = ch CHR ''P''"
definition PSQL_PasswordMessage :: byte where "PSQL_PasswordMessage = ch CHR ''p''"
definition PSQL_Sync :: byte where "PSQL_Sync = ch CHR ''S''"
definition PSQL_Terminate :: byte where "PSQL_Terminate = ch CHR ''X''"
definition PSQL_AuthenticationOk :: byte where "PSQL_AuthenticationOk = ch CHR ''R''"
definition PSQL_AuthenticationMD5Password :: byte where "PSQL_AuthenticationMD5Password = ch CHR ''R''"
definition PSQL_BackendKeyData :: byte where "PSQL_BackendKeyData = ch CHR ''K''"
definition PSQL_BindComplete :: byte where "PSQL_BindComplete = ch CHR ''2''"
definition PSQL_CloseComplete :: byte where "PSQL_CloseComplete = ch CHR ''3''"
definition PSQL_CommandComplete :: byte where "PSQL_CommandComplete = ch CHR ''C''"
definition PSQL_DataRow :: byte where "PSQL_DataRow = ch CHR ''D''"
definition PSQL_EmptyQueryResponse :: byte where "PSQL_EmptyQueryResponse = ch CHR ''I''"
definition PSQL_ErrorResponse :: byte where "PSQL_ErrorResponse = ch CHR ''E''"
definition PSQL_NoData :: byte where "PSQL_NoData = ch CHR ''n''"
definition PSQL_NoticeResponse :: byte where "PSQL_NoticeResponse = ch CHR ''N''"
definition PSQL_ReadyForQuery :: byte where "PSQL_ReadyForQuery = ch CHR ''Z''"
definition PSQL_RowDescription :: byte where "PSQL_RowDescription = ch CHR ''T''"
definition PSQL_ParameterStatus :: byte where "PSQL_ParameterStatus = ch CHR ''S''"
definition PSQL_ParseComplete :: byte where "PSQL_ParseComplete = ch CHR ''1''"
definition PSQL_PortalSuspended :: byte where "PSQL_PortalSuspended = ch CHR ''s''"
definition PSQL_ParameterDescription :: byte where "PSQL_ParameterDescription = ch CHR ''t''"

lemmas psql_type_defs [wire_simps] =
  PSQL_Bind_def PSQL_Close_def PSQL_Describe_def PSQL_Execute_def PSQL_Flush_def PSQL_Query_def
  PSQL_Parse_def PSQL_PasswordMessage_def PSQL_Sync_def PSQL_Terminate_def
  PSQL_AuthenticationOk_def PSQL_AuthenticationMD5Password_def PSQL_BackendKeyData_def
  PSQL_BindComplete_def PSQL_CloseComplete_def PSQL_CommandComplete_def PSQL_DataRow_def
  PSQL_EmptyQueryResponse_def PSQL_ErrorResponse_def PSQL_NoData_def PSQL_NoticeResponse_def
  PSQL_ReadyForQuery_def PSQL_RowDescription_def PSQL_ParameterStatus_def PSQL_ParseComplete_def
  PSQL_PortalSuspended_def PSQL_ParameterDescription_def

section \<open>Errors the readers report\<close>

datatype errno = EINTR | ECONNRESET | EPIPE | EOTHER int

text \<open>
  One constructor per \<open>ERROR(...)\<close> call of the readers, the transport and the makers, with the arguments of the call.
  \<open>OUT_OF_BOUNDS\<close> is not an Octo error: it is the model's value for a read or copy that leaves the
  memory the C code owns, which in C is undefined behaviour. \<open>MALLOC_FAILED\<close> is an allocation
  whose size is negative after conversion to \<open>int32_t\<close>, \<open>ASSERT_FAILED\<close> a failed assertion,
  \<open>RETURNED_NULL\<close> a NULL result without a report.
\<close>

datatype rocto_error =
    ERR_ROCTO_INVALID_MESSAGE_TYPE string byte byte
  | ERR_ROCTO_MISSING_NULL string string
  | ERR_ROCTO_MISSING_DATA string string
  | ERR_ROCTO_TOO_MANY_VALUES string string
  | ERR_ROCTO_TOO_FEW_VALUES string string
  | ERR_ROCTO_INVALID_FORMAT_CODE string int
  | ERR_ROCTO_TRAILING_CHARS string
  | ERR_ROCTO_INVALID_ITEM_VALUE string byte
  | ERR_ROCTO_INVALID_INT_VALUE string string int int
  | ERR_ROCTO_INVALID_VERSION string int int
  | ERR_ROCTO_MISSING_USERNAME string
  | ERR_INVALID_NUMBER string string int
  | ERR_INVALID_READ_SIZE int
  | ERR_SYSCALL string errno
  | ERR_ROCTO_TLS_READ_FAILED
  | ERR_ROCTO_TLS_WRITE_FAILED
  | ERR_ROCTO_SEND_FAILED byte
  | ERR_LIBCALL string
  | ERR_LIBCALL_WITH_ARG string "8 word list"
  | ERR_ROCTO_DB_LOOKUP string string
  | ERR_ROCTO_PASSWORD_TYPE string
  | ERR_ROCTO_USER_LOOKUP string "8 word list"
  | ERR_ROCTO_COLUMN_VALUE string
  | ERR_ROCTO_HASH_CONVERSION string
  | ERR_ROCTO_BAD_PASSWORD string
  | ERR_ROCTO_BAD_TIMESTAMP
  | ERR_ROCTO_SECRET_KEY_MISMATCH
  | ERR_YOTTADB
  | OUT_OF_BOUNDS
  | MALLOC_FAILED int
  | ASSERT_FAILED string
  | RETURNED_NULL

type_synonym 'a res = "rocto_error + 'a"

section \<open>Structures\<close>

record BindParm =
  parm_length :: "32 word"
  parm_value :: int

record Bind =
  bind_block :: bytes
  bind_dest :: int
  bind_source :: int
  bind_num_parm_format_codes :: "16 word"
  bind_parm_format_codes :: "16 word list"
  bind_num_parms :: "16 word"
  bind_parms :: "BindParm list"
  bind_num_result_col_format_codes :: "16 word"
  bind_result_col_format_codes :: "16 word list"

record Close =
  close_type :: byte
  close_length :: "32 word"
  close_item :: byte
  close_data :: bytes

record Describe =
  describe_type :: byte
  describe_length :: "32 word"
  describe_item :: byte
  describe_name :: bytes

record Execute =
  execute_source :: bytes
  execute_rows_to_return :: "32 word"

record Parse =
  parse_dest :: bytes
  parse_query :: bytes
  parse_num_parm_data_types :: "16 word"
  parse_parm_data_types :: "32 word list"

record Query =
  query_length :: "32 word"
  query_query :: bytes

record PasswordMessage =
  password_length :: "32 word"
  password_password :: bytes

record Sync =
  sync_type :: byte
  sync_length :: "32 word"

record Flush =
  flush_type :: byte
  flush_length :: "32 word"

record SSLRequest =
  ssl_length :: "32 word"
  ssl_request_code :: "32 word"

record CancelRequest =
  cancel_length :: "32 word"
  cancel_request_code :: "32 word"
  cancel_pid :: "32 word"
  cancel_secret_key :: "32 word"

record StartupMessageParm =
  parm_name :: bytes
  parm_val :: bytes

record StartupMessage =
  startup_parameters :: "StartupMessageParm list"
  startup_num_parameters :: nat
  startup_length_bytes :: bytes

section \<open>The message in the receive buffer\<close>

text \<open>
  \<open>BaseMessage\<close> overlays the receive buffer: byte 0 is the type, bytes 1 to 4 the length in network
  order (the length counts itself but not the type), byte 5 on is the data. \<open>wf_message\<close> is what
  \<open>read_message\<close> guarantees of the buffer it returns and what the readers rely on.
\<close>

definition msg_type :: "bytes \<Rightarrow> byte res" where
  "msg_type m = from_mem OUT_OF_BOUNDS (rd m 0)"

definition msg_length :: "bytes \<Rightarrow> 32 word res" where
  "msg_length m = bindE (from_mem OUT_OF_BOUNDS (rd_n m 1 4)) (\<lambda>bs. Inr (ntohl bs))"

lemmas [wire_simps] = msg_type_def msg_length_def

definition wf_message :: "bytes \<Rightarrow> bool" where
  "wf_message m \<longleftrightarrow> 5 \<le> length m
     \<and> (let L = unat (ntohl (take 4 (drop 1 m))) in 4 \<le> L \<and> L < 2 ^ 31 \<and> L + 1 \<le> length m)"

lemmas [wire_simps] = wf_message_def

text \<open>A message as a client frames it: type, length, data; \<open>rest\<close> is whatever the buffer holds after it.\<close>

definition hdr :: "byte \<Rightarrow> nat \<Rightarrow> bytes" where
  "hdr t n = t # htonl (of_nat (n + 4))"

definition frame :: "byte \<Rightarrow> bytes \<Rightarrow> bytes" where
  "frame t d = hdr t (length d) @ d"

lemmas [wire_simps] = frame_def hdr_def

lemma length_hdr [simp]: "length (hdr t n) = 5"
  by (simp add: hdr_def)

lemma length_frame [simp]: "length (frame t d) = length d + 5"
  by (simp add: frame_def)

lemma frame_fields:
  assumes "length d < 2 ^ 31 - 4"
  shows "msg_type (frame t d @ rest) = Inr t"
    and "msg_length (frame t d @ rest) = Inr (of_nat (length d + 4))"
  by (simp_all add: msg_type_def msg_length_def frame_def hdr_def rd_def rd_n_def)

lemma unat_frame_length:
  assumes "length d < 2 ^ 31 - 4"
  shows "unat (of_nat (length d + 4) :: 32 word) = length d + 4"
proof -
  have "length d + 4 < 2 ^ 32"
    using assms by simp
  then show ?thesis by (simp only: unat_of_nat) simp
qed

lemma wf_frame:
  assumes "length d < 2 ^ 31 - 4"
  shows "wf_message (frame t d @ rest)"
  using assms unat_frame_length [OF assms]
  by (simp add: wf_message_def frame_def hdr_def Let_def)

text \<open>Every well-formed buffer is a frame followed by the unused part of the buffer.\<close>

lemma wf_message_frame:
  assumes "wf_message m"
  obtains t d rest where "m = frame t d @ rest" and "length d < 2 ^ 31 - 4"
proof -
  define L where "L = unat (ntohl (take 4 (drop 1 m)))"
  define d where "d = take (L - 4) (drop 5 m)"
  have m: "5 \<le> length m" and L: "4 \<le> L" "L < 2 ^ 31" "L + 1 \<le> length m"
    using assms by (simp_all add: wf_message_def L_def Let_def)
  have ld: "length d = L - 4"
    using L by (simp add: d_def)
  then have "of_nat (length d + 4) = ntohl (take 4 (drop 1 m))"
    using L(1) by (simp add: L_def)
  then have "htonl (of_nat (length d + 4)) = take 4 (drop 1 m)"
    using m by (simp only: htonl_ntohl [of "take 4 (drop 1 m)"] length_take length_drop)
  then have "frame (hd m) d = hd m # take 4 (drop 1 m) @ take (L - 4) (drop 5 m)"
    by (simp add: frame_def hdr_def d_def)
  moreover have "m = hd m # take 4 (drop 1 m) @ take (L - 4) (drop 5 m) @ drop (L - 4) (drop 5 m)"
  proof -
    have "m = hd m # drop 1 m"
      using m by (cases m) auto
    also have "drop 1 m = take 4 (drop 1 m) @ drop 4 (drop 1 m)"
      by (simp only: append_take_drop_id)
    also have "drop 4 (drop 1 m) = drop 5 m"
      by simp
    also have "drop 5 m = take (L - 4) (drop 5 m) @ drop (L - 4) (drop 5 m)"
      by (simp only: append_take_drop_id)
    finally show ?thesis .
  qed
  ultimately have "m = frame (hd m) d @ drop (L - 4) (drop 5 m)"
    by simp
  moreover have "length d < 2 ^ 31 - 4"
    using ld L by simp
  ultimately show ?thesis by (rule that)
qed

end
