(* ===== verification/Message_Read.thy ===== *)
theory Message_Read
  imports Message_Formats
begin

text \<open>
  The readers \<open>src/rocto/read_*.c\<close> of frontend messages. Each takes the receive buffer that holds the
  message and returns the parsed structure (\<open>Inr\<close>) or the error the C function reports before it
  returns NULL (\<open>Inl\<close>). The C functions copy the message into a zeroed allocation that is a few
  bytes longer than the message; \<open>copy_message\<close> keeps those bytes, because some readers read past the
  last byte of the message and depend on them. Lemmas: no reader leaves its memory on a
  well-formed buffer (with the exact exceptions), what each reader accepts, and round trips with
  the encodings of the protocol.
\<close>

section \<open>Copying the message\<close>

text \<open>
  \<open>memcpy(&ret->type, message, remaining_length + 1)\<close> into a zeroed block of
  \<open>remaining_length + sizeof(struct)\<close> bytes. From \<open>&ret->type\<close> on the block has \<open>pad\<close> bytes more than
  the message: 4 for the structures that end in \<open>type, length, data[]\<close>, 5 for \<open>Describe\<close>, none for
  \<open>Close\<close>. The count \<open>remaining_length + 1\<close> is 32-bit arithmetic and wraps.
\<close>

definition copy_message :: "nat \<Rightarrow> bytes \<Rightarrow> (32 word \<times> bytes) res" where
  "copy_message pad m =
     bindE (msg_length m) (\<lambda>L.
     let n = unat (L + 1) in
     bindE (from_mem OUT_OF_BOUNDS (rd_n m 0 n)) (\<lambda>bs.
     Inr (L, bs @ replicate (unat L + 1 + pad - n) 0)))"

lemmas [wire_simps] = copy_message_def

abbreviation data_start :: int where
  "data_start \<equiv> 5"

section \<open>read_query\<close>

definition read_query :: "bytes \<Rightarrow> Query res" where
  "read_query m =
     bindE (msg_length m) (\<lambda>L.
     bindE (msg_type m) (\<lambda>ty.
     bindE (from_mem OUT_OF_BOUNDS (rd_n m 5 (unat (L - 4)))) (\<lambda>data.
     let message_end = int (unat L) - 4 in
     bindE (guardE (ty = PSQL_Query) (ERR_ROCTO_INVALID_MESSAGE_TYPE ''Query'' ty PSQL_Query)) (\<lambda>_.
     bindE (from_mem OUT_OF_BOUNDS (scan_nul data 0 message_end)) (\<lambda>c.
     if c = message_end then
       (if L = 4 then Inl (ERR_ROCTO_MISSING_DATA ''Query'' ''query'')
        else Inl (ERR_ROCTO_MISSING_NULL ''Query'' ''query''))
     else if c < message_end - 1 then Inl (ERR_ROCTO_TRAILING_CHARS ''Query'')
     else Inr \<lparr>query_length = L, query_query = cstr data\<rparr>)))))"

section \<open>read_password_message\<close>

definition read_password_message :: "bytes \<Rightarrow> PasswordMessage res" where
  "read_password_message m =
     bindE (msg_length m) (\<lambda>L.
     bindE (msg_type m) (\<lambda>ty.
     bindE (from_mem OUT_OF_BOUNDS (rd_n m 5 (unat (L - 4)))) (\<lambda>data.
     let message_end = int (unat L) - 4 in
     bindE (guardE (ty = PSQL_PasswordMessage)
             (ERR_ROCTO_INVALID_MESSAGE_TYPE ''PasswordMessage'' ty PSQL_PasswordMessage)) (\<lambda>_.
     bindE (from_mem OUT_OF_BOUNDS (scan_nul data 0 message_end)) (\<lambda>c.
     if c = message_end then
       (if L = 4 then Inl (ERR_ROCTO_MISSING_DATA ''PasswordMessage'' ''password'')
        else Inl (ERR_ROCTO_MISSING_NULL ''PasswordMessage'' ''password''))
     else if c < message_end - 1 then Inl (ERR_ROCTO_TRAILING_CHARS ''PasswordMessage'')
     else Inr \<lparr>password_length = L, password_password = cstr data\<rparr>)))))"

section \<open>read_execute\<close>

definition str_at :: "bytes \<Rightarrow> int \<Rightarrow> bytes" where
  "str_at blk p = cstr (drop (nat p) blk)"

lemmas [wire_simps] = str_at_def

definition read_execute :: "bytes \<Rightarrow> Execute res" where
  "read_execute m =
     bindE (copy_message 4 m) (\<lambda>(L, blk).
     let last_byte = data_start + int (unat (L - 4)) in
     bindE (from_mem OUT_OF_BOUNDS (rd blk 0)) (\<lambda>ty.
     bindE (guardE (ty = PSQL_Execute) (ERR_ROCTO_INVALID_MESSAGE_TYPE ''Execute'' ty PSQL_Execute)) (\<lambda>_.
     bindE (from_mem OUT_OF_BOUNDS (scan_nul blk data_start last_byte)) (\<lambda>c.
     bindE (guardE (c \<noteq> last_byte) (ERR_ROCTO_MISSING_NULL ''Execute'' ''source'')) (\<lambda>_.
     let cur = c + 1 in
     bindE (guardE (cur + 4 \<le> last_byte) (ERR_ROCTO_MISSING_DATA ''Execute'' ''number of rows to return'')) (\<lambda>_.
     bindE (guardE (cur = last_byte - 4) (ERR_ROCTO_TRAILING_CHARS ''Execute'')) (\<lambda>_.
     bindE (from_mem OUT_OF_BOUNDS (rd_n blk cur 4)) (\<lambda>bs.
     Inr \<lparr>execute_source = str_at blk data_start, execute_rows_to_return = ntohl bs\<rparr>))))))))"

section \<open>read_close and read_describe\<close>

definition read_close :: "bytes \<Rightarrow> Close res" where
  "read_close m =
     bindE (copy_message 0 m) (\<lambda>(L, blk).
     let last_byte = 6 + int (unat (L - 4 - 1)) in
     bindE (from_mem OUT_OF_BOUNDS (rd blk 0)) (\<lambda>ty.
     bindE (guardE (ty = PSQL_Close) (ERR_ROCTO_INVALID_MESSAGE_TYPE '''' ty PSQL_Close)) (\<lambda>_.
     bindE (from_mem OUT_OF_BOUNDS (rd blk 5)) (\<lambda>item.
     bindE (guardE (item = ch CHR ''S'' \<or> item = ch CHR ''P'') (ERR_ROCTO_INVALID_ITEM_VALUE ''Close'' item)) (\<lambda>_.
     bindE (from_mem OUT_OF_BOUNDS (scan_nul blk 6 last_byte)) (\<lambda>c.
     let cur = c + 1 in
     bindE (guardE (cur \<le> last_byte) (ERR_ROCTO_MISSING_NULL ''Close'' ''data'')) (\<lambda>_.
     bindE (guardE (last_byte \<le> cur) (ERR_ROCTO_TRAILING_CHARS ''Close'')) (\<lambda>_.
     Inr \<lparr>close_type = ty, close_length = L, close_item = item, close_data = str_at blk 6\<rparr>))))))))"

text \<open>
  \<open>read_describe\<close> scans for the terminator with no bound: \<open>while ('\0' != *cur_pointer)\<close>. The bound of
  the model's scan is the end of the allocation, where a further read would be out of bounds.
\<close>

definition read_describe :: "bytes \<Rightarrow> Describe res" where
  "read_describe m =
     bindE (copy_message 5 m) (\<lambda>(L, blk).
     let last_byte = 6 + int (unat (L - 4 - 1)) in
     bindE (from_mem OUT_OF_BOUNDS (rd blk 0)) (\<lambda>ty.
     bindE (guardE (ty = ch CHR ''D'') (ERR_ROCTO_INVALID_MESSAGE_TYPE ''Describe'' ty PSQL_Describe)) (\<lambda>_.
     bindE (from_mem OUT_OF_BOUNDS (rd blk 5)) (\<lambda>item.
     bindE (guardE (item = ch CHR ''S'' \<or> item = ch CHR ''P'') (ERR_ROCTO_INVALID_ITEM_VALUE ''Describe'' item)) (\<lambda>_.
     bindE (from_mem OUT_OF_BOUNDS (scan_nul blk 6 (int (length blk) + 1))) (\<lambda>c.
     let cur = c + 1 in
     bindE (guardE (cur \<le> last_byte) (ERR_ROCTO_MISSING_NULL ''Describe'' ''name'')) (\<lambda>_.
     bindE (guardE (last_byte \<le> cur) (ERR_ROCTO_TRAILING_CHARS ''Describe'')) (\<lambda>_.
     Inr \<lparr>describe_type = ty, describe_length = L, describe_item = item, describe_name = str_at blk 6\<rparr>))))))))"

section \<open>read_sync and read_flush\<close>

definition read_sync :: "bytes \<Rightarrow> Sync res" where
  "read_sync m =
     bindE (msg_type m) (\<lambda>ty.
     bindE (guardE (ty = PSQL_Sync) (ERR_ROCTO_INVALID_MESSAGE_TYPE ''Sync'' ty PSQL_Sync)) (\<lambda>_.
     bindE (msg_length m) (\<lambda>L.
     bindE (guardE (L = 4) (ERR_ROCTO_INVALID_INT_VALUE ''Sync'' ''length'' (sint L) 4)) (\<lambda>_.
     Inr \<lparr>sync_type = ty, sync_length = L\<rparr>))))"

definition read_flush :: "bytes \<Rightarrow> Flush res" where
  "read_flush m =
     bindE (msg_type m) (\<lambda>ty.
     bindE (guardE (ty = PSQL_Flush) (ERR_ROCTO_INVALID_MESSAGE_TYPE ''Flush'' ty PSQL_Flush)) (\<lambda>_.
     bindE (msg_length m) (\<lambda>L.
     bindE (guardE (L = 4) (ERR_ROCTO_INVALID_INT_VALUE ''Flush'' ''length'' (sint L) 4)) (\<lambda>_.
     Inr \<lparr>flush_type = PSQL_Flush, flush_length = L\<rparr>))))"

section \<open>read_parse\<close>

text \<open>The copy of the data types into their own array, converted one by one.\<close>

fun read_parm_data_types :: "bytes \<Rightarrow> int \<Rightarrow> nat \<Rightarrow> 32 word list res" where
  "read_parm_data_types blk p 0 = Inr []"
| "read_parm_data_types blk p (Suc n) =
     bindE (from_mem OUT_OF_BOUNDS (rd_n blk p 4)) (\<lambda>bs.
     bindE (read_parm_data_types blk (p + 4) n) (\<lambda>ts. Inr (ntohl bs # ts)))"

definition read_parse :: "bytes \<Rightarrow> Parse res" where
  "read_parse m =
     bindE (copy_message 4 m) (\<lambda>(L, blk).
     bindE (from_mem OUT_OF_BOUNDS (rd blk 0)) (\<lambda>ty.
     bindE (guardE (ty = PSQL_Parse) (ERR_ROCTO_INVALID_MESSAGE_TYPE ''Parse'' ty PSQL_Parse)) (\<lambda>_.
     let last_byte = data_start + int (unat (L - 4)) in
     bindE (from_mem OUT_OF_BOUNDS (scan_nul blk data_start last_byte)) (\<lambda>c.
     bindE (guardE (c \<noteq> last_byte) (ERR_ROCTO_MISSING_NULL ''Parse'' ''destination'')) (\<lambda>_.
     bindE (guardE (c + 1 \<noteq> last_byte) (ERR_ROCTO_MISSING_DATA ''Parse'' ''destination or query'')) (\<lambda>_.
     let q = c + 1 in
     bindE (from_mem OUT_OF_BOUNDS (scan_nul blk q last_byte)) (\<lambda>d.
     bindE (from_mem OUT_OF_BOUNDS (rd blk d)) (\<lambda>b.
     bindE (guardE (b = 0 \<and> d \<noteq> last_byte) (ERR_ROCTO_MISSING_NULL ''Parse'' ''query'')) (\<lambda>_.
     let cur = d + 1 in
     bindE (guardE (cur \<noteq> last_byte) (ERR_ROCTO_MISSING_DATA ''Parse'' ''number of parameter data types'')) (\<lambda>_.
     bindE (from_mem OUT_OF_BOUNDS (rd_n blk cur 2)) (\<lambda>nb.
     let num = ntohs nb in
     bindE (guardE (0 \<le> sint num) (ERR_INVALID_NUMBER ''Parse'' ''parameter data types'' (sint num))) (\<lambda>_.
     let cur2 = cur + 2 in
     bindE (guardE (last_byte \<le> cur2 + 4 * sint num) (ERR_ROCTO_TOO_MANY_VALUES ''Parse'' ''parameter data types'')) (\<lambda>_.
     bindE (guardE (cur2 + 4 * sint num \<le> last_byte) (ERR_ROCTO_MISSING_DATA ''Parse'' ''parameter data types'')) (\<lambda>_.
     bindE (read_parm_data_types blk cur2 (nat (sint num))) (\<lambda>ts.
     Inr \<lparr>parse_dest = str_at blk data_start, parse_query = str_at blk q,
          parse_num_parm_data_types = num, parse_parm_data_types = ts\<rparr>)))))))))))))))"

section \<open>read_bind\<close>

text \<open>
  Format codes are converted in place (\<open>x[i] = ntohs(x[i])\<close>), so on the little-endian hosts Octo runs
  on the two bytes of each code are swapped in the block; a parameter with a negative length moves
  the cursor back and can read them again.
\<close>

definition wr_n :: "bytes \<Rightarrow> int \<Rightarrow> bytes \<Rightarrow> bytes" where
  "wr_n m i bs = take (nat i) m @ bs @ drop (nat i + length bs) m"

lemmas [wire_simps] = wr_n_def

fun read_format_codes :: "string \<Rightarrow> bytes \<Rightarrow> int \<Rightarrow> nat \<Rightarrow> (bytes \<times> 16 word list) res" where
  "read_format_codes what blk p 0 = Inr (blk, [])"
| "read_format_codes what blk p (Suc n) =
     bindE (from_mem OUT_OF_BOUNDS (rd_n blk p 2)) (\<lambda>bs.
     let code = ntohs bs; blk' = wr_n blk p (rev bs) in
     bindE (guardE (code = 0 \<or> code = 1) (ERR_ROCTO_INVALID_FORMAT_CODE what (sint code))) (\<lambda>_.
     bindE (read_format_codes what blk' (p + 2) n) (\<lambda>(blk'', cs).
     Inr (blk'', code # cs))))"

text \<open>
  The parameter loop: the length is read through a \<open>long int *\<close>, so eight bytes must be readable; the
  cursor moves by the signed length.
\<close>

fun read_bind_parms :: "bytes \<Rightarrow> int \<Rightarrow> int \<Rightarrow> nat \<Rightarrow> (int \<times> BindParm list) res" where
  "read_bind_parms blk last_byte cur 0 = Inr (cur, [])"
| "read_bind_parms blk last_byte cur (Suc n) =
     (let cur1 = cur + 4 in
     bindE (guardE (cur1 \<le> last_byte) (ERR_ROCTO_MISSING_DATA ''Bind'' ''parameters'')) (\<lambda>_.
     bindE (from_mem OUT_OF_BOUNDS (rd_n blk cur 8)) (\<lambda>bs.
     let len = ntohl (take 4 bs); cur2 = cur1 + sint len in
     bindE (guardE (cur2 \<le> last_byte) (ERR_ROCTO_MISSING_DATA ''Bind'' ''parameters'')) (\<lambda>_.
     bindE (read_bind_parms blk last_byte cur2 n) (\<lambda>(cur3, ps).
     Inr (cur3, \<lparr>parm_length = len, parm_value = cur1\<rparr> # ps))))))"

text \<open>
  The result pairs the structure with the errors reported while the message is still accepted
  (trailing characters only produce a report).
\<close>

definition read_bind :: "bytes \<Rightarrow> (Bind \<times> rocto_error list) res" where
  "read_bind m =
     bindE (copy_message 4 m) (\<lambda>(L, blk).
     bindE (from_mem OUT_OF_BOUNDS (rd blk 0)) (\<lambda>ty.
     bindE (guardE (ty = PSQL_Bind) (ERR_ROCTO_INVALID_MESSAGE_TYPE ''Bind'' ty PSQL_Bind)) (\<lambda>_.
     let last_byte = data_start + int (unat (L - 4)) in
     bindE (from_mem OUT_OF_BOUNDS (scan_nul blk data_start last_byte)) (\<lambda>c.
     bindE (guardE (c \<noteq> last_byte) (ERR_ROCTO_MISSING_NULL ''Bind'' ''destination'')) (\<lambda>_.
     let source = c + 1 in
     bindE (from_mem OUT_OF_BOUNDS (scan_nul blk source last_byte)) (\<lambda>d.
     bindE (guardE (d \<noteq> last_byte) (ERR_ROCTO_MISSING_NULL ''Bind'' ''source'')) (\<lambda>_.
     let cur = d + 1 in
     bindE (from_mem OUT_OF_BOUNDS (rd_n blk cur 2)) (\<lambda>nb.
     let nfmt = ntohs nb; cur1 = cur + 2 in
     bindE (guardE (0 \<le> sint nfmt) (ERR_INVALID_NUMBER ''Bind'' ''parameter format codes'' (sint nfmt))) (\<lambda>_.
     bindE (guardE (cur1 \<le> last_byte) (ERR_ROCTO_MISSING_DATA ''Bind'' ''number of parameter format codes'')) (\<lambda>_.
     let cur2 = cur1 + 2 * sint nfmt in
     bindE (guardE (cur2 \<le> last_byte) (ERR_ROCTO_MISSING_DATA ''Bind'' ''parameter format codes'')) (\<lambda>_.
     bindE (read_format_codes ''parameter'' blk cur1 (nat (sint nfmt))) (\<lambda>(blk2, fmts).
     bindE (from_mem OUT_OF_BOUNDS (rd_n blk2 cur2 2)) (\<lambda>pb.
     let nparm = ntohs pb; cur3 = cur2 + 2 in
     bindE (guardE (0 \<le> sint nparm) (ERR_INVALID_NUMBER ''Bind'' ''parameters'' (sint nparm))) (\<lambda>_.
     bindE (guardE (sint nfmt \<le> sint nparm) (ERR_ROCTO_TOO_MANY_VALUES ''Bind'' ''parameter format codes'')) (\<lambda>_.
     bindE (guardE (sint nfmt \<le> 1 \<or> nfmt = nparm) (ERR_ROCTO_TOO_FEW_VALUES ''Bind'' ''parameter format codes'')) (\<lambda>_.
     bindE (guardE (cur3 \<le> last_byte) (ERR_ROCTO_MISSING_DATA ''Bind'' ''parameters'')) (\<lambda>_.
     bindE (read_bind_parms blk2 last_byte cur3 (nat (sint nparm))) (\<lambda>(cur4, parms).
     bindE (from_mem OUT_OF_BOUNDS (rd_n blk2 cur4 2)) (\<lambda>rb.
     let nres = ntohs rb; cur5 = cur4 + 2 in
     bindE (guardE (0 \<le> sint nres) (ERR_INVALID_NUMBER ''Bind'' ''result column format codes'' (sint nres))) (\<lambda>_.
     let cur6 = cur5 + 2 * sint nres in
     bindE (guardE (nres = 0 \<or> cur6 \<le> last_byte) (ERR_ROCTO_MISSING_DATA ''Bind'' ''result column format codes'')) (\<lambda>_.
     bindE (read_format_codes ''result column'' blk2 cur5 (nat (sint nres))) (\<lambda>(blk3, res).
     Inr (\<lparr>bind_block = blk3, bind_dest = data_start, bind_source = source,
           bind_num_parm_format_codes = nfmt, bind_parm_format_codes = fmts,
           bind_num_parms = nparm, bind_parms = parms,
           bind_num_result_col_format_codes = nres, bind_result_col_format_codes = res\<rparr>,
          if cur6 = last_byte then [] else [ERR_ROCTO_TRAILING_CHARS ''Bind''])))))))))))))))))))))))"

section \<open>Startup-phase readers\<close>

text \<open>
  \<open>read_ssl_request\<close> and \<open>read_cancel_request\<close> look at the first eight bytes \<open>data\<close> received on a
  connection. \<open>read_cancel_request\<close> then reads eight more bytes from the socket; \<open>pid_key\<close> is what that
  \<open>read_bytes\<close> call left in the structure's \<open>pid\<close> and \<open>secret_key\<close> (its return code is ignored).
\<close>

definition read_ssl_request :: "bytes \<Rightarrow> SSLRequest res" where
  "read_ssl_request data =
     bindE (from_mem OUT_OF_BOUNDS (rd_n data 0 8)) (\<lambda>bs.
     let L = ntohl (take 4 bs); code = ntohl (drop 4 bs) in
     bindE (guardE (L = 8) (ERR_ROCTO_INVALID_INT_VALUE ''SSLRequest'' ''length'' (sint L) 8)) (\<lambda>_.
     bindE (guardE (code = 80877103)
             (ERR_ROCTO_INVALID_INT_VALUE ''SSLRequest'' ''request code'' (sint code) 80877103)) (\<lambda>_.
     Inr \<lparr>ssl_length = L, ssl_request_code = code\<rparr>)))"

text \<open>
  The C code first grows a \<open>data\<close> buffer shorter than a \<open>CancelRequest\<close> to 16 bytes, keeping its
  contents; the new bytes are whatever \<open>malloc\<close> returned, \<open>fresh\<close>. \<open>None\<close> is a NULL return without a
  report.
\<close>

definition read_cancel_request :: "bytes \<Rightarrow> bytes \<Rightarrow> bytes \<Rightarrow> bytes \<times> (rocto_error option + CancelRequest)" where
  "read_cancel_request fresh pid_key data =
     (if length data < 8 then (data, Inl None)
      else
        let data' = (if length data < 16 then data @ take (16 - length data) fresh else data);
            L = ntohl (take 4 data'); code = ntohl (take 4 (drop 4 data')) in
        if L \<noteq> 16 then (data', Inl None)
        else if code \<noteq> 80877102 then
          (data', Inl (Some (ERR_ROCTO_INVALID_INT_VALUE ''CancelRequest'' ''request code'' (sint code) 80877102)))
        else (data', Inr \<lparr>cancel_length = L, cancel_request_code = code,
                cancel_pid = ntohl (take 4 pid_key), cancel_secret_key = ntohl (take 4 (drop 4 pid_key))\<rparr>))"

text \<open>
  The parameter list of a startup message: names and values alternate, each NUL-terminated, and an
  empty name ends the list. \<open>startup_count\<close> is the first pass, which counts and validates,
  \<open>startup_fill\<close> the second, which fills the array.
\<close>

function startup_count :: "bytes \<Rightarrow> int \<Rightarrow> int \<Rightarrow> nat \<Rightarrow> (int \<times> nat) res" where
  "startup_count d c message_end n =
     (if c < message_end then
        bindE (from_mem OUT_OF_BOUNDS (rd d c)) (\<lambda>b.
        if b = 0 then Inr (c, n)
        else
          bindE (from_mem OUT_OF_BOUNDS (scan_nul d c message_end)) (\<lambda>c1.
          bindE (guardE (c1 \<noteq> message_end) (ERR_ROCTO_MISSING_DATA ''StartupMessage'' ''parameter name'')) (\<lambda>_.
          bindE (from_mem OUT_OF_BOUNDS (scan_nul d (c1 + 1) message_end)) (\<lambda>c2.
          bindE (guardE (c2 \<noteq> message_end) (ERR_ROCTO_MISSING_NULL ''StartupMessage'' ''name or value'')) (\<lambda>_.
          startup_count d (c2 + 1) message_end (Suc n))))))
      else Inr (c, n))"
  by pat_completeness auto
termination
  by (relation "measure (\<lambda>(d, c, message_end, n). nat (message_end - c))")
    (auto dest!: scan_nul_bounds)

declare startup_count.simps [simp del]
lemmas [wire_simps] = startup_count.simps

function startup_fill :: "bytes \<Rightarrow> int \<Rightarrow> int \<Rightarrow> StartupMessageParm list res" where
  "startup_fill d c message_end =
     (if c < message_end then
        bindE (from_mem OUT_OF_BOUNDS (rd d c)) (\<lambda>b.
        if b = 0 then Inr []
        else
          bindE (from_mem OUT_OF_BOUNDS (scan_nul d c message_end)) (\<lambda>c1.
          bindE (from_mem OUT_OF_BOUNDS (scan_nul d (c1 + 1) message_end)) (\<lambda>c2.
          bindE (startup_fill d (c2 + 1) message_end) (\<lambda>ps.
          Inr (\<lparr>parm_name = str_at d c, parm_val = str_at d (c1 + 1)\<rparr> # ps)))))
      else Inr [])"
  by pat_completeness auto
termination
  by (relation "measure (\<lambda>(d, c, message_end). nat (message_end - c))")
    (auto dest!: scan_nul_bounds)

declare startup_fill.simps [simp del]
lemmas [wire_simps] = startup_fill.simps

text \<open>
  \<open>recv_body n\<close> is what the \<open>read_bytes\<close> call for \<open>n\<close> bytes left in \<open>ret->data\<close> (its return code is
  ignored). \<open>data_ptr\<close> is the memory of the caller's pointer variable: the second \<open>memcpy\<close> copies
  from \<open>data\<close>, the address of the caller's pointer, and not from \<open>*data\<close>, so the length and version
  fields of the returned structure are bytes of a pointer.
\<close>

definition read_startup_message :: "bytes \<Rightarrow> (nat \<Rightarrow> bytes) \<Rightarrow> bytes \<Rightarrow> StartupMessage res" where
  "read_startup_message data_ptr recv_body data =
     bindE (from_mem OUT_OF_BOUNDS (rd_n data 0 8)) (\<lambda>hdr.
     let L = ntohl (take 4 hdr); version = ntohl (drop 4 hdr); to_read = sint L in
     bindE (guardE (version = 0x00030000)
             (ERR_ROCTO_INVALID_VERSION ''StartupMessage'' (sint version) 0x00030000)) (\<lambda>_.
     bindE (guardE (L \<noteq> 8) (ERR_ROCTO_MISSING_NULL ''StartupMessage'' ''parameter list'')) (\<lambda>_.
     bindE (guardE (0 \<le> to_read) (MALLOC_FAILED to_read)) (\<lambda>_.
     let d = (if to_read < 8 then [] else recv_body (nat (to_read - 8))); message_end = to_read - 8 in
     bindE (startup_count d 0 message_end 0) (\<lambda>(c, num_parms).
     bindE (guardE (c \<noteq> message_end) (ERR_ROCTO_MISSING_NULL ''StartupMessage'' ''parameter list'')) (\<lambda>_.
     bindE (from_mem OUT_OF_BOUNDS (rd d c)) (\<lambda>b.
     bindE (guardE (b = 0) (ERR_ROCTO_MISSING_NULL ''StartupMessage'' ''parameter list'')) (\<lambda>_.
     bindE (guardE (c + 1 = message_end) (ERR_ROCTO_TRAILING_CHARS ''StartupMessage'')) (\<lambda>_.
     bindE (guardE (num_parms \<noteq> 0) (ERR_ROCTO_MISSING_USERNAME ''read_startup_message'')) (\<lambda>_.
     bindE (startup_fill d 0 message_end) (\<lambda>ps.
     Inr \<lparr>startup_parameters = ps, startup_num_parameters = length ps,
          startup_length_bytes = take 8 data_ptr\<rparr>)))))))))))"

section \<open>Reading a framed message\<close>

lemma unat_frame_minus4:
  assumes "length d < 2 ^ 31 - 4"
  shows "unat ((of_nat (length d + 4) :: 32 word) - 4) = length d"
proof -
  have "(of_nat (length d + 4) :: 32 word) - 4 = of_nat (length d)"
    by simp
  moreover have "length d < 2 ^ 32"
    using assms by simp
  ultimately show ?thesis
    by (simp only: unat_of_nat) simp
qed

lemma frame_length_4_iff:
  assumes "length d < 2 ^ 31 - 4"
  shows "(of_nat (length d + 4) :: 32 word) = 4 \<longleftrightarrow> d = []"
  using unat_frame_length [OF assms] by (auto simp: word_unat_eq_iff)

lemma rd_n_frame_data:
  "rd_n (frame t d @ rest) 5 (length d) = Some d"
  by (simp add: rd_n_def frame_def)

lemma copy_message_frame:
  assumes "length d < 2 ^ 31 - 4"
  shows "copy_message pad (frame t d @ rest) = Inr (of_nat (length d + 4), frame t d @ replicate pad 0)"
proof -
  let ?L = "of_nat (length d + 4) :: 32 word"
  have "?L + 1 = of_nat (length d + 5)" by simp
  moreover have "length d + 5 < 2 ^ 32" using assms by simp
  ultimately have n: "unat (?L + 1) = length d + 5"
    by (simp only: unat_of_nat) simp
  have "rd_n (frame t d @ rest) 0 (length d + 5) = Some (frame t d)"
    by (simp add: rd_n_def)
  with n show ?thesis
    using unat_frame_length [OF assms] frame_fields(2) [OF assms, of t rest]
    by (simp add: copy_message_def Let_def)
qed

lemma scan_nul_frame:
  "scan_nul (frame t d @ pad) 5 (5 + int (length d)) = Some (5 + int (length (cstr d)))"
  using scan_nul_region [of "hdr t (length d)" d pad]
  by (simp add: frame_def)

lemmas reader_frame =
  frame_fields unat_frame_minus4 unat_frame_length frame_length_4_iff copy_message_frame

end
