(* ===== verification/Startup_Laws.thy ===== *)
theory Startup_Laws
  imports Message_Read
begin

text \<open>
  The startup message. \<open>read_startup_message\<close> walks the parameter list twice: a first pass counts and
  validates, the array is allocated with that count, and a second pass fills it without checks.
  The lemmas relate the two passes, show that neither leaves the message, and give the round trip.
\<close>

section \<open>The two passes agree\<close>

lemma startup_passes_agree:
  "startup_count d c e n = Inr (c', n') \<Longrightarrow> \<exists>ps. startup_fill d c e = Inr ps \<and> n' = n + length ps"
proof (induction d c e n rule: startup_count.induct)
  case (1 d c e n)
  show ?case
  proof (cases "c < e")
    case False
    then have "startup_fill d c e = Inr []" "startup_count d c e n = Inr (c, n)"
      by (simp_all add: startup_count.simps [of d c] startup_fill.simps [of d c])
    with "1.prems" show ?thesis by simp
  next
    case True
    with "1.prems" obtain b where b: "rd d c = Some b"
      by (cases "rd d c") (simp_all add: startup_count.simps [of d c])
    show ?thesis
    proof (cases "b = 0")
      case True
      with \<open>c < e\<close> b have "startup_fill d c e = Inr []" "startup_count d c e n = Inr (c, n)"
        by (simp_all add: startup_count.simps [of d c] startup_fill.simps [of d c])
      with "1.prems" show ?thesis by simp
    next
      case False
      with \<open>c < e\<close> b "1.prems" obtain c1 c2 where s: "scan_nul d c e = Some c1" "c1 \<noteq> e"
        "scan_nul d (c1 + 1) e = Some c2" "c2 \<noteq> e" "startup_count d (c2 + 1) e (Suc n) = Inr (c', n')"
        by (subst (asm) startup_count.simps) (auto simp: bindE_Inr_iff)
      have "\<exists>ps. startup_fill d (c2 + 1) e = Inr ps \<and> n' = Suc n + length ps"
        by (rule "1.IH" [of b c1 _ c2]) (use \<open>c < e\<close> b False s in auto)
      with \<open>c < e\<close> b False s show ?thesis
        by (subst startup_fill.simps) auto
    qed
  qed
qed

section \<open>Bounds\<close>

lemma startup_count_safe:
  "0 \<le> c \<Longrightarrow> e \<le> int (length d) \<Longrightarrow> startup_count d c e n \<noteq> Inl OUT_OF_BOUNDS"
proof (induction d c e n rule: startup_count.induct)
  case (1 d c e n)
  show ?case
  proof
    assume oob: "startup_count d c e n = Inl OUT_OF_BOUNDS"
    then have ce: "c < e"
      by (subst (asm) startup_count.simps) (auto split: if_splits)
    then obtain b where b: "rd d c = Some b"
      using "1.prems" by (simp add: rd_def)
    have b0: "b \<noteq> 0"
      using oob ce b by (subst (asm) startup_count.simps) (auto split: if_splits)
    obtain c1 where c1: "scan_nul d c e = Some c1"
      using scan_nul_safe [of c e d] "1.prems" by auto
    with scan_nul_bounds [OF c1] "1.prems" have "0 \<le> c1 + 1" by simp
    with scan_nul_safe [of "c1 + 1" e d] "1.prems" obtain c2 where c2: "scan_nul d (c1 + 1) e = Some c2"
      by auto
    have nn: "0 \<le> c2 + 1"
      using scan_nul_bounds [OF c1] scan_nul_bounds [OF c2] "1.prems" by simp
    have "c1 \<noteq> e" "c2 \<noteq> e" "startup_count d (c2 + 1) e (Suc n) = Inl OUT_OF_BOUNDS"
      using oob ce b b0 c1 c2 by (subst (asm) startup_count.simps; auto simp: guardE_def split: if_splits)+
    moreover have "startup_count d (c2 + 1) e (Suc n) \<noteq> Inl OUT_OF_BOUNDS"
      by (rule "1.IH" [of b c1 _ c2]) (use ce b b0 c1 c2 nn calculation "1.prems" in auto)
    ultimately show False by simp
  qed
qed

lemma startup_count_bounds:
  "startup_count d c e n = Inr (c', n') \<Longrightarrow> c \<le> e \<Longrightarrow> c \<le> c' \<and> c' \<le> e"
proof (induction d c e n rule: startup_count.induct)
  case (1 d c e n)
  show ?case
  proof (cases "c < e \<and> rd d c \<noteq> Some 0")
    case False
    then have "startup_count d c e n = Inr (c, n)"
      by (subst startup_count.simps) auto
    with "1.prems" show ?thesis by simp
  next
    case True
    with "1.prems" obtain b where b: "rd d c = Some b" "b \<noteq> 0"
      by (cases "rd d c") (auto simp: startup_count.simps [of d c])
    with True "1.prems"(1) obtain c1 c2 where s: "scan_nul d c e = Some c1" "c1 \<noteq> e"
        "scan_nul d (c1 + 1) e = Some c2" "c2 \<noteq> e" "startup_count d (c2 + 1) e (Suc n) = Inr (c', n')"
      by (subst (asm) startup_count.simps) (auto simp: bindE_Inr_iff)
    have "c2 + 1 \<le> e"
      using scan_nul_bounds [OF s(1)] scan_nul_bounds [OF s(3)] s(2,4) True by auto
    then have "c2 + 1 \<le> c' \<and> c' \<le> e"
      by (intro "1.IH" [of b c1 _ c2]) (use True b s in auto)
    moreover have "c \<le> c2 + 1"
      using scan_nul_bounds [OF s(1)] scan_nul_bounds [OF s(3)] by auto
    ultimately show ?thesis by auto
  qed
qed

section \<open>Round trip\<close>

text \<open>The parameter list as a client writes it: names and values with their NULs, then an empty name.\<close>

definition enc_startup_parm :: "StartupMessageParm \<Rightarrow> bytes" where
  "enc_startup_parm p = parm_name p @ 0 # parm_val p @ [0]"

definition enc_startup :: "StartupMessageParm list \<Rightarrow> bytes" where
  "enc_startup ps = concat (map enc_startup_parm ps) @ [0]"

definition startup_parm_ok :: "StartupMessageParm \<Rightarrow> bool" where
  "startup_parm_ok p \<longleftrightarrow> parm_name p \<noteq> [] \<and> nul_free (parm_name p) \<and> nul_free (parm_val p)"

text \<open>Both passes over one encoded parameter at the end of \<open>pre\<close>.\<close>

lemma startup_parm_scans:
  fixes pre post
  assumes "startup_parm_ok p"
  defines "c \<equiv> int (length pre)" and "x \<equiv> pre @ enc_startup_parm p @ post"
  assumes "c + int (length (enc_startup_parm p)) < e"
  shows "rd x c = Some (hd (parm_name p))"
    "scan_nul x c e = Some (c + int (length (parm_name p)))"
    "scan_nul x (c + int (length (parm_name p)) + 1) e = Some (c + int (length (enc_startup_parm p)) - 1)"
    "str_at x c = parm_name p" "str_at x (c + int (length (parm_name p)) + 1) = parm_val p"
proof -
  have n: "nul_free (parm_name p)" "nul_free (parm_val p)" "parm_name p \<noteq> []"
    using assms(1) by (simp_all add: startup_parm_ok_def)
  have x: "x = pre @ parm_name p @ 0 # parm_val p @ 0 # post"
    by (simp add: x_def enc_startup_parm_def)
  show "rd x c = Some (hd (parm_name p))"
    using n(3) by (simp add: x c_def rd_def nth_append hd_conv_nth)
  show "scan_nul x c e = Some (c + int (length (parm_name p)))"
    unfolding x c_def by (rule scan_nul_string) (use n assms(4) in \<open>auto simp: c_def enc_startup_parm_def\<close>)
  show "scan_nul x (c + int (length (parm_name p)) + 1) e = Some (c + int (length (enc_startup_parm p)) - 1)"
    using scan_nul_string [OF n(2), of "pre @ parm_name p @ [0]" e post] assms(4)
    by (simp add: x c_def enc_startup_parm_def algebra_simps)
  show "str_at x c = parm_name p"
    using n by (simp add: x c_def str_at_def)
  show "str_at x (c + int (length (parm_name p)) + 1) = parm_val p"
    using n by (simp add: x c_def str_at_def nat_add_distrib)
qed

lemma startup_passes_encode:
  assumes "\<forall>p\<in>set ps. startup_parm_ok p"
    and "int (length pre) + int (length (enc_startup ps)) = e"
  shows "startup_count (pre @ enc_startup ps) (int (length pre)) e n = Inr (e - 1, n + length ps)
    \<and> startup_fill (pre @ enc_startup ps) (int (length pre)) e = Inr ps"
  using assms
proof (induction ps arbitrary: pre n)
  case Nil
  then have "int (length pre) < e" "rd (pre @ enc_startup []) (int (length pre)) = Some 0"
    by (auto simp: enc_startup_def rd_def)
  with Nil show ?case
    by (simp add: startup_count.simps [of "pre @ enc_startup []"] startup_fill.simps [of "pre @ enc_startup []"])
      (simp add: enc_startup_def)
next
  case (Cons p ps)
  let ?c = "int (length pre)" and ?k = "int (length (enc_startup_parm p))"
  let ?x = "pre @ enc_startup (p # ps)"
  have x: "?x = pre @ enc_startup_parm p @ enc_startup ps" "?x = (pre @ enc_startup_parm p) @ enc_startup ps"
    by (simp_all add: enc_startup_def)
  have p: "startup_parm_ok p" using Cons.prems by simp
  have lt: "?c + ?k < e" "?c < e" using Cons.prems(2) by (simp_all add: enc_startup_def enc_startup_parm_def)
  note s = startup_parm_scans [OF p lt(1), where post = "enc_startup ps", folded x(1)]
  have nz: "hd (parm_name p) \<noteq> 0"
    using p by (cases "parm_name p") (auto simp: startup_parm_ok_def)
  have ne: "?c + int (length (parm_name p)) \<noteq> e" "?c + ?k - 1 \<noteq> e"
    using lt by (auto simp: enc_startup_parm_def)
  have "startup_count ((pre @ enc_startup_parm p) @ enc_startup ps) (int (length (pre @ enc_startup_parm p))) e (Suc n)
      = Inr (e - 1, Suc n + length ps)
    \<and> startup_fill ((pre @ enc_startup_parm p) @ enc_startup ps) (int (length (pre @ enc_startup_parm p))) e = Inr ps"
    by (rule Cons.IH) (use Cons.prems in \<open>auto simp: enc_startup_def\<close>)
  then have rec: "startup_count ?x (?c + ?k - 1 + 1) e (Suc n) = Inr (e - 1, Suc n + length ps)"
    "startup_fill ?x (?c + ?k - 1 + 1) e = Inr ps"
    unfolding x(2) by simp_all
  show ?case
  proof
    show "startup_count ?x ?c e n = Inr (e - 1, n + length (p # ps))"
      by (subst startup_count.simps)
        (simp only: lt s nz if_True if_False from_mem_simps bindE_simps guardE_def ne not_False_eq_True rec list.size, simp)
    show "startup_fill ?x ?c e = Inr (p # ps)"
      by (subst startup_fill.simps)
        (simp only: lt s nz if_True if_False from_mem_simps bindE_simps rec, simp)
  qed
qed

text \<open>The eight bytes that precede the parameter list: the length, which counts them, and version 3.0.\<close>

definition startup_header :: "nat \<Rightarrow> bytes" where
  "startup_header n = htonl (of_nat (n + 8)) @ htonl 0x00030000"

lemma read_startup_header:
  assumes "n < 2 ^ 31 - 8" "0 < n"
  defines "L \<equiv> ntohl (take 4 (startup_header n))"
  shows "rd_n (startup_header n @ r) 0 8 = Some (startup_header n)" "ntohl (drop 4 (startup_header n)) = 0x00030000"
    "sint L = int n + 8" "L \<noteq> 8"
proof -
  have L: "L = of_nat (n + 8)" by (simp add: L_def startup_header_def)
  show s: "sint L = int n + 8"
    using assms sint_of_nat32 [of "n + 8"] by (simp add: L)
  show "L \<noteq> 8"
  proof
    assume "L = 8"
    then have "sint L = sint (8 :: 32 word)" by (rule arg_cong)
    then show False using s assms(2) by simp
  qed
  show "rd_n (startup_header n @ r) 0 8 = Some (startup_header n)"
    by (rule rd_n_prefix) (simp add: startup_header_def)
  show "ntohl (drop 4 (startup_header n)) = 0x00030000"
    by (simp add: startup_header_def)
qed

section \<open>Properties\<close>

text \<open>
  a startup message with at least one parameter is parsed to the parameters the client sent, in
  order; the length and version fields of the result are the first eight bytes of the caller's
  pointer variable and not those of the message.
\<close>

theorem read_startup_roundtrip:
  assumes "\<forall>p\<in>set ps. startup_parm_ok p" and "ps \<noteq> []"
    and "length (enc_startup ps) < 2 ^ 31 - 8" and "recv_body (length (enc_startup ps)) = enc_startup ps"
  shows "read_startup_message data_ptr recv_body (startup_header (length (enc_startup ps)) @ r) =
    Inr \<lparr>startup_parameters = ps, startup_num_parameters = length ps, startup_length_bytes = take 8 data_ptr\<rparr>"
proof -
  let ?d = "enc_startup ps" and ?e = "int (length (enc_startup ps))"
  have pos: "0 < length ?d" by (simp add: enc_startup_def)
  have passes: "startup_count ?d 0 ?e 0 = Inr (?e - 1, length ps)" "startup_fill ?d 0 ?e = Inr ps"
    using startup_passes_encode [OF assms(1), of "[]" ?e 0] by simp_all
  have nul: "rd ?d (?e - 1) = Some 0"
    by (simp add: rd_def enc_startup_def nth_append)
  have e: "?e + 8 - 8 = ?e" "nat ?e = length ?d" by simp_all
  have g: "0 \<le> ?e + 8" "\<not> ?e + 8 < 8" "?e - 1 \<noteq> ?e" "?e - 1 + 1 = ?e" "length ps \<noteq> 0" "ps \<noteq> []"
    using assms(2) by simp_all
  show ?thesis
    unfolding read_startup_message_def Let_def read_startup_header [OF assms(3) pos] from_mem_simps bindE_simps
    by (simp only: read_startup_header(4) [OF assms(3) pos] guardE_def if_True if_False not_False_eq_True g e
        assms(4) passes prod.case bindE_simps from_mem_simps nul simp_thms)
qed

theorem read_startup_roundtrip_witness:
  "read_startup_message [7, 7, 7, 7, 7, 7, 7, 7, 7] (\<lambda>n. [117, 0, 97, 0, 0]) (startup_header 5 @ []) =
    Inr \<lparr>startup_parameters = [\<lparr>parm_name = [117], parm_val = [97]\<rparr>], startup_num_parameters = 1,
      startup_length_bytes = [7, 7, 7, 7, 7, 7, 7, 7]\<rparr>"
proof -
  let ?ps = "[\<lparr>parm_name = [117 :: byte], parm_val = [97]\<rparr>]"
  have e: "enc_startup ?ps = [117, 0, 97, 0, 0]"
    by (simp add: enc_startup_def enc_startup_parm_def)
  then have n: "length (enc_startup ?ps) = 5" by simp
  have "read_startup_message [7, 7, 7, 7, 7, 7, 7, 7, 7] (\<lambda>n. [117, 0, 97, 0, 0])
      (startup_header (length (enc_startup ?ps)) @ []) =
    Inr \<lparr>startup_parameters = ?ps, startup_num_parameters = length ?ps,
      startup_length_bytes = take 8 [7, 7, 7, 7, 7, 7, 7, 7, 7]\<rparr>"
  proof (rule read_startup_roundtrip)
    show "length (enc_startup ?ps) < 2 ^ 31 - 8" unfolding n by simp
  qed (simp_all add: startup_parm_ok_def e)
  then show ?thesis unfolding n by simp
qed

text \<open>
  the second pass of \<open>read_startup_message\<close>, which writes into an array sized by the first pass,
  writes exactly as many entries as the first pass counted, and no pass reads outside the message.
\<close>

theorem read_startup_safe:
  assumes "length (recv_body (nat (sint (ntohl (take 4 data)) - 8))) = nat (sint (ntohl (take 4 data)) - 8)"
    and "8 \<le> length data" and "0 \<le> sint (ntohl (take 4 data)) \<longrightarrow> 8 \<le> sint (ntohl (take 4 data))"
  shows "read_startup_message data_ptr recv_body data \<noteq> Inl OUT_OF_BOUNDS
    \<and> (\<forall>d c e c' n. startup_count d c e 0 = Inr (c', n) \<longrightarrow> (\<exists>ps. startup_fill d c e = Inr ps \<and> length ps = n))"
proof
  let ?n = "sint (ntohl (take 4 data)) - 8" let ?d = "recv_body (nat ?n)"
  show "read_startup_message data_ptr recv_body data \<noteq> Inl OUT_OF_BOUNDS"
  proof (cases "0 \<le> ?n")
    case True
    then have d: "?n = int (length ?d)" using assms(1) by simp
    have hd: "rd_n data 0 8 = Some (take 8 data)" "take 4 (take 8 data) = take 4 data"
      using assms(2) by (simp_all add: rd_n_def)
    have "c \<noteq> ?n \<Longrightarrow> rd ?d c \<noteq> None" if "startup_count ?d 0 ?n 0 = Inr (c, k)" for c k
      using startup_count_bounds [OF that True] d by (auto simp: rd_def)
    moreover have "startup_count ?d 0 ?n 0 \<noteq> Inl OUT_OF_BOUNDS"
      using startup_count_safe [of 0 ?n ?d] d by simp
    moreover have "startup_fill ?d 0 ?n \<noteq> Inl e" if "startup_count ?d 0 ?n 0 = Inr (c, k)" for c k e
      using startup_passes_agree [OF that] by auto
    moreover have "\<not> sint (ntohl (take 4 data)) < 8" using True by simp
    ultimately show ?thesis
      by (auto simp: read_startup_message_def Let_def hd bindE_Inl_iff split: prod.splits)
  next
    case False
    then have "sint (ntohl (take 4 data)) < 0" using assms(3) by auto
    then show ?thesis
      using assms(2) by (auto simp: read_startup_message_def Let_def rd_n_def bindE_Inl_iff)
  qed
  show "\<forall>d c e c' n. startup_count d c e 0 = Inr (c', n) \<longrightarrow> (\<exists>ps. startup_fill d c e = Inr ps \<and> length ps = n)"
    using startup_passes_agree by fastforce
qed

theorem read_startup_safe_witness:
  "read_startup_message [] (\<lambda>n. replicate n 1) [0, 0, 0, 12, 0, 3, 0, 0] \<noteq> Inl OUT_OF_BOUNDS"
  using read_startup_safe [of "\<lambda>n. replicate n 1" "[0, 0, 0, 12, 0, 3, 0, 0]" "[]"]
  by (simp add: ntohl_def be_nat_def)

end
