(* ===== verification/C_Library.thy ===== *)
theory C_Library
  imports Octo_Prelude
begin

text \<open>
  The C library functions the wire code uses on digits and letters: \<open>tolower\<close> in the C locale,
  \<open>printf\<close>'s \<open>%d\<close> and \<open>strtol\<close> with base 10 on a NUL-terminated string. \<open>strtol\<close> saturates at
  the bounds of a 64-bit \<open>long\<close>. The round trip \<open>strtol (fmt_d n) = n\<close> is shared by every
  component that passes integers as text.
\<close>

section \<open>Letters\<close>

definition is_upper :: "byte \<Rightarrow> bool" where
  "is_upper b \<longleftrightarrow> 65 \<le> unat b \<and> unat b \<le> 90"

definition tolower :: "byte \<Rightarrow> byte" where
  "tolower b = (if is_upper b then b + 32 else b)"

lemma unat_tolower: "unat (tolower b) = (if is_upper b then unat b + 32 else unat b)"
proof (cases "is_upper b")
  case True
  then have "unat b + 32 < 256" by (simp add: is_upper_def)
  then have "unat (b + 32) = unat b + 32"
    by (simp add: unat_word_ariths)
  with True show ?thesis by (simp add: tolower_def)
qed (simp add: tolower_def)

lemma tolower_eq_0_iff [simp]: "tolower b = 0 \<longleftrightarrow> b = 0"
  using unat_tolower [of b] by (auto simp: unat_eq_0 [symmetric] is_upper_def split: if_splits)

lemma tolower_idem [simp]: "tolower (tolower b) = tolower b"
  using unat_tolower [of b] by (auto simp: tolower_def [of "tolower b"] is_upper_def)

lemma nul_free_map_tolower [simp]: "nul_free (map tolower s) = nul_free s"
  by (induction s) simp_all

section \<open>Decimal output\<close>

fun dec_digits :: "nat \<Rightarrow> bytes" where
  "dec_digits n = (if n < 10 then [of_nat (48 + n)] else dec_digits (n div 10) @ [of_nat (48 + n mod 10)])"

declare dec_digits.simps [simp del]
lemmas [wire_simps] = dec_digits.simps

definition fmt_d :: "int \<Rightarrow> bytes" where
  "fmt_d n = (if n < 0 then 45 # dec_digits (nat (- n)) else dec_digits (nat n))"

lemma dec_digits_not_Nil [simp]: "dec_digits n \<noteq> []"
  by (subst dec_digits.simps) simp

lemma dec_digits_length: "n < 10 ^ k \<Longrightarrow> 0 < k \<Longrightarrow> length (dec_digits n) \<le> k"
proof (induction n arbitrary: k rule: dec_digits.induct)
  case (1 n)
  show ?case
  proof (cases "n < 10")
    case True
    with "1.prems" show ?thesis by (subst dec_digits.simps) simp
  next
    case False
    with "1.prems" obtain j where k: "k = Suc j" "0 < j"
      by (cases k; cases "k - 1") auto
    with "1.prems" have "n div 10 < 10 ^ j" by auto
    with "1.IH" [OF False _ k(2)] have "length (dec_digits (n div 10)) \<le> j" by blast
    with False k show ?thesis by (subst dec_digits.simps) simp
  qed
qed

definition is_digit :: "byte \<Rightarrow> bool" where
  "is_digit b \<longleftrightarrow> 48 \<le> unat b \<and> unat b \<le> 57"

lemma unat_digit: "d < 10 \<Longrightarrow> unat (of_nat (48 + d) :: byte) = 48 + d"
  by (simp only: unat_of_nat) simp

lemma is_digit_of_nat: "d < 10 \<Longrightarrow> is_digit (of_nat (48 + d))"
  unfolding is_digit_def by (simp only: unat_digit) simp

lemma dec_digits_all_digit: "\<forall>b\<in>set (dec_digits n). is_digit b"
proof (induction n rule: dec_digits.induct)
  case (1 n)
  show ?case
    using "1.IH" is_digit_of_nat [of n] is_digit_of_nat [of "n mod 10"]
    by (subst dec_digits.simps) (auto simp del: of_nat_add)
qed

lemma nul_free_fmt_d [simp]: "nul_free (fmt_d n)"
proof -
  have "nul_free (dec_digits k)" for k
    using dec_digits_all_digit [of k] by (auto simp: nul_free_def is_digit_def)
  then show ?thesis by (simp add: fmt_d_def)
qed

lemma fmt_d_length:
  assumes "- (2 ^ 31) \<le> n" "n < 2 ^ 31"
  shows "length (fmt_d n) \<le> 11"
proof -
  have "nat n < 10 ^ 10" "nat (- n) < 10 ^ 10"
    using assms by simp_all
  then have "length (dec_digits (nat n)) \<le> 10" "length (dec_digits (nat (- n))) \<le> 10"
    by (intro dec_digits_length; simp)+
  then show ?thesis by (simp add: fmt_d_def)
qed

section \<open>strtol\<close>

definition is_space :: "byte \<Rightarrow> bool" where
  "is_space b \<longleftrightarrow> b = 32 \<or> 9 \<le> unat b \<and> unat b \<le> 13"

definition dec_val :: "bytes \<Rightarrow> nat" where
  "dec_val ds = foldl (\<lambda>acc d. acc * 10 + (unat d - 48)) 0 ds"

definition LONG_MAX :: int where "LONG_MAX = 2 ^ 63 - 1"
definition LONG_MIN :: int where "LONG_MIN = - (2 ^ 63)"

definition clamp_long :: "int \<Rightarrow> int" where
  "clamp_long v = (if v < LONG_MIN then LONG_MIN else if LONG_MAX < v then LONG_MAX else v)"

definition strtol :: "bytes \<Rightarrow> int" where
  "strtol s =
     (let s1 = dropWhile is_space s in
      case s1 of
        [] \<Rightarrow> 0
      | b # r \<Rightarrow>
          if b = 45 then clamp_long (- int (dec_val (takeWhile is_digit r)))
          else if b = 43 then clamp_long (int (dec_val (takeWhile is_digit r)))
          else clamp_long (int (dec_val (takeWhile is_digit s1))))"

lemmas [wire_simps] = fmt_d_def strtol_def dec_val_def is_digit_def is_space_def clamp_long_def
  LONG_MAX_def LONG_MIN_def tolower_def is_upper_def

lemma dec_val_snoc: "dec_val (ds @ [d]) = dec_val ds * 10 + (unat d - 48)"
  by (simp add: dec_val_def)

lemma dec_val_dec_digits: "dec_val (dec_digits n) = n"
proof (induction n rule: dec_digits.induct)
  case (1 n)
  show ?case
  proof (cases "n < 10")
    case True
    then show ?thesis
      by (subst dec_digits.simps) (simp add: dec_val_def unat_digit del: of_nat_add)
  next
    case False
    have "unat (of_nat (48 + n mod 10) :: byte) = 48 + n mod 10"
      by (rule unat_digit) simp
    with False "1.IH" [OF False] show ?thesis
      by (subst dec_digits.simps) (simp add: dec_val_snoc del: of_nat_add)
  qed
qed

lemma takeWhile_all_append:
  assumes "\<forall>x\<in>set xs. P x" and "ys = [] \<or> \<not> P (hd ys)"
  shows "takeWhile P (xs @ ys) = xs"
  using assms by (induction xs) (cases ys; auto)+

text \<open>A number printed with \<open>%d\<close> and read back, also when a non-digit follows it.\<close>

lemma strtol_fmt_d:
  assumes "LONG_MIN \<le> n" "n \<le> LONG_MAX" and "rest = [] \<or> \<not> is_digit (hd rest)"
  shows "strtol (fmt_d n @ rest) = n"
proof (cases "n < 0")
  case True
  have tw: "takeWhile is_digit (dec_digits (nat (- n)) @ rest) = dec_digits (nat (- n))"
    by (rule takeWhile_all_append [OF dec_digits_all_digit assms(3)])
  have "\<not> is_space 45" by (simp add: is_space_def)
  with True assms(1,2) show ?thesis
    by (simp add: strtol_def fmt_d_def Let_def tw dec_val_dec_digits clamp_long_def LONG_MAX_def)
next
  case False
  let ?ds = "dec_digits (nat n)"
  have tw: "takeWhile is_digit (?ds @ rest) = ?ds"
    by (rule takeWhile_all_append [OF dec_digits_all_digit assms(3)])
  obtain b r where ds: "?ds = b # r" by (cases ?ds) auto
  have b: "is_digit b" using dec_digits_all_digit [of "nat n"] ds by simp
  then have "\<not> is_space b" "b \<noteq> 45" "b \<noteq> 43"
    by (auto simp: is_digit_def is_space_def)
  with False assms(1,2) tw ds show ?thesis
    using dec_val_dec_digits [of "nat n"]
    by (simp add: strtol_def fmt_d_def Let_def clamp_long_def LONG_MIN_def)
qed

end
