(* ===== verification/Deserialize.thy ===== *)
theory Deserialize
  imports Message_Read C_Library
begin

unbundle bit_operations_syntax

text \<open>
  \<open>deserialize.c\<close>, \<open>copy_bind_parameter.c\<close> and \<open>get_user_column_value.c\<close>: binary parameters of a Bind
  message as text, hexadecimal digests and UUIDs, and one column of a \<open>|\<close>-separated row. The lemmas:
  hexadecimal output determines its input, the layout of a UUID, which integers survive the
  conversion, and the bounds of the column extraction.
\<close>

section \<open>Hexadecimal output\<close>

definition nibble_char :: "byte \<Rightarrow> byte" where
  "nibble_char n = (if unat n < 10 then n + 48 else n + 87)"

text \<open>The two characters that \<open>byte_to_hex\<close> writes before the NUL.\<close>

definition byte_to_hex :: "byte \<Rightarrow> bytes" where
  "byte_to_hex c = [nibble_char (drop_bit 4 c), nibble_char (drop_bit 4 (push_bit 4 c))]"

definition MD5_DIGEST_LENGTH :: nat where "MD5_DIGEST_LENGTH = 16"
definition MD5_HEX_LEN :: nat where "MD5_HEX_LEN = MD5_DIGEST_LENGTH * 2 + 1"
definition MD5_PREFIX_LEN :: nat where "MD5_PREFIX_LEN = 3"

text \<open>
  \<open>md5_to_hex\<close>: the string left in \<open>hex\<close> (its terminating NUL included), or \<open>None\<close> for the return code 1;
  \<open>md5_hash\<close> is the memory of the digest.
\<close>

definition md5_to_hex :: "bytes \<Rightarrow> nat \<Rightarrow> bytes option" where
  "md5_to_hex md5_hash hex_len =
     (if hex_len < MD5_HEX_LEN then None
      else Some (concat (map byte_to_hex (take MD5_DIGEST_LENGTH md5_hash)) @ [0]))"

section \<open>Binary integers\<close>

text \<open>\<open>char\<close> is signed; \<open>ntohs\<close> and \<open>ntohl\<close> return unsigned integers, which are widened as such.\<close>

definition bin_to_bool :: "bytes \<Rightarrow> int" where
  "bin_to_bool bin = sint (bin ! 0)"

definition bin_to_char :: "bytes \<Rightarrow> int" where
  "bin_to_char bin = sint (bin ! 0)"

definition bin_to_int16 :: "bytes \<Rightarrow> int" where
  "bin_to_int16 bin = uint (ntohs (take 2 bin))"

definition bin_to_int32 :: "bytes \<Rightarrow> int" where
  "bin_to_int32 bin = uint (ntohl (take 4 bin))"

definition bin_to_int64 :: "bytes \<Rightarrow> int" where
  "bin_to_int64 bin = sint (be64toh (take 8 bin))"

definition bin_to_oid :: "bytes \<Rightarrow> int" where
  "bin_to_oid bin = uint (ntohl (take 4 bin))"

definition bin_to_bytea :: "bytes \<Rightarrow> bytes" where
  "bin_to_bytea bin = bin"

section \<open>UUID\<close>

text \<open>
  One \<open>while (j < offset)\<close> loop of \<open>bin_to_uuid\<close>: from byte \<open>i\<close> and output length \<open>j\<close>, two characters per byte.
\<close>

function uuid_field :: "bytes \<Rightarrow> nat \<Rightarrow> nat \<Rightarrow> nat \<Rightarrow> bytes \<times> nat \<times> nat" where
  "uuid_field bin offset i j =
     (if j < offset then
        (case uuid_field bin offset (i + 1) (j + 2) of (out, i', j') \<Rightarrow> (byte_to_hex (bin ! i) @ out, i', j'))
      else ([], i, j))"
  by pat_completeness auto
termination
  by (relation "measure (\<lambda>(bin, offset, i, j). offset - j)") auto

declare uuid_field.simps [simp del]

text \<open>The fields have 8, 4, 4, 4 and 12 nibbles; each offset after the first also counts a dash.\<close>

definition bin_to_uuid :: "bytes \<Rightarrow> bytes" where
  "bin_to_uuid bin =
     (case uuid_field bin 8 0 0 of (a, i1, j1) \<Rightarrow>
      case uuid_field bin (8 + 5) i1 (j1 + 1) of (b, i2, j2) \<Rightarrow>
      case uuid_field bin (8 + 5 + 5) i2 (j2 + 1) of (c, i3, j3) \<Rightarrow>
      case uuid_field bin (8 + 5 + 5 + 5) i3 (j3 + 1) of (d, i4, j4) \<Rightarrow>
      case uuid_field bin (8 + 5 + 5 + 5 + 13) i4 (j4 + 1) of (e, i5, j5) \<Rightarrow>
      a @ [45] @ b @ [45] @ c @ [45] @ d @ [45] @ e @ [0])"

section \<open>copy_binary_parameter\<close>

text \<open>The text of a binary parameter: integers of 1, 2, 4 and 8 bytes in decimal, anything else unchanged.\<close>

definition INT64_TO_STRING_MAX :: nat where "INT64_TO_STRING_MAX = 21"

definition binary_parameter_text :: "bytes \<Rightarrow> bytes" where
  "binary_parameter_text v =
     (if length v = 1 then take (INT64_TO_STRING_MAX - 1) (fmt_d (bin_to_char v))
      else if length v = 2 then take (INT64_TO_STRING_MAX - 1) (fmt_d (bin_to_int16 v))
      else if length v = 4 then take (INT64_TO_STRING_MAX - 1) (fmt_d (bin_to_int32 v))
      else if length v = 8 then take (INT64_TO_STRING_MAX - 1) (fmt_d (bin_to_int64 v))
      else v)"

text \<open>
  The query buffer: \<open>buf\<close> are the first \<open>len_used\<close> bytes, \<open>alloc\<close> is \<open>len_alloc\<close>. When the parameter may not
  fit, the buffer is freed and allocated anew, so that its old contents are lost: \<open>YDB_MALLOC_BUFFER\<close>
  resets \<open>len_used\<close> to 0 before the sum \<open>len_used + parm_len\<close> becomes \<open>len_alloc\<close>.
\<close>

record ydb_buffer =
  buf_addr :: bytes
  len_alloc :: nat

definition copy_binary_parameter :: "bytes \<Rightarrow> ydb_buffer \<Rightarrow> ydb_buffer" where
  "copy_binary_parameter v bound_query =
     (let parm_len = (if length v \<le> 8 then INT64_TO_STRING_MAX else length v);
          q = (if len_alloc bound_query \<le> length (buf_addr bound_query) + parm_len
               then \<lparr>buf_addr = [], len_alloc = parm_len\<rparr> else bound_query) in
      q\<lparr>buf_addr := buf_addr q @ binary_parameter_text v\<rparr>)"

definition get_binary_parameter_length :: "bytes \<Rightarrow> nat" where
  "get_binary_parameter_length v =
     (if length v = 1 then length (fmt_d (bin_to_char v))
      else if length v = 2 then length (fmt_d (bin_to_int16 v))
      else if length v = 4 then length (fmt_d (bin_to_int32 v))
      else if length v = 8 then length (fmt_d (bin_to_int64 v))
      else length v)"

section \<open>get_user_column_value\<close>

datatype UserColumns =
    UserColumn_OID | UserColumn_ROLNAME | UserColumn_ROLSUPER | UserColumn_ROLINHERIT
  | UserColumn_ROLCREATEROLE | UserColumn_ROLCREATEDB | UserColumn_ROLCANLOGIN
  | UserColumn_ROLREPLICATION | UserColumn_ROLBYPASSRLS | UserColumn_ROLCONNLIMIT
  | UserColumn_ROLPASSWORD | UserColumn_ROLVALIDUNTIL

fun column_number :: "UserColumns \<Rightarrow> nat" where
  "column_number UserColumn_OID = 0"
| "column_number UserColumn_ROLNAME = 1"
| "column_number UserColumn_ROLSUPER = 2"
| "column_number UserColumn_ROLINHERIT = 3"
| "column_number UserColumn_ROLCREATEROLE = 4"
| "column_number UserColumn_ROLCREATEDB = 5"
| "column_number UserColumn_ROLCANLOGIN = 6"
| "column_number UserColumn_ROLREPLICATION = 7"
| "column_number UserColumn_ROLBYPASSRLS = 8"
| "column_number UserColumn_ROLCONNLIMIT = 9"
| "column_number UserColumn_ROLPASSWORD = 10"
| "column_number UserColumn_ROLVALIDUNTIL = 11"

abbreviation COLUMN_DELIMITER :: byte where "COLUMN_DELIMITER \<equiv> 124"

text \<open>
  The first loop: skip columns; it stops at the end of the row. The argument is the rest of the memory,
  \<open>n\<close> the rest of the row.
\<close>

fun skip_columns :: "bytes \<Rightarrow> nat \<Rightarrow> nat \<Rightarrow> bytes" where
  "skip_columns (b # m) (Suc n) (Suc k) = skip_columns m n (if b = COLUMN_DELIMITER then k else Suc k)"
| "skip_columns m n k = m"

text \<open>
  The second loop, \<open>while (delimiter[0] != *c)\<close>, has no bound; without a delimiter in the rest of the
  allocation \<open>m\<close> it leaves the memory. \<open>buffer_len\<close> is the size of the allocation behind \<open>buffer\<close>.
  The result is the returned length and what \<open>strncpy\<close> wrote before the NUL; a value longer than
  \<open>buf_len\<close> returns 0 and writes nothing.
\<close>

definition strncpy :: "nat \<Rightarrow> bytes \<Rightarrow> bytes" where
  "strncpy n s = take n (cstr s) @ replicate (n - length (cstr s)) 0"

definition get_user_column_value :: "nat \<Rightarrow> nat \<Rightarrow> bytes \<Rightarrow> nat \<Rightarrow> UserColumns \<Rightarrow> (nat \<times> bytes) res" where
  "get_user_column_value buffer_len buf_len row row_len column =
     (let m = skip_columns row row_len (column_number column);
          v = takeWhile (\<lambda>b. b \<noteq> COLUMN_DELIMITER) m in
      bindE (guardE (length v < length m) OUT_OF_BOUNDS) (\<lambda>_.
      if buf_len < length v then Inr (0, [])
      else
        bindE (guardE (length v < buffer_len) OUT_OF_BOUNDS) (\<lambda>_.
        Inr (length v, strncpy (length v) v))))"

lemma strncpy_nul_free: "nul_free s \<Longrightarrow> strncpy (length s) s = s"
  by (simp add: strncpy_def)

section \<open>Hexadecimal output determines its input\<close>

lemma unat_nibbles:
  "unat (drop_bit 4 c) = unat c div 16" "unat (drop_bit 4 (push_bit 4 c)) = unat c mod 16" for c :: byte
proof -
  show "unat (drop_bit 4 c) = unat c div 16"
    by (simp only: unat_drop_bit_eq) (simp add: drop_bit_eq_div)
  have "unat (push_bit 4 c) = unat c * 16 mod 256"
    by (simp add: push_bit_eq_mult unat_word_ariths)
  then show "unat (drop_bit 4 (push_bit 4 c)) = unat c mod 16"
    by (simp only: unat_drop_bit_eq) (simp add: drop_bit_eq_div mult_mod_left [of "unat c" 16 16, simplified, symmetric])
qed

lemma unat_nibble_char: "unat n < 16 \<Longrightarrow> unat (nibble_char n) = (if unat n < 10 then unat n + 48 else unat n + 87)"
  by (auto simp: nibble_char_def unat_word_ariths)

lemma nibble_char_inj: "unat n < 16 \<Longrightarrow> unat k < 16 \<Longrightarrow> nibble_char n = nibble_char k \<Longrightarrow> n = k"
proof -
  assume nk: "unat n < 16" "unat k < 16" "nibble_char n = nibble_char k"
  then have "(if unat n < 10 then unat n + 48 else unat n + 87) = (if unat k < 10 then unat k + 48 else unat k + 87)"
    by (metis unat_nibble_char)
  then have "unat n = unat k"
    using nk by (auto split: if_splits)
  then show "n = k" by (simp add: word_unat_eq_iff)
qed

lemma byte_to_hex_inj: "byte_to_hex b = byte_to_hex c \<Longrightarrow> b = c"
proof -
  assume eq: "byte_to_hex b = byte_to_hex c"
  have lt: "unat (drop_bit 4 x) < 16" "unat (drop_bit 4 (push_bit 4 x)) < 16" for x :: byte
    using unat_byte_less [of x] by (simp_all only: unat_nibbles) (simp_all add: div_less_iff_less_mult)
  from eq lt have "drop_bit 4 b = drop_bit 4 c" "drop_bit 4 (push_bit 4 b) = drop_bit 4 (push_bit 4 c)"
    by (auto simp: byte_to_hex_def dest!: nibble_char_inj [rotated 2])
  then have "unat b div 16 = unat c div 16" "unat b mod 16 = unat c mod 16"
    by (metis unat_nibbles)+
  then have "unat b = unat c" by (metis div_mult_mod_eq)
  then show "b = c" by (simp add: word_unat_eq_iff)
qed

lemma length_byte_to_hex [simp]: "length (byte_to_hex c) = 2"
  by (simp add: byte_to_hex_def)

lemma concat_hex_inj:
  "length xs = length ys \<Longrightarrow> concat (map byte_to_hex xs) = concat (map byte_to_hex ys) \<Longrightarrow> xs = ys"
  by (induction xs ys rule: list_induct2) (auto dest: byte_to_hex_inj)

lemma length_concat_hex [simp]: "length (concat (map byte_to_hex xs)) = 2 * length xs"
  by (induction xs) simp_all

lemma hex_nul_free [simp]: "nul_free (concat (map byte_to_hex xs))"
proof -
  have "nibble_char n \<noteq> 0" if "unat n < 16" for n
    using unat_nibble_char [OF that] by (auto split: if_splits)
  moreover have "unat (drop_bit 4 x) < 16" "unat (drop_bit 4 (push_bit 4 x)) < 16" for x :: byte
    using unat_byte_less [of x] by (simp_all only: unat_nibbles) (simp_all add: div_less_iff_less_mult)
  ultimately show ?thesis by (induction xs) (auto simp: byte_to_hex_def)
qed

section \<open>The layout of a UUID\<close>

lemma uuid_field_bytes:
  "i + k \<le> length bin \<Longrightarrow>
   uuid_field bin (j + 2 * k) i j = (concat (map byte_to_hex (take k (drop i bin))), i + k, j + 2 * k)"
proof (induction k arbitrary: i j)
  case 0
  then show ?case by (simp add: uuid_field.simps)
next
  case (Suc k)
  have "uuid_field bin (j + 2 + 2 * k) (i + 1) (j + 2) =
      (concat (map byte_to_hex (take k (drop (i + 1) bin))), i + 1 + k, j + 2 + 2 * k)"
    using Suc.prems by (intro Suc.IH) simp
  moreover have "take (Suc k) (drop i bin) = bin ! i # take k (drop (i + 1) bin)"
    using Suc.prems by (simp add: Cons_nth_drop_Suc [symmetric])
  ultimately show ?case
    by (subst uuid_field.simps) simp
qed

lemma bin_to_uuid_layout:
  assumes "length bin = 16"
  shows "bin_to_uuid bin =
    (let hex = \<lambda>i n. concat (map byte_to_hex (take n (drop i bin))) in
     hex 0 4 @ [45] @ hex 4 2 @ [45] @ hex 6 2 @ [45] @ hex 8 2 @ [45] @ hex 10 6 @ [0])"
proof -
  have "uuid_field bin 8 0 0 = (concat (map byte_to_hex (take 4 (drop 0 bin))), 4, 8)"
    using uuid_field_bytes [of 0 4 bin 0] assms by simp
  moreover have "uuid_field bin 13 4 9 = (concat (map byte_to_hex (take 2 (drop 4 bin))), 6, 13)"
    using uuid_field_bytes [of 4 2 bin 9] assms by simp
  moreover have "uuid_field bin 18 6 14 = (concat (map byte_to_hex (take 2 (drop 6 bin))), 8, 18)"
    using uuid_field_bytes [of 6 2 bin 14] assms by simp
  moreover have "uuid_field bin 23 8 19 = (concat (map byte_to_hex (take 2 (drop 8 bin))), 10, 23)"
    using uuid_field_bytes [of 8 2 bin 19] assms by simp
  moreover have "uuid_field bin 36 10 24 = (concat (map byte_to_hex (take 6 (drop 10 bin))), 16, 36)"
    using uuid_field_bytes [of 10 6 bin 24] assms by simp
  ultimately show ?thesis
    by (simp add: bin_to_uuid_def Let_def)
qed

section \<open>Columns of a row\<close>

text \<open>A row as it is stored: every column is followed by a delimiter.\<close>

definition enc_columns :: "bytes list \<Rightarrow> bytes" where
  "enc_columns cols = concat (map (\<lambda>c. c @ [COLUMN_DELIMITER]) cols)"

lemma skip_columns_0: "skip_columns m n 0 = m"
  by (cases m; cases n) simp_all

lemma skip_one_column:
  "COLUMN_DELIMITER \<notin> set c \<Longrightarrow> length c < n \<Longrightarrow>
   skip_columns (c @ COLUMN_DELIMITER # m) n (Suc k) = skip_columns m (n - length c - 1) k"
proof (induction c arbitrary: n)
  case Nil
  then show ?case by (cases n) simp_all
next
  case (Cons b c)
  then obtain n' where n: "n = Suc n'" "length c < n'" by (cases n) auto
  with Cons show ?case by simp
qed

lemma skip_columns_enc:
  "\<forall>c\<in>set cols. COLUMN_DELIMITER \<notin> set c \<Longrightarrow> k \<le> length cols \<Longrightarrow> length (enc_columns cols) \<le> n \<Longrightarrow>
   skip_columns (enc_columns cols @ rest) n k = enc_columns (drop k cols) @ rest"
proof (induction cols arbitrary: n k)
  case Nil
  then show ?case by (simp add: skip_columns_0)
next
  case (Cons c cols)
  show ?case
  proof (cases k)
    case 0
    then show ?thesis by (simp add: skip_columns_0)
  next
    case (Suc k')
    have "skip_columns (c @ COLUMN_DELIMITER # enc_columns cols @ rest) n (Suc k')
        = skip_columns (enc_columns cols @ rest) (n - length c - 1) k'"
      using Cons.prems by (intro skip_one_column) (simp_all add: enc_columns_def)
    also have "\<dots> = enc_columns (drop k' cols) @ rest"
      using Cons.prems Suc by (intro Cons.IH) (simp_all add: enc_columns_def)
    finally show ?thesis using Suc by (simp add: enc_columns_def)
  qed
qed

lemma get_user_column_value_enc:
  assumes "\<forall>c\<in>set cols. COLUMN_DELIMITER \<notin> set c \<and> nul_free c" "column_number column < length cols"
    and "v = cols ! column_number column"
  shows "get_user_column_value buffer_len buf_len (enc_columns cols @ rest) (length (enc_columns cols)) column =
    (if buf_len < length v then Inr (0, [])
     else if buffer_len \<le> length v then Inl OUT_OF_BOUNDS
     else Inr (length v, v))"
proof -
  let ?k = "column_number column"
  have "skip_columns (enc_columns cols @ rest) (length (enc_columns cols)) ?k = enc_columns (drop ?k cols) @ rest"
    using assms by (intro skip_columns_enc) auto
  also have "\<dots> = v @ COLUMN_DELIMITER # enc_columns (drop (Suc ?k) cols) @ rest"
    using assms(2,3) by (simp add: enc_columns_def Cons_nth_drop_Suc [symmetric])
  finally have m: "skip_columns (enc_columns cols @ rest) (length (enc_columns cols)) ?k
      = v @ COLUMN_DELIMITER # enc_columns (drop (Suc ?k) cols) @ rest" .
  have v: "COLUMN_DELIMITER \<notin> set v" "nul_free v"
    using assms nth_mem [OF assms(2)] by auto
  then have "takeWhile (\<lambda>b. b \<noteq> COLUMN_DELIMITER) (v @ COLUMN_DELIMITER # enc_columns (drop (Suc ?k) cols) @ rest) = v"
    by (intro takeWhile_all_append) auto
  then show ?thesis
    using v by (simp add: get_user_column_value_def m Let_def guardE_def strncpy_nul_free)
qed

section \<open>Binary integers as text\<close>

lemma strtol_int64_text:
  assumes "- (2 ^ 63) \<le> n" "n < 2 ^ 63"
  shows "strtol (take (INT64_TO_STRING_MAX - Suc 0) (fmt_d n)) = n"
proof -
  have "nat n < 10 ^ 19" "nat (- n) < 10 ^ 19"
    using assms by simp_all
  then have "length (dec_digits (nat n)) \<le> 19" "length (dec_digits (nat (- n))) \<le> 19"
    by (intro dec_digits_length; simp)+
  then have "length (fmt_d n) \<le> 20" by (simp add: fmt_d_def)
  then show ?thesis
    using strtol_fmt_d [of n "[]"] assms by (simp add: INT64_TO_STRING_MAX_def LONG_MIN_def LONG_MAX_def)
qed

lemma uint_eq_sint_iff: "uint w = sint w \<longleftrightarrow> 0 \<le> sint w" for w :: "'a::len word"
proof
  assume "0 \<le> sint w"
  moreover have "sint w < 2 ^ LENGTH('a)"
    using sint_less [of w] power_increasing [of "LENGTH('a) - Suc 0" "LENGTH('a)" "2 :: int"] by linarith
  ultimately show "uint w = sint w"
    by (simp add: uint_sint take_bit_int_eq_self_iff)
qed (metis uint_nonnegative)

section \<open>Properties\<close>

text \<open>
  the hexadecimal text of an MD5 digest has 32 characters and a NUL and determines the digest:
  two different digests never give the same text.
\<close>

theorem md5_to_hex_injective:
  assumes "length d = 16" and "length d' = 16" and "33 \<le> n"
  shows "\<exists>h. md5_to_hex d n = Some (h @ [0]) \<and> length h = 32 \<and> nul_free h
    \<and> (md5_to_hex d' n = Some (h @ [0]) \<longleftrightarrow> d' = d)"
  using assms concat_hex_inj [of d d'] concat_hex_inj [of d' d]
  by (auto simp: md5_to_hex_def MD5_HEX_LEN_def MD5_DIGEST_LENGTH_def)

theorem md5_to_hex_injective_witness:
  "\<exists>h. md5_to_hex (replicate 16 171) 33 = Some (h @ [0]) \<and> length h = 32 \<and> nul_free h
    \<and> (md5_to_hex (replicate 16 186) 33 = Some (h @ [0]) \<longleftrightarrow> replicate 16 186 = replicate 16 (171 :: byte))"
  by (rule md5_to_hex_injective) simp_all

text \<open>
  the text of a binary integer parameter reads back as the number the client sent for one-byte and
  eight-byte integers, and for two-byte and four-byte integers exactly when the number is not
  negative: a negative one is turned into the number plus 2^16 or 2^32.
\<close>

theorem binary_parameter_values:
  "strtol (binary_parameter_text [b]) = sint b
   \<and> (length bs = 8 \<longrightarrow> strtol (binary_parameter_text bs) = sint (be64toh bs))
   \<and> (strtol (binary_parameter_text (htons w)) = sint w \<longleftrightarrow> 0 \<le> sint w)
   \<and> (strtol (binary_parameter_text (htonl x)) = sint x \<longleftrightarrow> 0 \<le> sint x)"
proof -
  have "- (2 ^ 63) \<le> sint b" "sint b < 2 ^ 63"
    using sint_greater_eq [of b] sint_less [of b] by simp_all
  then have char: "strtol (binary_parameter_text [b]) = sint b"
    by (simp add: binary_parameter_text_def bin_to_char_def strtol_int64_text)
  have "- (2 ^ 63) \<le> sint (be64toh bs)" "sint (be64toh bs) < 2 ^ 63"
    using sint_greater_eq [of "be64toh bs"] sint_less [of "be64toh bs"] by simp_all
  then have int64: "length bs = 8 \<Longrightarrow> strtol (binary_parameter_text bs) = sint (be64toh bs)"
    by (simp add: binary_parameter_text_def bin_to_int64_def strtol_int64_text)
  have "- (2 ^ 63) \<le> uint w" "uint w < 2 ^ 63" "- (2 ^ 63) \<le> uint x" "uint x < 2 ^ 63"
    using uint_lt2p [of w] uint_lt2p [of x]
    by (auto intro: order_trans [OF _ uint_nonnegative])
  then have "strtol (binary_parameter_text (htons w)) = uint w" "strtol (binary_parameter_text (htonl x)) = uint x"
    by (simp_all add: binary_parameter_text_def bin_to_int16_def bin_to_int32_def strtol_int64_text)
  with char int64 show ?thesis
    by (simp add: uint_eq_sint_iff)
qed

theorem binary_parameter_values_witness:
  "strtol (binary_parameter_text [0, 0, 0, 0, 0, 0, 1, 0]) = 256
   \<and> strtol (binary_parameter_text (htonl (- 1))) \<noteq> - 1"
  using binary_parameter_values [of 0 "[0, 0, 0, 0, 0, 0, 1, 0]" 0 "- 1"]
  by (simp add: be64toh_def be_nat_def)

text \<open>
  from a stored row whose columns are NUL-free and delimited, \<open>get_user_column_value\<close> returns the
  requested column; a column longer than the given length returns 0; and a column of exactly the
  length of the caller's buffer makes the terminating NUL land one byte past the buffer.
\<close>

theorem user_column_value:
  assumes "\<forall>c\<in>set cols. COLUMN_DELIMITER \<notin> set c \<and> nul_free c" and "column_number column < length cols"
    and "v = cols ! column_number column"
  shows "get_user_column_value n n (enc_columns cols @ rest) (length (enc_columns cols)) column =
    (if n < length v then Inr (0, []) else if length v = n then Inl OUT_OF_BOUNDS else Inr (length v, v))"
  using get_user_column_value_enc [OF assms, of n n rest] by auto

theorem user_column_value_witness:
  "get_user_column_value 3 3 (enc_columns [[49], [97, 98, 99]] @ []) (length (enc_columns [[49], [97, 98, 99]]))
     UserColumn_ROLNAME = Inl OUT_OF_BOUNDS"
  using user_column_value [of "[[49], [97, 98, 99]]" UserColumn_ROLNAME "[97, 98, 99]" 3 "[]"] by simp

text \<open>
  \<open>bin_to_uuid\<close> writes the 16 bytes as lower-case hexadecimal in groups of 4, 2, 2, 2 and 6 bytes
  with dashes between them, 37 characters with the final NUL.
\<close>

theorem bin_to_uuid_format:
  assumes "length bin = 16"
  shows "bin_to_uuid bin =
    (let hex = \<lambda>i n. concat (map byte_to_hex (take n (drop i bin))) in
     hex 0 4 @ [45] @ hex 4 2 @ [45] @ hex 6 2 @ [45] @ hex 8 2 @ [45] @ hex 10 6 @ [0])
    \<and> length (bin_to_uuid bin) = 37"
  using bin_to_uuid_layout [OF assms] assms by (simp add: Let_def)

theorem bin_to_uuid_format_witness:
  "length (bin_to_uuid (replicate 16 10)) = 37"
  by (rule conjunct2 [OF bin_to_uuid_format]) simp

end
