(* ===== verification/Authentication.thy ===== *)
theory Authentication
  imports Deserialize
begin

text \<open>
  Who may do what: \<open>handle_password_message.c\<close> (MD5 password check), \<open>handle_cancel_request.c\<close> (cancel
  another session's query) and \<open>get_pid_start_time.c\<close>, on which the second relies. The database, the
  MD5 function, \<open>kill\<close> and the file system are arguments. The theorems say exactly which messages
  are accepted.
\<close>

section \<open>String comparison\<close>

definition strncmp_eq :: "nat \<Rightarrow> bytes \<Rightarrow> bytes \<Rightarrow> bool" where
  "strncmp_eq n s t \<longleftrightarrow> take n (cstr s @ [0]) = take n (cstr t @ [0])"

lemma strncmp_eq_shorter:
  assumes "nul_free s" "nul_free t" "length s < n"
  shows "strncmp_eq n s t \<longleftrightarrow> s = t"
proof
  assume "strncmp_eq n s t"
  then have eq: "take n (s @ [0]) = take n (t @ [0])"
    unfolding strncmp_eq_def cstr_nul_free [OF assms(1)] cstr_nul_free [OF assms(2)] .
  have "0 \<in> set (take n (s @ [0]))" using assms(3) by simp
  then have "0 \<in> set (take n (t @ [0]))" by (simp only: eq)
  moreover have "0 \<notin> set (take n t)"
    using assms(2) by (auto simp: nul_free_def dest: in_set_takeD)
  ultimately have "length t < n" by (cases "length t < n") auto
  with eq assms(3) show "s = t" by simp
qed (simp add: strncmp_eq_def)

section \<open>handle_password_message\<close>

datatype 'a ydb_result = YDB_OK 'a | YDB_ERR_GVUNDEF | YDB_ERR_OTHER

text \<open>The C memory of \<open>username\<close> after \<open>strncpy(username, value, YDB_MAX_IDENT)\<close>, and the string in it.\<close>

definition username_buffer :: "nat \<Rightarrow> bytes \<Rightarrow> bytes \<Rightarrow> bytes" where
  "username_buffer max_ident stack value = strncpy max_ident value @ drop max_ident stack"

fun find_user :: "StartupMessageParm list \<Rightarrow> bytes option" where
  "find_user [] = None"
| "find_user (p # ps) = (if parm_name p = lit ''user'' then Some (parm_val p) else find_user ps)"

text \<open>
  \<open>md5\<close> is the digest function, \<open>lookup\<close> the user table (\<open>slack\<close> is the memory after the returned row),
  \<open>set_user\<close> the outcome of storing the session's user. \<open>Inr\<close> is the return code 0, with the user.
\<close>

definition handle_password_message ::
    "(bytes \<Rightarrow> bytes) \<Rightarrow> (bytes \<Rightarrow> bytes ydb_result) \<Rightarrow> bytes \<Rightarrow> bool \<Rightarrow> nat \<Rightarrow> bytes
     \<Rightarrow> PasswordMessage \<Rightarrow> StartupMessage \<Rightarrow> bytes \<Rightarrow> bytes res" where
  "handle_password_message md5 lookup slack set_user max_ident stack password_message startup_message salt =
     bindE (guardE (strncmp_eq MD5_PREFIX_LEN (password_password password_message) (lit ''md5''))
             (ERR_ROCTO_PASSWORD_TYPE ''handle_password_message'')) (\<lambda>_.
     bindE (case find_user (startup_parameters startup_message) of
              None \<Rightarrow> Inl (ERR_ROCTO_MISSING_USERNAME ''handle_password_message'')
            | Some value \<Rightarrow> Inr (username_buffer max_ident stack value)) (\<lambda>ubuf.
     bindE (guardE (0 \<in> set ubuf) OUT_OF_BOUNDS) (\<lambda>_.
     let username = cstr ubuf in
     bindE (case lookup username of
              YDB_OK row \<Rightarrow> Inr row
            | YDB_ERR_GVUNDEF \<Rightarrow> Inl (ERR_ROCTO_USER_LOOKUP ''handle_password_message'' username)
            | YDB_ERR_OTHER \<Rightarrow> Inl ERR_YOTTADB) (\<lambda>row.
     bindE (get_user_column_value (MD5_HEX_LEN + MD5_PREFIX_LEN) (MD5_HEX_LEN + MD5_PREFIX_LEN)
              (row @ slack) (length row) UserColumn_ROLPASSWORD) (\<lambda>(buf_len, buffer).
     bindE (guardE (buf_len \<noteq> 0) (ERR_ROCTO_COLUMN_VALUE ''handle_password_message'')) (\<lambda>_.
     bindE (guardE (3 \<le> buf_len) OUT_OF_BOUNDS) (\<lambda>_.
     let hash_buf = md5 (drop 3 buffer @ take 4 salt) in
     case md5_to_hex hash_buf MD5_HEX_LEN of
       None \<Rightarrow> Inl (ERR_ROCTO_HASH_CONVERSION ''handle_password_message'')
     | Some md5_hex \<Rightarrow>
         bindE (guardE (strncmp_eq MD5_HEX_LEN md5_hex (drop 3 (password_password password_message)))
                 (ERR_ROCTO_BAD_PASSWORD ''handle_password_message'')) (\<lambda>_.
         bindE (guardE set_user ERR_YOTTADB) (\<lambda>_.
         Inr username)))))))))"

section \<open>get_pid_start_time\<close>

text \<open>The offset of the field after the \<open>n\<close>-th space, -1 at a NUL; \<open>None\<close> is a read past the buffer.\<close>

fun get_field_start :: "bytes \<Rightarrow> int \<Rightarrow> nat \<Rightarrow> nat \<Rightarrow> int option" where
  "get_field_start [] i space_count n = None"
| "get_field_start (b # m) i space_count n =
     (if b = 0 then Some (- 1)
      else if b = 32 then
        (if n \<le> space_count + 1 then Some (i + 1) else get_field_start m (i + 1) (space_count + 1) n)
      else get_field_start m (i + 1) space_count n)"

text \<open>
  \<open>contents\<close>: what \<open>open\<close> and \<open>read\<close> of the file \<open>/proc/<pid>/stat\<close> give; the buffer of 8192 bytes is not
  terminated after the read, so what follows is \<open>stack\<close>. Result 0 is every error. \<open>sscanf\<close> leaves
  the variable \<open>uninit\<close> when there is no digit.
\<close>

definition get_pid_start_time :: "int \<Rightarrow> errno + bytes \<Rightarrow> bytes \<Rightarrow> nat \<Rightarrow> nat res" where
  "get_pid_start_time pid contents stack uninit =
     (if pid \<le> 0 then Inr 0
      else case contents of
        Inl e \<Rightarrow> Inr 0
      | Inr c \<Rightarrow>
          if 8192 \<le> length c then Inr 0
          else
            let stat_buf = c @ drop (length c) stack in
            bindE (from_mem OUT_OF_BOUNDS (get_field_start stat_buf 0 0 21)) (\<lambda>field_start.
            if field_start < 0 then Inr 0
            else
              bindE (from_mem OUT_OF_BOUNDS (get_field_start stat_buf 0 0 22)) (\<lambda>e.
              bindE (guardE (0 \<le> e - 1) OUT_OF_BOUNDS) (\<lambda>_.
              let field = dropWhile is_space (take (nat (e - 1 - field_start)) (drop (nat field_start) stat_buf));
                  ds = takeWhile is_digit (cstr field) in
              Inr (if ds = [] then uninit else dec_val ds)))))"

section \<open>handle_cancel_request\<close>

datatype cancel_signal = SIGUSR1 | SIGUSR2

text \<open>
  The table of secret keys: \<open>data\<close>, \<open>get_timestamp\<close> and \<open>get_secret\<close> answer the database calls for a pid as
  text. A value longer than the 21 or 12 bytes offered is an error of the call; one that fills them
  leaves no room for the NUL that is written after it. \<open>start_time\<close> is \<open>get_pid_start_time(pid)\<close>. \<open>Inr\<close>
  means the signal was sent, with its target.
\<close>

definition ydb_get_into :: "nat \<Rightarrow> bytes ydb_result \<Rightarrow> bytes res" where
  "ydb_get_into n r =
     (case r of
        YDB_OK v \<Rightarrow> if n < length v then Inl ERR_YOTTADB else if length v = n then Inl OUT_OF_BOUNDS else Inr v
      | _ \<Rightarrow> Inl ERR_YOTTADB)"

definition handle_cancel_request ::
    "(bytes \<Rightarrow> nat ydb_result) \<Rightarrow> (bytes \<Rightarrow> bytes ydb_result) \<Rightarrow> nat res \<Rightarrow> (bytes \<Rightarrow> bytes ydb_result)
     \<Rightarrow> nat \<Rightarrow> (int \<Rightarrow> cancel_signal \<Rightarrow> errno option) \<Rightarrow> CancelRequest \<Rightarrow> (int \<times> cancel_signal) res" where
  "handle_cancel_request data get_timestamp start_time get_secret ydb_release_number kill req =
     (let pid = sint (cancel_pid req); pid_str = fmt_d (int (unat (cancel_pid req))) in
     bindE (case data pid_str of
              YDB_OK v \<Rightarrow> if v = 11 then Inr () else Inl (ERR_ROCTO_DB_LOOKUP ''handle_cancel_request'' ''pid'')
            | _ \<Rightarrow> Inl ERR_YOTTADB) (\<lambda>_.
     bindE (ydb_get_into 21 (get_timestamp pid_str)) (\<lambda>timestamp_result.
     bindE start_time (\<lambda>cur_timestamp.
     bindE (guardE (cur_timestamp \<noteq> 0) RETURNED_NULL) (\<lambda>_.
     bindE (guardE (strncmp_eq 21 (take 20 (fmt_d (int cur_timestamp))) timestamp_result) ERR_ROCTO_BAD_TIMESTAMP) (\<lambda>_.
     bindE (ydb_get_into 12 (get_secret pid_str)) (\<lambda>secret_key_result.
     bindE (guardE (strncmp_eq 12 (take 11 (fmt_d (int (unat (cancel_secret_key req))))) secret_key_result)
             ERR_ROCTO_SECRET_KEY_MISMATCH) (\<lambda>_.
     let signal = (if ydb_release_number < 131 then SIGUSR1 else SIGUSR2) in
     case kill pid signal of
       Some e \<Rightarrow> Inl (ERR_SYSCALL ''kill()'' e)
     | None \<Rightarrow> Inr (pid, signal)))))))))"

section \<open>Numbers as text are unambiguous\<close>

lemma dec_val_fmt_d: "fmt_d (int n) = dec_digits n"
  by (simp add: fmt_d_def)

lemma fmt_d_nat_inj: "fmt_d (int n) = fmt_d (int k) \<longleftrightarrow> n = k"
  unfolding dec_val_fmt_d by (metis dec_val_dec_digits)

lemma fmt_d_nat_length: "n < 10 ^ k \<Longrightarrow> 0 < k \<Longrightarrow> length (fmt_d (int n)) \<le> k"
  unfolding dec_val_fmt_d by (rule dec_digits_length)

lemma ydb_get_into_Inr: "ydb_get_into n r = Inr v \<longleftrightarrow> r = YDB_OK v \<and> length v < n"
  by (auto simp: ydb_get_into_def split: ydb_result.splits)

section \<open>The stored password\<close>

text \<open>A user's row whose password column is \<open>md5\<close> and 32 characters.\<close>

definition user_row_ok :: "bytes list \<Rightarrow> bytes \<Rightarrow> bool" where
  "user_row_ok cols stored \<longleftrightarrow> 10 < length cols \<and> cols ! 10 = lit ''md5'' @ stored \<and> length stored = 32
     \<and> (\<forall>c\<in>set cols. COLUMN_DELIMITER \<notin> set c \<and> nul_free c)"

lemma username_buffer_short:
  assumes "length u < max_ident" "nul_free u"
  shows "0 \<in> set (username_buffer max_ident stack u) \<and> cstr (username_buffer max_ident stack u) = u"
proof -
  obtain k where k: "max_ident - length u = Suc k"
    using assms(1) by (cases "max_ident - length u") auto
  then have "username_buffer max_ident stack u = u @ 0 # replicate k 0 @ drop max_ident stack"
    using assms by (simp add: username_buffer_def strncpy_def)
  with assms(2) show ?thesis by simp
qed

lemma password_hash_check:
  assumes "user_row_ok cols stored" "length (md5 (stored @ take 4 salt)) = 16"
    and "find_user (startup_parameters su) = Some u" "length u < max_ident" "nul_free u"
    and "lookup u = YDB_OK (enc_columns cols)" "nul_free (password_password pw)"
  defines "h \<equiv> concat (map byte_to_hex (md5 (stored @ take 4 salt)))"
  shows "handle_password_message md5 lookup slack set_user max_ident stack pw su salt =
    (if take 3 (password_password pw) \<noteq> lit ''md5'' then Inl (ERR_ROCTO_PASSWORD_TYPE ''handle_password_message'')
     else if password_password pw \<noteq> lit ''md5'' @ h then Inl (ERR_ROCTO_BAD_PASSWORD ''handle_password_message'')
     else if \<not> set_user then Inl ERR_YOTTADB else Inr u)"
proof -
  let ?p = "password_password pw"
  have col: "get_user_column_value (MD5_HEX_LEN + MD5_PREFIX_LEN) (MD5_HEX_LEN + MD5_PREFIX_LEN)
      (enc_columns cols @ slack) (length (enc_columns cols)) UserColumn_ROLPASSWORD = Inr (35, lit ''md5'' @ stored)"
    using assms(1) get_user_column_value_enc [of cols UserColumn_ROLPASSWORD "lit ''md5'' @ stored"]
    by (simp add: user_row_ok_def MD5_HEX_LEN_def MD5_PREFIX_LEN_def MD5_DIGEST_LENGTH_def)
  have hex: "md5_to_hex (md5 (stored @ take 4 salt)) MD5_HEX_LEN = Some (h @ [0])"
    using assms(2) by (simp add: md5_to_hex_def h_def MD5_DIGEST_LENGTH_def)
  have h: "nul_free h" "length h = 32"
    using assms(2) by (simp_all add: h_def)
  have "nul_free (drop 3 ?p)"
    using assms(7) by (auto simp: nul_free_def dest: in_set_dropD)
  then have cmp: "strncmp_eq MD5_HEX_LEN (h @ [0]) (drop 3 ?p) \<longleftrightarrow> h = drop 3 ?p"
    using strncmp_eq_shorter [OF h(1), of "drop 3 ?p" MD5_HEX_LEN] h
    by (simp add: strncmp_eq_def MD5_HEX_LEN_def MD5_DIGEST_LENGTH_def)
  have pre: "strncmp_eq MD5_PREFIX_LEN ?p (lit ''md5'') \<longleftrightarrow> take 3 ?p = lit ''md5''"
  proof -
    have "take 3 (?p @ [0]) = [ch CHR ''m'', ch CHR ''d'', ch CHR ''5''] \<longleftrightarrow> take 3 ?p = [ch CHR ''m'', ch CHR ''d'', ch CHR ''5'']"
      by (cases ?p rule: list.exhaust; cases "drop 1 ?p" rule: list.exhaust; cases "drop 2 ?p" rule: list.exhaust)
        (auto simp: ch_def take_Cons')
    then show ?thesis
      using assms(7) by (simp add: strncmp_eq_def MD5_PREFIX_LEN_def cstr_def [of "[_, _, _]"] ch_def)
  qed
  have split: "take 3 ?p = lit ''md5'' \<Longrightarrow> ?p = lit ''md5'' @ h \<longleftrightarrow> h = drop 3 ?p"
    using append_take_drop_id [of 3 ?p] by (metis append_eq_append_conv append_same_eq same_append_eq)
  show ?thesis
    unfolding handle_password_message_def assms(3) option.case bindE_simps Let_def pre
    using username_buffer_short [OF assms(4,5), of stack] assms(6) split
    by (simp add: col hex cmp guardE_def)
qed

section \<open>Fields of a stat line\<close>

definition enc_fields :: "bytes list \<Rightarrow> bytes" where
  "enc_fields fs = concat (map (\<lambda>f. f @ [32]) fs)"

lemma get_field_start_field:
  "32 \<notin> set f \<Longrightarrow> nul_free f \<Longrightarrow> get_field_start (f @ m) i c n = get_field_start m (i + int (length f)) c n"
  by (induction f arbitrary: i) (auto simp: algebra_simps)

lemma get_field_start_enc:
  "\<forall>f\<in>set fs. 32 \<notin> set f \<and> nul_free f \<Longrightarrow> k < length fs \<Longrightarrow>
   get_field_start (enc_fields fs @ m) i c (Suc (c + k)) = Some (i + int (length (enc_fields (take (Suc k) fs))))"
proof (induction fs arbitrary: i c k)
  case Nil
  then show ?case by simp
next
  case (Cons f fs)
  have step: "get_field_start (enc_fields (f # fs) @ m) i c n =
      get_field_start (32 # enc_fields fs @ m) (i + int (length f)) c n" for n
    using Cons.prems get_field_start_field [of f] by (simp add: enc_fields_def)
  show ?case
  proof (cases k)
    case 0
    then show ?thesis by (simp add: step) (simp add: enc_fields_def)
  next
    case (Suc k')
    then have "get_field_start (enc_fields fs @ m) (i + int (length f) + 1) (c + 1) (Suc (c + 1 + k'))
        = Some (i + int (length f) + 1 + int (length (enc_fields (take (Suc k') fs))))"
      using Cons.prems by (intro Cons.IH) auto
    with Suc show ?thesis by (simp add: step) (simp add: enc_fields_def algebra_simps)
  qed
qed

lemma get_pid_start_time_fields:
  assumes "\<forall>f\<in>set fs. 32 \<notin> set f \<and> nul_free f" "21 < length fs" "fs ! 21 = dec_digits n"
    and "0 < pid" "length (enc_fields fs) < 8192"
  shows "get_pid_start_time pid (Inr (enc_fields fs)) stack uninit = Inr n"
proof -
  let ?c = "enc_fields fs" and ?b = "enc_fields fs @ drop (length (enc_fields fs)) stack"
  let ?s = "int (length (enc_fields (take 21 fs)))"
  have t22: "take 22 fs = take 21 fs @ [dec_digits n]"
    using assms(2,3) take_Suc_conv_app_nth [of 21 fs] by simp
  have s21: "get_field_start ?b 0 0 21 = Some ?s"
    using get_field_start_enc [OF assms(1), of 20 "drop (length ?c) stack" 0 0] assms(2) by simp
  have s22: "get_field_start ?b 0 0 22 = Some (?s + int (length (dec_digits n)) + 1)"
    using get_field_start_enc [OF assms(1), of 21 "drop (length ?c) stack" 0 0] assms(2)
    by (simp add: t22) (simp add: enc_fields_def)
  have "fs = take 21 fs @ dec_digits n # drop 22 fs"
    using assms(2,3) id_take_nth_drop [of 21 fs] by simp
  then have "enc_fields fs = enc_fields (take 21 fs @ dec_digits n # drop 22 fs)"
    by (rule arg_cong)
  then have "?b = enc_fields (take 21 fs) @ dec_digits n @ (32 # enc_fields (drop 22 fs) @ drop (length ?c) stack)"
    by (simp add: enc_fields_def)
  then have field: "take (length (dec_digits n)) (drop (length (enc_fields (take 21 fs))) ?b) = dec_digits n"
    by simp
  have digits: "\<forall>b\<in>set (dec_digits n). is_digit b" by (rule dec_digits_all_digit)
  then have "\<forall>b\<in>set (dec_digits n). \<not> is_space b"
    by (auto simp: is_digit_def is_space_def)
  then have "dropWhile is_space (dec_digits n) = dec_digits n"
    by (cases "dec_digits n") auto
  moreover have "takeWhile is_digit (cstr (dec_digits n)) = dec_digits n"
  proof -
    have "nul_free (dec_digits n)" using nul_free_fmt_d [of "int n"] by (simp add: fmt_d_def)
    with digits show ?thesis by (simp add: takeWhile_eq_all_conv)
  qed
  ultimately show ?thesis
    using assms(4,5) field
    by (simp add: get_pid_start_time_def Let_def s21 s22 dec_val_dec_digits)
qed

section \<open>Properties\<close>

text \<open>
  C30: the password check is exact: for a user whose stored hash is 32 characters, the user is
  authenticated if and only if the client's password message is the text md5 followed by the
  hexadecimal MD5 digest of the stored hash and the session's salt (and storing the session's user
  succeeds). MD5 is any function with 16-byte digests.
\<close>

theorem password_check_exact:
  assumes "user_row_ok cols stored" and "length (md5 (stored @ take 4 salt)) = 16"
    and "find_user (startup_parameters su) = Some u" and "length u < max_ident" and "nul_free u"
    and "lookup u = YDB_OK (enc_columns cols)" and "nul_free (password_password pw)"
  shows "handle_password_message md5 lookup slack set_user max_ident stack pw su salt = Inr u \<longleftrightarrow>
    set_user \<and> password_password pw = lit ''md5'' @ concat (map byte_to_hex (md5 (stored @ take 4 salt)))"
  using password_hash_check [of cols stored md5 salt su u max_ident lookup pw slack set_user stack] assms
  by auto

theorem password_check_exact_witness:
  "handle_password_message (\<lambda>_. replicate 16 0)
     (\<lambda>_. YDB_OK (enc_columns (replicate 10 [] @ [lit ''md5'' @ replicate 32 48, []]))) [] True 31 (replicate 64 0)
     \<lparr>password_length = 40, password_password = lit ''md5'' @ concat (map byte_to_hex (replicate 16 0))\<rparr>
     \<lparr>startup_parameters = [\<lparr>parm_name = lit ''user'', parm_val = lit ''ydb''\<rparr>],
      startup_num_parameters = 1, startup_length_bytes = []\<rparr> [1, 2, 3, 4] = Inr (lit ''ydb'')"
proof -
  let ?cols = "replicate 10 [] @ [lit ''md5'' @ replicate 32 48, []]"
  have "user_row_ok ?cols (replicate 32 48)"
    by (auto simp: user_row_ok_def nth_append ch_def nul_free_def)
  then show ?thesis
    by (subst password_check_exact [where cols = ?cols and stored = "replicate 32 48"])
      (simp_all add: ch_def byte_to_hex_def nibble_char_def nul_free_def)
qed

text \<open>
  C31: a cancel request signals a session if and only if the session is registered, its process
  still has the registered start time, and the request carries the registered secret key; the
  signal goes to the requested process and nowhere else.
\<close>

theorem cancel_request_authorised:
  assumes "get_timestamp (fmt_d (int (unat (cancel_pid req)))) = YDB_OK (fmt_d (int ts))" and "ts < 10 ^ 19"
    and "start_time = Inr now" and "now < 10 ^ 19"
    and "get_secret (fmt_d (int (unat (cancel_pid req)))) = YDB_OK (fmt_d (int key))" and "key < 2 ^ 32"
    and "\<And>sig. kill (sint (cancel_pid req)) sig = None"
  shows "(\<exists>sig. handle_cancel_request data get_timestamp start_time get_secret release kill req = Inr (sint (cancel_pid req), sig))
    \<longleftrightarrow> data (fmt_d (int (unat (cancel_pid req)))) = YDB_OK 11 \<and> now \<noteq> 0 \<and> now = ts \<and> key = unat (cancel_secret_key req)"
proof -
  let ?key = "unat (cancel_secret_key req)"
  have k32: "?key < 10 ^ 10" "key < 10 ^ 10"
    using unsigned_less [of "cancel_secret_key req", where 'a = nat] assms(6) by simp_all
  have len: "length (fmt_d (int ts)) \<le> 19" "length (fmt_d (int now)) \<le> 19"
      "length (fmt_d (int key)) \<le> 10" "length (fmt_d (int ?key)) \<le> 10"
    by (rule fmt_d_nat_length; use assms(2,4) k32 in simp)+
  have ts: "strncmp_eq 21 (take 20 (fmt_d (int now))) (fmt_d (int ts)) \<longleftrightarrow> now = ts"
    using len strncmp_eq_shorter [of "fmt_d (int now)" "fmt_d (int ts)" 21] by (simp add: fmt_d_nat_inj)
  have key: "strncmp_eq 12 (take 11 (fmt_d (int ?key))) (fmt_d (int key)) \<longleftrightarrow> key = ?key"
    using len strncmp_eq_shorter [of "fmt_d (int ?key)" "fmt_d (int key)" 12] fmt_d_nat_inj [of ?key key] by auto
  have "ydb_get_into 21 (YDB_OK (fmt_d (int ts))) = Inr (fmt_d (int ts))"
    "ydb_get_into 12 (YDB_OK (fmt_d (int key))) = Inr (fmt_d (int key))"
    using len by (simp_all add: ydb_get_into_def)
  then show ?thesis
    using assms(1,3,5,7) ts key
    by (cases "data (fmt_d (int (unat (cancel_pid req))))")
      (auto simp: handle_cancel_request_def Let_def guardE_def)
qed

theorem cancel_request_authorised_witness:
  "\<exists>sig. handle_cancel_request (\<lambda>_. YDB_OK 11) (\<lambda>_. YDB_OK (fmt_d (int 77))) (Inr 77) (\<lambda>_. YDB_OK (fmt_d (int 5)))
     138 (\<lambda>_ _. None) \<lparr>cancel_length = 16, cancel_request_code = 80877102, cancel_pid = 9, cancel_secret_key = 5\<rparr>
   = Inr (sint (9 :: 32 word), sig)"
  using cancel_request_authorised [of "\<lambda>_. YDB_OK (fmt_d (int 77))"
      "\<lparr>cancel_length = 16, cancel_request_code = 80877102, cancel_pid = 9, cancel_secret_key = 5\<rparr>" 77 "Inr 77" 77
      "\<lambda>_. YDB_OK (fmt_d (int 5))" 5 "\<lambda>_ _. None" "\<lambda>_. YDB_OK 11" 138]
  by simp

text \<open>
  \<open>get_pid_start_time\<close> returns the 22nd field of the stat line of a process.
\<close>

theorem pid_start_time_field:
  assumes "\<forall>f\<in>set fs. 32 \<notin> set f \<and> nul_free f" and "21 < length fs" and "fs ! 21 = dec_digits n"
    and "0 < pid" and "length (enc_fields fs) < 8192"
  shows "get_pid_start_time pid (Inr (enc_fields fs)) stack uninit = Inr n"
  by (rule get_pid_start_time_fields [OF assms])

theorem pid_start_time_field_witness:
  "get_pid_start_time 12 (Inr (enc_fields (replicate 21 [65] @ [dec_digits 901, [48]]))) (replicate 8192 0) 0 = Inr 901"
  by (rule pid_start_time_field)
    (auto simp: nth_append enc_fields_def is_digit_def nul_free_def dec_digits.simps length_concat sum_list_replicate)

end
