(* ===== verification/Message_Make.thy ===== *)
theory Message_Make
  imports Message_Formats C_Library
begin

text \<open>
  The makers \<open>src/rocto/make_*.c\<close> of backend messages. A maker computes a length, allocates a block
  for it, writes the header and then the fields one after another. The model keeps the three
  apart: the capacity of the block, the length field and the bytes written; writing more than
  the capacity is \<open>OUT_OF_BOUNDS\<close>, and bytes of the block that are never written keep what the
  allocator returned.
\<close>

section \<open>Filling an allocated message\<close>

definition fill_message :: "(nat \<Rightarrow> byte) \<Rightarrow> byte \<Rightarrow> 32 word \<Rightarrow> nat \<Rightarrow> bytes \<Rightarrow> bytes res" where
  "fill_message junk ty len cap written =
     bindE (guardE (length written \<le> cap) OUT_OF_BOUNDS) (\<lambda>_.
     Inr (ty # htonl len @ written @ map junk [length written..<cap]))"

abbreviation (input) zeroed :: "nat \<Rightarrow> byte" where
  "zeroed \<equiv> (\<lambda>_. 0)"

lemma fill_message_frame:
  assumes "length d = cap" "len = of_nat (length d + 4)"
  shows "fill_message junk ty len cap d = Inr (frame ty d)"
  using assms by (simp add: fill_message_def frame_def hdr_def)

section \<open>Messages of fixed size\<close>

definition make_authentication_ok :: "bytes res" where
  "make_authentication_ok = fill_message zeroed PSQL_AuthenticationOk 8 4 (htonl 0)"

text \<open>\<open>getrandom\<close> is the result of the system call: the salt, or the \<open>errno\<close>.\<close>

definition make_authentication_md5_password :: "errno + bytes \<Rightarrow> bytes res" where
  "make_authentication_md5_password getrandom =
     (case getrandom of
        Inl e \<Rightarrow> Inl (ERR_SYSCALL ''getrandom'' e)
      | Inr salt \<Rightarrow> fill_message zeroed PSQL_AuthenticationMD5Password (4 + 4 + 1 * 4) 8 (htonl 5 @ take 4 salt))"

definition make_backend_key_data :: "32 word \<Rightarrow> 32 word \<Rightarrow> bytes res" where
  "make_backend_key_data secret_key pid =
     fill_message zeroed PSQL_BackendKeyData (4 + 4 + 4) 8 (htonl pid @ htonl secret_key)"

definition make_bind_complete :: "bytes res" where
  "make_bind_complete = fill_message zeroed PSQL_BindComplete 4 0 []"

definition make_close_complete :: "bytes res" where
  "make_close_complete = fill_message zeroed PSQL_CloseComplete 4 0 []"

definition make_parse_complete :: "bytes res" where
  "make_parse_complete = fill_message zeroed PSQL_ParseComplete 4 0 []"

definition make_portal_suspended :: "bytes res" where
  "make_portal_suspended = fill_message zeroed PSQL_PortalSuspended 4 0 []"

definition make_no_data :: "bytes res" where
  "make_no_data = fill_message zeroed PSQL_NoData 4 0 []"

definition make_empty_query_response :: "bytes res" where
  "make_empty_query_response = fill_message zeroed PSQL_EmptyQueryResponse 4 0 []"

datatype PSQL_TransactionStatus =
    PSQL_TransactionStatus_IDLE | PSQL_TransactionStatus_TRANSACTION | PSQL_TransactionStatus_FAILED

fun transaction_status_char :: "PSQL_TransactionStatus \<Rightarrow> byte" where
  "transaction_status_char PSQL_TransactionStatus_IDLE = ch CHR ''I''"
| "transaction_status_char PSQL_TransactionStatus_TRANSACTION = ch CHR ''T''"
| "transaction_status_char PSQL_TransactionStatus_FAILED = ch CHR ''E''"

definition make_ready_for_query :: "PSQL_TransactionStatus \<Rightarrow> bytes res" where
  "make_ready_for_query status =
     fill_message zeroed PSQL_ReadyForQuery (4 + 1) 1 [transaction_status_char status]"

section \<open>ParameterStatus\<close>

text \<open>\<open>name\<close> and \<open>value\<close> are C strings, so they hold no NUL.\<close>

definition make_parameter_status :: "(nat \<Rightarrow> byte) \<Rightarrow> StartupMessageParm \<Rightarrow> bytes res" where
  "make_parameter_status junk parm =
     (let name_len = length (parm_name parm); value_len = length (parm_val parm);
          len = 4 + (of_nat name_len + 1) + (of_nat value_len + 1) :: 32 word in
      fill_message junk PSQL_ParameterStatus len (unat len - 4) (parm_name parm @ [0] @ parm_val parm @ [0]))"

section \<open>CommandComplete\<close>

datatype SqlStatementType =
    create_table_STATEMENT | create_function_STATEMENT | select_STATEMENT | insert_STATEMENT
  | drop_table_STATEMENT | drop_function_STATEMENT | value_STATEMENT | function_call_STATEMENT
  | coalesce_STATEMENT | greatest_STATEMENT | least_STATEMENT | null_if_STATEMENT
  | aggregate_function_STATEMENT | binary_STATEMENT | unary_STATEMENT | column_list_STATEMENT
  | column_STATEMENT | join_STATEMENT | parameter_type_list_STATEMENT | constraint_STATEMENT
  | keyword_STATEMENT | column_list_alias_STATEMENT | column_alias_STATEMENT | table_alias_STATEMENT
  | set_operation_STATEMENT | begin_STATEMENT | commit_STATEMENT | cas_STATEMENT | cas_branch_STATEMENT
  | set_STATEMENT | show_STATEMENT | no_data_STATEMENT | delim_char_list_STATEMENT | index_STATEMENT
  | data_type_struct_STATEMENT | join_type_STATEMENT | discard_all_STATEMENT | row_value_STATEMENT
  | table_value_STATEMENT | array_STATEMENT | history_STATEMENT | delete_from_STATEMENT
  | update_STATEMENT | display_relation_STATEMENT | truncate_table_STATEMENT | create_view_STATEMENT
  | drop_view_STATEMENT | dynamic_sql_STATEMENT | discard_xrefs_STATEMENT | invalid_STATEMENT

definition MAX_TAG_LEN :: nat where
  "MAX_TAG_LEN = 10 + (1 + 12) + (1 + 12) + 1"

definition snprintf :: "nat \<Rightarrow> bytes \<Rightarrow> bytes" where
  "snprintf n s = take (n - 1) s"

text \<open>The command tag; \<open>None\<close> is the default branch, for which no message is made.\<close>

definition command_tag :: "SqlStatementType \<Rightarrow> int \<Rightarrow> bytes option" where
  "command_tag cmd_type row_count =
     map_option (snprintf MAX_TAG_LEN)
     (case cmd_type of
        select_STATEMENT \<Rightarrow> Some (lit ''SELECT '' @ fmt_d row_count)
      | insert_STATEMENT \<Rightarrow> Some (lit ''INSERT 0'' @ lit '' '' @ fmt_d row_count)
      | delete_from_STATEMENT \<Rightarrow> Some (lit ''DELETE'' @ lit '' '' @ fmt_d row_count)
      | update_STATEMENT \<Rightarrow> Some (lit ''UPDATE'' @ lit '' '' @ fmt_d row_count)
      | set_STATEMENT \<Rightarrow> Some (lit ''SET'')
      | show_STATEMENT \<Rightarrow> Some (lit ''SHOW'')
      | drop_table_STATEMENT \<Rightarrow> Some (lit ''DROP TABLE'')
      | drop_view_STATEMENT \<Rightarrow> Some (lit ''DROP VIEW'')
      | create_table_STATEMENT \<Rightarrow> Some (lit ''CREATE TABLE'')
      | create_view_STATEMENT \<Rightarrow> Some (lit ''CREATE VIEW'')
      | drop_function_STATEMENT \<Rightarrow> Some (lit ''DROP FUNCTION'')
      | create_function_STATEMENT \<Rightarrow> Some (lit ''CREATE FUNCTION'')
      | truncate_table_STATEMENT \<Rightarrow> Some (lit ''TRUNCATE TABLE'')
      | _ \<Rightarrow> None)"

definition make_command_complete :: "SqlStatementType \<Rightarrow> int \<Rightarrow> bytes res" where
  "make_command_complete cmd_type row_count =
     (case command_tag cmd_type row_count of
        None \<Rightarrow> Inl RETURNED_NULL
      | Some tag \<Rightarrow>
          let tag_length = length tag + 1; len = 4 + tag_length in
          fill_message zeroed PSQL_CommandComplete (of_nat len) (len - 4) (tag @ [0]))"

section \<open>Column types\<close>

definition PSQL_TypeOid_bool :: int where "PSQL_TypeOid_bool = 16"
definition PSQL_TypeOid_int8 :: int where "PSQL_TypeOid_int8 = 20"
definition PSQL_TypeOid_int2 :: int where "PSQL_TypeOid_int2 = 21"
definition PSQL_TypeOid_int4 :: int where "PSQL_TypeOid_int4 = 23"
definition PSQL_TypeOid_unknown :: int where "PSQL_TypeOid_unknown = 705"
definition PSQL_TypeOid_varchar :: int where "PSQL_TypeOid_varchar = 1043"
definition PSQL_TypeOid_numeric :: int where "PSQL_TypeOid_numeric = 1700"
definition PSQL_TypeOid_date :: int where "PSQL_TypeOid_date = 1082"
definition PSQL_TypeOid_time :: int where "PSQL_TypeOid_time = 1083"
definition PSQL_TypeOid_timetz :: int where "PSQL_TypeOid_timetz = 1266"
definition PSQL_TypeOid_timestamp :: int where "PSQL_TypeOid_timestamp = 1114"
definition PSQL_TypeOid_timestamptz :: int where "PSQL_TypeOid_timestamptz = 1184"

lemmas psql_oid_defs [wire_simps] =
  PSQL_TypeOid_bool_def PSQL_TypeOid_int8_def PSQL_TypeOid_int2_def PSQL_TypeOid_int4_def
  PSQL_TypeOid_unknown_def PSQL_TypeOid_varchar_def PSQL_TypeOid_numeric_def PSQL_TypeOid_date_def
  PSQL_TypeOid_time_def PSQL_TypeOid_timetz_def PSQL_TypeOid_timestamp_def PSQL_TypeOid_timestamptz_def

text \<open>\<open>PSQL_TypeSize_*\<close>: -1 is \<open>TYPLEN_VARLENA\<close>, -2 is \<open>TYPLEN_CSTRING\<close>; an unknown type reports and is -2.\<close>

definition get_type_size_from_psql_type :: "int \<Rightarrow> int" where
  "get_type_size_from_psql_type ty =
     (if ty = PSQL_TypeOid_int4 then 4
      else if ty = PSQL_TypeOid_numeric then - 1
      else if ty = PSQL_TypeOid_varchar then - 1
      else if ty = PSQL_TypeOid_unknown then - 2
      else if ty = PSQL_TypeOid_bool then 1
      else if ty = PSQL_TypeOid_date then 4
      else if ty = PSQL_TypeOid_time then 8
      else if ty = PSQL_TypeOid_timetz then 12
      else if ty = PSQL_TypeOid_timestamp then 8
      else if ty = PSQL_TypeOid_timestamptz then 8
      else - 2)"

section \<open>DataRow\<close>

text \<open>
  \<open>dr_value\<close> is the memory at \<open>value\<close>; \<open>dr_length\<close> the 32-bit length field, -1 for NULL. The column
  types are passed beside the parameters.
\<close>

record DataRowParm =
  dr_length :: int
  dr_value :: bytes
  dr_format :: int

abbreviation (input) PSQL_NULL :: int where "PSQL_NULL \<equiv> - 1"
abbreviation (input) TEXT_FORMAT :: int where "TEXT_FORMAT \<equiv> 0"

definition data_row_size :: "DataRowParm \<Rightarrow> int \<Rightarrow> int" where
  "data_row_size p ty =
     (let text_size = (if dr_length p = PSQL_NULL then 0 else dr_length p) in
      (if dr_format p = TEXT_FORMAT then text_size
       else
         let type_size = get_type_size_from_psql_type ty in
         if type_size < 0 then text_size else type_size) + 4)"

text \<open>The macro \<open>COPY_TEXT_PARM\<close>.\<close>

definition copy_text_parm :: "DataRowParm \<Rightarrow> bytes res" where
  "copy_text_parm p =
     (if dr_length p = PSQL_NULL then Inr (htonl (of_int (dr_length p)))
      else
        bindE (guardE (0 \<le> dr_length p) OUT_OF_BOUNDS) (\<lambda>_.
        bindE (from_mem OUT_OF_BOUNDS (rd_n (dr_value p) 0 (nat (dr_length p)))) (\<lambda>v.
        Inr (htonl (of_int (dr_length p)) @ v))))"

text \<open>A binary \<open>int4\<close> column: the text is copied into a buffer of \<open>INT32_TO_STRING_MAX\<close> bytes and converted.\<close>

definition copy_int4_parm :: "DataRowParm \<Rightarrow> bytes res" where
  "copy_int4_parm p =
     (if dr_length p = PSQL_NULL then Inr (htonl (of_int PSQL_NULL))
      else
        bindE (guardE (0 \<le> dr_length p \<and> dr_length p < 12) OUT_OF_BOUNDS) (\<lambda>_.
        bindE (from_mem OUT_OF_BOUNDS (rd_n (dr_value p) 0 (nat (dr_length p)))) (\<lambda>v.
        let int4_value = strtol (cstr v) in
        bindE (guardE (- (2 ^ 31) \<le> int4_value \<and> int4_value \<le> 2 ^ 31 - 1)
                (ERR_LIBCALL_WITH_ARG ''strtol()'' v)) (\<lambda>_.
        Inr (htonl 4 @ htonl (of_int int4_value))))))"

definition copy_data_row_parm :: "DataRowParm \<Rightarrow> int \<Rightarrow> bytes res" where
  "copy_data_row_parm p ty =
     (if dr_format p = TEXT_FORMAT then copy_text_parm p
      else if ty = PSQL_TypeOid_int4 then copy_int4_parm p
      else copy_text_parm p)"

text \<open>The second loop; \<open>cap\<close> is what is left of the allocated block.\<close>

fun copy_data_row_parms :: "nat \<Rightarrow> (DataRowParm \<times> int) list \<Rightarrow> bytes res" where
  "copy_data_row_parms cap [] = Inr []"
| "copy_data_row_parms cap ((p, ty) # ps) =
     bindE (copy_data_row_parm p ty) (\<lambda>b.
     bindE (guardE (length b \<le> cap) OUT_OF_BOUNDS) (\<lambda>_.
     bindE (copy_data_row_parms (cap - length b) ps) (\<lambda>bs. Inr (b @ bs))))"

definition data_row_sizes :: "(DataRowParm \<times> int) list \<Rightarrow> int" where
  "data_row_sizes ps = sum_list (map (\<lambda>(p, ty). data_row_size p ty) ps)"

definition make_data_row :: "(nat \<Rightarrow> byte) \<Rightarrow> (DataRowParm \<times> int) list \<Rightarrow> bytes res" where
  "make_data_row junk ps =
     (let data_length = data_row_sizes ps in
      bindE (copy_data_row_parms (nat data_length) ps) (\<lambda>body.
      fill_message junk PSQL_DataRow (of_int (data_length + 4 + 2)) (nat data_length + 2)
        (htons (of_nat (length ps)) @ body)))"

section \<open>RowDescription\<close>

record RowDescriptionParm =
  rd_name :: bytes
  rd_table_id :: "32 word"
  rd_column_id :: "16 word"
  rd_data_type :: "32 word"
  rd_data_type_size :: "16 word"
  rd_type_modifier :: "32 word"
  rd_format_code :: "16 word"

definition row_description_bytes :: "RowDescriptionParm \<Rightarrow> bytes" where
  "row_description_bytes p =
     map tolower (rd_name p) @ [0] @ htonl (rd_table_id p) @ htons (rd_column_id p)
     @ htonl (rd_data_type p) @ htons (rd_data_type_size p) @ htonl (rd_type_modifier p)
     @ htons (rd_format_code p)"

definition make_row_description :: "RowDescriptionParm list \<Rightarrow> bytes res" where
  "make_row_description parms =
     (let data_length = sum_list (map (\<lambda>p. length (rd_name p) + 1 + 18) parms) in
      fill_message zeroed PSQL_RowDescription (of_nat (data_length + 4 + 2)) (data_length + 2)
        (htons (of_nat (length parms)) @ concat (map row_description_bytes parms)))"

section \<open>ErrorResponse and NoticeResponse\<close>

datatype PSQL_ErrorSeverity =
    PSQL_Error_ERROR | PSQL_Error_FATAL | PSQL_Error_PANIC | PSQL_Error_WARNING | PSQL_Error_NOTICE
  | PSQL_Error_DEBUG | PSQL_Error_INFO | PSQL_Error_LOG | PSQL_Error_UnknownSeverity

fun psql_error_severity_str :: "PSQL_ErrorSeverity \<Rightarrow> bytes" where
  "psql_error_severity_str PSQL_Error_ERROR = lit ''ERROR''"
| "psql_error_severity_str PSQL_Error_FATAL = lit ''FATAL''"
| "psql_error_severity_str PSQL_Error_PANIC = lit ''PANIC''"
| "psql_error_severity_str PSQL_Error_WARNING = lit ''WARNING''"
| "psql_error_severity_str PSQL_Error_NOTICE = lit ''NOTICE''"
| "psql_error_severity_str PSQL_Error_DEBUG = lit ''DEBUG''"
| "psql_error_severity_str PSQL_Error_INFO = lit ''INFO''"
| "psql_error_severity_str PSQL_Error_LOG = lit ''LOG''"
| "psql_error_severity_str PSQL_Error_UnknownSeverity = lit ''UNKNOWN''"

record ErrorResponseArg =
  arg_type :: byte
  arg_value :: bytes

definition error_response_type :: "PSQL_ErrorSeverity \<Rightarrow> byte" where
  "error_response_type severity =
     (case severity of
        PSQL_Error_LOG \<Rightarrow> PSQL_NoticeResponse
      | PSQL_Error_INFO \<Rightarrow> PSQL_NoticeResponse
      | PSQL_Error_DEBUG \<Rightarrow> PSQL_NoticeResponse
      | PSQL_Error_NOTICE \<Rightarrow> PSQL_NoticeResponse
      | PSQL_Error_WARNING \<Rightarrow> PSQL_NoticeResponse
      | _ \<Rightarrow> PSQL_ErrorResponse)"

definition error_arg_bytes :: "ErrorResponseArg \<Rightarrow> bytes" where
  "error_arg_bytes a = arg_type a # arg_value a @ [0]"

text \<open>\<open>code\<close> is the string \<open>psql_sqlstate_codes_str[code]\<close>; \<open>message\<close> and the argument values are C strings.\<close>

definition make_error_response ::
    "PSQL_ErrorSeverity \<Rightarrow> bytes \<Rightarrow> bytes \<Rightarrow> ErrorResponseArg list \<Rightarrow> bytes res" where
  "make_error_response severity code message args =
     (let new_length = sum_list (map (\<lambda>a. 1 + (length (arg_value a) + 1)) args)
            + (length (psql_error_severity_str severity) + 2) + (length code + 2) + (length message + 2) + 1 in
      fill_message zeroed (error_response_type severity) (of_nat new_length + 4) new_length
        ([ch CHR ''S''] @ psql_error_severity_str severity @ [0]
         @ [ch CHR ''C''] @ code @ [0]
         @ [ch CHR ''M''] @ message @ [0]
         @ concat (map error_arg_bytes args) @ [0]))"

section \<open>ParameterDescription\<close>

text \<open>
  The number of parameters and their types are looked up in the database: \<open>get_num\<close> and \<open>get_type i\<close>
  are the results of the \<open>ydb_get_s\<close> calls, \<open>None\<close> for a status other than \<open>YDB_OK\<close>. The range
  check \<open>0 <= n || INT16_MIN <= n || INT16_MAX >= n\<close> of the source holds for every \<open>n\<close>.
\<close>

fun parameter_types :: "(nat \<Rightarrow> bytes option) \<Rightarrow> nat \<Rightarrow> nat \<Rightarrow> bytes res" where
  "parameter_types get_type i 0 = Inr []"
| "parameter_types get_type i (Suc n) =
     (case get_type (i + 1) of
        None \<Rightarrow> Inl (ERR_ROCTO_DB_LOOKUP ''make_parameter_description'' ''parameter type'')
      | Some s \<Rightarrow>
          let v = strtol (cstr s) in
          bindE (guardE (0 \<le> v \<and> v \<le> 2 ^ 31 - 1) (ERR_LIBCALL ''strtol'')) (\<lambda>_.
          bindE (parameter_types get_type (i + 1) n) (\<lambda>bs. Inr (htonl (of_int v) @ bs))))"

definition make_parameter_description :: "(nat \<Rightarrow> byte) \<Rightarrow> bytes option \<Rightarrow> (nat \<Rightarrow> bytes option) \<Rightarrow> bytes res" where
  "make_parameter_description junk get_num get_type =
     (case get_num of
        None \<Rightarrow> Inl (ERR_ROCTO_DB_LOOKUP ''make_parameter_description'' ''number of prepared statement parameters'')
      | Some s \<Rightarrow>
          let test_type = strtol (cstr s) in
          bindE (guardE (0 \<le> test_type \<or> - (2 ^ 15) \<le> test_type \<or> test_type \<le> 2 ^ 15 - 1) (ERR_LIBCALL ''strtol'')) (\<lambda>_.
          let num_parms = sint (of_int test_type :: 16 word); len = of_int (4 + 2 + 4 * num_parms) in
          if num_parms = 0 then fill_message junk PSQL_ParameterDescription len 2 (htons (of_int num_parms))
          else
            bindE (guardE (0 < num_parms) (ASSERT_FAILED ''0 < num_parms'')) (\<lambda>_.
            bindE (parameter_types get_type 0 (nat num_parms)) (\<lambda>body.
            fill_message junk PSQL_ParameterDescription len (nat (4 * num_parms) + 2)
              (htons (of_int num_parms) @ body)))))"

end
