(* ===== verification/Client_Read.thy ===== *)
theory Client_Read
  imports Message_Make
begin

text \<open>
  The readers \<open>src/rocto/read_*.c\<close> of backend messages: what a client of this library sees of the
  messages that \<open>Message_Make\<close> builds. They trust the message and check nothing.
\<close>

section \<open>Messages without data\<close>

record Complete =
  complete_type :: byte
  complete_length :: "32 word"

definition read_complete :: "bytes \<Rightarrow> Complete res" where
  "read_complete m =
     bindE (msg_type m) (\<lambda>ty. bindE (msg_length m) (\<lambda>L.
     Inr \<lparr>complete_type = ty, complete_length = L\<rparr>))"

definition read_bind_complete :: "bytes \<Rightarrow> Complete res" where
  "read_bind_complete m = read_complete m"

definition read_close_complete :: "bytes \<Rightarrow> Complete res" where
  "read_close_complete m = read_complete m"

definition read_parse_complete :: "bytes \<Rightarrow> Complete res" where
  "read_parse_complete m = read_complete m"

definition read_portal_suspended :: "bytes \<Rightarrow> Complete res" where
  "read_portal_suspended m = read_complete m"

definition read_empty_query_response :: "bytes \<Rightarrow> Complete res" where
  "read_empty_query_response m = read_complete m"

section \<open>Messages with data\<close>

text \<open>\<open>read_authentication_ok\<close> keeps length and result in network order, as four bytes each.\<close>

record AuthenticationOk =
  auth_type :: byte
  auth_length :: bytes
  auth_result :: bytes

definition read_authentication_ok :: "bytes \<Rightarrow> AuthenticationOk res" where
  "read_authentication_ok m =
     bindE (msg_type m) (\<lambda>ty.
     bindE (from_mem OUT_OF_BOUNDS (rd_n m 1 4)) (\<lambda>L.
     bindE (from_mem OUT_OF_BOUNDS (rd_n m 5 4)) (\<lambda>r.
     Inr \<lparr>auth_type = ty, auth_length = L, auth_result = r\<rparr>)))"

record ReadyForQuery =
  ready_type :: byte
  ready_length :: "32 word"
  ready_status :: byte

definition read_ready_for_query :: "bytes \<Rightarrow> ReadyForQuery res" where
  "read_ready_for_query m =
     bindE (msg_type m) (\<lambda>ty. bindE (msg_length m) (\<lambda>L.
     bindE (from_mem OUT_OF_BOUNDS (rd m 5)) (\<lambda>st.
     Inr \<lparr>ready_type = ty, ready_length = L, ready_status = st\<rparr>)))"

record DataMessage =
  data_type :: byte
  data_len :: "32 word"
  data_data :: bytes

definition copy_data :: "bytes \<Rightarrow> DataMessage res" where
  "copy_data m =
     bindE (msg_type m) (\<lambda>ty. bindE (msg_length m) (\<lambda>L.
     bindE (from_mem OUT_OF_BOUNDS (rd_n m 5 (unat (L - 4)))) (\<lambda>d.
     Inr \<lparr>data_type = ty, data_len = L, data_data = d\<rparr>)))"

definition read_parameter_status :: "bytes \<Rightarrow> DataMessage res" where
  "read_parameter_status m = copy_data m"

text \<open>The command tag is the C string at the start of the data.\<close>

definition read_command_complete :: "bytes \<Rightarrow> (DataMessage \<times> bytes) res" where
  "read_command_complete m = bindE (copy_data m) (\<lambda>r. Inr (r, cstr (data_data r)))"

section \<open>read_row_description\<close>

fun read_row_parms :: "bytes \<Rightarrow> int \<Rightarrow> nat \<Rightarrow> RowDescriptionParm list res" where
  "read_row_parms d c 0 = Inr []"
| "read_row_parms d c (Suc n) =
     bindE (from_mem OUT_OF_BOUNDS (scan_nul d c (int (length d) + 1))) (\<lambda>e.
     bindE (from_mem OUT_OF_BOUNDS (rd_n d (e + 1) 18)) (\<lambda>f.
     bindE (read_row_parms d (e + 19) n) (\<lambda>ps.
     Inr (\<lparr>rd_name = take (nat (e - c)) (drop (nat c) d), rd_table_id = ntohl (take 4 f),
           rd_column_id = ntohs (take 2 (drop 4 f)), rd_data_type = ntohl (take 4 (drop 6 f)),
           rd_data_type_size = ntohs (take 2 (drop 10 f)), rd_type_modifier = ntohl (take 4 (drop 12 f)),
           rd_format_code = ntohs (take 2 (drop 16 f))\<rparr> # ps))))"

definition read_row_description :: "bytes \<Rightarrow> RowDescriptionParm list res" where
  "read_row_description m =
     bindE (msg_length m) (\<lambda>L.
     bindE (from_mem OUT_OF_BOUNDS (rd_n m 5 2)) (\<lambda>nb.
     bindE (from_mem OUT_OF_BOUNDS (rd_n m 7 (unat (L - 4 - 2)))) (\<lambda>d.
     read_row_parms d 0 (nat (sint (ntohs nb))))))"

section \<open>read_data_row\<close>

text \<open>
  The columns as (length, offset of the value in the data). The length is signed and moves the
  cursor, also when it is -1.
\<close>

fun read_columns :: "bytes \<Rightarrow> int \<Rightarrow> nat \<Rightarrow> (int \<times> int) list res" where
  "read_columns d c 0 = Inr []"
| "read_columns d c (Suc n) =
     bindE (from_mem OUT_OF_BOUNDS (rd_n d c 4)) (\<lambda>bs.
     let len = sint (ntohl bs) in
     bindE (read_columns d (c + 4 + len) n) (\<lambda>cs. Inr ((len, c + 4) # cs)))"

record DataRow =
  dr_data :: bytes
  dr_columns :: "(int \<times> int) list"

definition read_data_row :: "bytes \<Rightarrow> DataRow res" where
  "read_data_row m =
     bindE (msg_length m) (\<lambda>L.
     bindE (from_mem OUT_OF_BOUNDS (rd_n m 5 2)) (\<lambda>nb.
     let num_columns = sint (ntohs nb) in
     if num_columns = 0 then Inr \<lparr>dr_data = [], dr_columns = []\<rparr>
     else
       bindE (from_mem OUT_OF_BOUNDS (rd_n m 7 (unat (L - 4 - 2)))) (\<lambda>d.
       bindE (read_columns d 0 (nat num_columns)) (\<lambda>cs.
       Inr \<lparr>dr_data = d, dr_columns = cs\<rparr>))))"

definition column_value :: "DataRow \<Rightarrow> int \<times> int \<Rightarrow> bytes" where
  "column_value r col = take (nat (fst col)) (drop (nat (snd col)) (dr_data r))"

end
