(* ===== verification/Reader_Laws.thy ===== *)
theory Reader_Laws
  imports Message_Read
begin

text \<open>
  What the readers of \<open>Message_Read\<close> accept. For each reader a functional description over the data of
  a framed message covers every branch, errors included; from it follow the exact set of accepted
  messages and the round trips. \<open>message_reader\<close> is the contract the dispatch loop relies on: a reader
  never leaves its memory on a well-formed buffer, and it accepts its own message letter only.
\<close>

section \<open>Query and PasswordMessage\<close>

lemma scan_nul_whole: "e = int (length d) \<Longrightarrow> scan_nul d 0 e = Some (int (length (cstr d)))"
  using scan_nul_region [of "[]" d "[]"] by simp

lemma nul_free_length_iff: "nul_free d \<longleftrightarrow> length (cstr d) = length d"
  using nul_in_set_iff [of d] length_cstr_le [of d] by (auto simp: nul_free_def)

lemma terminated_iff: "d = cstr d @ [0] \<longleftrightarrow> Suc (length (cstr d)) = length d"
proof
  assume l: "Suc (length (cstr d)) = length d"
  then have "d = cstr d @ 0 # drop (Suc (length (cstr d))) d"
    by (intro cstr_split) simp
  with l show "d = cstr d @ [0]" by simp
next
  assume "d = cstr d @ [0]"
  then have "length d = length (cstr d @ [0])" by (rule arg_cong)
  then show "Suc (length (cstr d)) = length d" by simp
qed

lemma read_query_frame:
  assumes "length d < 2 ^ 31 - 4"
  shows "read_query (frame t d @ rest) =
    (if t \<noteq> PSQL_Query then Inl (ERR_ROCTO_INVALID_MESSAGE_TYPE ''Query'' t PSQL_Query)
     else if d = [] then Inl (ERR_ROCTO_MISSING_DATA ''Query'' ''query'')
     else if nul_free d then Inl (ERR_ROCTO_MISSING_NULL ''Query'' ''query'')
     else if d \<noteq> cstr d @ [0] then Inl (ERR_ROCTO_TRAILING_CHARS ''Query'')
     else Inr \<lparr>query_length = of_nat (length d + 4), query_query = cstr d\<rparr>)"
proof -
  have len: "int (unat (of_nat (length d + 4) :: 32 word)) - 4 = int (length d)"
    by (simp only: unat_frame_length [OF assms])
  have "\<not> nul_free d \<Longrightarrow> length (cstr d) < length d"
    using length_cstr_le [of d] nul_free_length_iff [of d] by linarith
  then show ?thesis
    unfolding read_query_def Let_def reader_frame [OF assms] bindE_simps
    using nul_free_length_iff [of d] terminated_iff [of d]
    by (simp only: len from_mem_simps rd_n_frame_data bindE_simps scan_nul_whole guardE_def)
      (auto simp: frame_length_4_iff [OF assms] len scan_nul_whole)
qed

lemma read_password_frame:
  assumes "length d < 2 ^ 31 - 4"
  shows "read_password_message (frame t d @ rest) =
    (if t \<noteq> PSQL_PasswordMessage
     then Inl (ERR_ROCTO_INVALID_MESSAGE_TYPE ''PasswordMessage'' t PSQL_PasswordMessage)
     else if d = [] then Inl (ERR_ROCTO_MISSING_DATA ''PasswordMessage'' ''password'')
     else if nul_free d then Inl (ERR_ROCTO_MISSING_NULL ''PasswordMessage'' ''password'')
     else if d \<noteq> cstr d @ [0] then Inl (ERR_ROCTO_TRAILING_CHARS ''PasswordMessage'')
     else Inr \<lparr>password_length = of_nat (length d + 4), password_password = cstr d\<rparr>)"
proof -
  have len: "int (unat (of_nat (length d + 4) :: 32 word)) - 4 = int (length d)"
    by (simp only: unat_frame_length [OF assms])
  have "\<not> nul_free d \<Longrightarrow> length (cstr d) < length d"
    using length_cstr_le [of d] nul_free_length_iff [of d] by linarith
  then show ?thesis
    unfolding read_password_message_def Let_def reader_frame [OF assms] bindE_simps
    using nul_free_length_iff [of d] terminated_iff [of d]
    by (simp only: len from_mem_simps rd_n_frame_data bindE_simps scan_nul_whole guardE_def)
      (auto simp: frame_length_4_iff [OF assms] len scan_nul_whole)
qed

section \<open>Messages copied into a padded block\<close>

text \<open>Addresses inside the copied block: the header is five bytes, the data follows, then the padding.\<close>

lemma rd_frame_type: "rd (frame t d @ rest) 0 = Some t"
  by (simp add: frame_def hdr_def rd_def)

lemma frame_shift:
  "0 \<le> i \<Longrightarrow> rd (frame t d @ z) (5 + i) = rd (d @ z) i"
  "0 \<le> i \<Longrightarrow> rd_n (frame t d @ z) (5 + i) n = rd_n (d @ z) i n"
  "0 \<le> i \<Longrightarrow> scan_nul (frame t d @ z) (5 + i) (5 + j) = map_option ((+) 5) (scan_nul (d @ z) i j)"
  by (simp_all add: frame_def rd_shift rd_n_shift scan_nul_shift)

lemma str_at_frame:
  "nul_free s \<Longrightarrow> str_at (frame t (s @ 0 # r) @ z) 5 = s"
  by (simp add: str_at_def frame_def)

section \<open>Execute\<close>

text \<open>The data of an Execute message: the portal name, its NUL, and a 32-bit row count.\<close>

definition enc_execute :: "Execute \<Rightarrow> bytes" where
  "enc_execute e = execute_source e @ [0] @ htonl (execute_rows_to_return e)"

lemma read_execute_frame_nul:
  assumes "length (s @ 0 # r) < 2 ^ 31 - 4" "nul_free s"
  shows "read_execute (frame t (s @ 0 # r) @ rest) =
    (if t \<noteq> PSQL_Execute then Inl (ERR_ROCTO_INVALID_MESSAGE_TYPE ''Execute'' t PSQL_Execute)
     else if length r < 4 then Inl (ERR_ROCTO_MISSING_DATA ''Execute'' ''number of rows to return'')
     else if 4 < length r then Inl (ERR_ROCTO_TRAILING_CHARS ''Execute'')
     else Inr \<lparr>execute_source = s, execute_rows_to_return = ntohl r\<rparr>)"
proof -
  let ?b = "frame t (s @ 0 # r) @ replicate 4 0"
  have last: "int (length (s @ 0 # r)) = int (length s) + 1 + int (length r)"
    by simp
  have scan: "scan_nul ?b 5 (5 + (int (length s) + 1 + int (length r))) = Some (5 + int (length s))"
    using frame_shift(3) [of 0 t "s @ 0 # r" "replicate 4 0" "int (length s) + 1 + int (length r)"]
      scan_nul_string [of s "[]" "int (length s) + 1 + int (length r)" "r @ replicate 4 0"] assms(2)
    by simp
  have "length r = 4 \<Longrightarrow> rd_n (frame t' (s @ 0 # r) @ replicate 4 0) (5 + (int (length s) + 1)) 4 = Some r" for t'
    using frame_shift(2) [of "int (length s) + 1" t' "s @ 0 # r" "replicate 4 0" 4]
      rd_n_shift [of "int (length s) + 1" "s @ [0]" 0 "r @ replicate 4 0" 4] rd_n_prefix [of 4 r]
    by simp
  then have rows: "length r = 4 \<Longrightarrow> rd_n (frame t' (s @ 0 # r) @ replicate 4 0) (6 + int (length s)) 4 = Some r" for t'
    by (simp add: add.commute add.left_commute)
  show ?thesis
    unfolding read_execute_def Let_def reader_frame [OF assms(1)] bindE_simps prod.case
      rd_frame_type from_mem_simps last scan guardE_def
    by (auto simp: rows str_at_frame assms(2))
qed

lemma read_execute_frame_no_nul:
  assumes "length d < 2 ^ 31 - 4" "nul_free d"
  shows "read_execute (frame t d @ rest) =
    (if t \<noteq> PSQL_Execute then Inl (ERR_ROCTO_INVALID_MESSAGE_TYPE ''Execute'' t PSQL_Execute)
     else Inl (ERR_ROCTO_MISSING_NULL ''Execute'' ''source''))"
proof -
  have scan: "scan_nul (frame t d @ replicate 4 0) 5 (5 + int (length d)) = Some (5 + int (length d))"
    using scan_nul_frame [of t d] assms(2) by simp
  show ?thesis
    unfolding read_execute_def Let_def reader_frame [OF assms(1)] bindE_simps prod.case
      rd_frame_type from_mem_simps scan guardE_def
    by simp
qed

section \<open>Close and Describe\<close>

definition is_item :: "byte \<Rightarrow> bool" where
  "is_item i \<longleftrightarrow> i = ch CHR ''S'' \<or> i = ch CHR ''P''"

lemma frame_length_minus5:
  assumes "length (i # d) < 2 ^ 31 - 4"
  shows "unat ((of_nat (length (i # d) + 4) :: 32 word) - 4 - 1) = length d"
proof -
  have "(of_nat (length (i # d) + 4) :: 32 word) - 4 - 1 = of_nat (length d)"
    by simp
  moreover have "length d < 2 ^ 32"
    using assms by simp
  ultimately show ?thesis by (simp only: unat_of_nat) simp
qed

lemma frame_item: "rd (frame t (i # d) @ z) 5 = Some i"
  using frame_shift(1) [of 0 t "i # d" z] by (simp add: rd_def)

lemma scan_item:
  assumes "nul_free s" "int (length s) < e"
  shows "scan_nul (frame t (i # s @ 0 # r) @ z) 6 (6 + e) = Some (6 + int (length s))"
proof -
  have "frame t (i # s @ 0 # r) @ z = (hdr t (length (i # s @ 0 # r)) @ [i]) @ s @ 0 # r @ z"
    by (simp add: frame_def)
  then show ?thesis
    using scan_nul_string [of s "hdr t (length (i # s @ 0 # r)) @ [i]" "6 + e" "r @ z"] assms
    by simp
qed

lemma scan_item_none:
  assumes "nul_free s"
  shows "scan_nul (frame t (i # s) @ z) 6 (6 + int (length s)) = Some (6 + int (length s))"
proof -
  have "frame t (i # s) @ z = (hdr t (length (i # s)) @ [i]) @ s @ z"
    by (simp add: frame_def)
  then show ?thesis
    using scan_nul_region [of "hdr t (length (i # s)) @ [i]" s z] assms
    by simp
qed

lemma str_at_item:
  "nul_free s \<Longrightarrow> str_at (frame t (i # s @ 0 # r) @ z) 6 = s"
  by (simp add: str_at_def frame_def)

lemma read_close_frame_nul:
  assumes "length (i # s @ 0 # r) < 2 ^ 31 - 4" "nul_free s"
  shows "read_close (frame t (i # s @ 0 # r) @ rest) =
    (if t \<noteq> PSQL_Close then Inl (ERR_ROCTO_INVALID_MESSAGE_TYPE '''' t PSQL_Close)
     else if \<not> is_item i then Inl (ERR_ROCTO_INVALID_ITEM_VALUE ''Close'' i)
     else if r \<noteq> [] then Inl (ERR_ROCTO_TRAILING_CHARS ''Close'')
     else Inr \<lparr>close_type = t, close_length = of_nat (length (i # s @ 0 # r) + 4), close_item = i, close_data = s\<rparr>)"
proof -
  have last: "int (unat ((of_nat (length (i # s @ 0 # r) + 4) :: 32 word) - 4 - 1))
      = int (length s) + 1 + int (length r)"
    by (simp only: frame_length_minus5 [OF assms(1)]) simp
  have scan: "scan_nul (frame t (i # s @ 0 # r) @ replicate 0 0) 6 (6 + (int (length s) + 1 + int (length r)))
      = Some (6 + int (length s))"
    by (rule scan_item) (use assms(2) in simp_all)
  show ?thesis
    unfolding read_close_def Let_def reader_frame [OF assms(1)] bindE_simps prod.case
      rd_frame_type frame_item from_mem_simps last scan guardE_def is_item_def
      str_at_item [OF assms(2)]
    by auto
qed

lemma read_close_frame_no_nul:
  assumes "length (i # d) < 2 ^ 31 - 4" "nul_free d"
  shows "read_close (frame t (i # d) @ rest) =
    (if t \<noteq> PSQL_Close then Inl (ERR_ROCTO_INVALID_MESSAGE_TYPE '''' t PSQL_Close)
     else if \<not> is_item i then Inl (ERR_ROCTO_INVALID_ITEM_VALUE ''Close'' i)
     else Inl (ERR_ROCTO_MISSING_NULL ''Close'' ''data''))"
  unfolding read_close_def Let_def reader_frame [OF assms(1)] bindE_simps prod.case
    rd_frame_type frame_item from_mem_simps frame_length_minus5 [OF assms(1)]
    scan_item_none [OF assms(2)] guardE_def is_item_def
  by auto

text \<open>An empty Close message: the item is read one byte past the end of the allocation.\<close>

lemma read_close_frame_empty:
  "read_close (frame t [] @ rest) =
    (if t \<noteq> PSQL_Close then Inl (ERR_ROCTO_INVALID_MESSAGE_TYPE '''' t PSQL_Close) else Inl OUT_OF_BOUNDS)"
proof -
  have "rd (frame t [] @ replicate 0 0) 5 = None"
    by (simp add: rd_def)
  then show ?thesis
    using copy_message_frame [of "[]" 0 t rest] rd_frame_type [of t "[]" "replicate 0 0"]
    by (simp add: read_close_def Let_def guardE_def)
qed

lemma read_describe_frame_nul:
  assumes "length (i # s @ 0 # r) < 2 ^ 31 - 4" "nul_free s"
  shows "read_describe (frame t (i # s @ 0 # r) @ rest) =
    (if t \<noteq> PSQL_Describe then Inl (ERR_ROCTO_INVALID_MESSAGE_TYPE ''Describe'' t PSQL_Describe)
     else if \<not> is_item i then Inl (ERR_ROCTO_INVALID_ITEM_VALUE ''Describe'' i)
     else if r \<noteq> [] then Inl (ERR_ROCTO_TRAILING_CHARS ''Describe'')
     else Inr \<lparr>describe_type = t, describe_length = of_nat (length (i # s @ 0 # r) + 4), describe_item = i, describe_name = s\<rparr>)"
proof -
  let ?b = "frame t (i # s @ 0 # r) @ replicate 5 0"
  have last: "int (unat ((of_nat (length (i # s @ 0 # r) + 4) :: 32 word) - 4 - 1))
      = int (length s) + 1 + int (length r)"
    by (simp only: frame_length_minus5 [OF assms(1)]) simp
  have "scan_nul ?b 6 (6 + (int (length ?b) - 5)) = Some (6 + int (length s))"
    by (rule scan_item) (use assms(2) in simp_all)
  moreover have "6 + (int (length ?b) - 5) = int (length ?b) + 1"
    by simp
  ultimately have scan: "scan_nul ?b 6 (int (length ?b) + 1) = Some (6 + int (length s))"
    by (simp only:)
  show ?thesis
    unfolding read_describe_def Let_def reader_frame [OF assms(1)] bindE_simps prod.case
      rd_frame_type frame_item from_mem_simps last scan guardE_def is_item_def
      str_at_item [OF assms(2)] PSQL_Describe_def
    by auto
qed

text \<open>With no NUL in the message the scan stops at the first padding byte.\<close>

lemma read_describe_frame_no_nul:
  assumes "length (i # d) < 2 ^ 31 - 4" "nul_free d"
  shows "read_describe (frame t (i # d) @ rest) =
    (if t \<noteq> PSQL_Describe then Inl (ERR_ROCTO_INVALID_MESSAGE_TYPE ''Describe'' t PSQL_Describe)
     else if \<not> is_item i then Inl (ERR_ROCTO_INVALID_ITEM_VALUE ''Describe'' i)
     else Inl (ERR_ROCTO_MISSING_NULL ''Describe'' ''name''))"
proof -
  let ?b = "frame t (i # d) @ replicate 5 0"
  have "frame t (i # d) @ replicate 5 0 = (hdr t (length (i # d)) @ [i]) @ d @ 0 # replicate 4 0"
    by (simp add: frame_def numeral_eq_Suc)
  then have scan: "scan_nul ?b 6 (int (length ?b) + 1) = Some (6 + int (length d))"
    using scan_nul_string [of d "hdr t (length (i # d)) @ [i]" "int (length ?b) + 1" "replicate 4 0"] assms(2)
    by simp
  show ?thesis
    unfolding read_describe_def Let_def reader_frame [OF assms(1)] bindE_simps prod.case
      rd_frame_type frame_item from_mem_simps frame_length_minus5 [OF assms(1)] scan guardE_def
      is_item_def PSQL_Describe_def
    by auto
qed

text \<open>An empty Describe message: the item byte is the first padding byte, which is no item.\<close>

lemma read_describe_frame_empty:
  "read_describe (frame t [] @ rest) =
    (if t \<noteq> PSQL_Describe then Inl (ERR_ROCTO_INVALID_MESSAGE_TYPE ''Describe'' t PSQL_Describe)
     else Inl (ERR_ROCTO_INVALID_ITEM_VALUE ''Describe'' 0))"
proof -
  have "rd (frame t [] @ replicate 5 0) 5 = Some 0"
    using frame_shift(1) [of 0 t "[]" "replicate 5 0"] by (simp add: rd_def)
  then show ?thesis
    using copy_message_frame [of "[]" 5 t rest] rd_frame_type [of t "[]" "replicate 5 0"]
    by (simp add: read_describe_def Let_def guardE_def PSQL_Describe_def ch_def)
qed

section \<open>Parse\<close>

fun words32 :: "nat \<Rightarrow> bytes \<Rightarrow> 32 word list" where
  "words32 0 x = []"
| "words32 (Suc n) x = ntohl (take 4 x) # words32 n (drop 4 x)"

lemma length_words32 [simp]: "length (words32 n x) = n"
  by (induction n arbitrary: x) simp_all

lemma words32_concat: "words32 (length ts) (concat (map htonl ts)) = ts"
  by (induction ts) simp_all

lemma concat_words32: "length x = 4 * n \<Longrightarrow> concat (map htonl (words32 n x)) = x"
proof (induction n arbitrary: x)
  case 0
  then show ?case by simp
next
  case (Suc n)
  have "concat (map htonl (words32 n (drop 4 x))) = drop 4 x"
    using Suc.prems by (intro Suc.IH) simp
  then show ?case using Suc.prems by (simp add: htonl_ntohl)
qed

lemma read_parm_data_types_at:
  assumes "length x = 4 * n"
  shows "read_parm_data_types (pre @ x @ z) (int (length pre)) n = Inr (words32 n x)"
  using assms
proof (induction n arbitrary: pre x)
  case 0
  then show ?case by simp
next
  case (Suc n)
  have "read_parm_data_types ((pre @ take 4 x) @ drop 4 x @ z) (int (length (pre @ take 4 x))) n
      = Inr (words32 n (drop 4 x))"
    using Suc.prems by (intro Suc.IH) simp
  then have "read_parm_data_types (pre @ x @ z) (int (length pre) + 4) n = Inr (words32 n (drop 4 x))"
    using Suc.prems by simp
  moreover have "rd_n (pre @ x @ z) (int (length pre)) 4 = Some (take 4 x)"
    using Suc.prems by (simp add: rd_n_def)
  ultimately show ?case by simp
qed

text \<open>The part of the data after the two strings: a 16-bit count and that many 32-bit type identifiers.\<close>

definition parse_tail :: "bytes \<Rightarrow> (16 word \<times> 32 word list) res" where
  "parse_tail r =
     (if r = [] then Inl (ERR_ROCTO_MISSING_DATA ''Parse'' ''number of parameter data types'')
      else let num = ntohs (take 2 (r @ [0])) in
        if sint num < 0 then Inl (ERR_INVALID_NUMBER ''Parse'' ''parameter data types'' (sint num))
        else if 2 + 4 * sint num < int (length r) then Inl (ERR_ROCTO_TOO_MANY_VALUES ''Parse'' ''parameter data types'')
        else if int (length r) < 2 + 4 * sint num then Inl (ERR_ROCTO_MISSING_DATA ''Parse'' ''parameter data types'')
        else Inr (num, words32 (nat (sint num)) (drop 2 r)))"

lemma read_parse_frame_nul:
  assumes "length (s @ 0 # q @ 0 # r) < 2 ^ 31 - 4" "nul_free s" "nul_free q"
  shows "read_parse (frame t (s @ 0 # q @ 0 # r) @ rest) =
    (if t \<noteq> PSQL_Parse then Inl (ERR_ROCTO_INVALID_MESSAGE_TYPE ''Parse'' t PSQL_Parse)
     else bindE (parse_tail r) (\<lambda>(num, ts).
       Inr \<lparr>parse_dest = s, parse_query = q, parse_num_parm_data_types = num, parse_parm_data_types = ts\<rparr>))"
proof -
  let ?d = "s @ 0 # q @ 0 # r" and ?z = "replicate 4 0 :: bytes"
  let ?a = "5 + int (length s)" and ?e = "5 + int (length ?d)"
  let ?c = "?a + 1 + int (length q)"
  let ?pre = "hdr t (length ?d) @ s @ [0]"
  let ?pre2 = "?pre @ q @ [0]"
  have blk: "frame t ?d @ ?z = ?pre @ q @ 0 # r @ ?z" "frame t ?d @ ?z = ?pre2 @ r @ ?z"
    by (simp_all add: frame_def)
  have scan1: "scan_nul (frame t ?d @ ?z) 5 ?e = Some ?a"
    using scan_nul_string [of s "hdr t (length ?d)" ?e "q @ 0 # r @ ?z"] assms(2)
    by (simp add: frame_def)
  have scan2: "scan_nul (frame t ?d @ ?z) (?a + 1) ?e = Some ?c"
    using scan_nul_string [of q ?pre ?e "r @ ?z"] assms(3) unfolding blk(1) by simp
  have rdc: "rd (frame t ?d @ ?z) ?c = Some 0"
    using scan_nul_hit [OF scan2] by simp
  have num: "r \<noteq> [] \<Longrightarrow> rd_n (frame t ?d @ ?z) (?c + 1) 2 = Some (take 2 (r @ [0]))"
    using rd_n_shift [of "?c + 1" ?pre2 0 "r @ ?z" 2] unfolding blk(2)
    by (cases r; cases "tl r") (auto simp: rd_n_def numeral_eq_Suc)
  have types: "int (length r) = 2 + 4 * sint n \<Longrightarrow> 0 \<le> sint n \<Longrightarrow>
      read_parm_data_types (frame t ?d @ ?z) (?c + 1 + 2) (nat (sint n)) = Inr (words32 (nat (sint n)) (drop 2 r))"
    for n :: "16 word"
  proof -
    assume l: "int (length r) = 2 + 4 * sint n" and n: "0 \<le> sint n"
    then have "2 \<le> length r" by linarith
    then have "frame t ?d @ ?z = (?pre2 @ take 2 r) @ drop 2 r @ ?z" and "int (length (?pre2 @ take 2 r)) = ?c + 1 + 2"
      unfolding blk(2) by simp_all
    moreover have "length (drop 2 r) = 4 * nat (sint n)"
      using l n by simp
    ultimately show ?thesis
      using read_parm_data_types_at [of "drop 2 r" "nat (sint n)" "?pre2 @ take 2 r" ?z] by simp
  qed
  have strs: "str_at (frame t ?d @ ?z) 5 = s" "str_at (frame t ?d @ ?z) (?a + 1) = q"
    using assms(2,3) by (simp_all add: str_at_def frame_def nat_add_distrib)
  show ?thesis
  proof (cases "t = PSQL_Parse \<and> r \<noteq> []")
    case True
    then have r: "r \<noteq> []" by simp
    let ?n = "ntohs (take 2 (r @ [0]))"
    show ?thesis
    proof (cases "int (length r) = 2 + 4 * sint ?n \<and> 0 \<le> sint ?n")
      case ok: True
      then have "2 \<le> length r" by linarith
      then have tk: "take 2 (r @ [0]) = take 2 r" by simp
      have n: "0 \<le> sint (ntohs (take 2 r))" and l: "int (length r) = 2 + 4 * sint (ntohs (take 2 r))"
        using ok unfolding tk by simp_all
      have ne: "2 + 4 * sint (ntohs (take 2 r)) \<noteq> 0"
        using n by linarith
      show ?thesis
        unfolding read_parse_def Let_def reader_frame [OF assms(1)] bindE_simps prod.case
          rd_frame_type from_mem_simps scan1 scan2 rdc num [OF r] types [OF l n]
          strs parse_tail_def guardE_def tk
        using True n l ne by simp
    next
      case False
      obtain n where n: "?n = n" by blast
      show ?thesis
        using False True
        unfolding read_parse_def Let_def reader_frame [OF assms(1)] bindE_simps prod.case
          rd_frame_type from_mem_simps scan1 scan2 rdc num [OF r] parse_tail_def guardE_def n
        by auto
    qed
  next
    case False
    then show ?thesis
      unfolding read_parse_def Let_def reader_frame [OF assms(1)] bindE_simps prod.case
        rd_frame_type from_mem_simps scan1 scan2 rdc parse_tail_def guardE_def
      by auto
  qed
qed

lemma read_parse_frame_no_nul:
  assumes "length d < 2 ^ 31 - 4" "nul_free d"
  shows "read_parse (frame t d @ rest) =
    (if t \<noteq> PSQL_Parse then Inl (ERR_ROCTO_INVALID_MESSAGE_TYPE ''Parse'' t PSQL_Parse)
     else Inl (ERR_ROCTO_MISSING_NULL ''Parse'' ''destination''))"
proof -
  have scan: "scan_nul (frame t d @ replicate 4 0) 5 (5 + int (length d)) = Some (5 + int (length d))"
    using scan_nul_frame [of t d] assms(2) by simp
  show ?thesis
    unfolding read_parse_def Let_def reader_frame [OF assms(1)] bindE_simps prod.case
      rd_frame_type from_mem_simps scan guardE_def
    by simp
qed

lemma read_parse_frame_one_nul:
  assumes "length (s @ 0 # q) < 2 ^ 31 - 4" "nul_free s" "nul_free q"
  shows "read_parse (frame t (s @ 0 # q) @ rest) =
    (if t \<noteq> PSQL_Parse then Inl (ERR_ROCTO_INVALID_MESSAGE_TYPE ''Parse'' t PSQL_Parse)
     else if q = [] then Inl (ERR_ROCTO_MISSING_DATA ''Parse'' ''destination or query'')
     else Inl (ERR_ROCTO_MISSING_NULL ''Parse'' ''query''))"
proof -
  let ?d = "s @ 0 # q" and ?z = "replicate 4 0 :: bytes"
  let ?a = "5 + int (length s)" and ?e = "5 + int (length ?d)"
  let ?pre = "hdr t (length ?d) @ s @ [0]"
  have blk: "frame t ?d @ ?z = ?pre @ q @ ?z"
    by (simp add: frame_def)
  have scan1: "scan_nul (frame t ?d @ ?z) 5 ?e = Some ?a"
    using scan_nul_string [of s "hdr t (length ?d)" ?e "q @ ?z"] assms(2)
    by (simp add: frame_def)
  have scan2: "scan_nul (frame t ?d @ ?z) (?a + 1) ?e = Some ?e"
    using scan_nul_none [of q ?pre ?z] assms(3) unfolding blk by (simp add: algebra_simps)
  have rde: "rd (frame t ?d @ ?z) ?e = Some 0"
    by (simp add: rd_def nth_append nat_add_distrib)
  show ?thesis
    unfolding read_parse_def Let_def reader_frame [OF assms(1)] bindE_simps prod.case
      rd_frame_type from_mem_simps scan1 scan2 rde guardE_def
    by simp
qed

section \<open>The accepted messages, exactly\<close>

definition enc_parse :: "Parse \<Rightarrow> bytes" where
  "enc_parse p = parse_dest p @ [0] @ parse_query p @ [0]
     @ htons (parse_num_parm_data_types p) @ concat (map htonl (parse_parm_data_types p))"

definition parse_ok :: "Parse \<Rightarrow> bool" where
  "parse_ok p \<longleftrightarrow> nul_free (parse_dest p) \<and> nul_free (parse_query p)
     \<and> sint (parse_num_parm_data_types p) = int (length (parse_parm_data_types p))
     \<and> length (enc_parse p) < 2 ^ 31 - 4"

lemma length_concat_htonl [simp]: "length (concat (map htonl ts)) = 4 * length ts"
  by (induction ts) simp_all

lemma parse_tail_encode:
  assumes "sint num = int (length ts)"
  shows "parse_tail (htons num @ concat (map htonl ts)) = Inr (num, ts)"
proof -
  have "take 2 ((htons num @ concat (map htonl ts)) @ [0]) = htons num"
    by simp
  then show ?thesis
    using assms by (simp add: parse_tail_def Let_def words32_concat)
qed

lemma parse_tail_decode:
  assumes "parse_tail r = Inr (num, ts)"
  shows "r = htons num @ concat (map htonl ts) \<and> sint num = int (length ts)"
proof -
  have r: "r \<noteq> []" and num: "num = ntohs (take 2 (r @ [0]))" and pos: "0 \<le> sint num"
    and len: "int (length r) = 2 + 4 * sint num" and ts: "ts = words32 (nat (sint num)) (drop 2 r)"
    using assms by (auto simp: parse_tail_def Let_def split: if_splits)
  then have l2: "2 \<le> length r" by linarith
  then have "take 2 (r @ [0]) = take 2 r" by simp
  with num l2 have "htons num = take 2 r"
    by (simp add: htons_ntohs)
  moreover have "concat (map htonl ts) = drop 2 r"
    unfolding ts using len pos by (intro concat_words32) simp
  ultimately show ?thesis
    using ts pos by simp
qed

lemma read_parse_encode:
  assumes "parse_ok p"
  shows "read_parse (frame PSQL_Parse (enc_parse p) @ rest) = Inr p"
proof -
  let ?r = "htons (parse_num_parm_data_types p) @ concat (map htonl (parse_parm_data_types p))"
  have e: "enc_parse p = parse_dest p @ 0 # parse_query p @ 0 # ?r"
    by (simp add: enc_parse_def)
  show ?thesis
    using read_parse_frame_nul [of "parse_dest p" "parse_query p" ?r PSQL_Parse rest] assms
      parse_tail_encode [of "parse_num_parm_data_types p" "parse_parm_data_types p"]
    unfolding parse_ok_def e by simp
qed

lemma read_parse_decode:
  assumes "wf_message m" "read_parse m = Inr p"
  shows "\<exists>rest. m = frame PSQL_Parse (enc_parse p) @ rest \<and> parse_ok p"
proof -
  obtain t d rest where m: "m = frame t d @ rest" and d: "length d < 2 ^ 31 - 4"
    using assms(1) by (rule wf_message_frame)
  show ?thesis
  proof (cases d rule: nul_cases)
    case no_nul
    with assms(2) d show ?thesis
      unfolding m by (simp add: read_parse_frame_no_nul split: if_splits)
  next
    case (nul s r)
    show ?thesis
    proof (cases r rule: nul_cases)
      case no_nul
      with nul assms(2) d show ?thesis
        unfolding m by (auto simp: read_parse_frame_one_nul split: if_splits)
    next
      case inner: (nul q u)
      note eq = read_parse_frame_nul [of s q u t rest]
      have "t = PSQL_Parse" and tail: "\<exists>num ts. parse_tail u = Inr (num, ts)
          \<and> p = \<lparr>parse_dest = s, parse_query = q, parse_num_parm_data_types = num, parse_parm_data_types = ts\<rparr>"
        using assms(2) d nul inner eq unfolding m
        by (auto simp: bindE_Inr_iff eq_commute [of "Inr p"] split: if_splits)
      then obtain num ts where u: "parse_tail u = Inr (num, ts)" and
        p: "p = \<lparr>parse_dest = s, parse_query = q, parse_num_parm_data_types = num, parse_parm_data_types = ts\<rparr>"
        by blast
      have "d = enc_parse p" and "sint num = int (length ts)"
        using parse_tail_decode [OF u] nul inner p by (simp_all add: enc_parse_def)
      then show ?thesis
        using m \<open>t = PSQL_Parse\<close> d nul inner p by (auto simp: parse_ok_def)
    qed
  qed
qed

section \<open>The contract of a reader\<close>

text \<open>
  \<open>message_reader\<close> is what the dispatch loop needs of a reader; \<open>exact_reader\<close> adds that the reader is
  the inverse of an encoding \<open>enc\<close> on the structures that satisfy \<open>ok\<close>.
\<close>

locale message_reader =
  fixes read :: "bytes \<Rightarrow> 'a res" and letter :: byte
  assumes safe: "wf_message m \<Longrightarrow> read m \<noteq> Inl OUT_OF_BOUNDS"
    and own_letter: "wf_message m \<Longrightarrow> read m = Inr x \<Longrightarrow> msg_type m = Inr letter"
begin

lemma other_letter:
  assumes "wf_message m" "msg_type m = Inr t" "t \<noteq> letter"
  shows "\<exists>e. read m = Inl e \<and> e \<noteq> OUT_OF_BOUNDS"
  using safe [OF assms(1)] own_letter [OF assms(1)] assms(2,3) by (cases "read m") auto

end

locale exact_reader =
  message_reader read letter for read :: "bytes \<Rightarrow> 'a res" and letter :: byte +
  fixes enc :: "'a \<Rightarrow> bytes" and ok :: "'a \<Rightarrow> bool"
  assumes encode: "ok x \<Longrightarrow> read (frame letter (enc x) @ rest) = Inr x"
    and decode: "wf_message m \<Longrightarrow> read m = Inr x \<Longrightarrow> \<exists>rest. m = frame letter (enc x) @ rest \<and> ok x"
begin

lemma exact:
  "wf_message m \<Longrightarrow> read m = Inr x \<longleftrightarrow> (\<exists>rest. m = frame letter (enc x) @ rest \<and> ok x)"
  using encode decode by blast

lemma same_bytes:
  assumes "wf_message m" "wf_message m'" "read m = Inr x" "read m' = Inr x"
  shows "take (length (enc x) + 5) m = take (length (enc x) + 5) m'"
proof -
  obtain r r' where "m = frame letter (enc x) @ r" "m' = frame letter (enc x) @ r'"
    using decode assms by blast
  then show ?thesis by simp
qed

end

section \<open>The readers satisfy the contract\<close>

lemma msg_type_frame: "msg_type (frame t d @ rest) = Inr t"
  by (simp add: msg_type_def rd_frame_type)

definition enc_query :: "Query \<Rightarrow> bytes" where
  "enc_query q = query_query q @ [0]"

definition query_ok :: "Query \<Rightarrow> bool" where
  "query_ok q \<longleftrightarrow> nul_free (query_query q) \<and> length (enc_query q) < 2 ^ 31 - 4
     \<and> query_length q = of_nat (length (enc_query q) + 4)"

definition enc_password :: "PasswordMessage \<Rightarrow> bytes" where
  "enc_password p = password_password p @ [0]"

definition password_ok :: "PasswordMessage \<Rightarrow> bool" where
  "password_ok p \<longleftrightarrow> nul_free (password_password p) \<and> length (enc_password p) < 2 ^ 31 - 4
     \<and> password_length p = of_nat (length (enc_password p) + 4)"

definition execute_ok :: "Execute \<Rightarrow> bool" where
  "execute_ok e \<longleftrightarrow> nul_free (execute_source e) \<and> length (enc_execute e) < 2 ^ 31 - 4"

definition enc_describe :: "Describe \<Rightarrow> bytes" where
  "enc_describe d = describe_item d # describe_name d @ [0]"

definition describe_ok :: "Describe \<Rightarrow> bool" where
  "describe_ok d \<longleftrightarrow> describe_type d = PSQL_Describe \<and> is_item (describe_item d)
     \<and> nul_free (describe_name d) \<and> length (enc_describe d) < 2 ^ 31 - 4
     \<and> describe_length d = of_nat (length (enc_describe d) + 4)"

lemma read_query_Inr_iff:
  assumes "length d < 2 ^ 31 - 4"
  shows "read_query (frame t d @ rest) = Inr q \<longleftrightarrow>
    t = PSQL_Query \<and> d = enc_query q \<and> query_ok q"
proof (cases d rule: nul_cases)
  case no_nul
  then show ?thesis
    by (auto simp: read_query_frame [OF assms] enc_query_def)
next
  case (nul s r)
  with assms show ?thesis
    by (cases q) (auto simp: read_query_frame enc_query_def query_ok_def nul_split_eq)
qed

lemma read_password_Inr_iff:
  assumes "length d < 2 ^ 31 - 4"
  shows "read_password_message (frame t d @ rest) = Inr q \<longleftrightarrow>
    t = PSQL_PasswordMessage \<and> d = enc_password q \<and> password_ok q"
proof (cases d rule: nul_cases)
  case no_nul
  then show ?thesis
    by (auto simp: read_password_frame [OF assms] enc_password_def)
next
  case (nul s r)
  with assms show ?thesis
    by (cases q) (auto simp: read_password_frame enc_password_def password_ok_def nul_split_eq)
qed

lemma read_execute_Inr_iff:
  assumes "length d < 2 ^ 31 - 4"
  shows "read_execute (frame t d @ rest) = Inr e \<longleftrightarrow>
    t = PSQL_Execute \<and> d = enc_execute e \<and> execute_ok e"
proof (cases d rule: nul_cases)
  case no_nul
  with assms show ?thesis
    by (auto simp: read_execute_frame_no_nul enc_execute_def)
next
  case (nul s r)
  have "length r = 4 \<Longrightarrow> htonl (ntohl r) = r" by (rule htonl_ntohl)
  with nul assms show ?thesis
    by (cases e) (auto simp: read_execute_frame_nul enc_execute_def execute_ok_def nul_split_eq)
qed

lemma read_describe_Inr_iff:
  assumes "length d < 2 ^ 31 - 4"
  shows "read_describe (frame t d @ rest) = Inr x \<longleftrightarrow>
    t = PSQL_Describe \<and> d = enc_describe x \<and> describe_ok x"
proof (cases d)
  case Nil
  then show ?thesis
    by (simp add: read_describe_frame_empty enc_describe_def)
next
  case (Cons i d')
  show ?thesis
  proof (cases d' rule: nul_cases)
    case no_nul
    with Cons assms show ?thesis
      by (auto simp: read_describe_frame_no_nul enc_describe_def)
  next
    case (nul s r)
    with Cons assms show ?thesis
      by (cases x) (auto simp: read_describe_frame_nul enc_describe_def describe_ok_def nul_split_eq)
  qed
qed

lemma read_query_no_oob: "length d < 2 ^ 31 - 4 \<Longrightarrow> read_query (frame t d @ rest) \<noteq> Inl OUT_OF_BOUNDS"
  by (simp add: read_query_frame)

lemma read_password_no_oob: "length d < 2 ^ 31 - 4 \<Longrightarrow> read_password_message (frame t d @ rest) \<noteq> Inl OUT_OF_BOUNDS"
  by (simp add: read_password_frame)

lemma read_execute_no_oob: "length d < 2 ^ 31 - 4 \<Longrightarrow> read_execute (frame t d @ rest) \<noteq> Inl OUT_OF_BOUNDS"
  by (cases d rule: nul_cases) (auto simp: read_execute_frame_nul read_execute_frame_no_nul)

lemma read_describe_no_oob: "length d < 2 ^ 31 - 4 \<Longrightarrow> read_describe (frame t d @ rest) \<noteq> Inl OUT_OF_BOUNDS"
proof (cases d)
  case (Cons i d')
  assume "length d < 2 ^ 31 - 4"
  with Cons show ?thesis
    by (cases d' rule: nul_cases) (auto simp: read_describe_frame_nul read_describe_frame_no_nul)
qed (simp add: read_describe_frame_empty)

lemma read_parse_no_oob: "length d < 2 ^ 31 - 4 \<Longrightarrow> read_parse (frame t d @ rest) \<noteq> Inl OUT_OF_BOUNDS"
proof (cases d rule: nul_cases)
  case (nul s r)
  assume d: "length d < 2 ^ 31 - 4"
  show ?thesis
  proof (cases r rule: nul_cases)
    case no_nul
    with nul d show ?thesis by (auto simp: read_parse_frame_one_nul)
  next
    case inner: (nul q u)
    have "parse_tail u \<noteq> Inl OUT_OF_BOUNDS"
      by (simp add: parse_tail_def Let_def)
    with nul inner d show ?thesis
      by (cases "parse_tail u") (auto simp: read_parse_frame_nul)
  qed
qed (simp add: read_parse_frame_no_nul)

lemma read_parse_Inr_iff:
  assumes "length d < 2 ^ 31 - 4"
  shows "read_parse (frame t d @ rest) = Inr p \<longleftrightarrow> t = PSQL_Parse \<and> d = enc_parse p \<and> parse_ok p"
proof
  assume r: "read_parse (frame t d @ rest) = Inr p"
  with read_parse_decode [OF wf_frame [OF assms]] obtain rest' where
    m: "frame t d @ rest = frame PSQL_Parse (enc_parse p) @ rest'" and ok: "parse_ok p"
    by blast
  have "msg_length (frame t d @ rest) = msg_length (frame PSQL_Parse (enc_parse p) @ rest')"
    by (simp only: m)
  then have "(of_nat (length d + 4) :: 32 word) = of_nat (length (enc_parse p) + 4)"
    using ok by (simp only: frame_fields(2) [OF assms] frame_fields(2) parse_ok_def sum.inject)
  then have "unat (of_nat (length d + 4) :: 32 word) = unat (of_nat (length (enc_parse p) + 4) :: 32 word)"
    by (rule arg_cong)
  then have "length d = length (enc_parse p)"
    using ok by (simp only: unat_frame_length [OF assms] unat_frame_length parse_ok_def)
  with m ok show "t = PSQL_Parse \<and> d = enc_parse p \<and> parse_ok p"
    by (simp add: frame_def hdr_def)
next
  assume "t = PSQL_Parse \<and> d = enc_parse p \<and> parse_ok p"
  then show "read_parse (frame t d @ rest) = Inr p"
    by (simp add: read_parse_encode)
qed

text \<open>From the characterisation of a reader on frames to the contract.\<close>

lemma exact_readerI:
  assumes iff: "\<And>t d rest x. length d < 2 ^ 31 - 4 \<Longrightarrow>
      read (frame t d @ rest) = Inr x \<longleftrightarrow> t = letter \<and> d = enc x \<and> ok x"
    and no_oob: "\<And>t d rest. length d < 2 ^ 31 - 4 \<Longrightarrow> read (frame t d @ rest) \<noteq> Inl OUT_OF_BOUNDS"
    and bound: "\<And>x. ok x \<Longrightarrow> length (enc x) < 2 ^ 31 - 4"
  shows "exact_reader read letter enc ok"
proof unfold_locales
  fix m x
  assume "wf_message m"
  then obtain t d rest where m: "m = frame t d @ rest" and d: "length d < 2 ^ 31 - 4"
    by (rule wf_message_frame)
  show "read m \<noteq> Inl OUT_OF_BOUNDS"
    unfolding m by (rule no_oob [OF d])
  assume "read m = Inr x"
  then have "t = letter \<and> d = enc x \<and> ok x"
    unfolding m by (simp only: iff [OF d])
  then show "msg_type m = Inr letter" and "\<exists>rest. m = frame letter (enc x) @ rest \<and> ok x"
    by (auto simp: m msg_type_frame)
next
  fix x rest
  assume "ok x"
  then show "read (frame letter (enc x) @ rest) = Inr x"
    using bound by (simp add: iff)
qed

interpretation query_reader: exact_reader read_query PSQL_Query enc_query query_ok
  by (rule exact_readerI [OF read_query_Inr_iff read_query_no_oob]) (simp_all add: query_ok_def)

interpretation password_reader: exact_reader read_password_message PSQL_PasswordMessage enc_password password_ok
  by (rule exact_readerI [OF read_password_Inr_iff read_password_no_oob]) (simp_all add: password_ok_def)

interpretation execute_reader: exact_reader read_execute PSQL_Execute enc_execute execute_ok
  by (rule exact_readerI [OF read_execute_Inr_iff read_execute_no_oob]) (simp_all add: execute_ok_def)

interpretation describe_reader: exact_reader read_describe PSQL_Describe enc_describe describe_ok
  by (rule exact_readerI [OF read_describe_Inr_iff read_describe_no_oob]) (simp_all add: describe_ok_def)

interpretation parse_reader: exact_reader read_parse PSQL_Parse enc_parse parse_ok
  by (rule exact_readerI [OF read_parse_Inr_iff read_parse_no_oob]) (simp_all add: parse_ok_def)

lemma read_sync_frame:
  assumes "length d < 2 ^ 31 - 4"
  shows "read_sync (frame t d @ rest) =
    (if t \<noteq> PSQL_Sync then Inl (ERR_ROCTO_INVALID_MESSAGE_TYPE ''Sync'' t PSQL_Sync)
     else if d \<noteq> [] then Inl (ERR_ROCTO_INVALID_INT_VALUE ''Sync'' ''length'' (sint (of_nat (length d + 4) :: 32 word)) 4)
     else Inr \<lparr>sync_type = PSQL_Sync, sync_length = 4\<rparr>)"
  unfolding read_sync_def reader_frame [OF assms] bindE_simps guardE_def by simp

lemma read_flush_frame:
  assumes "length d < 2 ^ 31 - 4"
  shows "read_flush (frame t d @ rest) =
    (if t \<noteq> PSQL_Flush then Inl (ERR_ROCTO_INVALID_MESSAGE_TYPE ''Flush'' t PSQL_Flush)
     else if d \<noteq> [] then Inl (ERR_ROCTO_INVALID_INT_VALUE ''Flush'' ''length'' (sint (of_nat (length d + 4) :: 32 word)) 4)
     else Inr \<lparr>flush_type = PSQL_Flush, flush_length = 4\<rparr>)"
  unfolding read_flush_def reader_frame [OF assms] bindE_simps guardE_def by simp

lemma read_close_oob_frame:
  assumes "length d < 2 ^ 31 - 4"
  shows "read_close (frame t d @ rest) = Inl OUT_OF_BOUNDS \<longleftrightarrow> t = PSQL_Close \<and> d = []"
proof (cases d)
  case Nil
  then show ?thesis by (simp add: read_close_frame_empty)
next
  case (Cons i d')
  with assms show ?thesis
    by (cases d' rule: nul_cases) (auto simp: read_close_frame_nul read_close_frame_no_nul)
qed

section \<open>Properties\<close>

text \<open>
  C32: \<open>read_parse\<close> is an exact inverse of the protocol's Parse encoding: on a well-formed receive
  buffer it returns \<open>p\<close> if and only if the buffer starts with the framed encoding of \<open>p\<close> and the
  count of parameter types in \<open>p\<close> is the number of types that follow it.
\<close>

theorem read_parse_exact:
  assumes "wf_message m"
  shows "read_parse m = Inr p \<longleftrightarrow> (\<exists>rest. m = frame PSQL_Parse (enc_parse p) @ rest \<and> parse_ok p)"
  by (rule parse_reader.exact [OF assms])

theorem read_parse_exact_witness:
  "read_parse (frame PSQL_Parse (lit ''s'' @ 0 # lit ''q'' @ 0 # [0, 1, 0, 0, 0, 23])) =
     Inr \<lparr>parse_dest = lit ''s'', parse_query = lit ''q'', parse_num_parm_data_types = 1,
          parse_parm_data_types = [23]\<rparr>"
proof -
  let ?p = "\<lparr>parse_dest = lit ''s'', parse_query = lit ''q'', parse_num_parm_data_types = 1,
          parse_parm_data_types = [23]\<rparr>"
  let ?m = "frame PSQL_Parse (lit ''s'' @ 0 # lit ''q'' @ 0 # [0, 1, 0, 0, 0, 23])"
  have "wf_message ?m"
    using wf_frame [of "lit ''s'' @ 0 # lit ''q'' @ 0 # [0, 1, 0, 0, 0, 23]" PSQL_Parse "[]"] by simp
  moreover have "?m = frame PSQL_Parse (enc_parse ?p) @ [] \<and> parse_ok ?p"
    by (simp add: enc_parse_def parse_ok_def htons_eval htonl_eval ch_def)
  ultimately show ?thesis
    using read_parse_exact [of ?m ?p] by blast
qed

text \<open>
  C33: on every well-formed receive buffer the readers of Query, PasswordMessage, Execute, Parse,
  Describe, Sync and Flush messages stay inside the memory they own, whatever the message holds.
\<close>

theorem readers_memory_safe:
  assumes "wf_message m"
  shows "read_query m \<noteq> Inl OUT_OF_BOUNDS \<and> read_password_message m \<noteq> Inl OUT_OF_BOUNDS
    \<and> read_execute m \<noteq> Inl OUT_OF_BOUNDS \<and> read_parse m \<noteq> Inl OUT_OF_BOUNDS
    \<and> read_describe m \<noteq> Inl OUT_OF_BOUNDS \<and> read_sync m \<noteq> Inl OUT_OF_BOUNDS
    \<and> read_flush m \<noteq> Inl OUT_OF_BOUNDS"
proof -
  obtain t d rest where "m = frame t d @ rest" "length d < 2 ^ 31 - 4"
    using assms by (rule wf_message_frame)
  then have "read_sync m \<noteq> Inl OUT_OF_BOUNDS" "read_flush m \<noteq> Inl OUT_OF_BOUNDS"
    by (simp_all add: read_sync_frame read_flush_frame)
  with assms show ?thesis
    using query_reader.safe password_reader.safe execute_reader.safe parse_reader.safe describe_reader.safe
    by blast
qed

theorem readers_memory_safe_witness:
  "wf_message (frame PSQL_Parse [1, 2, 3]) \<and> read_parse (frame PSQL_Parse [1, 2, 3]) \<noteq> Inl OUT_OF_BOUNDS"
  using wf_frame [of "[1, 2, 3]" PSQL_Parse "[]"] readers_memory_safe [of "frame PSQL_Parse [1, 2, 3]"] by simp

text \<open>
  \<open>read_query\<close> returns \<open>q\<close> if and only if the buffer starts with a Query message whose data is the
  query text of \<open>q\<close> and one final NUL.
\<close>

theorem read_query_exact:
  assumes "wf_message m"
  shows "read_query m = Inr q \<longleftrightarrow> (\<exists>rest. m = frame PSQL_Query (enc_query q) @ rest \<and> query_ok q)"
  by (rule query_reader.exact [OF assms])

theorem read_query_exact_witness:
  "read_query (frame PSQL_Query (lit ''SELECT 1;'' @ [0])) = Inr \<lparr>query_length = 14, query_query = lit ''SELECT 1;''\<rparr>"
proof -
  let ?q = "\<lparr>query_length = 14, query_query = lit ''SELECT 1;''\<rparr>"
  let ?m = "frame PSQL_Query (lit ''SELECT 1;'' @ [0])"
  have "wf_message ?m"
    using wf_frame [of "lit ''SELECT 1;'' @ [0]" PSQL_Query "[]"] by simp
  moreover have "?m = frame PSQL_Query (enc_query ?q) @ [] \<and> query_ok ?q"
    by (simp add: enc_query_def query_ok_def ch_def)
  ultimately show ?thesis
    using read_query_exact [of ?m ?q] by blast
qed

text \<open>
  \<open>read_execute\<close> returns \<open>e\<close> if and only if the buffer starts with an Execute message that consists
  of the portal name, its NUL and the four bytes of the row limit.
\<close>

theorem read_execute_exact:
  assumes "wf_message m"
  shows "read_execute m = Inr e \<longleftrightarrow> (\<exists>rest. m = frame PSQL_Execute (enc_execute e) @ rest \<and> execute_ok e)"
  by (rule execute_reader.exact [OF assms])

theorem read_execute_exact_witness:
  "read_execute (frame PSQL_Execute (lit ''p'' @ [0, 0, 0, 0, 5])) = Inr \<lparr>execute_source = lit ''p'', execute_rows_to_return = 5\<rparr>"
proof -
  let ?e = "\<lparr>execute_source = lit ''p'', execute_rows_to_return = 5\<rparr>"
  let ?m = "frame PSQL_Execute (lit ''p'' @ [0, 0, 0, 0, 5])"
  have "wf_message ?m"
    using wf_frame [of "lit ''p'' @ [0, 0, 0, 0, 5]" PSQL_Execute "[]"] by simp
  moreover have "?m = frame PSQL_Execute (enc_execute ?e) @ [] \<and> execute_ok ?e"
    by (simp add: enc_execute_def execute_ok_def htonl_eval ch_def)
  ultimately show ?thesis
    using read_execute_exact [of ?m ?e] by blast
qed

text \<open>
  \<open>read_describe\<close> returns \<open>x\<close> if and only if the buffer starts with a Describe message that consists
  of the item letter S or P, the name and one NUL.
\<close>

theorem read_describe_exact:
  assumes "wf_message m"
  shows "read_describe m = Inr x \<longleftrightarrow> (\<exists>rest. m = frame PSQL_Describe (enc_describe x) @ rest \<and> describe_ok x)"
  by (rule describe_reader.exact [OF assms])

theorem read_describe_exact_witness:
  "read_describe (frame PSQL_Describe (lit ''Sq'' @ [0])) =
     Inr \<lparr>describe_type = PSQL_Describe, describe_length = 7, describe_item = ch CHR ''S'', describe_name = lit ''q''\<rparr>"
proof -
  let ?x = "\<lparr>describe_type = PSQL_Describe, describe_length = 7, describe_item = ch CHR ''S'', describe_name = lit ''q''\<rparr>"
  let ?m = "frame PSQL_Describe (lit ''Sq'' @ [0])"
  have "wf_message ?m"
    using wf_frame [of "lit ''Sq'' @ [0]" PSQL_Describe "[]"] by simp
  moreover have "?m = frame PSQL_Describe (enc_describe ?x) @ [] \<and> describe_ok ?x"
    by (simp add: enc_describe_def describe_ok_def is_item_def ch_def)
  ultimately show ?thesis
    using read_describe_exact [of ?m ?x] by blast
qed

text \<open>
  \<open>read_close\<close> leaves its allocation on exactly one kind of well-formed message, a Close message
  with no data at all: there the item byte is read one byte past the allocated structure.
\<close>

theorem read_close_overread:
  assumes "wf_message m"
  shows "read_close m = Inl OUT_OF_BOUNDS \<longleftrightarrow> (\<exists>rest. m = frame PSQL_Close [] @ rest)"
proof -
  obtain t d rest where m: "m = frame t d @ rest" and d: "length d < 2 ^ 31 - 4"
    using assms by (rule wf_message_frame)
  have "msg_length m = Inr (of_nat (length d + 4))" "msg_type m = Inr t"
    using frame_fields [OF d] by (simp_all add: m)
  moreover have "msg_length (frame PSQL_Close [] @ r) = Inr 4" "msg_type (frame PSQL_Close [] @ r) = Inr PSQL_Close" for r
    using frame_fields [of "[]" PSQL_Close r] by simp_all
  ultimately have "(\<exists>r. m = frame PSQL_Close [] @ r) \<longrightarrow> t = PSQL_Close \<and> d = []"
    using frame_length_4_iff [OF d] by auto
  then show ?thesis
    using read_close_oob_frame [OF d, of t rest] m by blast
qed

theorem read_close_overread_witness:
  "wf_message (frame PSQL_Close []) \<and> read_close (frame PSQL_Close []) = Inl OUT_OF_BOUNDS"
proof -
  have wf: "wf_message (frame PSQL_Close [])"
    using wf_frame [of "[]" PSQL_Close "[]"] by simp
  have "\<exists>rest. frame PSQL_Close [] = frame PSQL_Close [] @ rest"
    by simp
  with wf show ?thesis
    using read_close_overread [OF wf] by blast
qed

end
