(* ===== verification/Transport.thy ===== *)
theory Transport
  imports Reader_Laws
begin

text \<open>
  Moving bytes: \<open>read_bytes.c\<close>, \<open>send_bytes.c\<close>, \<open>read_message.c\<close> and \<open>send_message.c\<close>.
  The network is the list of results that the next \<open>recv\<close> or \<open>gtm_tls_recv\<close> calls will return,
  so short reads, interrupted calls and disconnects are all explicit; when the list is used up
  the call blocks. \<open>byte_source\<close> is the contract of a connection (an ordered byte stream,
  however it is cut into chunks) and is proved for the plain and the TLS receive loops.
\<close>

section \<open>What the network delivers\<close>

text \<open>
  \<open>Got bs\<close>: \<open>recv\<close> has the bytes \<open>bs\<close> ready (it returns at most as many as were asked for, the rest
  stays ready); \<open>Got []\<close>: it returns 0; \<open>Failed e\<close>: it returns -1 with \<open>errno = e\<close>.
\<close>

datatype recv_result = Got bytes | Failed errno

datatype tls_result = TLS_Got bytes | GTMTLS_WANT_READ | TLS_Failed errno

datatype socket = Plain "recv_result list" | TLS "tls_result list"

text \<open>
  The result of \<open>read_bytes\<close>: 0, -1 with the error reported, -2; \<open>RB_BLOCKED\<close> is a call that has not
  returned yet, \<open>RB_ASSERT\<close> the failed assertion \<open>bytes_to_read <= *buffer_size\<close> (a buffer overrun
  in builds without assertions).
\<close>

datatype rb_status = RB_OK | RB_ERROR rocto_error | RB_CLOSED | RB_BLOCKED | RB_ASSERT

section \<open>read_bytes\<close>

fun recv_loop :: "nat \<Rightarrow> recv_result list \<Rightarrow> rb_status \<times> bytes \<times> recv_result list" where
  "recv_loop n [] = (if n = 0 then RB_OK else RB_BLOCKED, [], [])"
| "recv_loop n (r # rs) =
     (if n = 0 then (RB_OK, [], r # rs)
      else case r of
        Failed EINTR \<Rightarrow> recv_loop n rs
      | Failed e \<Rightarrow> (RB_ERROR (ERR_SYSCALL ''read'' e), [], rs)
      | Got [] \<Rightarrow> (RB_CLOSED, [], rs)
      | Got bs \<Rightarrow>
          if n < length bs then (RB_OK, take n bs, Got (drop n bs) # rs)
          else (case recv_loop (n - length bs) rs of (st, got, rs') \<Rightarrow> (st, bs @ got, rs')))"

fun tls_recv_loop :: "nat \<Rightarrow> tls_result list \<Rightarrow> rb_status \<times> bytes \<times> tls_result list" where
  "tls_recv_loop n [] = (if n = 0 then RB_OK else RB_BLOCKED, [], [])"
| "tls_recv_loop n (r # rs) =
     (if n = 0 then (RB_OK, [], r # rs)
      else case r of
        GTMTLS_WANT_READ \<Rightarrow> tls_recv_loop n rs
      | TLS_Failed EINTR \<Rightarrow> tls_recv_loop n rs
      | TLS_Failed ECONNRESET \<Rightarrow> (RB_CLOSED, [], rs)
      | TLS_Failed _ \<Rightarrow> (RB_ERROR ERR_ROCTO_TLS_READ_FAILED, [], rs)
      | TLS_Got bs \<Rightarrow>
          if n < length bs then (RB_OK, take n bs, TLS_Got (drop n bs) # rs)
          else (case tls_recv_loop (n - length bs) rs of (st, got, rs') \<Rightarrow> (st, bs @ got, rs')))"

definition recv_socket :: "nat \<Rightarrow> socket \<Rightarrow> rb_status \<times> bytes \<times> socket" where
  "recv_socket n s =
     (case s of
        Plain rs \<Rightarrow> (case recv_loop n rs of (st, got, rs') \<Rightarrow> (st, got, Plain rs'))
      | TLS rs \<Rightarrow> (case tls_recv_loop n rs of (st, got, rs') \<Rightarrow> (st, got, TLS rs')))"

text \<open>A block of \<open>n\<close> bytes from \<open>malloc\<close>, with contents \<open>junk\<close>.\<close>

definition malloc :: "(nat \<Rightarrow> byte) \<Rightarrow> nat \<Rightarrow> bytes" where
  "malloc junk n = map junk [0..<n]"

lemma length_malloc [simp]: "length (malloc junk n) = n"
  by (simp add: malloc_def)

text \<open>\<open>buf\<close> is \<open>*buffer\<close>; its length is \<open>*buffer_size\<close>.\<close>

definition read_bytes ::
    "(nat \<Rightarrow> byte) \<Rightarrow> socket \<Rightarrow> bytes \<Rightarrow> int \<Rightarrow> bool \<Rightarrow> rb_status \<times> bytes \<times> socket" where
  "read_bytes junk s buf bytes_to_read allow_resize =
     (if bytes_to_read < 0 then (RB_ERROR (ERR_INVALID_READ_SIZE bytes_to_read), buf, s)
      else
        let n = nat bytes_to_read;
            buf' = (if allow_resize \<and> length buf < n then malloc junk n else buf) in
        if length buf' < n then (RB_ASSERT, buf', s)
        else case recv_socket n s of (st, got, s') \<Rightarrow> (st, got @ drop (length got) buf', s'))"

section \<open>read_message\<close>

text \<open>
  \<open>rocto_err\<close> is the status; a message is returned only with status 0. The sizes are \<open>int32_t\<close>:
  \<open>bytes_to_read\<close> and the new \<open>*buffer_size\<close> are truncations of 64-bit sums. \<open>Inl\<close> is a
  \<open>malloc\<close> with a negative size.
\<close>

definition int32 :: "int \<Rightarrow> int" where
  "int32 x = sint (of_int x :: 32 word)"

text \<open>The buffer is first made large enough for the type and the length.\<close>

definition grow_buffer :: "bytes \<Rightarrow> (nat \<Rightarrow> byte) \<Rightarrow> bytes" where
  "grow_buffer buf junk = (if length buf < 5 then malloc junk 5 else buf)"

definition read_message :: "(nat \<Rightarrow> byte) \<Rightarrow> socket \<Rightarrow> bytes \<Rightarrow> (rb_status \<times> bytes \<times> socket) res" where
  "read_message junk s buf =
     (let buf1 = grow_buffer buf junk in
      case read_bytes junk s buf1 5 False of (st, buf2, s2) \<Rightarrow>
        if st \<noteq> RB_OK then Inr (st, buf2, s2)
        else
          let L = int (unat (ntohl (take 4 (drop 1 buf2))));
              bytes_to_read = int32 (L - 4) in
          bindE
            (if bytes_to_read > int (length buf2) - 5 then
               bindE (guardE (0 \<le> int32 (L + 2)) (MALLOC_FAILED (int32 (L + 2)))) (\<lambda>_.
               Inr (take 5 buf2 @ drop 5 (malloc junk (nat (int32 (L + 2))))))
             else Inr buf2)
            (\<lambda>buf3.
             case read_bytes junk s2 (drop 5 buf3) bytes_to_read False of (st, body, s3) \<Rightarrow>
               Inr (st, take 5 buf3 @ body, s3)))"

section \<open>send_bytes and send_message\<close>

text \<open>
  \<open>Sent k\<close>: \<open>send\<close> accepted \<open>k\<close> bytes (at most what was offered). For TLS one call of \<open>gtm_tls_send\<close>
  is made; \<open>TLS_Sent k\<close> with positive \<open>k\<close> counts as the whole message.
\<close>

datatype send_result = Sent nat | Send_Failed errno

datatype tls_send_result = TLS_Sent nat | TLS_Send_Failed errno | TLS_Send_Library_Error | TLS_Send_Other

datatype send_channel = Plain_Out "send_result list" | TLS_Out tls_send_result

datatype send_status = Send_Returned int "rocto_error list" | Send_Blocked

fun send_loop :: "bytes \<Rightarrow> send_result list \<Rightarrow> send_status \<times> bytes" where
  "send_loop msg [] = (if msg = [] then Send_Returned 0 [] else Send_Blocked, [])"
| "send_loop msg (r # rs) =
     (if msg = [] then (Send_Returned 0 [], [])
      else case r of
        Send_Failed EINTR \<Rightarrow> send_loop msg rs
      | Send_Failed ECONNRESET \<Rightarrow> (Send_Returned 1 [], [])
      | Send_Failed EPIPE \<Rightarrow> (Send_Returned 1 [], [])
      | Send_Failed e \<Rightarrow> (Send_Returned 1 [ERR_SYSCALL ''send'' e], [])
      | Sent k \<Rightarrow> (case send_loop (drop k msg) rs of (st, out) \<Rightarrow> (st, take k msg @ out)))"

text \<open>The status and the bytes handed to the network.\<close>

definition send_bytes :: "send_channel \<Rightarrow> bytes \<Rightarrow> 64 word \<Rightarrow> (send_status \<times> bytes) res" where
  "send_bytes c message len =
     (case c of
        TLS_Out r \<Rightarrow>
          bindE (from_mem OUT_OF_BOUNDS (rd_n message 0 (unat len))) (\<lambda>bs.
          Inr (case r of
             TLS_Sent k \<Rightarrow> if 0 < k then (Send_Returned 0 [], take k bs) else (Send_Returned 1 [], [])
           | TLS_Send_Failed ECONNRESET \<Rightarrow> (Send_Returned 1 [], [])
           | TLS_Send_Failed EPIPE \<Rightarrow> (Send_Returned 1 [], [])
           | TLS_Send_Failed e \<Rightarrow> (Send_Returned 1 [ERR_SYSCALL ''ydb_tls_send()'' e], [])
           | TLS_Send_Library_Error \<Rightarrow> (Send_Returned 1 [ERR_ROCTO_TLS_WRITE_FAILED], [])
           | TLS_Send_Other \<Rightarrow> (Send_Returned 1 [], [])))
      | Plain_Out rs \<Rightarrow>
          let to_write = sint (ucast len :: 32 word) in
          bindE (from_mem OUT_OF_BOUNDS (rd_n message 0 (nat to_write))) (\<lambda>bs.
          Inr (send_loop bs rs)))"

definition send_message :: "send_channel \<Rightarrow> bytes \<Rightarrow> (send_status \<times> bytes) res" where
  "send_message c message =
     bindE (msg_type message) (\<lambda>ty.
     bindE (msg_length message) (\<lambda>L.
     bindE (send_bytes c message (ucast (L + 1))) (\<lambda>(st, out).
     Inr (case st of
        Send_Returned r errs \<Rightarrow> Send_Returned r (if r = 0 then errs else errs @ [ERR_ROCTO_SEND_FAILED ty])
      | Send_Blocked \<Rightarrow> Send_Blocked, out))))"

section \<open>A connection is a byte stream\<close>

text \<open>
  The contract of a receiving connection: \<open>strm s\<close> are the bytes that will arrive before the next
  event that ends the connection or blocks it, \<open>fin s\<close> is the status of that event. Asking for
  \<open>n\<close> bytes returns the next \<open>n\<close> bytes of the stream if there are that many, and otherwise all of
  them with the final status: how the bytes are cut into chunks and how often a call is
  interrupted do not matter.
\<close>

locale byte_source =
  fixes rcv :: "nat \<Rightarrow> 's \<Rightarrow> rb_status \<times> bytes \<times> 's"
    and strm :: "'s \<Rightarrow> bytes" and fin :: "'s \<Rightarrow> rb_status"
  assumes enough: "n \<le> length (strm s) \<Longrightarrow>
      \<exists>s'. rcv n s = (RB_OK, take n (strm s), s') \<and> strm s' = drop n (strm s) \<and> fin s' = fin s"
    and short: "length (strm s) < n \<Longrightarrow> \<exists>s'. rcv n s = (fin s, strm s, s')"
    and fin_not_OK: "fin s \<noteq> RB_OK"
begin

lemma OK_iff: "fst (rcv n s) = RB_OK \<longleftrightarrow> n \<le> length (strm s)"
  using enough [of n s] short [of s n] fin_not_OK [of s] by (cases "n \<le> length (strm s)") auto

lemma received: "fst (snd (rcv n s)) = take n (strm s)"
  using enough [of n s] short [of s n] by (cases "n \<le> length (strm s)") auto

lemma two_reads:
  assumes "rcv n s = (RB_OK, xs, s1)" "rcv k s1 = (RB_OK, ys, s2)"
  shows "n + k \<le> length (strm s) \<and> xs @ ys = take (n + k) (strm s) \<and> strm s2 = drop (n + k) (strm s)"
proof -
  have n: "n \<le> length (strm s)"
    using OK_iff [of n s] assms(1) by simp
  with enough [OF this] assms(1) have s1: "xs = take n (strm s)" "strm s1 = drop n (strm s)"
    by auto
  have k: "k \<le> length (strm s1)"
    using OK_iff [of k s1] assms(2) by simp
  with enough [OF this] assms(2) have s2: "ys = take k (strm s1)" "strm s2 = drop k (strm s1)"
    by auto
  from n k s1 s2 show ?thesis
    by (auto simp: take_add add.commute [of k n])
qed

end

fun recv_stream :: "recv_result list \<Rightarrow> bytes" where
  "recv_stream [] = []"
| "recv_stream (Failed EINTR # rs) = recv_stream rs"
| "recv_stream (Failed _ # rs) = []"
| "recv_stream (Got [] # rs) = []"
| "recv_stream (Got bs # rs) = bs @ recv_stream rs"

fun recv_end :: "recv_result list \<Rightarrow> rb_status" where
  "recv_end [] = RB_BLOCKED"
| "recv_end (Failed EINTR # rs) = recv_end rs"
| "recv_end (Failed e # rs) = RB_ERROR (ERR_SYSCALL ''read'' e)"
| "recv_end (Got [] # rs) = RB_CLOSED"
| "recv_end (Got bs # rs) = recv_end rs"

fun tls_stream :: "tls_result list \<Rightarrow> bytes" where
  "tls_stream [] = []"
| "tls_stream (GTMTLS_WANT_READ # rs) = tls_stream rs"
| "tls_stream (TLS_Failed EINTR # rs) = tls_stream rs"
| "tls_stream (TLS_Failed _ # rs) = []"
| "tls_stream (TLS_Got bs # rs) = bs @ tls_stream rs"

fun tls_end :: "tls_result list \<Rightarrow> rb_status" where
  "tls_end [] = RB_BLOCKED"
| "tls_end (GTMTLS_WANT_READ # rs) = tls_end rs"
| "tls_end (TLS_Failed EINTR # rs) = tls_end rs"
| "tls_end (TLS_Failed ECONNRESET # rs) = RB_CLOSED"
| "tls_end (TLS_Failed _ # rs) = RB_ERROR ERR_ROCTO_TLS_READ_FAILED"
| "tls_end (TLS_Got bs # rs) = tls_end rs"

definition sock_stream :: "socket \<Rightarrow> bytes" where
  "sock_stream s = (case s of Plain rs \<Rightarrow> recv_stream rs | TLS rs \<Rightarrow> tls_stream rs)"

definition sock_end :: "socket \<Rightarrow> rb_status" where
  "sock_end s = (case s of Plain rs \<Rightarrow> recv_end rs | TLS rs \<Rightarrow> tls_end rs)"

lemma recv_stream_Got: "bs \<noteq> [] \<Longrightarrow> recv_stream (Got bs # rs) = bs @ recv_stream rs"
  by (cases bs) simp_all

lemma recv_end_Got: "bs \<noteq> [] \<Longrightarrow> recv_end (Got bs # rs) = recv_end rs"
  by (cases bs) simp_all

lemma recv_loop_Got:
  assumes "bs \<noteq> []" "0 < n"
  shows "recv_loop n (Got bs # rs) =
    (if n < length bs then (RB_OK, take n bs, Got (drop n bs) # rs)
     else (case recv_loop (n - length bs) rs of (st, got, rs') \<Rightarrow> (st, bs @ got, rs')))"
  using assms by (cases bs) simp_all

lemma recv_loop_0 [simp]: "recv_loop 0 rs = (RB_OK, [], rs)"
  by (cases rs) simp_all

lemma tls_recv_loop_0 [simp]: "tls_recv_loop 0 rs = (RB_OK, [], rs)"
  by (cases rs) simp_all

lemma recv_loop_enough:
  "n \<le> length (recv_stream rs) \<Longrightarrow>
   \<exists>rs'. recv_loop n rs = (RB_OK, take n (recv_stream rs), rs')
     \<and> recv_stream rs' = drop n (recv_stream rs) \<and> recv_end rs' = recv_end rs"
proof (induction rs arbitrary: n rule: recv_stream.induct)
  case (5 b bs rs)
  define c where "c = b # bs"
  then have c: "c \<noteq> []" by simp
  have le: "n - length c \<le> length (recv_stream rs)"
    using "5.prems" by (simp add: c_def)
  consider "n = 0" | "0 < n" "n < length c" | "0 < n" "length c \<le> n" by linarith
  then show ?case
  proof cases
    case 2
    then show ?thesis
      unfolding c_def [symmetric]
      by (simp add: recv_loop_Got [OF c] recv_stream_Got [OF c] recv_end_Got [OF c]
          recv_stream_Got [of "drop n c"] recv_end_Got [of "drop n c"] del: recv_loop.simps(2))
  next
    case 3
    with "5.IH" [OF le] show ?thesis
      unfolding c_def [symmetric]
      by (auto simp: recv_loop_Got [OF c] recv_stream_Got [OF c] recv_end_Got [OF c] simp del: recv_loop.simps(2))
  qed simp
qed (auto split: if_splits)

lemma recv_loop_short:
  "length (recv_stream rs) < n \<Longrightarrow> \<exists>rs'. recv_loop n rs = (recv_end rs, recv_stream rs, rs')"
proof (induction rs arbitrary: n rule: recv_stream.induct)
  case (5 b bs rs)
  define c where "c = b # bs"
  then have c: "c \<noteq> []" by simp
  have "length (recv_stream rs) < n - length c" and "0 < n" and "\<not> n < length c"
    using "5.prems" by (simp_all add: c_def)
  with "5.IH" [of "n - length c"] show ?case
    unfolding c_def [symmetric]
    by (auto simp: recv_loop_Got [OF c] recv_stream_Got [OF c] recv_end_Got [OF c] simp del: recv_loop.simps(2))
qed auto

lemma recv_end_not_OK: "recv_end rs \<noteq> RB_OK"
  by (induction rs rule: recv_end.induct) simp_all

lemma tls_loop_enough:
  "n \<le> length (tls_stream rs) \<Longrightarrow>
   \<exists>rs'. tls_recv_loop n rs = (RB_OK, take n (tls_stream rs), rs')
     \<and> tls_stream rs' = drop n (tls_stream rs) \<and> tls_end rs' = tls_end rs"
proof (induction rs arbitrary: n rule: tls_stream.induct)
  case (5 bs rs)
  then have "n - length bs \<le> length (tls_stream rs)" by simp
  from "5.IH" [OF this] show ?case by (cases "n = 0") auto
qed (auto split: if_splits)

lemma tls_loop_short:
  "length (tls_stream rs) < n \<Longrightarrow> \<exists>rs'. tls_recv_loop n rs = (tls_end rs, tls_stream rs, rs')"
proof (induction rs arbitrary: n rule: tls_stream.induct)
  case (5 bs rs)
  then have "length (tls_stream rs) < n - length bs" by simp
  from "5.IH" [OF this] "5.prems" show ?case by auto
qed auto

lemma tls_end_not_OK: "tls_end rs \<noteq> RB_OK"
  by (induction rs rule: tls_end.induct) simp_all

interpretation plain_source: byte_source recv_loop recv_stream recv_end
  by unfold_locales (rule recv_loop_enough recv_loop_short recv_end_not_OK; assumption?)+

interpretation tls_source: byte_source tls_recv_loop tls_stream tls_end
  by unfold_locales (rule tls_loop_enough tls_loop_short tls_end_not_OK; assumption?)+

interpretation sock: byte_source recv_socket sock_stream sock_end
proof unfold_locales
  fix n s
  show "n \<le> length (sock_stream s) \<Longrightarrow>
      \<exists>s'. recv_socket n s = (RB_OK, take n (sock_stream s), s')
        \<and> sock_stream s' = drop n (sock_stream s) \<and> sock_end s' = sock_end s"
    using plain_source.enough tls_source.enough
    by (cases s) (fastforce simp: sock_stream_def sock_end_def recv_socket_def)+
  show "length (sock_stream s) < n \<Longrightarrow> \<exists>s'. recv_socket n s = (sock_end s, sock_stream s, s')"
    using plain_source.short tls_source.short
    by (cases s) (fastforce simp: sock_stream_def sock_end_def recv_socket_def)+
  show "sock_end s \<noteq> RB_OK"
    by (cases s) (simp_all add: sock_end_def plain_source.fin_not_OK tls_source.fin_not_OK)
qed

section \<open>Reading into a buffer\<close>

lemma read_bytes_enough:
  assumes "n \<le> length (sock_stream s)" "n \<le> length buf"
  shows "\<exists>s'. read_bytes junk s buf (int n) False = (RB_OK, take n (sock_stream s) @ drop n buf, s')
      \<and> sock_stream s' = drop n (sock_stream s) \<and> sock_end s' = sock_end s"
  using sock.enough [OF assms(1)] assms by (auto simp: read_bytes_def Let_def)

lemma read_bytes_short:
  assumes "length (sock_stream s) < n" "n \<le> length buf"
  shows "\<exists>s'. read_bytes junk s buf (int n) False
      = (sock_end s, sock_stream s @ drop (length (sock_stream s)) buf, s')"
  using sock.short [OF assms(1)] assms(2) by (auto simp: read_bytes_def Let_def)

lemma int32_id: "- (2 ^ 31) \<le> x \<Longrightarrow> x < 2 ^ 31 \<Longrightarrow> int32 x = x"
  by (simp add: int32_def signed_of_int signed_take_bit_int_eq_self)

lemma int32_wrap:
  assumes "2 ^ 31 \<le> x" "x < 2 ^ 32"
  shows "int32 x = x - 2 ^ 32"
proof -
  have "(of_int x :: 32 word) = of_int (x - 2 ^ 32)"
    by (simp add: word_of_int_2p_len [where 'a = 32, simplified])
  then have "int32 x = int32 (x - 2 ^ 32)"
    by (simp only: int32_def)
  also have "\<dots> = x - 2 ^ 32"
    using assms by (intro int32_id) simp_all
  finally show ?thesis .
qed

text \<open>The length field of the message at the front of a stream.\<close>

definition stream_len :: "bytes \<Rightarrow> nat" where
  "stream_len x = unat (ntohl (take 4 (drop 1 x)))"

lemma stream_len_bound: "stream_len x < 2 ^ 32"
  using unsigned_less [of "ntohl (take 4 (drop 1 x))", where 'a = nat] by (simp add: stream_len_def)

lemma stream_len_take5: "5 \<le> length x \<Longrightarrow> stream_len (take 5 x @ y) = stream_len x"
  by (simp add: stream_len_def drop_take)

text \<open>After the header has arrived the rest of the call depends on the length field only.\<close>

lemma read_message_header:
  fixes junk s buf
  defines "x \<equiv> sock_stream s" and "b \<equiv> grow_buffer buf junk"
  defines "L \<equiv> int (stream_len x)"
  assumes "5 \<le> length x"
  shows "\<exists>s2. sock_stream s2 = drop 5 x \<and> sock_end s2 = sock_end s
    \<and> read_message junk s buf =
        (let n = int32 (L - 4) in
         bindE
            (if n > int (length b) - 5 then
               bindE (guardE (0 \<le> int32 (L + 2)) (MALLOC_FAILED (int32 (L + 2)))) (\<lambda>_.
               Inr (drop 5 (malloc junk (nat (int32 (L + 2))))))
             else Inr (drop 5 b))
            (\<lambda>b3. case read_bytes junk s2 b3 n False of (st, body, s3) \<Rightarrow> Inr (st, take 5 x @ body, s3)))"
proof -
  have b: "5 \<le> length b" by (simp add: b_def grow_buffer_def)
  obtain s2 where rb: "read_bytes junk s b 5 False = (RB_OK, take 5 x @ drop 5 b, s2)"
    and s2: "sock_stream s2 = drop 5 x" "sock_end s2 = sock_end s"
    using read_bytes_enough [of 5 s b junk] assms(4) b by (auto simp: x_def)
  have len: "int (unat (ntohl (take 4 (drop 1 (take 5 x @ drop 5 b))))) = L"
    using stream_len_take5 [OF assms(4), of "drop 5 b"] by (simp add: L_def stream_len_def)
  have b_len: "length (take 5 x @ drop 5 b) = length b"
    using assms(4) b by simp
  have take5: "take 5 (take 5 x @ y) = take 5 x" "drop 5 (take 5 x @ y) = y" for y
    using assms(4) by simp_all
  have "read_message junk s buf =
        (let n = int32 (L - 4) in
         bindE
            (if n > int (length b) - 5 then
               bindE (guardE (0 \<le> int32 (L + 2)) (MALLOC_FAILED (int32 (L + 2)))) (\<lambda>_.
               Inr (drop 5 (malloc junk (nat (int32 (L + 2))))))
             else Inr (drop 5 b))
            (\<lambda>b3. case read_bytes junk s2 b3 n False of (st, body, s3) \<Rightarrow> Inr (st, take 5 x @ body, s3)))"
    unfolding read_message_def Let_def b_def [symmetric] rb prod.case len b_len take5
    by (simp only: simp_thms if_False if_True take5 bindE_def guardE_def sum.case if_distrib [where f = "case_sum _ _"]
        cong: if_cong)
  with s2 show ?thesis by blast
qed

lemma read_message_no_header:
  assumes "length (sock_stream s) < 5"
  shows "\<exists>b s'. read_message junk s buf = Inr (sock_end s, b, s')"
proof -
  have "5 \<le> length (grow_buffer buf junk)" by (simp add: grow_buffer_def)
  with read_bytes_short [OF assms, of "grow_buffer buf junk" junk] obtain b s' where
    "read_bytes junk s (grow_buffer buf junk) 5 False = (sock_end s, b, s')"
    by auto
  then show ?thesis
    using sock.fin_not_OK [of s] by (simp add: read_message_def Let_def)
qed

lemma read_message_bad_length:
  assumes "5 \<le> length (sock_stream s)"
    and "stream_len (sock_stream s) < 4 \<or> 2 ^ 31 + 4 \<le> stream_len (sock_stream s)"
  shows "\<exists>n < 0. \<exists>b s'. read_message junk s buf = Inr (RB_ERROR (ERR_INVALID_READ_SIZE n), b, s')"
proof -
  let ?L = "int (stream_len (sock_stream s))"
  have "?L < 2 ^ 32" using stream_len_bound [of "sock_stream s"] by simp
  then have neg: "int32 (?L - 4) < 0"
    using assms(2) int32_id [of "?L - 4"] int32_wrap [of "?L - 4"] by fastforce
  moreover have "5 \<le> length (grow_buffer buf junk)" by (simp add: grow_buffer_def)
  ultimately show ?thesis
    using read_message_header [OF assms(1), of junk buf]
    by (auto simp: Let_def read_bytes_def)
qed

lemma read_message_unallocatable:
  assumes "5 \<le> length (sock_stream s)"
    and L: "2 ^ 31 - 2 \<le> stream_len (sock_stream s)" "stream_len (sock_stream s) < 2 ^ 31 + 4"
    and buf: "length (grow_buffer buf junk) \<le> stream_len (sock_stream s)"
  shows "\<exists>n < 0. read_message junk s buf = Inl (MALLOC_FAILED n)"
proof -
  let ?L = "int (stream_len (sock_stream s))"
  have "int32 (?L - 4) = ?L - 4" using L by (intro int32_id) simp_all
  moreover have "int32 (?L + 2) = ?L + 2 - 2 ^ 32" using L by (intro int32_wrap) simp_all
  ultimately show ?thesis
    using read_message_header [OF assms(1), of junk buf] L buf by (auto simp: Let_def guardE_def)
qed

text \<open>The buffer for the body: the old one if it is large enough, or a new one.\<close>

lemma read_message_body:
  assumes x: "5 \<le> length (sock_stream s)"
    and L: "4 \<le> stream_len (sock_stream s)" "stream_len (sock_stream s) < 2 ^ 31 - 2 \<or>
      stream_len (sock_stream s) < length (grow_buffer buf junk) \<and> stream_len (sock_stream s) < 2 ^ 31 + 4"
  shows "\<exists>s2 b3. sock_stream s2 = drop 5 (sock_stream s) \<and> sock_end s2 = sock_end s
    \<and> stream_len (sock_stream s) - 4 \<le> length b3
    \<and> read_message junk s buf =
       (case read_bytes junk s2 b3 (int (stream_len (sock_stream s) - 4)) False of
          (st, body, s3) \<Rightarrow> Inr (st, take 5 (sock_stream s) @ body, s3))"
proof -
  let ?L = "int (stream_len (sock_stream s))"
  obtain s2 where s2: "sock_stream s2 = drop 5 (sock_stream s)" "sock_end s2 = sock_end s"
    and rm: "read_message junk s buf =
        (let n = int32 (?L - 4) in
         bindE
            (if n > int (length (grow_buffer buf junk)) - 5 then
               bindE (guardE (0 \<le> int32 (?L + 2)) (MALLOC_FAILED (int32 (?L + 2)))) (\<lambda>_.
               Inr (drop 5 (malloc junk (nat (int32 (?L + 2))))))
             else Inr (drop 5 (grow_buffer buf junk)))
            (\<lambda>b3. case read_bytes junk s2 b3 n False of
               (st, body, s3) \<Rightarrow> Inr (st, take 5 (sock_stream s) @ body, s3)))"
    using read_message_header [OF x, of junk buf] by blast
  have n: "int32 (?L - 4) = int (stream_len (sock_stream s) - 4)"
    using L int32_id [of "?L - 4"] by (auto simp: of_nat_diff)
  show ?thesis
  proof (cases "int (stream_len (sock_stream s) - 4) > int (length (grow_buffer buf junk)) - 5")
    case True
    with L have "int32 (?L + 2) = ?L + 2" by (intro int32_id) auto
    with True s2 show ?thesis
      by (intro exI [of _ s2] exI [of _ "drop 5 (malloc junk (nat (?L + 2)))"])
        (simp add: rm Let_def n guardE_def nat_add_distrib)
  next
    case False
    then have "stream_len (sock_stream s) - 4 \<le> length (grow_buffer buf junk) - 5"
      by (simp add: grow_buffer_def split: if_splits)
    with False s2 show ?thesis
      by (intro exI [of _ s2] exI [of _ "drop 5 (grow_buffer buf junk)"]) (simp add: rm Let_def n)
  qed
qed

lemma read_message_complete:
  assumes x: "5 \<le> length (sock_stream s)"
    and L: "4 \<le> stream_len (sock_stream s)" "stream_len (sock_stream s) < 2 ^ 31 - 2 \<or>
      stream_len (sock_stream s) < length (grow_buffer buf junk) \<and> stream_len (sock_stream s) < 2 ^ 31 + 4"
    and all: "stream_len (sock_stream s) + 1 \<le> length (sock_stream s)"
  shows "\<exists>rest s'. read_message junk s buf = Inr (RB_OK, take (stream_len (sock_stream s) + 1) (sock_stream s) @ rest, s')
    \<and> sock_stream s' = drop (stream_len (sock_stream s) + 1) (sock_stream s) \<and> sock_end s' = sock_end s"
proof -
  let ?n = "stream_len (sock_stream s) - 4"
  obtain s2 b3 where s2: "sock_stream s2 = drop 5 (sock_stream s)" "sock_end s2 = sock_end s"
    and b3: "?n \<le> length b3"
    and rm: "read_message junk s buf = (case read_bytes junk s2 b3 (int ?n) False of
          (st, body, s3) \<Rightarrow> Inr (st, take 5 (sock_stream s) @ body, s3))"
    using read_message_body [OF x L] by blast
  have "?n \<le> length (sock_stream s2)" using all L(1) by (simp add: s2)
  from read_bytes_enough [OF this b3, of junk] obtain s3 where
    rb: "read_bytes junk s2 b3 (int ?n) False = (RB_OK, take ?n (sock_stream s2) @ drop ?n b3, s3)"
    and s3: "sock_stream s3 = drop ?n (sock_stream s2)" "sock_end s3 = sock_end s2"
    by blast
  have sum: "stream_len (sock_stream s) + 1 = 5 + ?n" using L(1) by simp
  have "take (5 + ?n) (sock_stream s) = take 5 (sock_stream s) @ take ?n (drop 5 (sock_stream s))"
    by (rule take_add)
  then show ?thesis
    unfolding sum using s2 s3 by (auto simp: rm rb add.commute)
qed

lemma read_message_incomplete:
  assumes x: "5 \<le> length (sock_stream s)"
    and L: "4 \<le> stream_len (sock_stream s)" "stream_len (sock_stream s) < 2 ^ 31 - 2 \<or>
      stream_len (sock_stream s) < length (grow_buffer buf junk) \<and> stream_len (sock_stream s) < 2 ^ 31 + 4"
    and cut: "length (sock_stream s) < stream_len (sock_stream s) + 1"
  shows "\<exists>b s'. read_message junk s buf = Inr (sock_end s, b, s')"
proof -
  let ?n = "stream_len (sock_stream s) - 4"
  obtain s2 b3 where s2: "sock_stream s2 = drop 5 (sock_stream s)" "sock_end s2 = sock_end s"
    and b3: "?n \<le> length b3"
    and rm: "read_message junk s buf = (case read_bytes junk s2 b3 (int ?n) False of
          (st, body, s3) \<Rightarrow> Inr (st, take 5 (sock_stream s) @ body, s3))"
    using read_message_body [OF x L] by blast
  have "length (sock_stream s2) < ?n" using cut x L(1) by (simp add: s2)
  from read_bytes_short [OF this b3, of junk] show ?thesis
    using s2 by (auto simp: rm)
qed

lemma read_message_next:
  assumes "read_message junk s buf = Inr (RB_OK, m, s')" and "length buf < 2 ^ 31"
  shows "\<exists>t d rest. m = frame t d @ rest \<and> sock_stream s = frame t d @ sock_stream s' \<and> length d < 2 ^ 31 - 4"
proof -
  let ?x = "sock_stream s" and ?L = "stream_len (sock_stream s)"
  have hd5: "5 \<le> length ?x"
    using assms(1) read_message_no_header [of s junk buf] sock.fin_not_OK [of s] by force
  have b: "length (grow_buffer buf junk) < 2 ^ 31" using assms(2) by (simp add: grow_buffer_def)
  have L4: "4 \<le> ?L" and "?L < 2 ^ 31 + 4"
    using assms(1) read_message_bad_length [OF hd5, of junk buf] by force+
  then have L: "?L < 2 ^ 31 - 2 \<or> ?L < length (grow_buffer buf junk) \<and> ?L < 2 ^ 31 + 4"
    using assms(1) read_message_unallocatable [OF hd5, of buf junk] by force
  have all: "?L + 1 \<le> length ?x"
    using assms(1) read_message_incomplete [OF hd5 L4 L] sock.fin_not_OK [of s] by force
  from read_message_complete [OF hd5 L4 L all] assms(1) obtain rest where
    m: "m = take (?L + 1) ?x @ rest" and s': "sock_stream s' = drop (?L + 1) ?x"
    by auto
  have small: "?L < 2 ^ 31" using L b by auto
  have "wf_message (take (?L + 1) ?x)"
    using hd5 L4 all small by (simp add: wf_message_def Let_def stream_len_def drop_take)
  then obtain t d r where f: "take (?L + 1) ?x = frame t d @ r" and d: "length d < 2 ^ 31 - 4"
    by (rule wf_message_frame)
  have "stream_len ?x = stream_len (take (?L + 1) ?x @ drop (?L + 1) ?x)"
    by simp
  also have "\<dots> = length d + 4"
    using unat_frame_length [OF d] by (simp only: f) (simp add: stream_len_def frame_def hdr_def)
  finally have "length (frame t d @ r) = length d + 5"
    using all unfolding f [symmetric] by simp
  then have "r = []" by simp
  then have "m = frame t d @ rest" "?x = frame t d @ sock_stream s'"
    using m f append_take_drop_id [of "?L + 1" ?x] by (simp_all only: s' append_Nil2)
  with d show ?thesis by blast
qed

section \<open>Sending\<close>

lemma send_loop_prefix:
  "send_loop msg rs = (st, out) \<Longrightarrow>
     (\<exists>more. msg = out @ more) \<and> ((\<exists>es. st = Send_Returned 0 es) \<longrightarrow> out = msg \<and> st = Send_Returned 0 [])"
proof (induction msg rs arbitrary: out rule: send_loop.induct)
  case (2 msg r rs)
  show ?case
  proof (cases "msg = []")
    case False
    show ?thesis
    proof (cases r)
      case (Sent k)
      with False "2.prems" obtain out' where out': "send_loop (drop k msg) rs = (st, out')" "out = take k msg @ out'"
        by (auto split: prod.splits)
      from "2.IH"(1) [OF False Sent out'(1)] out'(2) show ?thesis
        by (metis append_assoc append_take_drop_id)
    next
      case (Send_Failed e)
      with False "2.prems" "2.IH"(2) show ?thesis by (cases e) auto
    qed
  qed (use "2.prems" in auto)
qed (auto split: if_splits)

lemma send_message_plain:
  assumes "length d < 2 ^ 31 - 5"
  shows "send_message (Plain_Out rs) (frame t d @ rest) =
    Inr (case send_loop (frame t d) rs of
        (Send_Returned r errs, out) \<Rightarrow>
          (Send_Returned r (if r = 0 then errs else errs @ [ERR_ROCTO_SEND_FAILED t]), out)
      | (Send_Blocked, out) \<Rightarrow> (Send_Blocked, out))"
proof -
  let ?L = "of_nat (length d + 4) :: 32 word"
  have d: "length d < 2 ^ 31 - 4" using assms by simp
  have "sint (of_nat (length d + 5) :: 32 word) = int (length d + 5)"
    using assms by (intro sint_of_nat32) simp
  moreover have "ucast (ucast (?L + 1) :: 64 word) = (of_nat (length d + 5) :: 32 word)"
    by (simp add: ucast_up_ucast_id is_up_def source_size_def target_size_def word_size)
  ultimately have w: "nat (sint (ucast (ucast (?L + 1) :: 64 word) :: 32 word)) = length d + 5"
    by (simp only: nat_int)
  have rd: "rd_n (frame t d @ rest) 0 (length d + 5) = Some (frame t d)"
    by (simp add: rd_n_def)
  show ?thesis
    unfolding send_message_def send_bytes_def send_channel.case Let_def reader_frame [OF d] bindE_simps w rd
      from_mem_simps
    by (simp split: prod.splits send_status.splits)
qed

section \<open>Properties\<close>

text \<open>
  reading \<open>n\<close> bytes from a connection, plain or TLS, returns exactly the next \<open>n\<close> bytes of the
  stream and leaves the rest, however the network cuts the stream into chunks and however many calls
  are interrupted; with fewer than \<open>n\<close> bytes before the connection ends, the status is that of the end.
\<close>

theorem read_bytes_stream:
  assumes "n \<le> length buf"
  shows "\<exists>b s'. read_bytes junk s buf (int n) False =
      (if n \<le> length (sock_stream s) then RB_OK else sock_end s, b, s')
    \<and> b = take n (sock_stream s) @ drop (min n (length (sock_stream s))) buf
    \<and> (n \<le> length (sock_stream s) \<longrightarrow> sock_stream s' = drop n (sock_stream s))"
proof (cases "n \<le> length (sock_stream s)")
  case True
  with read_bytes_enough [OF True assms, of junk] show ?thesis by auto
next
  case False
  with read_bytes_short [of s n buf junk] assms show ?thesis by auto
qed

theorem read_bytes_stream_witness:
  "\<exists>b s'. read_bytes (\<lambda>_. 0) (Plain [Got [1], Failed EINTR, Got [2, 3, 4]]) [9, 9, 9, 9] (int 3) False = (RB_OK, b, s')
     \<and> b = [1, 2, 3, 9] \<and> sock_stream s' = [4]"
  using read_bytes_stream [of 3 "[9, 9, 9, 9]" "\<lambda>_. 0" "Plain [Got [1], Failed EINTR, Got [2, 3, 4]]"]
  by (simp add: sock_stream_def numeral_eq_Suc)

text \<open>
  C34: a message that arrives whole is delivered whole: whatever the size of the receive buffer and
  however the bytes arrive, \<open>read_message\<close> returns a buffer that starts with the message and leaves
  the stream at the next message.
\<close>

theorem read_message_delivers:
  assumes "sock_stream s = frame t d @ next_bytes" and "length d < 2 ^ 31 - 6"
  shows "\<exists>rest s'. read_message junk s buf = Inr (RB_OK, frame t d @ rest, s')
    \<and> sock_stream s' = next_bytes \<and> sock_end s' = sock_end s"
proof -
  have d: "length d < 2 ^ 31 - 4" using assms(2) by simp
  have "stream_len (frame t d @ next_bytes) = length d + 4"
    using unat_frame_length [OF d] by (simp add: stream_len_def frame_def hdr_def)
  then show ?thesis
    using read_message_complete [of s buf junk] assms by auto
qed

theorem read_message_delivers_witness:
  "\<exists>rest s'. read_message (\<lambda>_. 0) (TLS [TLS_Got [83, 0], GTMTLS_WANT_READ, TLS_Got [0, 0, 4, 72]]) [] =
     Inr (RB_OK, frame 83 [] @ rest, s') \<and> sock_stream s' = [72]
     \<and> sock_end s' = sock_end (TLS [TLS_Got [83, 0], GTMTLS_WANT_READ, TLS_Got [0, 0, 4, 72]])"
  by (rule read_message_delivers) (simp_all add: sock_stream_def frame_def hdr_def htonl_eval)

text \<open>
  every message \<open>read_message\<close> returns is well-formed, so the readers' preconditions hold, and it
  holds exactly the bytes taken from the stream: nothing is lost or duplicated between messages.
\<close>

theorem read_message_wf:
  assumes "read_message junk s buf = Inr (RB_OK, m, s')" and "length buf < 2 ^ 31"
  shows "wf_message m \<and> (\<exists>t d rest. m = frame t d @ rest \<and> sock_stream s = frame t d @ sock_stream s')"
  using read_message_next [OF assms] wf_frame by blast

theorem read_message_wf_witness:
  "wf_message [83, 0, 0, 0, 4] \<and>
   (\<exists>t d rest. [83, 0, 0, 0, 4] = frame t d @ rest
      \<and> sock_stream (Plain [Got [83, 0, 0, 0, 4]]) = frame t d @ sock_stream (Plain []))"
  by (rule read_message_wf [where buf = "[]" and junk = "\<lambda>_. 0"])
    (simp_all add: read_message_def read_bytes_def recv_socket_def grow_buffer_def ntohl_def be_nat_def
      Let_def int32_def malloc_def)

text \<open>
  over a plain connection \<open>send_message\<close> hands the network a prefix of the message at every
  moment, and it returns 0 only after the whole message, type byte included, has been handed over,
  however the kernel splits the sends.
\<close>

theorem send_message_complete:
  assumes "send_message (Plain_Out rs) (frame t d @ rest) = Inr (st, out)" and "length d < 2 ^ 31 - 5"
  shows "(\<exists>unsent. frame t d = out @ unsent)
    \<and> ((\<exists>errs. st = Send_Returned 0 errs) \<longrightarrow> out = frame t d \<and> st = Send_Returned 0 [])"
  using assms(1) send_loop_prefix [of "frame t d" rs]
  by (auto simp: send_message_plain [OF assms(2)] split: prod.splits send_status.splits if_splits)

theorem send_message_complete_witness:
  "send_message (Plain_Out [Sent 2, Send_Failed EINTR, Sent 4]) (frame 90 [73] @ []) =
     Inr (Send_Returned 0 [], [90, 0, 0, 0, 5, 73]) \<and> [90, 0, 0, 0, 5, 73] = frame 90 [73]"
proof
  show sent: "send_message (Plain_Out [Sent 2, Send_Failed EINTR, Sent 4]) (frame 90 [73] @ []) =
      Inr (Send_Returned 0 [], [90, 0, 0, 0, 5, 73])"
    by (subst send_message_plain) (simp_all add: frame_def hdr_def htonl_eval)
  show "[90, 0, 0, 0, 5, 73] = frame 90 [73]"
    using send_message_complete [OF sent] by simp
qed

text \<open>
  a length field from 2^31 - 2 to 2^31 + 3, with a receive buffer that is not larger, makes
  \<open>read_message\<close> compute a negative buffer size and call \<open>malloc\<close> with it; every larger
  length and every length below 4 is refused with an invalid read size.
\<close>

theorem read_message_length_limits:
  assumes "5 \<le> length (sock_stream s)" and "length buf < 2 ^ 31 - 1"
    and "L = stream_len (sock_stream s)"
  shows "(2 ^ 31 - 2 \<le> L \<and> L < 2 ^ 31 + 4 \<longrightarrow> (\<exists>n < 0. read_message junk s buf = Inl (MALLOC_FAILED n)))
    \<and> (L < 4 \<or> 2 ^ 31 + 4 \<le> L \<longrightarrow>
        (\<exists>n < 0. \<exists>b s'. read_message junk s buf = Inr (RB_ERROR (ERR_INVALID_READ_SIZE n), b, s')))"
proof -
  have "length (grow_buffer buf junk) \<le> 2 ^ 31 - 2"
    using assms(2) by (simp add: grow_buffer_def)
  then have "2 ^ 31 - 2 \<le> L \<Longrightarrow> length (grow_buffer buf junk) \<le> stream_len (sock_stream s)"
    unfolding assms(3) by (rule order_trans)
  then show ?thesis
    using read_message_unallocatable [OF assms(1), of buf junk] read_message_bad_length [OF assms(1), of junk buf]
    unfolding assms(3) by blast
qed

theorem read_message_length_limits_witness:
  "\<exists>n < 0. read_message (\<lambda>_. 0) (Plain [Got [81, 127, 255, 255, 254]]) [] = Inl (MALLOC_FAILED n)"
  using read_message_length_limits [of "Plain [Got [81, 127, 255, 255, 254]]" "[]" "2 ^ 31 - 2" "\<lambda>_. 0"]
  by (simp add: sock_stream_def stream_len_def ntohl_def be_nat_def)

text \<open>
  end to end for the Parse message: whenever the client's send of a Parse message succeeds
  and the server's connection carries those bytes (in any chunks, plain or TLS, followed by anything),
  \<open>read_message\<close> followed by \<open>read_parse\<close> returns the structure the client encoded.
\<close>

theorem parse_message_end_to_end:
  assumes "parse_ok p" and "length (enc_parse p) < 2 ^ 31 - 6"
    and "send_message (Plain_Out rs) (frame PSQL_Parse (enc_parse p)) = Inr (Send_Returned 0 errs, out)"
    and "sock_stream s = out @ next_bytes"
  shows "\<exists>m s'. read_message junk s buf = Inr (RB_OK, m, s') \<and> read_parse m = Inr p \<and> sock_stream s' = next_bytes"
proof -
  let ?m = "frame PSQL_Parse (enc_parse p)"
  have len: "length (enc_parse p) < 2 ^ 31 - 4" "length (enc_parse p) < 2 ^ 31 - 5"
    using assms(2) by simp_all
  have "send_loop ?m rs = (Send_Returned 0 errs, out)"
    using assms(3) send_message_plain [OF len(2), of rs PSQL_Parse "[]"]
    by (auto split: prod.splits send_status.splits if_splits)
  with send_loop_prefix have out: "out = ?m" by blast
  have "stream_len (?m @ next_bytes) = length (enc_parse p) + 4"
    using unat_frame_length [OF len(1)] by (simp add: stream_len_def frame_def hdr_def)
  then obtain rest s' where "read_message junk s buf = Inr (RB_OK, ?m @ rest, s')" "sock_stream s' = next_bytes"
    using read_message_complete [of s buf junk] assms(2,4) out by auto
  with parse_reader.encode [OF assms(1)] show ?thesis by blast
qed

theorem parse_message_end_to_end_witness:
  "\<exists>m s'. read_message (\<lambda>_. 0) (Plain [Got [80, 0, 0, 0], Got [8, 0, 0, 0, 0, 83]]) [] = Inr (RB_OK, m, s')
     \<and> read_parse m = Inr \<lparr>parse_dest = [], parse_query = [], parse_num_parm_data_types = 0, parse_parm_data_types = []\<rparr>
     \<and> sock_stream s' = [83]"
proof (rule parse_message_end_to_end)
  let ?p = "\<lparr>parse_dest = [], parse_query = [], parse_num_parm_data_types = 0, parse_parm_data_types = []\<rparr>"
  have e: "enc_parse ?p = [0, 0, 0, 0]"
    by (simp add: enc_parse_def htons_eval)
  then show "parse_ok ?p" "length (enc_parse ?p) < 2 ^ 31 - 6"
    by (simp_all add: parse_ok_def)
  show "send_message (Plain_Out [Sent 9]) (frame PSQL_Parse (enc_parse ?p)) =
      Inr (Send_Returned 0 [], [80, 0, 0, 0, 8, 0, 0, 0, 0])"
    unfolding e using send_message_plain [of "[0, 0, 0, 0]" "[Sent 9]" PSQL_Parse "[]"]
    by (simp add: frame_def hdr_def htonl_eval PSQL_Parse_def ch_def)
qed (simp add: sock_stream_def)

end
