(* ===== verification/Make_Laws.thy ===== *)
theory Make_Laws
  imports Client_Read Transport
begin

text \<open>
  What the makers build. \<open>message_maker\<close> is the contract between a maker and the transport: the bytes
  written fill the computed length exactly, so that \<open>send_message\<close>, which trusts the length field,
  sends the whole message and nothing else. It is proved for every maker and the delivery
  to the client follows once for all of them. Then: round trips with the client's readers, the
  command tags, and the cases in which a binary \<open>DataRow\<close> does not satisfy the contract.
\<close>

section \<open>The contract of a maker\<close>

locale message_maker =
  fixes make :: "'a \<Rightarrow> bytes res" and letter :: "'a \<Rightarrow> byte" and enc :: "'a \<Rightarrow> bytes" and ok :: "'a \<Rightarrow> bool"
  assumes made: "ok x \<Longrightarrow> make x = Inr (frame (letter x) (enc x))"
    and bound: "ok x \<Longrightarrow> length (enc x) < 2 ^ 31 - 6"
begin

lemma well_formed: "ok x \<Longrightarrow> make x = Inr m \<Longrightarrow> wf_message m"
  using made [of x] bound [of x] wf_frame [of "enc x" "letter x" "[]"] by simp

text \<open>A message that was built and sent is what the peer receives.\<close>

lemma delivered:
  assumes x: "ok x" and m: "make x = Inr m"
    and sent: "send_message (Plain_Out rs) m = Inr (Send_Returned 0 errs, out)"
    and s: "sock_stream s = out @ next_bytes"
  shows "\<exists>rest s'. read_message junk s buf = Inr (RB_OK, frame (letter x) (enc x) @ rest, s') \<and> sock_stream s' = next_bytes"
proof -
  let ?m = "frame (letter x) (enc x)"
  have m': "m = ?m" using made [OF x] m by simp
  have len: "length (enc x) < 2 ^ 31 - 4" "length (enc x) < 2 ^ 31 - 5" using bound [OF x] by simp_all
  have "send_loop ?m rs = (Send_Returned 0 errs, out)"
    using sent send_message_plain [OF len(2), of rs "letter x" "[]"] m'
    by (auto split: prod.splits send_status.splits if_splits)
  with send_loop_prefix have out: "out = ?m" by blast
  have "stream_len (?m @ next_bytes) = length (enc x) + 4"
    using unat_frame_length [OF len(1)] by (simp add: stream_len_def frame_def hdr_def)
  then show ?thesis
    using read_message_complete [of s buf junk] bound [OF x] s out by auto
qed

end

section \<open>Makers of fixed-size messages\<close>

definition no_data :: "unit \<Rightarrow> bytes" where "no_data _ = []"

lemma fill_empty: "fill_message junk t 4 0 [] = Inr (frame t [])"
  by (rule fill_message_frame) simp_all

interpretation bind_complete: message_maker "\<lambda>_. make_bind_complete" "\<lambda>_. PSQL_BindComplete" no_data "\<lambda>_. True"
  by unfold_locales (simp_all add: make_bind_complete_def fill_empty no_data_def)

interpretation close_complete: message_maker "\<lambda>_. make_close_complete" "\<lambda>_. PSQL_CloseComplete" no_data "\<lambda>_. True"
  by unfold_locales (simp_all add: make_close_complete_def fill_empty no_data_def)

interpretation parse_complete: message_maker "\<lambda>_. make_parse_complete" "\<lambda>_. PSQL_ParseComplete" no_data "\<lambda>_. True"
  by unfold_locales (simp_all add: make_parse_complete_def fill_empty no_data_def)

interpretation portal_suspended: message_maker "\<lambda>_. make_portal_suspended" "\<lambda>_. PSQL_PortalSuspended" no_data "\<lambda>_. True"
  by unfold_locales (simp_all add: make_portal_suspended_def fill_empty no_data_def)

interpretation nodata: message_maker "\<lambda>_. make_no_data" "\<lambda>_. PSQL_NoData" no_data "\<lambda>_. True"
  by unfold_locales (simp_all add: make_no_data_def fill_empty no_data_def)

interpretation empty_query: message_maker "\<lambda>_. make_empty_query_response" "\<lambda>_. PSQL_EmptyQueryResponse" no_data "\<lambda>_. True"
  by unfold_locales (simp_all add: make_empty_query_response_def fill_empty no_data_def)

interpretation auth_ok: message_maker "\<lambda>_. make_authentication_ok" "\<lambda>_. PSQL_AuthenticationOk" "\<lambda>_. htonl 0" "\<lambda>_. True"
  by unfold_locales (simp_all add: make_authentication_ok_def fill_message_frame)

interpretation auth_md5: message_maker make_authentication_md5_password "\<lambda>_. PSQL_AuthenticationMD5Password"
    "\<lambda>g. htonl 5 @ projr g" "\<lambda>g. \<exists>salt. g = Inr salt \<and> length salt = 4"
  by unfold_locales (auto simp: make_authentication_md5_password_def fill_message_frame)

interpretation backend_key: message_maker "\<lambda>(key, pid). make_backend_key_data key pid" "\<lambda>_. PSQL_BackendKeyData"
    "\<lambda>(key, pid). htonl pid @ htonl key" "\<lambda>_. True"
  by unfold_locales (auto simp: make_backend_key_data_def fill_message_frame)

interpretation ready: message_maker make_ready_for_query "\<lambda>_. PSQL_ReadyForQuery"
    "\<lambda>st. [transaction_status_char st]" "\<lambda>_. True"
  by unfold_locales (simp_all add: make_ready_for_query_def fill_message_frame)

section \<open>ParameterStatus\<close>

definition enc_parameter_status :: "StartupMessageParm \<Rightarrow> bytes" where
  "enc_parameter_status p = parm_name p @ [0] @ parm_val p @ [0]"

lemma make_parameter_status_frame:
  assumes "length (enc_parameter_status p) < 2 ^ 31 - 6"
  shows "make_parameter_status junk p = Inr (frame PSQL_ParameterStatus (enc_parameter_status p))"
proof -
  let ?d = "enc_parameter_status p"
  have len: "4 + (of_nat (length (parm_name p)) + 1) + (of_nat (length (parm_val p)) + 1) = (of_nat (length ?d + 4) :: 32 word)"
    by (simp add: enc_parameter_status_def)
  have "unat (of_nat (length ?d + 4) :: 32 word) = length ?d + 4"
    by (rule unat_frame_length) (use assms in simp)
  then show ?thesis
    unfolding make_parameter_status_def Let_def len
    by (simp add: fill_message_frame enc_parameter_status_def [symmetric] del: append_Cons append_Nil of_nat_add)
qed

interpretation parameter_status: message_maker "make_parameter_status junk" "\<lambda>_. PSQL_ParameterStatus"
    enc_parameter_status "\<lambda>p. length (enc_parameter_status p) < 2 ^ 31 - 6" for junk
  by unfold_locales (simp_all add: make_parameter_status_frame)

section \<open>CommandComplete\<close>

text \<open>The tag before \<open>snprintf\<close>: no tag is long enough to be cut off.\<close>

definition is_row_count :: "int \<Rightarrow> bool" where
  "is_row_count n \<longleftrightarrow> - (2 ^ 31) \<le> n \<and> n < 2 ^ 31"

lemma command_tag_length:
  assumes "command_tag cmd n = Some tag" "is_row_count n"
  shows "length tag < MAX_TAG_LEN"
  using assms by (auto simp: command_tag_def snprintf_def MAX_TAG_LEN_def)

lemma command_tag_counted:
  assumes "is_row_count n"
  shows "command_tag select_STATEMENT n = Some (lit ''SELECT '' @ fmt_d n)"
    and "command_tag insert_STATEMENT n = Some (lit ''INSERT 0 '' @ fmt_d n)"
    and "command_tag delete_from_STATEMENT n = Some (lit ''DELETE '' @ fmt_d n)"
    and "command_tag update_STATEMENT n = Some (lit ''UPDATE '' @ fmt_d n)"
  using fmt_d_length [of n] assms
  by (simp_all add: command_tag_def snprintf_def MAX_TAG_LEN_def is_row_count_def)

lemma make_command_complete_frame:
  assumes "command_tag cmd n = Some tag" "is_row_count n"
  shows "make_command_complete cmd n = Inr (frame PSQL_CommandComplete (tag @ [0]))"
  using assms by (simp add: make_command_complete_def fill_message_frame)

interpretation command_complete: message_maker "\<lambda>(cmd, n). make_command_complete cmd n" "\<lambda>_. PSQL_CommandComplete"
    "\<lambda>(cmd, n). the (command_tag cmd n) @ [0]" "\<lambda>(cmd, n). command_tag cmd n \<noteq> None \<and> is_row_count n"
proof unfold_locales
  fix x :: "SqlStatementType \<times> int"
  assume "case x of (cmd, n) \<Rightarrow> command_tag cmd n \<noteq> None \<and> is_row_count n"
  then obtain cmd n tag where x: "x = (cmd, n)" "command_tag cmd n = Some tag" "is_row_count n"
    by (cases x) auto
  then show "(case x of (cmd, n) \<Rightarrow> make_command_complete cmd n)
      = Inr (frame PSQL_CommandComplete (case x of (cmd, n) \<Rightarrow> the (command_tag cmd n) @ [0]))"
    by (simp add: make_command_complete_frame)
  show "length (case x of (cmd, n) \<Rightarrow> the (command_tag cmd n) @ [0]) < 2 ^ 31 - 6"
    using command_tag_length [OF x(2,3)] x by (simp add: MAX_TAG_LEN_def)
qed

section \<open>ErrorResponse\<close>

definition enc_error_response :: "PSQL_ErrorSeverity \<times> bytes \<times> bytes \<times> ErrorResponseArg list \<Rightarrow> bytes" where
  "enc_error_response = (\<lambda>(severity, code, message, args).
     concat (map error_arg_bytes
       (\<lparr>arg_type = ch CHR ''S'', arg_value = psql_error_severity_str severity\<rparr>
        # \<lparr>arg_type = ch CHR ''C'', arg_value = code\<rparr>
        # \<lparr>arg_type = ch CHR ''M'', arg_value = message\<rparr> # args)) @ [0])"

lemma make_error_response_frame:
  "make_error_response severity code message args =
     Inr (frame (error_response_type severity) (enc_error_response (severity, code, message, args)))"
proof -
  have "length (concat (map error_arg_bytes args)) = sum_list (map (\<lambda>a. 1 + (length (arg_value a) + 1)) args)"
    by (induction args) (simp_all add: error_arg_bytes_def)
  then show ?thesis
    unfolding make_error_response_def Let_def
    by (subst fill_message_frame) (simp_all add: enc_error_response_def error_arg_bytes_def)
qed

interpretation error_response: message_maker
    "\<lambda>(severity, code, message, args). make_error_response severity code message args"
    "\<lambda>(severity, code, message, args). error_response_type severity"
    enc_error_response "\<lambda>x. length (enc_error_response x) < 2 ^ 31 - 6"
  by unfold_locales (auto simp: make_error_response_frame)

section \<open>RowDescription\<close>

definition enc_row_description :: "RowDescriptionParm list \<Rightarrow> bytes" where
  "enc_row_description ps = htons (of_nat (length ps)) @ concat (map row_description_bytes ps)"

definition lower_name :: "RowDescriptionParm \<Rightarrow> RowDescriptionParm" where
  "lower_name p = p\<lparr>rd_name := map tolower (rd_name p)\<rparr>"

definition row_description_ok :: "RowDescriptionParm list \<Rightarrow> bool" where
  "row_description_ok ps \<longleftrightarrow> length (enc_row_description ps) < 2 ^ 31 - 6 \<and> length ps < 2 ^ 15
     \<and> (\<forall>p\<in>set ps. nul_free (rd_name p))"

lemma length_row_description_bytes: "length (row_description_bytes p) = length (rd_name p) + 1 + 18"
  by (simp add: row_description_bytes_def)

lemma make_row_description_frame:
  "make_row_description ps = Inr (frame PSQL_RowDescription (enc_row_description ps))"
proof -
  have "length (concat (map row_description_bytes ps)) = sum_list (map (\<lambda>p. length (rd_name p) + 1 + 18) ps)"
    by (simp add: length_concat comp_def length_row_description_bytes)
  then show ?thesis
    unfolding make_row_description_def Let_def
    by (subst fill_message_frame) (simp_all add: enc_row_description_def)
qed

interpretation row_description: message_maker make_row_description "\<lambda>_. PSQL_RowDescription"
    enc_row_description row_description_ok
  by unfold_locales (simp_all add: make_row_description_frame row_description_ok_def)

lemma read_row_parms_at:
  assumes "\<forall>p\<in>set ps. nul_free (rd_name p)"
  shows "read_row_parms (pre @ concat (map row_description_bytes ps)) (int (length pre)) (length ps)
    = Inr (map lower_name ps)"
  using assms
proof (induction ps arbitrary: pre)
  case Nil
  then show ?case by simp
next
  case (Cons p ps)
  let ?x = "concat (map row_description_bytes ps)" and ?nm = "map tolower (rd_name p)"
  let ?f = "htonl (rd_table_id p) @ htons (rd_column_id p) @ htonl (rd_data_type p)
     @ htons (rd_data_type_size p) @ htonl (rd_type_modifier p) @ htons (rd_format_code p)"
  let ?d = "pre @ concat (map row_description_bytes (p # ps))" and ?c = "int (length pre)"
  let ?e = "?c + int (length ?nm)"
  have d: "?d = pre @ ?nm @ 0 # ?f @ ?x" "?d = (pre @ ?nm @ [0]) @ ?f @ ?x"
      "?d = (pre @ row_description_bytes p) @ ?x"
    by (simp_all add: row_description_bytes_def)
  have scan: "scan_nul ?d ?c (int (length ?d) + 1) = Some ?e"
    unfolding d(1) by (rule scan_nul_string) (use Cons.prems in auto)
  have f: "rd_n ?d (?e + 1) 18 = Some ?f"
    using rd_n_append_at [of "pre @ ?nm @ [0]" ?f ?x] unfolding d(2) by (simp add: algebra_simps)
  have nm: "take (nat (?e - ?c)) (drop (nat ?c) ?d) = ?nm"
    unfolding d(1) by simp
  have "read_row_parms ((pre @ row_description_bytes p) @ ?x) (int (length (pre @ row_description_bytes p))) (length ps)
      = Inr (map lower_name ps)"
    using Cons.prems by (intro Cons.IH) simp
  then have rec: "read_row_parms ?d (?e + 19) (length ps) = Inr (map lower_name ps)"
    unfolding d(3) by (simp add: length_row_description_bytes algebra_simps)
  show ?case
    by (simp only: list.size add_0_right add_Suc_right read_row_parms.simps scan f rec nm from_mem_simps bindE_simps)
      (simp add: lower_name_def)
qed

lemma msg_body_at_7:
  assumes "length d < 2 ^ 31 - 6"
  shows "rd_n (frame t (htons w @ d) @ rest) 7 (unat ((of_nat (length (htons w @ d) + 4) :: 32 word) - 4 - 2)) = Some d"
    and "rd_n (frame t (htons w @ d) @ rest) 5 2 = Some (htons w)"
proof -
  have "(of_nat (length (htons w @ d) + 4) :: 32 word) - 4 - 2 = of_nat (length d)" by simp
  moreover have "length d < 2 ^ 32" using assms by simp
  ultimately have n: "unat ((of_nat (length (htons w @ d) + 4) :: 32 word) - 4 - 2) = length d"
    by (simp only: unat_of_nat) simp
  show "rd_n (frame t (htons w @ d) @ rest) 7 (unat ((of_nat (length (htons w @ d) + 4) :: 32 word) - 4 - 2)) = Some d"
    unfolding n by (simp add: rd_n_def frame_def)
  show "rd_n (frame t (htons w @ d) @ rest) 5 2 = Some (htons w)"
    by (simp add: rd_n_def frame_def)
qed

lemma read_row_description_frame:
  assumes "row_description_ok ps"
  shows "read_row_description (frame t (enc_row_description ps) @ rest) = Inr (map lower_name ps)"
proof -
  let ?d = "concat (map row_description_bytes ps)" and ?w = "of_nat (length ps) :: 16 word"
  have len: "length (htons ?w @ ?d) < 2 ^ 31 - 4" "length ?d < 2 ^ 31 - 6"
    using assms by (simp_all add: row_description_ok_def enc_row_description_def)
  have n: "sint ?w = int (length ps)"
    using assms by (intro sint_of_nat16) (simp add: row_description_ok_def)
  have "read_row_parms ?d 0 (length ps) = Inr (map lower_name ps)"
    using read_row_parms_at [of ps "[]"] assms by (simp add: row_description_ok_def)
  then show ?thesis
    unfolding read_row_description_def enc_row_description_def frame_fields(2) [OF len(1)] bindE_simps
      msg_body_at_7 [OF len(2)] from_mem_simps ntohs_htons n nat_int .
qed

section \<open>DataRow\<close>

definition enc_column :: "bytes \<Rightarrow> bytes" where
  "enc_column v = htonl (of_nat (length v)) @ v"

text \<open>A row in text format: \<open>None\<close> is a NULL column.\<close>

definition text_parm :: "bytes option \<Rightarrow> DataRowParm" where
  "text_parm v = (case v of None \<Rightarrow> \<lparr>dr_length = PSQL_NULL, dr_value = [], dr_format = TEXT_FORMAT\<rparr>
     | Some x \<Rightarrow> \<lparr>dr_length = int (length x), dr_value = x, dr_format = TEXT_FORMAT\<rparr>)"

definition enc_text_column :: "bytes option \<Rightarrow> bytes" where
  "enc_text_column v = (case v of None \<Rightarrow> htonl (- 1) | Some x \<Rightarrow> enc_column x)"

definition enc_text_row :: "bytes option list \<Rightarrow> bytes" where
  "enc_text_row vs = htons (of_nat (length vs)) @ concat (map enc_text_column vs)"

lemma copy_text_column: "copy_data_row_parm (text_parm v) ty = Inr (enc_text_column v)"
  by (cases v) (simp_all add: copy_data_row_parm_def text_parm_def copy_text_parm_def enc_text_column_def
      enc_column_def rd_n_def)

lemma text_column_size: "data_row_size (text_parm v) ty = int (length (enc_text_column v))"
  by (cases v) (simp_all add: data_row_size_def text_parm_def enc_text_column_def enc_column_def)

definition text_row :: "(bytes option \<times> int) list \<Rightarrow> (DataRowParm \<times> int) list" where
  "text_row row = map (\<lambda>(v, ty). (text_parm v, ty)) row"

lemma text_row_sizes: "data_row_sizes (text_row row) = int (length (concat (map (enc_text_column \<circ> fst) row)))"
  by (induction row) (auto simp: data_row_sizes_def text_row_def text_column_size)

lemma copy_text_row:
  "length (concat (map (enc_text_column \<circ> fst) row)) \<le> cap \<Longrightarrow>
   copy_data_row_parms cap (text_row row) = Inr (concat (map (enc_text_column \<circ> fst) row))"
  by (induction row arbitrary: cap) (auto simp: text_row_def copy_text_column)

lemma make_text_row_frame:
  "make_data_row junk (text_row row) = Inr (frame PSQL_DataRow (enc_text_row (map fst row)))"
proof -
  let ?d = "concat (map (enc_text_column \<circ> fst) row)"
  have "copy_data_row_parms (length ?d) (text_row row) = Inr ?d"
    by (rule copy_text_row) simp
  moreover have "fill_message junk PSQL_DataRow (of_int (int (length ?d) + 4 + 2)) (length ?d + 2) (htons (of_nat (length row)) @ ?d)
      = Inr (frame PSQL_DataRow (htons (of_nat (length row)) @ ?d))"
    by (rule fill_message_frame) (simp_all add: add.commute)
  ultimately show ?thesis
    unfolding make_data_row_def Let_def text_row_sizes nat_int
    by (simp add: enc_text_row_def text_row_def map_concat comp_def)
qed

interpretation text_data_row: message_maker "\<lambda>row. make_data_row junk (text_row row)" "\<lambda>_. PSQL_DataRow"
    "\<lambda>row. enc_text_row (map fst row)" "\<lambda>row. length (enc_text_row (map fst row)) < 2 ^ 31 - 6" for junk
  by unfold_locales (simp_all add: make_text_row_frame)

lemma read_columns_at:
  assumes "\<forall>v\<in>set vs. length v < 2 ^ 31"
  shows "\<exists>cs. read_columns (pre @ concat (map enc_column vs)) (int (length pre)) (length vs) = Inr cs
    \<and> map (column_value \<lparr>dr_data = pre @ concat (map enc_column vs), dr_columns = q\<rparr>) cs = vs"
  using assms
proof (induction vs arbitrary: pre)
  case Nil
  then show ?case by simp
next
  case (Cons v vs)
  let ?x = "concat (map enc_column vs)" and ?d = "pre @ concat (map enc_column (v # vs))"
  let ?c = "int (length pre)"
  have d: "?d = pre @ htonl (of_nat (length v)) @ v @ ?x" "?d = (pre @ enc_column v) @ ?x"
    by (simp_all add: enc_column_def)
  have rd: "rd_n ?d ?c 4 = Some (htonl (of_nat (length v)))"
    using rd_n_append_at [of pre "htonl (of_nat (length v))" "v @ ?x"] unfolding d(1) by simp
  have n: "sint (of_nat (length v) :: 32 word) = int (length v)"
    using Cons.prems by (intro sint_of_nat32) simp
  obtain cs where cs: "read_columns ((pre @ enc_column v) @ ?x) (int (length (pre @ enc_column v))) (length vs) = Inr cs"
    "map (column_value \<lparr>dr_data = (pre @ enc_column v) @ ?x, dr_columns = q\<rparr>) cs = vs"
    using Cons.IH [of "pre @ enc_column v"] Cons.prems by auto
  have rec: "read_columns ?d (?c + 4 + int (length v)) (length vs) = Inr cs"
    using cs(1) unfolding d(2) by (simp add: enc_column_def algebra_simps)
  have "read_columns ?d ?c (length (v # vs)) = Inr ((int (length v), ?c + 4) # cs)"
    by (simp only: list.size add_0_right add_Suc_right read_columns.simps rd from_mem_simps bindE_simps
        ntohl_htonl n Let_def rec)
  moreover have "column_value \<lparr>dr_data = ?d, dr_columns = q\<rparr> (int (length v), ?c + 4) = v"
    unfolding d(1) by (simp add: column_value_def nat_add_distrib)
  ultimately show ?case
    using cs(2) unfolding d(2) [symmetric] by auto
qed

lemma read_text_row_frame:
  assumes "length (enc_text_row (map Some vs)) < 2 ^ 31 - 6" "length vs < 2 ^ 15"
  shows "\<exists>r. read_data_row (frame t (enc_text_row (map Some vs)) @ rest) = Inr r
    \<and> map (column_value r) (dr_columns r) = vs"
proof (cases "vs = []")
  case True
  have z: "sint (of_nat 0 :: 16 word) = 0" by simp
  have "length (enc_text_row []) < 2 ^ 31 - 4" by (simp add: enc_text_row_def)
  from frame_fields(2) [OF this, of t rest] True show ?thesis
    using msg_body_at_7(2) [of "[]" t 0 rest]
    by (simp add: read_data_row_def enc_text_row_def)
next
  case False
  let ?d = "concat (map enc_column vs)" and ?w = "of_nat (length vs) :: 16 word"
  have e: "enc_text_row (map Some vs) = htons ?w @ ?d"
    by (simp add: enc_text_row_def enc_text_column_def comp_def)
  have len: "length (htons ?w @ ?d) < 2 ^ 31 - 4" "length ?d < 2 ^ 31 - 6"
    using assms(1) unfolding e by simp_all
  have n: "sint ?w = int (length vs)" by (rule sint_of_nat16 [OF assms(2)])
  have "\<forall>v\<in>set vs. length v < 2 ^ 31"
  proof
    fix v
    assume "v \<in> set vs"
    then have "length v \<le> length ?d"
      by (induction vs) (auto simp: enc_column_def)
    with len(2) show "length v < 2 ^ 31" by simp
  qed
  from read_columns_at [OF this, of "[]" "[]"] obtain cs where
    cs: "read_columns ?d 0 (length vs) = Inr cs" "map (column_value \<lparr>dr_data = ?d, dr_columns = []\<rparr>) cs = vs"
    by auto
  have "map (column_value \<lparr>dr_data = ?d, dr_columns = cs\<rparr>) cs = vs"
    using cs(2) by (simp add: column_value_def [abs_def])
  moreover have "read_data_row (frame t (htons ?w @ ?d) @ rest) = Inr \<lparr>dr_data = ?d, dr_columns = cs\<rparr>"
    unfolding read_data_row_def frame_fields(2) [OF len(1)] bindE_simps msg_body_at_7 [OF len(2)] from_mem_simps
      ntohs_htons n Let_def nat_int cs(1) using False by simp
  ultimately show ?thesis unfolding e by auto
qed

section \<open>Binary columns\<close>

lemma data_row_one_column:
  "make_data_row junk [(p, ty)] =
     bindE (copy_data_row_parm p ty) (\<lambda>b.
     bindE (guardE (length b \<le> nat (data_row_size p ty)) OUT_OF_BOUNDS) (\<lambda>_.
     Inr (PSQL_DataRow # htonl (of_int (data_row_size p ty + 6)) @ htons 1 @ b
       @ map junk [length b + 2..<nat (data_row_size p ty) + 2])))"
  by (cases "copy_data_row_parm p ty")
    (auto simp: make_data_row_def data_row_sizes_def Let_def fill_message_def guardE_def add.commute)

lemma data_row_fixed_size_text:
  assumes "dr_format p \<noteq> 0" "ty \<noteq> PSQL_TypeOid_int4" "0 \<le> get_type_size_from_psql_type ty"
    and "dr_length p = int (length (dr_value p))"
  shows "make_data_row junk [(p, ty)] =
    (if get_type_size_from_psql_type ty < dr_length p then Inl OUT_OF_BOUNDS
     else Inr (PSQL_DataRow # htonl (of_int (get_type_size_from_psql_type ty + 10)) @ htons 1 @ enc_column (dr_value p)
        @ map junk [length (dr_value p) + 6..<nat (get_type_size_from_psql_type ty) + 6]))"
proof -
  have "copy_data_row_parm p ty = Inr (enc_column (dr_value p))"
    using assms by (simp add: copy_data_row_parm_def copy_text_parm_def enc_column_def rd_n_def)
  moreover have "data_row_size p ty = get_type_size_from_psql_type ty + 4"
    using assms by (simp add: data_row_size_def Let_def)
  ultimately show ?thesis
    using assms(3,4) by (auto simp: data_row_one_column enc_column_def guardE_def nat_add_distrib add.commute)
qed

section \<open>Properties\<close>

text \<open>
  the result columns reach the client: a RowDescription that \<open>make_row_description\<close> built and
  \<open>send_message\<close> sent is read by \<open>read_row_description\<close> as the same columns, with the names in
  lower case, over any chunking of the connection.
\<close>

theorem row_description_end_to_end:
  assumes "row_description_ok ps" and "make_row_description ps = Inr m"
    and "send_message (Plain_Out rs) m = Inr (Send_Returned 0 errs, out)" and "sock_stream s = out @ next_bytes"
  shows "\<exists>m' s'. read_message junk s buf = Inr (RB_OK, m', s') \<and> read_row_description m' = Inr (map lower_name ps)
    \<and> sock_stream s' = next_bytes"
  using row_description.delivered [OF assms] read_row_description_frame [OF assms(1)] by blast

theorem row_description_end_to_end_witness:
  "\<exists>m' s'. read_message (\<lambda>_. 0) (Plain [Got (frame 84 [0, 0])]) [] = Inr (RB_OK, m', s')
    \<and> read_row_description m' = Inr (map lower_name []) \<and> sock_stream s' = []"
proof (rule row_description_end_to_end)
  show "row_description_ok []"
    by (simp add: row_description_ok_def enc_row_description_def)
  show "make_row_description [] = Inr (frame 84 [0, 0])"
    by (simp add: make_row_description_frame enc_row_description_def PSQL_RowDescription_def ch_def htons_eval)
  show "send_message (Plain_Out [Sent 7]) (frame 84 [0, 0]) = Inr (Send_Returned 0 [], frame 84 [0, 0])"
    using send_message_plain [of "[0, 0]" "[Sent 7]" 84 "[]"] by (simp add: frame_def hdr_def)
  show "sock_stream (Plain [Got (frame 84 [0, 0])]) = frame 84 [0, 0] @ []"
    by (simp add: sock_stream_def recv_stream_Got frame_def hdr_def)
qed

text \<open>
  a row in text format, with any NULL columns and any column types, is built without leaving the
  allocated block and with a length field that counts exactly the bytes written; without NULL columns
  \<open>read_data_row\<close> returns the values that were put in.
\<close>

theorem data_row_text:
  shows "make_data_row junk (text_row row) = Inr (frame PSQL_DataRow (enc_text_row (map fst row)))
    \<and> (map fst row = map Some vs \<and> length (enc_text_row (map Some vs)) < 2 ^ 31 - 6 \<and> length vs < 2 ^ 15 \<longrightarrow>
        (\<exists>r. read_data_row (frame PSQL_DataRow (enc_text_row (map fst row)) @ rest) = Inr r
          \<and> map (column_value r) (dr_columns r) = vs))"
  using make_text_row_frame [of junk row] read_text_row_frame [of vs PSQL_DataRow rest] by auto

theorem data_row_text_witness:
  "\<exists>r. read_data_row (frame PSQL_DataRow (enc_text_row (map fst [(Some (lit ''ab''), 1043), (Some [], 1043)])) @ []) = Inr r
     \<and> map (column_value r) (dr_columns r) = [lit ''ab'', []]"
  using data_row_text [of "\<lambda>_. 0" "[(Some (lit ''ab''), 1043), (Some [], 1043)]" "[lit ''ab'', []]" "[]"]
  by (simp add: enc_text_row_def enc_text_column_def enc_column_def)



text \<open>
  a binary \<open>int4\<close> column that holds the decimal text of a 32-bit number is sent as the four bytes of
  that number in network order; a NULL one is sent with four bytes of the block that were never
  written after it, and they are counted in the length.
\<close>

theorem data_row_int4:
  assumes "- (2 ^ 31) \<le> n" and "n < 2 ^ 31"
  shows "make_data_row junk [(\<lparr>dr_length = int (length (fmt_d n)), dr_value = fmt_d n, dr_format = 1\<rparr>, PSQL_TypeOid_int4)]
      = Inr (frame PSQL_DataRow (htons 1 @ htonl 4 @ htonl (of_int n)))
    \<and> make_data_row junk [(\<lparr>dr_length = - 1, dr_value = v, dr_format = 1\<rparr>, PSQL_TypeOid_int4)]
      = Inr (frame PSQL_DataRow (htons 1 @ htonl (- 1) @ map junk [6..<10]))"
proof -
  have v: "strtol (fmt_d n) = n"
    using strtol_fmt_d [of n "[]"] assms by (simp add: LONG_MIN_def LONG_MAX_def)
  have l: "int (length (fmt_d n)) < 12" using fmt_d_length [OF assms] by simp
  have "copy_data_row_parm \<lparr>dr_length = int (length (fmt_d n)), dr_value = fmt_d n, dr_format = 1\<rparr> PSQL_TypeOid_int4
      = Inr (htonl 4 @ htonl (of_int n))"
    using assms l by (simp add: copy_data_row_parm_def copy_int4_parm_def rd_n_def v Let_def guardE_def)
  moreover have "data_row_size \<lparr>dr_length = k, dr_value = w, dr_format = 1\<rparr> PSQL_TypeOid_int4 = 8" for k w
    by (simp add: data_row_size_def get_type_size_from_psql_type_def)
  moreover have "copy_data_row_parm \<lparr>dr_length = - 1, dr_value = v, dr_format = 1\<rparr> PSQL_TypeOid_int4 = Inr (htonl (- 1))"
    by (simp add: copy_data_row_parm_def copy_int4_parm_def)
  ultimately show ?thesis
    by (simp add: data_row_one_column guardE_def frame_def hdr_def)
qed

theorem data_row_int4_witness:
  "make_data_row (\<lambda>_. 7) [(\<lparr>dr_length = int (length (fmt_d 300)), dr_value = fmt_d 300, dr_format = 1\<rparr>, PSQL_TypeOid_int4)]
     = Inr (frame PSQL_DataRow [0, 1, 0, 0, 0, 4, 0, 0, 1, 44])"
  using data_row_int4 [of 300 "\<lambda>_. 7"] by (simp add: htons_eval htonl_eval)

text \<open>
  the command tag that ends a counted statement is never truncated: for every 32-bit row count the
  client's \<open>read_command_complete\<close> returns the tag SELECT n, INSERT 0 n, DELETE n or UPDATE n, and the
  number in it reads back as the row count.
\<close>

theorem command_complete_tags:
  assumes "- (2 ^ 31) \<le> n" and "n < 2 ^ 31"
    and "(cmd, prefix) \<in> {(select_STATEMENT, lit ''SELECT ''), (insert_STATEMENT, lit ''INSERT 0 ''),
      (delete_from_STATEMENT, lit ''DELETE ''), (update_STATEMENT, lit ''UPDATE '')}"
  shows "\<exists>m r. make_command_complete cmd n = Inr m \<and> read_command_complete (m @ rest) = Inr (r, prefix @ fmt_d n)
    \<and> strtol (fmt_d n) = n"
proof -
  have rc: "is_row_count n" using assms(1,2) by (simp add: is_row_count_def)
  have tag: "command_tag cmd n = Some (prefix @ fmt_d n)"
    using assms(3) command_tag_counted [OF rc] by auto
  let ?d = "(prefix @ fmt_d n) @ [0]"
  have len: "length ?d < 2 ^ 31 - 4"
    using command_tag_length [OF tag rc] by (simp add: MAX_TAG_LEN_def)
  have "nul_free (prefix @ fmt_d n)" using assms(3) by (auto simp: ch_def)
  then have "cstr ?d = prefix @ fmt_d n" by (rule cstr_append)
  then have "\<exists>r. read_command_complete (frame PSQL_CommandComplete ?d @ rest) = Inr (r, prefix @ fmt_d n)"
    unfolding read_command_complete_def copy_data_def reader_frame [OF len] bindE_simps rd_n_frame_data from_mem_simps
    by simp
  moreover have "strtol (fmt_d n) = n"
    using strtol_fmt_d [of n "[]"] assms(1,2) by (simp add: LONG_MIN_def LONG_MAX_def)
  ultimately show ?thesis
    using make_command_complete_frame [OF tag rc] by blast
qed

theorem command_complete_tags_witness:
  "\<exists>m r. make_command_complete insert_STATEMENT 3 = Inr m
     \<and> read_command_complete (m @ []) = Inr (r, lit ''INSERT 0 '' @ fmt_d 3) \<and> strtol (fmt_d 3) = 3"
  by (rule command_complete_tags) simp_all

text \<open>
  an error report has the letter N for the severities WARNING, NOTICE, DEBUG, INFO and LOG and the
  letter E for all others, its computed length is the number of bytes written, and once sent it
  reaches the client with its severity, code, message and extra fields in this order.
\<close>

theorem error_response_end_to_end:
  assumes "length (enc_error_response (severity, code, message, args)) < 2 ^ 31 - 6"
    and "make_error_response severity code message args = Inr m"
    and "send_message (Plain_Out rs) m = Inr (Send_Returned 0 errs, out)" and "sock_stream s = out @ next_bytes"
  shows "\<exists>rest s'. read_message junk s buf = Inr (RB_OK,
      frame (if severity \<in> {PSQL_Error_WARNING, PSQL_Error_NOTICE, PSQL_Error_DEBUG, PSQL_Error_INFO, PSQL_Error_LOG}
             then ch CHR ''N'' else ch CHR ''E'')
        (enc_error_response (severity, code, message, args)) @ rest, s') \<and> sock_stream s' = next_bytes"
proof -
  have "error_response_type severity =
      (if severity \<in> {PSQL_Error_WARNING, PSQL_Error_NOTICE, PSQL_Error_DEBUG, PSQL_Error_INFO, PSQL_Error_LOG}
       then ch CHR ''N'' else ch CHR ''E'')"
    by (cases severity) (simp_all add: error_response_type_def PSQL_NoticeResponse_def PSQL_ErrorResponse_def)
  then show ?thesis
    using error_response.delivered [of "(severity, code, message, args)", OF _ _ assms(3,4), of junk buf] assms(1,2) by simp
qed

theorem error_response_end_to_end_witness:
  "\<exists>rest s'. read_message (\<lambda>_. 0) (Plain [Got (frame 78 (enc_error_response (PSQL_Error_LOG, [], [], [])))]) [] = Inr (RB_OK,
      frame (ch CHR ''N'') (enc_error_response (PSQL_Error_LOG, [], [], [])) @ rest, s') \<and> sock_stream s' = []"
proof -
  let ?e = "enc_error_response (PSQL_Error_LOG, [], [], [])"
  have e: "length ?e = 10" by (simp add: enc_error_response_def error_arg_bytes_def)
  then have "send_message (Plain_Out [Sent 15]) (frame 78 ?e) = Inr (Send_Returned 0 [], frame 78 ?e)"
    using send_message_plain [of ?e "[Sent 15]" 78 "[]"] by (simp add: frame_def hdr_def)
  moreover have "make_error_response PSQL_Error_LOG [] [] [] = Inr (frame 78 ?e)"
    by (simp add: make_error_response_frame error_response_type_def PSQL_NoticeResponse_def ch_def)
  moreover have "sock_stream (Plain [Got (frame 78 ?e)]) = frame 78 ?e @ []"
    by (simp add: sock_stream_def recv_stream_Got frame_def hdr_def)
  ultimately show ?thesis
    using error_response_end_to_end [of PSQL_Error_LOG "[]" "[]" "[]" "frame 78 ?e" "[Sent 15]" "[]" "frame 78 ?e"] e by simp
qed

end
