(* ===== verification/Bind_Laws.thy ===== *)
theory Bind_Laws
  imports Reader_Laws
begin

text \<open>
  \<open>read_bind\<close>: the round trip with the protocol's Bind encoding for parameters that have a value, and
  what the signed cursor arithmetic does with a NULL parameter (length -1).
\<close>

section \<open>The loops of read_bind\<close>

lemma wr_n_at: "p = int (length pre) \<Longrightarrow> length x = length y \<Longrightarrow> wr_n (pre @ x @ post) p y = pre @ y @ post"
  by (simp add: wr_n_def)

lemma read_format_codes_at:
  assumes "set cs \<subseteq> {0, 1}"
  shows "read_format_codes w (pre @ concat (map htons cs) @ post) (int (length pre)) (length cs)
      = Inr (pre @ concat (map (\<lambda>c. rev (htons c)) cs) @ post, cs)"
  using assms
proof (induction cs arbitrary: pre)
  case Nil
  then show ?case by simp
next
  case (Cons c cs)
  let ?x = "concat (map htons cs)"
  have rd: "rd_n (pre @ htons c @ ?x @ post) (int (length pre)) 2 = Some (htons c)"
    using rd_n_append_at [of pre "htons c" "?x @ post"] by simp
  have wr: "wr_n (pre @ htons c @ ?x @ post) (int (length pre)) (rev (htons c))
      = (pre @ rev (htons c)) @ ?x @ post"
    by (simp add: wr_n_at)
  have "read_format_codes w ((pre @ rev (htons c)) @ ?x @ post) (int (length (pre @ rev (htons c)))) (length cs)
      = Inr ((pre @ rev (htons c)) @ concat (map (\<lambda>c. rev (htons c)) cs) @ post, cs)"
    using Cons.prems by (intro Cons.IH) simp
  then have rec: "read_format_codes w ((pre @ rev (htons c)) @ ?x @ post) (int (length pre) + 2) (length cs)
      = Inr ((pre @ rev (htons c)) @ concat (map (\<lambda>c. rev (htons c)) cs) @ post, cs)"
    by (simp only: length_append length_rev length_htons of_nat_add) simp
  have "c = 0 \<or> c = 1"
    using Cons.prems by simp
  then show ?case
    unfolding list.map concat.simps append_assoc list.size add_Suc_right add_0_right
      read_format_codes.simps rd from_mem_simps bindE_simps Let_def wr rec
    by (simp add: guardE_def rec [simplified])
qed

definition enc_bind_parm :: "bytes \<Rightarrow> bytes" where
  "enc_bind_parm v = htonl (of_nat (length v)) @ v"

lemma length_enc_bind_parm [simp]: "length (enc_bind_parm v) = 4 + length v"
  by (simp add: enc_bind_parm_def)

fun parm_list :: "int \<Rightarrow> bytes list \<Rightarrow> BindParm list" where
  "parm_list p [] = []"
| "parm_list p (v # vs) =
     \<lparr>parm_length = of_nat (length v), parm_value = p + 4\<rparr> # parm_list (p + 4 + int (length v)) vs"

lemma read_bind_parms_at:
  assumes "\<forall>v\<in>set vs. length v < 2 ^ 31"
    and "int (length pre) + int (length (concat (map enc_bind_parm vs))) \<le> lst"
    and "4 \<le> length post"
  shows "read_bind_parms (pre @ concat (map enc_bind_parm vs) @ post) lst (int (length pre)) (length vs)
      = Inr (int (length pre) + int (length (concat (map enc_bind_parm vs))), parm_list (int (length pre)) vs)"
  using assms
proof (induction vs arbitrary: pre)
  case Nil
  then show ?case by simp
next
  case (Cons v vs)
  let ?x = "concat (map enc_bind_parm vs)" and ?n = "of_nat (length v) :: 32 word"
  let ?b = "pre @ concat (map enc_bind_parm (v # vs)) @ post"
  have blk: "?b = (pre @ enc_bind_parm v) @ ?x @ post"
    by simp
  have n: "sint ?n = int (length v)"
    using Cons.prems by (intro sint_of_nat32) simp
  have "rd_n ?b (int (length pre)) 8 = Some (take 8 (htonl ?n @ v @ ?x @ post))"
    using Cons.prems(3) by (simp add: rd_n_def enc_bind_parm_def)
  then obtain bs where rd: "rd_n ?b (int (length pre)) 8 = Some bs" and bs: "ntohl (take 4 bs) = ?n"
    by simp
  have "read_bind_parms ((pre @ enc_bind_parm v) @ ?x @ post) lst (int (length (pre @ enc_bind_parm v))) (length vs)
      = Inr (int (length (pre @ enc_bind_parm v)) + int (length ?x), parm_list (int (length (pre @ enc_bind_parm v))) vs)"
    using Cons.prems by (intro Cons.IH) (simp_all add: enc_bind_parm_def)
  then have rec: "read_bind_parms ?b lst (int (length pre) + 4 + int (length v)) (length vs)
      = Inr (int (length pre) + 4 + int (length v) + int (length ?x), parm_list (int (length pre) + 4 + int (length v)) vs)"
    unfolding blk by (simp add: enc_bind_parm_def algebra_simps)
  have g: "int (length pre) + 4 \<le> lst" "int (length pre) + 4 + int (length v) \<le> lst"
    using Cons.prems(2) by (simp_all add: enc_bind_parm_def)
  show ?case
    by (simp only: list.size add_Suc_right add_0_right read_bind_parms.simps Let_def rd from_mem_simps
        bindE_simps bs n guardE_def g if_True rec prod.case parm_list.simps)
      simp
qed

section \<open>The round trip\<close>

text \<open>A Bind message as a client sends it, every parameter with a value.\<close>

definition enc_bind :: "bytes \<Rightarrow> bytes \<Rightarrow> 16 word list \<Rightarrow> bytes list \<Rightarrow> 16 word list \<Rightarrow> bytes" where
  "enc_bind dest source fmts parms res =
     dest @ [0] @ source @ [0]
     @ htons (of_nat (length fmts)) @ concat (map htons fmts)
     @ htons (of_nat (length parms)) @ concat (map enc_bind_parm parms)
     @ htons (of_nat (length res)) @ concat (map htons res)"

definition bind_ok :: "bytes \<Rightarrow> bytes \<Rightarrow> 16 word list \<Rightarrow> bytes list \<Rightarrow> 16 word list \<Rightarrow> bool" where
  "bind_ok dest source fmts parms res \<longleftrightarrow>
     nul_free dest \<and> nul_free source \<and> set fmts \<subseteq> {0, 1} \<and> set res \<subseteq> {0, 1}
     \<and> (length fmts \<le> 1 \<or> length fmts = length parms) \<and> length fmts \<le> length parms
     \<and> length parms < 2 ^ 15 \<and> length res < 2 ^ 15
     \<and> length (enc_bind dest source fmts parms res) < 2 ^ 31 - 4"

lemma length_concat_htons [simp]:
  "length (concat (map htons cs)) = 2 * length cs"
  "length (concat (map (\<lambda>c. rev (htons c)) cs)) = 2 * length cs"
  by (induction cs) simp_all

lemma parm_length_less:
  assumes "v \<in> set parms" "length (concat (map enc_bind_parm parms)) < n"
  shows "length v < n"
  using assms by (induction parms) (auto simp: enc_bind_parm_def)

text \<open>What the parsed structure says about a message: its strings and the bytes of each parameter.\<close>

definition bind_dest_str :: "Bind \<Rightarrow> bytes" where
  "bind_dest_str b = str_at (bind_block b) (bind_dest b)"

definition bind_source_str :: "Bind \<Rightarrow> bytes" where
  "bind_source_str b = str_at (bind_block b) (bind_source b)"

definition parm_bytes :: "bytes \<Rightarrow> BindParm \<Rightarrow> bytes" where
  "parm_bytes blk p = take (unat (parm_length p)) (drop (nat (parm_value p)) blk)"

definition bind_parm_values :: "Bind \<Rightarrow> bytes list" where
  "bind_parm_values b = map (parm_bytes (bind_block b)) (bind_parms b)"

lemma parm_list_values:
  assumes "\<forall>v\<in>set vs. length v < 2 ^ 31"
  shows "map (parm_bytes (pre @ concat (map enc_bind_parm vs) @ post)) (parm_list (int (length pre)) vs) = vs"
  using assms
proof (induction vs arbitrary: pre)
  case Nil
  then show ?case by simp
next
  case (Cons v vs)
  let ?blk = "pre @ concat (map enc_bind_parm (v # vs)) @ post"
  have "length v < 2 ^ 32" using Cons.prems by fastforce
  then have u: "unat (of_nat (length v) :: 32 word) = length v"
    by (simp only: unat_of_nat) simp
  have len: "int (length (pre @ enc_bind_parm v)) = int (length pre) + 4 + int (length v)"
    by simp
  have blk: "(pre @ enc_bind_parm v) @ concat (map enc_bind_parm vs) @ post = ?blk"
    by simp
  have "map (parm_bytes ((pre @ enc_bind_parm v) @ concat (map enc_bind_parm vs) @ post))
      (parm_list (int (length (pre @ enc_bind_parm v))) vs) = vs"
    using Cons.prems by (intro Cons.IH) simp
  then have rec: "map (parm_bytes ?blk) (parm_list (int (length pre) + 4 + int (length v)) vs) = vs"
    unfolding len blk .
  have "parm_bytes ?blk \<lparr>parm_length = of_nat (length v), parm_value = int (length pre) + 4\<rparr> = v"
    using u by (simp add: parm_bytes_def enc_bind_parm_def nat_add_distrib)
  with rec show ?case
    by (simp only: parm_list.simps list.map)
qed

text \<open>The structure that \<open>read_bind\<close> returns for such a message. The format codes have been converted in place.\<close>

definition bind_strings :: "bytes \<Rightarrow> bytes \<Rightarrow> 16 word list \<Rightarrow> bytes list \<Rightarrow> 16 word list \<Rightarrow> bytes" where
  "bind_strings dest source fmts parms res =
     hdr PSQL_Bind (length (enc_bind dest source fmts parms res)) @ dest @ 0 # source @ [0]"

definition host_codes :: "16 word list \<Rightarrow> bytes" where
  "host_codes cs = concat (map (\<lambda>c. rev (htons c)) cs)"

definition parsed_bind :: "bytes \<Rightarrow> bytes \<Rightarrow> 16 word list \<Rightarrow> bytes list \<Rightarrow> 16 word list \<Rightarrow> Bind" where
  "parsed_bind dest source fmts parms res =
     \<lparr>bind_block = bind_strings dest source fmts parms res @ htons (of_nat (length fmts)) @ host_codes fmts @ htons (of_nat (length parms))
        @ concat (map enc_bind_parm parms) @ htons (of_nat (length res)) @ host_codes res @ replicate 4 0,
      bind_dest = 5, bind_source = 5 + int (length dest) + 1,
      bind_num_parm_format_codes = of_nat (length fmts), bind_parm_format_codes = fmts,
      bind_num_parms = of_nat (length parms),
      bind_parms = parm_list (5 + int (length dest) + 1 + int (length source) + 1 + 2 + 2 * int (length fmts) + 2) parms,
      bind_num_result_col_format_codes = of_nat (length res), bind_result_col_format_codes = res\<rparr>"

lemma bind_parm_lengths:
  assumes "bind_ok dest source fmts parms res"
  shows "\<forall>v\<in>set parms. length v < 2 ^ 31"
proof
  fix v
  assume "v \<in> set parms"
  moreover have "length (concat (map enc_bind_parm parms)) < 2 ^ 31"
    using assms by (simp add: bind_ok_def enc_bind_def)
  ultimately show "length v < 2 ^ 31" by (rule parm_length_less)
qed

lemma read_bind_parsed:
  fixes dest source fmts parms res
  defines "d \<equiv> enc_bind dest source fmts parms res"
  assumes ok: "bind_ok dest source fmts parms res"
  shows "read_bind (frame PSQL_Bind d @ rest) = Inr (parsed_bind dest source fmts parms res, [])"
proof -
  have dlen: "length d < 2 ^ 31 - 4"
    using ok by (simp add: bind_ok_def d_def)
  let ?z = "replicate 4 0 :: bytes"
  let ?F = "concat (map htons fmts)" and ?F' = "concat (map (\<lambda>c. rev (htons c)) fmts)"
  let ?P = "concat (map enc_bind_parm parms)"
  let ?R = "concat (map htons res)" and ?R' = "concat (map (\<lambda>c. rev (htons c)) res)"
  let ?nf = "of_nat (length fmts) :: 16 word" and ?np = "of_nat (length parms) :: 16 word"
    and ?nr = "of_nat (length res) :: 16 word"
  let ?h = "hdr PSQL_Bind (length d)"
  let ?lst = "5 + int (length d)"
  let ?a = "5 + int (length dest)"
  let ?c = "?a + 1 + int (length source) + 1"
  let ?c1 = "?c + 2" let ?c2 = "?c1 + 2 * int (length fmts)" let ?c3 = "?c2 + 2"
  let ?c4 = "?c3 + int (length ?P)" let ?c5 = "?c4 + 2"
  let ?strs = "?h @ dest @ 0 # source @ [0]"
  let ?b1 = "frame PSQL_Bind d @ ?z"
  let ?b2 = "?strs @ htons ?nf @ ?F' @ htons ?np @ ?P @ htons ?nr @ ?R @ ?z"
  let ?b3 = "?strs @ htons ?nf @ ?F' @ htons ?np @ ?P @ htons ?nr @ ?R' @ ?z"
  have b1: "?b1 = ?strs @ htons ?nf @ ?F @ htons ?np @ ?P @ htons ?nr @ ?R @ ?z"
    by (simp add: frame_def d_def enc_bind_def)
  have ld: "int (length d) = int (length dest) + int (length source) + 8
      + 2 * int (length fmts) + int (length ?P) + 2 * int (length res)"
    by (simp add: d_def enc_bind_def)
  have free: "nul_free dest" "nul_free source" and codes: "set fmts \<subseteq> {0, 1}" "set res \<subseteq> {0, 1}"
    and counts: "length fmts < 2 ^ 15" "length parms < 2 ^ 15" "length res < 2 ^ 15"
    using ok by (auto simp: bind_ok_def)
  note sints = sint_of_nat16 [OF counts(1)] sint_of_nat16 [OF counts(2)] sint_of_nat16 [OF counts(3)]
  note vs = bind_parm_lengths [OF ok]
  have scan1: "scan_nul ?b1 5 ?lst = Some ?a"
    using scan_nul_string [of dest ?h ?lst "source @ 0 # htons ?nf @ ?F @ htons ?np @ ?P @ htons ?nr @ ?R @ ?z"]
      free ld unfolding b1 by simp
  have scan2: "scan_nul ?b1 (?a + 1) ?lst = Some (?a + 1 + int (length source))"
    using scan_nul_string [of source "?h @ dest @ [0]" ?lst "htons ?nf @ ?F @ htons ?np @ ?P @ htons ?nr @ ?R @ ?z"]
      free ld unfolding b1 by (simp add: algebra_simps)
  have rd1: "rd_n ?b1 ?c 2 = Some (htons ?nf)"
    using rd_n_append_at [of ?strs "htons ?nf" "?F @ htons ?np @ ?P @ htons ?nr @ ?R @ ?z"]
    unfolding b1 by (simp add: algebra_simps)
  have fc1: "read_format_codes ''parameter'' ?b1 ?c1 (length fmts) = Inr (?b2, fmts)"
    using read_format_codes_at [OF codes(1), of "''parameter''" "?strs @ htons ?nf" "htons ?np @ ?P @ htons ?nr @ ?R @ ?z"]
    unfolding b1 by (simp add: algebra_simps)
  have rd2: "rd_n ?b2 ?c2 2 = Some (htons ?np)"
    using rd_n_append_at [of "?strs @ htons ?nf @ ?F'" "htons ?np" "?P @ htons ?nr @ ?R @ ?z"]
    by (simp add: algebra_simps)
  have pl: "read_bind_parms ?b2 ?lst ?c3 (length parms) = Inr (?c4, parm_list ?c3 parms)"
    using read_bind_parms_at [OF vs, of "?strs @ htons ?nf @ ?F' @ htons ?np" ?lst "htons ?nr @ ?R @ ?z"] ld
    by (simp add: algebra_simps)
  have rd3: "rd_n ?b2 ?c4 2 = Some (htons ?nr)"
    using rd_n_append_at [of "?strs @ htons ?nf @ ?F' @ htons ?np @ ?P" "htons ?nr" "?R @ ?z"]
    by (simp add: algebra_simps)
  have fc2: "read_format_codes ''result column'' ?b2 ?c5 (length res) = Inr (?b3, res)"
    using read_format_codes_at [OF codes(2), of "''result column''" "?strs @ htons ?nf @ ?F' @ htons ?np @ ?P @ htons ?nr" ?z]
    by (simp add: algebra_simps)
  let ?B = "\<lparr>bind_block = ?b3, bind_dest = 5, bind_source = ?a + 1,
           bind_num_parm_format_codes = ?nf, bind_parm_format_codes = fmts,
           bind_num_parms = ?np, bind_parms = parm_list ?c3 parms,
           bind_num_result_col_format_codes = ?nr, bind_result_col_format_codes = res\<rparr>"
  have guards: "?a \<noteq> ?lst" "?a + 1 + int (length source) \<noteq> ?lst" "?c1 \<le> ?lst" "?c2 \<le> ?lst" "?c3 \<le> ?lst"
    "?c5 + 2 * int (length res) = ?lst"
    using ld by linarith+
  have fewer: "int (length fmts) \<le> int (length parms)" "int (length fmts) \<le> 1 \<or> ?nf = ?np"
    using ok by (auto simp: bind_ok_def)
  have B: "parsed_bind dest source fmts parms res = ?B"
    by (simp add: parsed_bind_def bind_strings_def host_codes_def d_def)
  show ?thesis
    by (simp only: B read_bind_def Let_def reader_frame [OF dlen] bindE_simps prod.case rd_frame_type
        from_mem_simps scan1 scan2 rd1 ntohs_htons sints fc1 rd2 pl rd3 fc2 nat_int guardE_def
        guards fewer of_nat_0_le_iff if_True not_False_eq_True simp_thms order_refl)
qed

lemma parsed_bind_strings:
  assumes "bind_ok dest source fmts parms res"
  shows "bind_dest_str (parsed_bind dest source fmts parms res) = dest" "bind_source_str (parsed_bind dest source fmts parms res) = source"
  using assms by (simp_all add: bind_ok_def parsed_bind_def bind_strings_def bind_dest_str_def bind_source_str_def str_at_def nat_add_distrib)

lemma parsed_bind_values:
  assumes "bind_ok dest source fmts parms res"
  shows "bind_parm_values (parsed_bind dest source fmts parms res) = parms"
  using parm_list_values [OF bind_parm_lengths [OF assms], of "bind_strings dest source fmts parms res @ htons (of_nat (length fmts)) @ host_codes fmts @ htons (of_nat (length parms))"
      "htons (of_nat (length res)) @ host_codes res @ replicate 4 0"]
  by (simp add: bind_parm_values_def parsed_bind_def bind_strings_def host_codes_def algebra_simps)

section \<open>NULL and negative parameter lengths\<close>

text \<open>
  The protocol encodes a NULL parameter as the length -1 with no value bytes. The data of a Bind
  message with no format codes, parameters \<open>vs\<close> that have values, and then one parameter whose length
  field is \<open>len\<close> and that has no value bytes; \<open>tail\<close> is the rest of the message.
\<close>

definition enc_bind_last :: "bytes \<Rightarrow> bytes \<Rightarrow> bytes list \<Rightarrow> 32 word \<Rightarrow> bytes \<Rightarrow> bytes" where
  "enc_bind_last dest source vs len tail =
     dest @ [0] @ source @ [0] @ htons 0 @ htons (of_nat (length vs + 1))
     @ concat (map enc_bind_parm vs) @ htonl len @ tail"

definition bind_last_ok :: "bytes \<Rightarrow> bytes \<Rightarrow> bytes list \<Rightarrow> 32 word \<Rightarrow> bytes \<Rightarrow> bool" where
  "bind_last_ok dest source vs len tail \<longleftrightarrow>
     nul_free dest \<and> nul_free source \<and> length vs + 1 < 2 ^ 15
     \<and> length (enc_bind_last dest source vs len tail) < 2 ^ 31 - 4"

lemma read_bind_parms_add:
  "read_bind_parms blk lst cur (n + k) =
     bindE (read_bind_parms blk lst cur n) (\<lambda>(c, ps).
     bindE (read_bind_parms blk lst c k) (\<lambda>(c', ps'). Inr (c', ps @ ps')))"
proof (induction n arbitrary: cur)
  case 0
  then show ?case
    by (cases "read_bind_parms blk lst cur k") auto
next
  case (Suc n)
  show ?case
    by (auto simp: Let_def Suc bindE_def guardE_def from_mem_def split: option.splits sum.splits)
qed

lemma rd_n_htonl_8:
  assumes "4 \<le> length x"
  shows "rd_n (pre @ htonl w @ x) (int (length pre)) 8 = Some (htonl w @ take 4 x)"
  using assms by (simp add: rd_n_def)

text \<open>
  After the parameter with a negative length the cursor is \<open>- sint len\<close> bytes before the end of the
  length field, and the number of result column formats is read from there.
\<close>

lemma read_bind_last_parm:
  fixes dest source vs len tail
  defines "d \<equiv> enc_bind_last dest source vs len tail"
  assumes ok: "bind_last_ok dest source vs len tail" and neg: "sint len < 0"
    and rd: "rd_n (frame PSQL_Bind d @ replicate 4 0) (5 + int (length d) - int (length tail) + sint len) 2 = r"
    and r: "\<And>rb. r = Some rb \<Longrightarrow> sint (ntohs rb) < 0"
  shows "read_bind (frame PSQL_Bind d @ rest) =
      (case r of None \<Rightarrow> Inl OUT_OF_BOUNDS
       | Some rb \<Rightarrow> Inl (ERR_INVALID_NUMBER ''Bind'' ''result column format codes'' (sint (ntohs rb))))"
proof -
  have dlen: "length d < 2 ^ 31 - 4"
    using ok by (simp add: bind_last_ok_def d_def)
  let ?z = "replicate 4 0 :: bytes"
  let ?P = "concat (map enc_bind_parm vs)" and ?np = "of_nat (length vs + 1) :: 16 word"
  let ?h = "hdr PSQL_Bind (length d)"
  let ?lst = "5 + int (length d)" and ?a = "5 + int (length dest)"
  let ?c = "?a + 1 + int (length source) + 1"
  let ?c3 = "?c + 2 + 2" let ?c4 = "?c3 + int (length ?P)"
  let ?strs = "?h @ dest @ 0 # source @ [0]"
  let ?b1 = "frame PSQL_Bind d @ ?z"
  have b1: "?b1 = ?strs @ htons 0 @ htons ?np @ ?P @ htonl len @ tail @ ?z"
    by (simp add: frame_def d_def enc_bind_last_def)
  have ld: "int (length d) = int (length dest) + int (length source) + 10 + int (length ?P) + int (length tail)"
    by (simp add: d_def enc_bind_last_def)
  have free: "nul_free dest" "nul_free source" and cnt: "length vs + 1 < 2 ^ 15"
    using ok by (auto simp: bind_last_ok_def)
  have np: "sint ?np = int (length vs + 1)"
    by (rule sint_of_nat16 [OF cnt])
  have vs: "\<forall>v\<in>set vs. length v < 2 ^ 31"
  proof
    fix v
    assume "v \<in> set vs"
    moreover have "length ?P < 2 ^ 31"
      using dlen by (simp add: d_def enc_bind_last_def)
    ultimately show "length v < 2 ^ 31" by (rule parm_length_less)
  qed
  have scan1: "scan_nul ?b1 5 ?lst = Some ?a"
    using scan_nul_string [of dest ?h ?lst "source @ 0 # htons 0 @ htons ?np @ ?P @ htonl len @ tail @ ?z"]
      free ld unfolding b1 by simp
  have scan2: "scan_nul ?b1 (?a + 1) ?lst = Some (?a + 1 + int (length source))"
    using scan_nul_string [of source "?h @ dest @ [0]" ?lst "htons 0 @ htons ?np @ ?P @ htonl len @ tail @ ?z"]
      free ld unfolding b1 by (simp add: algebra_simps)
  have rd1: "rd_n ?b1 ?c 2 = Some (htons 0)"
    using rd_n_append_at [of ?strs "htons 0" "htons ?np @ ?P @ htonl len @ tail @ ?z"]
    unfolding b1 by (simp add: algebra_simps)
  have rd2: "rd_n ?b1 (?c + 2) 2 = Some (htons ?np)"
    using rd_n_append_at [of "?strs @ htons 0" "htons ?np" "?P @ htonl len @ tail @ ?z"]
    unfolding b1 by (simp add: algebra_simps)
  have "read_bind_parms ?b1 ?lst ?c3 (length vs) = Inr (?c4, parm_list ?c3 vs)"
    using read_bind_parms_at [OF vs, of "?strs @ htons 0 @ htons ?np" ?lst "htonl len @ tail @ ?z"] ld
    unfolding b1 by (simp add: algebra_simps)
  moreover have "rd_n ?b1 ?c4 8 = Some (htonl len @ take 4 (tail @ ?z))"
    using rd_n_htonl_8 [of "tail @ ?z" "?strs @ htons 0 @ htons ?np @ ?P" len]
    unfolding b1 by (simp add: algebra_simps del: take_append)
  then have "read_bind_parms ?b1 ?lst ?c4 1 = Inr (?c4 + 4 + sint len, [\<lparr>parm_length = len, parm_value = ?c4 + 4\<rparr>])"
    using ld neg by (simp add: Let_def guardE_def)
  ultimately obtain ps where pl: "read_bind_parms ?b1 ?lst ?c3 (length vs + 1) = Inr (?c4 + 4 + sint len, ps)"
    by (simp add: read_bind_parms_add del: One_nat_def add_Suc_right)
  have guards: "?a \<noteq> ?lst" "?a + 1 + int (length source) \<noteq> ?lst" "?c + 2 \<le> ?lst" "?c3 \<le> ?lst"
    using ld by linarith+
  have pos: "0 \<le> int (length vs + 1)" "0 \<noteq> int (length vs + 1)" by simp_all
  have at: "?c4 + 4 + sint len = 5 + int (length d) - int (length tail) + sint len"
    using ld by linarith
  have z: "sint (0 :: 16 word) = 0" by simp
  note run = read_bind_def Let_def reader_frame [OF dlen] bindE_simps prod.case rd_frame_type
    from_mem_simps scan1 scan2 rd1 ntohs_htons np rd2 pl nat_int read_format_codes.simps z
    nat_zero_as_int [symmetric] mult_zero_right add_0_right guardE_def guards pos order_refl zero_le_one
    at rd if_True if_False not_False_eq_True simp_thms
  show ?thesis
  proof (cases r)
    case None
    show ?thesis
      unfolding None option.case
      by (simp only: run None)
  next
    case (Some rb)
    then have "(0 \<le> sint (ntohs rb)) = False"
      using r by (simp add: not_le)
    then show ?thesis
      unfolding Some option.case
      by (simp only: run Some)
  qed
qed

lemma frame_bind_last:
  "frame PSQL_Bind (enc_bind_last dest source vs len tail) @ replicate 4 0 =
     (hdr PSQL_Bind (length (enc_bind_last dest source vs len tail))
       @ dest @ 0 # source @ 0 # htons 0 @ htons (of_nat (length vs + 1)) @ concat (map enc_bind_parm vs))
     @ htonl len @ tail @ replicate 4 0"
  by (simp add: frame_def enc_bind_last_def)

lemma sint_ntohs_high_bit:
  assumes "128 \<le> unat hi"
  shows "sint (ntohs [hi, lo]) < 0"
proof -
  let ?v = "unat hi * 256 + unat lo"
  have "be_nat [hi, lo] = ?v"
    by (simp add: be_nat_def)
  moreover have hi: "unat hi < 256" and lo: "unat lo < 256"
    by (rule unat_byte_less)+
  ultimately have u: "unat (ntohs [hi, lo]) = ?v"
    by (simp add: unat_ntohs)
  have "?v < 65536" "32768 \<le> ?v"
    using assms hi lo by linarith+
  then have "?v div 32768 = 1"
    by (intro div_nat_eqI) simp_all
  then have "odd (?v div 2 ^ 15)"
    by simp
  then have "bit (unat (ntohs [hi, lo])) 15"
    by (simp add: u bit_iff_odd)
  then have "bit (ntohs [hi, lo]) 15"
    by (simp add: bit_unsigned_iff)
  then show ?thesis
    using bit_last_iff [of "ntohs [hi, lo]"] by simp
qed

lemma read_bind_null_last:
  assumes "bind_last_ok dest source vs (- 1) tail"
  shows "\<exists>n < 0. read_bind (frame PSQL_Bind (enc_bind_last dest source vs (- 1) tail) @ rest) =
      Inl (ERR_INVALID_NUMBER ''Bind'' ''result column format codes'' n)"
proof -
  let ?d = "enc_bind_last dest source vs (- 1) tail"
  let ?lo = "hd (tail @ replicate 4 0)"
  let ?pre = "hdr PSQL_Bind (length ?d) @ dest @ 0 # source @ 0 # htons 0 @ htons (of_nat (length vs + 1))
      @ concat (map enc_bind_parm vs)"
  have ff: "htonl (- 1) = [255, 255, 255] @ [255 :: byte]"
    by (simp add: htonl_eval unsigned_minus_1_eq_mask mask_eq_exp_minus_1)
  have x: "tail @ replicate 4 0 = ?lo # drop 1 (tail @ replicate 4 0)"
    by (cases tail) (simp_all add: numeral_eq_Suc)
  have blk: "frame PSQL_Bind ?d @ replicate 4 0 = (?pre @ [255, 255, 255]) @ [255, ?lo] @ drop 1 (tail @ replicate 4 0)"
    unfolding frame_bind_last ff by (subst (1) x) simp
  have at: "5 + int (length ?d) - int (length tail) + sint (- 1 :: 32 word) = int (length (?pre @ [255, 255, 255]))"
    by (simp add: enc_bind_last_def)
  have rd: "rd_n (frame PSQL_Bind ?d @ replicate 4 0) (5 + int (length ?d) - int (length tail) + sint (- 1 :: 32 word)) 2
      = Some [255, ?lo]"
    unfolding at blk using rd_n_append_at [of "?pre @ [255, 255, 255]" "[255, ?lo]"]
    by (simp only: list.size add_0_left add_0_right add_Suc_right numeral_2_eq_2)
  have neg: "sint (ntohs [255, ?lo]) < 0"
    by (rule sint_ntohs_high_bit) simp
  show ?thesis
    using read_bind_last_parm [OF assms _ rd, of rest] neg by auto
qed

lemma read_bind_min_length_last:
  assumes ok: "bind_last_ok dest source vs 0x80000000 tail" and tail: "2 \<le> length tail"
  shows "read_bind (frame PSQL_Bind (enc_bind_last dest source vs 0x80000000 tail) @ rest) = Inl OUT_OF_BOUNDS"
proof -
  let ?d = "enc_bind_last dest source vs 0x80000000 tail"
  have s: "sint (0x80000000 :: 32 word) = - 2147483648"
    by simp
  have "length ?d < 2147483644"
    using ok by (simp add: bind_last_ok_def)
  then have rd: "rd_n (frame PSQL_Bind ?d @ replicate 4 0)
      (5 + int (length ?d) - int (length tail) + sint (0x80000000 :: 32 word)) 2 = None"
    unfolding s rd_n_None_iff
    using tail by (simp add: enc_bind_last_def)
  show ?thesis
    using read_bind_last_parm [OF ok _ rd, of rest] s by simp
qed

section \<open>Properties\<close>

text \<open>
  every Bind message that a client builds from values (no NULL parameter) is parsed by
  \<open>read_bind\<close> without any report, and the names, format codes and parameter values of the parsed
  structure are those that were encoded.
\<close>

theorem read_bind_roundtrip:
  assumes "bind_ok dest source fmts parms res"
  shows "\<exists>b. read_bind (frame PSQL_Bind (enc_bind dest source fmts parms res) @ rest) = Inr (b, [])
      \<and> bind_dest_str b = dest \<and> bind_source_str b = source
      \<and> bind_parm_format_codes b = fmts \<and> bind_parm_values b = parms
      \<and> bind_result_col_format_codes b = res"
  using read_bind_parsed [OF assms] parsed_bind_strings [OF assms] parsed_bind_values [OF assms] by (simp add: parsed_bind_def)

theorem read_bind_roundtrip_witness:
  "\<exists>b. read_bind (frame PSQL_Bind (enc_bind (lit ''p'') (lit ''s'') [1] [lit ''ab'', []] [0]) @ []) = Inr (b, [])
      \<and> bind_dest_str b = lit ''p'' \<and> bind_source_str b = lit ''s''
      \<and> bind_parm_format_codes b = [1] \<and> bind_parm_values b = [lit ''ab'', []]
      \<and> bind_result_col_format_codes b = [0]"
  by (rule read_bind_roundtrip) (simp add: bind_ok_def enc_bind_def ch_def)

text \<open>
  a Bind message whose last parameter is NULL (length -1) is never accepted, however many
  parameters precede it and whatever follows: the cursor moves back one byte, the count of result
  columns is read from the last byte of the length field, and the message is refused with a negative count.
\<close>

theorem read_bind_null_parameter:
  assumes "bind_last_ok dest source vs (- 1) tail"
  shows "\<exists>n < 0. read_bind (frame PSQL_Bind (enc_bind_last dest source vs (- 1) tail) @ rest) =
      Inl (ERR_INVALID_NUMBER ''Bind'' ''result column format codes'' n)"
  by (rule read_bind_null_last [OF assms])

theorem read_bind_null_parameter_witness:
  "\<exists>n < 0. read_bind (frame PSQL_Bind (enc_bind_last [] [] [] (- 1) [0, 0]) @ []) =
      Inl (ERR_INVALID_NUMBER ''Bind'' ''result column format codes'' n)"
  by (rule read_bind_null_parameter) (simp add: bind_last_ok_def enc_bind_last_def)

text \<open>
  C35: a Bind message whose last parameter has the length 0x80000000 makes \<open>read_bind\<close> read outside
  the memory of the message.
\<close>

theorem read_bind_out_of_bounds:
  assumes "bind_last_ok dest source vs 0x80000000 tail" and "2 \<le> length tail"
  shows "read_bind (frame PSQL_Bind (enc_bind_last dest source vs 0x80000000 tail) @ rest) = Inl OUT_OF_BOUNDS"
  by (rule read_bind_min_length_last [OF assms])

theorem read_bind_out_of_bounds_witness:
  "read_bind (frame PSQL_Bind (enc_bind_last (lit ''p'') (lit ''s'') [lit ''v''] 0x80000000 [0, 0]) @ []) = Inl OUT_OF_BOUNDS"
  by (rule read_bind_out_of_bounds) (simp_all add: bind_last_ok_def enc_bind_last_def ch_def)

end
