(* ===== verification/Rocto_Loop.thy ===== *)
theory Rocto_Loop
  imports Make_Laws Bind_Laws
begin

text \<open>
  The session loop \<open>rocto_main_loop.c\<close>: one iteration polls the connection, sends ReadyForQuery when
  nothing is pending, reads a message and dispatches it. The handlers of the messages are
  arguments (they run SQL against the database); the loop's own state, the order of its
  effects and its protocol state (ready flag, error flag, cursor) are modelled. The theorems say
  what each message does to that state, that after an error everything up to the next Sync is
  discarded, and that no well-formed message except Bind can make the loop leave its memory.
\<close>

section \<open>State\<close>

text \<open>
  \<open>session\<close> is what the handlers change; \<open>sent\<close> are the messages the loop itself has sent, newest first.
\<close>

record 'h loop_state =
  connection :: socket
  buffer :: bytes
  cursorId :: int
  send_ready_for_query :: bool
  extended_query_error :: bool
  terminated :: bool
  session :: 'h
  sent :: "bytes list"

text \<open>The handlers return their status and the new session; \<open>handle_execute\<close> also updates the cursor.\<close>

record 'h handlers =
  handle_query :: "Query \<Rightarrow> 'h \<Rightarrow> int \<times> 'h"
  handle_parse :: "Parse \<Rightarrow> 'h \<Rightarrow> int \<times> 'h"
  handle_bind :: "Bind \<Rightarrow> 'h \<Rightarrow> int \<times> 'h"
  handle_describe :: "Describe \<Rightarrow> 'h \<Rightarrow> int \<times> 'h"
  handle_execute :: "Execute \<Rightarrow> int \<Rightarrow> 'h \<Rightarrow> int \<times> int \<times> 'h"

definition init_state :: "socket \<Rightarrow> bytes \<Rightarrow> 'h \<Rightarrow> 'h loop_state" where
  "init_state s buf h =
     \<lparr>connection = s, buffer = buf, cursorId = - 1, send_ready_for_query = True,
      extended_query_error = False, terminated = False, session = h, sent = []\<rparr>"

section \<open>Dispatch\<close>

text \<open>
  A message of the extended protocol: a reader that fails, or a handler that returns 1, sets the error
  flag. \<open>Inl\<close> is a reader that left its memory.
\<close>

definition extended_message ::
    "(bytes \<Rightarrow> 'a res) \<Rightarrow> ('a \<Rightarrow> 'h loop_state \<Rightarrow> int \<times> 'h loop_state) \<Rightarrow> bytes \<Rightarrow> 'h loop_state \<Rightarrow> 'h loop_state res" where
  "extended_message reader handler m st =
     (case reader m of
        Inl e \<Rightarrow> if e = OUT_OF_BOUNDS then Inl e else Inr (st\<lparr>extended_query_error := True\<rparr>)
      | Inr x \<Rightarrow>
          (case handler x st of (result, st') \<Rightarrow>
             Inr (if result = 1 then st'\<lparr>extended_query_error := True\<rparr> else st')))"

definition lift_handler :: "('a \<Rightarrow> 'h \<Rightarrow> int \<times> 'h) \<Rightarrow> 'a \<Rightarrow> 'h loop_state \<Rightarrow> int \<times> 'h loop_state" where
  "lift_handler f x st = (case f x (session st) of (result, h) \<Rightarrow> (result, st\<lparr>session := h\<rparr>))"

definition execute_handler ::
    "(Execute \<Rightarrow> int \<Rightarrow> 'h \<Rightarrow> int \<times> int \<times> 'h) \<Rightarrow> Execute \<Rightarrow> 'h loop_state \<Rightarrow> int \<times> 'h loop_state" where
  "execute_handler f x st =
     (case f x (cursorId st) (session st) of (result, c, h) \<Rightarrow> (result, st\<lparr>cursorId := c, session := h\<rparr>))"

definition dispatch :: "'h handlers \<Rightarrow> bytes \<Rightarrow> 'h loop_state \<Rightarrow> 'h loop_state res" where
  "dispatch H m st =
     bindE (msg_type m) (\<lambda>ty.
     if extended_query_error st \<and> ty \<noteq> PSQL_Sync then Inr st
     else if ty = PSQL_Query then
       (case read_query m of
          Inl e \<Rightarrow> if e = OUT_OF_BOUNDS then Inl e else Inr st
        | Inr q \<Rightarrow> Inr (snd (lift_handler (handle_query H) q st)))
     else if ty = PSQL_Parse then
       extended_message read_parse (lift_handler (handle_parse H)) m (st\<lparr>send_ready_for_query := False\<rparr>)
     else if ty = PSQL_Bind then
       extended_message (\<lambda>m. map_sum id fst (read_bind m)) (lift_handler (handle_bind H)) m st
     else if ty = PSQL_Describe then
       extended_message read_describe (lift_handler (handle_describe H)) m st
     else if ty = PSQL_Execute then
       extended_message read_execute (execute_handler (handle_execute H)) m st
     else if ty = PSQL_Sync then
       Inr (st\<lparr>cursorId := - 1, send_ready_for_query := True, extended_query_error := False\<rparr>)
     else if ty = PSQL_Flush then Inr st
     else if ty = PSQL_Terminate then Inr (st\<lparr>terminated := True\<rparr>)
     else Inr st)"

section \<open>One iteration\<close>

datatype poll = Pending | Idle | Select_Failed errno

datatype 'h outcome = Running "'h loop_state" | Exited "'h loop_state" | Crashed rocto_error | Blocked

text \<open>
  \<open>chan\<close> is how the network takes the ReadyForQuery message of this iteration, if one is sent.
\<close>

definition send_ready :: "send_channel \<Rightarrow> 'h loop_state \<Rightarrow> (send_status \<times> 'h loop_state) res" where
  "send_ready chan st =
     bindE (make_ready_for_query PSQL_TransactionStatus_IDLE) (\<lambda>m.
     bindE (send_message chan m) (\<lambda>(status, out).
     Inr (status, st\<lparr>sent := m # sent st\<rparr>)))"

definition read_and_dispatch :: "(nat \<Rightarrow> byte) \<Rightarrow> 'h handlers \<Rightarrow> 'h loop_state \<Rightarrow> 'h outcome" where
  "read_and_dispatch junk H st =
     (case read_message junk (connection st) (buffer st) of
        Inl e \<Rightarrow> Crashed e
      | Inr (status, buf, s) \<Rightarrow>
          (case status of
             RB_OK \<Rightarrow>
               (case dispatch H buf (st\<lparr>connection := s, buffer := buf\<rparr>) of
                  Inl e \<Rightarrow> Crashed e
                | Inr st' \<Rightarrow> if terminated st' then Exited st' else Running st')
           | RB_BLOCKED \<Rightarrow> Blocked
           | RB_ASSERT \<Rightarrow> Crashed (ASSERT_FAILED ''bytes_to_read <= *buffer_size'')
           | _ \<Rightarrow> Exited (st\<lparr>connection := s, buffer := buf\<rparr>)))"

definition loop_iteration ::
    "(nat \<Rightarrow> byte) \<Rightarrow> 'h handlers \<Rightarrow> poll \<times> send_channel \<Rightarrow> 'h loop_state \<Rightarrow> 'h outcome" where
  "loop_iteration junk H io st =
     (case io of (pl, chan) \<Rightarrow>
      case pl of
        Select_Failed e \<Rightarrow> Exited st
      | Pending \<Rightarrow> read_and_dispatch junk H st
      | Idle \<Rightarrow>
          if send_ready_for_query st then
            (case send_ready chan st of
               Inl e \<Rightarrow> Crashed e
             | Inr (Send_Returned r errs, st') \<Rightarrow> if r \<noteq> 0 then Exited st' else read_and_dispatch junk H st'
             | Inr (Send_Blocked, st') \<Rightarrow> Blocked)
          else read_and_dispatch junk H st)"

text \<open>The loop, one element of the list per iteration; \<open>Running\<close> at the end of the list means it goes on.\<close>

fun rocto_main_loop ::
    "(nat \<Rightarrow> byte) \<Rightarrow> 'h handlers \<Rightarrow> (poll \<times> send_channel) list \<Rightarrow> 'h loop_state \<Rightarrow> 'h outcome" where
  "rocto_main_loop junk H [] st = Running st"
| "rocto_main_loop junk H (io # ios) st =
     (case loop_iteration junk H io st of
        Running st' \<Rightarrow> rocto_main_loop junk H ios st'
      | r \<Rightarrow> r)"

section \<open>The receive buffer\<close>

lemma read_bytes_length: "length (fst (snd (read_bytes junk s buf n False))) = length buf"
proof (cases "n < 0 \<or> int (length buf) < n")
  case True
  then show ?thesis by (auto simp: read_bytes_def Let_def)
next
  case False
  obtain st got s' where r: "recv_socket (nat n) s = (st, got, s')" by (cases "recv_socket (nat n) s") auto
  then have "got = take (nat n) (sock_stream s)"
    using sock.received [of "nat n" s] by simp
  then have "length got \<le> nat n" by simp
  with False r show ?thesis by (auto simp: read_bytes_def Let_def)
qed

lemma int32_less: "int32 x < 2 ^ 31"
  using sint_less [of "of_int x :: 32 word"] by (simp add: int32_def)

lemma read_message_buffer:
  assumes "read_message junk s buf = Inr (st, b, s')" "length buf < 2 ^ 31"
  shows "length b < 2 ^ 31"
proof (cases "5 \<le> length (sock_stream s)")
  case False
  have g: "length (grow_buffer buf junk) < 2 ^ 31" using assms(2) by (simp add: grow_buffer_def)
  obtain st1 b1 s1 where rb: "read_bytes junk s (grow_buffer buf junk) 5 False = (st1, b1, s1)"
    by (cases "read_bytes junk s (grow_buffer buf junk) 5 False") auto
  have "5 \<le> length (grow_buffer buf junk)" by (simp add: grow_buffer_def)
  with read_bytes_short [of s 5 "grow_buffer buf junk" junk] False rb have "st1 = sock_end s" by auto
  then have "st1 \<noteq> RB_OK" using sock.fin_not_OK by simp
  with assms(1) rb have "b = b1" by (simp add: read_message_def Let_def)
  moreover have "length b1 = length (grow_buffer buf junk)"
    using read_bytes_length [of junk s "grow_buffer buf junk" 5] rb by simp
  ultimately show ?thesis using g by simp
next
  case True
  let ?L = "int (stream_len (sock_stream s))"
  obtain s2 where rm: "read_message junk s buf =
        (let n = int32 (?L - 4) in
         bindE
            (if n > int (length (grow_buffer buf junk)) - 5 then
               bindE (guardE (0 \<le> int32 (?L + 2)) (MALLOC_FAILED (int32 (?L + 2)))) (\<lambda>_.
               Inr (drop 5 (malloc junk (nat (int32 (?L + 2))))))
             else Inr (drop 5 (grow_buffer buf junk)))
            (\<lambda>b3. case read_bytes junk s2 b3 n False of
               (st, body, s3) \<Rightarrow> Inr (st, take 5 (sock_stream s) @ body, s3)))"
    using read_message_header [OF True, of junk buf] by blast
  from assms(1) obtain b3 where "(if int32 (?L - 4) > int (length (grow_buffer buf junk)) - 5 then
               bindE (guardE (0 \<le> int32 (?L + 2)) (MALLOC_FAILED (int32 (?L + 2)))) (\<lambda>_.
               Inr (drop 5 (malloc junk (nat (int32 (?L + 2))))))
             else Inr (drop 5 (grow_buffer buf junk))) = (Inr b3 :: bytes res)"
    and rb: "(case read_bytes junk s2 b3 (int32 (?L - 4)) False of
               (st, body, s3) \<Rightarrow> Inr (st, take 5 (sock_stream s) @ body, s3)) = (Inr (st, b, s') :: (rb_status \<times> bytes \<times> socket) res)"
    unfolding rm Let_def bindE_Inr_iff by blast
  then have b3: "b3 = drop 5 (malloc junk (nat (int32 (?L + 2)))) \<or> b3 = drop 5 (grow_buffer buf junk)"
    by (auto simp: bindE_Inr_iff split: if_splits)
  have "length b = 5 + length b3"
    using rb read_bytes_length [of junk s2 b3 "int32 (?L - 4)"] True by (auto split: prod.splits)
  moreover have "nat (int32 (?L + 2)) < 2 ^ 31" using int32_less [of "?L + 2"] by simp
  ultimately show ?thesis
    using b3 assms(2) by (auto simp: grow_buffer_def split: if_splits)
qed

lemma sock_end_not_ASSERT: "sock_end s \<noteq> RB_ASSERT"
proof -
  have "recv_end rs \<noteq> RB_ASSERT" for rs
    by (induction rs rule: recv_end.induct) simp_all
  moreover have "tls_end rs \<noteq> RB_ASSERT" for rs
    by (induction rs rule: tls_end.induct) simp_all
  ultimately show ?thesis by (cases s) (simp_all add: sock_end_def)
qed

lemma read_message_status:
  "(\<exists>n < 0. read_message junk s buf = Inl (MALLOC_FAILED n))
   \<or> (\<exists>st b s'. read_message junk s buf = Inr (st, b, s') \<and> st \<noteq> RB_ASSERT)"
proof -
  let ?L = "stream_len (sock_stream s)" and ?g = "length (grow_buffer buf junk)"
  consider "length (sock_stream s) < 5"
    | "5 \<le> length (sock_stream s)" "?L < 4 \<or> 2 ^ 31 + 4 \<le> ?L"
    | "5 \<le> length (sock_stream s)" "2 ^ 31 - 2 \<le> ?L" "?L < 2 ^ 31 + 4" "?g \<le> ?L"
    | "5 \<le> length (sock_stream s)" "4 \<le> ?L" "?L < 2 ^ 31 - 2 \<or> ?L < ?g \<and> ?L < 2 ^ 31 + 4"
    by fastforce
  then show ?thesis
  proof cases
    case 1
    then show ?thesis using read_message_no_header [of s junk buf] sock_end_not_ASSERT by blast
  next
    case 2
    then show ?thesis using read_message_bad_length [of s junk buf] by blast
  next
    case 3
    then show ?thesis using read_message_unallocatable [of s buf junk] by blast
  next
    case 4
    then show ?thesis
      using read_message_complete [of s buf junk] read_message_incomplete [of s buf junk] sock_end_not_ASSERT
      by (cases "?L + 1 \<le> length (sock_stream s)") force+
  qed
qed

lemma read_message_cases:
  assumes "length buf < 2 ^ 31"
  obtains (malloc) n where "n < 0" "read_message junk s buf = Inl (MALLOC_FAILED n)"
  | (fail) st b s' where "read_message junk s buf = Inr (st, b, s')" "st \<noteq> RB_OK" "st \<noteq> RB_ASSERT" "length b < 2 ^ 31"
  | (message) t d rest s' where "read_message junk s buf = Inr (RB_OK, frame t d @ rest, s')"
      "sock_stream s = frame t d @ sock_stream s'" "length d < 2 ^ 31 - 4" "length (frame t d @ rest) < 2 ^ 31"
proof (cases "read_message junk s buf")
  case (Inl e)
  then show ?thesis using read_message_status [of junk s buf] malloc by fastforce
next
  case (Inr r)
  obtain st b s' where r: "r = (st, b, s')" by (cases r) auto
  with Inr have rm: "read_message junk s buf = Inr (st, b, s')" by simp
  note len = read_message_buffer [OF rm assms]
  show ?thesis
  proof (cases "st = RB_OK")
    case True
    with read_message_next [of junk s buf b s'] rm assms len message show ?thesis by blast
  next
    case False
    have "st \<noteq> RB_ASSERT" using read_message_status [of junk s buf] rm by auto
    with fail rm False len show ?thesis by blast
  qed
qed

section \<open>Dispatch never leaves memory, Bind excepted\<close>

context message_reader
begin

lemma extended_message_safe: "wf_message m \<Longrightarrow> \<exists>st'. extended_message read handler m st = Inr st'"
  using safe [of m]
  by (auto simp: extended_message_def split: sum.splits prod.splits)

end

lemma dispatch_safe:
  assumes "length d < 2 ^ 31 - 4" "t \<noteq> PSQL_Bind \<or> extended_query_error st"
  shows "\<exists>st'. dispatch H (frame t d @ rest) st = Inr st'"
proof -
  have wf: "wf_message (frame t d @ rest)" by (rule wf_frame [OF assms(1)])
  have query: "\<exists>st'. (case read_query (frame t d @ rest) of Inl e \<Rightarrow> if e = OUT_OF_BOUNDS then Inl e else Inr st
        | Inr q \<Rightarrow> Inr (snd (lift_handler (handle_query H) q st))) = (Inr st' :: 'a loop_state res)"
    using query_reader.safe [OF wf] by (auto split: sum.splits)
  have bind: "\<not> (extended_query_error st \<and> t \<noteq> PSQL_Sync) \<Longrightarrow> t = PSQL_Bind \<Longrightarrow> P" for P
    using assms(2) by (auto simp: psql_type_defs ch_def)
  show ?thesis
    unfolding dispatch_def msg_type_frame bindE_simps
    by (intro if_intro [where P = "\<lambda>x. \<exists>st'. x = Inr st'"] query parse_reader.extended_message_safe
        describe_reader.extended_message_safe execute_reader.extended_message_safe wf)
      ((rule exI, rule refl) | (erule bind, assumption))+
qed

lemma ready_message: "make_ready_for_query PSQL_TransactionStatus_IDLE = Inr (frame PSQL_ReadyForQuery [ch CHR ''I''])"
  using ready.made [of PSQL_TransactionStatus_IDLE] by simp

lemma send_ready_total:
  "\<exists>status. send_ready chan st = Inr (status, st\<lparr>sent := frame PSQL_ReadyForQuery [ch CHR ''I''] # sent st\<rparr>)"
proof -
  let ?m = "frame PSQL_ReadyForQuery [ch CHR ''I'']"
  have "\<exists>status out. send_message chan ?m = Inr (status, out)"
  proof (cases chan)
    case (Plain_Out rs)
    then show ?thesis
      using send_message_plain [of "[ch CHR ''I'']" rs PSQL_ReadyForQuery "[]"]
      by (auto split: prod.splits send_status.splits)
  next
    case (TLS_Out r)
    have "msg_type ?m = Inr PSQL_ReadyForQuery" "msg_length ?m = Inr 5"
      using frame_fields [of "[ch CHR ''I'']" PSQL_ReadyForQuery "[]"] by simp_all
    moreover have "unat (ucast ((5 :: 32 word) + 1) :: 64 word) = 6" by simp
    moreover have "rd_n ?m 0 6 = Some ?m" by (simp add: rd_n_def)
    ultimately show ?thesis
      unfolding send_message_def send_bytes_def TLS_Out send_channel.case
      by (auto split: tls_send_result.splits errno.splits)
  qed
  then show ?thesis
    unfolding send_ready_def ready_message bindE_simps by auto
qed

section \<open>Reachable states\<close>

inductive reachable :: "(nat \<Rightarrow> byte) \<Rightarrow> 'h handlers \<Rightarrow> 'h loop_state \<Rightarrow> 'h loop_state \<Rightarrow> bool"
  for junk H st0 where
  start: "reachable junk H st0 st0"
| step: "reachable junk H st0 st \<Longrightarrow> loop_iteration junk H io st = Running st' \<Longrightarrow> reachable junk H st0 st'"

lemma lift_handler_frame:
  "lift_handler f x st = (r, st') \<Longrightarrow> buffer st' = buffer st \<and> connection st' = connection st
     \<and> terminated st' = terminated st \<and> cursorId st' = cursorId st \<and> sent st' = sent st
     \<and> send_ready_for_query st' = send_ready_for_query st \<and> extended_query_error st' = extended_query_error st"
  by (auto simp: lift_handler_def split: prod.splits)

lemma execute_handler_frame:
  "execute_handler f x st = (r, st') \<Longrightarrow> buffer st' = buffer st \<and> connection st' = connection st
     \<and> terminated st' = terminated st \<and> sent st' = sent st
     \<and> send_ready_for_query st' = send_ready_for_query st \<and> extended_query_error st' = extended_query_error st"
  by (auto simp: execute_handler_def split: prod.splits)

lemma extended_message_frame:
  assumes "extended_message reader handler m st = Inr st'"
    and "\<And>x r st'. handler x st = (r, st') \<Longrightarrow> buffer st' = buffer st \<and> connection st' = connection st
      \<and> terminated st' = terminated st \<and> sent st' = sent st \<and> send_ready_for_query st' = send_ready_for_query st"
  shows "buffer st' = buffer st \<and> connection st' = connection st \<and> terminated st' = terminated st
    \<and> sent st' = sent st \<and> send_ready_for_query st' = send_ready_for_query st"
proof (cases "reader m")
  case (Inl e)
  then show ?thesis using assms(1) by (auto simp: extended_message_def split: if_splits)
next
  case (Inr x)
  obtain r s where "handler x st = (r, s)" by (cases "handler x st") auto
  with Inr assms(1) assms(2) [OF this] show ?thesis
    by (auto simp: extended_message_def split: if_splits)
qed

lemma extended_lift_frame:
  assumes "extended_message reader (lift_handler f) m st = Inr st'"
  shows "buffer st' = buffer st \<and> connection st' = connection st \<and> terminated st' = terminated st
    \<and> sent st' = sent st \<and> send_ready_for_query st' = send_ready_for_query st"
  by (rule extended_message_frame [OF assms]) (simp add: lift_handler_frame)

lemma extended_execute_frame:
  assumes "extended_message reader (execute_handler f) m st = Inr st'"
  shows "buffer st' = buffer st \<and> connection st' = connection st \<and> terminated st' = terminated st
    \<and> sent st' = sent st \<and> send_ready_for_query st' = send_ready_for_query st"
  by (rule extended_message_frame [OF assms]) (simp add: execute_handler_frame)

lemma query_frame:
  assumes "(case read_query m of Inl e \<Rightarrow> if e = OUT_OF_BOUNDS then Inl e else Inr st
      | Inr q \<Rightarrow> Inr (snd (lift_handler f q st))) = Inr st'"
  shows "buffer st' = buffer st \<and> connection st' = connection st \<and> terminated st' = terminated st
    \<and> sent st' = sent st \<and> send_ready_for_query st' = send_ready_for_query st"
  using assms by (auto simp: lift_handler_def split: sum.splits if_splits prod.splits)

lemmas message_frames = extended_lift_frame extended_execute_frame query_frame

text \<open>No message changes the receive buffer, the connection or what was sent; only Terminate ends the loop.\<close>

lemma dispatch_frame:
  assumes "dispatch H m st = Inr st'" "msg_type m = Inr t"
  shows "buffer st' = buffer st \<and> connection st' = connection st \<and> sent st' = sent st
    \<and> (terminated st' \<longrightarrow> terminated st \<or> t = PSQL_Terminate)"
proof -
  consider "Inr st = Inr st'" | "(case read_query m of Inl e \<Rightarrow> if e = OUT_OF_BOUNDS then Inl e else Inr st
      | Inr q \<Rightarrow> Inr (snd (lift_handler (handle_query H) q st))) = Inr st'"
    | "extended_message read_parse (lift_handler (handle_parse H)) m (st\<lparr>send_ready_for_query := False\<rparr>) = Inr st'"
    | "extended_message (\<lambda>m. map_sum id fst (read_bind m)) (lift_handler (handle_bind H)) m st = Inr st'"
    | "extended_message read_describe (lift_handler (handle_describe H)) m st = Inr st'"
    | "extended_message read_execute (execute_handler (handle_execute H)) m st = Inr st'"
    | "st' = st\<lparr>cursorId := - 1, send_ready_for_query := True, extended_query_error := False\<rparr>"
    | "st' = st\<lparr>terminated := True\<rparr>" "t = PSQL_Terminate"
    using assms(1) unfolding dispatch_def assms(2) bindE_simps by (elim if_eqE) blast+
  then show ?thesis
    by cases (auto dest: message_frames)
qed

lemma read_and_dispatch_cases:
  assumes "length (buffer st) < 2 ^ 31"
  obtains (malloc) n where "n < 0" "read_and_dispatch junk H st = Crashed (MALLOC_FAILED n)"
  | (closed) st' where "read_and_dispatch junk H st = Exited st' \<or> read_and_dispatch junk H st = Blocked"
  | (message) t d rest s' where "sock_stream (connection st) = frame t d @ sock_stream s'" "length d < 2 ^ 31 - 4"
      "length (frame t d @ rest) < 2 ^ 31"
      "read_and_dispatch junk H st =
        (case dispatch H (frame t d @ rest) (st\<lparr>connection := s', buffer := frame t d @ rest\<rparr>) of
           Inl e \<Rightarrow> Crashed e | Inr st' \<Rightarrow> if terminated st' then Exited st' else Running st')"
  using assms
proof (cases rule: read_message_cases [of "buffer st" junk "connection st"])
  case (malloc n)
  with that(1) show ?thesis by (simp add: read_and_dispatch_def)
next
  case (fail st' b s')
  then show ?thesis using that(2) by (cases st') (auto simp: read_and_dispatch_def)
next
  case (message t d rest s')
  with that(3) show ?thesis by (simp add: read_and_dispatch_def)
qed

text \<open>What the loop keeps: the buffer size fits its \<open>int32_t\<close> variable and a running loop is not terminated.\<close>

definition loop_inv :: "'h loop_state \<Rightarrow> bool" where
  "loop_inv st \<longleftrightarrow> length (buffer st) < 2 ^ 31 \<and> \<not> terminated st"

lemma read_and_dispatch_inv:
  assumes "loop_inv st" "read_and_dispatch junk H st = Running st'"
  shows "loop_inv st'"
proof -
  have b: "length (buffer st) < 2 ^ 31" using assms(1) by (simp add: loop_inv_def)
  show ?thesis
    using b
  proof (cases rule: read_and_dispatch_cases [of st junk H])
    case (message t d rest s')
    let ?st = "st\<lparr>connection := s', buffer := frame t d @ rest\<rparr>"
    from message(4) assms(2) have "dispatch H (frame t d @ rest) ?st = Inr st'" "\<not> terminated st'"
      by (auto split: sum.splits if_splits)
    with dispatch_frame [OF this(1) msg_type_frame] message(3) show ?thesis
      by (auto simp: loop_inv_def)
  qed (use assms(2) in auto)
qed

lemma loop_iteration_inv:
  assumes "loop_inv st" "loop_iteration junk H io st = Running st'"
  shows "loop_inv st'"
proof -
  obtain pl chan where io: "io = (pl, chan)" by (cases io)
  obtain status where s: "send_ready chan st = Inr (status, st\<lparr>sent := frame PSQL_ReadyForQuery [ch CHR ''I''] # sent st\<rparr>)"
    using send_ready_total by blast
  have "loop_inv (st\<lparr>sent := x\<rparr>)" for x using assms(1) by (simp add: loop_inv_def)
  then show ?thesis
    using assms read_and_dispatch_inv [of st junk H st']
      read_and_dispatch_inv [of "st\<lparr>sent := frame PSQL_ReadyForQuery [ch CHR ''I''] # sent st\<rparr>" junk H st'] s
    by (auto simp: loop_iteration_def io split: poll.splits if_splits send_status.splits)
qed

lemma reachable_inv: "reachable junk H st0 st \<Longrightarrow> loop_inv st0 \<Longrightarrow> loop_inv st"
  by (induction rule: reachable.induct) (auto intro: loop_iteration_inv)

lemma read_and_dispatch_crash:
  assumes "loop_inv st" "read_and_dispatch junk H st = Crashed e"
  shows "(\<exists>n < 0. e = MALLOC_FAILED n) \<or>
    (\<not> extended_query_error st \<and> (\<exists>d next_bytes. sock_stream (connection st) = frame PSQL_Bind d @ next_bytes))"
proof -
  have b: "length (buffer st) < 2 ^ 31" using assms(1) by (simp add: loop_inv_def)
  show ?thesis
    using b
  proof (cases rule: read_and_dispatch_cases [of st junk H])
    case (message t d rest s')
    let ?st = "st\<lparr>connection := s', buffer := frame t d @ rest\<rparr>"
    have "\<not> (t \<noteq> PSQL_Bind \<or> extended_query_error ?st)"
    proof
      assume "t \<noteq> PSQL_Bind \<or> extended_query_error ?st"
      from dispatch_safe [OF message(2) this] obtain st' where "dispatch H (frame t d @ rest) ?st = Inr st'"
        by blast
      with message(4) assms(2) show False by (simp split: if_splits)
    qed
    with message(1) show ?thesis by auto
  qed (use assms(2) in auto)
qed

section \<open>Discarding until Sync\<close>

lemma read_and_dispatch_message:
  assumes "sock_stream (connection st) = frame t d @ next_bytes" "length d < 2 ^ 31 - 6"
  shows "\<exists>rest s'. sock_stream s' = next_bytes \<and> read_and_dispatch junk H st =
      (case dispatch H (frame t d @ rest) (st\<lparr>connection := s', buffer := frame t d @ rest\<rparr>) of
         Inl e \<Rightarrow> Crashed e | Inr st' \<Rightarrow> if terminated st' then Exited st' else Running st')"
proof -
  have d: "length d < 2 ^ 31 - 4" using assms(2) by simp
  have "stream_len (frame t d @ next_bytes) = length d + 4"
    using unat_frame_length [OF d] by (simp add: stream_len_def frame_def hdr_def)
  then obtain rest s' where "read_message junk (connection st) (buffer st) = Inr (RB_OK, frame t d @ rest, s')"
    "sock_stream s' = next_bytes"
    using read_message_complete [of "connection st" "buffer st" junk] assms by auto
  then show ?thesis by (auto simp: read_and_dispatch_def)
qed

definition sync_state :: "'h loop_state \<Rightarrow> bool" where
  "sync_state st \<longleftrightarrow> cursorId st = - 1 \<and> send_ready_for_query st \<and> \<not> extended_query_error st"

lemma loop_pending: "loop_iteration junk H (Pending, chan) st = read_and_dispatch junk H st"
  by (simp add: loop_iteration_def)

lemma sync_step:
  assumes "sock_stream (connection st) = frame PSQL_Sync d @ next_bytes" "length d < 2 ^ 31 - 6" "\<not> terminated st"
  shows "\<exists>st'. read_and_dispatch junk H st = Running st' \<and> sync_state st' \<and> session st' = session st
    \<and> sent st' = sent st \<and> \<not> terminated st' \<and> sock_stream (connection st') = next_bytes"
proof -
  have letters: "PSQL_Sync \<noteq> PSQL_Query" "PSQL_Sync \<noteq> PSQL_Parse" "PSQL_Sync \<noteq> PSQL_Bind"
    "PSQL_Sync \<noteq> PSQL_Describe" "PSQL_Sync \<noteq> PSQL_Execute"
    by (simp_all add: psql_type_defs ch_def)
  obtain rest s' where s': "sock_stream s' = next_bytes" and
    r: "read_and_dispatch junk H st =
      (case dispatch H (frame PSQL_Sync d @ rest) (st\<lparr>connection := s', buffer := frame PSQL_Sync d @ rest\<rparr>) of
         Inl e \<Rightarrow> Crashed e | Inr st' \<Rightarrow> if terminated st' then Exited st' else Running st')"
    using read_and_dispatch_message [OF assms(1,2)] by blast
  show ?thesis
    using assms(3) s' by (simp add: r dispatch_def msg_type_frame letters sync_state_def)
qed

lemma discard_step:
  assumes "sock_stream (connection st) = frame t d @ next_bytes" "length d < 2 ^ 31 - 6" "\<not> terminated st"
    and "extended_query_error st" "t \<noteq> PSQL_Sync"
  shows "\<exists>st'. read_and_dispatch junk H st = Running st' \<and> extended_query_error st' \<and> session st' = session st
    \<and> sent st' = sent st \<and> \<not> terminated st' \<and> sock_stream (connection st') = next_bytes"
proof -
  obtain rest s' where s': "sock_stream s' = next_bytes" and
    r: "read_and_dispatch junk H st =
      (case dispatch H (frame t d @ rest) (st\<lparr>connection := s', buffer := frame t d @ rest\<rparr>) of
         Inl e \<Rightarrow> Crashed e | Inr st' \<Rightarrow> if terminated st' then Exited st' else Running st')"
    using read_and_dispatch_message [OF assms(1,2)] by blast
  show ?thesis
    using assms(3-5) s' by (simp add: r dispatch_def msg_type_frame)
qed

lemma discard_until_sync_run:
  assumes "\<forall>(t, d)\<in>set ms. t \<noteq> PSQL_Sync \<and> length d < 2 ^ 31 - 6" "\<forall>io\<in>set ios. fst io = Pending"
    and "length ios = length ms + 1" "extended_query_error st" "\<not> terminated st" "length e < 2 ^ 31 - 6"
    and "sock_stream (connection st) = concat (map (\<lambda>(t, d). frame t d) ms) @ frame PSQL_Sync e @ next_bytes"
  shows "\<exists>st'. rocto_main_loop junk H ios st = Running st' \<and> sync_state st' \<and> session st' = session st
    \<and> sent st' = sent st \<and> \<not> terminated st' \<and> sock_stream (connection st') = next_bytes"
  using assms
proof (induction ms arbitrary: ios st)
  case Nil
  then obtain c where "ios = [(Pending, c)]" by (cases ios) auto
  with Nil.prems sync_step [of st e next_bytes junk H] show ?case by (auto simp: loop_pending)
next
  case (Cons m ms)
  obtain t d where m: "m = (t, d)" by (cases m)
  obtain c ios' where ios: "ios = (Pending, c) # ios'" using Cons.prems(2,3) by (cases ios) auto
  obtain st1 where st1: "read_and_dispatch junk H st = Running st1" "extended_query_error st1" "session st1 = session st"
    "sent st1 = sent st" "\<not> terminated st1"
    "sock_stream (connection st1) = concat (map (\<lambda>(t, d). frame t d) ms) @ frame PSQL_Sync e @ next_bytes"
    using discard_step [of st t d _ junk H] Cons.prems m by force
  have "\<exists>st'. rocto_main_loop junk H ios' st1 = Running st' \<and> sync_state st' \<and> session st' = session st1
    \<and> sent st' = sent st1 \<and> \<not> terminated st' \<and> sock_stream (connection st') = next_bytes"
    using Cons.prems st1 ios by (intro Cons.IH) auto
  with st1 ios show ?case by (auto simp: loop_pending)
qed

section \<open>Effects of single messages\<close>

lemma loop_iteration_sent:
  assumes "loop_inv st" "loop_iteration junk H (pl, chan) st = Running st'"
  shows "sent st' = (if pl = Idle \<and> send_ready_for_query st
      then frame PSQL_ReadyForQuery [ch CHR ''I''] # sent st else sent st)"
proof -
  have keep: "sent s' = sent s" if "loop_inv s" "read_and_dispatch junk H s = Running s'" for s s' :: "'a loop_state"
  proof -
    have b: "length (buffer s) < 2 ^ 31" using that(1) by (simp add: loop_inv_def)
    show ?thesis
      using b
    proof (cases rule: read_and_dispatch_cases [of s junk H])
      case (message t d rest c)
      let ?st = "s\<lparr>connection := c, buffer := frame t d @ rest\<rparr>"
      from message(4) that(2) have "dispatch H (frame t d @ rest) ?st = Inr s'"
        by (auto split: sum.splits if_splits)
      with dispatch_frame [OF this msg_type_frame] show ?thesis by auto
    qed (use that(2) in auto)
  qed
  let ?r = "st\<lparr>sent := frame PSQL_ReadyForQuery [ch CHR ''I''] # sent st\<rparr>"
  have "loop_inv ?r" using assms(1) by (simp add: loop_inv_def)
  moreover obtain status where "send_ready chan st = Inr (status, ?r)"
    using send_ready_total by blast
  ultimately show ?thesis
    using assms keep [of st st'] keep [of ?r st']
    by (auto simp: loop_iteration_def split: poll.splits if_splits send_status.splits)
qed

lemma parse_step:
  assumes "sock_stream (connection st) = frame PSQL_Parse d @ next_bytes" "length d < 2 ^ 31 - 6"
    and "\<not> terminated st" "\<not> extended_query_error st"
  shows "\<exists>rest st'. read_and_dispatch junk H st = Running st' \<and> \<not> send_ready_for_query st'
    \<and> sock_stream (connection st') = next_bytes
    \<and> (case read_parse (frame PSQL_Parse d @ rest) of
         Inl e \<Rightarrow> extended_query_error st' \<and> session st' = session st
       | Inr p \<Rightarrow> (case handle_parse H p (session st) of
           (result, h) \<Rightarrow> session st' = h \<and> extended_query_error st' = (result = 1)))"
proof -
  have letters: "PSQL_Parse \<noteq> PSQL_Query" by (simp add: psql_type_defs ch_def)
  obtain rest s' where s': "sock_stream s' = next_bytes" and
    r: "read_and_dispatch junk H st =
      (case dispatch H (frame PSQL_Parse d @ rest) (st\<lparr>connection := s', buffer := frame PSQL_Parse d @ rest\<rparr>) of
         Inl e \<Rightarrow> Crashed e | Inr st' \<Rightarrow> if terminated st' then Exited st' else Running st')"
    using read_and_dispatch_message [OF assms(1,2)] by blast
  let ?m = "frame PSQL_Parse d @ rest"
  have "read_parse ?m \<noteq> Inl OUT_OF_BOUNDS"
    using parse_reader.safe [OF wf_frame, of d] assms(2) by simp
  then show ?thesis
    using assms(3,4) s'
    by (intro exI [of _ rest], cases "read_parse ?m")
      (auto simp: r dispatch_def msg_type_frame letters extended_message_def lift_handler_def split: prod.splits)
qed

section \<open>Properties\<close>

text \<open>
  C5: memory safety of the session loop: in every state that a session can reach, an iteration goes
  wrong in two ways only, the negative allocation of \<open>read_message\<close> or a Bind message; no
  other message, well-formed or not, takes a reader out of its memory.
\<close>

theorem main_loop_memory_safe:
  assumes "reachable junk H (init_state s buf h) st" and "length buf < 2 ^ 31"
    and "loop_iteration junk H io st = Crashed e"
  shows "(\<exists>n < 0. e = MALLOC_FAILED n)
    \<or> (\<exists>d next_bytes. sock_stream (connection st) = frame PSQL_Bind d @ next_bytes)"
proof -
  have "loop_inv (init_state s buf h)" using assms(2) by (simp add: loop_inv_def init_state_def)
  with reachable_inv [OF assms(1)] have inv: "loop_inv st" by blast
  obtain pl chan where io: "io = (pl, chan)" by (cases io)
  let ?r = "st\<lparr>sent := frame PSQL_ReadyForQuery [ch CHR ''I''] # sent st\<rparr>"
  obtain status where "send_ready chan st = Inr (status, ?r)" using send_ready_total by blast
  moreover have "loop_inv ?r" using inv by (simp add: loop_inv_def)
  ultimately show ?thesis
    using assms(3) inv read_and_dispatch_crash [of st junk H e] read_and_dispatch_crash [of ?r junk H e]
    by (auto simp: loop_iteration_def io split: poll.splits if_splits send_status.splits)
qed

definition null_handlers :: "nat handlers" where
  "null_handlers = \<lparr>handle_query = \<lambda>_ h. (0, h + 1), handle_parse = \<lambda>_ h. (0, h + 1), handle_bind = \<lambda>_ h. (0, h + 1),
     handle_describe = \<lambda>_ h. (0, h + 1), handle_execute = \<lambda>_ c h. (0, c, h + 1)\<rparr>"

lemma oversized_message_crashes:
  "\<exists>n < 0. loop_iteration (\<lambda>_. 0) null_handlers (Pending, Plain_Out [])
     (init_state (Plain [Got [81, 127, 255, 255, 254]]) [] 0) = Crashed (MALLOC_FAILED n)"
proof -
  let ?s = "Plain [Got [81, 127, 255, 255, 254]]"
  have "stream_len (sock_stream ?s) = 2 ^ 31 - 2" "length (sock_stream ?s) = 5"
    by (simp_all add: sock_stream_def stream_len_def ntohl_def be_nat_def)
  then obtain n where "n < 0" "read_message (\<lambda>_. 0) ?s [] = Inl (MALLOC_FAILED n)"
    using read_message_unallocatable [of ?s "[]" "\<lambda>_. 0"] by (auto simp: grow_buffer_def)
  then show ?thesis
    by (auto simp: loop_pending read_and_dispatch_def init_state_def)
qed

theorem main_loop_memory_safe_witness:
  "\<exists>e. loop_iteration (\<lambda>_. 0) null_handlers (Pending, Plain_Out [])
      (init_state (Plain [Got [81, 127, 255, 255, 254]]) [] 0) = Crashed e
    \<and> ((\<exists>n < 0. e = MALLOC_FAILED n)
      \<or> (\<exists>d next_bytes. sock_stream (Plain [Got [81, 127, 255, 255, 254]]) = frame PSQL_Bind d @ next_bytes))"
proof -
  let ?st = "init_state (Plain [Got [81, 127, 255, 255, 254]]) [] (0 :: nat)"
  obtain n where n: "loop_iteration (\<lambda>_. 0) null_handlers (Pending, Plain_Out []) ?st = Crashed (MALLOC_FAILED n)"
    using oversized_message_crashes by blast
  with main_loop_memory_safe [OF reachable.start _ n] show ?thesis
    by (auto simp: init_state_def)
qed

text \<open>
  C6: recovery after an error: once the error flag is set, the loop discards every message up to the
  next Sync without calling a handler, and the Sync restores the ready state with no cursor; the
  session is as it was when the error occurred and the connection is at the message after the Sync.
\<close>

theorem discard_until_sync:
  assumes "\<forall>(t, d)\<in>set ms. t \<noteq> PSQL_Sync \<and> length d < 2 ^ 31 - 6" and "\<forall>io\<in>set ios. fst io = Pending"
    and "length ios = length ms + 1" and "extended_query_error st" and "\<not> terminated st"
    and "sock_stream (connection st) = concat (map (\<lambda>(t, d). frame t d) ms) @ frame PSQL_Sync [] @ next_bytes"
  shows "\<exists>st'. rocto_main_loop junk H ios st = Running st' \<and> session st' = session st
    \<and> cursorId st' = - 1 \<and> send_ready_for_query st' \<and> \<not> extended_query_error st' \<and> sent st' = sent st
    \<and> sock_stream (connection st') = next_bytes"
proof -
  have "length ([] :: bytes) < 2 ^ 31 - 6" by simp
  from discard_until_sync_run [OF assms(1-5) this assms(6), of junk H] show ?thesis
    by (auto simp: sync_state_def)
qed

theorem discard_until_sync_witness:
  "\<exists>st'. rocto_main_loop (\<lambda>_. 0) null_handlers [(Pending, Plain_Out []), (Pending, Plain_Out [])]
      ((init_state (Plain [Got (frame 81 [0]), Got (frame 83 [])]) [] 7)\<lparr>extended_query_error := True\<rparr>) = Running st'
    \<and> session st' = 7 \<and> cursorId st' = - 1 \<and> send_ready_for_query st' \<and> \<not> extended_query_error st' \<and> sent st' = []
    \<and> sock_stream (connection st') = []"
proof -
  let ?st = "(init_state (Plain [Got (frame 81 [0]), Got (frame 83 [])]) [] (7 :: nat))\<lparr>extended_query_error := True\<rparr>"
  have "sock_stream (connection ?st) = concat (map (\<lambda>(t, d). frame t d) [(81, [0])]) @ frame PSQL_Sync [] @ []"
    by (simp add: init_state_def sock_stream_def recv_stream_Got PSQL_Sync_def ch_def frame_def hdr_def)
  from discard_until_sync [OF _ _ _ _ _ this, of "[(Pending, Plain_Out []), (Pending, Plain_Out [])]" "\<lambda>_. 0" null_handlers]
  show ?thesis by (simp add: init_state_def PSQL_Sync_def ch_def)
qed

text \<open>
  ReadyForQuery is sent by an iteration if and only if nothing is pending on the connection and the
  ready flag is set; nothing else is sent by the loop itself.
\<close>

theorem ready_for_query_exactly_when_idle:
  assumes "reachable junk H (init_state s buf h) st" and "length buf < 2 ^ 31"
    and "loop_iteration junk H (pl, chan) st = Running st'"
  shows "sent st' = (if pl = Idle \<and> send_ready_for_query st
      then frame PSQL_ReadyForQuery [ch CHR ''I''] # sent st else sent st)"
proof -
  have "loop_inv (init_state s buf h)" using assms(2) by (simp add: loop_inv_def init_state_def)
  with reachable_inv [OF assms(1)] loop_iteration_sent [OF _ assms(3)] show ?thesis by blast
qed

theorem ready_for_query_exactly_when_idle_witness:
  "\<exists>st'. loop_iteration (\<lambda>_. 0) null_handlers (Pending, Plain_Out []) (init_state (Plain [Got (frame 83 [])]) [] 7) = Running st'
    \<and> sent st' = []"
proof -
  let ?st = "init_state (Plain [Got (frame 83 [])]) [] (7 :: nat)"
  have "sock_stream (connection ?st) = frame PSQL_Sync [] @ []"
    by (simp add: init_state_def sock_stream_def recv_stream_Got PSQL_Sync_def ch_def frame_def hdr_def)
  then obtain st' where st': "read_and_dispatch (\<lambda>_. 0) null_handlers ?st = Running st'"
    using sync_step [of ?st "[]" "[]" "\<lambda>_. 0" null_handlers] by (auto simp: init_state_def)
  then have it: "loop_iteration (\<lambda>_. 0) null_handlers (Pending, Plain_Out []) ?st = Running st'"
    by (simp add: loop_pending)
  from ready_for_query_exactly_when_idle [OF reachable.start _ it] st' it show ?thesis
    by (simp add: init_state_def)
qed

text \<open>
  a Parse message suspends ReadyForQuery; if it is malformed the error flag is set and no handler
  runs, otherwise the handler runs exactly once on the parsed message and its return code 1 sets the
  error flag.
\<close>

theorem parse_message_effect:
  assumes "sock_stream (connection st) = frame PSQL_Parse d @ next_bytes" and "length d < 2 ^ 31 - 6"
    and "\<not> terminated st" and "\<not> extended_query_error st"
  shows "\<exists>rest st'. loop_iteration junk H (Pending, chan) st = Running st' \<and> \<not> send_ready_for_query st'
    \<and> sock_stream (connection st') = next_bytes
    \<and> (case read_parse (frame PSQL_Parse d @ rest) of
         Inl e \<Rightarrow> extended_query_error st' \<and> session st' = session st
       | Inr p \<Rightarrow> (case handle_parse H p (session st) of
           (result, h) \<Rightarrow> session st' = h \<and> extended_query_error st' = (result = 1)))"
  unfolding loop_pending by (rule parse_step [OF assms])

theorem parse_message_effect_witness:
  "\<exists>rest st'. loop_iteration (\<lambda>_. 0) null_handlers (Pending, Plain_Out []) (init_state (Plain [Got (frame 80 [0, 0, 0, 0])]) [] 7)
      = Running st' \<and> \<not> send_ready_for_query st' \<and> sock_stream (connection st') = []
    \<and> (case read_parse (frame PSQL_Parse [0, 0, 0, 0] @ rest) of
         Inl e \<Rightarrow> extended_query_error st' \<and> session st' = session (init_state (Plain [Got (frame 80 [0, 0, 0, 0])]) [] 7)
       | Inr p \<Rightarrow> (case handle_parse null_handlers p (session (init_state (Plain [Got (frame 80 [0, 0, 0, 0])]) [] 7)) of
           (result, h) \<Rightarrow> session st' = h \<and> extended_query_error st' = (result = 1)))"
  by (rule parse_message_effect)
    (simp_all add: init_state_def sock_stream_def recv_stream_Got PSQL_Parse_def ch_def frame_def hdr_def)

end
