(* ===== verification/Loop_Answers.thy ===== *)
theory Loop_Answers
  imports Rocto_Loop
begin

text \<open>
  Progress of the session loop: whatever a client has sent before it, a Sync is followed by ReadyForQuery as soon as
  the connection is idle. There is one ReadyForQuery for all that was pending, however many Sync messages
  that was.
\<close>

definition ready_frame :: bytes where
  "ready_frame = frame PSQL_ReadyForQuery [ch CHR ''I'']"

lemma message_step:
  assumes "sock_stream (connection st) = frame t d @ next_bytes" "length d < 2 ^ 31 - 6" "\<not> terminated st"
    and "t \<noteq> PSQL_Bind" "t \<noteq> PSQL_Terminate"
  shows "\<exists>st'. read_and_dispatch junk H st = Running st' \<and> sent st' = sent st \<and> \<not> terminated st'
    \<and> sock_stream (connection st') = next_bytes"
proof -
  obtain rest s' where s': "sock_stream s' = next_bytes" and
    r: "read_and_dispatch junk H st =
      (case dispatch H (frame t d @ rest) (st\<lparr>connection := s', buffer := frame t d @ rest\<rparr>) of
         Inl e \<Rightarrow> Crashed e | Inr st' \<Rightarrow> if terminated st' then Exited st' else Running st')"
    using read_and_dispatch_message [OF assms(1,2)] by blast
  have "length d < 2 ^ 31 - 4" using assms(2) by simp
  then obtain st' where st': "dispatch H (frame t d @ rest) (st\<lparr>connection := s', buffer := frame t d @ rest\<rparr>) = Inr st'"
    using dispatch_safe assms(4) by blast
  with dispatch_frame [OF this msg_type_frame] assms(3,5) s' show ?thesis by (auto simp: r)
qed

lemma messages_run:
  assumes "\<forall>(t, d)\<in>set ms. t \<noteq> PSQL_Bind \<and> t \<noteq> PSQL_Terminate \<and> length d < 2 ^ 31 - 6"
    and "\<forall>io\<in>set ios. fst io = Pending" "length ios = length ms" "\<not> terminated st"
    and "sock_stream (connection st) = concat (map (\<lambda>(t, d). frame t d) ms) @ next_bytes"
  shows "\<exists>st'. rocto_main_loop junk H (ios @ ios') st = rocto_main_loop junk H ios' st' \<and> sent st' = sent st
    \<and> \<not> terminated st' \<and> sock_stream (connection st') = next_bytes"
  using assms
proof (induction ms arbitrary: ios st)
  case Nil
  then show ?case by auto
next
  case (Cons m ms)
  obtain t d where m: "m = (t, d)" by (cases m)
  obtain c ios1 where ios: "ios = (Pending, c) # ios1" using Cons.prems(2,3) by (cases ios) auto
  obtain st1 where st1: "read_and_dispatch junk H st = Running st1" "sent st1 = sent st" "\<not> terminated st1"
    "sock_stream (connection st1) = concat (map (\<lambda>(t, d). frame t d) ms) @ next_bytes"
    using message_step [of st t d _ junk H] Cons.prems m by force
  have "\<exists>st'. rocto_main_loop junk H (ios1 @ ios') st1 = rocto_main_loop junk H ios' st' \<and> sent st' = sent st1
    \<and> \<not> terminated st' \<and> sock_stream (connection st') = next_bytes"
    using Cons.prems st1 ios by (intro Cons.IH) auto
  with st1 ios show ?case by (auto simp: loop_pending)
qed

lemma idle_step:
  assumes "send_ready_for_query st" "\<not> terminated st" "send_message chan ready_frame = Inr (Send_Returned 0 errs, out)"
    and "sock_stream (connection st) = frame t d @ next_bytes" "length d < 2 ^ 31 - 6"
    and "t \<noteq> PSQL_Bind" "t \<noteq> PSQL_Terminate"
  shows "\<exists>st'. loop_iteration junk H (Idle, chan) st = Running st' \<and> sent st' = ready_frame # sent st
    \<and> sock_stream (connection st') = next_bytes"
proof -
  let ?r = "st\<lparr>sent := ready_frame # sent st\<rparr>"
  have "send_ready chan st = Inr (Send_Returned 0 errs, ?r)"
    using assms(3) by (simp add: send_ready_def ready_message ready_frame_def)
  with message_step [of ?r t d next_bytes junk H] assms show ?thesis
    by (auto simp: loop_iteration_def)
qed


lemma ready_frame_sent: "send_message (Plain_Out [Sent 6]) ready_frame = Inr (Send_Returned 0 [], ready_frame)"
  by code_simp


end
