(* ===== verification/Logical_Plan.thy ===== *)
theory Logical_Plan
  imports Main
begin

text \<open>
  The WHERE clause in the logical plan: \<open>lp_make_normal_disjunctive_form.c\<close>, \<open>lp_join_where.c\<close> and the
  expansion of a disjunction into a set operation at the start of \<open>optimize_logical_plan.c\<close>.
  A plan node is its action type and two operands; \<open>LP_NULL\<close> is the NULL pointer. Nodes whose
  inner structure these functions never look at keep an identity only. The C code rewrites nodes
  in place and shares subtrees; after the first pass no shared node is rewritten again, so
  values replace pointers here.
\<close>

section \<open>Plans\<close>

text \<open>
  The action types of \<open>lp_action_type.hd\<close> that occur in a WHERE clause, in the order of the file.
  \<open>LP_OPERAND\<close> stands for the other types before \<open>LP_ADDITION\<close> (column lists, subqueries, function calls,
  CASE, aggregates, ...), which these functions do not tell apart.
\<close>

datatype LPActionType =
    LP_OPERAND | LP_COLUMN_ALIAS | LP_DERIVED_COLUMN | LP_VALUE | LP_WHERE
  | LP_ADDITION | LP_SUBTRACTION | LP_DIVISION | LP_MULTIPLICATION | LP_MODULO | LP_CONCAT
  | LP_BOOLEAN_OR | LP_BOOLEAN_AND | LP_BOOLEAN_IS | LP_BOOLEAN_IS_NOT
  | LP_BOOLEAN_EQUALS | LP_BOOLEAN_NOT_EQUALS | LP_BOOLEAN_LESS_THAN | LP_BOOLEAN_GREATER_THAN
  | LP_BOOLEAN_LESS_THAN_OR_EQUALS | LP_BOOLEAN_GREATER_THAN_OR_EQUALS
  | LP_BOOLEAN_REGEX_SENSITIVE | LP_BOOLEAN_REGEX_INSENSITIVE
  | LP_BOOLEAN_REGEX_SENSITIVE_LIKE | LP_BOOLEAN_REGEX_INSENSITIVE_LIKE
  | LP_BOOLEAN_REGEX_SENSITIVE_SIMILARTO | LP_BOOLEAN_REGEX_INSENSITIVE_SIMILARTO
  | LP_BOOLEAN_IN | LP_BOOLEAN_NOT_IN
  | LP_BOOLEAN_ANY_EQUALS | LP_BOOLEAN_ANY_NOT_EQUALS | LP_BOOLEAN_ANY_LESS_THAN
  | LP_BOOLEAN_ANY_GREATER_THAN | LP_BOOLEAN_ANY_LESS_THAN_OR_EQUALS | LP_BOOLEAN_ANY_GREATER_THAN_OR_EQUALS
  | LP_BOOLEAN_ALL_EQUALS | LP_BOOLEAN_ALL_NOT_EQUALS | LP_BOOLEAN_ALL_LESS_THAN
  | LP_BOOLEAN_ALL_GREATER_THAN | LP_BOOLEAN_ALL_LESS_THAN_OR_EQUALS | LP_BOOLEAN_ALL_GREATER_THAN_OR_EQUALS
  | LP_DATE_TIME_ADDITION | LP_DATE_TIME_SUBTRACTION
  | LP_FORCE_NUM | LP_NEGATIVE | LP_BOOLEAN_NOT | LP_BOOLEAN_EXISTS | LP_BOOLEAN_NOT_EXISTS | LP_COERCE_TYPE

text \<open>
  \<open>LP_Value null n\<close>: an \<open>LP_VALUE\<close> plan, \<open>null\<close> when its value is of type \<open>NUL_VALUE\<close>;
  \<open>LP_Column derived asterisk n\<close>: an \<open>LP_COLUMN_ALIAS\<close> or \<open>LP_DERIVED_COLUMN\<close> plan, \<open>asterisk\<close> when its column is
  \<open>table.*\<close>; \<open>LP_Opaque n\<close>: another operand; \<open>LP_Default\<close>: a node with operands.
\<close>

datatype LogicalPlan =
    LP_NULL
  | LP_Value bool nat
  | LP_Column bool bool nat
  | LP_Opaque nat
  | LP_Default LPActionType LogicalPlan LogicalPlan

fun lp_type :: "LogicalPlan \<Rightarrow> LPActionType" where
  "lp_type LP_NULL = LP_OPERAND"
| "lp_type (LP_Value _ _) = LP_VALUE"
| "lp_type (LP_Column derived _ _) = (if derived then LP_DERIVED_COLUMN else LP_COLUMN_ALIAS)"
| "lp_type (LP_Opaque _) = LP_OPERAND"
| "lp_type (LP_Default t _ _) = t"

fun operand0 :: "LogicalPlan \<Rightarrow> LogicalPlan" where
  "operand0 (LP_Default _ a _) = a"
| "operand0 _ = LP_NULL"

fun operand1 :: "LogicalPlan \<Rightarrow> LogicalPlan" where
  "operand1 (LP_Default _ _ b) = b"
| "operand1 _ = LP_NULL"

definition before_LP_ADDITION :: "LPActionType \<Rightarrow> bool" where
  "before_LP_ADDITION t \<longleftrightarrow> t \<in> {LP_OPERAND, LP_COLUMN_ALIAS, LP_DERIVED_COLUMN, LP_VALUE, LP_WHERE}"

section \<open>lp_apply_not\<close>

definition is_null_operand :: "LogicalPlan \<Rightarrow> bool" where
  "is_null_operand p = (case operand1 p of LP_Value null _ \<Rightarrow> null | _ \<Rightarrow> False)"

definition is_table_asterisk :: "LogicalPlan \<Rightarrow> bool" where
  "is_table_asterisk p = (case p of LP_Column _ asterisk _ \<Rightarrow> asterisk | _ \<Rightarrow> False)"

text \<open>The two conditions under which the operand of a NOT keeps its NOT.\<close>

definition row_null_test :: "LogicalPlan \<Rightarrow> bool" where
  "row_null_test p \<longleftrightarrow> (lp_type p = LP_BOOLEAN_IS \<or> lp_type p = LP_BOOLEAN_IS_NOT) \<and> is_null_operand p
     \<and> is_table_asterisk (operand0 p)"

definition not_negatable :: "LogicalPlan \<Rightarrow> bool" where
  "not_negatable p \<longleftrightarrow>
     \<not> ((lp_type p = LP_BOOLEAN_IS \<or> lp_type p = LP_BOOLEAN_IS_NOT) \<and> is_null_operand p)
     \<and> (lp_type p \<in> {LP_BOOLEAN_REGEX_SENSITIVE, LP_BOOLEAN_REGEX_INSENSITIVE, LP_BOOLEAN_REGEX_SENSITIVE_LIKE,
           LP_BOOLEAN_REGEX_INSENSITIVE_LIKE, LP_BOOLEAN_REGEX_SENSITIVE_SIMILARTO,
           LP_BOOLEAN_REGEX_INSENSITIVE_SIMILARTO, LP_COERCE_TYPE}
        \<or> before_LP_ADDITION (lp_type p))"

text \<open>The switch on the type of a node under an odd number of NOTs; a type it does not list stays as it is.\<close>

fun opposite :: "LPActionType \<Rightarrow> LPActionType" where
  "opposite LP_BOOLEAN_OR = LP_BOOLEAN_AND"
| "opposite LP_BOOLEAN_AND = LP_BOOLEAN_OR"
| "opposite LP_BOOLEAN_EQUALS = LP_BOOLEAN_NOT_EQUALS"
| "opposite LP_BOOLEAN_NOT_EQUALS = LP_BOOLEAN_EQUALS"
| "opposite LP_BOOLEAN_LESS_THAN = LP_BOOLEAN_GREATER_THAN_OR_EQUALS"
| "opposite LP_BOOLEAN_GREATER_THAN = LP_BOOLEAN_LESS_THAN_OR_EQUALS"
| "opposite LP_BOOLEAN_LESS_THAN_OR_EQUALS = LP_BOOLEAN_GREATER_THAN"
| "opposite LP_BOOLEAN_GREATER_THAN_OR_EQUALS = LP_BOOLEAN_LESS_THAN"
| "opposite LP_BOOLEAN_IN = LP_BOOLEAN_NOT_IN"
| "opposite LP_BOOLEAN_NOT_IN = LP_BOOLEAN_IN"
| "opposite LP_BOOLEAN_ANY_EQUALS = LP_BOOLEAN_ALL_NOT_EQUALS"
| "opposite LP_BOOLEAN_ANY_NOT_EQUALS = LP_BOOLEAN_ALL_EQUALS"
| "opposite LP_BOOLEAN_ANY_LESS_THAN = LP_BOOLEAN_ALL_GREATER_THAN_OR_EQUALS"
| "opposite LP_BOOLEAN_ANY_GREATER_THAN = LP_BOOLEAN_ALL_LESS_THAN_OR_EQUALS"
| "opposite LP_BOOLEAN_ANY_LESS_THAN_OR_EQUALS = LP_BOOLEAN_ALL_GREATER_THAN"
| "opposite LP_BOOLEAN_ANY_GREATER_THAN_OR_EQUALS = LP_BOOLEAN_ALL_LESS_THAN"
| "opposite LP_BOOLEAN_ALL_EQUALS = LP_BOOLEAN_ANY_NOT_EQUALS"
| "opposite LP_BOOLEAN_ALL_NOT_EQUALS = LP_BOOLEAN_ANY_EQUALS"
| "opposite LP_BOOLEAN_ALL_LESS_THAN = LP_BOOLEAN_ANY_GREATER_THAN_OR_EQUALS"
| "opposite LP_BOOLEAN_ALL_GREATER_THAN = LP_BOOLEAN_ANY_LESS_THAN_OR_EQUALS"
| "opposite LP_BOOLEAN_ALL_LESS_THAN_OR_EQUALS = LP_BOOLEAN_ANY_GREATER_THAN"
| "opposite LP_BOOLEAN_ALL_GREATER_THAN_OR_EQUALS = LP_BOOLEAN_ANY_LESS_THAN"
| "opposite LP_BOOLEAN_EXISTS = LP_BOOLEAN_NOT_EXISTS"
| "opposite LP_BOOLEAN_NOT_EXISTS = LP_BOOLEAN_EXISTS"
| "opposite LP_BOOLEAN_IS = LP_BOOLEAN_IS_NOT"
| "opposite LP_BOOLEAN_IS_NOT = LP_BOOLEAN_IS"
| "opposite t = t"

fun lp_apply_not :: "LogicalPlan \<Rightarrow> nat \<Rightarrow> LogicalPlan" where
  "lp_apply_not (LP_Default t a b) count =
     (if t = LP_BOOLEAN_NOT then
        (if row_null_test a then (if count mod 2 = 0 then LP_Default t a b else a)
         else if not_negatable a then (if count mod 2 \<noteq> 0 then a else LP_Default t a b)
         else lp_apply_not a (count + 1))
      else if count mod 2 \<noteq> 0 then
        (if t = LP_BOOLEAN_OR \<or> t = LP_BOOLEAN_AND
         then LP_Default (opposite t) (lp_apply_not a count) (lp_apply_not b count)
         else LP_Default (opposite t) a b)
      else LP_Default t a b)"
| "lp_apply_not p count = p"

section \<open>lp_make_normal_disjunctive_form\<close>

definition is_or :: "LogicalPlan \<Rightarrow> bool" where
  "is_or p \<longleftrightarrow> lp_type p = LP_BOOLEAN_OR"

text \<open>The positions a walk \<open>l = l->operand[1]\<close> along a chain of ORs visits.\<close>

fun or_spine :: "LogicalPlan \<Rightarrow> LogicalPlan list" where
  "or_spine (LP_Default t a b) =
     LP_Default t a b # (if t = LP_BOOLEAN_OR \<and> b \<noteq> LP_NULL then or_spine b else [])"
| "or_spine p = [p]"

definition next_clause :: "LogicalPlan \<Rightarrow> LogicalPlan" where
  "next_clause p = (if is_or p then operand0 p else p)"

text \<open>One pass through the inner loop: the new conjunction and the type that the next chain node gets.\<close>

definition combine :: "LogicalPlan \<Rightarrow> LogicalPlan \<Rightarrow> LogicalPlan \<times> LPActionType" where
  "combine l r =
     (LP_Default LP_BOOLEAN_AND (next_clause l) (next_clause r),
      if \<not> is_or l \<and> \<not> is_or r then LP_BOOLEAN_AND else LP_BOOLEAN_OR)"

definition combine_all :: "LogicalPlan \<Rightarrow> LogicalPlan \<Rightarrow> (LogicalPlan \<times> LPActionType) list" where
  "combine_all left right = concat (map (\<lambda>l. map (combine l) (or_spine right)) (or_spine left))"

text \<open>
  The chain that the loops build: each node holds a conjunction and ends in a node allocated for the next one,
  so that the last node is empty; then the last item is promoted.
\<close>

fun build_chain :: "LPActionType \<Rightarrow> (LogicalPlan \<times> LPActionType) list \<Rightarrow> LogicalPlan" where
  "build_chain t [] = LP_Default t LP_NULL LP_NULL"
| "build_chain t ((lp, t') # ps) = LP_Default t lp (build_chain t' ps)"

fun promote :: "LogicalPlan \<Rightarrow> LogicalPlan" where
  "promote (LP_Default t a b) = (if operand0 b = LP_NULL then a else LP_Default t a (promote b))"
| "promote p = p"

definition distribute :: "LogicalPlan \<Rightarrow> LogicalPlan \<Rightarrow> LogicalPlan" where
  "distribute left right = (let ps = combine_all left right in promote (build_chain (snd (hd ps)) ps))"

lemma size_lp_apply_not: "size (lp_apply_not p count) \<le> size p"
proof (induction p arbitrary: count)
  case (LP_Default t a b)
  have "size (lp_apply_not a (count + 1)) \<le> size a" by (rule LP_Default.IH)
  then show ?case
    using LP_Default.IH(1) [of count] LP_Default.IH(2) [of count] by (auto simp: add_mono)
qed simp_all

function lp_make_normal_disjunctive_form :: "LogicalPlan \<Rightarrow> LogicalPlan" where
  "lp_make_normal_disjunctive_form root =
     (if root = LP_NULL then root
      else
        case lp_apply_not root 0 of
          LP_Default t a b \<Rightarrow>
            if t \<noteq> LP_BOOLEAN_AND \<and> t \<noteq> LP_BOOLEAN_OR then LP_Default t a b
            else
              let left = lp_make_normal_disjunctive_form a; right = lp_make_normal_disjunctive_form b in
              if t = LP_BOOLEAN_OR then LP_Default t left right else distribute left right
        | p \<Rightarrow> p)"
  by pat_completeness auto
termination
proof (relation "measure size")
  fix root t a b
  assume "lp_apply_not root 0 = LP_Default t a b"
  then have "size (LP_Default t a b) \<le> size root"
    using size_lp_apply_not [of root 0] by simp
  then show "(a, root) \<in> measure size" "(b, root) \<in> measure size" by simp_all
qed simp

declare lp_make_normal_disjunctive_form.simps [simp del]

section \<open>lp_join_where\<close>

definition lp_join_where :: "LogicalPlan \<Rightarrow> LogicalPlan \<Rightarrow> LogicalPlan" where
  "lp_join_where where1 where2 =
     (if where1 = LP_NULL then where2
      else if where2 = LP_NULL then where1
      else if operand0 where1 = LP_NULL then where2
      else if operand0 where2 = LP_NULL then where1
      else LP_Default LP_WHERE (LP_Default LP_BOOLEAN_AND (operand0 where1) (operand0 where2)) (operand1 where1))"

section \<open>The DNF expansion of optimize_logical_plan\<close>

text \<open>
  The plans that the expansion handles: a SELECT (or DELETE, UPDATE) plan, of which only the operand of its
  \<open>LP_WHERE\<close> matters here, and a set operation of kind \<open>LP_SET_DNF\<close> over two plans.
\<close>

datatype QueryPlan =
    LP_SELECT_QUERY LogicalPlan
  | LP_SET_DNF QueryPlan QueryPlan

fun select_wheres :: "QueryPlan \<Rightarrow> LogicalPlan list" where
  "select_wheres (LP_SELECT_QUERY w) = [w]"
| "select_wheres (LP_SET_DNF p q) = select_wheres p @ select_wheres q"

text \<open>
  The \<open>while (LP_BOOLEAN_OR == cur->type)\<close> loop: the left operands it copies a plan for and the
  operand it stops at; \<open>None\<close> where it would read the type of a NULL operand.
\<close>

fun or_operands :: "LogicalPlan \<Rightarrow> (LogicalPlan list \<times> LogicalPlan) option" where
  "or_operands (LP_Default t a b) =
     (if t = LP_BOOLEAN_OR then map_option (\<lambda>(cs, cur). (a # cs, cur)) (or_operands b)
      else Some ([], LP_Default t a b))"
| "or_operands LP_NULL = None"
| "or_operands p = Some ([], p)"

text \<open>Each turn makes the copied plan the left side of a set operation and what there was the right side.\<close>

definition expand_dnf :: "LogicalPlan list \<Rightarrow> LogicalPlan \<Rightarrow> QueryPlan" where
  "expand_dnf cs cur =
     foldl (\<lambda>new_plan c. LP_SET_DNF (LP_SELECT_QUERY c) new_plan) (LP_SELECT_QUERY cur) cs"

lemma select_wheres_expand_dnf: "set (select_wheres (expand_dnf cs cur)) = insert cur (set cs)"
  unfolding expand_dnf_def by (induction cs rule: rev_induct) auto

text \<open>
  The number of conjunctions that a clause expands to; \<open>neg\<close> tells whether it stands under an odd
  number of NOTs.
\<close>

fun clause_count :: "bool \<Rightarrow> LogicalPlan \<Rightarrow> nat" where
  "clause_count neg (LP_Default t a b) =
     (if t = LP_BOOLEAN_NOT then
        (if row_null_test a \<or> not_negatable a then 1 else clause_count (\<not> neg) a)
      else if t = LP_BOOLEAN_OR then
        (if neg then clause_count neg a * clause_count neg b else clause_count neg a + clause_count neg b)
      else if t = LP_BOOLEAN_AND then
        (if neg then clause_count neg a + clause_count neg b else clause_count neg a * clause_count neg b)
      else 1)"
| "clause_count neg p = 1"

lemma clause_count_pos [simp]: "0 < clause_count neg p"
  by (induction p arbitrary: neg) auto

lemma clause_count_leaf:
  "lp_type p \<notin> {LP_BOOLEAN_NOT, LP_BOOLEAN_OR, LP_BOOLEAN_AND} \<Longrightarrow> clause_count neg p = 1"
  by (cases p) auto

lemma stops_leaf:
  "row_null_test p \<or> not_negatable p \<Longrightarrow> lp_type p \<notin> {LP_BOOLEAN_NOT, LP_BOOLEAN_OR, LP_BOOLEAN_AND}"
  by (auto simp: row_null_test_def not_negatable_def before_LP_ADDITION_def)

lemma opposite_junction [simp]:
  "opposite t = LP_BOOLEAN_NOT \<longleftrightarrow> t = LP_BOOLEAN_NOT"
  "opposite t = LP_BOOLEAN_OR \<longleftrightarrow> t = LP_BOOLEAN_AND"
  "opposite t = LP_BOOLEAN_AND \<longleftrightarrow> t = LP_BOOLEAN_OR"
  by (cases t; simp)+

lemma lp_apply_not_Default:
  "lp_apply_not (LP_Default t a b) count =
     (if t = LP_BOOLEAN_NOT then
        (if row_null_test a \<or> not_negatable a then (if even count then LP_Default t a b else a)
         else lp_apply_not a (count + 1))
      else if odd count then
        (if t = LP_BOOLEAN_OR \<or> t = LP_BOOLEAN_AND
         then LP_Default (opposite t) (lp_apply_not a count) (lp_apply_not b count)
         else LP_Default (opposite t) a b)
      else LP_Default t a b)"
  by (simp add: even_iff_mod_2_eq_zero)

declare lp_apply_not.simps(1) [simp del] lp_apply_not_Default [simp]

lemma clause_count_lp_apply_not: "clause_count False (lp_apply_not p count) = clause_count (odd count) p"
proof (induction p arbitrary: count)
  case (LP_Default t a b)
  have "row_null_test a \<or> not_negatable a \<Longrightarrow> clause_count False a = 1"
    using stops_leaf clause_count_leaf by blast
  then show ?case
    using LP_Default.IH by auto
qed auto

text \<open>The clauses along a chain of ORs, and the chain that the distribution of an AND builds.\<close>

abbreviation or_clauses :: "LogicalPlan \<Rightarrow> LogicalPlan list" where
  "or_clauses p \<equiv> map next_clause (or_spine p)"

lemma or_spine_not_Nil [simp]: "or_spine p \<noteq> []"
  by (cases p) auto

lemma promote_chain:
  assumes "ps \<noteq> []" "\<forall>q \<in> set (butlast ps). snd q = LP_BOOLEAN_OR" "\<forall>q \<in> set ps. fst q \<noteq> LP_NULL"
  shows "promote (build_chain t ps) =
    (if length ps = 1 then fst (hd ps)
     else LP_Default t (fst (hd ps)) (promote (build_chain LP_BOOLEAN_OR (tl ps))))"
proof (cases ps)
  case (Cons q qs)
  then show ?thesis using assms by (cases q; cases qs) auto
qed (use assms in simp)

lemma or_spine_snoc:
  obtains ps p' where "or_spine p = ps @ [p']" "\<forall>x \<in> set ps. is_or x"
proof -
  have "\<forall>x \<in> set (butlast (or_spine p)). is_or x"
    by (induction p rule: or_spine.induct) (auto simp: is_or_def)
  then show thesis
    using that [of "butlast (or_spine p)" "last (or_spine p)"] by simp
qed

lemma combine_all_types: "\<forall>q \<in> set (butlast (combine_all left right)). snd q = LP_BOOLEAN_OR"
proof -
  obtain ls l where l: "or_spine left = ls @ [l]" "\<forall>x \<in> set ls. is_or x" by (rule or_spine_snoc)
  obtain rs r where r: "or_spine right = rs @ [r]" "\<forall>x \<in> set rs. is_or x" by (rule or_spine_snoc)
  show ?thesis
    using l r by (auto simp: combine_all_def combine_def butlast_append)
qed

lemma combine_all_not_Nil [simp]: "combine_all left right \<noteq> []"
  by (simp add: combine_all_def)

lemma fst_combine_all:
  "map fst (combine_all left right) =
     concat (map (\<lambda>l. map (LP_Default LP_BOOLEAN_AND l) (or_clauses right)) (or_clauses left))"
  by (simp add: combine_all_def combine_def map_concat comp_def)

lemma fst_combine_all_not_NULL: "\<forall>q \<in> set (combine_all left right). fst q \<noteq> LP_NULL"
  by (auto simp: combine_all_def combine_def)

text \<open>The chain of ORs over a list of clauses, the reference for what the distribution builds.\<close>

fun or_chain :: "LogicalPlan list \<Rightarrow> LogicalPlan" where
  "or_chain [] = LP_NULL"
| "or_chain [c] = c"
| "or_chain (c # cs) = LP_Default LP_BOOLEAN_OR c (or_chain cs)"

lemma promote_build_chain:
  assumes "ps \<noteq> []" "\<forall>q \<in> set (butlast ps). snd q = LP_BOOLEAN_OR" "\<forall>q \<in> set ps. fst q \<noteq> LP_NULL"
    and "length ps \<noteq> 1 \<longrightarrow> t = LP_BOOLEAN_OR"
  shows "promote (build_chain t ps) = or_chain (map fst ps)"
  using assms
proof (induction ps arbitrary: t)
  case (Cons q qs)
  then show ?case
    by (cases q; cases qs) auto
qed simp

lemma distribute_eq_or_chain:
  "distribute left right =
     or_chain (concat (map (\<lambda>l. map (LP_Default LP_BOOLEAN_AND l) (or_clauses right)) (or_clauses left)))"
proof -
  let ?ps = "combine_all left right"
  have "hd ?ps \<in> set (butlast ?ps)" if "length ?ps \<noteq> 1"
    using that by (cases ?ps rule: remdups_adj.cases) auto
  then have "length ?ps \<noteq> 1 \<longrightarrow> snd (hd ?ps) = LP_BOOLEAN_OR"
    using combine_all_types by blast
  then have "promote (build_chain (snd (hd ?ps)) ?ps) = or_chain (map fst ?ps)"
    by (intro promote_build_chain) (simp_all add: combine_all_types fst_combine_all_not_NULL)
  then show ?thesis
    by (simp add: distribute_def Let_def fst_combine_all)
qed

lemma clause_count_or_chain:
  "cs \<noteq> [] \<Longrightarrow> clause_count False (or_chain cs) = sum_list (map (clause_count False) cs)"
  by (induction cs rule: or_chain.induct) auto

lemma clause_count_or_clauses: "sum_list (map (clause_count False) (or_clauses p)) \<le> clause_count False p"
  by (induction p rule: or_spine.induct) (auto simp: next_clause_def is_or_def)

lemma sum_list_products:
  fixes f g :: "'a \<Rightarrow> nat"
  shows "sum_list (concat (map (\<lambda>x. map (\<lambda>y. f x * g y) ys) xs)) = sum_list (map f xs) * sum_list (map g ys)"
  by (induction xs) (simp_all add: sum_list_const_mult add_mult_distrib)

lemma clause_count_distribute:
  "clause_count False (distribute left right) \<le> clause_count False left * clause_count False right"
proof -
  let ?c = "clause_count False"
  have "?c (distribute left right) =
      sum_list (map ?c (concat (map (\<lambda>l. map (LP_Default LP_BOOLEAN_AND l) (or_clauses right)) (or_clauses left))))"
    unfolding distribute_eq_or_chain by (rule clause_count_or_chain) simp
  also have "\<dots> = sum_list (map ?c (or_clauses left)) * sum_list (map ?c (or_clauses right))"
    unfolding sum_list_products [symmetric] by (simp add: map_concat comp_def)
  also have "\<dots> \<le> ?c left * ?c right"
    by (intro mult_mono clause_count_or_clauses) simp_all
  finally show ?thesis .
qed

lemma clause_count_ndf: "clause_count False (lp_make_normal_disjunctive_form p) \<le> clause_count False p"
proof (induction p rule: lp_make_normal_disjunctive_form.induct)
  case (1 root)
  show ?case
  proof (cases "lp_apply_not root 0")
    case (LP_Default t a b)
    have root: "clause_count False root = clause_count False (LP_Default t a b)"
      using clause_count_lp_apply_not [of root 0] LP_Default by simp
    show ?thesis
    proof (cases "root \<noteq> LP_NULL \<and> (t = LP_BOOLEAN_AND \<or> t = LP_BOOLEAN_OR)")
      case True
      then have ih: "clause_count False (lp_make_normal_disjunctive_form a) \<le> clause_count False a"
        "clause_count False (lp_make_normal_disjunctive_form b) \<le> clause_count False b"
        using "1.IH" LP_Default by auto
      show ?thesis
        using True LP_Default root ih
          order_trans [OF clause_count_distribute mult_mono [OF ih]]
        by (subst lp_make_normal_disjunctive_form.simps) (auto intro: add_mono)
    next
      case False
      then show ?thesis
        using LP_Default root by (subst lp_make_normal_disjunctive_form.simps) auto
    qed
  qed (subst lp_make_normal_disjunctive_form.simps; simp add: Suc_le_eq)+
qed

lemma clause_count_or_operands:
  "or_operands p = Some (cs, cur) \<Longrightarrow>
     clause_count False p = sum_list (map (clause_count False) cs) + clause_count False cur"
  by (induction p arbitrary: cs) (auto split: if_splits)

text \<open>The measure under which the repeated expansion ends: every set operation that is made lowers it.\<close>

fun expansion_left :: "QueryPlan \<Rightarrow> nat" where
  "expansion_left (LP_SELECT_QUERY w) = 2 * clause_count False w - 1"
| "expansion_left (LP_SET_DNF p q) = expansion_left p + expansion_left q"

lemma expansion_left_pos [simp]: "0 < expansion_left p"
proof (induction p)
  case (LP_SELECT_QUERY w)
  have "1 \<le> clause_count False w" using clause_count_pos [of False w] by linarith
  then show ?case unfolding expansion_left.simps by linarith
qed simp

lemma expansion_left_expand_dnf:
  "expansion_left (expand_dnf cs cur) + Suc (length cs) =
     2 * (sum_list (map (clause_count False) cs) + clause_count False cur)"
proof (induction cs rule: rev_induct)
  case Nil
  have "1 \<le> clause_count False cur" using clause_count_pos [of False cur] by linarith
  then show ?case by (simp add: expand_dnf_def)
next
  case (snoc c cs)
  have step: "expansion_left (expand_dnf (cs @ [c]) cur) =
      (2 * clause_count False c - 1) + expansion_left (expand_dnf cs cur)"
    by (simp add: expand_dnf_def)
  have "1 \<le> clause_count False c" using clause_count_pos [of False c] by linarith
  then obtain d where "clause_count False c = Suc d" by (cases "clause_count False c") auto
  then show ?case using snoc unfolding step by simp
qed

lemma or_operands_is_or: "or_operands p = Some (cs, cur) \<Longrightarrow> is_or p \<Longrightarrow> cs \<noteq> []"
  by (cases p) (auto simp: is_or_def split: if_splits)

lemma expansion_left_select:
  assumes "or_operands (lp_make_normal_disjunctive_form w) = Some (cs, cur)"
    and "is_or (lp_make_normal_disjunctive_form w)"
  shows "expansion_left (expand_dnf cs cur) < expansion_left (LP_SELECT_QUERY w)"
proof -
  have "sum_list (map (clause_count False) cs) + clause_count False cur \<le> clause_count False w"
    using clause_count_or_operands [OF assms(1)] clause_count_ndf [of w] by simp
  moreover have "0 < length cs" using or_operands_is_or [OF assms] by simp
  moreover have "e < 2 * w - 1" if "e + Suc n = 2 * s" "s \<le> w" "0 < n" for e n s w :: nat
    using that by linarith
  ultimately show ?thesis
    using expansion_left_expand_dnf [of cs cur] unfolding expansion_left.simps by blast
qed

text \<open>
  \<open>optimize_logical_plan\<close> as far as the WHERE clause goes: what follows in the function works on a plan whose
  WHERE clause is one conjunction. The result \<open>None\<close> stands for the read through a NULL operand in the
  loop. The set operation that the loop makes goes through the function again, and with it every plan in it.
\<close>

function optimize_logical_plan :: "QueryPlan \<Rightarrow> QueryPlan option" where
  "optimize_logical_plan (LP_SET_DNF p q) =
     (case optimize_logical_plan p of
        None \<Rightarrow> None
      | Some p' \<Rightarrow>
          (case optimize_logical_plan q of
             None \<Rightarrow> None
           | Some q' \<Rightarrow> Some (LP_SET_DNF p' q')))"
| "optimize_logical_plan (LP_SELECT_QUERY w) =
     (let cur = lp_make_normal_disjunctive_form w in
      if \<not> is_or cur then Some (LP_SELECT_QUERY cur)
      else
        (case or_operands cur of
           None \<Rightarrow> None
         | Some (cs, last_cur) \<Rightarrow> optimize_logical_plan (expand_dnf cs last_cur)))"
  by pat_completeness auto
termination
  by (relation "measure expansion_left") (simp_all add: expansion_left_select del: expansion_left.simps(1))

declare optimize_logical_plan.simps(2) [simp del]

end
