(* ===== verification/Plan_Laws.thy ===== *)
theory Plan_Laws
  imports Logical_Plan
begin

text \<open>
  What the rewriting of a WHERE clause means: SQL's three-valued logic, the truth value of a plan in a row, and the
  theorems that \<open>lp_apply_not\<close>, \<open>lp_make_normal_disjunctive_form\<close> and the expansion into a set operation keep
  it, on the plans for which they do.
\<close>

section \<open>Three-valued logic\<close>

datatype tv = FF | UU | TT

instantiation tv :: linorder
begin

definition less_eq_tv :: "tv \<Rightarrow> tv \<Rightarrow> bool" where
  "less_eq_tv x y \<longleftrightarrow> x = FF \<or> y = TT \<or> x = y"

definition less_tv :: "tv \<Rightarrow> tv \<Rightarrow> bool" where
  "less_tv x y \<longleftrightarrow> x \<noteq> y \<and> (x = FF \<or> y = TT)"

instance
proof
  fix x y z :: tv
  show "(x < y) = (x \<le> y \<and> \<not> y \<le> x)" "x \<le> x" "x \<le> y \<or> y \<le> x"
    "x \<le> y \<Longrightarrow> y \<le> z \<Longrightarrow> x \<le> z" "x \<le> y \<Longrightarrow> y \<le> x \<Longrightarrow> x = y"
    by (cases x; cases y; cases z; simp add: less_eq_tv_def less_tv_def)+
qed

end

text \<open>AND is the minimum and OR the maximum in the order false, unknown, true.\<close>

abbreviation kand :: "tv \<Rightarrow> tv \<Rightarrow> tv" where "kand \<equiv> min"
abbreviation kor :: "tv \<Rightarrow> tv \<Rightarrow> tv" where "kor \<equiv> max"

fun kneg :: "tv \<Rightarrow> tv" where
  "kneg FF = TT"
| "kneg UU = UU"
| "kneg TT = FF"

definition tv_of :: "bool \<Rightarrow> tv" where
  "tv_of b = (if b then TT else FF)"

definition kany :: "tv list \<Rightarrow> tv" where "kany xs = foldr kor xs FF"
definition kall :: "tv list \<Rightarrow> tv" where "kall xs = foldr kand xs TT"

lemma kneg_kneg [simp]: "kneg (kneg x) = x"
  by (cases x) simp_all

lemma de_morgan [simp]: "kneg (kand x y) = kor (kneg x) (kneg y)" "kneg (kor x y) = kand (kneg x) (kneg y)"
  by (cases x; cases y; simp add: min_def max_def less_eq_tv_def)+

lemma kneg_tv_of [simp]: "kneg (tv_of b) = tv_of (\<not> b)"
  by (simp add: tv_of_def)

lemma kor_bounds [simp]: "kor FF x = x" "kor x FF = x" "kand TT x = x" "kand x TT = x"
  "kand FF x = FF" "kand x FF = FF" "kor TT x = TT" "kor x TT = TT"
  by (cases x; simp add: min_def max_def less_eq_tv_def)+

lemma kany_simps [simp]: "kany [] = FF" "kany (x # xs) = kor x (kany xs)" "kany (xs @ ys) = kor (kany xs) (kany ys)"
  by (induction xs) (simp_all add: kany_def max.assoc)

lemma kall_simps [simp]: "kall [] = TT" "kall (x # xs) = kand x (kall xs)"
  by (simp_all add: kall_def)

lemma kneg_kany [simp]: "kneg (kany xs) = kall (map kneg xs)" "kneg (kall xs) = kany (map kneg xs)"
  by (induction xs) simp_all

lemma kany_TT: "kany xs = TT \<longleftrightarrow> TT \<in> set xs"
proof (induction xs)
  case (Cons x xs)
  then show ?case by (cases x; cases "kany xs") (auto simp: max_def less_eq_tv_def)
qed simp

lemma kany_map_kand: "kany (map (kand x) ys) = kand x (kany ys)"
  by (induction ys) (simp_all add: min_max_distrib2)

lemma kand_kany: "kand (kany xs) (kany ys) = kany (concat (map (\<lambda>x. map (kand x) ys) xs))"
  by (induction xs) (simp_all add: min_max_distrib1 kany_map_kand)

section \<open>The truth value of a plan\<close>

text \<open>
  What a row gives the leaves of a WHERE clause: the value of a scalar operand (\<open>None\<close> for NULL), the
  values an IN list or a subquery yields, whether \<open>x IS y\<close> holds, whether a row \<open>t.*\<close> satisfies IS NOT NULL (all of
  its columns), whether a subquery has rows, and the value of every other Boolean operand.
\<close>

record row_env =
  scalar :: "LogicalPlan \<Rightarrow> int option"
  members :: "LogicalPlan \<Rightarrow> int option list"
  is_test :: "LogicalPlan \<Rightarrow> LogicalPlan \<Rightarrow> bool"
  row_is_not_null :: "LogicalPlan \<Rightarrow> bool"
  has_rows :: "LogicalPlan \<Rightarrow> bool"
  truth :: "LogicalPlan \<Rightarrow> tv"

fun comparison :: "LPActionType \<Rightarrow> (int \<Rightarrow> int \<Rightarrow> bool) option" where
  "comparison LP_BOOLEAN_EQUALS = Some (=)"
| "comparison LP_BOOLEAN_NOT_EQUALS = Some (\<noteq>)"
| "comparison LP_BOOLEAN_LESS_THAN = Some (<)"
| "comparison LP_BOOLEAN_GREATER_THAN = Some (>)"
| "comparison LP_BOOLEAN_LESS_THAN_OR_EQUALS = Some (\<le>)"
| "comparison LP_BOOLEAN_GREATER_THAN_OR_EQUALS = Some (\<ge>)"
| "comparison _ = None"

text \<open>IN is \<open>= ANY\<close> and NOT IN is \<open><> ALL\<close>.\<close>

fun any_comparison :: "LPActionType \<Rightarrow> (int \<Rightarrow> int \<Rightarrow> bool) option" where
  "any_comparison LP_BOOLEAN_IN = Some (=)"
| "any_comparison LP_BOOLEAN_ANY_EQUALS = Some (=)"
| "any_comparison LP_BOOLEAN_ANY_NOT_EQUALS = Some (\<noteq>)"
| "any_comparison LP_BOOLEAN_ANY_LESS_THAN = Some (<)"
| "any_comparison LP_BOOLEAN_ANY_GREATER_THAN = Some (>)"
| "any_comparison LP_BOOLEAN_ANY_LESS_THAN_OR_EQUALS = Some (\<le>)"
| "any_comparison LP_BOOLEAN_ANY_GREATER_THAN_OR_EQUALS = Some (\<ge>)"
| "any_comparison _ = None"

fun all_comparison :: "LPActionType \<Rightarrow> (int \<Rightarrow> int \<Rightarrow> bool) option" where
  "all_comparison LP_BOOLEAN_NOT_IN = Some (\<noteq>)"
| "all_comparison LP_BOOLEAN_ALL_EQUALS = Some (=)"
| "all_comparison LP_BOOLEAN_ALL_NOT_EQUALS = Some (\<noteq>)"
| "all_comparison LP_BOOLEAN_ALL_LESS_THAN = Some (<)"
| "all_comparison LP_BOOLEAN_ALL_GREATER_THAN = Some (>)"
| "all_comparison LP_BOOLEAN_ALL_LESS_THAN_OR_EQUALS = Some (\<le>)"
| "all_comparison LP_BOOLEAN_ALL_GREATER_THAN_OR_EQUALS = Some (\<ge>)"
| "all_comparison _ = None"

text \<open>A comparison with NULL is unknown.\<close>

fun compare :: "(int \<Rightarrow> int \<Rightarrow> bool) \<Rightarrow> int option \<Rightarrow> int option \<Rightarrow> tv" where
  "compare f (Some x) (Some y) = tv_of (f x y)"
| "compare f _ _ = UU"

fun eval :: "row_env \<Rightarrow> LogicalPlan \<Rightarrow> tv" where
  "eval e (LP_Default t a b) =
     (if t = LP_BOOLEAN_AND then kand (eval e a) (eval e b)
      else if t = LP_BOOLEAN_OR then kor (eval e a) (eval e b)
      else if t = LP_BOOLEAN_NOT then kneg (eval e a)
      else if t = LP_BOOLEAN_EXISTS then tv_of (has_rows e a)
      else if t = LP_BOOLEAN_NOT_EXISTS then tv_of (\<not> has_rows e a)
      else if t = LP_BOOLEAN_IS then tv_of (is_test e a b)
      else if t = LP_BOOLEAN_IS_NOT then
        tv_of (if row_null_test (LP_Default t a b) then row_is_not_null e a else \<not> is_test e a b)
      else
        case (comparison t, any_comparison t, all_comparison t) of
          (Some f, _, _) \<Rightarrow> compare f (scalar e a) (scalar e b)
        | (_, Some f, _) \<Rightarrow> kany (map (compare f (scalar e a)) (members e b))
        | (_, _, Some f) \<Rightarrow> kall (map (compare f (scalar e a)) (members e b))
        | _ \<Rightarrow> truth e (LP_Default t a b))"
| "eval e p = truth e p"

text \<open>The leaves whose negation has an action type of its own.\<close>

definition negatable :: "LogicalPlan \<Rightarrow> bool" where
  "negatable p \<longleftrightarrow>
     comparison (lp_type p) \<noteq> None \<or> any_comparison (lp_type p) \<noteq> None \<or> all_comparison (lp_type p) \<noteq> None
     \<or> lp_type p = LP_BOOLEAN_EXISTS \<or> lp_type p = LP_BOOLEAN_NOT_EXISTS
     \<or> (lp_type p = LP_BOOLEAN_IS \<or> lp_type p = LP_BOOLEAN_IS_NOT) \<and> \<not> row_null_test p"

text \<open>
  The plans the rewriting is meant for: Boolean operators have their operands, and a leaf below a negated
  AND or OR is negatable. A leaf directly below NOT can be any operand.
\<close>

fun normalizable :: "bool \<Rightarrow> LogicalPlan \<Rightarrow> bool" where
  "normalizable neg (LP_Default t a b) =
     (if t = LP_BOOLEAN_NOT then a \<noteq> LP_NULL \<and> (row_null_test a \<or> not_negatable a \<or> normalizable (\<not> neg) a)
      else if t = LP_BOOLEAN_AND \<or> t = LP_BOOLEAN_OR then normalizable neg a \<and> normalizable neg b
      else neg \<longrightarrow> negatable (LP_Default t a b))"
| "normalizable neg LP_NULL = False"
| "normalizable neg p = (\<not> neg)"

section \<open>Negation\<close>

lemma negated_comparisons:
  "comparison (opposite t) = map_option (\<lambda>f x y. \<not> f x y) (comparison t)"
  "all_comparison (opposite t) = map_option (\<lambda>f x y. \<not> f x y) (any_comparison t)"
  "any_comparison (opposite t) = map_option (\<lambda>f x y. \<not> f x y) (all_comparison t)"
  by (cases t; simp add: fun_eq_iff not_less not_le)+

lemma comparison_kinds:
  "comparison t = Some f \<Longrightarrow> any_comparison t = None \<and> all_comparison t = None"
  "any_comparison t = Some f \<Longrightarrow> comparison t = None \<and> all_comparison t = None"
  "all_comparison t = Some f \<Longrightarrow> comparison t = None \<and> any_comparison t = None"
  by (cases t; simp)+

lemma comparison_types:
  assumes "comparison t = Some f \<or> any_comparison t = Some f \<or> all_comparison t = Some f"
  shows "t \<noteq> LP_BOOLEAN_AND" "t \<noteq> LP_BOOLEAN_OR" "t \<noteq> LP_BOOLEAN_NOT" "t \<noteq> LP_BOOLEAN_EXISTS"
    "t \<noteq> LP_BOOLEAN_NOT_EXISTS" "t \<noteq> LP_BOOLEAN_IS" "t \<noteq> LP_BOOLEAN_IS_NOT"
  using assms by auto

lemma compare_negated: "compare (\<lambda>x y. \<not> f x y) x y = kneg (compare f x y)"
  by (cases x; cases y) simp_all

lemma map_compare_negated: "map (compare (\<lambda>x y. \<not> f x y) x) ys = map kneg (map (compare f x) ys)"
  by (simp add: compare_negated)

lemma eval_comparison:
  "comparison t = Some f \<Longrightarrow> eval e (LP_Default t a b) = compare f (scalar e a) (scalar e b)"
  "any_comparison t = Some f \<Longrightarrow> eval e (LP_Default t a b) = kany (map (compare f (scalar e a)) (members e b))"
  "all_comparison t = Some f \<Longrightarrow> eval e (LP_Default t a b) = kall (map (compare f (scalar e a)) (members e b))"
  subgoal premises c using comparison_types [of t f] comparison_kinds(1) [OF c] c by simp
  subgoal premises c using comparison_types [of t f] comparison_kinds(2) [OF c] c by simp
  subgoal premises c using comparison_types [of t f] comparison_kinds(3) [OF c] c by simp
  done

lemma row_null_test_IS_NOT:
  "row_null_test (LP_Default LP_BOOLEAN_IS_NOT a b) = row_null_test (LP_Default LP_BOOLEAN_IS a b)"
  by (simp add: row_null_test_def is_null_operand_def)

lemma eval_opposite:
  assumes "negatable (LP_Default t a b)"
  shows "eval e (LP_Default (opposite t) a b) = kneg (eval e (LP_Default t a b))"
proof -
  consider f where "comparison t = Some f" | f where "any_comparison t = Some f"
    | f where "all_comparison t = Some f" | "t = LP_BOOLEAN_EXISTS \<or> t = LP_BOOLEAN_NOT_EXISTS"
    | "(t = LP_BOOLEAN_IS \<or> t = LP_BOOLEAN_IS_NOT) \<and> \<not> row_null_test (LP_Default t a b)"
    using assms by (auto simp: negatable_def)
  then show ?thesis
  proof cases
    case (1 f)
    then show ?thesis
      by (simp only: eval_comparison(1) [where f = "\<lambda>x y. \<not> f x y"] negated_comparisons option.map
          eval_comparison(1) compare_negated)
  next
    case (2 f)
    then show ?thesis
      by (simp only: eval_comparison(3) [where f = "\<lambda>x y. \<not> f x y"] negated_comparisons option.map
          eval_comparison(2) map_compare_negated kneg_kany)
  next
    case (3 f)
    then show ?thesis
      by (simp only: eval_comparison(2) [where f = "\<lambda>x y. \<not> f x y"] negated_comparisons option.map
          eval_comparison(3) map_compare_negated kneg_kany)
  next
    case 4
    then show ?thesis by auto
  next
    case 5
    then show ?thesis using row_null_test_IS_NOT [of a b] by auto
  qed
qed

lemma eval_lp_apply_not:
  assumes "normalizable (odd count) p"
  shows "eval e (lp_apply_not p count) = (if odd count then kneg (eval e p) else eval e p)"
  using assms
proof (induction p arbitrary: count)
  case (LP_Default t a b)
  consider "t = LP_BOOLEAN_NOT" | "t = LP_BOOLEAN_AND \<or> t = LP_BOOLEAN_OR"
    | "t \<notin> {LP_BOOLEAN_NOT, LP_BOOLEAN_AND, LP_BOOLEAN_OR}" by blast
  then show ?case
  proof cases
    case 1
    then show ?thesis using LP_Default.IH(1) [of "count + 1"] LP_Default.prems by auto
  next
    case 2
    then show ?thesis using LP_Default.IH [of count] LP_Default.prems by auto
  next
    case 3
    then show ?thesis using LP_Default.prems eval_opposite [of t a b e] by (auto simp del: eval.simps)
  qed
qed simp_all

lemma normalizable_lp_apply_not:
  assumes "normalizable (odd count) p"
  shows "normalizable False (lp_apply_not p count)"
  using assms
proof (induction p arbitrary: count)
  case (LP_Default t a b)
  have "normalizable False a" if "row_null_test a \<or> not_negatable a" "a \<noteq> LP_NULL"
    using stops_leaf [OF that(1)] that(2) by (cases a) auto
  then show ?case
    using LP_Default.IH(1) [of "count + 1"] LP_Default.IH [of count] LP_Default.prems by (auto split: if_splits)
qed simp_all

section \<open>Normal form\<close>

lemma ndf_unfold:
  assumes "root \<noteq> LP_NULL" "lp_apply_not root 0 = p"
  shows "lp_make_normal_disjunctive_form root =
    (let left = lp_make_normal_disjunctive_form (operand0 p); right = lp_make_normal_disjunctive_form (operand1 p) in
     if lp_type p = LP_BOOLEAN_OR then LP_Default LP_BOOLEAN_OR left right
     else if lp_type p = LP_BOOLEAN_AND then distribute left right
     else p)"
  using assms by (subst lp_make_normal_disjunctive_form.simps) (cases p; simp add: Let_def)

lemma Default_not_NULL: "LP_Default t a b \<noteq> LP_NULL"
  by simp

lemma eval_or_chain: "cs \<noteq> [] \<Longrightarrow> eval e (or_chain cs) = kany (map (eval e) cs)"
  by (induction cs rule: or_chain.induct) simp_all

lemma normalizable_or_chain:
  "cs \<noteq> [] \<Longrightarrow> \<forall>c \<in> set cs. normalizable False c \<Longrightarrow> normalizable False (or_chain cs)"
  by (induction cs rule: or_chain.induct) simp_all

lemma normalizable_not_NULL: "normalizable neg p \<Longrightarrow> p \<noteq> LP_NULL"
  by auto

lemma or_clauses_Default:
  "or_clauses (LP_Default LP_BOOLEAN_OR a b) = (if b = LP_NULL then [a] else a # or_clauses b)"
  "t \<noteq> LP_BOOLEAN_OR \<Longrightarrow> or_clauses (LP_Default t a b) = [LP_Default t a b]"
  by (simp_all add: next_clause_def is_or_def)

lemma eval_or_clauses:
  "normalizable False p \<Longrightarrow> kany (map (eval e) (or_clauses p)) = eval e p"
proof (induction p)
  case (LP_Default t a b)
  show ?case
  proof (cases "t = LP_BOOLEAN_OR")
    case True
    then have "b \<noteq> LP_NULL" "kany (map (eval e) (or_clauses b)) = eval e b"
      using LP_Default by auto
    then show ?thesis using True by (simp only: or_clauses_Default) simp
  qed (simp add: or_clauses_Default del: eval.simps or_spine.simps)
qed (simp_all add: next_clause_def is_or_def)

lemma normalizable_or_clauses: "normalizable False p \<Longrightarrow> \<forall>c \<in> set (or_clauses p). normalizable False c"
proof (induction p)
  case (LP_Default t a b)
  show ?case
  proof (cases "t = LP_BOOLEAN_OR")
    case True
    then have "normalizable False a" "normalizable False b" using LP_Default.prems by simp_all
    then show ?thesis using LP_Default.IH(2) True by (simp add: or_clauses_Default del: or_spine.simps)
  next
    case False
    then show ?thesis using LP_Default.prems by (simp add: or_clauses_Default del: or_spine.simps normalizable.simps)
  qed
qed (simp_all add: next_clause_def is_or_def)

lemma or_clauses_single:
  assumes "normalizable False p" "length (or_clauses p) = 1"
  shows "or_clauses p = [p]" "\<not> is_or p"
proof -
  show "\<not> is_or p"
  proof
    assume "is_or p"
    then obtain a b where p: "p = LP_Default LP_BOOLEAN_OR a b" by (cases p) (auto simp: is_or_def split: if_splits)
    then show False using assms by (cases b) auto
  qed
  then show "or_clauses p = [p]" by (cases p) (auto simp: is_or_def next_clause_def)
qed

lemma eval_distribute:
  assumes "normalizable False left" "normalizable False right"
  shows "eval e (distribute left right) = kand (eval e left) (eval e right)"
proof -
  have "eval e (distribute left right) =
      kany (concat (map (\<lambda>x. map (kand x) (map (eval e) (or_clauses right))) (map (eval e) (or_clauses left))))"
    unfolding distribute_eq_or_chain by (subst eval_or_chain) (simp_all add: map_concat comp_def)
  then show ?thesis
    by (simp only: kand_kany [symmetric] eval_or_clauses assms)
qed

lemma normalizable_distribute:
  assumes "normalizable False left" "normalizable False right"
  shows "normalizable False (distribute left right)"
  unfolding distribute_eq_or_chain
  using normalizable_or_clauses [OF assms(1)] normalizable_or_clauses [OF assms(2)]
  by (intro normalizable_or_chain) auto

lemma normalizable_operands:
  assumes "normalizable False p" "lp_type p = LP_BOOLEAN_OR \<or> lp_type p = LP_BOOLEAN_AND"
  shows "normalizable False (operand0 p)" "normalizable False (operand1 p)"
    "eval e p = (if lp_type p = LP_BOOLEAN_OR then kor (eval e (operand0 p)) (eval e (operand1 p))
                 else kand (eval e (operand0 p)) (eval e (operand1 p)))"
  using assms by (cases p; auto split: if_splits)+

lemma size_operands:
  "lp_type p = LP_BOOLEAN_OR \<or> lp_type p = LP_BOOLEAN_AND \<Longrightarrow>
     size (operand0 p) < size p \<and> size (operand1 p) < size p"
  by (cases p) (simp_all split: if_splits)

lemma ndf_correct:
  assumes "normalizable False p"
  shows "normalizable False (lp_make_normal_disjunctive_form p) \<and>
    eval e (lp_make_normal_disjunctive_form p) = eval e p"
  using assms
proof (induction p rule: measure_induct_rule [where f = size])
  case (less root)
  define p where "p = lp_apply_not root 0"
  have p: "normalizable False p" "eval e p = eval e root"
    using normalizable_lp_apply_not [of 0 root] eval_lp_apply_not [of 0 root] less.prems by (auto simp: p_def)
  note unfold = ndf_unfold [OF normalizable_not_NULL [OF less.prems] p_def [symmetric]]
  show ?case
  proof (cases "lp_type p = LP_BOOLEAN_OR \<or> lp_type p = LP_BOOLEAN_AND")
    case True
    then have sz: "size (operand0 p) < size root" "size (operand1 p) < size root"
      using size_operands [of p] size_lp_apply_not [of root 0] unfolding p_def by linarith+
    note ops = normalizable_operands [OF p(1) True]
    show ?thesis
      using less.IH [OF sz(1) ops(1)] less.IH [OF sz(2) ops(2)] ops(3) [of e] p(2) True
      by (auto simp: unfold Let_def eval_distribute normalizable_distribute)
  qed (simp add: unfold p)
qed

section \<open>The expansion into a set operation\<close>

text \<open>A WHERE clause that the key fixing which follows can use: a conjunction without any OR in it.\<close>

fun conjunction :: "LogicalPlan \<Rightarrow> bool" where
  "conjunction (LP_Default t a b) =
     (if t = LP_BOOLEAN_AND then conjunction a \<and> conjunction b
      else if t = LP_BOOLEAN_NOT then row_null_test a \<or> not_negatable a
      else t \<noteq> LP_BOOLEAN_OR)"
| "conjunction p = (p \<noteq> LP_NULL)"

lemma lp_apply_not_keeps_NOT:
  "lp_apply_not p count = LP_Default LP_BOOLEAN_NOT a b \<Longrightarrow> row_null_test a \<or> not_negatable a"
proof (induction p arbitrary: count)
  case (LP_Default t a' b')
  have "row_null_test a' \<or> not_negatable a' \<Longrightarrow> a' \<noteq> LP_Default LP_BOOLEAN_NOT a b"
    using stops_leaf [of a'] by auto
  then show ?case
    using LP_Default.prems LP_Default.IH(1) [of "count + 1"] by (auto split: if_splits)
qed simp_all

lemma or_chain_not_or:
  assumes "cs \<noteq> []" "\<not> is_or (or_chain cs)"
  shows "length cs = 1" "or_chain cs = hd cs"
  using assms by (cases cs rule: or_chain.cases; simp add: is_or_def)+

lemma distribute_not_or:
  assumes "normalizable False left" "normalizable False right" "\<not> is_or (distribute left right)"
  shows "\<not> is_or left" "\<not> is_or right" "distribute left right = LP_Default LP_BOOLEAN_AND left right"
proof -
  let ?cs = "concat (map (\<lambda>l. map (LP_Default LP_BOOLEAN_AND l) (or_clauses right)) (or_clauses left))"
  have "length ?cs = 1" and d: "distribute left right = hd ?cs"
    using or_chain_not_or [of ?cs] assms(3) unfolding distribute_eq_or_chain by simp_all
  then have "length (or_clauses left) * length (or_clauses right) = 1"
    by (simp add: length_concat comp_def sum_list_triv)
  then have l: "length (or_clauses left) = 1" and r: "length (or_clauses right) = 1" by simp_all
  show "\<not> is_or left" "\<not> is_or right"
    using or_clauses_single(2) assms(1,2) l r by blast+
  show "distribute left right = LP_Default LP_BOOLEAN_AND left right"
    unfolding d or_clauses_single(1) [OF assms(1) l] or_clauses_single(1) [OF assms(2) r] by simp
qed

lemma ndf_conjunction:
  assumes "normalizable False p" "\<not> is_or (lp_make_normal_disjunctive_form p)"
  shows "conjunction (lp_make_normal_disjunctive_form p)"
  using assms
proof (induction p rule: measure_induct_rule [where f = size])
  case (less root)
  define p where "p = lp_apply_not root 0"
  have p: "normalizable False p"
    using normalizable_lp_apply_not [of 0 root] less.prems(1) by (simp add: p_def)
  note unfold = ndf_unfold [OF normalizable_not_NULL [OF less.prems(1)] p_def [symmetric]]
  show ?case
  proof (cases "lp_type p = LP_BOOLEAN_OR \<or> lp_type p = LP_BOOLEAN_AND")
    case True
    then have sz: "size (operand0 p) < size root" "size (operand1 p) < size root"
      using size_operands [of p] size_lp_apply_not [of root 0] unfolding p_def by linarith+
    have ops: "normalizable False (operand0 p)" "normalizable False (operand1 p)"
      using normalizable_operands [OF p True] by blast+
    have conj: "lp_type p = LP_BOOLEAN_AND"
      using True less.prems(2) by (auto simp: unfold Let_def is_or_def)
    then have "\<not> is_or (distribute (lp_make_normal_disjunctive_form (operand0 p))
        (lp_make_normal_disjunctive_form (operand1 p)))"
      using less.prems(2) by (simp add: unfold Let_def)
    note d = distribute_not_or [OF conjunct1 [OF ndf_correct [OF ops(1)]] conjunct1 [OF ndf_correct [OF ops(2)]] this]
    show ?thesis
      using less.IH [OF sz(1) ops(1) d(1)] less.IH [OF sz(2) ops(2) d(2)] d(3) conj
      by (simp add: unfold Let_def)
  next
    case False
    then show ?thesis
      using p lp_apply_not_keeps_NOT [of root 0] unfolding unfold
      by (cases p) (auto simp: Let_def p_def)
  qed
qed

lemma or_operands_normalizable:
  assumes "normalizable False p"
  shows "\<exists>cs cur. or_operands p = Some (cs, cur) \<and> (\<forall>c \<in> insert cur (set cs). normalizable False c)
    \<and> (\<forall>e. eval e p = kor (kany (map (eval e) cs)) (eval e cur))"
  using assms
proof (induction p)
  case (LP_Default t a b)
  show ?case
  proof (cases "t = LP_BOOLEAN_OR")
    case True
    then obtain cs cur where "or_operands b = Some (cs, cur)" "\<forall>c \<in> insert cur (set cs). normalizable False c"
      "\<forall>e. eval e b = kor (kany (map (eval e) cs)) (eval e cur)"
      using LP_Default by auto
    then show ?thesis using True LP_Default.prems by (auto simp: max.assoc)
  qed (use LP_Default.prems in simp)
qed auto

lemma kany_expand_dnf:
  "kany (map (eval e) (select_wheres (expand_dnf cs cur))) = kor (kany (map (eval e) cs)) (eval e cur)"
  unfolding expand_dnf_def by (induction cs rule: rev_induct) (simp_all add: max.assoc max.left_commute)

lemma optimize_logical_plan_correct:
  assumes "\<forall>w \<in> set (select_wheres p). normalizable False w"
  shows "\<exists>p'. optimize_logical_plan p = Some p' \<and> (\<forall>w \<in> set (select_wheres p'). conjunction w)
    \<and> (\<forall>e. kany (map (eval e) (select_wheres p')) = kany (map (eval e) (select_wheres p)))"
  using assms
proof (induction p rule: optimize_logical_plan.induct)
  case (1 p q)
  then show ?case by (fastforce split: option.splits)
next
  case (2 w)
  let ?cur = "lp_make_normal_disjunctive_form w"
  have w: "normalizable False ?cur" "\<And>e. eval e ?cur = eval e w"
    using ndf_correct [of w] 2 by auto
  show ?case
  proof (cases "is_or ?cur")
    case True
    obtain cs cur where c: "or_operands ?cur = Some (cs, cur)" "\<forall>c \<in> insert cur (set cs). normalizable False c"
      "\<And>e. eval e ?cur = kor (kany (map (eval e) cs)) (eval e cur)"
      using or_operands_normalizable [OF w(1)] by blast
    have "\<forall>w \<in> set (select_wheres (expand_dnf cs cur)). normalizable False w"
      using c(2) by (simp add: select_wheres_expand_dnf)
    from "2.IH" [OF refl _ c(1) refl this] True show ?thesis
      by (simp add: optimize_logical_plan.simps Let_def c kany_expand_dnf w(2) [symmetric])
  next
    case False
    then show ?thesis
      using ndf_conjunction [of w] 2 w by (simp add: optimize_logical_plan.simps Let_def)
  qed
qed

section \<open>Properties\<close>

text \<open>A row for the examples: \<open>LP_Opaque n\<close> has the value \<open>n\<close>, an unlisted Boolean operand is true.\<close>

definition sample_row :: row_env where
  "sample_row = \<lparr>scalar = (\<lambda>p. case p of LP_Opaque n \<Rightarrow> Some (int n) | _ \<Rightarrow> None), members = (\<lambda>_. [Some 1, None]),
     is_test = (\<lambda>_ _. False), row_is_not_null = (\<lambda>_. False), has_rows = (\<lambda>_. True), truth = (\<lambda>_. TT)\<rparr>"

text \<open>\<open>(2 < 1 OR 3 = 3) AND NOT (EXISTS (..) AND 4 IN (..))\<close>.\<close>

definition sample_where :: LogicalPlan where
  "sample_where = LP_Default LP_BOOLEAN_AND
     (LP_Default LP_BOOLEAN_OR
       (LP_Default LP_BOOLEAN_LESS_THAN (LP_Opaque 2) (LP_Opaque 1))
       (LP_Default LP_BOOLEAN_EQUALS (LP_Opaque 3) (LP_Opaque 3)))
     (LP_Default LP_BOOLEAN_NOT
       (LP_Default LP_BOOLEAN_AND
         (LP_Default LP_BOOLEAN_EXISTS (LP_Opaque 7) LP_NULL)
         (LP_Default LP_BOOLEAN_IN (LP_Opaque 4) (LP_Opaque 6)))
       LP_NULL)"

lemma sample_where_normalizable: "normalizable False sample_where"
  by (simp add: sample_where_def negatable_def row_null_test_def not_negatable_def before_LP_ADDITION_def)



text \<open>
  C18: pushing NOT inwards is correct in SQL's three-valued logic: below an even number of NOTs \<open>lp_apply_not\<close> keeps
  the truth value of a plan, below an odd number it negates it, for plans whose leaves under a negated AND or OR have
  an opposite.
\<close>

theorem lp_apply_not_negates:
  assumes "normalizable (odd count) p"
  shows "eval e (lp_apply_not p count) = (if odd count then kneg (eval e p) else eval e p)"
  using assms by (rule eval_lp_apply_not)

theorem lp_apply_not_negates_witness:
  "eval sample_row (lp_apply_not (LP_Default LP_BOOLEAN_NOT (LP_Default LP_BOOLEAN_IN (LP_Opaque 4) (LP_Opaque 6)) LP_NULL) 0)
     = eval sample_row (LP_Default LP_BOOLEAN_NOT (LP_Default LP_BOOLEAN_IN (LP_Opaque 4) (LP_Opaque 6)) LP_NULL)"
  using lp_apply_not_negates
    [of 0 "LP_Default LP_BOOLEAN_NOT (LP_Default LP_BOOLEAN_IN (LP_Opaque 4) (LP_Opaque 6)) LP_NULL" sample_row]
  by (simp add: negatable_def del: lp_apply_not_Default eval.simps)



text \<open>
  the loops that distribute an AND over two chains of ORs, with the promotion of the last item, build exactly
  the chain of ORs over all conjunctions of a left clause and a right clause, in row-major order.
\<close>

theorem distribute_is_product:
  "distribute left right =
     or_chain [LP_Default LP_BOOLEAN_AND l r. l \<leftarrow> or_clauses left, r \<leftarrow> or_clauses right]"
  unfolding distribute_eq_or_chain by (simp add: comp_def)

text \<open>
  C37: the negation of a conjunction that has a regular expression match as an operand is rewritten wrongly: the match is
  kept where its negation is meant (the default case of the switch in \<open>lp_apply_not\<close>), so that the rewritten
  clause can be true in a row in which the original one is false.
\<close>

theorem negated_regex_differs:
  "\<exists>e. let w = LP_Default LP_BOOLEAN_NOT
         (LP_Default LP_BOOLEAN_AND
           (LP_Default LP_BOOLEAN_EQUALS (LP_Opaque 1) (LP_Opaque 1))
           (LP_Default LP_BOOLEAN_REGEX_SENSITIVE_LIKE (LP_Opaque 2) (LP_Opaque 3))) LP_NULL in
       eval e w = FF \<and> eval e (lp_make_normal_disjunctive_form w) = TT"
proof -
  let ?c = "LP_Default LP_BOOLEAN_EQUALS (LP_Opaque 1) (LP_Opaque 1)"
  let ?n = "LP_Default LP_BOOLEAN_NOT_EQUALS (LP_Opaque 1) (LP_Opaque 1)"
  let ?r = "LP_Default LP_BOOLEAN_REGEX_SENSITIVE_LIKE (LP_Opaque 2) (LP_Opaque 3)"
  let ?w = "LP_Default LP_BOOLEAN_NOT (LP_Default LP_BOOLEAN_AND ?c ?r) LP_NULL"
  have leaf: "lp_make_normal_disjunctive_form ?n = ?n" "lp_make_normal_disjunctive_form ?r = ?r"
    by (simp_all only: ndf_unfold [OF Default_not_NULL refl]) (simp_all add: Let_def)
  have "lp_make_normal_disjunctive_form ?w = LP_Default LP_BOOLEAN_OR ?n ?r"
    unfolding ndf_unfold [OF Default_not_NULL refl, of LP_BOOLEAN_NOT]
    by (simp add: Let_def leaf [unfolded One_nat_def] row_null_test_def not_negatable_def before_LP_ADDITION_def)
  then show ?thesis
    by (intro exI [of _ sample_row]) (simp add: sample_row_def tv_of_def)
qed

text \<open>A row satisfies a WHERE plan, where a missing plan or operand excludes no row.\<close>

definition where_holds :: "row_env \<Rightarrow> LogicalPlan \<Rightarrow> bool" where
  "where_holds e w \<longleftrightarrow> w = LP_NULL \<or> operand0 w = LP_NULL \<or> eval e (operand0 w) = TT"

text \<open>
  \<open>lp_join_where\<close> is the conjunction of two WHERE plans: a row satisfies the result if and only if it satisfies the
  operands of both, where a missing plan or a plan without an operand is satisfied by every row.
\<close>

theorem lp_join_where_conjunction:
  "where_holds e (lp_join_where w1 w2) \<longleftrightarrow> where_holds e w1 \<and> where_holds e w2"
  by (auto simp: where_holds_def lp_join_where_def min_def less_eq_tv_def)

end
