(* ===== verification/Data_Types.thy ===== *)
theory Data_Types
  imports Message_Make
begin

text \<open>
  The type system of Octo's SQL: the value and data types of \<open>octo_types.h\<close>, the conversions between
  them and the PostgreSQL type numbers (\<open>get_*_from_*.c\<close>), and the names shown to the user
  (\<open>get_user_visible_*.c\<close>). Where the C code asserts that a case is impossible the model follows the code
  with assertions off.
\<close>

section \<open>Types and operations\<close>

datatype SqlValueType =
    UNKNOWN_SqlValueType | BOOLEAN_VALUE | NUMERIC_LITERAL | INTEGER_LITERAL | STRING_LITERAL
  | COLUMN_REFERENCE | CALCULATED_VALUE | FUNCTION_NAME | FUNCTION_HASH | PARAMETER_VALUE | NUL_VALUE
  | COERCE_TYPE | DELIM_VALUE | IS_NULL_LITERAL | TABLE_ASTERISK | BOOLEAN_OR_STRING_LITERAL | SELECT_ASTERISK
  | DATE_LITERAL | TIME_LITERAL | TIME_WITH_TIME_ZONE_LITERAL | TIMESTAMP_LITERAL
  | TIMESTAMP_WITH_TIME_ZONE_LITERAL | INVALID_SqlValueType

datatype SqlDataType =
    UNKNOWN_SqlDataType | BOOLEAN_TYPE | INTEGER_TYPE | NUMERIC_TYPE | STRING_TYPE | NUL_TYPE | DATE_TYPE
  | TIME_TYPE | TIME_WITH_TIME_ZONE_TYPE | TIMESTAMP_TYPE | TIMESTAMP_WITH_TIME_ZONE_TYPE

datatype BinaryOperations =
    ADDITION | SUBTRACTION | DIVISION | MULTIPLICATION | MODULO | CONCAT | BOOLEAN_OR | BOOLEAN_AND | BOOLEAN_IS
  | BOOLEAN_IS_NOT | BOOLEAN_EQUALS | BOOLEAN_NOT_EQUALS | BOOLEAN_LESS_THAN | BOOLEAN_GREATER_THAN
  | BOOLEAN_LESS_THAN_OR_EQUALS | BOOLEAN_GREATER_THAN_OR_EQUALS | BOOLEAN_REGEX_SENSITIVE
  | BOOLEAN_REGEX_INSENSITIVE | BOOLEAN_REGEX_SENSITIVE_LIKE | BOOLEAN_REGEX_INSENSITIVE_LIKE
  | BOOLEAN_REGEX_SENSITIVE_SIMILARTO | BOOLEAN_REGEX_INSENSITIVE_SIMILARTO | BOOLEAN_IN | BOOLEAN_NOT_IN
  | BOOLEAN_ANY_EQUALS | BOOLEAN_ANY_NOT_EQUALS | BOOLEAN_ANY_LESS_THAN | BOOLEAN_ANY_GREATER_THAN
  | BOOLEAN_ANY_LESS_THAN_OR_EQUALS | BOOLEAN_ANY_GREATER_THAN_OR_EQUALS | BOOLEAN_ALL_EQUALS
  | BOOLEAN_ALL_NOT_EQUALS | BOOLEAN_ALL_LESS_THAN | BOOLEAN_ALL_GREATER_THAN
  | BOOLEAN_ALL_LESS_THAN_OR_EQUALS | BOOLEAN_ALL_GREATER_THAN_OR_EQUALS | DATE_TIME_ADDITION | DATE_TIME_SUBTRACTION

datatype UnaryOperations = FORCE_NUM | NEGATIVE | BOOLEAN_NOT | BOOLEAN_EXISTS | BOOLEAN_NOT_EXISTS

definition IS_NUL_VALUE :: "SqlValueType \<Rightarrow> bool" where
  "IS_NUL_VALUE t \<longleftrightarrow> t = NUL_VALUE"

definition IS_BOOLEAN_TYPE :: "SqlValueType \<Rightarrow> bool" where
  "IS_BOOLEAN_TYPE t \<longleftrightarrow> t = BOOLEAN_VALUE \<or> t = BOOLEAN_OR_STRING_LITERAL \<or> IS_NUL_VALUE t"

definition IS_STRING_TYPE :: "SqlValueType \<Rightarrow> bool" where
  "IS_STRING_TYPE t \<longleftrightarrow> t = STRING_LITERAL \<or> t = BOOLEAN_OR_STRING_LITERAL \<or> IS_NUL_VALUE t"

definition IS_DATE_TIME_TYPE :: "SqlValueType \<Rightarrow> bool" where
  "IS_DATE_TIME_TYPE t \<longleftrightarrow> t = DATE_LITERAL \<or> t = TIME_LITERAL \<or> t = TIME_WITH_TIME_ZONE_LITERAL
     \<or> t = TIMESTAMP_LITERAL \<or> t = TIMESTAMP_WITH_TIME_ZONE_LITERAL"

definition IS_DATE :: "SqlValueType \<Rightarrow> bool" where
  "IS_DATE t \<longleftrightarrow> t = DATE_LITERAL"

definition IS_TIME :: "SqlValueType \<Rightarrow> bool" where
  "IS_TIME t \<longleftrightarrow> t = TIME_LITERAL \<or> t = TIME_WITH_TIME_ZONE_LITERAL"

definition IS_TIMESTAMP :: "SqlValueType \<Rightarrow> bool" where
  "IS_TIMESTAMP t \<longleftrightarrow> t = TIMESTAMP_LITERAL \<or> t = TIMESTAMP_WITH_TIME_ZONE_LITERAL"

lemmas type_tests = IS_NUL_VALUE_def IS_BOOLEAN_TYPE_def IS_STRING_TYPE_def IS_DATE_TIME_TYPE_def IS_DATE_def
  IS_TIME_def IS_TIMESTAMP_def

section \<open>Conversions\<close>

fun get_psql_type_from_sqlvaluetype :: "SqlValueType \<Rightarrow> int" where
  "get_psql_type_from_sqlvaluetype BOOLEAN_VALUE = PSQL_TypeOid_bool"
| "get_psql_type_from_sqlvaluetype INTEGER_LITERAL = PSQL_TypeOid_int4"
| "get_psql_type_from_sqlvaluetype NUMERIC_LITERAL = PSQL_TypeOid_numeric"
| "get_psql_type_from_sqlvaluetype BOOLEAN_OR_STRING_LITERAL = PSQL_TypeOid_varchar"
| "get_psql_type_from_sqlvaluetype STRING_LITERAL = PSQL_TypeOid_varchar"
| "get_psql_type_from_sqlvaluetype PARAMETER_VALUE = PSQL_TypeOid_unknown"
| "get_psql_type_from_sqlvaluetype NUL_VALUE = PSQL_TypeOid_unknown"
| "get_psql_type_from_sqlvaluetype DATE_LITERAL = PSQL_TypeOid_date"
| "get_psql_type_from_sqlvaluetype TIME_LITERAL = PSQL_TypeOid_time"
| "get_psql_type_from_sqlvaluetype TIME_WITH_TIME_ZONE_LITERAL = PSQL_TypeOid_timetz"
| "get_psql_type_from_sqlvaluetype TIMESTAMP_LITERAL = PSQL_TypeOid_timestamp"
| "get_psql_type_from_sqlvaluetype TIMESTAMP_WITH_TIME_ZONE_LITERAL = PSQL_TypeOid_timestamptz"
| "get_psql_type_from_sqlvaluetype _ = PSQL_TypeOid_unknown"

definition get_sqlvaluetype_from_psql_type :: "int \<Rightarrow> SqlValueType" where
  "get_sqlvaluetype_from_psql_type t =
     (if t = PSQL_TypeOid_int2 \<or> t = PSQL_TypeOid_int4 \<or> t = PSQL_TypeOid_int8 then INTEGER_LITERAL
      else if t = PSQL_TypeOid_numeric then NUMERIC_LITERAL
      else if t = PSQL_TypeOid_varchar then STRING_LITERAL
      else if t = PSQL_TypeOid_date then DATE_LITERAL
      else if t = PSQL_TypeOid_time then TIME_LITERAL
      else if t = PSQL_TypeOid_timetz then TIME_WITH_TIME_ZONE_LITERAL
      else if t = PSQL_TypeOid_timestamp then TIMESTAMP_LITERAL
      else if t = PSQL_TypeOid_timestamptz then TIMESTAMP_WITH_TIME_ZONE_LITERAL
      else UNKNOWN_SqlValueType)"

fun get_sqldatatype_from_sqlvaluetype :: "SqlValueType \<Rightarrow> SqlDataType" where
  "get_sqldatatype_from_sqlvaluetype BOOLEAN_VALUE = BOOLEAN_TYPE"
| "get_sqldatatype_from_sqlvaluetype INTEGER_LITERAL = INTEGER_TYPE"
| "get_sqldatatype_from_sqlvaluetype NUMERIC_LITERAL = NUMERIC_TYPE"
| "get_sqldatatype_from_sqlvaluetype BOOLEAN_OR_STRING_LITERAL = STRING_TYPE"
| "get_sqldatatype_from_sqlvaluetype STRING_LITERAL = STRING_TYPE"
| "get_sqldatatype_from_sqlvaluetype NUL_VALUE = NUL_TYPE"
| "get_sqldatatype_from_sqlvaluetype DATE_LITERAL = DATE_TYPE"
| "get_sqldatatype_from_sqlvaluetype TIME_LITERAL = TIME_TYPE"
| "get_sqldatatype_from_sqlvaluetype TIME_WITH_TIME_ZONE_LITERAL = TIME_WITH_TIME_ZONE_TYPE"
| "get_sqldatatype_from_sqlvaluetype TIMESTAMP_LITERAL = TIMESTAMP_TYPE"
| "get_sqldatatype_from_sqlvaluetype TIMESTAMP_WITH_TIME_ZONE_LITERAL = TIMESTAMP_WITH_TIME_ZONE_TYPE"
| "get_sqldatatype_from_sqlvaluetype _ = UNKNOWN_SqlDataType"

text \<open>The flag for unknown types decides only whether an error is logged.\<close>

fun get_sqlvaluetype_from_sqldatatype :: "SqlDataType \<Rightarrow> bool \<Rightarrow> SqlValueType" where
  "get_sqlvaluetype_from_sqldatatype BOOLEAN_TYPE okay = BOOLEAN_VALUE"
| "get_sqlvaluetype_from_sqldatatype INTEGER_TYPE okay = INTEGER_LITERAL"
| "get_sqlvaluetype_from_sqldatatype NUMERIC_TYPE okay = NUMERIC_LITERAL"
| "get_sqlvaluetype_from_sqldatatype STRING_TYPE okay = STRING_LITERAL"
| "get_sqlvaluetype_from_sqldatatype NUL_TYPE okay = NUL_VALUE"
| "get_sqlvaluetype_from_sqldatatype DATE_TYPE okay = DATE_LITERAL"
| "get_sqlvaluetype_from_sqldatatype TIME_TYPE okay = TIME_LITERAL"
| "get_sqlvaluetype_from_sqldatatype TIME_WITH_TIME_ZONE_TYPE okay = TIME_WITH_TIME_ZONE_LITERAL"
| "get_sqlvaluetype_from_sqldatatype TIMESTAMP_TYPE okay = TIMESTAMP_LITERAL"
| "get_sqlvaluetype_from_sqldatatype TIMESTAMP_WITH_TIME_ZONE_TYPE okay = TIMESTAMP_WITH_TIME_ZONE_LITERAL"
| "get_sqlvaluetype_from_sqldatatype UNKNOWN_SqlDataType okay = UNKNOWN_SqlValueType"

section \<open>Names\<close>

fun get_user_visible_type_string :: "SqlValueType \<Rightarrow> string" where
  "get_user_visible_type_string BOOLEAN_VALUE = ''BOOLEAN''"
| "get_user_visible_type_string NUMERIC_LITERAL = ''NUMERIC''"
| "get_user_visible_type_string INTEGER_LITERAL = ''INTEGER''"
| "get_user_visible_type_string BOOLEAN_OR_STRING_LITERAL = ''VARCHAR''"
| "get_user_visible_type_string STRING_LITERAL = ''VARCHAR''"
| "get_user_visible_type_string TABLE_ASTERISK = ''TABLENAME.*''"
| "get_user_visible_type_string PARAMETER_VALUE = ''PARAMETER''"
| "get_user_visible_type_string NUL_VALUE = ''NULL''"
| "get_user_visible_type_string DATE_LITERAL = ''DATE''"
| "get_user_visible_type_string TIME_LITERAL = ''TIME''"
| "get_user_visible_type_string TIME_WITH_TIME_ZONE_LITERAL = ''TIME WITH TIME ZONE''"
| "get_user_visible_type_string TIMESTAMP_LITERAL = ''TIMESTAMP''"
| "get_user_visible_type_string TIMESTAMP_WITH_TIME_ZONE_LITERAL = ''TIMESTAMP WITH TIME ZONE''"
| "get_user_visible_type_string _ = ''''"

fun get_user_visible_binary_operator_string :: "BinaryOperations \<Rightarrow> string" where
  "get_user_visible_binary_operator_string ADDITION = ''+''"
| "get_user_visible_binary_operator_string SUBTRACTION = ''-''"
| "get_user_visible_binary_operator_string DIVISION = ''/''"
| "get_user_visible_binary_operator_string MULTIPLICATION = ''*''"
| "get_user_visible_binary_operator_string MODULO = ''%''"
| "get_user_visible_binary_operator_string CONCAT = ''||''"
| "get_user_visible_binary_operator_string BOOLEAN_OR = ''OR''"
| "get_user_visible_binary_operator_string BOOLEAN_AND = ''AND''"
| "get_user_visible_binary_operator_string BOOLEAN_IS = ''IS''"
| "get_user_visible_binary_operator_string BOOLEAN_IS_NOT = ''IS NOT''"
| "get_user_visible_binary_operator_string BOOLEAN_EQUALS = ''=''"
| "get_user_visible_binary_operator_string BOOLEAN_NOT_EQUALS = ''!=''"
| "get_user_visible_binary_operator_string BOOLEAN_LESS_THAN = ''<''"
| "get_user_visible_binary_operator_string BOOLEAN_GREATER_THAN = ''>''"
| "get_user_visible_binary_operator_string BOOLEAN_LESS_THAN_OR_EQUALS = ''<=''"
| "get_user_visible_binary_operator_string BOOLEAN_GREATER_THAN_OR_EQUALS = ''>=''"
| "get_user_visible_binary_operator_string BOOLEAN_REGEX_SENSITIVE = ''~''"
| "get_user_visible_binary_operator_string BOOLEAN_REGEX_INSENSITIVE = ''~*''"
| "get_user_visible_binary_operator_string BOOLEAN_REGEX_SENSITIVE_LIKE = ''LIKE''"
| "get_user_visible_binary_operator_string BOOLEAN_REGEX_INSENSITIVE_LIKE = ''ILIKE''"
| "get_user_visible_binary_operator_string BOOLEAN_REGEX_SENSITIVE_SIMILARTO = ''SIMILAR TO''"
| "get_user_visible_binary_operator_string BOOLEAN_REGEX_INSENSITIVE_SIMILARTO = ''''"
| "get_user_visible_binary_operator_string BOOLEAN_IN = ''IN''"
| "get_user_visible_binary_operator_string BOOLEAN_NOT_IN = ''NOT IN''"
| "get_user_visible_binary_operator_string BOOLEAN_ANY_EQUALS = ''= ANY''"
| "get_user_visible_binary_operator_string BOOLEAN_ANY_NOT_EQUALS = ''!= ANY''"
| "get_user_visible_binary_operator_string BOOLEAN_ANY_LESS_THAN = ''< ANY''"
| "get_user_visible_binary_operator_string BOOLEAN_ANY_GREATER_THAN = ''> ANY''"
| "get_user_visible_binary_operator_string BOOLEAN_ANY_LESS_THAN_OR_EQUALS = ''<= ANY''"
| "get_user_visible_binary_operator_string BOOLEAN_ANY_GREATER_THAN_OR_EQUALS = ''>= ANY''"
| "get_user_visible_binary_operator_string BOOLEAN_ALL_EQUALS = ''= ALL''"
| "get_user_visible_binary_operator_string BOOLEAN_ALL_NOT_EQUALS = ''!= ALL''"
| "get_user_visible_binary_operator_string BOOLEAN_ALL_LESS_THAN = ''< ALL''"
| "get_user_visible_binary_operator_string BOOLEAN_ALL_GREATER_THAN = ''> ALL''"
| "get_user_visible_binary_operator_string BOOLEAN_ALL_LESS_THAN_OR_EQUALS = ''<= ALL''"
| "get_user_visible_binary_operator_string BOOLEAN_ALL_GREATER_THAN_OR_EQUALS = ''>= ALL''"
| "get_user_visible_binary_operator_string DATE_TIME_ADDITION = ''+''"
| "get_user_visible_binary_operator_string DATE_TIME_SUBTRACTION = ''-''"

fun get_user_visible_unary_operator_string :: "UnaryOperations \<Rightarrow> string" where
  "get_user_visible_unary_operator_string FORCE_NUM = ''+''"
| "get_user_visible_unary_operator_string NEGATIVE = ''-''"
| "get_user_visible_unary_operator_string BOOLEAN_NOT = ''NOT''"
| "get_user_visible_unary_operator_string BOOLEAN_EXISTS = ''EXISTS''"
| "get_user_visible_unary_operator_string BOOLEAN_NOT_EXISTS = ''''"

section \<open>Data types with size and format\<close>

datatype date_time_format =
    OPTIONAL_DATE_TIME_HOROLOG | OPTIONAL_DATE_TIME_ZHOROLOG | OPTIONAL_DATE_TIME_FILEMAN | OPTIONAL_DATE_TIME_ZUT
  | OPTIONAL_DATE_TIME_TEXT

record SqlDataTypeStruct =
  data_type :: SqlDataType
  size_or_precision :: int
  scale :: int
  format :: date_time_format

definition SIZE_OR_PRECISION_UNSPECIFIED :: int where
  "SIZE_OR_PRECISION_UNSPECIFIED = - 1"

definition SCALE_UNSPECIFIED :: int where
  "SCALE_UNSPECIFIED = SIZE_OR_PRECISION_UNSPECIFIED"

fun get_date_time_format_string :: "date_time_format \<Rightarrow> string" where
  "get_date_time_format_string OPTIONAL_DATE_TIME_FILEMAN = ''FILEMAN''"
| "get_date_time_format_string OPTIONAL_DATE_TIME_HOROLOG = ''HOROLOG''"
| "get_date_time_format_string OPTIONAL_DATE_TIME_ZHOROLOG = ''ZHOROLOG''"
| "get_date_time_format_string OPTIONAL_DATE_TIME_ZUT = ''ZUT''"
| "get_date_time_format_string OPTIONAL_DATE_TIME_TEXT = ''''"

text \<open>
  One \<open>snprintf\<close> at the end of what is in the buffer, with its test \<open>len >= avail\<close>: \<open>None\<close> is the
  return value \<open>-1\<close> of the function.
\<close>

definition append_string :: "nat \<Rightarrow> bytes \<Rightarrow> bytes \<Rightarrow> bytes option" where
  "append_string ret_buff_size s done =
     (if int (length s) \<ge> int ret_buff_size - int (length done) then None else Some (done @ s))"

definition print_date_time_format :: "nat \<Rightarrow> date_time_format \<Rightarrow> bytes \<Rightarrow> bytes option" where
  "print_date_time_format ret_buff_size fmt done =
     (if fmt \<noteq> OPTIONAL_DATE_TIME_TEXT
      then append_string ret_buff_size (lit ''('' @ lit (get_date_time_format_string fmt) @ lit '')'') done
      else Some done)"

definition print_size :: "nat \<Rightarrow> SqlDataTypeStruct \<Rightarrow> bytes \<Rightarrow> bytes option" where
  "print_size ret_buff_size d done =
     (if size_or_precision d \<noteq> SIZE_OR_PRECISION_UNSPECIFIED
      then append_string ret_buff_size (lit ''('' @ fmt_d (size_or_precision d) @ lit '')'') done
      else Some done)"

definition print_precision_scale :: "nat \<Rightarrow> SqlDataTypeStruct \<Rightarrow> bytes \<Rightarrow> bytes option" where
  "print_precision_scale ret_buff_size d done =
     (if size_or_precision d \<noteq> SIZE_OR_PRECISION_UNSPECIFIED
      then append_string ret_buff_size
        (if scale d \<noteq> SCALE_UNSPECIFIED
         then lit ''('' @ fmt_d (size_or_precision d) @ lit '','' @ fmt_d (scale d) @ lit '')''
         else lit ''('' @ fmt_d (size_or_precision d) @ lit '')'') done
      else Some done)"

definition get_user_visible_data_type_string :: "SqlDataTypeStruct \<Rightarrow> nat \<Rightarrow> bytes option" where
  "get_user_visible_data_type_string d ret_buff_size =
     (let put = (\<lambda>s. append_string ret_buff_size (lit s)) in
      case data_type d of
        BOOLEAN_TYPE \<Rightarrow> put ''BOOLEAN'' []
      | INTEGER_TYPE \<Rightarrow> Option.bind (put ''INTEGER'' []) (print_size ret_buff_size d)
      | NUMERIC_TYPE \<Rightarrow> Option.bind (put ''NUMERIC'' []) (print_precision_scale ret_buff_size d)
      | STRING_TYPE \<Rightarrow> Option.bind (put ''VARCHAR'' []) (print_size ret_buff_size d)
      | DATE_TYPE \<Rightarrow> Option.bind (put ''DATE'' []) (print_date_time_format ret_buff_size (format d))
      | TIME_TYPE \<Rightarrow> Option.bind (put ''TIME'' []) (print_date_time_format ret_buff_size (format d))
      | TIME_WITH_TIME_ZONE_TYPE \<Rightarrow>
          Option.bind (Option.bind (put ''TIME'' []) (print_date_time_format ret_buff_size (format d)))
            (put '' WITH TIME ZONE'')
      | TIMESTAMP_TYPE \<Rightarrow> Option.bind (put ''TIMESTAMP'' []) (print_date_time_format ret_buff_size (format d))
      | TIMESTAMP_WITH_TIME_ZONE_TYPE \<Rightarrow>
          Option.bind (Option.bind (put ''TIMESTAMP'' []) (print_date_time_format ret_buff_size (format d)))
            (put '' WITH TIME ZONE'')
      | UNKNOWN_SqlDataType \<Rightarrow> None
      | NUL_TYPE \<Rightarrow> None)"

definition MAX_USER_VISIBLE_TYPE_STRING_LEN :: nat where
  "MAX_USER_VISIBLE_TYPE_STRING_LEN = 25 + 4 + 2 * 12"

end
