(* ===== verification/Regex_Literal.thy ===== *)
theory Regex_Literal
  imports Data_Types
begin

text \<open>
  Statements as operands of an expression, and \<open>regex_has_no_special_characters.c\<close>: the test
  whether the pattern of LIKE or SIMILAR TO is a plain string, which turns the match into an
  equality. A literal is its characters without the terminating NUL.
\<close>

section \<open>Operands\<close>

text \<open>
  What the type checks look at in an operand: of a literal its type, its text and the index of its
  parameter (0 for none); of a cast its target type, the type before the cast and its operand; of a
  column reference whether it is \<open>table.*\<close>, the column types of the set operation it refers to, if
  it refers to one (empty for a list that is not set), the column types of its table and its column number.
\<close>

datatype SqlStatement =
    value_STATEMENT SqlValueType string int
  | coerce_STATEMENT SqlDataType SqlValueType SqlStatement
  | column_alias_STATEMENT bool "SqlValueType list option" "SqlValueType list" nat
  | column_list_STATEMENT "SqlStatement list"
  | table_alias_STATEMENT nat
  | set_operation_STATEMENT nat
  | other_STATEMENT nat

fun is_stmt_table_asterisk :: "SqlStatement \<Rightarrow> bool" where
  "is_stmt_table_asterisk (value_STATEMENT t _ _) = (t = TABLE_ASTERISK)"
| "is_stmt_table_asterisk (column_alias_STATEMENT asterisk _ _ _) = asterisk"
| "is_stmt_table_asterisk _ = False"

section \<open>Patterns without special characters\<close>

datatype RegexType = REGEX_LIKE | REGEX_SIMILARTO

definition backslash :: char where
  "backslash = CHR 0x5C"

definition similarto_special :: "char \<Rightarrow> bool" where
  "similarto_special cur \<longleftrightarrow> cur \<in> set ''|*+([{?''"

text \<open>
  The loop over the pattern: \<open>seen\<close> is the part before \<open>ptr\<close>, \<open>esc_state\<close> the flag, \<open>minus_escape\<close> the buffer
  with the text minus escapes once it is allocated. The result is \<open>has_regex_chars\<close> and the buffer.
\<close>

fun regex_scan :: "RegexType \<Rightarrow> string \<Rightarrow> string \<Rightarrow> bool \<Rightarrow> string option \<Rightarrow> bool \<times> string option" where
  "regex_scan regex_type seen [] esc_state minus_escape = (esc_state, minus_escape)"
| "regex_scan regex_type seen (cur # rest) esc_state minus_escape =
     (if esc_state then
        regex_scan regex_type (seen @ [cur]) rest False
          (Some ((case minus_escape of None \<Rightarrow> butlast seen | Some s \<Rightarrow> s) @ [cur]))
      else if cur = backslash then regex_scan regex_type (seen @ [cur]) rest True minus_escape
      else if cur = CHR ''%'' \<or> cur = CHR ''_'' then (True, minus_escape)
      else if similarto_special cur \<and> regex_type = REGEX_SIMILARTO then (True, minus_escape)
      else regex_scan regex_type (seen @ [cur]) rest False (map_option (\<lambda>s. s @ [cur]) minus_escape))"

text \<open>
  The result is the return value and the statement. Storing the changed literal of parameter \<open>i\<close> in the
  database (\<open>parse_literal_to_parameter\<close>) is the argument \<open>store\<close>, which tells whether it succeeds.
\<close>

definition regex_has_no_special_characters ::
    "(int \<Rightarrow> string \<Rightarrow> bool) \<Rightarrow> SqlStatement \<Rightarrow> RegexType \<Rightarrow> int \<times> SqlStatement" where
  "regex_has_no_special_characters store stmt regex_type =
     (case stmt of
        value_STATEMENT t s i \<Rightarrow>
          if \<not> IS_STRING_TYPE t then (0, stmt)
          else
            (case regex_scan regex_type [] s False None of
               (True, _) \<Rightarrow> (0, stmt)
             | (False, None) \<Rightarrow> (1, stmt)
             | (False, Some s') \<Rightarrow>
                 if i \<noteq> 0 \<and> \<not> store i s' then (- 1, value_STATEMENT t s' i)
                 else (1, value_STATEMENT t s' i))
      | _ \<Rightarrow> (0, stmt))"

section \<open>LIKE\<close>

text \<open>
  The meaning of LIKE: \<open>_\<close> matches one character, \<open>%\<close> any number of them, a backslash takes the character
  after it literally, and the whole string has to match.
\<close>

fun like_match :: "string \<Rightarrow> string \<Rightarrow> bool" where
  "like_match [] x = (x = [])"
| "like_match (cur # p) x =
     (if cur = backslash then
        (case p of [] \<Rightarrow> False | c # p' \<Rightarrow> (case x of [] \<Rightarrow> False | d # x' \<Rightarrow> d = c \<and> like_match p' x'))
      else if cur = CHR ''%'' then list_ex (like_match p) (map (\<lambda>n. drop n x) [0..<Suc (length x)])
      else if cur = CHR ''_'' then (case x of [] \<Rightarrow> False | d # x' \<Rightarrow> like_match p x')
      else (case x of [] \<Rightarrow> False | d # x' \<Rightarrow> d = cur \<and> like_match p x'))"

text \<open>The text of a pattern without its escapes.\<close>

fun unescape :: "string \<Rightarrow> string" where
  "unescape [] = []"
| "unescape (cur # p) = (if cur = backslash then (case p of [] \<Rightarrow> [] | c # p' \<Rightarrow> c # unescape p') else cur # unescape p)"

text \<open>A pattern in which every special character is escaped and no escape is left open.\<close>

fun plain_pattern :: "RegexType \<Rightarrow> string \<Rightarrow> bool" where
  "plain_pattern t [] = True"
| "plain_pattern t (cur # p) =
     (if cur = backslash then (case p of [] \<Rightarrow> False | c # p' \<Rightarrow> plain_pattern t p')
      else cur \<noteq> CHR ''%'' \<and> cur \<noteq> CHR ''_'' \<and> \<not> (similarto_special cur \<and> t = REGEX_SIMILARTO) \<and> plain_pattern t p)"

section \<open>Correctness of the scan\<close>

lemma backslash_not_special [simp]:
  "backslash \<noteq> CHR ''%''" "backslash \<noteq> CHR ''_''" "CHR ''%'' \<noteq> backslash" "CHR ''_'' \<noteq> backslash"
  by (simp_all add: backslash_def)

lemma regex_scan_spec:
  "fst (regex_scan t seen p False out) = (\<not> plain_pattern t p)
   \<and> (plain_pattern t p \<longrightarrow>
       snd (regex_scan t seen p False out) =
         (case out of Some s \<Rightarrow> Some (s @ unescape p)
          | None \<Rightarrow> if backslash \<in> set p then Some (seen @ unescape p) else None))"
proof (induction p arbitrary: seen out rule: unescape.induct)
  case (2 cur p)
  show ?case
  proof (cases "cur = backslash")
    case True
    then show ?thesis
      using "2.IH"(1) [OF True] by (cases p; cases out) (simp_all add: butlast_append)
  next
    case False
    then show ?thesis
      using "2.IH"(2) [OF False] by (cases out) auto
  qed
qed (simp split: option.split)

lemma unescape_plain: "backslash \<notin> set p \<Longrightarrow> unescape p = p"
  by (induction p) auto

lemma length_unescape: "length (unescape p) \<le> length p"
  by (induction p rule: unescape.induct) (auto split: list.split)

lemma length_unescape_less: "backslash \<in> set p \<Longrightarrow> length (unescape p) < length p"
proof (induction p rule: unescape.induct)
  case (2 cur p)
  show ?case
  proof (cases "cur = backslash")
    case True
    then show ?thesis using length_unescape [of "tl p"] by (cases p) auto
  next
    case False
    then show ?thesis using "2.IH"(2) [OF False] "2.prems" by simp
  qed
qed simp

lemma plain_similarto: "plain_pattern REGEX_SIMILARTO p \<Longrightarrow> plain_pattern REGEX_LIKE p"
  by (induction p rule: unescape.induct) (auto split: list.splits if_splits)

lemma plain_like: "plain_pattern t p \<Longrightarrow> plain_pattern REGEX_LIKE p"
  using plain_similarto by (cases t) auto

lemma like_match_plain: "plain_pattern REGEX_LIKE p \<Longrightarrow> like_match p x \<longleftrightarrow> x = unescape p"
proof (induction p arbitrary: x rule: unescape.induct)
  case (2 cur p)
  show ?case
  proof (cases "cur = backslash")
    case True
    then show ?thesis using 2 by (cases p; cases x) auto
  next
    case False
    then show ?thesis using 2 by (cases x) auto
  qed
qed simp

lemma regex_scan_unescape:
  "regex_scan t [] p False None =
     (if plain_pattern t p then (False, if backslash \<in> set p then Some (unescape p) else None)
      else (True, snd (regex_scan t [] p False None)))"
  using regex_scan_spec [of t "[]" p None] by (cases "regex_scan t [] p False None") auto

lemma regex_has_no_special_characters_eq:
  "regex_has_no_special_characters store (value_STATEMENT t s i) ty =
     (if \<not> IS_STRING_TYPE t \<or> \<not> plain_pattern ty s then (0, value_STATEMENT t s i)
      else if backslash \<in> set s \<and> i \<noteq> 0 \<and> \<not> store i (unescape s) then (- 1, value_STATEMENT t (unescape s) i)
      else (1, value_STATEMENT t (unescape s) i))"
  unfolding regex_has_no_special_characters_def
  by (subst regex_scan_unescape) (auto simp: unescape_plain)

section \<open>Properties\<close>

text \<open>
  C20: when \<open>regex_has_no_special_characters\<close> returns 1 for the pattern of LIKE or SIMILAR TO, the literal it leaves
  behind matches as an equality: LIKE with the original pattern holds for exactly the string that is
  left. It returns 1 whenever the pattern of a string type is plain and the changed literal can be stored, and the
  buffer of the pattern's length that it allocates is never filled.
\<close>

theorem like_pattern_as_equality:
  assumes "regex_has_no_special_characters store (value_STATEMENT t s i) ty = (1, stmt)"
  shows "\<exists>s'. stmt = value_STATEMENT t s' i \<and> (\<forall>x. like_match s x \<longleftrightarrow> x = s')
    \<and> (s' = s \<or> length s' < length s)"
proof -
  have "plain_pattern ty s" and stmt: "stmt = value_STATEMENT t (unescape s) i"
    using assms by (auto simp: regex_has_no_special_characters_eq split: if_splits)
  then have "\<forall>x. like_match s x \<longleftrightarrow> x = unescape s"
    using plain_like like_match_plain by blast
  moreover have "unescape s = s \<or> length (unescape s) < length s"
    using unescape_plain length_unescape_less by blast
  ultimately show ?thesis using stmt by blast
qed

theorem like_pattern_as_equality_witness:
  "\<exists>s'. value_STATEMENT STRING_LITERAL ''10%'' 0 = value_STATEMENT STRING_LITERAL s' 0
    \<and> (\<forall>x. like_match (''10'' @ [backslash] @ ''%'') x \<longleftrightarrow> x = s')
    \<and> (s' = ''10'' @ [backslash] @ ''%'' \<or> length s' < length (''10'' @ [backslash] @ ''%''))"
  by (rule like_pattern_as_equality [of "\<lambda>_ _. False" _ _ _ REGEX_LIKE])
    (simp add: regex_has_no_special_characters_eq type_tests similarto_special_def backslash_def)

end
