(* ===== verification/Type_Check.thy ===== *)
theory Type_Check
  imports Regex_Literal
begin

text \<open>
  Type checking of expressions: the macros of \<open>octo_type_check.h\<close>, \<open>ensure_same_type.c\<close>,
  \<open>unary_operation_data_type_check.c\<close>, \<open>binary_operation_data_type_check.c\<close>,
  \<open>validate_table_asterisk_binary_operation.c\<close>, \<open>compare_column_count_and_column_type_of_tables.c\<close> and
  \<open>get_set_operation_column_alias_type.c\<close>. Errors are collected in a list; a function that returns 1 in C has
  a nonempty list. \<open>None\<close> stands for an access outside an array or to a union member that is not set.
\<close>

section \<open>Errors and the parse context\<close>

datatype octo_error =
    ERR_FEATURE_NOT_IMPLEMENTED string
  | ERR_TYPE_MISMATCH SqlValueType SqlValueType
  | ERR_TYPE_NOT_COMPATIBLE SqlValueType string
  | ERR_INVALID_INPUT_SYNTAX SqlValueType
  | ERR_INVALID_BOOLEAN_SYNTAX SqlValueType
  | ERR_NOT_OPERATION_TYPE_MISMATCH SqlValueType
  | ERR_TABLE_ASTERISK_SCALAR_COMPARISON
  | ERR_TABLE_ASTERISK_COLUMN_COUNT_MISMATCH nat nat
  | ERR_TABLE_ASTERISK_COLUMN_TYPE_MISMATCH SqlValueType SqlValueType
  | ERR_PARAMETER_NOT_STORED

text \<open>The number of the parameter seen last (a 16-bit integer) and the types of the parameters.\<close>

record ParseContext =
  cur_param_num :: int
  param_types :: "int list"

text \<open>\<open>EXPAND_ARRAY_ALLOCATION\<close> and \<open>DOUBLE_ARRAY_ALLOCATION\<close>; shrinking overruns the new block in \<open>memcpy\<close>.\<close>

definition expand_array :: "int list \<Rightarrow> int \<Rightarrow> int list option" where
  "expand_array xs new_size =
     (if new_size < int (length xs) then None else Some (xs @ replicate (nat (new_size - int (length xs))) 0))"

definition double_array :: "int list \<Rightarrow> int \<Rightarrow> int list option" where
  "double_array xs max_size =
     (let new_size = int (length xs) * 2 in
      expand_array xs (if 0 < max_size \<and> max_size < new_size then max_size else new_size))"

definition set_parameter_type :: "ParseContext \<Rightarrow> SqlValueType \<Rightarrow> ParseContext option" where
  "set_parameter_type pc t =
     (let cur = cur_param_num pc; size = int (length (param_types pc)) in
      if cur = 0 then Some pc
      else
        Option.bind
          (if cur \<ge> size then
             Option.bind (if cur > 2 * size then expand_array (param_types pc) cur else Some (param_types pc))
               (\<lambda>ts. double_array ts 32767)
           else Some (param_types pc))
          (\<lambda>ts. if 1 \<le> cur \<and> cur \<le> int (length ts)
                then Some (pc\<lparr>param_types := ts[nat (cur - 1) := get_psql_type_from_sqlvaluetype t]\<rparr>)
                else None))"

section \<open>CAST_AMBIGUOUS_TYPES\<close>

definition set_context_type :: "ParseContext option \<Rightarrow> SqlValueType \<Rightarrow> ParseContext option option" where
  "set_context_type pc t = (case pc of None \<Rightarrow> Some None | Some c \<Rightarrow> map_option Some (set_parameter_type c t))"

definition map_type_to_parameter_value ::
    "ParseContext option \<Rightarrow> SqlValueType \<Rightarrow> SqlValueType \<Rightarrow> (SqlValueType \<times> octo_error list \<times> ParseContext option) option" where
  "map_type_to_parameter_value pc t1 t2 =
     (if t2 = PARAMETER_VALUE \<and> t1 = PARAMETER_VALUE
      then Some (t1, [ERR_FEATURE_NOT_IMPLEMENTED ''comparison between literal parameters, e.g. $1 = $2''], pc)
      else if IS_DATE_TIME_TYPE t1 \<and> t2 = PARAMETER_VALUE \<or> t1 = PARAMETER_VALUE \<and> IS_DATE_TIME_TYPE t2
      then Some (t1, [ERR_TYPE_MISMATCH t1 t2], pc)
      else map_option (\<lambda>pc'. (t2, [], pc')) (set_context_type pc t2))"

definition cast_ambiguous_types ::
    "ParseContext option \<Rightarrow> SqlValueType \<Rightarrow> SqlValueType
       \<Rightarrow> (SqlValueType \<times> SqlValueType \<times> octo_error list \<times> ParseContext option) option" where
  "cast_ambiguous_types pc t1 t2 =
     (if t1 = PARAMETER_VALUE \<or> IS_NUL_VALUE t1
      then map_option (\<lambda>(t, es, pc'). (t, t2, es, pc')) (map_type_to_parameter_value pc t1 t2)
      else if t2 = PARAMETER_VALUE \<or> IS_NUL_VALUE t2
      then map_option (\<lambda>(t, es, pc'). (t1, t, es, pc')) (map_type_to_parameter_value pc t2 t1)
      else if t1 = INTEGER_LITERAL \<and> t2 = NUMERIC_LITERAL then Some (t2, t2, [], pc)
      else if t2 = INTEGER_LITERAL \<and> t1 = NUMERIC_LITERAL then Some (t1, t1, [], pc)
      else if t1 = BOOLEAN_OR_STRING_LITERAL
      then Some (if t2 = BOOLEAN_VALUE \<or> t2 = STRING_LITERAL then t2 else t1, t2, [], pc)
      else if t2 = BOOLEAN_OR_STRING_LITERAL
      then Some (t1, if t1 = BOOLEAN_VALUE \<or> t1 = STRING_LITERAL then t1 else t2, [], pc)
      else Some (t1, t2, [], pc))"

section \<open>ensure_same_type\<close>

definition add_cast :: "SqlStatement \<Rightarrow> SqlValueType \<Rightarrow> SqlValueType \<Rightarrow> SqlStatement" where
  "add_cast stmt date_time_type other_type =
     coerce_STATEMENT (get_sqldatatype_from_sqlvaluetype date_time_type) other_type stmt"

definition string_if_ambiguous :: "SqlValueType \<Rightarrow> SqlValueType" where
  "string_if_ambiguous t = (if t = BOOLEAN_OR_STRING_LITERAL then STRING_LITERAL else t)"

text \<open>The chain of conversions tried on two different types; the result is both types, both statements, errors.\<close>

definition convert_date_time ::
    "SqlValueType \<Rightarrow> SqlValueType \<Rightarrow> SqlStatement \<Rightarrow> SqlStatement
       \<Rightarrow> SqlValueType \<times> SqlValueType \<times> SqlStatement \<times> SqlStatement \<times> octo_error list" where
  "convert_date_time l r left right =
     (if l = DATE_LITERAL \<and> IS_TIMESTAMP r then (r, r, add_cast left r l, right, [])
      else if IS_TIMESTAMP l \<and> r = DATE_LITERAL then (l, l, left, add_cast right l r, [])
      else if l = TIMESTAMP_WITH_TIME_ZONE_LITERAL \<and> r = TIMESTAMP_LITERAL then (l, l, add_cast left l r, right, [])
      else if l = TIMESTAMP_LITERAL \<and> r = TIMESTAMP_WITH_TIME_ZONE_LITERAL then (r, r, add_cast left r l, right, [])
      else if l = TIME_LITERAL \<and> r = TIME_WITH_TIME_ZONE_LITERAL then (r, r, add_cast left r l, right, [])
      else if l = TIME_WITH_TIME_ZONE_LITERAL \<and> r = TIME_LITERAL then (l, l, left, add_cast right l r, [])
      else if l = STRING_LITERAL \<and> IS_DATE_TIME_TYPE r then (r, r, add_cast left r l, right, [])
      else if IS_DATE_TIME_TYPE l \<and> r = STRING_LITERAL then (l, l, left, add_cast right l r, [])
      else (l, r, left, right, [ERR_TYPE_MISMATCH l r]))"

definition ensure_same_type ::
    "ParseContext option \<Rightarrow> SqlValueType \<Rightarrow> SqlValueType \<Rightarrow> SqlStatement \<Rightarrow> SqlStatement
       \<Rightarrow> ((SqlValueType \<times> SqlValueType \<times> SqlStatement \<times> SqlStatement \<times> octo_error list) \<times> ParseContext option) option" where
  "ensure_same_type pc left_type right_type left_stmt right_stmt =
     map_option
       (\<lambda>(l, r, es, pc').
          (if es \<noteq> [] \<or> l = r then (l, r, left_stmt, right_stmt, es)
           else convert_date_time (string_if_ambiguous l) (string_if_ambiguous r) left_stmt right_stmt, pc'))
       (cast_ambiguous_types pc left_type right_type)"

section \<open>unary_operation_data_type_check\<close>

definition is_string_value :: "SqlStatement \<Rightarrow> bool" where
  "is_string_value stmt = (case stmt of value_STATEMENT t _ _ \<Rightarrow> t = STRING_LITERAL | _ \<Rightarrow> False)"

text \<open>The result is the type of the operand, the type of the result (\<open>t0\<close> where it is not set) and the errors.\<close>

definition plus_minus_check ::
    "UnaryOperations \<Rightarrow> SqlValueType \<Rightarrow> SqlValueType \<Rightarrow> SqlValueType \<times> SqlValueType \<times> octo_error list" where
  "plus_minus_check operation child t0 =
     (case child of
        TABLE_ASTERISK \<Rightarrow> (child, t0, [ERR_TYPE_NOT_COMPATIBLE child ''+ or - operation''])
      | BOOLEAN_OR_STRING_LITERAL \<Rightarrow> (STRING_LITERAL, t0, [ERR_INVALID_INPUT_SYNTAX STRING_LITERAL])
      | DATE_LITERAL \<Rightarrow> (child, t0, [ERR_INVALID_INPUT_SYNTAX child])
      | TIME_WITH_TIME_ZONE_LITERAL \<Rightarrow> (child, t0, [ERR_INVALID_INPUT_SYNTAX child])
      | TIMESTAMP_LITERAL \<Rightarrow> (child, t0, [ERR_INVALID_INPUT_SYNTAX child])
      | TIMESTAMP_WITH_TIME_ZONE_LITERAL \<Rightarrow> (child, t0, [ERR_INVALID_INPUT_SYNTAX child])
      | STRING_LITERAL \<Rightarrow> (child, t0, [ERR_INVALID_INPUT_SYNTAX child])
      | BOOLEAN_VALUE \<Rightarrow> (child, t0, [ERR_INVALID_INPUT_SYNTAX child])
      | TIME_LITERAL \<Rightarrow> (child, t0, [ERR_INVALID_INPUT_SYNTAX child])
      | NUL_VALUE \<Rightarrow>
          if operation = NEGATIVE then (child, t0, [ERR_TYPE_NOT_COMPATIBLE child ''- operation''])
          else (child, child, [])
      | INTEGER_LITERAL \<Rightarrow> (child, child, [])
      | NUMERIC_LITERAL \<Rightarrow> (child, child, [])
      | _ \<Rightarrow> (child, t0, []))"

definition not_check ::
    "SqlStatement \<Rightarrow> SqlValueType \<Rightarrow> SqlValueType \<Rightarrow> SqlValueType \<times> SqlValueType \<times> octo_error list" where
  "not_check operand child t0 =
     (case child of
        STRING_LITERAL \<Rightarrow>
          (child, t0, [if is_string_value operand then ERR_INVALID_BOOLEAN_SYNTAX child
                       else ERR_NOT_OPERATION_TYPE_MISMATCH child])
      | BOOLEAN_OR_STRING_LITERAL \<Rightarrow> (BOOLEAN_VALUE, BOOLEAN_VALUE, [])
      | BOOLEAN_VALUE \<Rightarrow> (child, child, [])
      | NUL_VALUE \<Rightarrow> (child, child, [])
      | SELECT_ASTERISK \<Rightarrow> (child, t0, [])
      | _ \<Rightarrow> (child, t0, [ERR_NOT_OPERATION_TYPE_MISMATCH child]))"

definition unary_operation_data_type_check ::
    "UnaryOperations \<Rightarrow> SqlStatement \<Rightarrow> SqlValueType \<Rightarrow> SqlValueType \<Rightarrow> SqlValueType \<times> SqlValueType \<times> octo_error list" where
  "unary_operation_data_type_check operation operand child t0 =
     (case operation of
        FORCE_NUM \<Rightarrow> plus_minus_check operation child t0
      | NEGATIVE \<Rightarrow> plus_minus_check operation child t0
      | BOOLEAN_NOT \<Rightarrow> not_check operand child t0
      | BOOLEAN_NOT_EXISTS \<Rightarrow> (child, t0, [])
      | BOOLEAN_EXISTS \<Rightarrow> (child, BOOLEAN_VALUE, []))"

section \<open>Columns of set operations and of tables\<close>

definition get_set_operation_column_alias_type :: "SqlStatement \<Rightarrow> SqlValueType" where
  "get_set_operation_column_alias_type stmt =
     (case stmt of
        column_alias_STATEMENT _ (Some tys) _ column_num \<Rightarrow>
          if 1 \<le> column_num \<and> column_num \<le> length tys then tys ! (column_num - 1) else UNKNOWN_SqlValueType
      | _ \<Rightarrow> UNKNOWN_SqlValueType)"

definition has_set_operation :: "SqlStatement \<Rightarrow> bool" where
  "has_set_operation stmt = (case stmt of column_alias_STATEMENT _ (Some _) _ _ \<Rightarrow> True | _ \<Rightarrow> False)"

definition is_column_alias :: "SqlStatement \<Rightarrow> bool" where
  "is_column_alias stmt = (case stmt of column_alias_STATEMENT _ _ _ _ \<Rightarrow> True | _ \<Rightarrow> False)"

text \<open>The loop over the columns; the second list is circular, \<open>i\<close> counts the turns.\<close>

fun compare_column_types ::
    "ParseContext option \<Rightarrow> SqlValueType list \<Rightarrow> SqlValueType list \<Rightarrow> nat
       \<Rightarrow> (octo_error list \<times> ParseContext option) option" where
  "compare_column_types pc [] second i = Some ([], pc)"
| "compare_column_types pc (t1 # first) second i =
     (let t2 = second ! (i mod length second) in
      case cast_ambiguous_types pc t1 t2 of
        None \<Rightarrow> None
      | Some (l, r, es, pc') \<Rightarrow>
          if es \<noteq> [] then Some (es, pc')
          else if t1 = NUMERIC_LITERAL \<and> t2 = INTEGER_LITERAL \<or> t1 = INTEGER_LITERAL \<and> t2 = NUMERIC_LITERAL \<or> l \<noteq> r
          then Some ([ERR_TABLE_ASTERISK_COLUMN_TYPE_MISMATCH t1 t2], pc')
          else compare_column_types pc' first second (i + 1))"

definition compare_column_count_and_column_type_of_tables ::
    "ParseContext option \<Rightarrow> SqlStatement \<Rightarrow> SqlStatement \<Rightarrow> (octo_error list \<times> ParseContext option) option" where
  "compare_column_count_and_column_type_of_tables pc first second =
     (case (first, second) of
        (column_alias_STATEMENT _ set_oper1 cols1 _, column_alias_STATEMENT _ set_oper2 cols2 _) \<Rightarrow>
          if length cols1 \<noteq> length cols2
          then Some ([ERR_TABLE_ASTERISK_COLUMN_COUNT_MISMATCH (length cols1) (length cols2)], pc)
          else
            let first_cla = case_option cols1 id set_oper1; second_cla = case_option cols2 id set_oper2 in
            if first_cla = [] \<or> second_cla = [] then Some ([], pc)
            else compare_column_types pc first_cla second_cla 0
      | _ \<Rightarrow> None)"

section \<open>validate_table_asterisk_binary_operation\<close>

definition null_subquery_errors :: "SqlStatement \<Rightarrow> SqlStatement \<Rightarrow> octo_error list" where
  "null_subquery_errors first second =
     (case if is_stmt_table_asterisk first then second else first of
        table_alias_STATEMENT _ \<Rightarrow> [ERR_TYPE_NOT_COMPATIBLE TABLE_ASTERISK ''NULL type subquery comparison'']
      | set_operation_STATEMENT _ \<Rightarrow> [ERR_TYPE_NOT_COMPATIBLE TABLE_ASTERISK ''NULL type subquery comparison'']
      | _ \<Rightarrow> [])"

fun compare_in_list ::
    "ParseContext option \<Rightarrow> SqlStatement \<Rightarrow> SqlStatement list \<Rightarrow> (octo_error list \<times> ParseContext option) option" where
  "compare_in_list pc first [] = Some ([], pc)"
| "compare_in_list pc first (v # vs) =
     (if \<not> is_stmt_table_asterisk v then compare_in_list pc first vs
      else
        case compare_column_count_and_column_type_of_tables pc first v of
          None \<Rightarrow> None
        | Some (es, pc') \<Rightarrow> if es \<noteq> [] then Some (es, pc') else compare_in_list pc' first vs)"

definition plain_comparison :: "BinaryOperations \<Rightarrow> bool" where
  "plain_comparison op \<longleftrightarrow> op \<in> {BOOLEAN_EQUALS, BOOLEAN_NOT_EQUALS, BOOLEAN_LESS_THAN, BOOLEAN_GREATER_THAN,
     BOOLEAN_LESS_THAN_OR_EQUALS, BOOLEAN_GREATER_THAN_OR_EQUALS}"

definition quantified_comparison :: "BinaryOperations \<Rightarrow> bool" where
  "quantified_comparison op \<longleftrightarrow> op \<in> {BOOLEAN_ANY_EQUALS, BOOLEAN_ANY_NOT_EQUALS, BOOLEAN_ANY_LESS_THAN,
     BOOLEAN_ANY_GREATER_THAN, BOOLEAN_ANY_LESS_THAN_OR_EQUALS, BOOLEAN_ANY_GREATER_THAN_OR_EQUALS, BOOLEAN_ALL_EQUALS,
     BOOLEAN_ALL_NOT_EQUALS, BOOLEAN_ALL_LESS_THAN, BOOLEAN_ALL_GREATER_THAN, BOOLEAN_ALL_LESS_THAN_OR_EQUALS,
     BOOLEAN_ALL_GREATER_THAN_OR_EQUALS}"

text \<open>The caller passes comparisons only; for the other operations the C code asserts that they do not occur.\<close>

definition validate_table_asterisk_binary_operation ::
    "ParseContext option \<Rightarrow> BinaryOperations \<Rightarrow> SqlStatement \<Rightarrow> SqlStatement \<Rightarrow> SqlValueType \<Rightarrow> SqlValueType
       \<Rightarrow> (octo_error list \<times> ParseContext option) option" where
  "validate_table_asterisk_binary_operation pc op first second orig0 orig1 =
     (let no_null = \<not> IS_NUL_VALUE orig0 \<and> \<not> IS_NUL_VALUE orig1; subquery = null_subquery_errors first second in
      if op = BOOLEAN_IN \<or> op = BOOLEAN_NOT_IN then
        (if subquery \<noteq> [] then Some (subquery, pc)
         else if no_null then
           (case second of column_list_STATEMENT vs \<Rightarrow> compare_in_list pc first vs | _ \<Rightarrow> None)
         else Some ([], pc))
      else if op = BOOLEAN_IS \<or> op = BOOLEAN_IS_NOT then Some ([], pc)
      else if plain_comparison op then
        (if subquery \<noteq> [] then Some (subquery, pc)
         else if no_null then compare_column_count_and_column_type_of_tables pc first second
         else if is_column_alias (if is_stmt_table_asterisk first then second else first)
         then Some ([ERR_TABLE_ASTERISK_SCALAR_COMPARISON], pc)
         else Some ([], pc))
      else if quantified_comparison op then Some (subquery, pc)
      else None)"

section \<open>binary_operation_data_type_check\<close>

text \<open>
  What the function works on: the operation with its operands and its \<open>date_time_return_type\<close>, the two
  types in \<open>child_type\<close>, the type of the result, the errors so far and the parse context.
\<close>

record type_check =
  operation :: BinaryOperations
  left_operand :: SqlStatement
  right_operand :: SqlStatement
  date_time_return_type :: SqlValueType
  child0 :: SqlValueType
  child1 :: SqlValueType
  value_type :: SqlValueType
  errors :: "octo_error list"
  pcontext :: "ParseContext option"

subsection \<open>Arithmetic\<close>

definition arithmetic_operand :: "BinaryOperations \<Rightarrow> SqlValueType \<Rightarrow> octo_error list" where
  "arithmetic_operand op t =
     (if t = INTEGER_LITERAL \<or> t = NUMERIC_LITERAL \<or> t = NUL_VALUE then []
      else if IS_DATE_TIME_TYPE t
      then (if op \<noteq> ADDITION \<and> op \<noteq> SUBTRACTION then [ERR_FEATURE_NOT_IMPLEMENTED ''Date/time arithmetic operations''] else [])
      else [ERR_TYPE_NOT_COMPATIBLE t ''arithmetic operations''])"

text \<open>The type of a date/time subtraction or addition, and the type both operands get where the code sets one.\<close>

definition interval_result :: "octo_error list + (SqlValueType \<times> SqlValueType option)" where
  "interval_result = Inl [ERR_FEATURE_NOT_IMPLEMENTED ''Operation result is INTERVAL'']"

definition date_time_subtraction ::
    "SqlValueType \<Rightarrow> SqlValueType \<Rightarrow> octo_error list + (SqlValueType \<times> SqlValueType option)" where
  "date_time_subtraction a b =
     (if IS_DATE a \<and> IS_DATE b then Inr (INTEGER_LITERAL, Some DATE_LITERAL)
      else if IS_DATE a \<and> b = TIME_LITERAL then Inr (TIMESTAMP_LITERAL, Some TIMESTAMP_LITERAL)
      else if IS_DATE a \<and> b = TIMESTAMP_LITERAL then interval_result
      else if IS_DATE a \<and> b = TIMESTAMP_WITH_TIME_ZONE_LITERAL then interval_result
      else if a = TIMESTAMP_LITERAL \<and> IS_DATE b then interval_result
      else if IS_DATE a \<and> b = INTEGER_LITERAL then Inr (DATE_LITERAL, Some DATE_LITERAL)
      else if IS_DATE a \<and> b = NUL_VALUE then Inr (INTEGER_LITERAL, None)
      else if a = TIME_LITERAL \<and> b = TIME_LITERAL then interval_result
      else if a = TIME_WITH_TIME_ZONE_LITERAL \<and> b = TIME_LITERAL
      then Inr (TIME_WITH_TIME_ZONE_LITERAL, Some TIME_WITH_TIME_ZONE_LITERAL)
      else if a = TIMESTAMP_LITERAL \<and> b = TIME_LITERAL then Inr (TIMESTAMP_LITERAL, Some TIMESTAMP_LITERAL)
      else if a = TIMESTAMP_WITH_TIME_ZONE_LITERAL \<and> b = TIME_LITERAL
      then Inr (TIMESTAMP_WITH_TIME_ZONE_LITERAL, Some TIMESTAMP_WITH_TIME_ZONE_LITERAL)
      else if a = TIME_WITH_TIME_ZONE_LITERAL \<and> b = NUL_VALUE then Inr (TIME_WITH_TIME_ZONE_LITERAL, None)
      else if a = TIME_LITERAL \<and> b = NUL_VALUE then interval_result
      else if IS_TIMESTAMP a \<and> IS_TIMESTAMP b then interval_result
      else if a = TIMESTAMP_WITH_TIME_ZONE_LITERAL \<and> b = NUL_VALUE then Inr (TIMESTAMP_WITH_TIME_ZONE_LITERAL, None)
      else if a = TIMESTAMP_LITERAL \<and> b = NUL_VALUE then Inr (TIMESTAMP_LITERAL, None)
      else Inl [ERR_TYPE_NOT_COMPATIBLE a ''subtraction operation'', ERR_TYPE_NOT_COMPATIBLE b ''subtraction operation''])"

definition date_time_addition ::
    "SqlValueType \<Rightarrow> SqlValueType \<Rightarrow> octo_error list + (SqlValueType \<times> SqlValueType option)" where
  "date_time_addition a b =
     (if IS_DATE a \<and> IS_TIME b \<or> IS_DATE b \<and> IS_TIME a then
        Inr (if a = TIME_WITH_TIME_ZONE_LITERAL \<or> b = TIME_WITH_TIME_ZONE_LITERAL
             then TIMESTAMP_WITH_TIME_ZONE_LITERAL else TIMESTAMP_LITERAL, Some DATE_LITERAL)
      else if IS_DATE a \<and> b = INTEGER_LITERAL \<or> IS_DATE b \<and> a = INTEGER_LITERAL
      then Inr (DATE_LITERAL, Some DATE_LITERAL)
      else if a = TIME_WITH_TIME_ZONE_LITERAL \<and> b = TIME_LITERAL \<or> b = TIME_WITH_TIME_ZONE_LITERAL \<and> a = TIME_LITERAL
      then Inr (TIME_WITH_TIME_ZONE_LITERAL, Some TIME_WITH_TIME_ZONE_LITERAL)
      else if a = TIME_LITERAL \<and> b = TIMESTAMP_LITERAL \<or> b = TIME_LITERAL \<and> a = TIMESTAMP_LITERAL
      then Inr (TIMESTAMP_LITERAL, Some TIMESTAMP_LITERAL)
      else if a = TIME_LITERAL \<and> b = TIMESTAMP_WITH_TIME_ZONE_LITERAL \<or> b = TIME_LITERAL \<and> a = TIMESTAMP_WITH_TIME_ZONE_LITERAL
      then Inr (TIMESTAMP_WITH_TIME_ZONE_LITERAL, Some TIMESTAMP_WITH_TIME_ZONE_LITERAL)
      else if a = NUL_VALUE \<and> b = TIME_LITERAL \<or> b = NUL_VALUE \<and> a = TIME_LITERAL then Inr (TIME_LITERAL, None)
      else if a = NUL_VALUE \<and> b = TIMESTAMP_LITERAL \<or> b = NUL_VALUE \<and> a = TIMESTAMP_LITERAL
      then Inr (TIMESTAMP_LITERAL, None)
      else Inl [ERR_TYPE_NOT_COMPATIBLE a ''addition operation'', ERR_TYPE_NOT_COMPATIBLE b ''addition operation''])"

definition arithmetic_check :: "SqlValueType \<Rightarrow> SqlValueType \<Rightarrow> type_check \<Rightarrow> type_check" where
  "arithmetic_check orig0 orig1 s =
     (let es = arithmetic_operand (operation s) (child0 s) @ arithmetic_operand (operation s) (child1 s) in
      if es \<noteq> [] then s\<lparr>errors := es\<rparr>
      else if IS_DATE_TIME_TYPE (child0 s) \<or> IS_DATE_TIME_TYPE (child1 s) then
        let sub = (operation s = SUBTRACTION);
            s1 = s\<lparr>operation := if sub then DATE_TIME_SUBTRACTION else DATE_TIME_ADDITION\<rparr>;
            s2 = (case if sub then date_time_subtraction orig0 orig1 else date_time_addition orig0 orig1 of
                    Inl es \<Rightarrow> s1\<lparr>errors := es\<rparr>
                  | Inr (t, None) \<Rightarrow> s1\<lparr>value_type := t\<rparr>
                  | Inr (t, Some c) \<Rightarrow> s1\<lparr>value_type := t, child0 := c, child1 := c\<rparr>)
        in s2\<lparr>date_time_return_type := value_type s2\<rparr>
      else s\<lparr>value_type := child0 s\<rparr>)"

subsection \<open>Concatenation, Boolean operations and matches\<close>

definition concat_errors :: "SqlValueType \<Rightarrow> SqlValueType \<Rightarrow> SqlValueType \<Rightarrow> SqlValueType \<Rightarrow> octo_error list" where
  "concat_errors orig0 orig1 c0 c1 =
     (let one_null = IS_NUL_VALUE orig0 \<or> IS_NUL_VALUE orig1; dates = IS_DATE_TIME_TYPE c0 \<and> IS_DATE_TIME_TYPE c1 in
      if IS_STRING_TYPE c0 \<or> IS_STRING_TYPE c1 then []
      else if c0 = TABLE_ASTERISK \<and> c1 = TABLE_ASTERISK \<and> one_null then []
      else if dates \<and> one_null then []
      else if dates then [ERR_FEATURE_NOT_IMPLEMENTED ''Date/time concat operation'']
      else [ERR_TYPE_NOT_COMPATIBLE c0 ''|| operator'', ERR_TYPE_NOT_COMPATIBLE c1 ''|| operator''])"

definition cast_to_string :: "SqlValueType \<Rightarrow> SqlStatement \<Rightarrow> SqlStatement" where
  "cast_to_string t stmt = coerce_STATEMENT STRING_TYPE t stmt"

definition concat_check :: "SqlValueType \<Rightarrow> SqlValueType \<Rightarrow> type_check \<Rightarrow> type_check" where
  "concat_check orig0 orig1 s =
     (let c0 = child0 s; c1 = child1 s; string = IS_STRING_TYPE c0 \<or> IS_STRING_TYPE c1;
          s1 = (if string \<and> c0 = BOOLEAN_VALUE then s\<lparr>left_operand := cast_to_string c0 (left_operand s)\<rparr>
                else if string \<and> c1 = BOOLEAN_VALUE then s\<lparr>right_operand := cast_to_string c1 (right_operand s)\<rparr>
                else s)
      in s1\<lparr>errors := concat_errors orig0 orig1 c0 c1, child0 := STRING_LITERAL, child1 := STRING_LITERAL,
            value_type := STRING_LITERAL\<rparr>)"

definition operand_errors :: "(SqlValueType \<Rightarrow> bool) \<Rightarrow> string \<Rightarrow> type_check \<Rightarrow> octo_error list" where
  "operand_errors ok what s = map (\<lambda>t. ERR_TYPE_NOT_COMPATIBLE t what) (filter (\<lambda>t. \<not> ok t) [child0 s, child1 s])"

definition boolean_check :: "type_check \<Rightarrow> type_check" where
  "boolean_check s = s\<lparr>errors := operand_errors IS_BOOLEAN_TYPE ''boolean operations'' s, value_type := BOOLEAN_VALUE\<rparr>"

definition regex_check :: "(int \<Rightarrow> string \<Rightarrow> bool) \<Rightarrow> type_check \<Rightarrow> type_check" where
  "regex_check store s =
     (let es = operand_errors IS_STRING_TYPE ''regex operations'' s; op = operation s in
      if es \<noteq> [] then s\<lparr>errors := es, value_type := BOOLEAN_VALUE\<rparr>
      else if op = BOOLEAN_REGEX_SENSITIVE_LIKE \<or> op = BOOLEAN_REGEX_SENSITIVE_SIMILARTO then
        (case regex_has_no_special_characters store (right_operand s)
                (if op = BOOLEAN_REGEX_SENSITIVE_LIKE then REGEX_LIKE else REGEX_SIMILARTO) of
           (status, stmt) \<Rightarrow>
             if status = - 1 then s\<lparr>right_operand := stmt, errors := [ERR_PARAMETER_NOT_STORED]\<rparr>
             else s\<lparr>right_operand := stmt, operation := if status = 0 then op else BOOLEAN_EQUALS,
                    value_type := BOOLEAN_VALUE\<rparr>)
      else s\<lparr>value_type := BOOLEAN_VALUE\<rparr>)"

subsection \<open>Comparisons\<close>

text \<open>The walk through an IN list: it stops at the first column of a set operation whose type differs.\<close>

fun in_list_types ::
    "ParseContext option \<Rightarrow> SqlValueType \<Rightarrow> SqlValueType \<Rightarrow> SqlStatement list
       \<Rightarrow> (SqlValueType \<times> SqlValueType \<times> octo_error list \<times> ParseContext option) option" where
  "in_list_types pc c0 c1 [] = Some (c0, c1, [], pc)"
| "in_list_types pc c0 c1 (v # vs) =
     (if has_set_operation v then
        let t = get_set_operation_column_alias_type v in
        if c0 \<noteq> t then cast_ambiguous_types pc c0 t else in_list_types pc c0 t vs
      else in_list_types pc c0 c1 vs)"

text \<open>The type of an operand that is a column of a set operation is read from the set operation.\<close>

definition set_operation_type :: "SqlStatement \<Rightarrow> SqlValueType \<Rightarrow> SqlValueType" where
  "set_operation_type stmt t =
     (if has_set_operation stmt \<and> \<not> is_stmt_table_asterisk stmt then get_set_operation_column_alias_type stmt else t)"

definition set_types ::
    "type_check \<Rightarrow> SqlValueType \<times> SqlValueType \<times> octo_error list \<times> ParseContext option \<Rightarrow> type_check" where
  "set_types s r = (case r of (c0, c1, es, pc) \<Rightarrow> s\<lparr>child0 := c0, child1 := c1, errors := es, pcontext := pc\<rparr>)"

definition date_time_comparison :: "BinaryOperations \<Rightarrow> SqlValueType \<Rightarrow> SqlValueType \<Rightarrow> SqlValueType \<Rightarrow> SqlValueType" where
  "date_time_comparison op orig1 c0 c1 =
     (if \<not> (IS_DATE_TIME_TYPE c0 \<and> IS_DATE_TIME_TYPE c1) then c0
      else if IS_TIME c0 \<and> \<not> IS_TIME c1 \<or> IS_TIME c1 \<and> \<not> IS_TIME c0 then c0
      else if plain_comparison op \<or> op = BOOLEAN_IN \<or> op = BOOLEAN_NOT_IN then c1
      else if op = BOOLEAN_IS \<or> op = BOOLEAN_IS_NOT then (if IS_NUL_VALUE orig1 then c1 else c0)
      else c1)"

definition comparison_result :: "SqlValueType \<Rightarrow> type_check \<Rightarrow> type_check" where
  "comparison_result orig1 s =
     s\<lparr>child0 := date_time_comparison (operation s) orig1 (child0 s) (child1 s), value_type := BOOLEAN_VALUE\<rparr>"

definition comparison_check :: "SqlValueType \<Rightarrow> SqlValueType \<Rightarrow> type_check \<Rightarrow> type_check option" where
  "comparison_check orig0 orig1 s =
     (let l = left_operand s; r = right_operand s; c0 = child0 s; c1 = child1 s; pc = pcontext s in
      if c0 = TABLE_ASTERISK \<and> c1 = TABLE_ASTERISK then
        map_option (\<lambda>(es, pc'). let s1 = s\<lparr>errors := es, pcontext := pc'\<rparr> in
                      if es \<noteq> [] then s1 else comparison_result orig1 s1)
          (validate_table_asterisk_binary_operation pc (operation s) l r orig0 orig1)
      else if operation s = BOOLEAN_IN \<or> operation s = BOOLEAN_NOT_IN then
        (if c0 = TABLE_ASTERISK then Some s
         else
           let c0' = (if has_set_operation l then get_set_operation_column_alias_type l else c0) in
           map_option (\<lambda>ts. comparison_result orig1 (set_types s ts))
             (case r of column_list_STATEMENT vs \<Rightarrow> in_list_types pc c0' c1 vs | _ \<Rightarrow> Some (c0', c1, [], pc)))
      else if is_column_alias l \<or> is_column_alias r then
        (if is_column_alias l \<and> is_column_alias r \<and> (c0 = TABLE_ASTERISK \<or> c1 = TABLE_ASTERISK)
         then Some (s\<lparr>errors := [ERR_TABLE_ASTERISK_SCALAR_COMPARISON]\<rparr>)
         else map_option (\<lambda>ts. comparison_result orig1 (set_types s ts))
                (cast_ambiguous_types pc (set_operation_type l c0) (set_operation_type r c1)))
      else Some (comparison_result orig1 s))"

subsection \<open>The whole check\<close>

definition mismatch_check :: "type_check \<Rightarrow> type_check" where
  "mismatch_check s =
     (if errors s = [] \<and> child0 s \<noteq> child1 s then s\<lparr>errors := [ERR_TYPE_MISMATCH (child0 s) (child1 s)]\<rparr> else s)"

definition arithmetic_operation :: "BinaryOperations \<Rightarrow> bool" where
  "arithmetic_operation op \<longleftrightarrow> op \<in> {ADDITION, SUBTRACTION, DIVISION, MULTIPLICATION, MODULO}"

definition regex_operation :: "BinaryOperations \<Rightarrow> bool" where
  "regex_operation op \<longleftrightarrow> op \<in> {BOOLEAN_REGEX_SENSITIVE, BOOLEAN_REGEX_INSENSITIVE, BOOLEAN_REGEX_SENSITIVE_LIKE,
     BOOLEAN_REGEX_INSENSITIVE_LIKE, BOOLEAN_REGEX_SENSITIVE_SIMILARTO, BOOLEAN_REGEX_INSENSITIVE_SIMILARTO}"

definition operation_check ::
    "(int \<Rightarrow> string \<Rightarrow> bool) \<Rightarrow> SqlValueType \<Rightarrow> SqlValueType \<Rightarrow> type_check \<Rightarrow> type_check option" where
  "operation_check store orig0 orig1 s =
     (let op = operation s in
      if arithmetic_operation op then Some (arithmetic_check orig0 orig1 s)
      else if op = CONCAT then Some (concat_check orig0 orig1 s)
      else if op = BOOLEAN_OR \<or> op = BOOLEAN_AND then Some (boolean_check s)
      else if regex_operation op then Some (regex_check store s)
      else if op = DATE_TIME_ADDITION \<or> op = DATE_TIME_SUBTRACTION then
        Some (s\<lparr>value_type := date_time_return_type s, child0 := date_time_return_type s,
                child1 := date_time_return_type s\<rparr>)
      else comparison_check orig0 orig1 s)"

definition binary_operation_data_type_check ::
    "(int \<Rightarrow> string \<Rightarrow> bool) \<Rightarrow> type_check \<Rightarrow> type_check option" where
  "binary_operation_data_type_check store s =
     (case cast_ambiguous_types (pcontext s) (child0 s) (child1 s) of
        None \<Rightarrow> None
      | Some ts \<Rightarrow>
          let s1 = set_types s ts in
          if errors s1 \<noteq> [] then Some s1
          else map_option mismatch_check (operation_check store (child0 s) (child1 s) s1))"

end
