(* ===== verification/Type_Laws.thy ===== *)
theory Type_Laws
  imports Type_Check
begin

text \<open>
  What the type checks guarantee: agreement of the operand types, the type of the result, symmetry of the
  conversions, the array of parameter types, and the texts shown for data types.
\<close>

section \<open>The array of parameter types\<close>

lemma expand_array_Some: "int (length xs) \<le> n \<Longrightarrow> \<exists>zs. expand_array xs n = Some (xs @ zs) \<and> int (length (xs @ zs)) = n"
  by (auto simp: expand_array_def)

lemma double_array_Some:
  assumes "int (length xs) \<le> 32767"
  shows "\<exists>zs. double_array xs 32767 = Some (xs @ zs) \<and> int (length (xs @ zs)) = min 32767 (2 * int (length xs))"
proof -
  have "double_array xs 32767 = expand_array xs (min 32767 (2 * int (length xs)))"
    by (simp add: double_array_def Let_def min_def mult.commute)
  then show ?thesis
    using expand_array_Some [of xs "min 32767 (2 * int (length xs))"] assms by simp
qed

lemma grow_types:
  assumes "0 < length ts" "length ts \<le> 32767" "int (length ts) \<le> cur" "cur \<le> 32767"
  shows "\<exists>zs. Option.bind (if cur > 2 * int (length ts) then expand_array ts cur else Some ts) (\<lambda>ts. double_array ts 32767)
      = Some (ts @ zs) \<and> cur \<le> int (length (ts @ zs)) \<and> length (ts @ zs) \<le> 32767"
proof (cases "cur > 2 * int (length ts)")
  case True
  obtain ys where ys: "expand_array ts cur = Some (ts @ ys)" "int (length (ts @ ys)) = cur"
    using expand_array_Some assms(3) by blast
  obtain zs where "double_array (ts @ ys) 32767 = Some ((ts @ ys) @ zs)"
    "int (length ((ts @ ys) @ zs)) = min 32767 (2 * cur)"
    using double_array_Some [of "ts @ ys"] ys(2) assms(4) by metis
  then show ?thesis using True ys assms by (intro exI [of _ "ys @ zs"]) simp
next
  case False
  obtain zs where "double_array ts 32767 = Some (ts @ zs)" "int (length (ts @ zs)) = min 32767 (2 * int (length ts))"
    using double_array_Some [of ts] assms(2) by auto
  then show ?thesis using False assms by (intro exI [of _ zs]) auto
qed

lemma set_parameter_type_Some:
  assumes "0 < length (param_types pc)" "length (param_types pc) \<le> 32767" "0 < cur_param_num pc" "cur_param_num pc \<le> 32767"
  shows "\<exists>zs. set_parameter_type pc t =
      Some (pc\<lparr>param_types := (param_types pc @ zs)[nat (cur_param_num pc - 1) := get_psql_type_from_sqlvaluetype t]\<rparr>)
    \<and> cur_param_num pc \<le> int (length (param_types pc @ zs)) \<and> length (param_types pc @ zs) \<le> 32767"
proof (cases "cur_param_num pc \<ge> int (length (param_types pc))")
  case True
  obtain zs where "Option.bind (if cur_param_num pc > 2 * int (length (param_types pc))
        then expand_array (param_types pc) (cur_param_num pc) else Some (param_types pc)) (\<lambda>ts. double_array ts 32767)
      = Some (param_types pc @ zs)" "cur_param_num pc \<le> int (length (param_types pc @ zs))"
      "length (param_types pc @ zs) \<le> 32767"
    using grow_types [OF assms(1,2) True assms(4)] by blast
  then show ?thesis using True assms by (intro exI [of _ zs]) (simp add: set_parameter_type_def Let_def)
next
  case False
  then show ?thesis using assms by (intro exI [of _ "[]"]) (simp add: set_parameter_type_def Let_def)
qed

lemma set_parameter_type_negative: "cur_param_num pc < 0 \<Longrightarrow> set_parameter_type pc t = None"
  by (simp add: set_parameter_type_def Let_def)

section \<open>Casts\<close>

lemma cast_keeps_context:
  assumes "cast_ambiguous_types pc a b = Some (l, r, es, pc')" "a \<noteq> PARAMETER_VALUE" "b \<noteq> PARAMETER_VALUE"
  shows "es = []"
  using assms
  by (auto simp: cast_ambiguous_types_def map_type_to_parameter_value_def type_tests split: if_splits)

text \<open>Without parameters the cast commutes.\<close>

lemma cast_commutes:
  assumes "a \<noteq> PARAMETER_VALUE" "b \<noteq> PARAMETER_VALUE"
  shows "cast_ambiguous_types None a b = map_option (\<lambda>(l, r, es, pc). (r, l, es, pc)) (cast_ambiguous_types None b a)"
  using assms
  by (auto simp: cast_ambiguous_types_def map_type_to_parameter_value_def set_context_type_def type_tests)

lemma cast_None_Some: "cast_ambiguous_types None a b \<noteq> None"
  by (auto simp: cast_ambiguous_types_def map_type_to_parameter_value_def set_context_type_def)

section \<open>ensure_same_type\<close>

lemma convert_date_time_agrees:
  "convert_date_time l r left right = (l', r', left', right', []) \<Longrightarrow> l' = r'"
  by (auto simp: convert_date_time_def split: if_splits)

lemma convert_date_time_commutes:
  "\<exists>la ra sa ta ea lb rb sb tb eb. convert_date_time l r left right = (la, ra, sa, ta, ea)
     \<and> convert_date_time r l right left = (lb, rb, sb, tb, eb) \<and> (ea = [] \<longleftrightarrow> eb = []) \<and> (ea = [] \<longrightarrow> la = lb)"
  by (auto simp: convert_date_time_def type_tests)

section \<open>Binary operations\<close>

definition arithmetic_types :: "SqlValueType set" where
  "arithmetic_types = {INTEGER_LITERAL, NUMERIC_LITERAL, NUL_VALUE, DATE_LITERAL, TIME_LITERAL, TIME_WITH_TIME_ZONE_LITERAL,
     TIMESTAMP_LITERAL, TIMESTAMP_WITH_TIME_ZONE_LITERAL}"

definition result_types :: "BinaryOperations \<Rightarrow> SqlValueType set" where
  "result_types op =
     (if arithmetic_operation op then arithmetic_types else if op = CONCAT then {STRING_LITERAL} else {BOOLEAN_VALUE})"

lemma mismatch_check_ok:
  assumes "errors (mismatch_check s) = []"
  shows "mismatch_check s = s" "errors s = []" "child0 s = child1 s"
  using assms by (auto simp: mismatch_check_def split: if_splits)

lemma arithmetic_operand_ok: "arithmetic_operand op t = [] \<Longrightarrow> t \<in> arithmetic_types"
  by (auto simp: arithmetic_operand_def arithmetic_types_def type_tests split: if_splits)

lemma date_time_result_types:
  "date_time_subtraction a b = Inr (t, c) \<Longrightarrow> t \<in> arithmetic_types"
  "date_time_addition a b = Inr (t, c) \<Longrightarrow> t \<in> arithmetic_types"
  by (auto simp: date_time_subtraction_def date_time_addition_def interval_result_def arithmetic_types_def split: if_splits)

lemma arithmetic_check_type:
  assumes "errors (arithmetic_check a b s) = []"
  shows "value_type (arithmetic_check a b s) \<in> arithmetic_types"
proof -
  let ?sub = "operation s = SUBTRACTION"
  let ?es = "arithmetic_operand (operation s) (child0 s) @ arithmetic_operand (operation s) (child1 s)"
  have es: "?es = []"
    using assms by (rule contrapos_pp) (simp add: arithmetic_check_def Let_def)
  show ?thesis
  proof (cases "IS_DATE_TIME_TYPE (child0 s) \<or> IS_DATE_TIME_TYPE (child1 s)")
    case True
    define x where "x = (if ?sub then date_time_subtraction a b else date_time_addition a b)"
    have "t \<in> arithmetic_types" if "x = Inr (t, c)" for t c
      using that date_time_result_types by (auto simp: x_def split: if_splits)
    moreover have "x \<noteq> Inl []"
      by (auto simp: x_def date_time_subtraction_def date_time_addition_def interval_result_def)
    ultimately show ?thesis
      using assms es True unfolding arithmetic_check_def Let_def x_def [symmetric]
      by (auto split: sum.splits option.splits)
  next
    case False
    then show ?thesis using es arithmetic_operand_ok by (auto simp: arithmetic_check_def Let_def)
  qed
qed

lemma regex_check_type:
  "errors (regex_check store s) = [] \<Longrightarrow> value_type (regex_check store s) = BOOLEAN_VALUE"
  by (auto simp: regex_check_def Let_def split: if_splits prod.splits)

lemma value_type_comparison_result [simp]: "value_type (comparison_result b s) = BOOLEAN_VALUE"
  by (simp add: comparison_result_def)

lemma errors_comparison_result [simp]: "errors (comparison_result b s) = errors s"
  by (simp add: comparison_result_def)

lemma comparison_result_type: "comparison_result b s = s' \<Longrightarrow> value_type s' = BOOLEAN_VALUE"
  by auto

lemma comparison_check_type:
  assumes "comparison_check a b s = Some s'" "errors s' = []" "child0 s' = child1 s'"
  shows "value_type s' = BOOLEAN_VALUE"
  using assms
  by (auto simp: comparison_check_def Let_def split: if_splits prod.splits dest: comparison_result_type)

lemma operation_check_type:
  assumes "operation_check store a b s = Some s'" "errors s' = []" "child0 s' = child1 s'"
    and "operation s \<noteq> DATE_TIME_ADDITION" "operation s \<noteq> DATE_TIME_SUBTRACTION"
  shows "value_type s' \<in> result_types (operation s)"
proof -
  consider "arithmetic_operation (operation s)" | "operation s = CONCAT"
    | "operation s = BOOLEAN_OR \<or> operation s = BOOLEAN_AND" | "regex_operation (operation s)"
    | "comparison_check a b s = Some s'" "\<not> arithmetic_operation (operation s)" "operation s \<noteq> CONCAT"
    using assms(1,4,5) by (auto simp: operation_check_def Let_def split: if_splits)
  then show ?thesis
  proof cases
    case 1
    then show ?thesis
      using assms(1,2) arithmetic_check_type by (auto simp: operation_check_def Let_def result_types_def)
  next
    case 2
    then show ?thesis
      using assms(1) by (auto simp: operation_check_def Let_def result_types_def concat_check_def arithmetic_operation_def)
  next
    case 3
    then show ?thesis
      using assms(1) by (auto simp: operation_check_def Let_def result_types_def boolean_check_def arithmetic_operation_def)
  next
    case 4
    then have "\<not> arithmetic_operation (operation s)" "operation s \<noteq> CONCAT" "operation s \<noteq> BOOLEAN_OR" "operation s \<noteq> BOOLEAN_AND"
      by (auto simp: regex_operation_def arithmetic_operation_def)
    then show ?thesis
      using 4 assms(1,2) regex_check_type by (auto simp: operation_check_def Let_def result_types_def)
  next
    case 5
    then show ?thesis using comparison_check_type assms(2,3) by (simp add: result_types_def)
  qed
qed

lemma binary_check_unfold:
  assumes "binary_operation_data_type_check store s = Some s'" "errors s' = []"
  obtains s1 where "operation_check store (child0 s) (child1 s) s1 = Some s'" "child0 s' = child1 s'"
    "operation s1 = operation s"
proof -
  obtain l r es pc where c: "cast_ambiguous_types (pcontext s) (child0 s) (child1 s) = Some (l, r, es, pc)"
    using assms(1) by (auto simp: binary_operation_data_type_check_def split: option.splits)
  define s1 where "s1 = set_types s (l, r, es, pc)"
  have "errors s1 = []"
    using assms c by (auto simp: binary_operation_data_type_check_def Let_def s1_def split: if_splits)
  then obtain s2 where s2: "operation_check store (child0 s) (child1 s) s1 = Some s2" "s' = mismatch_check s2"
    using assms(1) c by (auto simp: binary_operation_data_type_check_def Let_def s1_def)
  note m = mismatch_check_ok [of s2, folded s2(2), OF assms(2)]
  have "s' = s2" "child0 s' = child1 s'" using m by simp_all
  then show thesis using that [of s1] s2(1) by (simp add: s1_def set_types_def)
qed

lemma date_time_addition_commutes:
  "(\<exists>es. date_time_addition a b = Inl es \<and> (\<exists>es'. date_time_addition b a = Inl es' \<and> es \<noteq> [] \<and> es' \<noteq> []))
   \<or> (date_time_addition a b = date_time_addition b a \<and> (\<exists>x. date_time_addition a b = Inr x))"
  by (auto simp: date_time_addition_def type_tests)

text \<open>The operands exchanged.\<close>

definition swap_operands :: "type_check \<Rightarrow> type_check" where
  "swap_operands s = s\<lparr>left_operand := right_operand s, right_operand := left_operand s, child0 := child1 s, child1 := child0 s\<rparr>"

text \<open>What an addition comes to after the cast: the operation, the type and the types of the operands, or an error.\<close>

definition outcome :: "type_check \<Rightarrow> (BinaryOperations \<times> SqlValueType \<times> SqlValueType) option" where
  "outcome s = (if errors s = [] then Some (operation s, value_type s, child0 s) else None)"

lemma addition_outcome:
  assumes "operation s = ADDITION" "errors s = []"
  shows "outcome (mismatch_check (arithmetic_check a b s)) =
    (if arithmetic_operand ADDITION (child0 s) \<noteq> [] \<or> arithmetic_operand ADDITION (child1 s) \<noteq> [] then None
     else if IS_DATE_TIME_TYPE (child0 s) \<or> IS_DATE_TIME_TYPE (child1 s) then
       (case date_time_addition a b of
          Inl es \<Rightarrow> None
        | Inr (t, Some c) \<Rightarrow> Some (DATE_TIME_ADDITION, t, c)
        | Inr (t, None) \<Rightarrow> if child0 s = child1 s then Some (DATE_TIME_ADDITION, t, child0 s) else None)
     else if child0 s = child1 s then Some (ADDITION, child0 s, child0 s) else None)"
proof -
  have "es \<noteq> []" if "date_time_addition a b = Inl es" for es
    using that by (auto simp: date_time_addition_def split: if_splits)
  then show ?thesis
    using assms
    by (cases "date_time_addition a b")
      (auto simp: outcome_def mismatch_check_def arithmetic_check_def Let_def split: option.splits)
qed

lemma addition_outcome_commutes:
  assumes "operation s = ADDITION" "errors s = []"
  shows "outcome (mismatch_check (arithmetic_check b a (swap_operands s))) = outcome (mismatch_check (arithmetic_check a b s))"
proof -
  have s: "operation (swap_operands s) = ADDITION" "errors (swap_operands s) = []" "child0 (swap_operands s) = child1 s"
    "child1 (swap_operands s) = child0 s"
    using assms by (simp_all add: swap_operands_def)
  show ?thesis
    unfolding addition_outcome [OF assms] addition_outcome [OF s(1,2)] s(3,4)
    using date_time_addition_commutes [of a b] by (auto split: option.splits sum.splits)
qed

section \<open>Properties\<close>

text \<open>A check of two operands that are neither columns nor lists, outside a prepared statement.\<close>

definition sample_check :: "BinaryOperations \<Rightarrow> SqlValueType \<Rightarrow> SqlValueType \<Rightarrow> type_check" where
  "sample_check op a b = \<lparr>operation = op, left_operand = other_STATEMENT 0, right_operand = other_STATEMENT 1,
     date_time_return_type = UNKNOWN_SqlValueType, child0 = a, child1 = b, value_type = UNKNOWN_SqlValueType, errors = [],
     pcontext = None\<rparr>"

lemmas check_eval = binary_operation_data_type_check_def sample_check_def cast_ambiguous_types_def
  map_type_to_parameter_value_def set_context_type_def operation_check_def arithmetic_operation_def arithmetic_check_def
  arithmetic_operand_def set_types_def mismatch_check_def Let_def type_tests

text \<open>
  C19: when the check of a binary operation reports no error, the types of its operands agree and the type of the
  result is one the operation can have: a number, NULL or a date/time type for arithmetic, a string for \<open>||\<close>, a Boolean
  for everything else; no parameter and no undecided type is left.
\<close>

theorem binary_check_types_agree:
  assumes "binary_operation_data_type_check store s = Some s'" and "errors s' = []"
    and "operation s \<noteq> DATE_TIME_ADDITION" and "operation s \<noteq> DATE_TIME_SUBTRACTION"
  shows "child0 s' = child1 s' \<and> value_type s' \<in> result_types (operation s)"
proof -
  obtain s1 where s1: "operation_check store (child0 s) (child1 s) s1 = Some s'" "child0 s' = child1 s'"
    "operation s1 = operation s"
    using binary_check_unfold [OF assms(1,2)] by blast
  then show ?thesis using operation_check_type [OF s1(1) assms(2) s1(2)] assms(3,4) by simp
qed

theorem binary_check_types_agree_witness:
  "child0 ((sample_check MULTIPLICATION INTEGER_LITERAL NUMERIC_LITERAL)\<lparr>child0 := NUMERIC_LITERAL, value_type := NUMERIC_LITERAL\<rparr>)
     = child1 ((sample_check MULTIPLICATION INTEGER_LITERAL NUMERIC_LITERAL)\<lparr>child0 := NUMERIC_LITERAL, value_type := NUMERIC_LITERAL\<rparr>)
   \<and> value_type ((sample_check MULTIPLICATION INTEGER_LITERAL NUMERIC_LITERAL)\<lparr>child0 := NUMERIC_LITERAL, value_type := NUMERIC_LITERAL\<rparr>)
     \<in> result_types (operation (sample_check MULTIPLICATION INTEGER_LITERAL NUMERIC_LITERAL))"
  by (rule binary_check_types_agree [where store = "\<lambda>_ _. True"]) (simp_all add: check_eval)

text \<open>
  the type of a sum does not depend on the order of its operands: outside prepared statements, the check of \<open>a + b\<close>
  reports an error if and only if the check of \<open>b + a\<close> does, and otherwise both have the same operation (plain or
  date/time addition), the same type and the same type of their operands.
\<close>

theorem addition_type_commutes:
  assumes "operation s = ADDITION" and "pcontext s = None" and "child0 s \<noteq> PARAMETER_VALUE" and "child1 s \<noteq> PARAMETER_VALUE"
  shows "\<exists>p q. binary_operation_data_type_check store s = Some p
    \<and> binary_operation_data_type_check store (swap_operands s) = Some q \<and> outcome p = outcome q"
proof -
  obtain l r es pc where c: "cast_ambiguous_types None (child0 s) (child1 s) = Some (l, r, es, pc)"
    using cast_None_Some [of "child0 s" "child1 s"] by auto
  have es: "es = []" using cast_keeps_context [OF c assms(3,4)] .
  have c': "cast_ambiguous_types None (child1 s) (child0 s) = Some (r, l, es, pc)"
    using cast_commutes [OF assms(4,3)] c by simp
  let ?t = "set_types s (l, r, [], pc)"
  have t: "operation ?t = ADDITION" "errors ?t = []" using assms by (simp_all add: set_types_def)
  have w: "set_types (swap_operands s) (r, l, [], pc) = swap_operands ?t"
    by (simp add: swap_operands_def set_types_def)
  have "binary_operation_data_type_check store s = Some (mismatch_check (arithmetic_check (child0 s) (child1 s) ?t))"
    using assms c es t by (simp add: binary_operation_data_type_check_def operation_check_def Let_def arithmetic_operation_def)
  moreover have "binary_operation_data_type_check store (swap_operands s) =
      Some (mismatch_check (arithmetic_check (child1 s) (child0 s) (swap_operands ?t)))"
    using assms c' es t w by (simp add: binary_operation_data_type_check_def operation_check_def Let_def
        arithmetic_operation_def swap_operands_def)
  ultimately show ?thesis using addition_outcome_commutes [OF t] by simp
qed

theorem addition_type_commutes_witness:
  "\<exists>p q. binary_operation_data_type_check (\<lambda>_ _. True) (sample_check ADDITION DATE_LITERAL TIME_LITERAL) = Some p
    \<and> binary_operation_data_type_check (\<lambda>_ _. True) (swap_operands (sample_check ADDITION DATE_LITERAL TIME_LITERAL)) = Some q
    \<and> outcome p = outcome q"
  by (rule addition_type_commutes) (simp_all add: sample_check_def)

text \<open>
  \<open>ensure_same_type\<close>, outside prepared statements: when it reports no error both types are equal afterwards; it
  reports an error for \<open>(l, r)\<close> if and only if it does for \<open>(r, l)\<close>, and then the common type is the same.
\<close>

theorem ensure_same_type_agrees:
  assumes "l \<noteq> PARAMETER_VALUE" and "r \<noteq> PARAMETER_VALUE"
  shows "\<exists>la ra sa ta ea lb rb sb tb eb.
      ensure_same_type None l r left right = Some ((la, ra, sa, ta, ea), None)
    \<and> ensure_same_type None r l right left = Some ((lb, rb, sb, tb, eb), None)
    \<and> (ea = [] \<longleftrightarrow> eb = []) \<and> (ea = [] \<longrightarrow> la = ra \<and> lb = rb \<and> la = lb)"
proof -
  obtain l' r' es pc where c: "cast_ambiguous_types None l r = Some (l', r', es, pc)"
    using cast_None_Some [of l r] by auto
  have es: "es = []" using cast_keeps_context [OF c assms] .
  have pc: "pc = None"
    using c by (auto simp: cast_ambiguous_types_def map_type_to_parameter_value_def set_context_type_def split: if_splits)
  have c': "cast_ambiguous_types None r l = Some (r', l', es, pc)"
    using cast_commutes [OF assms(2,1)] c by simp
  show ?thesis
  proof (cases "l' = r'")
    case True
    then show ?thesis using c c' es pc by (simp add: ensure_same_type_def)
  next
    case False
    then show ?thesis
      using c c' es pc convert_date_time_commutes [of "string_if_ambiguous l'" "string_if_ambiguous r'" left right]
        convert_date_time_agrees
      by (fastforce simp: ensure_same_type_def)
  qed
qed

theorem ensure_same_type_agrees_witness:
  "\<exists>la ra sa ta ea lb rb sb tb eb.
      ensure_same_type None DATE_LITERAL STRING_LITERAL (other_STATEMENT 1) (other_STATEMENT 2) = Some ((la, ra, sa, ta, ea), None)
    \<and> ensure_same_type None STRING_LITERAL DATE_LITERAL (other_STATEMENT 2) (other_STATEMENT 1) = Some ((lb, rb, sb, tb, eb), None)
    \<and> (ea = []) = (eb = []) \<and> (ea \<noteq> [] \<or> la = ra \<and> lb = rb \<and> la = lb)"
  using ensure_same_type_agrees [of DATE_LITERAL STRING_LITERAL "other_STATEMENT 1" "other_STATEMENT 2"] by auto


text \<open>
  C21: the type found for a parameter is stored inside the array, which grows to at most 32767 entries and keeps its other
  entries, if and only if the parameter number is not negative; a number that wrapped around in its 16-bit field is
  written before the array.
\<close>

theorem parameter_type_in_bounds:
  assumes "0 < length (param_types pc)" and "length (param_types pc) \<le> 32767"
    and "- 32768 \<le> cur_param_num pc" and "cur_param_num pc \<le> 32767"
  shows "(set_parameter_type pc t = None \<longleftrightarrow> cur_param_num pc < 0)
    \<and> (0 < cur_param_num pc \<longrightarrow> (\<exists>ts. set_parameter_type pc t = Some (pc\<lparr>param_types := ts\<rparr>)
         \<and> length ts \<le> 32767 \<and> nat (cur_param_num pc) \<le> length ts
         \<and> ts ! nat (cur_param_num pc - 1) = get_psql_type_from_sqlvaluetype t
         \<and> (\<forall>i < length (param_types pc). i \<noteq> nat (cur_param_num pc - 1) \<longrightarrow> ts ! i = param_types pc ! i)))"
proof (cases "0 < cur_param_num pc")
  case True
  obtain zs where "set_parameter_type pc t =
      Some (pc\<lparr>param_types := (param_types pc @ zs)[nat (cur_param_num pc - 1) := get_psql_type_from_sqlvaluetype t]\<rparr>)"
    "cur_param_num pc \<le> int (length (param_types pc @ zs))" "length (param_types pc @ zs) \<le> 32767"
    using set_parameter_type_Some [OF assms(1,2) True assms(4)] by blast
  then show ?thesis using True
    by (auto simp: nth_append intro!: exI
        [of _ "(param_types pc @ zs)[nat (cur_param_num pc - 1) := get_psql_type_from_sqlvaluetype t]"])
next
  case False
  then show ?thesis
    using set_parameter_type_negative [of pc t] by (cases "cur_param_num pc = 0") (auto simp: set_parameter_type_def Let_def)
qed

theorem parameter_type_in_bounds_witness:
  "set_parameter_type \<lparr>cur_param_num = - 25536, param_types = [0, 0]\<rparr> INTEGER_LITERAL = None
   \<and> (\<exists>ts. set_parameter_type \<lparr>cur_param_num = 5, param_types = [23, 0]\<rparr> INTEGER_LITERAL = Some \<lparr>cur_param_num = 5, param_types = ts\<rparr>
       \<and> ts ! 4 = PSQL_TypeOid_int4 \<and> ts ! 0 = 23)"
  using parameter_type_in_bounds [of "\<lparr>cur_param_num = - 25536, param_types = [0, 0]\<rparr>" INTEGER_LITERAL]
    parameter_type_in_bounds [of "\<lparr>cur_param_num = 5, param_types = [23, 0]\<rparr>" INTEGER_LITERAL]
  by auto

text \<open>
  C39: a comparison with NULL overwrites the type found for the last parameter: \<open>CAST_AMBIGUOUS_TYPES\<close> handles NULL like a
  parameter, so that the type of the other operand replaces the entry of the parameter seen last.
\<close>

theorem null_comparison_overwrites_parameter_type:
  assumes "0 < length ts" and "length ts \<le> 32767"
  shows "\<exists>ts'. cast_ambiguous_types (Some \<lparr>cur_param_num = 1, param_types = ts\<rparr>) STRING_LITERAL NUL_VALUE
      = Some (STRING_LITERAL, STRING_LITERAL, [], Some \<lparr>cur_param_num = 1, param_types = ts'\<rparr>)
    \<and> ts' ! 0 = PSQL_TypeOid_varchar"
proof -
  obtain zs where "set_parameter_type \<lparr>cur_param_num = 1, param_types = ts\<rparr> STRING_LITERAL =
      Some \<lparr>cur_param_num = 1, param_types = (ts @ zs)[0 := PSQL_TypeOid_varchar]\<rparr>"
    using set_parameter_type_Some [of "\<lparr>cur_param_num = 1, param_types = ts\<rparr>" STRING_LITERAL] assms by auto
  then show ?thesis
    using assms by (simp add: cast_ambiguous_types_def map_type_to_parameter_value_def set_context_type_def type_tests)
qed

theorem null_comparison_overwrites_parameter_type_witness:
  "\<exists>ts'. cast_ambiguous_types (Some \<lparr>cur_param_num = 1, param_types = [PSQL_TypeOid_int4]\<rparr>) STRING_LITERAL NUL_VALUE
      = Some (STRING_LITERAL, STRING_LITERAL, [], Some \<lparr>cur_param_num = 1, param_types = ts'\<rparr>)
    \<and> ts' ! 0 = PSQL_TypeOid_varchar"
  by (rule null_comparison_overwrites_parameter_type) simp_all

section \<open>Conversions and names\<close>

text \<open>The types a column or an expression can have.\<close>

definition sql_types :: "SqlValueType set" where
  "sql_types = {BOOLEAN_VALUE, NUMERIC_LITERAL, INTEGER_LITERAL, STRING_LITERAL, DATE_LITERAL, TIME_LITERAL,
     TIME_WITH_TIME_ZONE_LITERAL, TIMESTAMP_LITERAL, TIMESTAMP_WITH_TIME_ZONE_LITERAL}"

text \<open>
  the conversions of types are inverse to each other: every SQL type survives the way to a data type and back, and the
  way to a PostgreSQL type number and back, except BOOLEAN, whose number is not accepted; different SQL types have different
  numbers and names, and no name is longer than the buffers sized by \<open>MAX_TYPE_NAME_LEN\<close>.
\<close>

theorem type_conversions_roundtrip:
  assumes "t \<in> sql_types" and "u \<in> sql_types"
  shows "get_sqlvaluetype_from_sqldatatype (get_sqldatatype_from_sqlvaluetype t) okay = t
    \<and> (get_sqlvaluetype_from_psql_type (get_psql_type_from_sqlvaluetype t) =
         (if t = BOOLEAN_VALUE then UNKNOWN_SqlValueType else t))
    \<and> (get_psql_type_from_sqlvaluetype t = get_psql_type_from_sqlvaluetype u \<longleftrightarrow> t = u)
    \<and> (get_user_visible_type_string t = get_user_visible_type_string u \<longleftrightarrow> t = u)
    \<and> length (get_user_visible_type_string t) < 25"
proof -
  have "get_sqlvaluetype_from_sqldatatype (get_sqldatatype_from_sqlvaluetype t) okay = t"
    "length (get_user_visible_type_string t) < 25"
    using assms(1) by (auto simp: sql_types_def)
  moreover have "get_sqlvaluetype_from_psql_type (get_psql_type_from_sqlvaluetype t) =
      (if t = BOOLEAN_VALUE then UNKNOWN_SqlValueType else t)"
    using assms(1) by (auto simp: sql_types_def get_sqlvaluetype_from_psql_type_def psql_oid_defs)
  moreover have "inj_on get_psql_type_from_sqlvaluetype sql_types" "inj_on get_user_visible_type_string sql_types"
    by (simp_all add: sql_types_def psql_oid_defs)
  ultimately show ?thesis using assms by (simp add: inj_on_eq_iff)
qed

theorem type_conversions_roundtrip_witness:
  "get_sqlvaluetype_from_psql_type (get_psql_type_from_sqlvaluetype DATE_LITERAL) = DATE_LITERAL"
  using type_conversions_roundtrip [of DATE_LITERAL DATE_LITERAL] by (simp add: sql_types_def)

lemma append_string_fits:
  "length s + length done < n \<Longrightarrow> append_string n s done = Some (done @ s)"
  by (simp add: append_string_def)

lemma length_format_string: "length (get_date_time_format_string f) \<le> 8"
  by (cases f) simp_all

text \<open>The text for a data type when there is room for it.\<close>

definition size_suffix :: "SqlDataTypeStruct \<Rightarrow> bytes" where
  "size_suffix d = (if size_or_precision d = SIZE_OR_PRECISION_UNSPECIFIED then []
     else lit ''('' @ fmt_d (size_or_precision d) @ lit '')'')"

definition precision_suffix :: "SqlDataTypeStruct \<Rightarrow> bytes" where
  "precision_suffix d = (if size_or_precision d = SIZE_OR_PRECISION_UNSPECIFIED then []
     else if scale d = SCALE_UNSPECIFIED then size_suffix d
     else lit ''('' @ fmt_d (size_or_precision d) @ lit '','' @ fmt_d (scale d) @ lit '')'')"

definition format_suffix :: "SqlDataTypeStruct \<Rightarrow> bytes" where
  "format_suffix d = (if format d = OPTIONAL_DATE_TIME_TEXT then []
     else lit ''('' @ lit (get_date_time_format_string (format d)) @ lit '')'')"

definition data_type_text :: "SqlDataTypeStruct \<Rightarrow> bytes" where
  "data_type_text d =
     (case data_type d of
        BOOLEAN_TYPE \<Rightarrow> lit ''BOOLEAN''
      | INTEGER_TYPE \<Rightarrow> lit ''INTEGER'' @ size_suffix d
      | NUMERIC_TYPE \<Rightarrow> lit ''NUMERIC'' @ precision_suffix d
      | STRING_TYPE \<Rightarrow> lit ''VARCHAR'' @ size_suffix d
      | DATE_TYPE \<Rightarrow> lit ''DATE'' @ format_suffix d
      | TIME_TYPE \<Rightarrow> lit ''TIME'' @ format_suffix d
      | TIME_WITH_TIME_ZONE_TYPE \<Rightarrow> lit ''TIME'' @ format_suffix d @ lit '' WITH TIME ZONE''
      | TIMESTAMP_TYPE \<Rightarrow> lit ''TIMESTAMP'' @ format_suffix d
      | TIMESTAMP_WITH_TIME_ZONE_TYPE \<Rightarrow> lit ''TIMESTAMP'' @ format_suffix d @ lit '' WITH TIME ZONE''
      | _ \<Rightarrow> [])"

text \<open>
  the text of a data type always fits into the buffers that its callers pass, whose size is
  \<open>MAX_USER_VISIBLE_TYPE_STRING_LEN\<close>, whatever its 32-bit size, precision and scale and its date/time format are.
\<close>

theorem data_type_string_fits:
  assumes "- (2 ^ 31) \<le> size_or_precision d" and "size_or_precision d < 2 ^ 31" and "- (2 ^ 31) \<le> scale d" and "scale d < 2 ^ 31"
    and "data_type d \<noteq> UNKNOWN_SqlDataType" and "data_type d \<noteq> NUL_TYPE"
  shows "get_user_visible_data_type_string d MAX_USER_VISIBLE_TYPE_STRING_LEN = Some (data_type_text d)"
proof -
  have n: "length (fmt_d (size_or_precision d)) \<le> 11" "length (fmt_d (scale d)) \<le> 11"
    using assms(1-4) fmt_d_length by blast+
  show ?thesis
    using assms(5,6) n length_format_string [of "format d"]
    by (cases "data_type d")
      (simp_all add: get_user_visible_data_type_string_def Let_def data_type_text_def append_string_fits
        MAX_USER_VISIBLE_TYPE_STRING_LEN_def print_size_def print_precision_scale_def print_date_time_format_def
        size_suffix_def precision_suffix_def format_suffix_def lit_def)
qed

theorem data_type_string_fits_witness:
  "get_user_visible_data_type_string \<lparr>data_type = NUMERIC_TYPE, size_or_precision = 8, scale = 4, format = OPTIONAL_DATE_TIME_TEXT\<rparr>
     MAX_USER_VISIBLE_TYPE_STRING_LEN
   = Some (data_type_text \<lparr>data_type = NUMERIC_TYPE, size_or_precision = 8, scale = 4, format = OPTIONAL_DATE_TIME_TEXT\<rparr>)"
  by (rule data_type_string_fits) simp_all

end
