(* ===== verification/Date_Values.thy ===== *)
theory Date_Values
  imports Data_Types
begin

text \<open>
  Validation of date and time values: the first half of \<open>aux/ydboctodateoperations.c\<close>, up to
  \<open>validate_date_time_value\<close>, and the encoding of microseconds. A literal is its bytes without the terminating NUL;
  a scanner returns what is left of the literal, \<open>None\<close> where the C macro returns 1. \<open>errno\<close> is modelled by a flag
  that tells whether it is \<open>ERANGE\<close>: \<open>strtol\<close> sets it, and nothing resets it.
\<close>

section \<open>Scanning a field\<close>

text \<open>
  The common shape of \<open>IS_MONTH_VALID\<close>, \<open>IS_DATE_VALID\<close>, \<open>IS_HOUR_VALID\<close> and \<open>IS_MIN_VALID\<close>: a field of two
  digits if the first two characters are digits, of one digit otherwise.
\<close>

definition scan_field :: "(byte \<Rightarrow> byte \<Rightarrow> bool) \<Rightarrow> (byte \<Rightarrow> bool) \<Rightarrow> bytes \<Rightarrow> bytes option" where
  "scan_field two one lit_c =
     (case lit_c of
        [] \<Rightarrow> None
      | a # r \<Rightarrow>
          if \<not> is_digit a then None
          else
            (case r of
               b # r' \<Rightarrow> if is_digit b then (if two a b then Some r' else None) else if one a then Some r else None
             | [] \<Rightarrow> if one a then Some r else None))"

definition is_month_valid :: "bytes \<Rightarrow> bytes option" where
  "is_month_valid = scan_field
     (\<lambda>a b. if a = ch CHR ''0'' then b \<noteq> ch CHR ''0''
            else a = ch CHR ''1'' \<and> (b = ch CHR ''0'' \<or> b = ch CHR ''1'' \<or> b = ch CHR ''2''))
     (\<lambda>a. a \<noteq> ch CHR ''0'')"

definition is_date_valid :: "bytes \<Rightarrow> bytes option" where
  "is_date_valid = scan_field
     (\<lambda>a b. if a = ch CHR ''0'' then b \<noteq> ch CHR ''0''
            else a = ch CHR ''1'' \<or> a = ch CHR ''2'' \<or> a = ch CHR ''3'' \<and> (b = ch CHR ''0'' \<or> b = ch CHR ''1''))
     (\<lambda>a. a \<noteq> ch CHR ''0'')"

definition is_year_valid :: "bytes \<Rightarrow> bytes option" where
  "is_year_valid lit_c =
     (if 4 \<le> length lit_c \<and> list_all is_digit (take 4 lit_c) then Some (drop 4 lit_c) else None)"

definition is_hour_valid :: "bytes \<Rightarrow> bytes option" where
  "is_hour_valid = scan_field
     (\<lambda>a b. a = ch CHR ''0'' \<or> a = ch CHR ''1'' \<or> a = ch CHR ''2'' \<and> b \<le> ch CHR ''3'')
     (\<lambda>a. True)"

definition is_min_valid :: "bytes \<Rightarrow> bytes option" where
  "is_min_valid = scan_field (\<lambda>a b. \<not> ch CHR ''5'' < a) (\<lambda>a. True)"

definition is_gmt_offset :: "byte \<Rightarrow> bool" where
  "is_gmt_offset b \<longleftrightarrow> b = ch CHR ''+'' \<or> b = ch CHR ''-''"

fun micro_scan :: "nat \<Rightarrow> bytes \<Rightarrow> bytes option" where
  "micro_scan 0 mc = Some mc"
| "micro_scan (Suc n) [] = Some []"
| "micro_scan (Suc n) (b # mc) =
     (if is_gmt_offset b then Some (b # mc) else if is_digit b then micro_scan n mc else None)"

definition is_microsecond_valid :: "bytes \<Rightarrow> bytes option" where
  "is_microsecond_valid lit_c =
     (case lit_c of
        [] \<Rightarrow> Some []
      | b # mc \<Rightarrow> if b = ch CHR ''.'' then (if mc = [] then None else micro_scan 6 mc) else Some lit_c)"

text \<open>A field that starts with the end of the seconds passes the first test of the macro and fails the second.\<close>

definition is_sec_valid :: "bytes \<Rightarrow> bytes option" where
  "is_sec_valid lit_c =
     Option.bind (scan_field
         (\<lambda>a b. \<not> ch CHR ''6'' < a \<and> \<not> (a = ch CHR ''6'' \<and> b \<noteq> ch CHR ''0''))
         (\<lambda>a. True) lit_c)
       is_microsecond_valid"

text \<open>The loop over \<open>HH[:MM[:SS]]\<close>: \<open>i\<close> is the position and \<open>prev\<close> the character before.\<close>

fun time_zone_scan :: "nat \<Rightarrow> byte \<Rightarrow> bytes \<Rightarrow> nat \<Rightarrow> bytes option" where
  "time_zone_scan i prev lit_c 0 = Some lit_c"
| "time_zone_scan i prev [] (Suc n) = (if i = 2 \<or> i = 5 then Some [] else None)"
| "time_zone_scan i prev (b # r) (Suc n) =
     (if i = 2 \<or> i = 5 then (if b = ch CHR '':'' then time_zone_scan (i + 1) b r n else None)
      else if \<not> is_digit b then None
      else if i = 1 \<and> (ch CHR ''1'' < prev \<or> prev = ch CHR ''1'' \<and> ch CHR ''5'' < b) then None
      else if (i = 4 \<or> i = 7) \<and> ch CHR ''5'' < prev then None
      else time_zone_scan (i + 1) b r n)"

definition is_time_zone :: "bytes \<Rightarrow> bytes option" where
  "is_time_zone lit_c =
     (case lit_c of
        [] \<Rightarrow> Some []
      | b # r \<Rightarrow>
          if is_gmt_offset b then
            (case time_zone_scan 0 b r 8 of Some [] \<Rightarrow> Some [] | _ \<Rightarrow> None)
          else None)"

section \<open>is_date_time_literal_in_valid_format\<close>

definition is_timestamp_type :: "SqlValueType \<Rightarrow> bool" where
  "is_timestamp_type t \<longleftrightarrow> t = TIMESTAMP_LITERAL \<or> t = TIMESTAMP_WITH_TIME_ZONE_LITERAL"

text \<open>
  The state of the loop over the format: the rest of the literal and which of month, day and year have been
  parsed. \<open>Inl r\<close> is a return with value \<open>r\<close> from inside the loop.
\<close>

type_synonym format_state = "bytes \<times> bool \<times> bool \<times> bool"

definition scan_step :: "bytes option \<Rightarrow> (bytes \<Rightarrow> format_state) \<Rightarrow> int + format_state" where
  "scan_step r f = (case r of None \<Rightarrow> Inl 1 | Some lit_c \<Rightarrow> Inr (f lit_c))"

definition format_char :: "SqlValueType \<Rightarrow> byte \<Rightarrow> format_state \<Rightarrow> int + format_state" where
  "format_char ty c st =
     (case st of (lit_c, m, d, y) \<Rightarrow>
        if c = ch CHR ''%'' then Inr st
        else if c = ch CHR ''m'' then scan_step (is_month_valid lit_c) (\<lambda>r. (r, True, d, y))
        else if c = ch CHR ''d'' then scan_step (is_date_valid lit_c) (\<lambda>r. (r, m, True, y))
        else if c = ch CHR ''Y'' then scan_step (is_year_valid lit_c) (\<lambda>r. (r, m, d, True))
        else if c = ch CHR ''H'' then
          (if lit_c = [] \<and> is_timestamp_type ty then Inl 0 else scan_step (is_hour_valid lit_c) (\<lambda>r. (r, m, d, y)))
        else if c = ch CHR ''M'' then scan_step (is_min_valid lit_c) (\<lambda>r. (r, m, d, y))
        else if c = ch CHR ''S'' then scan_step (is_sec_valid lit_c) (\<lambda>r. (r, m, d, y))
        else if c = ch CHR ''z'' then scan_step (is_time_zone lit_c) (\<lambda>r. (r, m, d, y))
        else if c = ch CHR ''-'' \<or> c = ch CHR '':'' \<or> c = ch CHR '' '' then
          (if c = ch CHR '' '' \<and> \<not> is_timestamp_type ty then Inl 1
           else
             (case lit_c of
                b # r \<Rightarrow> if b = c then Inr (r, m, d, y) else Inl 1
              | [] \<Rightarrow> if c = ch CHR '' '' \<and> is_timestamp_type ty then Inl 0 else Inl 1))
        else Inl 1)"

fun format_loop :: "SqlValueType \<Rightarrow> bytes \<Rightarrow> format_state \<Rightarrow> int + format_state" where
  "format_loop ty [] st = Inr st"
| "format_loop ty (c # fmt_c) st = (case format_char ty c st of Inl r \<Rightarrow> Inl r | Inr st' \<Rightarrow> format_loop ty fmt_c st')"

definition expect :: "byte \<Rightarrow> bytes \<Rightarrow> bytes option" where
  "expect b lit_c = (case lit_c of c # r \<Rightarrow> if c = b then Some r else None | [] \<Rightarrow> None)"

text \<open>The time that may follow a date: \<open>HH:MM:SS\<close> with an optional time zone.\<close>

definition is_time_after_date :: "bytes \<Rightarrow> bytes option" where
  "is_time_after_date lit_c =
     Option.bind (is_hour_valid lit_c) (\<lambda>r. Option.bind (expect (ch CHR '':'') r) (\<lambda>r.
     Option.bind (is_min_valid r) (\<lambda>r. Option.bind (expect (ch CHR '':'') r) (\<lambda>r.
     Option.bind (is_sec_valid r) is_time_zone))))"

definition is_date_time_literal_in_valid_format :: "SqlValueType \<Rightarrow> bytes \<Rightarrow> bytes \<Rightarrow> int" where
  "is_date_time_literal_in_valid_format ty literal text_format =
     (case format_loop ty (if IS_DATE_TIME_TYPE ty then text_format else []) (literal, False, False, False) of
        Inl r \<Rightarrow> r
      | Inr (lit_c, m, d, y) \<Rightarrow>
          if lit_c = [] then 0
          else
            (case if ty = DATE_LITERAL \<and> hd lit_c = ch CHR '' '' \<and> y \<and> m \<and> d
                  then is_time_after_date (tl lit_c) else is_time_zone lit_c of
               None \<Rightarrow> 1
             | Some _ \<Rightarrow> 0))"

section \<open>Numbers and delimiters\<close>

text \<open>The value \<open>strtol\<close> reads before it saturates.\<close>

definition strtol_value :: "bytes \<Rightarrow> int" where
  "strtol_value s =
     (case dropWhile is_space s of
        [] \<Rightarrow> 0
      | b # r \<Rightarrow>
          if b = 45 then - int (dec_val (takeWhile is_digit r))
          else if b = 43 then int (dec_val (takeWhile is_digit r))
          else int (dec_val (takeWhile is_digit (b # r))))"

lemma strtol_clamp: "strtol s = clamp_long (strtol_value s)"
proof -
  have "clamp_long 0 = 0" by (simp add: clamp_long_def LONG_MIN_def LONG_MAX_def)
  then show ?thesis
    by (cases "dropWhile is_space s")
      (simp_all add: strtol_def strtol_value_def Let_def del: dropWhile_eq_Nil_conv)
qed

definition strtol_overflows :: "bytes \<Rightarrow> bool" where
  "strtol_overflows s \<longleftrightarrow> strtol_value s < LONG_MIN \<or> LONG_MAX < strtol_value s"

text \<open>\<open>ATOI\<close>: \<open>None\<close> when \<open>errno\<close> is \<open>ERANGE\<close> afterwards, else the value cut to 32 bits.\<close>

definition ATOI :: "bytes \<Rightarrow> bool \<Rightarrow> int option" where
  "ATOI s erange = (if erange \<or> strtol_overflows s then None else Some (sint (word_of_int (strtol s) :: 32 word)))"

text \<open>
  The scan in \<open>is_all_numbers_and_has_specified_num_of_delims\<close>: the counts of delimiters and of digits, \<open>None\<close> for a
  return with 1. A sign after a delimiter has to be followed by a digit.
\<close>

fun delim_scan :: "byte \<Rightarrow> nat \<Rightarrow> bytes \<Rightarrow> nat \<Rightarrow> nat \<Rightarrow> (nat \<times> nat) option" where
  "delim_scan delim num_of_delims [] delim_count num_count = Some (delim_count, num_count)"
| "delim_scan delim num_of_delims (c # r) delim_count num_count =
     (if c = delim then
        (if num_of_delims < delim_count + 1 then None
         else
           (case r of
              s # r' \<Rightarrow>
                if is_gmt_offset s then
                  (case r' of
                     b # r'' \<Rightarrow> if is_digit b then delim_scan delim num_of_delims r' (delim_count + 1) num_count else None
                   | [] \<Rightarrow> None)
                else delim_scan delim num_of_delims r (delim_count + 1) num_count
            | [] \<Rightarrow> delim_scan delim num_of_delims r (delim_count + 1) num_count))
      else if is_digit c then delim_scan delim num_of_delims r delim_count (num_count + 1)
      else None)"

definition skip_sign :: "bytes \<Rightarrow> bytes" where
  "skip_sign s = (case s of c # r \<Rightarrow> if is_gmt_offset c then r else s | [] \<Rightarrow> s)"

definition is_all_numbers_and_has_specified_num_of_delims :: "bytes \<Rightarrow> byte \<Rightarrow> nat \<Rightarrow> int" where
  "is_all_numbers_and_has_specified_num_of_delims str delim num_of_delims =
     (case delim_scan delim num_of_delims (skip_sign str) 0 0 of
        None \<Rightarrow> 1
      | Some (delim_count, num_count) \<Rightarrow> if num_count = 0 then 1 else if delim_count < num_of_delims then 1 else 0)"

section \<open>Horolog\<close>

abbreviation not_comma :: "byte \<Rightarrow> bool" where
  "not_comma b \<equiv> b \<noteq> ch CHR '',''"

text \<open>The result is the return value and the new \<open>errno\<close> flag.\<close>

definition is_date_in_horolog_range :: "bytes \<Rightarrow> bool \<Rightarrow> int \<times> bool" where
  "is_date_in_horolog_range literal erange =
     (let date = takeWhile not_comma literal in
      if date = [] then (1, erange)
      else (if strtol date < - 365 \<or> 2980013 < strtol date then 1 else 0, erange \<or> strtol_overflows date))"

definition time_in_range :: "int \<Rightarrow> int \<Rightarrow> int" where
  "time_in_range timeh micro =
     (if 0 > timeh \<or> 86399 < timeh then 1 else if 0 > micro \<or> 999999 < micro then 1 else 0)"

definition is_time_in_horolog_range :: "bytes \<Rightarrow> bool \<Rightarrow> int \<times> bool" where
  "is_time_in_horolog_range literal erange =
     (case dropWhile not_comma literal of
        [] \<Rightarrow> (time_in_range (strtol literal) 0, erange \<or> strtol_overflows literal)
      | _ # r \<Rightarrow>
          let sec = takeWhile not_comma r; erange1 = erange \<or> strtol_overflows sec in
          if sec = [] then (1, erange)
          else
            (case dropWhile not_comma r of
               [] \<Rightarrow> (time_in_range (strtol sec) 0, erange1)
             | _ # r' \<Rightarrow>
                 let micro_str = takeWhile not_comma r' in
                 if micro_str = [] then (time_in_range (strtol sec) 0, erange1)
                 else
                   (case ATOI micro_str erange1 of
                      None \<Rightarrow> (1, True)
                    | Some micro \<Rightarrow> (time_in_range (strtol sec) micro, erange1))))"

text \<open>What follows the last comma.\<close>

definition is_time_zone_in_zhorolog_range :: "bytes \<Rightarrow> bool \<Rightarrow> int \<times> bool" where
  "is_time_zone_in_zhorolog_range literal erange =
     (case ATOI (rev (takeWhile not_comma (rev literal))) erange of
        None \<Rightarrow> (1, True)
      | Some time_zone \<Rightarrow> (if - 50400 > time_zone \<or> 43200 < time_zone then 1 else 0, erange))"

section \<open>Fileman and ZUT\<close>

definition error_return :: "bool \<Rightarrow> int" where
  "error_return is_parser_call = (if is_parser_call then 1 else 2)"

abbreviation not_period :: "byte \<Rightarrow> bool" where
  "not_period b \<equiv> b \<noteq> ch CHR ''.''"

definition is_date_in_fileman_range :: "bytes \<Rightarrow> bool \<Rightarrow> bool \<Rightarrow> int \<times> bool" where
  "is_date_in_fileman_range literal is_parser_call erange =
     (let err = (error_return is_parser_call, erange) in
      if literal \<noteq> [] \<and> is_gmt_offset (hd literal) then err
      else if length (takeWhile not_period literal) \<noteq> 7 then err
      else
        (case (ATOI (take 3 literal) erange, ATOI (take 2 (drop 3 literal)) erange, ATOI (take 2 (drop 5 literal)) erange) of
           (Some year, Some mon, Some day) \<Rightarrow>
             if 12 < mon \<or> 31 < day then err
             else if year = 0 then err
             else if mon = 0 \<and> day \<noteq> 0 then err
             else (0, erange)
         | _ \<Rightarrow> (1, True)))"

text \<open>
  The fields of the time: two characters copied over \<open>00\<close>, of which the second may be the terminating NUL, where
  \<open>strtol\<close> stops.
\<close>

definition time_field :: "nat \<Rightarrow> nat \<Rightarrow> bytes \<Rightarrow> bytes" where
  "time_field needed position time =
     (if needed \<le> length time then take 2 (drop position time) else lit ''00'')"

definition is_time_in_fileman_range :: "bytes \<Rightarrow> bool \<Rightarrow> bool \<Rightarrow> int \<times> bool" where
  "is_time_in_fileman_range literal is_parser_call erange =
     (let err = (error_return is_parser_call, erange) in
      case dropWhile not_period literal of
        [] \<Rightarrow> (0, erange)
      | _ # time \<Rightarrow>
          let n = length time in
          if 6 < n then err
          else
            (case (ATOI (time_field 2 0 time) erange, ATOI (time_field 3 2 time) erange, ATOI (time_field 5 4 time) erange) of
               (Some hour, Some mins, Some sec) \<Rightarrow>
                 if n = 2 \<and> (hour = 10 \<or> hour = 20) then err
                 else if n = 1 \<and> 3 \<le> hour then err
                 else if n = 3 \<and> 6 \<le> mins then err
                 else if n = 5 \<and> 6 \<le> sec then err
                 else if 24 < hour then err
                 else if hour = 24 then (if mins \<noteq> 0 \<or> sec \<noteq> 0 then err else (0, erange))
                 else if 59 < mins then err
                 else if 59 < sec then err
                 else (0, erange)
             | _ \<Rightarrow> (1, True)))"

definition is_date_time_value_in_zut_range :: "bytes \<Rightarrow> SqlValueType \<Rightarrow> bool \<Rightarrow> int \<times> bool" where
  "is_date_time_value_in_zut_range value ty erange =
     (if ty = TIME_LITERAL \<or> ty = TIME_WITH_TIME_ZONE_LITERAL then (1, erange)
      else
        let v = strtol value in
        (if ty = DATE_LITERAL \<and> - 62167219200000000 \<le> v \<and> v \<le> 253402214400000000
            \<or> ty = TIMESTAMP_LITERAL \<and> - 62167219200000000 \<le> v \<and> v \<le> 253402300799999999 then 0 else 1,
         erange \<or> strtol_overflows value))"

section \<open>validate_date_time_value\<close>

text \<open>Checks in sequence: the first one that does not return 0 ends the validation.\<close>

definition and_then :: "int \<times> bool \<Rightarrow> (bool \<Rightarrow> int \<times> bool) \<Rightarrow> int \<times> bool" where
  "and_then r f = (case r of (ret, erange) \<Rightarrow> if ret \<noteq> 0 then (ret, erange) else f erange)"

definition delims :: "bytes \<Rightarrow> string \<Rightarrow> nat \<Rightarrow> bool \<Rightarrow> int \<times> bool" where
  "delims literal delim n erange = (is_all_numbers_and_has_specified_num_of_delims literal (ch (hd delim)) n, erange)"

definition validate_horolog :: "bytes \<Rightarrow> SqlValueType \<Rightarrow> bool \<Rightarrow> int \<times> bool" where
  "validate_horolog literal ty erange =
     (if ty = DATE_LITERAL then
        and_then (if fst (delims literal '','' 0 erange) = 0 then (0, erange) else delims literal '','' 1 erange)
          (is_date_in_horolog_range literal)
      else if ty = TIME_LITERAL \<or> ty = TIME_WITH_TIME_ZONE_LITERAL then
        and_then (delims literal '','' 0 erange) (is_time_in_horolog_range literal)
      else if ty = TIMESTAMP_LITERAL \<or> ty = TIMESTAMP_WITH_TIME_ZONE_LITERAL then
        and_then (delims literal '','' 1 erange) (\<lambda>e.
        and_then (is_date_in_horolog_range literal e) (is_time_in_horolog_range literal))
      else (0, erange))"

definition validate_zhorolog :: "bytes \<Rightarrow> SqlValueType \<Rightarrow> bool \<Rightarrow> int \<times> bool" where
  "validate_zhorolog literal ty erange =
     (if \<not> IS_DATE_TIME_TYPE ty then (0, erange)
      else
        and_then (delims literal '','' 3 erange) (\<lambda>e.
          if ty = DATE_LITERAL then is_date_in_horolog_range literal e
          else if ty = TIME_LITERAL then is_time_in_horolog_range literal e
          else if ty = TIMESTAMP_LITERAL then
            and_then (is_date_in_horolog_range literal e) (is_time_in_horolog_range literal)
          else if ty = TIME_WITH_TIME_ZONE_LITERAL then
            and_then (is_time_in_horolog_range literal e) (is_time_zone_in_zhorolog_range literal)
          else
            and_then (is_date_in_horolog_range literal e) (\<lambda>e.
            and_then (is_time_in_horolog_range literal e) (is_time_zone_in_zhorolog_range literal))))"

definition validate_fileman :: "bytes \<Rightarrow> SqlValueType \<Rightarrow> bool \<Rightarrow> bool \<Rightarrow> int \<times> bool" where
  "validate_fileman literal ty is_parser_call erange =
     (let numbers = fst (delims literal ''.'' 0 erange) = 0 \<or> fst (delims literal ''.'' 1 erange) = 0 in
      if ty = TIME_LITERAL \<or> ty = TIME_WITH_TIME_ZONE_LITERAL then (- 1, erange)
      else if \<not> IS_DATE_TIME_TYPE ty then (0, erange)
      else if \<not> numbers then (error_return is_parser_call, erange)
      else if ty = DATE_LITERAL then is_date_in_fileman_range literal is_parser_call erange
      else and_then (is_date_in_fileman_range literal is_parser_call erange)
             (is_time_in_fileman_range literal is_parser_call))"

definition validate_date_time_value ::
    "bytes \<Rightarrow> SqlValueType \<Rightarrow> date_time_format \<Rightarrow> bytes \<Rightarrow> bool \<Rightarrow> bool \<Rightarrow> int \<times> bool" where
  "validate_date_time_value literal ty internal_format text_format is_parser_call erange =
     (case internal_format of
        OPTIONAL_DATE_TIME_HOROLOG \<Rightarrow> validate_horolog literal ty erange
      | OPTIONAL_DATE_TIME_ZHOROLOG \<Rightarrow> validate_zhorolog literal ty erange
      | OPTIONAL_DATE_TIME_FILEMAN \<Rightarrow> validate_fileman literal ty is_parser_call erange
      | OPTIONAL_DATE_TIME_ZUT \<Rightarrow>
          and_then (delims literal ''.'' 0 erange) (is_date_time_value_in_zut_range literal ty)
      | OPTIONAL_DATE_TIME_TEXT \<Rightarrow> (is_date_time_literal_in_valid_format ty literal text_format, erange))"

section \<open>Microseconds\<close>

text \<open>\<open>/\<close> and \<open>%\<close> of C.\<close>

definition cdiv :: "int \<Rightarrow> int \<Rightarrow> int" where
  "cdiv a b = sgn a * sgn b * (\<bar>a\<bar> div \<bar>b\<bar>)"

definition cmod :: "int \<Rightarrow> int \<Rightarrow> int" where
  "cmod a b = a - cdiv a b * b"

text \<open>The decimal digits of the microseconds, filled up from the right; \<open>None\<close> past the six entries.\<close>

function micro_digits :: "int \<Rightarrow> int \<Rightarrow> int list \<Rightarrow> int list option" where
  "micro_digits lcl_micro i micro_arr =
     (if lcl_micro = 0 then Some micro_arr
      else if i < 0 then None
      else micro_digits (cdiv lcl_micro 10) (i - 1) (micro_arr[nat i := cmod lcl_micro 10]))"
  by pat_completeness auto
termination
  by (relation "measure (\<lambda>(_, i, _). nat (i + 1))") simp_all

declare micro_digits.simps [simp del]

definition ADD_MICRO_SECONDS :: "int \<Rightarrow> int \<Rightarrow> int option" where
  "ADD_MICRO_SECONDS v micro =
     map_option (foldl (\<lambda>w d. if v < 0 then w * 10 - d else w * 10 + d) v)
       (micro_digits micro 5 [0, 0, 0, 0, 0, 0])"

fun remove_digits :: "nat \<Rightarrow> int \<Rightarrow> int \<Rightarrow> int \<Rightarrow> int \<times> int" where
  "remove_digits 0 v lcl_micro mult = (v, lcl_micro)"
| "remove_digits (Suc n) v lcl_micro mult = remove_digits n (cdiv v 10) (lcl_micro + cmod v 10 * mult) (mult * 10)"

definition REMOVE_MICRO_SECONDS :: "int \<Rightarrow> int \<times> int" where
  "REMOVE_MICRO_SECONDS v = (case remove_digits 6 v 0 1 of (w, micro) \<Rightarrow> (w, if 0 > micro then - micro else micro))"

end
