(* ===== verification/Date_Laws.thy ===== *)
theory Date_Laws
  imports Date_Values
begin

text \<open>
  What the validation of dates and times accepts. The scanners of \<open>Date_Values\<close> share a contract, the locale
  \<open>field_scanner\<close>: a scanner takes a field off the front of the literal and stops where the field ends. The fields of one
  or two digits fulfil it through the locale \<open>bounded_field\<close>, of which month, day, hour and minute are instances.
\<close>

section \<open>Digits\<close>

definition dv :: "byte \<Rightarrow> nat" where
  "dv b = unat b - 48"

lemma digit_unat: "is_digit b \<Longrightarrow> unat b = 48 + dv b" "is_digit b \<Longrightarrow> dv b \<le> 9"
  by (auto simp: is_digit_def dv_def)

lemma ch_digit_unat:
  "unat (ch CHR ''0'') = 48" "unat (ch CHR ''1'') = 49" "unat (ch CHR ''2'') = 50" "unat (ch CHR ''3'') = 51"
  "unat (ch CHR ''5'') = 53" "unat (ch CHR ''6'') = 54"
  by (simp_all add: ch_def)

lemma digit_eq:
  assumes "is_digit b"
  shows "b = ch CHR ''0'' \<longleftrightarrow> dv b = 0" "b = ch CHR ''1'' \<longleftrightarrow> dv b = 1" "b = ch CHR ''2'' \<longleftrightarrow> dv b = 2"
    "b = ch CHR ''3'' \<longleftrightarrow> dv b = 3" "b = ch CHR ''6'' \<longleftrightarrow> dv b = 6"
    "b \<le> ch CHR ''3'' \<longleftrightarrow> dv b \<le> 3" "ch CHR ''5'' < b \<longleftrightarrow> 5 < dv b" "ch CHR ''6'' < b \<longleftrightarrow> 6 < dv b"
    "ch CHR ''1'' < b \<longleftrightarrow> 1 < dv b"
  using digit_unat [OF assms]
  by (auto simp: word_unat_eq_iff word_le_nat_alt word_less_nat_alt ch_digit_unat)

lemma dec_val_simps [simp]: "dec_val [] = 0" "dec_val [a] = dv a" "dec_val [a, b] = 10 * dv a + dv b"
  by (simp_all add: dec_val_def dv_def)

section \<open>The contract of a scanner\<close>

text \<open>A field ends where the literal ends or at a character that no field contains.\<close>

definition at_end :: "bytes \<Rightarrow> bool" where
  "at_end r \<longleftrightarrow> r = [] \<or> \<not> is_digit (hd r)"

locale field_scanner =
  fixes scan :: "bytes \<Rightarrow> bytes option" and field :: "bytes \<Rightarrow> bool"
  assumes sound: "scan s = Some r \<Longrightarrow> \<exists>t. s = t @ r \<and> field t"
    and complete: "field t \<Longrightarrow> at_end r \<Longrightarrow> scan (t @ r) = Some r"
begin

text \<open>A field and the separator after it.\<close>

lemma scan_then_expect:
  assumes "\<not> is_digit b"
  shows "Option.bind (scan s) (expect b) = Some r \<longleftrightarrow> (\<exists>t. s = t @ b # r \<and> field t)"
proof
  assume "Option.bind (scan s) (expect b) = Some r"
  then obtain r' where "scan s = Some r'" "expect b r' = Some r" by (auto simp: bind_eq_Some_conv)
  then show "\<exists>t. s = t @ b # r \<and> field t"
    using sound [of s r'] by (auto simp: expect_def split: list.splits if_splits)
next
  assume "\<exists>t. s = t @ b # r \<and> field t"
  then obtain t where "s = t @ b # r" "field t" by blast
  then show "Option.bind (scan s) (expect b) = Some r"
    using complete [of t "b # r"] assms by (simp add: at_end_def expect_def)
qed

end

section \<open>Fields of one or two digits\<close>

definition number_field :: "nat \<Rightarrow> nat \<Rightarrow> bytes \<Rightarrow> bool" where
  "number_field lo hi t \<longleftrightarrow>
     (length t = 1 \<or> length t = 2) \<and> list_all is_digit t \<and> lo \<le> dec_val t \<and> dec_val t \<le> hi"

locale bounded_field =
  fixes two :: "byte \<Rightarrow> byte \<Rightarrow> bool" and one :: "byte \<Rightarrow> bool" and lo hi :: nat
  assumes two_range: "is_digit a \<Longrightarrow> is_digit b \<Longrightarrow> two a b \<longleftrightarrow> lo \<le> 10 * dv a + dv b \<and> 10 * dv a + dv b \<le> hi"
    and one_range: "is_digit a \<Longrightarrow> one a \<longleftrightarrow> lo \<le> dv a \<and> dv a \<le> hi"
begin

lemma scan_sound:
  assumes "scan_field two one s = Some r"
  shows "\<exists>t. s = t @ r \<and> number_field lo hi t"
proof -
  consider a b where "s = a # b # r" "is_digit a" "is_digit b" "two a b" | a where "s = a # r" "is_digit a" "one a"
    using assms by (auto simp: scan_field_def split: list.splits if_splits)
  then show ?thesis
  proof cases
    case (1 a b)
    then show ?thesis using two_range [of a b] by (intro exI [of _ "[a, b]"]) (simp add: number_field_def)
  next
    case (2 a)
    then show ?thesis using one_range [of a] by (intro exI [of _ "[a]"]) (simp add: number_field_def)
  qed
qed

lemma scan_complete:
  assumes "number_field lo hi t" "at_end r"
  shows "scan_field two one (t @ r) = Some r"
proof -
  consider a where "t = [a]" | a b where "t = [a, b]"
    using assms(1) by (auto simp: number_field_def length_Suc_conv numeral_2_eq_2)
  then show ?thesis
  proof cases
    case (1 a)
    then show ?thesis
      using assms one_range [of a] by (cases r) (auto simp: scan_field_def number_field_def at_end_def)
  next
    case (2 a b)
    then show ?thesis using assms(1) two_range [of a b] by (auto simp: scan_field_def number_field_def)
  qed
qed

end

sublocale bounded_field \<subseteq> field_scanner "scan_field two one" "number_field lo hi"
  by unfold_locales (fact scan_sound, fact scan_complete)

context bounded_field
begin

lemma scanner: "field_scanner (scan_field two one) (number_field lo hi)"
  by (rule field_scanner_axioms)

end

text \<open>The tests on a pair of digits, as ranges of the number it stands for.\<close>

lemma digit_pair_ranges:
  fixes x y :: nat
  assumes "x \<le> 9" "y \<le> 9"
  shows month_pair: "(if x = 0 then y \<noteq> 0 else x = 1 \<and> (y = 0 \<or> y = 1 \<or> y = 2)) \<longleftrightarrow> 1 \<le> 10 * x + y \<and> 10 * x + y \<le> 12"
    and day_pair: "(if x = 0 then y \<noteq> 0 else x = 1 \<or> x = 2 \<or> x = 3 \<and> (y = 0 \<or> y = 1)) \<longleftrightarrow> 1 \<le> 10 * x + y \<and> 10 * x + y \<le> 31"
    and hour_pair: "x = 0 \<or> x = 1 \<or> x = 2 \<and> y \<le> 3 \<longleftrightarrow> 0 \<le> 10 * x + y \<and> 10 * x + y \<le> 23"
    and minute_pair: "\<not> 5 < x \<longleftrightarrow> 0 \<le> 10 * x + y \<and> 10 * x + y \<le> 59"
  using assms by (cases "x = 0"; cases "x = 1"; cases "x = 2"; cases "x = 3"; auto)+

lemma month_bounds:
  "bounded_field
     (\<lambda>a b. if a = ch CHR ''0'' then b \<noteq> ch CHR ''0''
            else a = ch CHR ''1'' \<and> (b = ch CHR ''0'' \<or> b = ch CHR ''1'' \<or> b = ch CHR ''2''))
     (\<lambda>a. a \<noteq> ch CHR ''0'') 1 12"
  apply unfold_locales
  subgoal for a b by (simp only: digit_eq month_pair [OF digit_unat(2) digit_unat(2)])
  subgoal for a using digit_unat(2) [of a] by (auto simp: digit_eq)
  done

lemma day_bounds:
  "bounded_field
     (\<lambda>a b. if a = ch CHR ''0'' then b \<noteq> ch CHR ''0''
            else a = ch CHR ''1'' \<or> a = ch CHR ''2'' \<or> a = ch CHR ''3'' \<and> (b = ch CHR ''0'' \<or> b = ch CHR ''1''))
     (\<lambda>a. a \<noteq> ch CHR ''0'') 1 31"
  apply unfold_locales
  subgoal for a b by (simp only: digit_eq day_pair [OF digit_unat(2) digit_unat(2)])
  subgoal for a using digit_unat(2) [of a] by (auto simp: digit_eq)
  done

lemma hour_bounds:
  "bounded_field (\<lambda>a b. a = ch CHR ''0'' \<or> a = ch CHR ''1'' \<or> a = ch CHR ''2'' \<and> b \<le> ch CHR ''3'') (\<lambda>a. True) 0 23"
  apply unfold_locales
  subgoal for a b by (simp only: digit_eq hour_pair [OF digit_unat(2) digit_unat(2)])
  subgoal for a using digit_unat(2) [of a] by (auto simp: digit_eq)
  done

lemma minute_bounds: "bounded_field (\<lambda>a b. \<not> ch CHR ''5'' < a) (\<lambda>a. True) 0 59"
  apply unfold_locales
  subgoal for a b by (simp only: digit_eq minute_pair [OF digit_unat(2) digit_unat(2), of a b])
  subgoal for a using digit_unat(2) [of a] by (auto simp: digit_eq)
  done

interpretation month: field_scanner is_month_valid "number_field 1 12"
  unfolding is_month_valid_def by (rule bounded_field.scanner [OF month_bounds])

interpretation day: field_scanner is_date_valid "number_field 1 31"
  unfolding is_date_valid_def by (rule bounded_field.scanner [OF day_bounds])

interpretation hour: field_scanner is_hour_valid "number_field 0 23"
  unfolding is_hour_valid_def by (rule bounded_field.scanner [OF hour_bounds])

interpretation minute: field_scanner is_min_valid "number_field 0 59"
  unfolding is_min_valid_def by (rule bounded_field.scanner [OF minute_bounds])

definition year_field :: "bytes \<Rightarrow> bool" where
  "year_field t \<longleftrightarrow> length t = 4 \<and> list_all is_digit t"

interpretation year: field_scanner is_year_valid year_field
proof
  show "\<exists>t. s = t @ r \<and> year_field t" if "is_year_valid s = Some r" for s r
    using that by (intro exI [of _ "take 4 s"]) (auto simp: is_year_valid_def year_field_def split: if_splits)
  show "is_year_valid (t @ r) = Some r" if "year_field t" "at_end r" for t r
    using that by (simp add: is_year_valid_def year_field_def)
qed

section \<open>Dates as text\<close>

abbreviation dash :: byte where
  "dash \<equiv> ch CHR ''-''"

lemma dash_not_digit [simp]: "\<not> is_digit dash" "\<not> is_digit (ch CHR '':'')" "\<not> is_digit (ch CHR '' '')"
  by (simp_all add: is_digit_def ch_def)

lemma format_chars:
  "format_char ty (ch CHR ''%'') st = Inr st"
  "format_char ty (ch CHR ''m'') (s, m, d, y) = scan_step (is_month_valid s) (\<lambda>r. (r, True, d, y))"
  "format_char ty (ch CHR ''d'') (s, m, d, y) = scan_step (is_date_valid s) (\<lambda>r. (r, m, True, y))"
  "format_char ty (ch CHR ''Y'') (s, m, d, y) = scan_step (is_year_valid s) (\<lambda>r. (r, m, d, True))"
  "format_char ty dash (s, m, d, y) = scan_step (expect dash s) (\<lambda>r. (r, m, d, y))"
  by (cases s; simp add: format_char_def ch_def scan_step_def expect_def split: prod.split)+

lemma format_loop_scan:
  "format_char ty c st = scan_step x f \<Longrightarrow>
     format_loop ty (c # cs) st = (case x of None \<Rightarrow> Inl 1 | Some r \<Rightarrow> format_loop ty cs (f r))"
  by (simp add: scan_step_def split: option.split)

text \<open>What may follow the date in a DATE literal.\<close>

definition date_tail :: "bytes \<Rightarrow> bool" where
  "date_tail r \<longleftrightarrow> r = [] \<or> (if hd r = ch CHR '' '' then is_time_after_date (tl r) \<noteq> None else is_time_zone r \<noteq> None)"

lemma date_tail_at_end: "date_tail r \<Longrightarrow> at_end r"
proof (cases r)
  case (Cons b r')
  assume "date_tail r"
  then have "b = ch CHR '' '' \<or> is_gmt_offset b"
    using Cons by (auto simp: date_tail_def is_time_zone_def split: if_splits)
  then show "at_end r" using Cons by (auto simp: at_end_def is_gmt_offset_def is_digit_def ch_def)
qed (simp add: at_end_def)

text \<open>Three fields with dashes between them.\<close>

definition three_fields ::
    "(bytes \<Rightarrow> bytes option) \<Rightarrow> (bytes \<Rightarrow> bytes option) \<Rightarrow> (bytes \<Rightarrow> bytes option) \<Rightarrow> bytes \<Rightarrow> bytes option" where
  "three_fields f g h s =
     Option.bind (Option.bind (Option.bind (f s) (expect dash)) (\<lambda>r. Option.bind (g r) (expect dash))) h"

lemmas format_loop_steps =
  format_loop_scan [OF format_chars(2)] format_loop_scan [OF format_chars(3)] format_loop_scan [OF format_chars(4)]
  format_loop_scan [OF format_chars(5)]

lemma format_loop_percent: "format_loop ty (ch CHR ''%'' # cs) st = format_loop ty cs st"
  by (simp add: format_chars)

lemma date_format_loops:
  "format_loop ty (lit ''%Y-%m-%d'') (s, False, False, False) =
     (case three_fields is_year_valid is_month_valid is_date_valid s of None \<Rightarrow> Inl 1 | Some r \<Rightarrow> Inr (r, True, True, True))"
  "format_loop ty (lit ''%m-%d-%Y'') (s, False, False, False) =
     (case three_fields is_month_valid is_date_valid is_year_valid s of None \<Rightarrow> Inl 1 | Some r \<Rightarrow> Inr (r, True, True, True))"
  "format_loop ty (lit ''%d-%m-%Y'') (s, False, False, False) =
     (case three_fields is_date_valid is_month_valid is_year_valid s of None \<Rightarrow> Inl 1 | Some r \<Rightarrow> Inr (r, True, True, True))"
  unfolding three_fields_def
  by (simp_all add: format_loop_percent format_loop_steps del: format_loop.simps(2) split: option.split)

lemma date_literal_valid:
  assumes "format_loop DATE_LITERAL fmt (s, False, False, False) =
    (case x of None \<Rightarrow> Inl 1 | Some r \<Rightarrow> Inr (r, True, True, True))"
  shows "is_date_time_literal_in_valid_format DATE_LITERAL s fmt = 0 \<longleftrightarrow> (\<exists>r. x = Some r \<and> date_tail r)"
  unfolding is_date_time_literal_in_valid_format_def
  using assms by (cases x) (simp_all add: IS_DATE_TIME_TYPE_def date_tail_def split: option.split)

lemma three_fields_iff:
  assumes "field_scanner f F" "field_scanner g G" "field_scanner h H"
  shows "(\<exists>r. three_fields f g h s = Some r \<and> date_tail r)
    \<longleftrightarrow> (\<exists>a b c r. s = a @ dash # b @ dash # c @ r \<and> F a \<and> G b \<and> H c \<and> date_tail r)"
proof -
  have "three_fields f g h s = Some r \<and> date_tail r
      \<longleftrightarrow> (\<exists>a b c. s = a @ dash # b @ dash # c @ r \<and> F a \<and> G b \<and> H c) \<and> date_tail r" for r
  proof (cases "date_tail r")
    case True
    have "h t = Some r \<longleftrightarrow> (\<exists>c. t = c @ r \<and> H c)" for t
      using field_scanner.sound [OF assms(3)] field_scanner.complete [OF assms(3) _ date_tail_at_end [OF True]] by blast
    then show ?thesis
      using True field_scanner.scan_then_expect [OF assms(1) dash_not_digit(1)]
        field_scanner.scan_then_expect [OF assms(2) dash_not_digit(1)]
      unfolding three_fields_def bind_eq_Some_conv [of "Option.bind (Option.bind (f s) (expect dash)) _"]
        bind_eq_Some_conv [of "Option.bind (f s) (expect dash)"]
      by auto
  qed simp
  then show ?thesis by blast
qed

text \<open>
  C22: the text of a DATE is accepted, in each of the three orders of its fields, if and only if it consists of a year of
  four digits, a month from 1 to 12 and a day from 1 to 31 of one or two digits, with dashes between them, followed by
  nothing, by a time of day or by an offset from GMT.
\<close>

theorem date_text_accepted_iff:
  "(is_date_time_literal_in_valid_format DATE_LITERAL s (lit ''%Y-%m-%d'') = 0
      \<longleftrightarrow> (\<exists>y m d r. s = y @ dash # m @ dash # d @ r \<and> year_field y \<and> number_field 1 12 m \<and> number_field 1 31 d \<and> date_tail r))
   \<and> (is_date_time_literal_in_valid_format DATE_LITERAL s (lit ''%m-%d-%Y'') = 0
      \<longleftrightarrow> (\<exists>y m d r. s = m @ dash # d @ dash # y @ r \<and> year_field y \<and> number_field 1 12 m \<and> number_field 1 31 d \<and> date_tail r))
   \<and> (is_date_time_literal_in_valid_format DATE_LITERAL s (lit ''%d-%m-%Y'') = 0
      \<longleftrightarrow> (\<exists>y m d r. s = d @ dash # m @ dash # y @ r \<and> year_field y \<and> number_field 1 12 m \<and> number_field 1 31 d \<and> date_tail r))"
  unfolding date_literal_valid [OF date_format_loops(1)] date_literal_valid [OF date_format_loops(2)]
    date_literal_valid [OF date_format_loops(3)]
    three_fields_iff [OF year.field_scanner_axioms month.field_scanner_axioms day.field_scanner_axioms]
    three_fields_iff [OF month.field_scanner_axioms day.field_scanner_axioms year.field_scanner_axioms]
    three_fields_iff [OF day.field_scanner_axioms month.field_scanner_axioms year.field_scanner_axioms]
  by blast

section \<open>Numbers in horolog format\<close>

abbreviation comma :: byte where
  "comma \<equiv> ch CHR '',''"

lemma digit_not_sign: "is_digit b \<Longrightarrow> \<not> is_gmt_offset b" "is_digit b \<Longrightarrow> not_comma b" "not_comma 45" "is_gmt_offset 45"
  by (auto simp: is_digit_def is_gmt_offset_def ch_def)

lemma fmt_d_shape:
  obtains sign ds where "fmt_d n = sign @ ds" "ds \<noteq> []" "\<forall>b \<in> set ds. is_digit b" "sign = [] \<or> sign = [45]"
proof (cases "n < 0")
  case True
  then show thesis using that [of "[45]" "dec_digits (nat (- n))"] dec_digits_all_digit by (simp add: fmt_d_def)
next
  case False
  then show thesis using that [of "[]" "dec_digits (nat n)"] dec_digits_all_digit by (simp add: fmt_d_def)
qed

lemma fmt_d_not_comma: "\<forall>b \<in> set (fmt_d n). not_comma b"
proof -
  obtain sign ds where "fmt_d n = sign @ ds" "\<forall>b \<in> set ds. is_digit b" "sign = [] \<or> sign = [45]"
    by (rule fmt_d_shape)
  then show ?thesis using digit_not_sign(2,3) by auto
qed

lemma strtol_value_fmt_d: "strtol_value (fmt_d n) = n"
proof -
  have digits: "takeWhile is_digit (dec_digits k) = dec_digits k" for k
    using dec_digits_all_digit [of k] by (intro takeWhile_eq_all_conv [THEN iffD2]) blast
  show ?thesis
  proof (cases "n < 0")
    case True
    then have "strtol_value (fmt_d n) = - int (dec_val (takeWhile is_digit (dec_digits (nat (- n)))))"
      by (simp add: strtol_value_def fmt_d_def is_space_def)
    then show ?thesis using True unfolding digits by (simp add: dec_val_dec_digits)
  next
    case False
    obtain b r where ds: "dec_digits (nat n) = b # r" by (cases "dec_digits (nat n)") auto
    then have "is_digit b" using dec_digits_all_digit [of "nat n"] by simp
    then have "\<not> is_space b" "b \<noteq> 45" "b \<noteq> 43" by (auto simp: is_digit_def is_space_def)
    then have "strtol_value (dec_digits (nat n)) = int (dec_val (takeWhile is_digit (dec_digits (nat n))))"
      unfolding ds by (simp add: strtol_value_def)
    then show ?thesis using False unfolding digits by (simp add: fmt_d_def dec_val_dec_digits)
  qed
qed

lemma delim_scan_digits:
  "\<forall>b \<in> set ds. is_digit b \<Longrightarrow> delim_scan comma k (ds @ r) dc nc = delim_scan comma k r dc (nc + length ds)"
proof (induction ds arbitrary: nc)
  case (Cons b ds)
  then have "b \<noteq> comma" "is_digit b" using digit_not_sign(2) by auto
  then show ?case using Cons by simp
qed simp

lemma skip_sign_fmt_d: "\<exists>ds. skip_sign (fmt_d n @ r) = ds @ r \<and> ds \<noteq> [] \<and> (\<forall>b \<in> set ds. is_digit b)"
proof -
  obtain sign ds where s: "fmt_d n = sign @ ds" "ds \<noteq> []" "\<forall>b \<in> set ds. is_digit b" "sign = [] \<or> sign = [45]"
    by (rule fmt_d_shape)
  then have "skip_sign (fmt_d n @ r) = ds @ r"
    using digit_not_sign(1,4) by (cases ds) (auto simp: skip_sign_def)
  then show ?thesis using s by blast
qed

lemma delim_scan_field:
  assumes "dc < k"
  shows "\<exists>m. delim_scan comma k (comma # fmt_d n @ r) dc nc = delim_scan comma k r (dc + 1) (nc + Suc m)"
proof -
  obtain sign ds where s: "fmt_d n = sign @ ds" "ds \<noteq> []" "\<forall>b \<in> set ds. is_digit b" "sign = [] \<or> sign = [45]"
    by (rule fmt_d_shape)
  obtain b ds' where ds: "ds = b # ds'" using s(2) by (cases ds) auto
  have b: "is_digit b" "\<not> is_gmt_offset b" using s(3) ds digit_not_sign(1) by auto
  have "delim_scan comma k (comma # fmt_d n @ r) dc nc = delim_scan comma k (ds @ r) (dc + 1) nc"
    using s(1,4) ds b assms digit_not_sign(4) by auto
  also have "\<dots> = delim_scan comma k r (dc + 1) (nc + Suc (length ds'))"
    unfolding delim_scan_digits [OF s(3)] by (simp add: ds)
  finally show ?thesis by blast
qed

lemma horolog_pair_delims:
  "is_all_numbers_and_has_specified_num_of_delims (fmt_d d @ comma # fmt_d s) comma 1 = 0"
proof -
  obtain ds where ds: "skip_sign (fmt_d d @ comma # fmt_d s) = ds @ comma # fmt_d s" "\<forall>b \<in> set ds. is_digit b"
    using skip_sign_fmt_d by blast
  obtain m where "delim_scan comma 1 (comma # fmt_d s) 0 (length ds) = Some (1, length ds + Suc m)"
    using delim_scan_field [of 0 1 s "[]" "length ds"] by auto
  then show ?thesis
    by (simp add: is_all_numbers_and_has_specified_num_of_delims_def ds delim_scan_digits)
qed

lemma takeWhile_not_comma: "takeWhile not_comma (fmt_d n @ comma # r) = fmt_d n"
  "takeWhile not_comma (fmt_d n) = fmt_d n" "dropWhile not_comma (fmt_d n @ comma # r) = comma # r"
  "dropWhile not_comma (fmt_d n) = []"
  using fmt_d_not_comma [of n] by (simp_all add: takeWhile_append dropWhile_append)

lemma fmt_d_not_Nil [simp]: "fmt_d n \<noteq> []"
  by (rule fmt_d_shape [of n]) auto

lemma strtol_in_range:
  assumes "LONG_MIN < lo" "lo < LONG_MAX" "LONG_MIN < hi" "hi < LONG_MAX"
  shows "strtol (fmt_d n) < lo \<longleftrightarrow> n < lo" "hi < strtol (fmt_d n) \<longleftrightarrow> hi < n"
  using assms by (auto simp: strtol_clamp strtol_value_fmt_d clamp_long_def LONG_MIN_def LONG_MAX_def)

text \<open>
  C23: a pair of integers written in decimal with a comma between them is a valid TIMESTAMP in horolog format if and only if
  the day number is between -365 (January 1, 0000 is day -365 of the calendar) and 2980013 and the seconds are those of a
  day, however large the integers are.
\<close>

theorem horolog_timestamp_accepted_iff:
  "fst (validate_date_time_value (fmt_d d @ comma # fmt_d s) TIMESTAMP_LITERAL OPTIONAL_DATE_TIME_HOROLOG fmt pc erange) = 0
     \<longleftrightarrow> - 365 \<le> d \<and> d \<le> 2980013 \<and> 0 \<le> s \<and> s \<le> 86399"
proof -
  note r = strtol_in_range [of "- 365" 2980013 d] strtol_in_range [of 0 86399 s]
  have "fst (is_date_in_horolog_range (fmt_d d @ comma # fmt_d s) e) = (if d < - 365 \<or> 2980013 < d then 1 else 0)" for e
    using r(1,2) by (simp add: is_date_in_horolog_range_def Let_def takeWhile_not_comma LONG_MIN_def LONG_MAX_def)
  moreover have "fst (is_time_in_horolog_range (fmt_d d @ comma # fmt_d s) e) = (if s < 0 \<or> 86399 < s then 1 else 0)" for e
    using r(3,4) by (simp add: is_time_in_horolog_range_def Let_def takeWhile_not_comma time_in_range_def LONG_MIN_def LONG_MAX_def)
  moreover have "fst (and_then x f) = (if fst x \<noteq> 0 then fst x else fst (f (snd x)))" for x f
    by (cases x) (simp add: and_then_def)
  ultimately show ?thesis
    by (auto simp: validate_date_time_value_def validate_horolog_def delims_def horolog_pair_delims [unfolded One_nat_def])
qed

section \<open>Microseconds\<close>

fun place_value :: "int list \<Rightarrow> int" where
  "place_value [] = 0"
| "place_value (d # ds) = d * 10 ^ length ds + place_value ds"

lemma foldl_place_value: "foldl (\<lambda>w d. w * 10 + d) v ds = v * 10 ^ length ds + place_value ds"
proof (induction ds arbitrary: v)
  case (Cons d ds)
  show ?case unfolding foldl_Cons Cons.IH by (simp add: distrib_right)
qed simp

lemma foldl_place_value_minus: "foldl (\<lambda>w d. w * 10 - d) v ds = v * 10 ^ length ds - place_value ds"
proof (induction ds arbitrary: v)
  case (Cons d ds)
  show ?case unfolding foldl_Cons Cons.IH by (simp add: left_diff_distrib)
qed simp

lemma place_value_update:
  "i < length ds \<Longrightarrow> place_value (ds[i := d]) = place_value ds + (d - ds ! i) * 10 ^ (length ds - Suc i)"
proof (induction ds arbitrary: i)
  case (Cons x ds)
  then show ?case by (cases i) (simp_all add: algebra_simps)
qed simp

lemma micro_digits_value:
  "0 \<le> m \<Longrightarrow> m < 10 ^ Suc i \<Longrightarrow> i < length ds \<Longrightarrow> \<forall>j \<le> i. ds ! j = 0 \<Longrightarrow>
     \<exists>ds'. micro_digits m (int i) ds = Some ds' \<and> length ds' = length ds
       \<and> place_value ds' = place_value ds + m * 10 ^ (length ds - Suc i)"
proof (induction i arbitrary: m ds)
  case 0
  show ?case
  proof (cases "m = 0")
    case True
    then show ?thesis by (subst micro_digits.simps) simp
  next
    case False
    then have "cdiv m 10 = 0" "cmod m 10 = m" using 0 by (simp_all add: cdiv_def cmod_def)
    then show ?thesis
      using 0 False place_value_update [of 0 ds m] by (subst micro_digits.simps, subst micro_digits.simps) simp
  qed
next
  case (Suc i)
  show ?case
  proof (cases "m = 0")
    case True
    then show ?thesis by (subst micro_digits.simps) simp
  next
    case False
    have c: "cdiv m 10 = m div 10" "cmod m 10 = m - m div 10 * 10" using Suc.prems False by (simp_all add: cdiv_def cmod_def)
    let ?ds = "ds[Suc i := cmod m 10]"
    have "0 \<le> m div 10" "m div 10 < 10 ^ Suc i" "i < length ?ds" "\<forall>j \<le> i. ?ds ! j = 0"
      using Suc.prems by simp_all
    from Suc.IH [OF this] obtain ds' where "micro_digits (m div 10) (int i) ?ds = Some ds'" "length ds' = length ds"
      "place_value ds' = place_value ?ds + m div 10 * 10 ^ (length ds - Suc i)"
      by auto
    moreover have "(10 :: int) ^ (length ds - Suc i) = 10 * 10 ^ (length ds - Suc (Suc i))"
      using Suc.prems(3) by (simp add: power_Suc [symmetric] Suc_diff_Suc del: power_Suc)
    moreover have "micro_digits m (int (Suc i)) ds = micro_digits (m div 10) (int i) ?ds"
      using False c(1) by (subst micro_digits.simps) (simp add: nat_add_distrib)
    moreover have "place_value ?ds = place_value ds + cmod m 10 * 10 ^ (length ds - Suc (Suc i))"
      using place_value_update [of "Suc i" ds "cmod m 10"] Suc.prems by simp
    ultimately show ?thesis using c(2) by (simp add: algebra_simps)
  qed
qed

lemma ADD_MICRO_SECONDS_value:
  assumes "0 \<le> m" "m < 1000000"
  shows "ADD_MICRO_SECONDS v m = Some (if v < 0 then v * 1000000 - m else v * 1000000 + m)"
proof -
  have "\<forall>j \<le> 5. [0, 0, 0, 0, 0, 0 :: int] ! j = 0" by (auto simp: nth_Cons split: nat.split)
  then obtain ds where ds: "micro_digits m (int 5) [0, 0, 0, 0, 0, 0] = Some ds" "length ds = 6" "place_value ds = m"
    using micro_digits_value [of m 5 "[0, 0, 0, 0, 0, 0]"] assms by auto
  then show ?thesis
    by (cases "v < 0") (simp_all add: ADD_MICRO_SECONDS_def foldl_place_value foldl_place_value_minus)
qed

lemma cdiv_pos: "0 < b \<Longrightarrow> cdiv a b = sgn a * (\<bar>a\<bar> div b)"
  by (simp add: cdiv_def)

lemma cdiv_cdiv: "cdiv (cdiv w 10) (10 ^ n) = cdiv w (10 ^ Suc n)"
proof -
  have "\<bar>sgn w * (\<bar>w\<bar> div 10)\<bar> = \<bar>w\<bar> div 10"
    by (cases w "0 :: int" rule: linorder_cases) simp_all
  moreover have "\<bar>w\<bar> div 10 div 10 ^ n = \<bar>w\<bar> div (10 * 10 ^ n)"
    by (simp add: zdiv_zmult2_eq)
  ultimately show ?thesis
    by (cases "\<bar>w\<bar> div 10 = 0") (auto simp: cdiv_pos sgn_mult zdiv_zmult2_eq sgn_if)
qed

lemma remove_digits_value: "remove_digits n w acc mult = (cdiv w (10 ^ n), acc + cmod w (10 ^ n) * mult)"
proof (induction n arbitrary: w acc mult)
  case 0
  show ?case by (simp add: cdiv_pos cmod_def sgn_mult_abs)
next
  case (Suc n)
  then show ?case using cdiv_cdiv [of w n] by (simp add: cmod_def algebra_simps)
qed

lemma REMOVE_MICRO_SECONDS_value: "REMOVE_MICRO_SECONDS w = (cdiv w 1000000, \<bar>cmod w 1000000\<bar>)"
  by (simp add: REMOVE_MICRO_SECONDS_def remove_digits_value)

lemma cdiv_micro:
  assumes "0 \<le> m" "m < 1000000"
  shows "0 \<le> v \<Longrightarrow> cdiv (v * 1000000 + m) 1000000 = v" "v < 0 \<Longrightarrow> cdiv (v * 1000000 - m) 1000000 = v"
proof -
  assume v: "0 \<le> v"
  have "sgn (v * 1000000 + m) = 1" if "v * 1000000 + m \<noteq> 0" using that v assms by simp
  then show "cdiv (v * 1000000 + m) 1000000 = v"
    using v assms by (cases "v * 1000000 + m = 0") (simp_all add: cdiv_pos)
next
  assume "v < 0"
  then have "sgn (v * 1000000 - m) = - 1" "\<bar>v * 1000000 - m\<bar> div 1000000 = - v" using assms by simp_all
  then show "cdiv (v * 1000000 - m) 1000000 = v" by (simp add: cdiv_pos)
qed

text \<open>
  microseconds appended to a number of seconds by \<open>ADD_MICRO_SECONDS\<close> come back from \<open>REMOVE_MICRO_SECONDS\<close>
  together with the seconds, also for seconds before 1970; the array of six digits is never left.
\<close>

theorem micro_seconds_roundtrip:
  assumes "0 \<le> m" "m < 1000000"
  shows "map_option REMOVE_MICRO_SECONDS (ADD_MICRO_SECONDS v m) = Some (v, m)"
proof (cases "v < 0")
  case True
  then show ?thesis
    using ADD_MICRO_SECONDS_value [OF assms, of v] cdiv_micro(2) [OF assms True] assms
    by (simp add: REMOVE_MICRO_SECONDS_value cmod_def)
next
  case False
  then show ?thesis
    using ADD_MICRO_SECONDS_value [OF assms, of v] cdiv_micro(1) [OF assms] assms
    by (simp add: REMOVE_MICRO_SECONDS_value cmod_def)
qed

theorem micro_seconds_roundtrip_witness:
  "map_option REMOVE_MICRO_SECONDS (ADD_MICRO_SECONDS (- 2) 300000) = Some (- 2, 300000)"
  by (rule micro_seconds_roundtrip) simp_all

text \<open>
  Before 1970 the encoding reverses the order of two times in the same second: the later one has the smaller value.
\<close>

theorem micro_seconds_order_before_epoch:
  assumes "v < 0" "0 \<le> m" "m < m'" "m' < 1000000"
  shows "\<exists>w w'. ADD_MICRO_SECONDS v m = Some w \<and> ADD_MICRO_SECONDS v m' = Some w' \<and> w' < w"
  using assms ADD_MICRO_SECONDS_value [of m v] ADD_MICRO_SECONDS_value [of m' v] by simp

theorem micro_seconds_order_before_epoch_witness:
  "\<exists>w w'. ADD_MICRO_SECONDS (- 1) 300000 = Some w \<and> ADD_MICRO_SECONDS (- 1) 700000 = Some w' \<and> w' < w"
  by (rule micro_seconds_order_before_epoch) simp_all

section \<open>Where the validation goes wrong\<close>

text \<open>
  \<open>ATOI\<close> tests \<open>errno\<close> without having reset it. Once any earlier call has left \<open>ERANGE\<close> there, every value in
  fileman format whose date is seven characters is refused with 1, in particular every valid one.
\<close>

theorem stale_errno_rejects_fileman:
  assumes "ty = DATE_LITERAL \<or> ty = TIMESTAMP_LITERAL"
  shows "fst (validate_date_time_value literal ty OPTIONAL_DATE_TIME_FILEMAN fmt pc True) \<noteq> 0"
proof -
  have "fst (is_date_in_fileman_range literal pc True) \<noteq> 0"
    by (simp add: is_date_in_fileman_range_def Let_def ATOI_def error_return_def)
  then show ?thesis
    using assms by (auto simp: validate_date_time_value_def validate_fileman_def and_then_def error_return_def
        IS_DATE_TIME_TYPE_def Let_def split: prod.split)
qed

theorem stale_errno_rejects_fileman_witness:
  "fst (validate_date_time_value (lit ''3230101'') DATE_LITERAL OPTIONAL_DATE_TIME_FILEMAN [] True False) = 0
   \<and> fst (validate_date_time_value (lit ''3230101'') DATE_LITERAL OPTIONAL_DATE_TIME_FILEMAN [] True True) \<noteq> 0"
proof
  show "fst (validate_date_time_value (lit ''3230101'') DATE_LITERAL OPTIONAL_DATE_TIME_FILEMAN [] True False) = 0"
    by code_simp
  show "fst (validate_date_time_value (lit ''3230101'') DATE_LITERAL OPTIONAL_DATE_TIME_FILEMAN [] True True) \<noteq> 0"
    by (rule stale_errno_rejects_fileman) simp
qed

end
