(* ===== verification/Calendar.thy ===== *)
theory Calendar
  imports Date_Values
begin

text \<open>
  Calendar arithmetic: the broken-down time of the C library, \<open>gmtime\<close> and \<open>mktime\<close> in UTC, which
  \<open>ydboctodateoperations.c\<close> calls \<open>utc_mktime\<close>, and the day and week numbers of \<open>ydboctodateformat.c\<close>. The calendar
  is the proleptic Gregorian one. Integers are unbounded except where the code converts to \<open>unsigned int\<close>.
\<close>

section \<open>Broken-down time\<close>

text \<open>\<open>struct tm\<close>: the year counts from 1900 and the month from 0, and \<open>tm_isdst\<close> tells whether daylight saving time
  is in effect. \<open>tm_gmtoff\<close> is \<open>__tm_gmtoff\<close>.\<close>

record tm =
  tm_sec :: int
  tm_min :: int
  tm_hour :: int
  tm_mday :: int
  tm_mon :: int
  tm_year :: int
  tm_isdst :: int
  tm_gmtoff :: int

definition u32 :: "int \<Rightarrow> int" where
  "u32 x = x mod 2 ^ 32"

definition is_leap :: "int \<Rightarrow> bool" where
  "is_leap year \<longleftrightarrow> year mod 4 = 0 \<and> 0 < year mod 100 \<or> year mod 400 = 0"

definition get_days_in_year :: "int \<Rightarrow> int" where
  "get_days_in_year year = (if is_leap year then 366 else 365)"

section \<open>gmtime and utc_mktime\<close>

text \<open>The days before January 1 of a year, counted from January 1, 0000, and before a month of a year.\<close>

definition days_before_year :: "int \<Rightarrow> int" where
  "days_before_year y = 365 * y + (y + 3) div 4 - (y + 99) div 100 + (y + 399) div 400"

definition days_before_month :: "int \<Rightarrow> int \<Rightarrow> int" where
  "days_before_month y m =
     [0, 31, 59, 90, 120, 151, 181, 212, 243, 273, 304, 334] ! nat m + (if is_leap y \<and> 2 \<le> m then 1 else 0)"

definition day_number :: "int \<Rightarrow> int \<Rightarrow> int \<Rightarrow> int" where
  "day_number y m d = days_before_year y + days_before_month y m + d - 1"

text \<open>January 1, 1970.\<close>

definition epoch_day :: int where
  "epoch_day = 719528"

definition utc_mktime :: "tm \<Rightarrow> int" where
  "utc_mktime t =
     (day_number (tm_year t + 1900 + tm_mon t div 12) (tm_mon t mod 12) (tm_mday t) - epoch_day) * 86400
     + tm_hour t * 3600 + tm_min t * 60 + tm_sec t"

definition civil_year :: "int \<Rightarrow> int" where
  "civil_year n =
     (let y = n * 400 div 146097 in
      if n < days_before_year y then y - 1 else if days_before_year (y + 1) \<le> n then y + 1 else y)"

definition civil_month :: "int \<Rightarrow> int \<Rightarrow> int" where
  "civil_month y yday = int (length (filter (\<lambda>m. days_before_month y m \<le> yday) [1, 2, 3, 4, 5, 6, 7, 8, 9, 10, 11]))"

definition gmtime :: "int \<Rightarrow> tm" where
  "gmtime t =
     (let n = t div 86400 + epoch_day; s = t mod 86400; y = civil_year n; yday = n - days_before_year y;
          m = civil_month y yday in
      \<lparr>tm_sec = s mod 60, tm_min = s div 60 mod 60, tm_hour = s div 3600, tm_mday = yday - days_before_month y m + 1,
       tm_mon = m, tm_year = y - 1900, tm_isdst = 0, tm_gmtoff = 0\<rparr>)"

section \<open>Day and week numbers\<close>

definition twenty_four_to_twelve_hour :: "int \<Rightarrow> int" where
  "twenty_four_to_twelve_hour hour = (if hour = 0 then 12 else if hour \<le> 12 then hour else hour - 12)"

definition get_day_num :: "tm \<Rightarrow> int" where
  "get_day_num t =
     (let year = tm_year t + 1900; month = tm_mon t;
          offset = 365 * year + 31 * month + tm_mday t;
          year' = (if month \<le> 1 then year - 1 else year);
          offset' = (if month \<le> 1 then offset else offset - cdiv ((month + 1) * 4 + 23) 10);
          temp = cdiv ((cdiv year' 100 + 1) * 3) 4 in
      offset' + cdiv year' 4 - temp)"

datatype DayOfWeek = SUNDAY | MONDAY | TUESDAY | WEDNESDAY | THURSDAY | FRIDAY | SATURDAY

datatype WeekRange = WEEK_ZERO | WEEK_ONE

definition get_weekday_from_day_num :: "int \<Rightarrow> DayOfWeek \<Rightarrow> int" where
  "get_weekday_from_day_num day_num first_weekday = u32 (u32 day_num + (5 + (if first_weekday = SUNDAY then 1 else 0))) mod 7"

text \<open>The two kinds of first week: with its first weekday in the year, or with four days or more in the year.\<close>

definition starts_late :: "bool \<Rightarrow> int \<Rightarrow> bool" where
  "starts_late use_ISO weekday \<longleftrightarrow> \<not> use_ISO \<and> weekday \<noteq> 0 \<or> use_ISO \<and> 4 \<le> weekday"

text \<open>The results are the week and the year it belongs to.\<close>

definition get_week :: "tm \<Rightarrow> DayOfWeek \<Rightarrow> WeekRange \<Rightarrow> bool \<Rightarrow> int \<times> int" where
  "get_week t first_weekday start_week use_ISO =
     (let first_day_num = get_day_num (t\<lparr>tm_mon := 0, tm_mday := 1\<rparr>);
          day_num = get_day_num t;
          weekday = get_weekday_from_day_num first_day_num first_weekday;
          year = u32 (tm_year t + 1900);
          in_first_days = (tm_mon t = 0 \<and> u32 (tm_mday t) \<le> u32 (7 - weekday)) in
      if in_first_days \<and> start_week = WEEK_ZERO \<and> starts_late use_ISO weekday then (0, year)
      else
        let start_week' = (if in_first_days then WEEK_ONE else start_week);
            year' = (if in_first_days then u32 (year - 1) else year);
            first_day_num' = (if in_first_days then first_day_num - get_days_in_year year' else first_day_num);
            weekday' = (if in_first_days then u32 (weekday + 53 * 7 - get_days_in_year year') mod 7 else weekday);
            days = u32 (day_num - (if starts_late use_ISO weekday' then first_day_num' + (7 - weekday') else first_day_num' - weekday')) in
        if start_week' = WEEK_ONE \<and> 52 * 7 \<le> days \<and> \<not> starts_late use_ISO ((weekday' + get_days_in_year year') mod 7)
        then (1, u32 (year' + 1))
        else (days div 7 + 1, year'))"

end
