(* ===== verification/Date_Arith.thy ===== *)
theory Date_Arith
  imports Calendar
begin

text \<open>
  Arithmetic and casts of date and time values: the second half of \<open>aux/ydboctodateoperations.c\<close>. A value in
  internal format is the number of seconds since 1970 with six digits of microseconds appended; a time without date
  lies on December 31, 1899. The time zone of the process is \<open>zone\<close>, which gives the offset from UTC and the
  daylight saving flag in effect at each instant; \<open>mktime\<close> of the C library is a parameter, and so is the current
  time. Operations return \<open>None\<close>
  where the digits of the microseconds do not fit \<open>micro_arr\<close>.
\<close>

section \<open>Machine integers and limits\<close>

definition s32 :: "int \<Rightarrow> int" where
  "s32 x = (x + 2 ^ 31) mod 2 ^ 32 - 2 ^ 31"

definition s64 :: "int \<Rightarrow> int" where
  "s64 x = (x + 2 ^ 63) mod 2 ^ 64 - 2 ^ 63"

definition INT_MAX :: int where "INT_MAX = 2147483647"
definition INT_MIN :: int where "INT_MIN = - 2147483648"

definition MAX_DATE_TIME_INTERNAL_FORMAT_VALUE :: int where
  "MAX_DATE_TIME_INTERNAL_FORMAT_VALUE = 253402300799999999"

definition MIN_DATE_TIME_INTERNAL_FORMAT_VALUE :: int where
  "MIN_DATE_TIME_INTERNAL_FORMAT_VALUE = - 62167219200999999"

definition DATE_TIME_ERROR_RETURN :: int where
  "DATE_TIME_ERROR_RETURN = MAX_DATE_TIME_INTERNAL_FORMAT_VALUE + 1"

section \<open>Time zones\<close>

record zone =
  offset_at :: "int \<Rightarrow> int"
  dst_at :: "int \<Rightarrow> bool"

definition localtime :: "zone \<Rightarrow> int \<Rightarrow> tm" where
  "localtime zone t =
     (gmtime (t + offset_at zone t))\<lparr>tm_isdst := (if dst_at zone t then 1 else 0), tm_gmtoff := offset_at zone t\<rparr>"

definition convertToLocalTimezone :: "zone \<Rightarrow> int \<Rightarrow> SqlValueType \<Rightarrow> int \<Rightarrow> int" where
  "convertToLocalTimezone zone current_time type val =
     (if type = TIME_WITH_TIME_ZONE_LITERAL then val + tm_gmtoff (localtime zone current_time)
      else val + tm_gmtoff (localtime zone val))"

text \<open>The time of a value of the given type as fields: with its time zone or in UTC.\<close>

definition is_zone_type :: "SqlValueType \<Rightarrow> bool" where
  "is_zone_type ty \<longleftrightarrow> ty = TIMESTAMP_WITH_TIME_ZONE_LITERAL \<or> ty = TIME_WITH_TIME_ZONE_LITERAL"

definition broken_down :: "zone \<Rightarrow> SqlValueType \<Rightarrow> int \<Rightarrow> tm" where
  "broken_down zone ty v = (if is_zone_type ty then localtime zone v else gmtime v)"

text \<open>The digits are appended to a value of 64 bits, which wraps around.\<close>

definition add_micro :: "int \<Rightarrow> int \<Rightarrow> int option" where
  "add_micro v micro = map_option s64 (ADD_MICRO_SECONDS v micro)"

definition validate_result :: "int \<Rightarrow> int" where
  "validate_result ret =
     (if ret > MAX_DATE_TIME_INTERNAL_FORMAT_VALUE \<or> ret < MIN_DATE_TIME_INTERNAL_FORMAT_VALUE
      then DATE_TIME_ERROR_RETURN else ret)"

section \<open>Conversions\<close>

definition ydboctoZutC :: "int \<Rightarrow> int \<Rightarrow> bytes \<Rightarrow> int option" where
  "ydboctoZutC secs microsec fmt =
     (if ch CHR ''H'' \<in> set (cstr fmt) then add_micro secs microsec
      else add_micro (utc_mktime ((gmtime secs)\<lparr>tm_min := 0, tm_hour := 0, tm_sec := 0\<rparr>)) 0)"

definition ydboctoConvertToLocalTimezoneC :: "zone \<Rightarrow> int \<Rightarrow> SqlValueType \<Rightarrow> int \<Rightarrow> int option" where
  "ydboctoConvertToLocalTimezoneC zone current_time type v =
     (case REMOVE_MICRO_SECONDS v of (secs, micro) \<Rightarrow>
        add_micro (convertToLocalTimezone zone current_time type secs) micro)"

definition without_date :: "tm \<Rightarrow> tm" where
  "without_date t = t\<lparr>tm_mday := 0, tm_mon := 0, tm_year := 0\<rparr>"

definition without_time :: "tm \<Rightarrow> tm" where
  "without_time t = t\<lparr>tm_sec := 0, tm_min := 0, tm_hour := 0\<rparr>"

text \<open>
  \<open>ydboctoDateTimeCastC\<close>: pairs of types that the assertions exclude take the branch the last \<open>else\<close> gives them.
\<close>

definition ydboctoDateTimeCastC :: "zone \<Rightarrow> (tm \<Rightarrow> int) \<Rightarrow> int \<Rightarrow> SqlValueType \<Rightarrow> SqlDataType \<Rightarrow> int option" where
  "ydboctoDateTimeCastC zone mktime v input_type output_type =
     (case REMOVE_MICRO_SECONDS v of (secs, micro) \<Rightarrow>
        let tm1 = (if input_type = DATE_LITERAL \<or> input_type = TIME_LITERAL \<or> input_type = TIMESTAMP_LITERAL
                   then gmtime secs else localtime zone secs) in
        if output_type = TIME_TYPE then
          (if input_type = TIME_LITERAL then add_micro secs micro
           else if input_type = TIME_WITH_TIME_ZONE_LITERAL then add_micro (utc_mktime tm1) micro
           else add_micro (utc_mktime (without_date tm1)) micro)
        else if output_type = DATE_TYPE then
          (if input_type = DATE_LITERAL then add_micro secs 0
           else if input_type = TIMESTAMP_LITERAL then add_micro (utc_mktime (without_time tm1)) 0
           else add_micro (mktime (without_time tm1)) 0)
        else if output_type = TIMESTAMP_TYPE then
          (if input_type = DATE_LITERAL then add_micro (utc_mktime (without_time tm1)) micro
           else if input_type = TIMESTAMP_LITERAL then add_micro secs micro
           else add_micro (utc_mktime tm1) micro)
        else if output_type = TIME_WITH_TIME_ZONE_TYPE then
          (if input_type = TIME_LITERAL then add_micro (mktime tm1) micro else add_micro secs micro)
        else
          (if input_type = DATE_LITERAL then add_micro (mktime (without_time tm1)) micro
           else if input_type = TIMESTAMP_LITERAL then add_micro (mktime tm1) micro
           else add_micro secs micro))"

section \<open>Addition and subtraction\<close>

text \<open>A number of days that does not fit an \<open>int\<close> is an error; \<open>tm_mday\<close> wraps around.\<close>

definition move_days :: "tm \<Rightarrow> int \<Rightarrow> int \<Rightarrow> int \<Rightarrow> int option" where
  "move_days tm1 sign int_val micro =
     (if INT_MAX < int_val \<or> INT_MIN > int_val then Some DATE_TIME_ERROR_RETURN
      else map_option validate_result (add_micro (utc_mktime (tm1\<lparr>tm_mday := s32 (tm_mday tm1 + sign * int_val)\<rparr>)) micro))"

definition ydboctoSubDateC :: "int \<Rightarrow> int \<Rightarrow> bool \<Rightarrow> int option" where
  "ydboctoSubDateC op1 op2 is_op2_integer =
     (case REMOVE_MICRO_SECONDS op1 of (secs, micro) \<Rightarrow>
        if is_op2_integer then move_days (gmtime secs) (- 1) op2 micro
        else
          (case REMOVE_MICRO_SECONDS op2 of (secs2, micro2) \<Rightarrow>
             Some (validate_result (cdiv (cdiv (cdiv (secs - secs2) 60) 60) 24))))"

text \<open>The time zone that is taken back out of the fields: that of the second operand when it has one.\<close>

definition zone_seconds :: "SqlValueType \<Rightarrow> tm \<Rightarrow> SqlValueType \<Rightarrow> tm \<Rightarrow> int" where
  "zone_seconds ty1 tm1 ty2 tm2 =
     (if is_zone_type ty2 then - 1 * tm_gmtoff tm2 else if is_zone_type ty1 then - 1 * tm_gmtoff tm1 else 0)"

definition ydboctoSubDateTimeC :: "zone \<Rightarrow> int \<Rightarrow> SqlValueType \<Rightarrow> int \<Rightarrow> SqlValueType \<Rightarrow> int option" where
  "ydboctoSubDateTimeC zone op1 op1_type op2 op2_type =
     (case (REMOVE_MICRO_SECONDS op1, REMOVE_MICRO_SECONDS op2) of ((secs1, micro1), (secs2, micro2)) \<Rightarrow>
        let tm1 = broken_down zone op1_type secs1;
            tm2 = broken_down zone op2_type secs2;
            micro = micro1 - micro2;
            borrow = (0 > micro \<and> - 1000000 > micro);
            tm1' = tm1\<lparr>tm_hour := tm_hour tm1 - tm_hour tm2, tm_min := tm_min tm1 - tm_min tm2,
                       tm_sec := tm_sec tm1 - tm_sec tm2 - (if borrow then 1 else 0) + zone_seconds op1_type tm1 op2_type tm2\<rparr> in
        map_option validate_result (add_micro (utc_mktime tm1') (if borrow then micro + 1000000 else micro)))"

definition ydboctoAddDateTimeC :: "zone \<Rightarrow> int \<Rightarrow> SqlValueType \<Rightarrow> int \<Rightarrow> SqlValueType \<Rightarrow> int option" where
  "ydboctoAddDateTimeC zone op1 op1_type op2 op2_type =
     (case REMOVE_MICRO_SECONDS op1 of (secs1, micro1) \<Rightarrow>
        let tm1 = broken_down zone op1_type secs1 in
        if op2_type = INTEGER_LITERAL then move_days tm1 1 op2 micro1
        else
          (case REMOVE_MICRO_SECONDS op2 of (secs2, micro2) \<Rightarrow>
             let tm2 = broken_down zone op2_type secs2;
                 micro = micro1 + micro2;
                 carry = (1000000 \<le> micro);
                 tm1' = tm1\<lparr>tm_hour := tm_hour tm1 + tm_hour tm2, tm_min := tm_min tm1 + tm_min tm2,
                            tm_sec := tm_sec tm1 + tm_sec tm2 + (if carry then 1 else 0) + zone_seconds op1_type tm1 op2_type tm2\<rparr> in
             map_option validate_result (add_micro (utc_mktime tm1') (if carry then micro - 1000000 else micro))))"

text \<open>The entry point of the M routines for the validation; \<open>FALSE\<close> is \<open>is_parser_call\<close>.\<close>

definition ydboctoValidateDateTimeValueC :: "bytes \<Rightarrow> SqlValueType \<Rightarrow> date_time_format \<Rightarrow> bytes \<Rightarrow> bool \<Rightarrow> int \<times> bool" where
  "ydboctoValidateDateTimeValueC v value_type value_format text_format erange =
     validate_date_time_value (cstr v) value_type value_format
       (if value_format = OPTIONAL_DATE_TIME_TEXT then cstr text_format else []) False erange"

end
