(* ===== verification/Date_Text.thy ===== *)
theory Date_Text
  imports Date_Arith
begin

text \<open>
  Date and time values as text: \<open>ydboctoDateTimeInternalFormat2TextC\<close> and \<open>ydboctoText2InternalFormatC\<close> of
  \<open>aux/ydboctodateoperations.c\<close>, over \<open>strftime\<close> and \<open>strptime\<close> of the C library for the conversions that the date
  styles use: \<open>%Y\<close>, \<open>%m\<close>, \<open>%d\<close>, \<open>%H\<close>, \<open>%M\<close>, \<open>%S\<close> and \<open>%z\<close>. \<open>None\<close> stands for another conversion and for an
  access outside of a buffer. The routine \<open>mktime\<close> normalises the fields it is given to those of the time it returns.
\<close>

section \<open>strftime\<close>

text \<open>\<open>%0<w>d\<close>\<close>

definition fmt_0d :: "nat \<Rightarrow> int \<Rightarrow> bytes" where
  "fmt_0d w n = replicate (w - length (fmt_d n)) 48 @ fmt_d n"

definition zone_offset :: "int \<Rightarrow> bytes" where
  "zone_offset off =
     (let m = \<bar>off\<bar> div 60 in (if off < 0 then ch CHR ''-'' else ch CHR ''+'') # fmt_0d 4 (m div 60 * 100 + m mod 60))"

definition print_field :: "byte \<Rightarrow> tm \<Rightarrow> bytes option" where
  "print_field c t =
     (if c = ch CHR ''Y'' then Some (fmt_d (tm_year t + 1900))
      else if c = ch CHR ''m'' then Some (fmt_0d 2 (tm_mon t + 1))
      else if c = ch CHR ''d'' then Some (fmt_0d 2 (tm_mday t))
      else if c = ch CHR ''H'' then Some (fmt_0d 2 (tm_hour t))
      else if c = ch CHR ''M'' then Some (fmt_0d 2 (tm_min t))
      else if c = ch CHR ''S'' then Some (fmt_0d 2 (tm_sec t))
      else if c = ch CHR ''z'' then Some (zone_offset (tm_gmtoff t))
      else None)"

fun strftime :: "bytes \<Rightarrow> tm \<Rightarrow> bytes option" where
  "strftime [] t = Some []"
| "strftime [c] t = (if c = ch CHR ''%'' then None else Some [c])"
| "strftime (c # k # fmt) t =
     (if c = ch CHR ''%'' then
        Option.bind (print_field k t) (\<lambda>s. map_option (append s) (strftime fmt t))
      else map_option (Cons c) (strftime (k # fmt) t))"

section \<open>strptime\<close>

abbreviation digit_val :: "byte \<Rightarrow> int" where
  "digit_val b \<equiv> int (unat b) - 48"

text \<open>A number of at most \<open>n\<close> more digits; a digit is taken only if the number can still be in range.\<close>

fun number_scan :: "nat \<Rightarrow> int \<Rightarrow> int \<Rightarrow> bytes \<Rightarrow> int \<times> bytes" where
  "number_scan 0 hi v s = (v, s)"
| "number_scan (Suc n) hi v [] = (v, [])"
| "number_scan (Suc n) hi v (b # s) =
     (if v * 10 \<le> hi \<and> is_digit b then number_scan n hi (v * 10 + digit_val b) s else (v, b # s))"

definition get_number :: "int \<Rightarrow> int \<Rightarrow> nat \<Rightarrow> bytes \<Rightarrow> (int \<times> bytes) option" where
  "get_number lo hi n s =
     (case dropWhile (\<lambda>b. b = 32) s of
        [] \<Rightarrow> None
      | b # r \<Rightarrow>
          if \<not> is_digit b then None
          else (case number_scan (n - 1) hi (digit_val b) r of (v, rest) \<Rightarrow>
            if v < lo \<or> hi < v then None else Some (v, rest)))"

text \<open>The digits of \<open>%z\<close>: up to four, with an optional colon after the second.\<close>

definition skip_colon :: "nat \<Rightarrow> bytes \<Rightarrow> bytes" where
  "skip_colon n s = (case s of c # d # r \<Rightarrow> if c = ch CHR '':'' \<and> n = 2 \<and> is_digit d then d # r else s | _ \<Rightarrow> s)"

function offset_scan :: "nat \<Rightarrow> int \<Rightarrow> bytes \<Rightarrow> nat \<times> int \<times> bytes" where
  "offset_scan n v [] = (n, v, [])"
| "offset_scan n v (b # s) =
     (if n < 4 \<and> is_digit b then offset_scan (Suc n) (v * 10 + digit_val b) (skip_colon (Suc n) s)
      else (n, v, b # s))"
  by pat_completeness auto
termination
  by (relation "measure (\<lambda>(n, _, _). 4 - n)") auto

definition get_offset :: "bytes \<Rightarrow> (int \<times> bytes) option" where
  "get_offset s =
     (case dropWhile is_space s of
        [] \<Rightarrow> None
      | b # r \<Rightarrow>
          if b = ch CHR ''Z'' then Some (0, r)
          else if b \<noteq> ch CHR ''+'' \<and> b \<noteq> ch CHR ''-'' then None
          else (case offset_scan 0 0 r of (n, v, rest) \<Rightarrow>
            let v' = (if n = 2 then v * 100 else v);
                off = v' div 100 * 3600 + v' mod 100 * 60 in
            if n \<noteq> 2 \<and> n \<noteq> 4 \<or> n = 4 \<and> 60 \<le> v mod 100 then None
            else Some (if b = ch CHR ''-'' then - off else off, rest)))"

text \<open>The new fields and the rest of the string; the fields read before a mismatch stay.\<close>

definition set_field :: "(int \<times> bytes) option \<Rightarrow> tm \<Rightarrow> (int \<Rightarrow> tm) \<Rightarrow> tm \<times> bytes option" where
  "set_field r t f = (case r of None \<Rightarrow> (t, None) | Some (v, rest) \<Rightarrow> (f v, Some rest))"

definition scan_conversion :: "byte \<Rightarrow> bytes \<Rightarrow> tm \<Rightarrow> (tm \<times> bytes option) option" where
  "scan_conversion c s t =
     (if c = ch CHR ''Y'' then Some (set_field (get_number 0 9999 4 s) t (\<lambda>v. t\<lparr>tm_year := v - 1900\<rparr>))
      else if c = ch CHR ''m'' then Some (set_field (get_number 1 12 2 s) t (\<lambda>v. t\<lparr>tm_mon := v - 1\<rparr>))
      else if c = ch CHR ''d'' then Some (set_field (get_number 1 31 2 s) t (\<lambda>v. t\<lparr>tm_mday := v\<rparr>))
      else if c = ch CHR ''H'' then Some (set_field (get_number 0 23 2 s) t (\<lambda>v. t\<lparr>tm_hour := v\<rparr>))
      else if c = ch CHR ''M'' then Some (set_field (get_number 0 59 2 s) t (\<lambda>v. t\<lparr>tm_min := v\<rparr>))
      else if c = ch CHR ''S'' then Some (set_field (get_number 0 61 2 s) t (\<lambda>v. t\<lparr>tm_sec := v\<rparr>))
      else if c = ch CHR ''z'' then Some (set_field (get_offset s) t (\<lambda>v. t\<lparr>tm_gmtoff := v\<rparr>))
      else None)"

function strptime :: "bytes \<Rightarrow> bytes \<Rightarrow> tm \<Rightarrow> (tm \<times> bytes option) option" where
  "strptime fmt s t =
     (case fmt of
        [] \<Rightarrow> Some (t, Some s)
      | c # fmt' \<Rightarrow>
          if is_space c then strptime fmt' (dropWhile is_space s) t
          else if c \<noteq> ch CHR ''%'' then
            (case s of b # s' \<Rightarrow> if b = c then strptime fmt' s' t else Some (t, None) | [] \<Rightarrow> Some (t, None))
          else
            (case fmt' of
               [] \<Rightarrow> None
             | k # fmt'' \<Rightarrow>
                 (case scan_conversion k s t of
                    None \<Rightarrow> None
                  | Some (t', None) \<Rightarrow> Some (t', None)
                  | Some (t', Some s') \<Rightarrow> strptime fmt'' s' t')))"
  by pat_completeness auto
termination
  by (relation "measure (\<lambda>(fmt, _, _). length fmt)") auto

declare strptime.simps [simp del]

section \<open>From the internal format to text\<close>

definition fits :: "nat \<Rightarrow> bytes \<Rightarrow> bytes option" where
  "fits n s = (if length s < n then Some s else None)"

definition trim_zeros :: "bytes \<Rightarrow> bytes" where
  "trim_zeros s = rev (dropWhile (\<lambda>b. b = 48) (rev s))"

definition append_micro :: "bytes \<Rightarrow> int \<Rightarrow> bytes option" where
  "append_micro out micro =
     (if micro \<noteq> 0 then map_option trim_zeros (fits 40 (out @ ch CHR ''.'' # fmt_0d 6 micro)) else fits 40 out)"

text \<open>The fields to print; a time with time zone is moved to the current date to see the daylight saving time of today.\<close>

definition output_time :: "zone \<Rightarrow> (tm \<Rightarrow> int) \<Rightarrow> int \<Rightarrow> SqlValueType \<Rightarrow> int \<Rightarrow> tm" where
  "output_time zone mktime current_time ty secs =
     (if ty = DATE_LITERAL \<or> ty = TIMESTAMP_LITERAL \<or> ty = TIME_LITERAL then gmtime secs
      else if ty = TIME_WITH_TIME_ZONE_LITERAL then
        let tm2 = localtime zone current_time in
        localtime zone (mktime ((localtime zone secs)\<lparr>tm_mday := tm_mday tm2, tm_mon := tm_mon tm2, tm_year := tm_year tm2\<rparr>))
      else localtime zone secs)"

text \<open>\<open>time_zone\<close> holds \<open>+hhmm\<close> and two digits for the seconds of the offset.\<close>

definition zone_text :: "bytes \<Rightarrow> bytes" where
  "zone_text time_zone =
     take 3 time_zone @
     (if drop 3 time_zone = [48, 48, 48, 48] then []
      else [ch CHR '':''] @ take 2 (drop 3 time_zone) @
        (if drop 5 time_zone = [48, 48] then [] else [ch CHR '':''] @ drop 5 time_zone))"

definition ydboctoDateTimeInternalFormat2TextC ::
    "zone \<Rightarrow> (tm \<Rightarrow> int) \<Rightarrow> int \<Rightarrow> int \<Rightarrow> SqlValueType \<Rightarrow> bytes \<Rightarrow> bytes option" where
  "ydboctoDateTimeInternalFormat2TextC zone mktime current_time v ty text_format =
     (case REMOVE_MICRO_SECONDS v of (secs, micro) \<Rightarrow>
        let fmt = cstr text_format; tm1 = output_time zone mktime current_time ty secs in
        Option.bind (strftime fmt tm1) (\<lambda>s.
          let ret_str = (if length s < 40 then s else []); n = length ret_str - 5 in
          if ty = DATE_LITERAL then fits 40 ret_str
          else if \<not> (is_zone_type ty \<and> ch CHR ''z'' \<in> set fmt) then append_micro ret_str micro
          else if length ret_str < 5 then None
          else
            let sec = \<bar>cmod (cmod (tm_gmtoff tm1) 3600) 60\<bar>;
                time_zone = drop n ret_str @ [of_int (48 + sec div 10), of_int (48 + sec mod 10)] in
            Option.bind (append_micro (take n ret_str) micro) (\<lambda>out. fits 40 (out @ zone_text time_zone))))"

section \<open>From text to the internal format\<close>

abbreviation not_sign :: "byte \<Rightarrow> bool" where
  "not_sign b \<equiv> \<not> is_gmt_offset b"

text \<open>
  The microseconds are cut out of the string: the string without them, six digits and whether a time zone followed.
  \<open>micro\<close> has room for six digits and \<open>time_zone\<close> for nine characters.
\<close>

definition extract_micro :: "bytes \<Rightarrow> (bytes \<times> bytes \<times> bool) option" where
  "extract_micro time_str =
     (case dropWhile not_period time_str of
        [] \<Rightarrow> Some (time_str, replicate 6 48, False)
      | _ # r \<Rightarrow>
          let digits = takeWhile not_sign r; time_zone = dropWhile not_sign r in
          if 6 < length digits \<or> 9 < length time_zone then None
          else Some (takeWhile not_period time_str @ time_zone, digits @ replicate (6 - length digits) 48, time_zone \<noteq> []))"

definition zero_tm :: tm where
  "zero_tm = \<lparr>tm_sec = 0, tm_min = 0, tm_hour = 0, tm_mday = 0, tm_mon = 0, tm_year = 0, tm_isdst = 0, tm_gmtoff = 0\<rparr>"

text \<open>\<open>format_match\<close>, \<open>timezone_seconds\<close> and \<open>time_zone_set\<close> after \<open>strptime\<close>.\<close>

definition match_state :: "tm \<Rightarrow> bytes option \<Rightarrow> bool \<Rightarrow> bool \<Rightarrow> bool \<times> int \<times> bool" where
  "match_state tm1 rest include_time_zone time_zone_set =
     (case rest of
        None \<Rightarrow> (False, 0, time_zone_set)
      | Some [] \<Rightarrow> (True, 0, time_zone_set \<or> include_time_zone)
      | Some (b # r) \<Rightarrow>
          if include_time_zone \<and> b = ch CHR '':'' then
            (True, if 0 > tm_gmtoff tm1 then - s32 (strtol r) else s32 (strtol r), True)
          else (False, 0, time_zone_set))"

definition local_gmtoff :: "zone \<Rightarrow> (tm \<Rightarrow> int) \<Rightarrow> int \<Rightarrow> tm \<Rightarrow> int" where
  "local_gmtoff zone mktime current_time tm1 =
     (if tm_mday tm1 = 0 then - 1 * tm_gmtoff (localtime zone current_time)
      else - 1 * tm_gmtoff (localtime zone (mktime (tm1\<lparr>tm_isdst := - 1\<rparr>))))"

definition ydboctoText2InternalFormatC :: "zone \<Rightarrow> (tm \<Rightarrow> int) \<Rightarrow> int \<Rightarrow> bytes \<Rightarrow> bytes \<Rightarrow> bytes option" where
  "ydboctoText2InternalFormatC zone mktime current_time op1 text_format =
     (let fmt = cstr text_format; time_str = cstr op1;
          include_time = (ch CHR ''S'' \<in> set fmt);
          include_time_zone = (include_time \<and> ch CHR ''z'' \<in> set fmt) in
      Option.bind (if include_time then extract_micro time_str else Some (time_str, replicate 6 48, False))
        (\<lambda>(str, micro, time_zone_set).
      Option.bind (strptime fmt str zero_tm) (\<lambda>(tm1, rest).
        case match_state tm1 rest include_time_zone time_zone_set of (format_match, timezone_seconds, zone_set) \<Rightarrow>
          let tm_sec_modified = (zone_set \<and> format_match);
              shift = (if tm_sec_modified then - 1 * (tm_gmtoff tm1 + timezone_seconds)
                       else if include_time_zone then local_gmtoff zone mktime current_time tm1 else 0) in
          fits 19 (fmt_d (utc_mktime (tm1\<lparr>tm_sec := tm_sec tm1 + shift\<rparr>)) @ micro))))"

text \<open>The cast of a string ignores the type it is to have.\<close>

definition ydboctoDateTimeStringCastC :: "zone \<Rightarrow> (tm \<Rightarrow> int) \<Rightarrow> int \<Rightarrow> bytes \<Rightarrow> bytes \<Rightarrow> SqlDataType \<Rightarrow> bytes option" where
  "ydboctoDateTimeStringCastC zone mktime current_time v value_format date_time_output_type =
     ydboctoText2InternalFormatC zone mktime current_time v value_format"

end
