(* ===== verification/Date_Format.thy ===== *)
theory Date_Format
  imports Calendar Date_Text
begin

text \<open>
  The function \<open>DATE_FORMAT\<close> of MySQL: \<open>get_date_from_string\<close>, \<open>get_max_date_length\<close>, \<open>populate_sql_time_format\<close> and
  \<open>ydboctoDateFormatC\<close> of \<open>aux/ydboctodateformat.c\<close>. The format is filled in two passes: the conversions that
  \<open>strftime\<close> does not know are replaced first, in a buffer whose size \<open>get_max_date_length\<close> computes, and \<open>strftime\<close>
  does the rest in a second buffer of that size. Names of days and months are those of the C locale.
\<close>

section \<open>Reading the date\<close>

text \<open>The fields of \<open>struct tm\<close> and the two that are computed from them.\<close>

record full_tm =
  ftm :: tm
  tm_wday :: int
  tm_yday :: int

definition is_alpha :: "byte \<Rightarrow> bool" where
  "is_alpha b \<longleftrightarrow> 65 \<le> unat b \<and> unat b \<le> 90 \<or> 97 \<le> unat b \<and> unat b \<le> 122"

text \<open>The digits of a field, at most twelve, and what follows; \<open>None\<close> is a return of 1.\<close>

definition date_field :: "int \<Rightarrow> int \<Rightarrow> bytes \<Rightarrow> (int \<times> bytes) option" where
  "date_field lo hi c =
     (let digs = takeWhile is_digit c; v = strtol digs in
      if 12 < length digs then None
      else if lo \<le> v \<and> v \<le> hi then Some (v, dropWhile is_digit c)
      else None)"

fun nonalphabetic_delimiter :: "bytes \<Rightarrow> bytes option" where
  "nonalphabetic_delimiter [] = Some []"
| "nonalphabetic_delimiter (b # c) =
     (if is_digit b then Some (b # c) else if is_alpha b then None else nonalphabetic_delimiter c)"

fun alphabetic_delimiter :: "bytes \<Rightarrow> bytes" where
  "alphabetic_delimiter [] = []"
| "alphabetic_delimiter (b # c) = (if is_digit b then b # c else if is_alpha b then [] else alphabetic_delimiter c)"

text \<open>Year and month are followed by a dash; at the end of the string a field is skipped.\<close>

definition dashed_field :: "int \<Rightarrow> bytes \<Rightarrow> tm \<Rightarrow> (int \<Rightarrow> tm) \<Rightarrow> (bytes \<times> tm) option" where
  "dashed_field hi c t f =
     (if c = [] then Some (c, t)
      else
        (case date_field 0 hi c of
           None \<Rightarrow> None
         | Some (v, r) \<Rightarrow>
             if r = [] \<or> hd r \<noteq> ch CHR ''-'' then None
             else map_option (\<lambda>r'. (r', f v)) (nonalphabetic_delimiter r)))"

text \<open>The fields of the time; those that are not reached are set to 0.\<close>

definition time_part :: "int \<Rightarrow> bytes \<Rightarrow> tm \<Rightarrow> (int \<Rightarrow> tm) \<Rightarrow> (tm \<Rightarrow> tm) \<Rightarrow> (bytes \<times> tm) option" where
  "time_part hi c t f reset =
     (if c = [] then Some (c, t)
      else
        (case date_field 0 hi c of
           None \<Rightarrow> None
         | Some (v, r) \<Rightarrow> let r' = alphabetic_delimiter r in Some (r', if r' = [] then reset (f v) else f v)))"

definition get_date_from_string :: "bytes \<Rightarrow> tm \<Rightarrow> (bytes \<times> tm) option" where
  "get_date_from_string s t0 =
     Option.bind (dashed_field 9999 s t0 (\<lambda>v. t0\<lparr>tm_year := v - 1900\<rparr>)) (\<lambda>(c1, t1).
     Option.bind (dashed_field 12 c1 t1 (\<lambda>v. t1\<lparr>tm_mon := v - 1\<rparr>)) (\<lambda>(c2, t2).
     Option.bind (if c2 = [] then Some (c2, t2) else map_option (\<lambda>(v, r). (r, t2\<lparr>tm_mday := v\<rparr>)) (date_field 0 31 c2)) (\<lambda>(c3, t3).
       let c4 = alphabetic_delimiter c3;
           t4 = (if c4 = [] then t3\<lparr>tm_hour := 0, tm_min := 0, tm_sec := 0\<rparr> else t3) in
     Option.bind (time_part 23 c4 t4 (\<lambda>v. t4\<lparr>tm_hour := v\<rparr>) (\<lambda>t. t\<lparr>tm_min := 0, tm_sec := 0\<rparr>)) (\<lambda>(c5, t5).
     Option.bind (time_part 59 c5 t5 (\<lambda>v. t5\<lparr>tm_min := v\<rparr>) (\<lambda>t. t\<lparr>tm_sec := 0\<rparr>)) (\<lambda>(c6, t6).
     Option.bind (if c6 = [] then Some t6 else map_option (\<lambda>(v, r). t6\<lparr>tm_sec := v\<rparr>) (date_field 0 59 c6)) (\<lambda>t7.
       Some (fmt_d (tm_year t7 + 1900) @ [ch CHR ''-''] @ fmt_d (tm_mon t7 + 1) @ [ch CHR ''-''] @ fmt_d (tm_mday t7)
             @ [ch CHR '' ''] @ fmt_d (tm_hour t7) @ [ch CHR '':''] @ fmt_d (tm_min t7) @ [ch CHR '':''] @ fmt_d (tm_sec t7), t7)))))))"

section \<open>The size of the result\<close>

definition conversion_length :: "byte \<Rightarrow> nat" where
  "conversion_length k =
     (if k \<in> set (lit ''dHhIiklpSsmwyec'') then 2
      else if k \<in> set (lit ''abj'') then 3
      else if k \<in> set (lit ''YDXx'') then 4
      else if k \<in> set (lit ''UuVv'') then 10
      else if k = ch CHR ''f'' then 6
      else if k = ch CHR ''T'' then 8
      else if k = ch CHR ''M'' \<or> k = ch CHR ''W'' then 9
      else if k = ch CHR ''r'' then 11
      else 1)"

text \<open>The loop looks at the character after a percent sign again.\<close>

fun date_length :: "bytes \<Rightarrow> nat" where
  "date_length [] = 0"
| "date_length [c] = 1"
| "date_length (c # k # fmt) = (if c = ch CHR ''%'' then conversion_length k else 1) + date_length (k # fmt)"

definition get_max_date_length :: "bytes \<Rightarrow> nat" where
  "get_max_date_length fmt = date_length fmt + 1"

section \<open>The first pass\<close>

text \<open>\<open>%0<w>d\<close> of any number\<close>

definition fmt_zd :: "nat \<Rightarrow> int \<Rightarrow> bytes" where
  "fmt_zd w n = (if n < 0 then 45 # fmt_0d (w - 1) (- n) else fmt_0d w n)"

definition print_week :: "int \<Rightarrow> bytes" where
  "print_week week = (if 10 > week then 48 # fmt_d week else fmt_d week)"

text \<open>The suffix of a day of the month.\<close>

definition day_suffix :: "bytes \<Rightarrow> bytes" where
  "day_suffix d =
     (if length d = 2 \<and> hd d = ch CHR ''1'' then lit ''th''
      else if last d = ch CHR ''1'' then lit ''st''
      else if last d = ch CHR ''2'' then lit ''nd''
      else if last d = ch CHR ''3'' then lit ''rd''
      else lit ''th'')"

definition keep :: "byte \<Rightarrow> bytes" where
  "keep k = [ch CHR ''%'', k]"

text \<open>Valid dates have had their weekday and day of the year set by \<open>strptime\<close>.\<close>

definition date_known :: "tm \<Rightarrow> bool" where
  "date_known t \<longleftrightarrow> tm_mday t \<noteq> 0 \<and> 0 \<le> tm_mon t \<and> tm_year t + 1900 \<noteq> 0"

definition set_weekday :: "full_tm \<Rightarrow> full_tm" where
  "set_weekday t =
     (if date_known (ftm t) then t else t\<lparr>tm_wday := get_weekday_from_day_num (get_day_num (ftm t)) SUNDAY\<rparr>)"

definition year_day :: "tm \<Rightarrow> int" where
  "year_day t = get_day_num t - get_day_num (t\<lparr>tm_mon := 0, tm_mday := 1\<rparr>)"

text \<open>
  The characters for a conversion, the new fields and whether \<open>strftime\<close> has to follow; \<open>None\<close> where the function
  returns NULL.
\<close>

definition populate_conversion :: "byte \<Rightarrow> full_tm \<Rightarrow> (bytes \<times> full_tm \<times> bool) option" where
  "populate_conversion k t =
     (let f = ftm t in
      if k = ch CHR ''e'' then Some (fmt_d (tm_mday f), t, False)
      else if k = ch CHR ''D'' then Some (fmt_d (tm_mday f) @ day_suffix (fmt_d (tm_mday f)), t, False)
      else if k = ch CHR ''f'' then Some (lit ''000000'', t, False)
      else if k = ch CHR ''a'' \<or> k = ch CHR ''w'' then Some (keep k, set_weekday t, True)
      else if k = ch CHR ''W'' then Some (keep (ch CHR ''A''), set_weekday t, True)
      else if k = ch CHR ''k'' then Some (fmt_d (tm_hour f), t, False)
      else if k = ch CHR ''l'' then Some (fmt_d (twenty_four_to_twelve_hour (tm_hour f)), t, False)
      else if k = ch CHR ''Y'' then Some (fmt_zd 4 (tm_year f + 1900), t, False)
      else if k = ch CHR ''X'' then Some (fmt_zd 4 (s32 (snd (get_week f SUNDAY WEEK_ONE False))), t, False)
      else if k = ch CHR ''x'' then Some (fmt_zd 4 (s32 (snd (get_week f MONDAY WEEK_ONE True))), t, False)
      else if k = ch CHR ''c'' then Some (fmt_d (tm_mon f + 1), t, False)
      else if k = ch CHR ''U'' then Some (print_week (s32 (fst (get_week f SUNDAY WEEK_ZERO False))), t, False)
      else if k = ch CHR ''u'' then Some (print_week (s32 (fst (get_week f MONDAY WEEK_ZERO True))), t, True)
      else if k = ch CHR ''V'' then Some (print_week (s32 (fst (get_week f SUNDAY WEEK_ONE False))), t, True)
      else if k = ch CHR ''v'' then Some (print_week (s32 (fst (get_week f MONDAY WEEK_ONE True))), t, True)
      else if k = ch CHR ''h'' then Some (keep (ch CHR ''I''), t, True)
      else if k = ch CHR ''i'' then Some (keep (ch CHR ''M''), t, True)
      else if k = ch CHR ''M'' then (if tm_mon f = - 1 then None else Some (keep (ch CHR ''B''), t, True))
      else if k = ch CHR ''s'' then Some (keep (ch CHR ''S''), t, True)
      else if k = ch CHR ''b'' then (if tm_mon f = - 1 then None else Some (keep k, t, True))
      else if k = ch CHR ''j'' then
        (if tm_mday f = 0 \<or> tm_mon f \<le> 0 then
           let t' = t\<lparr>tm_yday := year_day f\<rparr> in
           if tm_yday t' + 1 < 0 \<and> - 10 < tm_yday t' + 1 then Some (48 # fmt_d (tm_yday t' + 1), t', False)
           else Some (keep k, t', True)
         else Some (keep k, t, True))
      else if k \<in> set (lit ''dHIprSTmy%'') then Some (keep k, t, True)
      else Some ([k], t, False))"

fun populate_loop :: "bytes \<Rightarrow> full_tm \<Rightarrow> bool \<Rightarrow> (bytes \<times> full_tm \<times> bool) option" where
  "populate_loop [] t call_strftime = Some ([], t, call_strftime)"
| "populate_loop [c] t call_strftime = Some ([c], t, call_strftime)"
| "populate_loop (c # k # fmt) t call_strftime =
     (if c = ch CHR ''%'' then
        (case populate_conversion k t of
           None \<Rightarrow> None
         | Some (s, t', call) \<Rightarrow>
             map_option (\<lambda>(r, t'', call'). (s @ r, t'', call')) (populate_loop fmt t' (call_strftime \<or> call)))
      else map_option (\<lambda>(r, t'', call'). (c # r, t'', call')) (populate_loop (k # fmt) t call_strftime))"

datatype date_format_error = RETURN_NULL | BUFFER_OVERRUN

text \<open>The buffer has one byte more than \<open>get_max_date_length\<close>; the terminating NUL is written too.\<close>

definition populate_sql_time_format :: "bytes \<Rightarrow> full_tm \<Rightarrow> date_format_error + bytes \<times> full_tm \<times> bool" where
  "populate_sql_time_format fmt t =
     (case populate_loop fmt t False of
        None \<Rightarrow> Inl RETURN_NULL
      | Some (s, t', call) \<Rightarrow> if length s + 1 \<le> get_max_date_length fmt + 1 then Inr (s, t', call) else Inl BUFFER_OVERRUN)"

section \<open>The second pass\<close>

definition weekday_name :: "int \<Rightarrow> bytes" where
  "weekday_name d =
     (if 0 \<le> d \<and> d < 7 then
        [lit ''Sunday'', lit ''Monday'', lit ''Tuesday'', lit ''Wednesday'', lit ''Thursday'', lit ''Friday'', lit ''Saturday''] ! nat d
      else lit ''?'')"

definition month_name :: "int \<Rightarrow> bytes" where
  "month_name m =
     (if 0 \<le> m \<and> m < 12 then
        [lit ''January'', lit ''February'', lit ''March'', lit ''April'', lit ''May'', lit ''June'', lit ''July'', lit ''August'',
         lit ''September'', lit ''October'', lit ''November'', lit ''December''] ! nat m
      else lit ''?'')"

definition print_conversion :: "byte \<Rightarrow> full_tm \<Rightarrow> bytes" where
  "print_conversion k t =
     (let f = ftm t; hour12 = twenty_four_to_twelve_hour (tm_hour f);
          am_pm = (if 11 < tm_hour f then lit ''PM'' else lit ''AM'');
          clock = (\<lambda>h. fmt_0d 2 h @ ch CHR '':'' # fmt_0d 2 (tm_min f) @ ch CHR '':'' # fmt_0d 2 (tm_sec f)) in
      if k = ch CHR ''a'' then take 3 (weekday_name (tm_wday t))
      else if k = ch CHR ''A'' then weekday_name (tm_wday t)
      else if k = ch CHR ''b'' then take 3 (month_name (tm_mon f))
      else if k = ch CHR ''B'' then month_name (tm_mon f)
      else if k = ch CHR ''d'' then fmt_0d 2 (tm_mday f)
      else if k = ch CHR ''H'' then fmt_0d 2 (tm_hour f)
      else if k = ch CHR ''I'' then fmt_0d 2 hour12
      else if k = ch CHR ''j'' then fmt_zd 3 (tm_yday t + 1)
      else if k = ch CHR ''M'' then fmt_0d 2 (tm_min f)
      else if k = ch CHR ''m'' then fmt_0d 2 (tm_mon f + 1)
      else if k = ch CHR ''p'' then am_pm
      else if k = ch CHR ''r'' then clock hour12 @ ch CHR '' '' # am_pm
      else if k = ch CHR ''S'' then fmt_0d 2 (tm_sec f)
      else if k = ch CHR ''T'' then clock (tm_hour f)
      else if k = ch CHR ''w'' then fmt_d (tm_wday t)
      else if k = ch CHR ''y'' then fmt_0d 2 ((tm_year f + 1900) mod 100)
      else [k])"

fun strftime_full :: "bytes \<Rightarrow> full_tm \<Rightarrow> bytes" where
  "strftime_full [] t = []"
| "strftime_full [c] t = [c]"
| "strftime_full (c # k # fmt) t =
     (if c = ch CHR ''%'' then print_conversion k t @ strftime_full fmt t else c # strftime_full (k # fmt) t)"

section \<open>DATE_FORMAT\<close>

definition day_valid :: "tm \<Rightarrow> bool" where
  "day_valid t =
     (if tm_mon t \<in> {- 1, 0, 2, 4, 6, 7, 9, 11} then tm_mday t \<le> 31
      else if tm_mon t \<in> {3, 5, 8, 10} then tm_mday t \<le> 30
      else if tm_mon t = 1 then tm_mday t \<le> (if is_leap (u32 (tm_year t + 1900)) then 29 else 28)
      else False)"

text \<open>\<open>strptime\<close> with \<open>%Y-%m-%d %T\<close> also sets the weekday and the day of the year.\<close>

definition read_revised :: "bytes \<Rightarrow> tm \<Rightarrow> full_tm option" where
  "read_revised revised_date t =
     (case strptime (lit ''%Y-%m-%d %H:%M:%S'') revised_date t of
        Some (t', Some _) \<Rightarrow>
          let y = tm_year t' + 1900; n = day_number y (tm_mon t') (tm_mday t') in
          Some \<lparr>ftm = t', tm_wday = (n - 1) mod 7, tm_yday = n - days_before_year y\<rparr>
      | _ \<Rightarrow> None)"

text \<open>The characters and the length of the result; an empty string stands for NULL.\<close>

definition ydboctoDateFormatC :: "bytes \<Rightarrow> bytes \<Rightarrow> date_format_error + bytes \<times> nat" where
  "ydboctoDateFormatC date fmt =
     (let null = Inr ([], 0) in
      case get_date_from_string (cstr date) zero_tm of
        None \<Rightarrow> null
      | Some (revised_date, t) \<Rightarrow>
          if tm_mday t = 0 \<and> tm_mon t = - 1 \<and> tm_year t = - 1900 then null
          else if \<not> day_valid t then null
          else
            (case if date_known t then read_revised revised_date t else Some \<lparr>ftm = t, tm_wday = 0, tm_yday = 0\<rparr> of
               None \<Rightarrow> null
             | Some t1 \<Rightarrow>
                 (case populate_sql_time_format fmt t1 of
                    Inl RETURN_NULL \<Rightarrow> null
                  | Inl BUFFER_OVERRUN \<Rightarrow> Inl BUFFER_OVERRUN
                  | Inr (s, t2, call_strftime) \<Rightarrow>
                      if call_strftime then
                        (let r = strftime_full (cstr s) t2 in
                         if length r < get_max_date_length fmt then Inr (r, length r) else Inr ([], 0))
                      else Inr (s, get_max_date_length fmt))))"

end
