(* ===== verification/Date_Style.thy ===== *)
theory Date_Style
  imports Date_Text
begin

text \<open>
  The date style: \<open>set_date_time_format_from_datestyle.c\<close>, which turns a value such as \<open>ISO, DMY\<close> of the setting
  \<open>datestyle\<close> into the formats in which dates and timestamps are read. The three buffers it fills are lists with the
  size that is allocated; \<open>STYLE_OVERFLOW\<close> is a write past one of them and \<open>STYLE_INVALID\<close> a return with
  \<open>ERR_INVALID_DATESTYLE_VALUE\<close>.
\<close>

datatype style_error = STYLE_INVALID | STYLE_OVERFLOW

record date_config =
  datestyle :: bytes
  date_format :: bytes
  timestamp_format :: bytes
  timestamptz_format :: bytes

record style_state =
  is_iso_format :: bool
  is_first_char :: bool
  is_date_time_format_set :: bool
  is_separator_reached :: bool
  is_year_set :: bool
  is_month_set :: bool
  is_day_set :: bool
  date_buf :: bytes
  timestamp_buf :: bytes
  style_buf :: bytes

definition DEFAULT_TIME_FORMAT :: bytes where "DEFAULT_TIME_FORMAT = lit ''%H:%M:%S''"
definition DEFAULT_DATE_FORMAT :: bytes where "DEFAULT_DATE_FORMAT = lit ''%m-%d-%Y''"
definition DEFAULT_TIMESTAMP_FORMAT :: bytes where "DEFAULT_TIMESTAMP_FORMAT = lit ''%m-%d-%Y %H:%M:%S''"
definition DEFAULT_DATESTYLE :: bytes where "DEFAULT_DATESTYLE = lit ''ISO, MDY''"

definition style_start :: style_state where
  "style_start = \<lparr>is_iso_format = False, is_first_char = True, is_date_time_format_set = False,
     is_separator_reached = False, is_year_set = False, is_month_set = False, is_day_set = False,
     date_buf = [], timestamp_buf = [], style_buf = lit ''ISO, ''\<rparr>"

text \<open>Appending to a buffer that has room for the string \<open>dflt\<close> and a NUL.\<close>

definition put_bytes :: "bytes \<Rightarrow> bytes \<Rightarrow> bytes \<Rightarrow> style_error + bytes" where
  "put_bytes dflt buf s = (if length buf + length s \<le> length dflt + 1 then Inr (buf @ s) else Inl STYLE_OVERFLOW)"

definition toupper :: "byte \<Rightarrow> byte" where
  "toupper b = (if 97 \<le> unat b \<and> unat b \<le> 122 then b - 32 else b)"

text \<open>One character of the order of year, month and day.\<close>

definition style_field :: "byte \<Rightarrow> style_state \<Rightarrow> style_error + style_state" where
  "style_field c st =
     (if c = ch CHR ''y'' \<or> c = ch CHR ''m'' \<or> c = ch CHR ''d'' then
        let is_error = (c = ch CHR ''y'' \<and> is_year_set st \<or> c = ch CHR ''m'' \<and> is_month_set st \<or> c = ch CHR ''d'' \<and> is_day_set st);
            st1 = st\<lparr>is_year_set := is_year_set st \<or> c = ch CHR ''y'', is_month_set := is_month_set st \<or> c = ch CHR ''m'',
                     is_day_set := is_day_set st \<or> c = ch CHR ''d''\<rparr>;
            piece = (if is_first_char st then [] else [ch CHR ''-'']) @ [ch CHR ''%'', if c = ch CHR ''y'' then ch CHR ''Y'' else c] in
        if is_error then Inl STYLE_INVALID
        else
          bindE (put_bytes DEFAULT_DATE_FORMAT (date_buf st1) piece) (\<lambda>d.
          bindE (put_bytes DEFAULT_TIMESTAMP_FORMAT (timestamp_buf st1) piece) (\<lambda>t.
          bindE (put_bytes DEFAULT_DATESTYLE (style_buf st1) [toupper c]) (\<lambda>s.
          Inr (st1\<lparr>is_first_char := False, date_buf := d, timestamp_buf := t, style_buf := s\<rparr>))))
      else Inl STYLE_INVALID)"

text \<open>The character at a position of a string, NUL at its end.\<close>

definition char_at :: "bytes \<Rightarrow> nat \<Rightarrow> byte" where
  "char_at s i = (if i < length s then s ! i else 0)"

definition style_order :: "bytes \<Rightarrow> style_state \<Rightarrow> style_error + style_state" where
  "style_order s st =
     (if is_date_time_format_set st then Inl STYLE_INVALID
      else
        bindE (style_field (char_at s 0) (st\<lparr>is_date_time_format_set := True\<rparr>)) (\<lambda>st1.
        bindE (style_field (char_at s 1) st1) (\<lambda>st2. style_field (char_at s 2) st2)))"

definition style_iso :: "bytes \<Rightarrow> style_state \<Rightarrow> style_error + style_state" where
  "style_iso s st =
     (if is_iso_format st then Inl STYLE_INVALID
      else if char_at s 1 = 0 \<or> char_at s 2 = 0 then Inl STYLE_INVALID
      else if char_at s 1 = ch CHR ''s'' \<and> char_at s 2 = ch CHR ''o'' then Inr (st\<lparr>is_iso_format := True\<rparr>)
      else Inl STYLE_INVALID)"

definition style_comma :: "style_state \<Rightarrow> style_error + style_state" where
  "style_comma st =
     (if is_separator_reached st then Inl STYLE_INVALID
      else if is_iso_format st \<and> is_date_time_format_set st then Inl STYLE_INVALID
      else if \<not> is_iso_format st \<and> \<not> is_date_time_format_set st then Inl STYLE_INVALID
      else Inr (st\<lparr>is_separator_reached := True\<rparr>))"

definition is_blank :: "byte \<Rightarrow> bool" where
  "is_blank c \<longleftrightarrow> c = 32 \<or> c = 9 \<or> c = 10"

function style_loop :: "bytes \<Rightarrow> style_state \<Rightarrow> style_error + style_state" where
  "style_loop [] st = Inr st"
| "style_loop (c # s) st =
     (if c = ch CHR ''i'' then bindE (style_iso (c # s) st) (style_loop (drop 2 s))
      else if c = ch CHR ''y'' \<or> c = ch CHR ''m'' \<or> c = ch CHR ''d'' then
        bindE (style_order (c # s) st) (style_loop (drop 2 s))
      else if c = ch CHR '','' then bindE (style_comma st) (style_loop s)
      else if is_blank c then style_loop s st
      else Inl STYLE_INVALID)"
  by pat_completeness auto
termination
  by (relation "measure (\<lambda>(s, _). length s)") auto

text \<open>The checks at the end and the new formats.\<close>

definition style_finish :: "date_config \<Rightarrow> style_state \<Rightarrow> style_error + date_config" where
  "style_finish config st =
     (if is_separator_reached st \<and> (\<not> is_iso_format st \<or> \<not> is_date_time_format_set st) then Inl STYLE_INVALID
      else if is_iso_format st \<and> is_date_time_format_set st \<and> \<not> is_separator_reached st then Inl STYLE_INVALID
      else if is_date_time_format_set st then
        bindE (put_bytes DEFAULT_DATESTYLE (style_buf st) [0]) (\<lambda>style.
        bindE (put_bytes DEFAULT_DATE_FORMAT (date_buf st) [0]) (\<lambda>date.
        bindE (put_bytes DEFAULT_TIMESTAMP_FORMAT (timestamp_buf st) (ch CHR '' '' # DEFAULT_TIME_FORMAT @ [0])) (\<lambda>timestamp.
        bindE (put_bytes (DEFAULT_TIMESTAMP_FORMAT @ lit ''%z'') (cstr timestamp) (lit ''%z'' @ [0])) (\<lambda>timestamptz.
        Inr (config\<lparr>datestyle := cstr style, date_format := cstr date, timestamp_format := cstr timestamp,
                    timestamptz_format := cstr timestamptz\<rparr>)))))
      else Inr config)"

text \<open>\<open>None\<close> is a NULL pointer. The value is changed to lower case in place.\<close>

definition set_date_time_format_from_datestyle :: "bytes option \<Rightarrow> date_config \<Rightarrow> (style_error + date_config) \<times> bytes option" where
  "set_date_time_format_from_datestyle date_style_value config =
     (case date_style_value of
        None \<Rightarrow> (Inl STYLE_INVALID, None)
      | Some value \<Rightarrow>
          if value = [] then (Inr config, Some value)
          else
            let lower = map tolower value in
            (bindE (style_loop lower style_start) (style_finish config), Some lower))"

end
