(* ===== verification/Calendar_Laws.thy ===== *)
theory Calendar_Laws
  imports Calendar
begin

text \<open>
  The calendar functions against a reference: \<open>get_day_num\<close> counts days, \<open>gmtime\<close> and \<open>utc_mktime\<close> are inverse, and
  \<open>get_week\<close> gives the week number of ISO 8601 in the mode that is meant for it.
\<close>

section \<open>Years\<close>

lemma div_next:
  fixes y k :: int
  assumes "0 < k"
  shows "(y + k) div k = (y + (k - 1)) div k + (if y mod k = 0 then 1 else 0)"
proof -
  obtain q r where y: "y = r + q * k" "0 \<le> r" "r < k"
    using assms by (metis mod_mult_div_eq mult.commute pos_mod_bound pos_mod_sign)
  have m: "y mod k = r" using y by (simp add: mod_pos_pos_trivial)
  have e0: "y + k = r + (q + 1) * k" using y(1) by (simp add: algebra_simps)
  have d0: "(y + k) div k = q + 1" unfolding e0 using assms y by (simp add: div_pos_pos_trivial)
  have "(y + (k - 1)) div k = (if r = 0 then q else q + 1)"
  proof (cases "r = 0")
    case True
    have e: "y + (k - 1) = (k - 1) + q * k" using True y(1) by simp
    show ?thesis unfolding e using True assms by (simp add: div_pos_pos_trivial)
  next
    case False
    have e: "y + (k - 1) = (r - 1) + (q + 1) * k" using y(1) by (simp add: algebra_simps)
    show ?thesis unfolding e using False assms y by (simp add: div_pos_pos_trivial)
  qed
  then show ?thesis using d0 m by simp
qed

lemma leap_divisors: "(y :: int) mod 400 = 0 \<Longrightarrow> y mod 100 = 0" "y mod 100 = 0 \<Longrightarrow> y mod 4 = 0"
  using dvd_trans [of 100 400 y] dvd_trans [of 4 100 y] by (simp_all add: mod_eq_0_iff_dvd)

lemma leap_arith:
  fixes y A B C :: int
  assumes "p400 \<Longrightarrow> p100" "p100 \<Longrightarrow> p4"
  shows "365 * (y + 1) + (A + (if p4 then 1 else 0)) - (B + (if p100 then 1 else 0)) + (C + (if p400 then 1 else 0))
    = 365 * y + A - B + C + (if p4 \<and> \<not> p100 \<or> p400 then 366 else 365)"
  using assms by auto

lemma days_before_next_year: "days_before_year (y + 1) = days_before_year y + get_days_in_year y"
proof -
  have predecessors: "(4 :: int) - 1 = 3" "(100 :: int) - 1 = 99" "(400 :: int) - 1 = 399" by simp_all
  have next_div: "(y + 4) div 4 = (y + 3) div 4 + (if y mod 4 = 0 then 1 else 0)"
    "(y + 100) div 100 = (y + 99) div 100 + (if y mod 100 = 0 then 1 else 0)"
    "(y + 400) div 400 = (y + 399) div 400 + (if y mod 400 = 0 then 1 else 0)"
    using div_next [of 4 y, OF zero_less_numeral] div_next [of 100 y, OF zero_less_numeral]
      div_next [of 400 y, OF zero_less_numeral] predecessors
    by (simp_all only:)
  have p: "0 < y mod 100 \<longleftrightarrow> y mod 100 \<noteq> 0" by (metis order_less_le pos_mod_sign zero_less_numeral)
  have sums: "y + 1 + 3 = y + 4" "y + 1 + 99 = y + 100" "y + 1 + 399 = y + 400" by simp_all
  have s: "days_before_year (y + 1) = 365 * (y + 1) + (y + 4) div 4 - (y + 100) div 100 + (y + 400) div 400"
    unfolding days_before_year_def sums by (rule refl)
  show ?thesis
    unfolding s next_div days_before_year_def [of y] get_days_in_year_def is_leap_def p
    by (rule leap_arith [OF leap_divisors])
qed

lemma get_days_in_year_cases: "get_days_in_year y = 365 \<or> get_days_in_year y = 366"
  by (simp add: get_days_in_year_def)

lemma days_before_year_mono: "0 \<le> k \<Longrightarrow> days_before_year y + 365 * k \<le> days_before_year (y + k)"
proof (induction k rule: int_ge_induct)
  case (step k)
  then show ?case
    using days_before_next_year [of "y + k"] get_days_in_year_cases [of "y + k"] by (auto simp: algebra_simps)
qed simp

text \<open>A day belongs to one year only.\<close>

lemma year_unique:
  assumes "days_before_year y \<le> n" "n < days_before_year (y + 1)" "days_before_year z \<le> n" "n < days_before_year (z + 1)"
  shows "y = z"
proof (rule ccontr)
  assume "y \<noteq> z"
  then consider "y + 1 \<le> z" | "z + 1 \<le> y" by linarith
  then show False
    using days_before_year_mono [of "z - (y + 1)" "y + 1"] days_before_year_mono [of "y - (z + 1)" "z + 1"] assms
    by cases auto
qed

lemma ceil_bounds:
  fixes y k :: int
  assumes "0 < k"
  shows "y \<le> (y + (k - 1)) div k * k" "(y + (k - 1)) div k * k \<le> y + (k - 1)"
  using pos_mod_bound [OF assms, of "y + (k - 1)"] pos_mod_sign [OF assms, of "y + (k - 1)"]
  by (simp_all add: minus_mod_eq_div_mult [symmetric])

lemma civil_year_bounds: "days_before_year (civil_year n) \<le> n \<and> n < days_before_year (civil_year n + 1)"
proof -
  let ?y = "n * 400 div 146097"
  have y: "?y * 146097 \<le> n * 400" "n * 400 < ?y * 146097 + 146097"
    using pos_mod_sign [of 146097 "n * 400"] pos_mod_bound [of 146097 "n * 400"]
    by (simp_all add: minus_mod_eq_div_mult [symmetric])
  have b: "400 * days_before_year z \<le> 146097 * z + 700" "146097 * z - 400 < 400 * days_before_year z" for z
    using ceil_bounds [of 4 z] ceil_bounds [of 100 z] ceil_bounds [of 400 z]
    by (simp_all add: days_before_year_def)
  have "days_before_year (?y - 1) \<le> n" using b(1) [of "?y - 1"] y(1) by simp
  moreover have "n < days_before_year (2 + ?y)" using b(2) [of "2 + ?y"] y(2) by simp
  ultimately show ?thesis
    by (auto simp: civil_year_def Let_def)
qed

section \<open>gmtime and utc_mktime are inverse\<close>

lemma civil_month_range: "0 \<le> civil_month y yday" "civil_month y yday < 12"
proof -
  have "length (filter P xs) \<le> length xs" for P and xs :: "int list" by (rule length_filter_le)
  from this [of "\<lambda>m. days_before_month y m \<le> yday" "[1, 2, 3, 4, 5, 6, 7, 8, 9, 10, 11]"]
  show "0 \<le> civil_month y yday" "civil_month y yday < 12" unfolding civil_month_def by simp_all
qed

lemma hours_minutes_seconds: "s div 3600 * 3600 + s div 60 mod 60 * 60 + s mod 60 = (s :: int)"
proof -
  have q: "s div 3600 = s div 60 div 60" using zdiv_zmult2_eq [of 60 s 60] by simp
  have "\<lbrakk>Q * 60 + r = P; P * 60 + r' = s\<rbrakk> \<Longrightarrow> Q * 3600 + r * 60 + r' = s" for P Q r r' :: int by linarith
  then show ?thesis unfolding q using div_mult_mod_eq [of "s div 60" 60] div_mult_mod_eq [of s 60] by blast
qed

lemma gmtime_of_day: "tm_hour (gmtime t) * 3600 + tm_min (gmtime t) * 60 + tm_sec (gmtime t) = t mod 86400"
  unfolding gmtime_def Let_def tm.simps by (rule hours_minutes_seconds)

lemma gmtime_day:
  "day_number (tm_year (gmtime t) + 1900 + tm_mon (gmtime t) div 12) (tm_mon (gmtime t) mod 12) (tm_mday (gmtime t))
     = t div 86400 + epoch_day"
proof -
  let ?n = "t div 86400 + epoch_day"
  let ?y = "civil_year ?n"
  let ?m = "civil_month ?y (?n - days_before_year ?y)"
  have m: "?m div 12 = 0" "?m mod 12 = ?m"
    using civil_month_range by (simp_all only: div_pos_pos_trivial mod_pos_pos_trivial)
  have "y - 1900 + 1900 + 0 = y" for y :: int by simp
  then show ?thesis unfolding gmtime_def Let_def tm.simps m day_number_def by simp
qed

text \<open>
  \<open>utc_mktime\<close> undoes \<open>gmtime\<close>: breaking a time into year, month, day, hour, minute and second and putting it together
  again gives the same time, for every number of seconds before or after 1970.
\<close>

lemma utc_mktime_gmtime: "utc_mktime (gmtime t) = t"
proof -
  have "utc_mktime (gmtime t) = (t div 86400 + epoch_day - epoch_day) * 86400 + t mod 86400"
    unfolding utc_mktime_def gmtime_day gmtime_of_day [symmetric] by (simp only: add.assoc)
  also have "\<dots> = t div 86400 * 86400 + t mod 86400" by (simp only: add_diff_cancel)
  finally show ?thesis by (simp only: div_mult_mod_eq)
qed

lemma day_number_add: "day_number y m (d + n) = day_number y m d + n"
  by (simp add: day_number_def)

lemma utc_mktime_update:
  "utc_mktime (t\<lparr>tm_mday := tm_mday t + n\<rparr>) = utc_mktime t + n * 86400"
  "utc_mktime (t\<lparr>tm_hour := x, tm_min := y, tm_sec := z\<rparr>)
     = utc_mktime t + (x - tm_hour t) * 3600 + (y - tm_min t) * 60 + (z - tm_sec t)"
  by (simp_all add: utc_mktime_def day_number_add [of _ _ "tm_mday t" n] distrib_right left_diff_distrib)

section \<open>Day numbers\<close>

definition days_in_month :: "int \<Rightarrow> int \<Rightarrow> int" where
  "days_in_month y m = (if m = 11 then get_days_in_year y else days_before_month y (m + 1)) - days_before_month y m"

definition valid_date :: "tm \<Rightarrow> bool" where
  "valid_date t \<longleftrightarrow> 1 \<le> tm_year t + 1900 \<and> tm_year t + 1900 \<le> 9999 \<and> 0 \<le> tm_mon t \<and> tm_mon t < 12
     \<and> 1 \<le> tm_mday t \<and> tm_mday t \<le> days_in_month (tm_year t + 1900) (tm_mon t)"

lemma cdiv_nonneg: "0 \<le> a \<Longrightarrow> 0 < b \<Longrightarrow> cdiv a b = a div b"
  by (cases "a = 0") (simp_all add: cdiv_def)

lemma century_correction: "(y div 100 + 1) * 3 div 4 = y div 100 - y div (400 :: int)"
proof -
  have "(100 :: int) * 4 = 400" by simp
  then have q: "y div 400 = y div 100 div 4" using zdiv_zmult2_eq [of 4 y 100, OF zero_le_numeral] by (simp only:)
  have "(c + 1) * 3 div 4 = c - c div 4" for c :: int
  proof -
    define r where "r = c mod 4"
    define k where "k = c div 4"
    have c: "c = r + k * 4" unfolding r_def k_def by (simp only: mod_div_mult_eq)
    have "0 \<le> r" "r < 4" unfolding r_def by (simp_all only: pos_mod_sign pos_mod_bound zero_less_numeral)
    then have r: "r = 0 \<or> r = 1 \<or> r = 2 \<or> r = 3" by linarith
    have e: "(c + 1) * 3 = (r + 1) * 3 + k * 3 * 4" unfolding c by (simp add: distrib_right)
    have "(c + 1) * 3 div 4 = k * 3 + (r + 1) * 3 div 4" unfolding e by (rule div_mult_self1) simp
    also have "\<dots> = k * 3 + r" using r by auto
    also have "\<dots> = c - k" unfolding c by simp
    finally show ?thesis unfolding k_def .
  qed
  then show ?thesis unfolding q .
qed

lemma ceil_as_floor:
  fixes y k :: int
  assumes "0 < k"
  shows "(y + (k - 1)) div k = (y - 1) div k + 1"
proof -
  have "y + (k - 1) = y - 1 + k" by simp
  then show ?thesis using assms by (simp only: div_add_self2)
qed

lemma days_before_year_floor:
  "days_before_year y = 365 * y + (y - 1) div 4 - (y - 1) div 100 + (y - 1) div 400 + 1"
proof -
  have p: "(4 :: int) - 1 = 3" "(100 :: int) - 1 = 99" "(400 :: int) - 1 = 399" by simp_all
  have f: "(y + 3) div 4 = (y - 1) div 4 + 1" "(y + 99) div 100 = (y - 1) div 100 + 1" "(y + 399) div 400 = (y - 1) div 400 + 1"
    using ceil_as_floor [of 4 y, OF zero_less_numeral] ceil_as_floor [of 100 y, OF zero_less_numeral]
      ceil_as_floor [of 400 y, OF zero_less_numeral] p
    by (simp_all only:)
  have "365 * y + (a + 1) - (b + 1) + (c + 1) = 365 * y + a - b + c + 1" for a b c :: int by simp
  then show ?thesis unfolding days_before_year_def f .
qed

text \<open>\<open>get_day_num\<close> is the number of days since January 1 of the year 0.\<close>

lemma leap_years_until:
  "y div 4 - y div 100 + y div 400 = (y - 1) div 4 - (y - 1) div 100 + (y - 1) div 400 + (if is_leap y then 1 else 0)"
proof -
  have "\<lbrakk>B' = B + L; B = 365 * y + a + 1; B' = 365 * (y + 1) + a' + 1\<rbrakk> \<Longrightarrow> a' = a + (L - 365)"
    for a a' B B' L :: int by simp
  moreover have "days_before_year (y + 1) = 365 * (y + 1) + (y div 4 - y div 100 + y div 400) + 1"
    "days_before_year y = 365 * y + ((y - 1) div 4 - (y - 1) div 100 + (y - 1) div 400) + 1"
    using days_before_year_floor [of "y + 1"] days_before_year_floor [of y] by (simp_all only: add_diff_cancel add_diff_eq add.assoc)
  ultimately have "y div 4 - y div 100 + y div 400 = (y - 1) div 4 - (y - 1) div 100 + (y - 1) div 400 + (get_days_in_year y - 365)"
    using days_before_next_year by blast
  then show ?thesis by (simp only: get_days_in_year_def split: if_split) simp
qed

definition leaps :: "int \<Rightarrow> int" where
  "leaps y = y div 4 - y div 100 + y div 400"

lemma leaps_next: "leaps y = leaps (y - 1) + (if is_leap y then 1 else 0)"
  unfolding leaps_def by (rule leap_years_until)

lemma day_number_leaps: "day_number y m d = 365 * y + leaps (y - 1) + days_before_month y m + d"
proof -
  have "365 * y + a - b + c + 1 + e + d - 1 = 365 * y + (a - b + c) + e + d" for a b c e :: int by simp
  then show ?thesis unfolding day_number_def days_before_year_floor leaps_def .
qed

lemma month_offset:
  assumes "2 \<le> m" "m < 12"
  shows "31 * m - ((m + 1) * 4 + 23) div 10 = [0, 31, 59, 90, 120, 151, 181, 212, 243, 273, 304, 334] ! nat m"
proof -
  have "m = 2 \<or> m = 3 \<or> m = 4 \<or> m = 5 \<or> m = 6 \<or> m = 7 \<or> m = 8 \<or> m = 9 \<or> m = 10 \<or> m = 11"
    using assms by presburger
  then show ?thesis by (elim disjE) simp_all
qed

text \<open>
  \<open>get_day_num\<close>, a formula with divisions, is the number of days since January 1 of the year 0 in the Gregorian
  calendar, for every date from the year 1 on.
\<close>

lemma get_day_num_count:
  assumes "1 \<le> tm_year t + 1900" "0 \<le> tm_mon t" "tm_mon t < 12"
  shows "get_day_num t = day_number (tm_year t + 1900) (tm_mon t) (tm_mday t)"
proof -
  define y m where "y = tm_year t + 1900" and "m = tm_mon t"
  have correction: "cdiv z 4 - cdiv ((cdiv z 100 + 1) * 3) 4 = leaps z" if "0 \<le> z" for z
  proof -
    have "cdiv z 4 = z div 4" "cdiv z 100 = z div 100" using that by (simp_all only: cdiv_nonneg zero_less_numeral)
    moreover have "0 \<le> (z div 100 + 1) * 3" using that by (simp add: pos_imp_zdiv_nonneg_iff)
    ultimately show ?thesis
      using that century_correction [of z] unfolding leaps_def by (simp only: cdiv_nonneg zero_less_numeral diff_diff_eq2 diff_add_eq)
  qed
  show ?thesis
  proof (cases "m \<le> 1")
    case True
    then have "m = 0 \<or> m = 1" using assms(2) unfolding m_def by linarith
    then have tab: "days_before_month y m = 31 * m" by (auto simp: days_before_month_def)
    have "get_day_num t = 365 * y + 31 * m + tm_mday t + (cdiv (y - 1) 4 - cdiv ((cdiv (y - 1) 100 + 1) * 3) 4)"
      using True unfolding get_day_num_def Let_def y_def m_def by simp
    also have "\<dots> = 365 * y + 31 * m + tm_mday t + leaps (y - 1)" using assms(1) correction unfolding y_def by simp
    finally show ?thesis using tab unfolding day_number_leaps y_def m_def by simp
  next
    case False
    have o: "cdiv ((m + 1) * 4 + 23) 10 = ((m + 1) * 4 + 23) div 10" using assms(2) unfolding m_def by (intro cdiv_nonneg) simp_all
    have tab: "days_before_month y m = 31 * m - ((m + 1) * 4 + 23) div 10 + (if is_leap y then 1 else 0)"
      using month_offset [of m] False assms(3) unfolding m_def days_before_month_def by simp
    have "get_day_num t = 365 * y + 31 * m + tm_mday t - cdiv ((m + 1) * 4 + 23) 10 + (cdiv y 4 - cdiv ((cdiv y 100 + 1) * 3) 4)"
      using False unfolding get_day_num_def Let_def y_def m_def by simp
    also have "\<dots> = 365 * y + 31 * m + tm_mday t - cdiv ((m + 1) * 4 + 23) 10 + leaps y"
      using assms(1) correction unfolding y_def by simp
    finally show ?thesis using tab leaps_next [of y] unfolding o day_number_leaps y_def [symmetric] m_def [symmetric] by simp
  qed
qed

section \<open>ISO weeks\<close>

text \<open>
  The core of \<open>get_week\<close>, relative to January 1 of the year: the day is \<open>k\<close>, the year has \<open>len\<close> days and starts on
  weekday \<open>r\<close>, the year before has \<open>len'\<close> days. The result is the week and the difference of the years.
\<close>

definition week_core :: "int \<Rightarrow> int \<Rightarrow> int \<Rightarrow> int \<Rightarrow> int \<times> int" where
  "week_core r len len' k =
     (let first = (k + 1 \<le> 7 - r); base = (if first then - len' else 0); L = (if first then len' else len);
          W = (if first then (r + 371 - len') mod 7 else r); dy = (if first then - 1 else 0);
          days = k - (if 4 \<le> W then base + (7 - W) else base - W) in
      if 364 \<le> days \<and> \<not> 4 \<le> (W + L) mod 7 then (1, dy + 1) else (days div 7 + 1, dy))"

text \<open>The Thursday of the week of day \<open>k\<close>, and the week of a year in which it is.\<close>

definition week_spec :: "int \<Rightarrow> int \<Rightarrow> int \<Rightarrow> int \<Rightarrow> int \<times> int \<Rightarrow> bool" where
  "week_spec r len len' k res \<longleftrightarrow>
     (let thursday = k - (r + k) mod 7 + 3 in
      case res of (w, dy) \<Rightarrow>
        dy = - 1 \<and> - len' \<le> thursday \<and> thursday < 0 \<and> w = (thursday + len') div 7 + 1
        \<or> dy = 0 \<and> 0 \<le> thursday \<and> thursday < len \<and> w = thursday div 7 + 1
        \<or> dy = 1 \<and> len \<le> thursday \<and> thursday < len + 365 \<and> w = (thursday - len) div 7 + 1)"

lemma small_cases: "0 \<le> j \<Longrightarrow> j < 7 \<Longrightarrow> j = 0 \<or> j = 1 \<or> j = 2 \<or> j = 3 \<or> j = 4 \<or> j = 5 \<or> j = (6 :: int)"
  by presburger

lemma div_7: "0 \<le> j \<Longrightarrow> j < 7 \<Longrightarrow> (7 * p + j) div 7 = (p :: int)" "0 \<le> j \<Longrightarrow> j < 7 \<Longrightarrow> (7 * p + j) mod 7 = j"
proof -
  assume j: "0 \<le> j" "j < 7"
  have "(j + p * 7) div 7 = p" by (subst div_mult_self1) (use j in \<open>simp_all add: div_pos_pos_trivial\<close>)
  then show "(7 * p + j) div 7 = p" by (simp only: mult.commute add.commute)
  have "(j + p * 7) mod 7 = j" using j by (simp only: mod_mult_self1 mod_pos_pos_trivial)
  then show "(7 * p + j) mod 7 = j" by (simp only: mult.commute add.commute)
qed

text \<open>The first week of January, by its weekday \<open>j\<close>.\<close>

lemma week_core_january:
  assumes "0 \<le> r" "r < 7" "len = 365 \<or> len = 366" "len' = 365 \<or> len' = 366" "0 \<le> j" "j < 7" "r \<le> j"
  shows "week_spec r len len' (j - r) (week_core r len len' (j - r))"
proof -
  have "j = 0 \<or> j = 1 \<or> j = 2 \<or> j = 3 \<or> j = 4 \<or> j = 5 \<or> j = 6" using small_cases assms(5,6) .
  moreover have "r = 0 \<or> r = 1 \<or> r = 2 \<or> r = 3 \<or> r = 4 \<or> r = 5 \<or> r = 6" using small_cases assms(1,2) .
  ultimately show ?thesis
    using assms(3,4,7) by (elim disjE) (simp_all add: week_core_def week_spec_def Let_def)
qed

lemma week_core_rest:
  assumes "0 \<le> r" "r < 7" "len = 365 \<or> len = 366" "0 \<le> j" "j < 7" "1 \<le> q" "7 * q + j - r < len"
  shows "week_spec r len len' (7 * q + j - r) (week_core r len len' (7 * q + j - r))"
proof -
  define p where "p = (if 4 \<le> r then q - 1 else q)"
  have days: "7 * q + j - r - (if 4 \<le> r then 0 + (7 - r) else 0 - r) = 7 * p + j" by (simp add: p_def)
  have later: "(7 * q + j - r + 1 \<le> 7 - r) = False" using assms(4,6) by simp
  have core: "week_core r len len' (7 * q + j - r)
      = (if 364 \<le> 7 * p + j \<and> \<not> 4 \<le> (r + len) mod 7 then (1, 1) else (p + 1, 0))"
    unfolding week_core_def Let_def by (simp only: later if_False days div_7(1) [OF assms(4,5)]) simp
  have week: "r + (7 * q + j - r) = 7 * q + j" by simp
  have thursday: "7 * q + j - r - j + 3 = 7 * p + (if 4 \<le> r then 10 - r else 3 - r)" by (simp add: p_def)
  have spec: "week_spec r len len' (7 * q + j - r) res \<longleftrightarrow>
      (let thursday = 7 * p + (if 4 \<le> r then 10 - r else 3 - r) in
       case res of (w, dy) \<Rightarrow>
         dy = - 1 \<and> - len' \<le> thursday \<and> thursday < 0 \<and> w = (thursday + len') div 7 + 1
         \<or> dy = 0 \<and> 0 \<le> thursday \<and> thursday < len \<and> w = thursday div 7 + 1
         \<or> dy = 1 \<and> len \<le> thursday \<and> thursday < len + 365 \<and> w = (thursday - len) div 7 + 1)" for res
    unfolding week_spec_def week div_7(2) [OF assms(4,5)] thursday ..
  have r: "0 \<le> (if 4 \<le> r then 10 - r else 3 - r)" "(if 4 \<le> r then 10 - r else 3 - r) < 7" using assms(1,2) by auto
  have p0: "0 \<le> p" using assms(6) by (simp add: p_def)
  show ?thesis
  proof (cases "p \<le> 51")
    case True
    have "7 * p + (if 4 \<le> r then 10 - r else 3 - r) < len" using True assms(3) r(2) by linarith
    then show ?thesis using True assms(5) p0 r unfolding core spec by (simp only: div_7(1) Let_def) simp
  next
    case False
    have "p \<le> 52" using assms(1-5,7) by (auto simp: p_def split: if_splits)
    then have p: "p = 52" using False by simp
    have "r = 0 \<or> r = 1 \<or> r = 2 \<or> r = 3 \<or> r = 4 \<or> r = 5 \<or> r = 6" using small_cases assms(1,2) .
    moreover have "q = (if 4 \<le> r then 53 else 52)" using p by (simp add: p_def split: if_splits)
    ultimately show ?thesis using assms(3,4,7) unfolding core spec p by (elim disjE) simp_all
  qed
qed

lemma week_core_correct:
  assumes "0 \<le> r" "r < 7" "len = 365 \<or> len = 366" "len' = 365 \<or> len' = 366" "0 \<le> k" "k < len"
  shows "week_spec r len len' k (week_core r len len' k)"
proof -
  define q j where "q = (r + k) div 7" and "j = (r + k) mod 7"
  have j: "0 \<le> j" "j < 7" unfolding j_def by (simp_all only: pos_mod_sign pos_mod_bound zero_less_numeral)
  have "r + k = 7 * q + j" unfolding q_def j_def by (simp only: mult_div_mod_eq)
  then have k: "k = 7 * q + j - r" by simp
  have "0 \<le> 7 * q + j" using k assms(1,5) by simp
  then have "0 \<le> q" using j(2) by linarith
  show ?thesis
  proof (cases "q = 0")
    case True
    then show ?thesis using week_core_january [OF assms(1-4) j] k assms(5) by simp
  next
    case False
    then show ?thesis using week_core_rest [OF assms(1-3) j, of q len'] k \<open>0 \<le> q\<close> assms(6) by simp
  qed
qed

lemma days_before_year_bounds:
  assumes "0 \<le> y"
  shows "365 * y \<le> days_before_year y" "days_before_year y \<le> 366 * y"
proof -
  have z: "days_before_year 0 = 0" by (simp add: days_before_year_def)
  then show "365 * y \<le> days_before_year y" using days_before_year_mono [of y 0] assms by simp
  show "days_before_year y \<le> 366 * y"
    using assms
  proof (induction y rule: int_ge_induct)
    case (step y)
    then show ?case using days_before_next_year [of y] get_days_in_year_cases [of y] by auto
  qed (simp add: z)
qed

lemma u32_id: "0 \<le> x \<Longrightarrow> x < 2 ^ 32 \<Longrightarrow> u32 x = x"
  unfolding u32_def by (simp only: mod_pos_pos_trivial)

text \<open>The day of the year of a valid date.\<close>

lemma day_of_year:
  assumes "valid_date t"
  defines "y \<equiv> tm_year t + 1900" and "k \<equiv> days_before_month (tm_year t + 1900) (tm_mon t) + tm_mday t - 1"
  shows "0 \<le> k" "k < get_days_in_year y" "tm_mon t = 0 \<Longrightarrow> k = tm_mday t - 1" "tm_mon t \<noteq> 0 \<Longrightarrow> 31 \<le> k"
    "day_number y (tm_mon t) (tm_mday t) = days_before_year y + k"
proof -
  have v: "0 \<le> tm_mon t" "tm_mon t < 12" "1 \<le> tm_mday t" "tm_mday t \<le> days_in_month y (tm_mon t)"
    using assms by (simp_all add: valid_date_def)
  have m: "tm_mon t = 0 \<or> tm_mon t = 1 \<or> tm_mon t = 2 \<or> tm_mon t = 3 \<or> tm_mon t = 4 \<or> tm_mon t = 5 \<or> tm_mon t = 6
      \<or> tm_mon t = 7 \<or> tm_mon t = 8 \<or> tm_mon t = 9 \<or> tm_mon t = 10 \<or> tm_mon t = 11"
    using v(1,2) by presburger
  show "0 \<le> k" "k < get_days_in_year y" "tm_mon t = 0 \<Longrightarrow> k = tm_mday t - 1" "tm_mon t \<noteq> 0 \<Longrightarrow> 31 \<le> k"
    using m v(3,4) unfolding k_def y_def [symmetric]
    by (elim disjE; simp add: days_in_month_def days_before_month_def get_days_in_year_def split: if_splits)+
  show "day_number y (tm_mon t) (tm_mday t) = days_before_year y + k" by (simp add: day_number_def k_def y_def)
qed

lemma get_week_core:
  assumes "valid_date t"
  defines "y \<equiv> tm_year t + 1900" and "k \<equiv> days_before_month (tm_year t + 1900) (tm_mon t) + tm_mday t - 1"
  defines "r \<equiv> (days_before_year y + 5) mod 7"
  shows "get_week t MONDAY WEEK_ONE True
    = (case week_core r (get_days_in_year y) (get_days_in_year (y - 1)) k of (w, dy) \<Rightarrow> (w, y + dy))"
proof -
  have v: "1 \<le> y" "y \<le> 9999" "0 \<le> tm_mon t" "tm_mon t < 12" using assms(1) by (simp_all add: valid_date_def y_def)
  have F: "365 \<le> days_before_year y" "days_before_year y \<le> 366 * 9999"
    using days_before_year_bounds [of y] v(1,2) by simp_all
  have k: "0 \<le> k" "k < 366"
    using day_of_year(1,2) [OF assms(1)] get_days_in_year_cases [of "tm_year t + 1900"] unfolding k_def by auto
  have r: "0 \<le> r" "r < 7" unfolding r_def by (simp_all only: pos_mod_sign pos_mod_bound zero_less_numeral)
  have first_day: "get_day_num (t\<lparr>tm_mon := 0, tm_mday := 1\<rparr>) = days_before_year y"
    using get_day_num_count [of "t\<lparr>tm_mon := 0, tm_mday := 1\<rparr>"] v(1)
    by (simp add: y_def day_number_def days_before_month_def)
  have day: "get_day_num t = days_before_year y + k"
    using get_day_num_count [of t] v day_of_year(5) [OF assms(1)] unfolding y_def k_def by simp
  have weekday: "get_weekday_from_day_num (days_before_year y) MONDAY = r"
    using F unfolding get_weekday_from_day_num_def r_def by (simp add: u32_id)
  have first: "tm_mon t = 0 \<and> u32 (tm_mday t) \<le> u32 (7 - r) \<longleftrightarrow> k + 1 \<le> 7 - r"
  proof (cases "tm_mon t = 0")
    case True
    then have "tm_mday t = k + 1" using day_of_year(3) [OF assms(1)] unfolding k_def by simp
    then show ?thesis using True k r by (simp add: u32_id)
  next
    case False
    then show ?thesis using day_of_year(4) [OF assms(1)] r unfolding k_def by simp
  qed
  have year: "u32 (tm_year t + 1900) = y" "u32 (y - 1) = y - 1" "u32 (y - 1 + 1) = y" "u32 (y + 1) = y + 1"
    using v(1,2) unfolding y_def by (simp_all add: u32_id)
  have late: "starts_late True w \<longleftrightarrow> 4 \<le> w" for w by (simp add: starts_late_def)
  define len where "len = get_days_in_year y"
  define len' where "len' = get_days_in_year (y - 1)"
  have len: "len' = 365 \<or> len' = 366" unfolding len'_def by (rule get_days_in_year_cases)
  have W: "u32 (r + 53 * 7 - len') mod 7 = (r + 371 - len') mod 7" using len r by (auto simp: u32_id)
  define w' where "w' = (r + 371 - len') mod 7"
  have w': "0 \<le> w'" "w' < 7" unfolding w'_def by (simp_all only: pos_mod_sign pos_mod_bound zero_less_numeral)
  show ?thesis
  proof (cases "k + 1 \<le> 7 - r")
    case True
    define days where "days = k - (if 4 \<le> w' then - len' + (7 - w') else - len' - w')"
    have e: "(k + 1 \<le> 7 - r) = True" using True by simp
    have d: "u32 (days_before_year y + k - (if 4 \<le> w' then days_before_year y - len' + (7 - w') else days_before_year y - len' - w')) = days"
      using len k w' unfolding days_def by (auto simp: u32_id)
    show ?thesis
      by (simp only: get_week_def week_core_def Let_def first_day day weekday first e if_True simp_thms WeekRange.distinct if_False
          year late len'_def [symmetric] W w'_def [symmetric] d days_def [symmetric] split: if_split) (simp add: year)
  next
    case False
    define days where "days = k - (if 4 \<le> r then 7 - r else - r)"
    have e: "(k + 1 \<le> 7 - r) = False" using False by simp
    have d: "u32 (days_before_year y + k - (if 4 \<le> r then days_before_year y + (7 - r) else days_before_year y - r)) = days"
      using False k r unfolding days_def by (auto simp: u32_id)
    have "k - (if 4 \<le> r then 0 + (7 - r) else 0 - r) = days" by (simp add: days_def)
    then show ?thesis
      by (simp only: get_week_def week_core_def Let_def first_day day weekday first e if_True simp_thms WeekRange.distinct if_False
          year late d split: if_split) simp
  qed
qed

text \<open>
  C29: in the mode of ISO 8601 (weeks start on Monday and belong to the year that has most of their days) \<open>get_week\<close> is
  right for every date from the year 1 to the year 9999: the year it returns contains the Thursday of the week of
  the date, and the week is one more than the number of Thursdays of that year before it.
\<close>

theorem get_week_iso:
  assumes "valid_date t"
  defines "n \<equiv> day_number (tm_year t + 1900) (tm_mon t) (tm_mday t)"
  shows "case get_week t MONDAY WEEK_ONE True of (week, year) \<Rightarrow>
    let thursday = n - (n + 5) mod 7 + 3 in
    days_before_year year \<le> thursday \<and> thursday < days_before_year (year + 1)
    \<and> week = (thursday - days_before_year year) div 7 + 1"
proof -
  define y k where "y = tm_year t + 1900" and "k = days_before_month (tm_year t + 1900) (tm_mon t) + tm_mday t - 1"
  define F r where "F = days_before_year y" and "r = (days_before_year y + 5) mod 7"
  have n: "n = F + k" using day_of_year(5) [OF assms(1)] unfolding n_def F_def y_def k_def .
  have r: "0 \<le> r" "r < 7" unfolding r_def by (simp_all only: pos_mod_sign pos_mod_bound zero_less_numeral)
  have kl: "0 \<le> k" "k < get_days_in_year y" using day_of_year(1,2) [OF assms(1)] unfolding k_def y_def by simp_all
  obtain w dy where w: "week_core r (get_days_in_year y) (get_days_in_year (y - 1)) k = (w, dy)"
    by (cases "week_core r (get_days_in_year y) (get_days_in_year (y - 1)) k")
  have "(n + 5) mod 7 = (F + 5 + k) mod 7" unfolding n by (simp only: ac_simps)
  also have "\<dots> = (r + k) mod 7" unfolding r_def F_def by (simp only: mod_add_left_eq)
  finally have m: "(n + 5) mod 7 = (r + k) mod 7" .
  have years: "days_before_year (y - 1) = F - get_days_in_year (y - 1)" "days_before_year (y + 1) = F + get_days_in_year y"
    "days_before_year (y + 1 + 1) = F + get_days_in_year y + get_days_in_year (y + 1)"
    using days_before_next_year [of "y - 1"] days_before_next_year [of y] days_before_next_year [of "y + 1"]
    unfolding F_def by simp_all
  have "week_spec r (get_days_in_year y) (get_days_in_year (y - 1)) k (w, dy)"
    using week_core_correct [OF r get_days_in_year_cases get_days_in_year_cases [of "y - 1"] kl] unfolding w .
  moreover have g: "get_week t MONDAY WEEK_ONE True = (w, y + dy)"
    using get_week_core [OF assms(1)] w unfolding y_def k_def r_def by simp
  moreover have "365 \<le> get_days_in_year (y + 1)" using get_days_in_year_cases [of "y + 1"] by auto
  moreover define th where "th = k - (r + k) mod 7 + 3"
  moreover have "n - (n + 5) mod 7 + 3 = F + th" unfolding m th_def by (simp add: n)
  ultimately show ?thesis
    unfolding week_spec_def Let_def th_def [symmetric] using years
    by (auto simp: F_def [symmetric] algebra_simps)
qed

definition date_of :: "int \<Rightarrow> int \<Rightarrow> int \<Rightarrow> tm" where
  "date_of y m d = \<lparr>tm_sec = 0, tm_min = 0, tm_hour = 0, tm_mday = d, tm_mon = m - 1, tm_year = y - 1900, tm_isdst = 0, tm_gmtoff = 0\<rparr>"

text \<open>Sunday, January 3, 2021 is in week 53 of 2020.\<close>

theorem get_week_iso_witness:
  "get_week (date_of 2021 1 3) MONDAY WEEK_ONE True = (53, 2020)
   \<and> (let n = day_number 2021 0 3; thursday = n - (n + 5) mod 7 + 3 in
      days_before_year 2020 \<le> thursday \<and> thursday < days_before_year 2021 \<and> 53 = (thursday - days_before_year 2020) div 7 + 1)"
proof -
  have w: "get_week (date_of 2021 1 3) MONDAY WEEK_ONE True = (53, 2020)" by code_simp
  have "valid_date (date_of 2021 1 3)" by code_simp
  from get_week_iso [OF this] show ?thesis unfolding w by (simp add: date_of_def Let_def)
qed

end
