(* ===== verification/Date_Arith_Laws.thy ===== *)
theory Date_Arith_Laws
  imports Date_Arith Date_Laws Calendar_Laws
begin

text \<open>
  Arithmetic on date and time values against a specification over instants, numbers of microseconds since 1970: the
  routines work on six broken-down fields with a microsecond carry and a time zone that is put in and taken out again.
\<close>

section \<open>Encoded instants\<close>

text \<open>The internal format of an instant.\<close>

definition encode_value :: "int \<Rightarrow> int \<Rightarrow> int" where
  "encode_value s m = (if s < 0 then s * 1000000 - m else s * 1000000 + m)"

definition instant_value :: "int \<Rightarrow> int" where
  "instant_value u = encode_value (u div 1000000) (u mod 1000000)"

text \<open>Instants from the year 0 to the year 9999 have a value, others give an error.\<close>

definition checked_value :: "int \<Rightarrow> int" where
  "checked_value u =
     (if - 62167219200 * 1000000 \<le> u \<and> u < 253402300800 * 1000000 then instant_value u else DATE_TIME_ERROR_RETURN)"

lemma s64_small: "- (2 ^ 63) \<le> x \<Longrightarrow> x < 2 ^ 63 \<Longrightarrow> s64 x = x"
  by (simp add: s64_def mod_pos_pos_trivial)

lemma s32_small: "- (2 ^ 31) \<le> x \<Longrightarrow> x < 2 ^ 31 \<Longrightarrow> s32 x = x"
  by (simp add: s32_def mod_pos_pos_trivial)

lemma add_micro_value:
  assumes "0 \<le> m" "m < 1000000" "- 9000000000000 \<le> s" "s \<le> 9000000000000"
  shows "add_micro s m = Some (encode_value s m)"
proof -
  have "s64 (encode_value s m) = encode_value s m" using assms by (intro s64_small) (auto simp: encode_value_def)
  then show ?thesis by (simp add: add_micro_def ADD_MICRO_SECONDS_value [OF assms(1,2)] encode_value_def)
qed

lemma remove_micro_value:
  assumes "0 \<le> m" "m < 1000000"
  shows "REMOVE_MICRO_SECONDS (encode_value s m) = (s, m)"
  using cdiv_micro [OF assms, of s] assms
  by (cases "s < 0") (simp_all add: REMOVE_MICRO_SECONDS_value encode_value_def cmod_def)

lemma micro_range: "0 \<le> (u :: int) mod 1000000" "(u :: int) mod 1000000 < 1000000"
  by (rule pos_mod_sign pos_mod_bound, simp)+

lemma remove_micro_instant: "REMOVE_MICRO_SECONDS (instant_value u) = (u div 1000000, u mod 1000000)"
  unfolding instant_value_def by (rule remove_micro_value [OF micro_range])

lemma instant_split: "0 \<le> m \<Longrightarrow> m < 1000000 \<Longrightarrow> (s * 1000000 + m) div 1000000 = s"
  "0 \<le> m \<Longrightarrow> m < 1000000 \<Longrightarrow> (s * 1000000 + m) mod 1000000 = (m :: int)"
  by (simp_all add: div_pos_pos_trivial mod_pos_pos_trivial)

lemma encode_instant: "0 \<le> m \<Longrightarrow> m < 1000000 \<Longrightarrow> encode_value s m = instant_value (s * 1000000 + m)"
  unfolding instant_value_def by (simp only: instant_split)

lemma validate_encoded:
  assumes "0 \<le> m" "m < 1000000"
  shows "validate_result (encode_value s m) = checked_value (s * 1000000 + m)"
proof -
  have "MAX_DATE_TIME_INTERNAL_FORMAT_VALUE < encode_value s m \<or> encode_value s m < MIN_DATE_TIME_INTERNAL_FORMAT_VALUE
      \<longleftrightarrow> \<not> (- 62167219200 * 1000000 \<le> s * 1000000 + m \<and> s * 1000000 + m < 253402300800 * 1000000)"
  proof -
    have "s \<le> - 62167219201 \<or> - 62167219200 \<le> s" "s \<le> 253402300799 \<or> 253402300800 \<le> s" by linarith+
    then show ?thesis
      using assms
      by (elim disjE)
        (auto simp: encode_value_def MAX_DATE_TIME_INTERNAL_FORMAT_VALUE_def MIN_DATE_TIME_INTERNAL_FORMAT_VALUE_def)
  qed
  then show ?thesis by (simp add: validate_result_def checked_value_def encode_instant [OF assms])
qed

lemma add_micro_checked:
  assumes "0 \<le> m" "m < 1000000" "- 9000000000000 \<le> s" "s \<le> 9000000000000"
  shows "map_option validate_result (add_micro s m) = Some (checked_value (s * 1000000 + m))"
  by (simp add: add_micro_value [OF assms] validate_encoded [OF assms(1,2)])

section \<open>Fields and time zones\<close>

lemma utc_mktime_flags: "utc_mktime (t\<lparr>tm_isdst := x, tm_gmtoff := y\<rparr>) = utc_mktime t"
  by (simp add: utc_mktime_def)

lemma utc_mktime_localtime: "utc_mktime (localtime zone t) = t + offset_at zone t"
  unfolding localtime_def utc_mktime_flags by (rule utc_mktime_gmtime)

lemma utc_mktime_broken_down:
  "utc_mktime (broken_down zone ty v) = v + (if is_zone_type ty then offset_at zone v else 0)"
  by (simp add: broken_down_def utc_mktime_localtime utc_mktime_gmtime)

lemma gmtoff_broken_down: "is_zone_type ty \<Longrightarrow> tm_gmtoff (broken_down zone ty v) = offset_at zone v"
  by (simp add: broken_down_def localtime_def)

text \<open>Adding a time of day to the fields and taking the zone out again moves the instant by that time of day.\<close>

lemma utc_mktime_shift:
  assumes "\<not> is_zone_type ty2"
  shows "utc_mktime ((broken_down zone ty s)\<lparr>
      tm_hour := tm_hour (broken_down zone ty s) + e * h, tm_min := tm_min (broken_down zone ty s) + e * m,
      tm_sec := tm_sec (broken_down zone ty s) + e * x + c + zone_seconds ty (broken_down zone ty s) ty2 tm2\<rparr>)
    = s + e * (h * 3600 + m * 60 + x) + c"
  using assms gmtoff_broken_down [of ty zone s]
  by (simp add: utc_mktime_update(2) utc_mktime_broken_down zone_seconds_def algebra_simps)

lemma mday_gmtime: "\<bar>tm_mday (gmtime t)\<bar> \<le> 400"
proof -
  let ?n = "t div 86400 + epoch_day"
  let ?y = "civil_year ?n"
  define yday where "yday = ?n - days_before_year ?y"
  define m where "m = civil_month ?y yday"
  have yday: "0 \<le> yday" "yday \<le> 365"
    using civil_year_bounds [of ?n] days_before_next_year [of ?y] get_days_in_year_cases [of ?y]
    unfolding yday_def by auto
  have "m = 0 \<or> m = 1 \<or> m = 2 \<or> m = 3 \<or> m = 4 \<or> m = 5 \<or> m = 6 \<or> m = 7 \<or> m = 8 \<or> m = 9 \<or> m = 10 \<or> m = 11"
    using civil_month_range [of ?y yday] unfolding m_def by presburger
  then have "0 \<le> days_before_month ?y m" "days_before_month ?y m \<le> 335"
    by (elim disjE; simp add: days_before_month_def)+
  moreover have "tm_mday (gmtime t) = yday - days_before_month ?y m + 1"
    unfolding gmtime_def Let_def m_def yday_def by simp
  ultimately show ?thesis using yday by simp
qed

section \<open>Adding and subtracting a time\<close>

lemma time_of_day_split: "(w :: int) mod 86400000000 = w div 1000000 mod 86400 * 1000000 + w mod 1000000"
  using mod_mult2_eq' [of w 1000000 86400] by simp

lemma day_range: "0 \<le> (t :: int) mod 86400" "(t :: int) mod 86400 < 86400"
  by (rule pos_mod_sign pos_mod_bound, simp)+

lemma broken_down_utc: "\<not> is_zone_type ty \<Longrightarrow> broken_down zone ty v = gmtime v"
  by (simp add: broken_down_def)

lemma not_zone_time [simp]: "\<not> is_zone_type TIME_LITERAL"
  by (simp add: is_zone_type_def)

lemma add_encoded:
  assumes "0 \<le> m" "m < 1000000" "0 \<le> k" "k < 1000000" "\<bar>s\<bar> \<le> 1000000000000"
  shows "ydboctoAddDateTimeC zone (encode_value s m) ty (encode_value t k) TIME_LITERAL
    = Some (checked_value (s * 1000000 + m + (t mod 86400 * 1000000 + k)))"
proof -
  define c where "c = (if 1000000 \<le> m + k then 1 else 0 :: int)"
  let ?tm1 = "broken_down zone ty s" and ?tm2 = "gmtime t"
  let ?tm = "?tm1\<lparr>tm_hour := tm_hour ?tm1 + 1 * tm_hour ?tm2, tm_min := tm_min ?tm1 + 1 * tm_min ?tm2,
    tm_sec := tm_sec ?tm1 + 1 * tm_sec ?tm2 + c + zone_seconds ty ?tm1 TIME_LITERAL ?tm2\<rparr>"
  define x where "x = t mod 86400"
  have "utc_mktime ?tm = s + 1 * (tm_hour ?tm2 * 3600 + tm_min ?tm2 * 60 + tm_sec ?tm2) + c"
    by (rule utc_mktime_shift) simp
  then have r: "utc_mktime ?tm = s + x + c" unfolding gmtime_of_day x_def by (simp only: mult_1)
  have x: "0 \<le> x" "x < 86400" unfolding x_def by (rule day_range)+
  have "ydboctoAddDateTimeC zone (encode_value s m) ty (encode_value t k) TIME_LITERAL
      = map_option validate_result (add_micro (utc_mktime ?tm) (m + k - c * 1000000))"
    unfolding ydboctoAddDateTimeC_def remove_micro_value [OF assms(1,2)] remove_micro_value [OF assms(3,4)]
    by (simp add: broken_down_utc c_def Let_def)
  also have "\<dots> = Some (checked_value ((s + x + c) * 1000000 + (m + k - c * 1000000)))"
    unfolding r using assms x by (intro add_micro_checked) (auto simp: c_def)
  finally show ?thesis unfolding x_def [symmetric] by (simp add: algebra_simps)
qed

lemma sub_encoded:
  assumes "0 \<le> m" "m < 1000000" "0 \<le> k" "k < 1000000"
  shows "ydboctoSubDateTimeC zone (encode_value s m) ty (encode_value t k) TIME_LITERAL
    = map_option validate_result (add_micro (s - t mod 86400) (m - k))"
proof -
  let ?tm1 = "broken_down zone ty s" and ?tm2 = "gmtime t"
  let ?tm = "?tm1\<lparr>tm_hour := tm_hour ?tm1 + (- 1) * tm_hour ?tm2, tm_min := tm_min ?tm1 + (- 1) * tm_min ?tm2,
    tm_sec := tm_sec ?tm1 + (- 1) * tm_sec ?tm2 + 0 + zone_seconds ty ?tm1 TIME_LITERAL ?tm2\<rparr>"
  have "utc_mktime ?tm = s + (- 1) * (tm_hour ?tm2 * 3600 + tm_min ?tm2 * 60 + tm_sec ?tm2) + 0"
    by (rule utc_mktime_shift) simp
  then have r: "utc_mktime ?tm = s - t mod 86400" unfolding gmtime_of_day by simp
  have "ydboctoSubDateTimeC zone (encode_value s m) ty (encode_value t k) TIME_LITERAL
      = map_option validate_result (add_micro (utc_mktime ?tm) (m - k))"
    unfolding ydboctoSubDateTimeC_def remove_micro_value [OF assms(1,2)] remove_micro_value [OF assms(3,4)]
    using assms by (simp add: broken_down_utc Let_def)
  then show ?thesis unfolding r .
qed

lemma micro_digits_minus:
  "micro_digits (- m) i (map uminus ds) = map_option (map uminus) (micro_digits m i ds)"
proof (induction m i ds rule: micro_digits.induct)
  case (1 m i ds)
  have c: "cdiv (- m) 10 = - cdiv m 10" "cmod (- m) 10 = - cmod m 10" by (simp_all add: cdiv_def cmod_def)
  show ?case
    by (subst (1 2) micro_digits.simps) (use 1 in \<open>auto simp: c map_update\<close>)
qed

lemma place_value_minus: "place_value (map uminus ds) = - place_value ds"
  by (induction ds) simp_all

text \<open>Negative microseconds: the digits are negative, and what is added is subtracted.\<close>

lemma ADD_MICRO_SECONDS_negative:
  assumes "0 < m" "m < 1000000"
  shows "ADD_MICRO_SECONDS v (- m) = Some (if v < 0 then v * 1000000 + m else v * 1000000 - m)"
proof -
  have "\<forall>j \<le> 5. [0, 0, 0, 0, 0, 0 :: int] ! j = 0" by (auto simp: nth_Cons split: nat.split)
  then obtain ds where "micro_digits m (int 5) [0, 0, 0, 0, 0, 0] = Some ds" "length ds = 6" "place_value ds = m"
    using micro_digits_value [of m 5 "[0, 0, 0, 0, 0, 0]"] assms by auto
  then show ?thesis
    using micro_digits_minus [of m 5 "[0, 0, 0, 0, 0, 0]"]
    by (cases "v < 0") (simp_all add: ADD_MICRO_SECONDS_def foldl_place_value foldl_place_value_minus place_value_minus)
qed

text \<open>
  C24: adding a time to a date, a timestamp, a timestamp with time zone or a time with time zone gives the instant
  later by the time of day, to the microsecond and in every time zone, or the error value when the result is not
  between the years 0 and 9999.
\<close>

theorem add_time_exact:
  assumes "\<bar>u\<bar> \<le> 1000000000000000000"
  shows "ydboctoAddDateTimeC zone (instant_value u) ty (instant_value w) TIME_LITERAL
    = Some (checked_value (u + w mod 86400000000))"
proof -
  define s where "s = u div 1000000"
  have u: "s * 1000000 + u mod 1000000 = u" unfolding s_def by (rule div_mult_mod_eq)
  have "\<bar>s\<bar> \<le> 1000000000000" using assms u micro_range [of u] by linarith
  from add_encoded [OF micro_range [of u] micro_range [of w] this, where zone = zone and ty = ty and t = "w div 1000000"]
  show ?thesis
    unfolding instant_value_def s_def [symmetric] by (simp only: u time_of_day_split [symmetric])
qed

theorem add_time_exact_witness:
  "ydboctoAddDateTimeC \<lparr>offset_at = (\<lambda>_. 19800), dst_at = (\<lambda>_. False)\<rparr> (instant_value 1700000000900000)
     TIMESTAMP_WITH_TIME_ZONE_LITERAL (instant_value (- 2209075199800000)) TIME_LITERAL
   = Some (checked_value (1700000000900000 + (- 2209075199800000) mod 86400000000))
   \<and> checked_value (1700000000900000 + (- 2209075199800000) mod 86400000000) = 1700000001100000"
proof
  show "checked_value (1700000000900000 + (- 2209075199800000) mod 86400000000) = 1700000001100000" by code_simp
qed (rule add_time_exact, simp)

text \<open>
  subtracting a time gives the instant earlier by the time of day when the microseconds need no borrow, and also
  with a borrow when the result is a second or more after 1970.
\<close>

theorem subtract_time_exact:
  assumes "\<bar>u\<bar> \<le> 1000000000000000000"
    and "w mod 1000000 \<le> u mod 1000000 \<or> 1000000 \<le> u - w mod 86400000000"
  shows "ydboctoSubDateTimeC zone (instant_value u) ty (instant_value w) TIME_LITERAL
    = Some (checked_value (u - w mod 86400000000))"
proof -
  define s m where "s = u div 1000000" and "m = u mod 1000000"
  define x k where "x = w div 1000000 mod 86400" and "k = w mod 1000000"
  have u: "s * 1000000 + m = u" unfolding s_def m_def by (rule div_mult_mod_eq)
  have w: "w mod 86400000000 = x * 1000000 + k" unfolding x_def k_def by (rule time_of_day_split)
  have m: "0 \<le> m" "m < 1000000" and k: "0 \<le> k" "k < 1000000" unfolding m_def k_def by (rule micro_range)+
  have x: "0 \<le> x" "x < 86400" unfolding x_def by (rule day_range)+
  have s: "\<bar>s\<bar> \<le> 1000000000000" using assms(1) u m by linarith
  have "ydboctoSubDateTimeC zone (instant_value u) ty (instant_value w) TIME_LITERAL
      = map_option validate_result (add_micro (s - x) (m - k))"
    unfolding instant_value_def s_def [symmetric] m_def [symmetric] k_def [symmetric] x_def
    by (rule sub_encoded [OF m k])
  also have "\<dots> = Some (checked_value ((s - x) * 1000000 + (m - k)))"
  proof (cases "k \<le> m")
    case True
    then show ?thesis using m k s x by (intro add_micro_checked) auto
  next
    case False
    then have p: "1 \<le> s - x" using assms(2) u w m k unfolding m_def [symmetric] k_def [symmetric] by linarith
    have e: "(s - x - 1) * 1000000 + (1000000 + m - k) = (s - x) * 1000000 + (m - k)" by simp
    have "ADD_MICRO_SECONDS (s - x) (m - k) = Some (encode_value (s - x - 1) (1000000 + m - k))"
      using ADD_MICRO_SECONDS_negative [of "k - m" "s - x"] False m k p by (simp add: encode_value_def algebra_simps)
    moreover have "s64 (encode_value (s - x - 1) (1000000 + m - k)) = encode_value (s - x - 1) (1000000 + m - k)"
      using False m k s x p by (intro s64_small) (auto simp: encode_value_def)
    ultimately have "add_micro (s - x) (m - k) = Some (encode_value (s - x - 1) (1000000 + m - k))"
      by (simp only: add_micro_def option.map)
    moreover have "add_micro (s - x - 1) (1000000 + m - k) = Some (encode_value (s - x - 1) (1000000 + m - k))"
      using False m k s x by (intro add_micro_value) auto
    ultimately have "add_micro (s - x) (m - k) = add_micro (s - x - 1) (1000000 + m - k)" by (simp only:)
    then show ?thesis
      using False m k s x by (simp only: e [symmetric]) (intro add_micro_checked, auto)
  qed
  finally show ?thesis unfolding w u [symmetric] by (simp add: algebra_simps)
qed

theorem subtract_time_exact_witness:
  "ydboctoSubDateTimeC \<lparr>offset_at = (\<lambda>_. 19800), dst_at = (\<lambda>_. False)\<rparr> (instant_value 1700000000100000)
     TIMESTAMP_LITERAL (instant_value (- 2209075199800000)) TIME_LITERAL
   = Some (checked_value (1700000000100000 - (- 2209075199800000) mod 86400000000))
   \<and> checked_value (1700000000100000 - (- 2209075199800000) mod 86400000000) = 1699999999900000"
proof
  show "checked_value (1700000000100000 - (- 2209075199800000) mod 86400000000) = 1699999999900000" by code_simp
  show "ydboctoSubDateTimeC \<lparr>offset_at = (\<lambda>_. 19800), dst_at = (\<lambda>_. False)\<rparr> (instant_value 1700000000100000)
     TIMESTAMP_LITERAL (instant_value (- 2209075199800000)) TIME_LITERAL
   = Some (checked_value (1700000000100000 - (- 2209075199800000) mod 86400000000))"
    by (rule subtract_time_exact) (simp, code_simp)
qed

text \<open>
  where the result is before 1970 and the microseconds need a borrow, the difference is two seconds late: the
  borrow is never taken, because its condition compares with a whole second, and the negative digits are
  subtracted from a negative number.
\<close>

theorem subtract_time_before_epoch:
  assumes "- 62135596800000000 \<le> u" "u - w mod 86400000000 < - 2000000" "u mod 1000000 < w mod 1000000"
  shows "ydboctoSubDateTimeC zone (instant_value u) ty (instant_value w) TIME_LITERAL
    = Some (instant_value (u - w mod 86400000000 + 2 * 1000000))"
proof -
  define s m where "s = u div 1000000" and "m = u mod 1000000"
  define x k where "x = w div 1000000 mod 86400" and "k = w mod 1000000"
  have u: "s * 1000000 + m = u" unfolding s_def m_def by (rule div_mult_mod_eq)
  have w: "w mod 86400000000 = x * 1000000 + k" unfolding x_def k_def by (rule time_of_day_split)
  have m: "0 \<le> m" "m < 1000000" and k: "0 \<le> k" "k < 1000000" unfolding m_def k_def by (rule micro_range)+
  have x: "0 \<le> x" "x < 86400" unfolding x_def by (rule day_range)+
  have mk: "m < k" using assms(3) unfolding m_def k_def .
  have p: "s - x + 1 < 0" using assms(2) u w m k mk by linarith
  have b: "- 62135596800 \<le> s" using assms(1) u m by linarith
  let ?v = "(s - x) * 1000000 + (k - m)"
  have "ADD_MICRO_SECONDS (s - x) (m - k) = Some ?v"
    using ADD_MICRO_SECONDS_negative [of "k - m" "s - x"] mk m k p by simp
  moreover have "s64 ?v = ?v" using m k b x p mk by (intro s64_small) auto
  moreover have "validate_result ?v = ?v"
    using m k b x p mk
    by (simp add: validate_result_def MAX_DATE_TIME_INTERNAL_FORMAT_VALUE_def MIN_DATE_TIME_INTERNAL_FORMAT_VALUE_def)
  moreover have "ydboctoSubDateTimeC zone (instant_value u) ty (instant_value w) TIME_LITERAL
      = map_option validate_result (add_micro (s - x) (m - k))"
    unfolding instant_value_def s_def [symmetric] m_def [symmetric] k_def [symmetric] x_def
    by (rule sub_encoded [OF m k])
  moreover have "instant_value ((s - x + 1) * 1000000 + (1000000 + m - k)) = ?v"
    using encode_instant [of "1000000 + m - k" "s - x + 1"] mk m k p by (auto simp: encode_value_def)
  moreover have "(s - x + 1) * 1000000 + (1000000 + m - k) = u - w mod 86400000000 + 2 * 1000000"
    unfolding w u [symmetric] by simp
  ultimately show ?thesis by (simp only: add_micro_def option.map)
qed

theorem subtract_time_before_epoch_witness:
  "ydboctoSubDateTimeC \<lparr>offset_at = (\<lambda>_. 0), dst_at = (\<lambda>_. False)\<rparr> (instant_value (- 86400000000))
     TIMESTAMP_LITERAL (instant_value (- 2209075199800000)) TIME_LITERAL
   = Some (instant_value (- 86400000000 - (- 2209075199800000) mod 86400000000 + 2 * 1000000))"
  by (rule subtract_time_before_epoch) (simp, code_simp, code_simp)

section \<open>Days\<close>

definition date_value :: "int \<Rightarrow> int" where
  "date_value d = d * 86400000000"

definition is_date :: "int \<Rightarrow> bool" where
  "is_date d \<longleftrightarrow> - 719528 \<le> d \<and> d \<le> 2932896"

lemma date_value_encoded: "date_value d = encode_value (d * 86400) 0"
  by (simp add: date_value_def encode_value_def)

lemma remove_micro_date: "REMOVE_MICRO_SECONDS (date_value d) = (d * 86400, 0)"
  unfolding date_value_encoded by (rule remove_micro_value) simp_all

lemma checked_date:
  "checked_value (d * 86400 * 1000000 + 0) = (if is_date d then date_value d else DATE_TIME_ERROR_RETURN)"
proof -
  have "instant_value (d * 86400 * 1000000 + 0) = date_value d"
    using encode_instant [of 0 "d * 86400"] by (simp add: date_value_def encode_value_def split: if_splits)
  moreover have "- 62167219200 * 1000000 \<le> d * 86400 * 1000000 + 0 \<and> d * 86400 * 1000000 + 0 < 253402300800 * 1000000 \<longleftrightarrow> is_date d"
    by (auto simp: is_date_def)
  ultimately show ?thesis by (simp only: checked_value_def)
qed

lemma move_days_date:
  assumes "is_date d" "\<bar>n\<bar> \<le> 100000000" "sign = 1 \<or> sign = - 1"
  shows "move_days (gmtime (d * 86400)) sign n 0
    = Some (if is_date (d + sign * n) then date_value (d + sign * n) else DATE_TIME_ERROR_RETURN)"
proof -
  let ?t = "gmtime (d * 86400)" and ?d = "d + sign * n"
  have b: "\<bar>?d\<bar> \<le> 103000000" using assms by (auto simp: is_date_def)
  have "s32 (tm_mday ?t + sign * n) = tm_mday ?t + sign * n"
    using mday_gmtime [of "d * 86400"] assms(2,3) by (intro s32_small) auto
  then have "utc_mktime (?t\<lparr>tm_mday := s32 (tm_mday ?t + sign * n)\<rparr>) = ?d * 86400"
    by (simp add: utc_mktime_update(1) utc_mktime_gmtime distrib_right)
  then have "move_days ?t sign n 0 = map_option validate_result (add_micro (?d * 86400) 0)"
    using assms(2) by (auto simp: move_days_def INT_MAX_def INT_MIN_def)
  also have "\<dots> = Some (checked_value (?d * 86400 * 1000000 + 0))"
    using b by (intro add_micro_checked) auto
  also have "checked_value (?d * 86400 * 1000000 + 0) = (if is_date ?d then date_value ?d else DATE_TIME_ERROR_RETURN)"
    by (rule checked_date)
  finally show ?thesis .
qed

lemma gmtime_utc: "broken_down zone DATE_LITERAL v = gmtime v"
  by (simp add: broken_down_def is_zone_type_def)

lemma cdiv_days: "cdiv (cdiv (cdiv (n * 86400) 60) 60) 24 = n"
proof -
  have "cdiv (a * b) b = a" if "0 < b" for a b :: int
    using that by (simp add: cdiv_def abs_mult sgn_mult sgn_mult_abs)
  moreover have "n * 86400 = n * 1440 * 60" "n * 1440 = n * 24 * 60" by simp_all
  ultimately show ?thesis by (metis zero_less_numeral)
qed



text \<open>
  with more days the microseconds no longer fit 64 bits before the range is checked: January 1, 1970 plus 213503982
  days, over 580000 years later, is not the error value but a value before 1970.
\<close>

theorem date_plus_days_wraps:
  "ydboctoAddDateTimeC zone (date_value 0) DATE_LITERAL 213503982 INTEGER_LITERAL = Some (- 28909551616)
   \<and> validate_result (date_value 213503982) = DATE_TIME_ERROR_RETURN"
proof
  have t: "utc_mktime ((gmtime 0)\<lparr>tm_mday := s32 (tm_mday (gmtime 0) + 1 * 213503982)\<rparr>) = 213503982 * 86400"
    by code_simp
  have a: "add_micro (213503982 * 86400) 0 = Some (- 28909551616)" by code_simp
  have "ydboctoAddDateTimeC zone (date_value 0) DATE_LITERAL 213503982 INTEGER_LITERAL = move_days (gmtime 0) 1 213503982 0"
    using remove_micro_date [of 0] by (simp add: ydboctoAddDateTimeC_def gmtime_utc)
  also have "\<dots> = Some (- 28909551616)"
    unfolding move_days_def t a
    by (simp add: INT_MAX_def INT_MIN_def validate_result_def
        MAX_DATE_TIME_INTERNAL_FORMAT_VALUE_def MIN_DATE_TIME_INTERNAL_FORMAT_VALUE_def)
  finally show "ydboctoAddDateTimeC zone (date_value 0) DATE_LITERAL 213503982 INTEGER_LITERAL = Some (- 28909551616)" .
  show "validate_result (date_value 213503982) = DATE_TIME_ERROR_RETURN"
    by (simp add: validate_result_def date_value_def MAX_DATE_TIME_INTERNAL_FORMAT_VALUE_def)
qed

section \<open>Casts\<close>

lemma utc_mktime_without_time:
  "utc_mktime (without_time t)
     = utc_mktime t - (tm_hour t * 3600 + tm_min t * 60 + tm_sec t)"
  by (simp add: utc_mktime_def without_time_def)

lemma utc_mktime_without_date:
  "utc_mktime (without_date t) = - 2209075200 + (tm_hour t * 3600 + tm_min t * 60 + tm_sec t)"
  by (simp add: utc_mktime_def without_date_def day_number_def days_before_year_def days_before_month_def epoch_day_def)

lemma time_of_day_localtime:
  "tm_hour (localtime zone t) * 3600 + tm_min (localtime zone t) * 60 + tm_sec (localtime zone t)
     = (t + offset_at zone t) mod 86400"
  unfolding localtime_def using gmtime_of_day [of "t + offset_at zone t"] by simp

lemma seconds_bound: "\<bar>u\<bar> \<le> 1000000000000000000 \<Longrightarrow> \<bar>u div 1000000\<bar> \<le> (1000000000000 :: int)"
  using div_mult_mod_eq [of u 1000000] micro_range [of u] by linarith

lemma day_of_instant: "(u :: int) div 86400000000 = u div 1000000 div 86400"
  using zdiv_zmult2_eq [of 86400 u 1000000] by simp

lemma add_micro_instant:
  assumes "0 \<le> m" "m < 1000000" "- 9000000000000 \<le> s" "s \<le> 9000000000000"
  shows "add_micro s m = Some (instant_value (s * 1000000 + m))"
  by (simp only: add_micro_value [OF assms] encode_instant [OF assms(1,2)])

lemma cast_timestamp_to_date:
  assumes "\<bar>u\<bar> \<le> 1000000000000000000"
  shows "ydboctoDateTimeCastC zone mktime (instant_value u) TIMESTAMP_LITERAL DATE_TYPE = Some (date_value (u div 86400000000))"
proof -
  define s d x where "s = u div 1000000" and "d = s div 86400" and "x = s mod 86400"
  have s: "\<bar>s\<bar> \<le> 1000000000000" unfolding s_def by (rule seconds_bound [OF assms])
  have dx: "d * 86400 + x = s" unfolding d_def x_def by (rule div_mult_mod_eq)
  have x: "0 \<le> x" "x < 86400" unfolding x_def by (rule day_range)+
  have "utc_mktime (without_time (gmtime s)) = d * 86400"
    unfolding utc_mktime_without_time utc_mktime_gmtime gmtime_of_day x_def [symmetric] using dx by simp
  then have "ydboctoDateTimeCastC zone mktime (instant_value u) TIMESTAMP_LITERAL DATE_TYPE = add_micro (d * 86400) 0"
    by (simp add: ydboctoDateTimeCastC_def remove_micro_instant s_def [symmetric])
  also have "\<dots> = Some (date_value d)"
    unfolding date_value_encoded using s x dx by (intro add_micro_value) auto
  finally show ?thesis unfolding day_of_instant d_def s_def .
qed

lemma cast_timestamp_to_time:
  "ydboctoDateTimeCastC zone mktime (instant_value u) TIMESTAMP_LITERAL TIME_TYPE
     = Some (instant_value (- 2209075200000000 + u mod 86400000000))"
proof -
  define s m x where "s = u div 1000000" and "m = u mod 1000000" and "x = s mod 86400"
  have x: "0 \<le> x" "x < 86400" unfolding x_def by (rule day_range)+
  have m: "0 \<le> m" "m < 1000000" unfolding m_def by (rule micro_range)+
  have "utc_mktime (without_date (gmtime s)) = - 2209075200 + x"
    unfolding utc_mktime_without_date gmtime_of_day x_def ..
  then have "ydboctoDateTimeCastC zone mktime (instant_value u) TIMESTAMP_LITERAL TIME_TYPE
      = add_micro (- 2209075200 + x) m"
    by (simp add: ydboctoDateTimeCastC_def remove_micro_instant s_def [symmetric] m_def [symmetric])
  also have "\<dots> = Some (instant_value ((- 2209075200 + x) * 1000000 + m))"
    using x m by (intro add_micro_instant) auto
  also have "(- 2209075200 + x) * 1000000 + m = - 2209075200000000 + u mod 86400000000"
    unfolding time_of_day_split x_def m_def s_def by simp
  finally show ?thesis .
qed

lemma add_time_to_date:
  assumes "\<bar>d\<bar> \<le> 10000000"
  shows "ydboctoAddDateTimeC zone (date_value d) DATE_LITERAL (instant_value w) TIME_LITERAL
    = Some (checked_value (d * 86400000000 + w mod 86400000000))"
proof -
  have "\<bar>d * 86400\<bar> \<le> 1000000000000" using assms by simp
  from add_encoded [OF _ _ micro_range [of w] this, where m = 0 and zone = zone and ty = DATE_LITERAL and t = "w div 1000000"]
  show ?thesis by (simp add: date_value_encoded instant_value_def time_of_day_split mult.assoc)
qed

text \<open>
  a timestamp between the years 0 and 9999 is put together again from its parts: cast to a date and to a time,
  which lies on December 31, 1899, and added, they give the timestamp to the microsecond.
\<close>

theorem timestamp_from_date_and_time:
  assumes "- 62167219200000000 \<le> u" "u < 253402300800000000"
  shows "Option.bind (ydboctoDateTimeCastC zone mktime (instant_value u) TIMESTAMP_LITERAL DATE_TYPE) (\<lambda>d.
      Option.bind (ydboctoDateTimeCastC zone mktime (instant_value u) TIMESTAMP_LITERAL TIME_TYPE) (\<lambda>t.
        ydboctoAddDateTimeC zone d DATE_LITERAL t TIME_LITERAL)) = Some (instant_value u)"
proof -
  have u: "\<bar>u\<bar> \<le> 1000000000000000000" using assms by simp
  define d where "d = u div 86400000000"
  have du: "d * 86400000000 + u mod 86400000000 = u" unfolding d_def by (rule div_mult_mod_eq)
  have r: "0 \<le> u mod 86400000000" "u mod 86400000000 < 86400000000" by simp_all
  have d: "\<bar>d\<bar> \<le> 10000000" using assms du r by linarith
  have m: "(- 2209075200000000 + u mod 86400000000) mod 86400000000 = u mod 86400000000"
    using mod_mult_self2 [of "u mod 86400000000" 86400000000 "- 25568"] by simp
  have "checked_value u = instant_value u" using assms by (simp add: checked_value_def)
  then show ?thesis
    unfolding cast_timestamp_to_date [OF u] cast_timestamp_to_time d_def [symmetric] bind.simps add_time_to_date [OF d] m du
    by (rule arg_cong)
qed

theorem timestamp_from_date_and_time_witness:
  "Option.bind (ydboctoDateTimeCastC \<lparr>offset_at = (\<lambda>_. 19800), dst_at = (\<lambda>_. False)\<rparr> utc_mktime (instant_value (- 1234567891234)) TIMESTAMP_LITERAL DATE_TYPE) (\<lambda>d.
     Option.bind (ydboctoDateTimeCastC \<lparr>offset_at = (\<lambda>_. 19800), dst_at = (\<lambda>_. False)\<rparr> utc_mktime (instant_value (- 1234567891234)) TIMESTAMP_LITERAL TIME_TYPE) (\<lambda>t.
       ydboctoAddDateTimeC \<lparr>offset_at = (\<lambda>_. 19800), dst_at = (\<lambda>_. False)\<rparr> d DATE_LITERAL t TIME_LITERAL)) = Some (instant_value (- 1234567891234))"
  by (rule timestamp_from_date_and_time) simp_all

text \<open>
  \<open>mktime\<close> presumes the daylight saving time that \<open>tm_isdst\<close> tells: in a zone with a standard offset the fields are
  taken in that offset, one hour more when the flag is set.
\<close>

definition presumes_dst :: "zone \<Rightarrow> int \<Rightarrow> (tm \<Rightarrow> int) \<Rightarrow> bool" where
  "presumes_dst zone std mktime \<longleftrightarrow>
     (\<forall>t. offset_at zone t = std + (if dst_at zone t then 3600 else 0))
     \<and> (\<forall>t. mktime t = utc_mktime t - std - (if tm_isdst t = 1 then 3600 else 0))"

lemma isdst_gmtime: "tm_isdst (gmtime t) = 0" "tm_isdst (without_time t') = tm_isdst t'"
  by (simp_all add: gmtime_def without_time_def Let_def)

text \<open>
  a timestamp cast to a timestamp with time zone and back is the same only where daylight saving time is not in
  effect: \<open>gmtime\<close> clears \<open>tm_isdst\<close>, so \<open>mktime\<close> takes the fields in standard time, and in summer the result is an
  hour late.
\<close>

theorem timestamp_zone_roundtrip:
  assumes "presumes_dst zone std mktime" "\<bar>u\<bar> \<le> 1000000000000000000" "\<bar>std\<bar> \<le> 86400"
  shows "Option.bind (ydboctoDateTimeCastC zone mktime (instant_value u) TIMESTAMP_LITERAL TIMESTAMP_WITH_TIME_ZONE_TYPE)
      (\<lambda>v. ydboctoDateTimeCastC zone mktime v TIMESTAMP_WITH_TIME_ZONE_LITERAL TIMESTAMP_TYPE)
    = Some (instant_value (u + (if dst_at zone (u div 1000000 - std) then 3600000000 else 0)))"
proof -
  define s m where "s = u div 1000000" and "m = u mod 1000000"
  define h where "h = (if dst_at zone (s - std) then 3600 else 0 :: int)"
  have s: "\<bar>s\<bar> \<le> 1000000000000" unfolding s_def by (rule seconds_bound [OF assms(2)])
  have m: "0 \<le> m" "m < 1000000" unfolding m_def by (rule micro_range)+
  have u: "s * 1000000 + m = u" unfolding s_def m_def by (rule div_mult_mod_eq)
  have "mktime (gmtime s) = s - std" using assms(1) by (simp add: presumes_dst_def utc_mktime_gmtime isdst_gmtime)
  then have c1: "ydboctoDateTimeCastC zone mktime (instant_value u) TIMESTAMP_LITERAL TIMESTAMP_WITH_TIME_ZONE_TYPE
      = Some (encode_value (s - std) m)"
    using add_micro_value [OF m, of "s - std"] s assms(3)
    by (simp add: ydboctoDateTimeCastC_def remove_micro_instant s_def [symmetric] m_def [symmetric])
  have "utc_mktime (localtime zone (s - std)) = s + h"
    using assms(1) by (simp add: presumes_dst_def utc_mktime_localtime h_def)
  then have "ydboctoDateTimeCastC zone mktime (encode_value (s - std) m) TIMESTAMP_WITH_TIME_ZONE_LITERAL TIMESTAMP_TYPE
      = add_micro (s + h) m"
    by (simp add: ydboctoDateTimeCastC_def remove_micro_value [OF m])
  also have "\<dots> = Some (instant_value ((s + h) * 1000000 + m))"
    using s by (intro add_micro_instant [OF m]) (auto simp: h_def)
  also have "(s + h) * 1000000 + m = u + (if dst_at zone (s - std) then 3600000000 else 0)"
    using u by (simp add: h_def)
  finally show ?thesis unfolding c1 s_def by simp
qed

theorem timestamp_zone_roundtrip_witness:
  "Option.bind (ydboctoDateTimeCastC \<lparr>offset_at = (\<lambda>t. 3600 + (if 1679792400 \<le> t then 3600 else 0)), dst_at = (\<lambda>t. 1679792400 \<le> t)\<rparr>
       (\<lambda>t. utc_mktime t - 3600 - (if tm_isdst t = 1 then 3600 else 0))
       (instant_value 1688212800000000) TIMESTAMP_LITERAL TIMESTAMP_WITH_TIME_ZONE_TYPE)
     (\<lambda>v. ydboctoDateTimeCastC \<lparr>offset_at = (\<lambda>t. 3600 + (if 1679792400 \<le> t then 3600 else 0)), dst_at = (\<lambda>t. 1679792400 \<le> t)\<rparr>
       (\<lambda>t. utc_mktime t - 3600 - (if tm_isdst t = 1 then 3600 else 0)) v TIMESTAMP_WITH_TIME_ZONE_LITERAL TIMESTAMP_TYPE)
   = Some (instant_value (1688212800000000 + 3600000000))"
  using timestamp_zone_roundtrip [of
      "\<lparr>offset_at = (\<lambda>t. 3600 + (if 1679792400 \<le> t then 3600 else 0)), dst_at = (\<lambda>t. 1679792400 \<le> t)\<rparr>" 3600
      "\<lambda>t. utc_mktime t - 3600 - (if tm_isdst t = 1 then 3600 else 0)" 1688212800000000]
  by (simp add: presumes_dst_def)

text \<open>
  a timestamp with time zone cast to a date gives the date before the local one in a zone east of Greenwich: the
  date is stored as local midnight, but dates are read and printed in UTC, where that is the evening before.
\<close>

theorem timestamp_with_zone_to_date:
  assumes "presumes_dst zone std mktime" "\<bar>u\<bar> \<le> 1000000000000000000"
    and "0 < std" "std \<le> 50400" "\<not> dst_at zone (u div 1000000)"
  shows "\<exists>v. ydboctoDateTimeCastC zone mktime (instant_value u) TIMESTAMP_WITH_TIME_ZONE_LITERAL DATE_TYPE = Some v
      \<and> fst (REMOVE_MICRO_SECONDS v) div 86400 = (u div 1000000 + offset_at zone (u div 1000000)) div 86400 - 1"
proof -
  define s where "s = u div 1000000"
  have dst: "\<not> dst_at zone s" using assms(5) unfolding s_def .
  have o: "offset_at zone s = std" using assms(1) dst by (simp add: presumes_dst_def)
  have s: "\<bar>s\<bar> \<le> 1000000000000" unfolding s_def by (rule seconds_bound [OF assms(2)])
  define d x where "d = (s + std) div 86400" and "x = (s + std) mod 86400"
  have dx: "d * 86400 + x = s + std" unfolding d_def x_def by (rule div_mult_mod_eq)
  have x: "0 \<le> x" "x < 86400" unfolding x_def by (rule day_range)+
  have "tm_isdst (localtime zone s) = 0" using dst by (simp add: localtime_def)
  then have "mktime (without_time (localtime zone s)) = utc_mktime (without_time (localtime zone s)) - std"
    using assms(1) by (simp add: presumes_dst_def isdst_gmtime)
  also have "\<dots> = d * 86400 - std"
    unfolding utc_mktime_without_time utc_mktime_localtime time_of_day_localtime o x_def [symmetric] using dx by simp
  finally have "ydboctoDateTimeCastC zone mktime (instant_value u) TIMESTAMP_WITH_TIME_ZONE_LITERAL DATE_TYPE
      = add_micro (d * 86400 - std) 0"
    by (simp add: ydboctoDateTimeCastC_def remove_micro_instant s_def [symmetric])
  also have "\<dots> = Some (encode_value (d * 86400 - std) 0)"
    using s x dx assms(3,4) by (intro add_micro_value) auto
  finally have c: "ydboctoDateTimeCastC zone mktime (instant_value u) TIMESTAMP_WITH_TIME_ZONE_LITERAL DATE_TYPE
      = Some (encode_value (d * 86400 - std) 0)" .
  have "(d * 86400 - std) = (86400 - std) + (d - 1) * 86400" by simp
  then have "(d * 86400 - std) div 86400 = d - 1"
    using assms(3,4) by (simp only: div_mult_self1)
  then show ?thesis
    unfolding s_def [symmetric] o d_def [symmetric] using c remove_micro_value [of 0 "d * 86400 - std"] by simp
qed

theorem timestamp_with_zone_to_date_witness:
  "\<exists>v. ydboctoDateTimeCastC \<lparr>offset_at = (\<lambda>_. 19800), dst_at = (\<lambda>_. False)\<rparr>
      (\<lambda>t. utc_mktime t - 19800 - (if tm_isdst t = 1 then 3600 else 0)) (instant_value 1673760600000000)
      TIMESTAMP_WITH_TIME_ZONE_LITERAL DATE_TYPE = Some v
    \<and> fst (REMOVE_MICRO_SECONDS v) div 86400 = (1673760600000000 div 1000000 + 19800) div 86400 - 1"
  using timestamp_with_zone_to_date [of "\<lparr>offset_at = (\<lambda>_. 19800), dst_at = (\<lambda>_. False)\<rparr>" 19800
      "\<lambda>t. utc_mktime t - 19800 - (if tm_isdst t = 1 then 3600 else 0)" 1673760600000000]
  by (simp add: presumes_dst_def)

end
