(* ===== verification/Date_Text_Laws.thy ===== *)
theory Date_Text_Laws
  imports Date_Text Date_Arith_Laws
begin

text \<open>
  Text and internal format are inverse: a timestamp, with time zone or without, that is printed in any format of
  the date styles and read again is the same instant.
\<close>

section \<open>Fields in range\<close>

definition fields_in_range :: "tm \<Rightarrow> bool" where
  "fields_in_range t \<longleftrightarrow> 0 \<le> tm_sec t \<and> tm_sec t \<le> 59 \<and> 0 \<le> tm_min t \<and> tm_min t \<le> 59 \<and> 0 \<le> tm_hour t \<and> tm_hour t \<le> 23
     \<and> 1 \<le> tm_mday t \<and> tm_mday t \<le> 31 \<and> 0 \<le> tm_mon t \<and> tm_mon t \<le> 11"

lemma count_le:
  fixes xs :: "int list"
  assumes "sorted xs"
  shows "(\<forall>i < length (filter (\<lambda>x. x \<le> v) xs). xs ! i \<le> v)
    \<and> (length (filter (\<lambda>x. x \<le> v) xs) < length xs \<longrightarrow> v < xs ! length (filter (\<lambda>x. x \<le> v) xs))"
  using assms
proof (induction xs)
  case (Cons x xs)
  show ?case
  proof (cases "x \<le> v")
    case True
    then show ?thesis using Cons by (auto simp: nth_Cons split: nat.splits)
  next
    case False
    then have "filter (\<lambda>x. x \<le> v) xs = []" using Cons.prems by (auto simp: filter_empty_conv)
    then show ?thesis using False by simp
  qed
qed simp

lemma day_of_month:
  assumes "0 \<le> yday" "yday < get_days_in_year y"
  shows "0 \<le> yday - days_before_month y (civil_month y yday) \<and> yday - days_before_month y (civil_month y yday) \<le> 30"
proof -
  let ?xs = "map (days_before_month y) [1, 2, 3, 4, 5, 6, 7, 8, 9, 10, 11]"
  define k where "k = length (filter (\<lambda>x. x \<le> yday) ?xs)"
  have c: "civil_month y yday = int k" unfolding k_def civil_month_def filter_map o_def length_map ..
  have s: "sorted ?xs" by (simp add: days_before_month_def)
  have le: "i < k \<Longrightarrow> ?xs ! i \<le> yday" for i using count_le [OF s, of yday] unfolding k_def by blast
  have less: "k < 11 \<Longrightarrow> yday < ?xs ! k" using count_le [OF s, of yday] unfolding k_def by simp
  have "k \<le> 11" using length_filter_le [of "\<lambda>x. x \<le> yday" ?xs] unfolding k_def by simp
  then have "k = 0 \<or> k = 1 \<or> k = 2 \<or> k = 3 \<or> k = 4 \<or> k = 5 \<or> k = 6 \<or> k = 7 \<or> k = 8 \<or> k = 9 \<or> k = 10 \<or> k = 11"
    by presburger
  then show ?thesis
    using assms le [of "k - 1"] less unfolding c
    by (elim disjE) (auto simp: days_before_month_def get_days_in_year_def split: if_splits)
qed

lemma seconds_in_range:
  "0 \<le> (x :: int) mod 60" "(x :: int) mod 60 \<le> 59" "0 \<le> (t :: int) mod 86400 div 3600" "(t :: int) mod 86400 div 3600 \<le> 23"
proof -
  show "0 \<le> x mod 60" "x mod 60 \<le> 59" using pos_mod_sign [of 60 x] pos_mod_bound [of 60 x] by simp_all
  define s where "s = t mod 86400"
  have "0 \<le> s" "s < 86400" unfolding s_def by (rule day_range)+
  then show "0 \<le> t mod 86400 div 3600" "t mod 86400 div 3600 \<le> 23" unfolding s_def [symmetric] by auto
qed

lemma gmtime_in_range: "fields_in_range (gmtime t)"
proof -
  define n where "n = t div 86400 + epoch_day"
  define y where "y = civil_year n"
  define yday where "yday = n - days_before_year y"
  define sec minute hour where "sec = t mod 86400 mod 60" and "minute = t mod 86400 div 60 mod 60" and "hour = t mod 86400 div 3600"
  have g: "gmtime t = \<lparr>tm_sec = sec, tm_min = minute, tm_hour = hour, tm_mday = yday - days_before_month y (civil_month y yday) + 1,
      tm_mon = civil_month y yday, tm_year = y - 1900, tm_isdst = 0, tm_gmtoff = 0\<rparr>"
    unfolding gmtime_def Let_def n_def y_def yday_def sec_def minute_def hour_def ..
  have "0 \<le> yday" "yday < get_days_in_year y"
    using civil_year_bounds [of n] days_before_next_year [of y] unfolding y_def yday_def by simp_all
  from day_of_month [OF this] show ?thesis
    using seconds_in_range(1,2) [of "t mod 86400", folded sec_def] seconds_in_range(1,2) [of "t mod 86400 div 60", folded minute_def]
      seconds_in_range(3,4) [of t, folded hour_def] civil_month_range [of y yday]
    unfolding g fields_in_range_def by simp
qed

lemma localtime_in_range: "fields_in_range (localtime zone t)"
  using gmtime_in_range [of "t + offset_at zone t"] by (simp add: fields_in_range_def localtime_def)

section \<open>Numbers of a fixed width\<close>

definition digit :: "nat \<Rightarrow> byte" where
  "digit d = of_nat (48 + d)"

lemma unat_of_digit: "d < 10 \<Longrightarrow> unat (digit d) = 48 + d"
  unfolding digit_def by (rule unat_digit)

lemma is_digit_digit: "d < 10 \<Longrightarrow> is_digit (digit d)"
  unfolding digit_def by (rule is_digit_of_nat)

lemma digit_val_digit: "d < 10 \<Longrightarrow> digit_val (digit d) = int d"
  by (simp add: unat_of_digit)

lemma digit_0: "digit d = 48 \<longleftrightarrow> d = 0" if "d < 10"
  using unat_of_digit [OF that] by (auto simp: word_unat_eq_iff)

lemma digit_special:
  assumes "d < 10"
  shows "\<not> is_space (digit d)" "digit d \<noteq> 32" "digit d \<noteq> 0" "digit d \<noteq> ch CHR ''.''" "\<not> is_gmt_offset (digit d)"
    "digit d \<noteq> ch CHR '':''" "digit d \<noteq> ch CHR ''-''" "digit d \<noteq> ch CHR ''Z''" "digit d \<noteq> ch CHR ''+''"
proof -
  have c: "unat (ch CHR ''.'') = 46" "unat (ch CHR ''+'') = 43" "unat (ch CHR ''-'') = 45" "unat (ch CHR '':'') = 58"
    "unat (ch CHR ''Z'') = 90" "unat (0 :: byte) = 0" "unat (32 :: byte) = 32"
    by (simp_all add: ch_def)
  have d: "48 \<le> unat (digit d)" "unat (digit d) \<le> 57" using unat_of_digit [OF assms] assms by simp_all
  show "digit d \<noteq> 32" "digit d \<noteq> 0" "digit d \<noteq> ch CHR ''.''" "digit d \<noteq> ch CHR '':''" "digit d \<noteq> ch CHR ''-''"
    "digit d \<noteq> ch CHR ''Z''" "digit d \<noteq> ch CHR ''+''"
    by (rule notI, use d c in simp)+
  then show "\<not> is_space (digit d)" "\<not> is_gmt_offset (digit d)"
    using d by (simp_all add: is_space_def is_gmt_offset_def)
qed

fun digits :: "nat \<Rightarrow> nat \<Rightarrow> bytes" where
  "digits 0 n = []"
| "digits (Suc w) n = digits w (n div 10) @ [digit (n mod 10)]"

lemma length_digits [simp]: "length (digits w n) = w"
  by (induction w arbitrary: n) simp_all

lemma digits_zero: "digits w 0 = replicate w 48"
  by (induction w) (simp_all add: digit_def replicate_append_same)

lemma dec_digits_digits: "n < 10 ^ w \<Longrightarrow> 0 < w \<Longrightarrow> replicate (w - length (dec_digits n)) 48 @ dec_digits n = digits w n"
proof (induction w arbitrary: n)
  case (Suc w)
  show ?case
  proof (cases "n < 10")
    case True
    show ?thesis using True by (subst (1 2) dec_digits.simps) (simp add: digits_zero digit_def)
  next
    case False
    then have w: "0 < w" "n div 10 < 10 ^ w" using Suc.prems by (auto intro: ccontr)
    then have "length (dec_digits (n div 10)) \<le> w" by (intro dec_digits_length) simp_all
    then show ?thesis
      using False Suc.IH [OF w(2,1)] by (subst (1 2) dec_digits.simps) (simp add: digit_def)
  qed
qed simp

lemma fmt_0d_digits: "0 \<le> n \<Longrightarrow> n < 10 ^ w \<Longrightarrow> 0 < w \<Longrightarrow> fmt_0d w n = digits w (nat n)"
  using dec_digits_digits [of "nat n" w] by (simp add: fmt_0d_def fmt_d_def nat_less_iff)

lemma length_dec_digits_ge: "10 ^ k \<le> n \<Longrightarrow> k < length (dec_digits n)"
proof (induction k arbitrary: n)
  case 0
  show ?case by (simp add: length_greater_0_conv)
next
  case (Suc k)
  then have "10 ^ k \<le> n div 10" by (simp add: less_eq_div_iff_mult_less_eq)
  from Suc.IH [OF this] have "k < length (dec_digits (n div 10))" .
  moreover have "10 * 1 \<le> 10 * (10 :: nat) ^ k" by (intro mult_le_mono2) simp
  then have "\<not> n < 10" using Suc.prems unfolding power_Suc by linarith
  ultimately show ?case by (subst dec_digits.simps) simp
qed

lemma fmt_d_digits:
  assumes "10 ^ k \<le> n" "n < 10 ^ Suc k"
  shows "fmt_d n = digits (Suc k) (nat n)"
proof -
  have n: "10 ^ k \<le> nat n" "nat n < 10 ^ Suc k" using assms by (simp_all add: nat_less_iff le_nat_iff)
  have "length (dec_digits (nat n)) = Suc k"
    using length_dec_digits_ge [OF n(1)] dec_digits_length [OF n(2)] by simp
  moreover have "0 \<le> n" using assms(1) by (rule order_trans [rotated]) simp
  ultimately show ?thesis using dec_digits_digits [OF n(2)] by (simp add: fmt_d_def)
qed

lemma digits_in: "b \<in> set (digits w n) \<Longrightarrow> \<exists>d < 10. b = digit d"
  by (induction w arbitrary: n) (auto intro: exI [of _ "n mod 10" for n])

text \<open>The scan of a number takes the digits of its width and no more.\<close>

lemma get_number_2:
  assumes "n < 100" "lo \<le> int n" "int n \<le> hi"
  shows "get_number lo hi 2 (digits 2 n @ rest) = Some (int n, rest)"
proof -
  define a b where "a = n div 10 mod 10" and "b = n mod 10"
  have ab: "a < 10" "b < 10" unfolding a_def b_def by simp_all
  have n: "n = a * 10 + b" using assms(1) unfolding a_def b_def by simp
  have d: "digits 2 n = [digit a, digit b]" unfolding a_def b_def by (simp add: numeral_2_eq_2)
  have "int a * 10 \<le> hi" "int a * 10 + int b = int n" using assms(3) n by simp_all
  then show ?thesis
    using assms(2,3) ab unfolding d
    by (simp add: get_number_def digit_special is_digit_digit digit_val_digit unat_of_digit numeral_eq_Suc)
qed

lemma get_number_4:
  assumes "n < 10000"
  shows "get_number 0 9999 4 (digits 4 n @ rest) = Some (int n, rest)"
proof -
  define p q a where "p = n div 10" and "q = p div 10" and "a = q div 10"
  define b c d where "b = q mod 10" and "c = p mod 10" and "d = n mod 10"
  have "a * 10 + b = q" "q * 10 + c = p" "p * 10 + d = n" unfolding a_def b_def c_def d_def p_def q_def
    by (rule div_mult_mod_eq)+
  then have n: "n = a * 1000 + b * 100 + c * 10 + d" by linarith
  have abcd: "a < 10" "b < 10" "c < 10" "d < 10" using assms n unfolding b_def c_def d_def by auto
  have "digits (Suc (Suc (Suc (Suc 0)))) n = [digit (a mod 10), digit b, digit c, digit d]"
    unfolding a_def b_def c_def d_def p_def q_def by (simp only: digits.simps append.simps)
  moreover have "(4 :: nat) = Suc (Suc (Suc (Suc 0)))" by simp
  ultimately have e: "digits 4 n = [digit a, digit b, digit c, digit d]" using abcd(1) by (simp only: mod_less)
  have three: "(4 :: nat) - 1 = Suc (Suc (Suc 0))" by simp
  have i: "int n = ((int a * 10 + int b) * 10 + int c) * 10 + int d" using n by simp
  show ?thesis
    using abcd unfolding e get_number_def three i
    by (simp add: digit_special is_digit_digit digit_val_digit unat_of_digit)
qed

section \<open>Formats\<close>

abbreviation field_chars :: "byte set" where
  "field_chars \<equiv> set (lit ''YmdHMS'')"

text \<open>The formats of the date styles without the time zone: fields separated by dashes, colons and single blanks.\<close>

fun plain_format :: "bytes \<Rightarrow> bool" where
  "plain_format [] = True"
| "plain_format [c] = (c = ch CHR ''-'' \<or> c = ch CHR '':'')"
| "plain_format (c # k # fmt) =
     (if c = ch CHR ''%'' then k \<in> field_chars \<and> plain_format fmt
      else if c = ch CHR '' '' then k = ch CHR ''%'' \<and> plain_format (k # fmt)
      else (c = ch CHR ''-'' \<or> c = ch CHR '':'') \<and> plain_format (k # fmt))"

definition copy_field :: "byte \<Rightarrow> tm \<Rightarrow> tm \<Rightarrow> tm" where
  "copy_field k t t0 =
     (if k = ch CHR ''Y'' then t0\<lparr>tm_year := tm_year t\<rparr>
      else if k = ch CHR ''m'' then t0\<lparr>tm_mon := tm_mon t\<rparr>
      else if k = ch CHR ''d'' then t0\<lparr>tm_mday := tm_mday t\<rparr>
      else if k = ch CHR ''H'' then t0\<lparr>tm_hour := tm_hour t\<rparr>
      else if k = ch CHR ''M'' then t0\<lparr>tm_min := tm_min t\<rparr>
      else if k = ch CHR ''S'' then t0\<lparr>tm_sec := tm_sec t\<rparr>
      else t0)"

text \<open>A time whose fields are printed with a fixed width.\<close>

definition printable :: "tm \<Rightarrow> bool" where
  "printable t \<longleftrightarrow> fields_in_range t \<and> 1000 \<le> tm_year t + 1900 \<and> tm_year t + 1900 \<le> 9999"

lemma ch_eq_iff [simp]: "ch a = ch b \<longleftrightarrow> a = b"
proof -
  have "unat (of_nat (of_char c) :: byte) = of_char c" for c
    using nat_of_char_less_256 [of c] by (simp only: unat_of_nat) simp
  then have "unat (ch c) = of_char c" for c unfolding ch_def of_nat_of_char .
  then show ?thesis by (metis of_char_eq_iff)
qed

lemma field_width:
  assumes "printable t" "k \<in> field_chars"
  shows "\<exists>w n. 2 \<le> w \<and> w \<le> (if k = ch CHR ''Y'' then 4 else 2) \<and> print_field k t = Some (digits w n)
    \<and> (\<forall>rest t0. scan_conversion k (digits w n @ rest) t0 = Some (copy_field k t t0, Some rest))"
proof -
  have t: "0 \<le> tm_sec t" "tm_sec t \<le> 59" "0 \<le> tm_min t" "tm_min t \<le> 59" "0 \<le> tm_hour t" "tm_hour t \<le> 23"
    "1 \<le> tm_mday t" "tm_mday t \<le> 31" "0 \<le> tm_mon t" "tm_mon t \<le> 11" "1000 \<le> tm_year t + 1900" "tm_year t + 1900 \<le> 9999"
    using assms(1) by (simp_all add: printable_def fields_in_range_def)
  have two: "fmt_0d 2 v = digits 2 (nat v) \<and> (\<forall>rest. get_number lo hi 2 (digits 2 (nat v) @ rest) = Some (v, rest))"
    if "0 \<le> v" "v < 100" "lo \<le> v" "v \<le> hi" for v lo hi
    using that get_number_2 [of "nat v" lo hi] fmt_0d_digits [of v 2] by (simp add: nat_less_iff)
  have year: "fmt_d (tm_year t + 1900) = digits 4 (nat (tm_year t + 1900))"
    "get_number 0 9999 4 (digits 4 (nat (tm_year t + 1900)) @ rest) = Some (tm_year t + 1900, rest)" for rest
    using t fmt_d_digits [of 3 "tm_year t + 1900"] get_number_4 [of "nat (tm_year t + 1900)" rest]
    by (simp_all add: nat_less_iff)
  from assms(2) consider "k = ch CHR ''Y''" | "k = ch CHR ''m''" | "k = ch CHR ''d''" | "k = ch CHR ''H''"
    | "k = ch CHR ''M''" | "k = ch CHR ''S''"
    by auto
  then show ?thesis
  proof cases
    case 1
    then show ?thesis using year
      by (intro exI [of _ 4] exI [of _ "nat (tm_year t + 1900)"]) (simp add: print_field_def scan_conversion_def copy_field_def set_field_def)
  next
    case 2
    then show ?thesis using two [of "tm_mon t + 1" 1 12] t
      by (intro exI [of _ 2] exI [of _ "nat (tm_mon t + 1)"]) (simp add: print_field_def scan_conversion_def copy_field_def set_field_def)
  next
    case 3
    then show ?thesis using two [of "tm_mday t" 1 31] t
      by (intro exI [of _ 2] exI [of _ "nat (tm_mday t)"]) (simp add: print_field_def scan_conversion_def copy_field_def set_field_def)
  next
    case 4
    then show ?thesis using two [of "tm_hour t" 0 23] t
      by (intro exI [of _ 2] exI [of _ "nat (tm_hour t)"]) (simp add: print_field_def scan_conversion_def copy_field_def set_field_def)
  next
    case 5
    then show ?thesis using two [of "tm_min t" 0 59] t
      by (intro exI [of _ 2] exI [of _ "nat (tm_min t)"]) (simp add: print_field_def scan_conversion_def copy_field_def set_field_def)
  next
    case 6
    then show ?thesis using two [of "tm_sec t" 0 61] t
      by (intro exI [of _ 2] exI [of _ "nat (tm_sec t)"]) (simp add: print_field_def scan_conversion_def copy_field_def set_field_def)
  qed
qed

lemma format_char_spaces [simp]:
  "is_space (ch CHR '' '')" "\<not> is_space (ch CHR ''-'')" "\<not> is_space (ch CHR '':'')" "\<not> is_space (ch CHR ''%'')"
  by (simp_all add: ch_def is_space_def)

fun copy_fields :: "bytes \<Rightarrow> tm \<Rightarrow> tm \<Rightarrow> tm" where
  "copy_fields (c # k # fmt) t t0 =
     (if c = ch CHR ''%'' then copy_fields fmt t (copy_field k t t0) else copy_fields (k # fmt) t t0)"
| "copy_fields fmt t t0 = t0"

lemma digits_Suc_shape: "0 < w \<Longrightarrow> \<exists>d r. d < 10 \<and> digits w n = digit d # r"
proof -
  assume "0 < w"
  then obtain b r where e: "digits w n = b # r" using length_digits [of w n] by (cases "digits w n") auto
  then show ?thesis using digits_in [of b w n] by auto
qed

text \<open>The room that a text in a format takes: a year has two characters more than its conversion.\<close>

definition text_width :: "bytes \<Rightarrow> nat" where
  "text_width fmt = length fmt + 2 * count_list fmt (ch CHR ''Y'')"

lemma text_width_Cons [simp]: "text_width [] = 0" "text_width (c # fmt) = text_width fmt + (if c = ch CHR ''Y'' then 3 else 1)"
  by (simp_all add: text_width_def)

text \<open>Printing in a format and scanning with it copies the fields of the format.\<close>

definition text_char :: "byte \<Rightarrow> bool" where
  "text_char b \<longleftrightarrow> (\<exists>d < 10. b = digit d) \<or> b = ch CHR ''-'' \<or> b = ch CHR '':'' \<or> b = ch CHR '' ''"

lemma strptime_strftime:
  assumes "printable t" "plain_format fmt"
  shows "\<exists>s. strftime fmt t = Some s \<and> length s \<le> text_width fmt \<and> (\<forall>b \<in> set s. text_char b)
    \<and> (fmt \<noteq> [] \<longrightarrow> s \<noteq> []) \<and> (fmt \<noteq> [] \<and> hd fmt = ch CHR ''%'' \<longrightarrow> \<not> is_space (hd s))
    \<and> (\<forall>more_fmt rest t0. strptime (fmt @ more_fmt) (s @ rest) t0 = strptime more_fmt rest (copy_fields fmt t t0))"
  using assms(2)
proof (induction fmt rule: plain_format.induct)
  case 1
  show ?case by simp
next
  case (2 c)
  have "strptime (c # more_fmt) (c # rest) t0 = strptime more_fmt rest t0" for more_fmt rest t0
    using 2 by (subst strptime.simps) auto
  then show ?case using 2 by (auto simp: text_char_def)
next
  case (3 c k fmt)
  show ?case
  proof (cases "c = ch CHR ''%''")
    case True
    then have k: "k \<in> field_chars" "plain_format fmt" using 3(4) by simp_all
    from 3(1) [OF True k(2)] obtain s where s: "strftime fmt t = Some s" "length s \<le> text_width fmt" "\<forall>b \<in> set s. text_char b"
      "\<And>more_fmt rest t0. strptime (fmt @ more_fmt) (s @ rest) t0 = strptime more_fmt rest (copy_fields fmt t t0)"
      by blast
    from field_width [OF assms(1) k(1)] obtain w n where w: "2 \<le> w" "w \<le> (if k = ch CHR ''Y'' then 4 else 2)" "print_field k t = Some (digits w n)"
      "\<And>rest t0. scan_conversion k (digits w n @ rest) t0 = Some (copy_field k t t0, Some rest)" by blast
    have "strptime (c # k # fmt @ more_fmt) (digits w n @ s @ rest) t0 = strptime more_fmt rest (copy_fields fmt t (copy_field k t t0))"
      for more_fmt rest t0
      using True by (subst strptime.simps) (simp add: w(4) s(4))
    moreover have "\<not> is_space (hd (digits w n @ s))" "digits w n @ s \<noteq> []"
      using digits_Suc_shape [of w n] w(1) digit_special(1) by fastforce+
    moreover have "\<forall>b \<in> set (digits w n). text_char b" using digits_in by (auto simp: text_char_def)
    ultimately show ?thesis
      using True s(1,2,3) w(1,2,3) by (intro exI [of _ "digits w n @ s"]) auto
  next
    case False
    note c = False
    show ?thesis
    proof (cases "c = ch CHR '' ''")
      case True
      then have k: "k = ch CHR ''%''" "plain_format (k # fmt)" using 3(4) c by auto
      from 3(2) [OF c True k(2)] obtain s where s: "strftime (k # fmt) t = Some s" "length s \<le> text_width (k # fmt)"
        "\<forall>b \<in> set s. text_char b" "s \<noteq> []" "\<not> is_space (hd s)"
        "\<And>more_fmt rest t0. strptime ((k # fmt) @ more_fmt) (s @ rest) t0 = strptime more_fmt rest (copy_fields (k # fmt) t t0)"
        using k(1) by auto
      have "dropWhile is_space (c # s @ rest) = s @ rest" for rest
        using s(4,5) True by (cases s) simp_all
      then have "strptime ((c # k # fmt) @ more_fmt) ((c # s) @ rest) t0 = strptime more_fmt rest (copy_fields (k # fmt) t t0)"
        for more_fmt rest t0
        using True s(6) [of more_fmt rest t0] by (subst strptime.simps) simp
      then show ?thesis
        using True s(1,2,3) c by (intro exI [of _ "c # s"]) (auto simp: text_char_def)
    next
      case False
      then have k: "c = ch CHR ''-'' \<or> c = ch CHR '':''" "plain_format (k # fmt)" using 3(4) c by simp_all
      from 3(3) [OF c False k(2)] obtain s where s: "strftime (k # fmt) t = Some s" "length s \<le> text_width (k # fmt)"
        "\<forall>b \<in> set s. text_char b"
        "\<And>more_fmt rest t0. strptime ((k # fmt) @ more_fmt) (s @ rest) t0 = strptime more_fmt rest (copy_fields (k # fmt) t t0)"
        by blast
      have "strptime ((c # k # fmt) @ more_fmt) ((c # s) @ rest) t0 = strptime more_fmt rest (copy_fields (k # fmt) t t0)"
        for more_fmt rest t0
        using k(1) s(4) [of more_fmt rest t0] c by (subst strptime.simps) auto
      then show ?thesis
        using s(1,2,3) c k(1) by (intro exI [of _ "c # s"]) (auto simp: text_char_def)
    qed
  qed
qed

lemma copy_fields_select:
  assumes "plain_format fmt"
  shows "tm_year (copy_fields fmt t t0) = (if ch CHR ''Y'' \<in> set fmt then tm_year t else tm_year t0)
    \<and> tm_mon (copy_fields fmt t t0) = (if ch CHR ''m'' \<in> set fmt then tm_mon t else tm_mon t0)
    \<and> tm_mday (copy_fields fmt t t0) = (if ch CHR ''d'' \<in> set fmt then tm_mday t else tm_mday t0)
    \<and> tm_hour (copy_fields fmt t t0) = (if ch CHR ''H'' \<in> set fmt then tm_hour t else tm_hour t0)
    \<and> tm_min (copy_fields fmt t t0) = (if ch CHR ''M'' \<in> set fmt then tm_min t else tm_min t0)
    \<and> tm_sec (copy_fields fmt t t0) = (if ch CHR ''S'' \<in> set fmt then tm_sec t else tm_sec t0)
    \<and> ch CHR ''z'' \<notin> set fmt \<and> 0 \<notin> set fmt"
  using assms
proof (induction fmt t t0 rule: copy_fields.induct)
  case (1 c k fmt t t0)
  have nul: "ch CHR ''%'' \<noteq> 0" "ch CHR ''-'' \<noteq> 0" "ch CHR '':'' \<noteq> 0" "ch CHR '' '' \<noteq> 0" "ch CHR ''Y'' \<noteq> 0" "ch CHR ''m'' \<noteq> 0"
    "ch CHR ''d'' \<noteq> 0" "ch CHR ''H'' \<noteq> 0" "ch CHR ''M'' \<noteq> 0" "ch CHR ''S'' \<noteq> 0" by (simp_all add: ch_def)
  show ?case
  proof (cases "c = ch CHR ''%''")
    case True
    then have k: "k \<in> field_chars" "plain_format fmt" using 1(3) by simp_all
    from k(1) consider "k = ch CHR ''Y''" | "k = ch CHR ''m''" | "k = ch CHR ''d''" | "k = ch CHR ''H''"
      | "k = ch CHR ''M''" | "k = ch CHR ''S''" by auto
    then show ?thesis
      using 1(1) [OF True k(2)] True nul by cases (simp_all add: copy_field_def)
  next
    case False
    then have "plain_format (k # fmt)" "c = ch CHR '' '' \<or> c = ch CHR ''-'' \<or> c = ch CHR '':''"
      using 1(3) by (auto split: if_splits)
    then show ?thesis using 1(2) [OF False] False nul by (elim disjE) simp_all
  qed
qed (auto simp: ch_def [of "CHR ''-''"] ch_def [of "CHR '':''"] ch_def [of "CHR ''z''"] ch_def [of "CHR ''S''"]
    ch_def [of "CHR ''M''"] ch_def [of "CHR ''H''"] ch_def [of "CHR ''d''"] ch_def [of "CHR ''m''"] ch_def [of "CHR ''Y''"])

section \<open>Microseconds in the text\<close>

definition micro_text :: "int \<Rightarrow> bytes" where
  "micro_text m = (if m = 0 then [] else ch CHR ''.'' # trim_zeros (digits 6 (nat m)))"

lemma trim_zeros_replicate: "trim_zeros s @ replicate (length s - length (trim_zeros s)) 48 = s"
proof (induction s rule: rev_induct)
  case (snoc b s)
  show ?case
  proof (cases "b = 48")
    case True
    have "length (trim_zeros s) \<le> length s"
      using arg_cong [OF snoc, of length] by simp
    moreover have "trim_zeros (s @ [b]) = trim_zeros s" using True by (simp add: trim_zeros_def)
    ultimately have "trim_zeros (s @ [b]) @ replicate (length (s @ [b]) - length (trim_zeros (s @ [b]))) 48
        = (trim_zeros s @ replicate (length s - length (trim_zeros s)) 48) @ [48]"
      by (simp add: Suc_diff_le replicate_append_same)
    then show ?thesis using snoc True by simp
  qed (simp add: trim_zeros_def)
qed (simp add: trim_zeros_def)

lemma trim_zeros_append: "b \<noteq> 48 \<Longrightarrow> trim_zeros (out @ b # s) = out @ b # trim_zeros s"
  by (simp add: trim_zeros_def dropWhile_append3 dropWhile_append)

lemma set_trim_zeros: "set (trim_zeros s) \<subseteq> set s"
  unfolding trim_zeros_def by (auto dest: set_dropWhileD)

lemma append_micro_text:
  assumes "0 \<le> m" "m < 1000000" "length out + 7 < 40"
  shows "append_micro out m = Some (out @ micro_text m)"
proof -
  have "ch CHR ''.'' \<noteq> 48" by (simp add: ch_def)
  moreover have "fmt_0d 6 m = digits 6 (nat m)" using assms by (intro fmt_0d_digits) simp_all
  ultimately show ?thesis
    using assms by (simp add: append_micro_def micro_text_def fits_def trim_zeros_append)
qed

lemma text_char_special:
  assumes "text_char b"
  shows "b \<noteq> ch CHR ''.''" "b \<noteq> 0"
  using assms digit_special(3,4) by (auto simp: text_char_def ch_def)

lemma extract_micro_text:
  assumes "0 \<le> m" "m < 1000000" "\<forall>b \<in> set s. text_char b" "length tz \<le> 9" "ch CHR ''.'' \<notin> set tz"
    and "tz = [] \<or> is_gmt_offset (hd tz)"
  shows "extract_micro (s @ micro_text m @ tz) = Some (s @ tz, digits 6 (nat m), m \<noteq> 0 \<and> tz \<noteq> [])"
proof -
  have s: "\<forall>b \<in> set s. not_period b" using assms(3) text_char_special(1) by blast
  show ?thesis
  proof (cases "m = 0")
    case True
    have "\<forall>b \<in> set tz. not_period b" using assms(5) by auto
    with s have nil: "dropWhile not_period (s @ tz) = []" by (auto simp: dropWhile_eq_Nil_conv)
    have m: "micro_text m @ tz = tz" using True by (simp add: micro_text_def)
    show ?thesis unfolding m extract_micro_def nil list.case using True by (simp add: digits_zero)
  next
    case False
    let ?ds = "trim_zeros (digits 6 (nat m))"
    have len: "length ?ds \<le> 6"
      using arg_cong [OF trim_zeros_replicate [of "digits 6 (nat m)"], of length] by simp
    have pad: "?ds @ replicate (6 - length ?ds) 48 = digits 6 (nat m)"
      using trim_zeros_replicate [of "digits 6 (nat m)"] by simp
    have "\<forall>b \<in> set ?ds. not_sign b"
      using set_trim_zeros digits_in digit_special(5) by blast
    moreover have "tz = [] \<or> \<not> not_sign (hd tz)" using assms(6) by blast
    ultimately have tw: "takeWhile not_sign (?ds @ tz) = ?ds" by (rule takeWhile_all_append)
    have "takeWhile not_sign (?ds @ tz) @ dropWhile not_sign (?ds @ tz) = ?ds @ tz" by (rule takeWhile_dropWhile_id)
    then have dw: "dropWhile not_sign (?ds @ tz) = tz" unfolding tw by simp
    let ?r = "ch CHR ''.'' # ?ds @ tz"
    have m: "micro_text m @ tz = ?r" using False by (simp add: micro_text_def)
    have tp: "takeWhile not_period (s @ ?r) = s" by (rule takeWhile_all_append [OF s]) simp
    have "takeWhile not_period (s @ ?r) @ dropWhile not_period (s @ ?r) = s @ ?r" by (rule takeWhile_dropWhile_id)
    then have dp: "dropWhile not_period (s @ ?r) = ?r" unfolding tp by simp
    have "\<not> 6 < length ?ds" "\<not> 9 < length tz" using len assms(4) by simp_all
    then show ?thesis
      unfolding m extract_micro_def dp list.case tp tw dw Let_def pad using False by simp
  qed
qed

section \<open>Time zones in the text\<close>

definition sign_char :: "int \<Rightarrow> byte" where
  "sign_char off = (if off < 0 then ch CHR ''-'' else ch CHR ''+'')"

definition offset_text :: "byte \<Rightarrow> nat \<Rightarrow> nat \<Rightarrow> nat \<Rightarrow> bytes" where
  "offset_text sg h mi se =
     sg # digits 2 h @ (if mi = 0 \<and> se = 0 then [] else ch CHR '':'' # digits 2 mi @ (if se = 0 then [] else ch CHR '':'' # digits 2 se))"

lemma digits_2: "digits 2 n = [digit (n div 10 mod 10), digit (n mod 10)]"
  by (simp add: numeral_2_eq_2)

lemma digits_2_zero: "n < 100 \<Longrightarrow> digits 2 n = [48, 48] \<longleftrightarrow> n = 0"
  unfolding digits_2 by (auto simp: digit_0)

lemma digits_4_split: "mi < 100 \<Longrightarrow> digits 4 (h * 100 + mi) = digits 2 h @ digits 2 mi"
proof -
  assume mi: "mi < 100"
  have "(4 :: nat) = Suc (Suc 2)" by simp
  moreover have "(h * 100 + mi) div 10 div 10 = h" using mi by (simp add: div_mult2_eq [symmetric])
  moreover have "(h * 100 + mi) div 10 mod 10 = mi div 10 mod 10"
    using div_mult_self3 [of 10 "h * 10" mi] by (simp add: mult.assoc)
  moreover have "(h * 100 + mi) mod 10 = mi mod 10"
    using mod_mult_self3 [of "h * 10" 10 mi] by (simp add: mult.assoc)
  ultimately show ?thesis unfolding digits_2 by (simp only: digits.simps digits_2 append.simps append_assoc)
qed

lemma zone_text_offset:
  assumes "mi < 100" "se < 100"
  shows "zone_text (sg # digits 2 h @ digits 2 mi @ digits 2 se) = offset_text sg h mi se"
proof -
  have d: "drop 3 (sg # digits 2 h @ digits 2 mi @ digits 2 se) = digits 2 mi @ digits 2 se"
    "take 3 (sg # digits 2 h @ digits 2 mi @ digits 2 se) = sg # digits 2 h"
    "drop 5 (sg # digits 2 h @ digits 2 mi @ digits 2 se) = digits 2 se"
    "take 2 (digits 2 mi @ digits 2 se) = digits 2 mi"
    unfolding digits_2 by simp_all
  have "digits 2 mi @ digits 2 se = [48, 48, 48, 48] \<longleftrightarrow> digits 2 mi = [48, 48] \<and> digits 2 se = [48, 48]"
    by (simp add: digits_2)
  then show ?thesis
    unfolding zone_text_def d offset_text_def using digits_2_zero [OF assms(1)] digits_2_zero [OF assms(2)] by simp
qed

lemma offset_scan_digit:
  "d < 10 \<Longrightarrow> n < 4 \<Longrightarrow> offset_scan n v (digit d # s) = offset_scan (Suc n) (v * 10 + int d) (skip_colon (Suc n) s)"
  by (simp add: is_digit_digit digit_val_digit unat_of_digit)

lemma colon_not_digit: "\<not> is_digit (ch CHR '':'')"
  by (simp add: is_digit_def ch_def)

lemma offset_scan_end: "offset_scan n v [] = (n, v, [])" "offset_scan n v (ch CHR '':'' # s) = (n, v, ch CHR '':'' # s)"
  by (simp_all add: colon_not_digit)

lemma skip_colon_simps:
  "skip_colon n [] = []" "d < 10 \<Longrightarrow> skip_colon n (digit d # s) = digit d # s"
  "d < 10 \<Longrightarrow> skip_colon 2 (ch CHR '':'' # digit d # s) = digit d # s"
  "n \<noteq> 2 \<Longrightarrow> skip_colon n s = s"
  by (auto simp: skip_colon_def digit_special is_digit_digit split: list.splits)

lemma offset_scan_text:
  assumes "h < 100" "mi < 100"
  shows "offset_scan 0 0 (digits 2 h @ (if mi = 0 \<and> se = 0 then [] else ch CHR '':'' # digits 2 mi @ (if se = 0 then [] else ch CHR '':'' # digits 2 se)))
    = (if mi = 0 \<and> se = 0 then (2, int h, []) else (4, int (h * 100 + mi), if se = 0 then [] else ch CHR '':'' # digits 2 se))"
proof -
  define a b c d where "a = h div 10 mod 10" and "b = h mod 10" and "c = mi div 10 mod 10" and "d = mi mod 10"
  have r: "a < 10" "b < 10" "c < 10" "d < 10" unfolding a_def b_def c_def d_def by simp_all
  have "h = a * 10 + b" "mi = c * 10 + d" using assms unfolding a_def b_def c_def d_def by simp_all
  then have v: "int h = int a * 10 + int b" "int mi = int c * 10 + int d" by simp_all
  have h: "digits 2 h = [digit a, digit b]" "digits 2 mi = [digit c, digit d]" unfolding a_def b_def c_def d_def by (rule digits_2)+
  have two: "Suc (Suc 0) = 2" by simp
  show ?thesis
  proof (cases "mi = 0 \<and> se = 0")
    case True
    then show ?thesis
      unfolding h using r v(1) by (simp add: offset_scan_digit skip_colon_simps offset_scan_end del: offset_scan.simps(2))
  next
    case False
    have e: "int (h * 100 + mi) = ((int a * 10 + int b) * 10 + int c) * 10 + int d" using v by simp
    show ?thesis
      unfolding if_not_P [OF False] h e using r
      by (simp add: offset_scan_digit skip_colon_simps(2,3,4) two offset_scan_end del: offset_scan.simps(2))
  qed
qed

lemma get_offset_text:
  assumes "h < 100" "mi < 60" "sg = ch CHR ''-'' \<or> sg = ch CHR ''+''"
  shows "get_offset (offset_text sg h mi se)
    = Some (if sg = ch CHR ''-'' then - (int h * 3600 + int mi * 60) else int h * 3600 + int mi * 60,
            if se = 0 then [] else ch CHR '':'' # digits 2 se)"
proof -
  have "\<not> is_space sg" using assms(3) by (auto simp: is_space_def ch_def)
  then have dw: "dropWhile is_space (sg # r) = sg # r" for r by simp
  have sg: "sg \<noteq> ch CHR ''Z''" "\<not> (sg \<noteq> ch CHR ''+'' \<and> sg \<noteq> ch CHR ''-'')" using assms(3) by auto
  have v: "int (h * 100 + mi) div 100 = int h" "int (h * 100 + mi) mod 100 = int mi" using assms(2) by simp_all
  obtain r where o: "offset_text sg h mi se = sg # r" by (simp add: offset_text_def)
  then have r: "r = tl (offset_text sg h mi se)" by simp
  have scan: "offset_scan 0 0 r
      = (if mi = 0 \<and> se = 0 then (2, int h, []) else (4, int (h * 100 + mi), if se = 0 then [] else ch CHR '':'' # digits 2 se))"
    unfolding r offset_text_def list.sel using assms(1,2) by (intro offset_scan_text) simp_all
  show ?thesis
  proof (cases "mi = 0 \<and> se = 0")
    case True
    then show ?thesis
      unfolding o get_offset_def dw list.case scan using sg by (simp add: Let_def)
  next
    case False
    then show ?thesis
      unfolding o get_offset_def dw list.case scan if_not_P [OF False] using sg v assms(2) by (simp add: Let_def)
  qed
qed

lemma strptime_zone: "strptime (lit ''%z'') s t0 = Some (set_field (get_offset s) t0 (\<lambda>v. t0\<lparr>tm_gmtoff := v\<rparr>))"
proof -
  have z: "scan_conversion (ch CHR ''z'') s t0 = Some (set_field (get_offset s) t0 (\<lambda>v. t0\<lparr>tm_gmtoff := v\<rparr>))"
    by (simp add: scan_conversion_def)
  have nil: "strptime [] s' t' = Some (t', Some s')" for s' t' by (subst strptime.simps) simp
  show ?thesis
    by (subst strptime.simps) (simp add: z nil set_field_def split: option.splits prod.splits)
qed

lemma strptime_Nil: "strptime [] s t = Some (t, Some s)"
  by (subst strptime.simps) simp

section \<open>Values as digits\<close>

lemma dec_val_append: "dec_val (a @ b) = dec_val a * 10 ^ length b + dec_val b"
proof (induction b rule: rev_induct)
  case (snoc x b)
  then show ?case by (simp add: dec_val_snoc append_assoc [symmetric] algebra_simps del: append_assoc)
qed simp

lemma dec_val_digits: "n < 10 ^ w \<Longrightarrow> dec_val (digits w n) = n"
  by (induction w arbitrary: n) (simp_all add: dec_val_snoc unat_of_digit less_mult_imp_div_less)

lemma strtol_value_digits:
  assumes "\<forall>b \<in> set ds. is_digit b"
  shows "strtol_value (fmt_d v @ ds) = (if v < 0 then - 1 else 1) * int (dec_val (dec_digits (nat \<bar>v\<bar>) @ ds))"
proof -
  have ds: "takeWhile is_digit ds = ds" using assms by (simp add: takeWhile_eq_all_conv)
  have tw: "takeWhile is_digit (dec_digits k @ ds) = dec_digits k @ ds" for k
    using assms dec_digits_all_digit [of k] by (auto simp: takeWhile_eq_all_conv)
  obtain b r where e: "dec_digits (nat v) = b # r" by (cases "dec_digits (nat v)") simp_all
  then have b: "is_digit b" using dec_digits_all_digit [of "nat v"] by simp
  then have "\<not> is_space b" "b \<noteq> 45" "b \<noteq> 43" by (auto simp: is_digit_def is_space_def)
  moreover have "\<not> is_space 45" by (simp add: is_space_def)
  ultimately show ?thesis
    using tw [of "nat v"] tw [of "nat (- v)"] b e by (simp add: strtol_value_def fmt_d_def ds)
qed

lemma strtol_encoded:
  assumes "0 \<le> m" "m < 1000000" "\<bar>v\<bar> \<le> 9000000000000"
  shows "strtol (fmt_d v @ digits 6 (nat m)) = encode_value v m"
proof -
  have "\<forall>b \<in> set (digits 6 (nat m)). is_digit b" using digits_in is_digit_digit by blast
  moreover have "dec_val (digits 6 (nat m)) = nat m" using assms by (intro dec_val_digits) (simp add: nat_less_iff)
  ultimately have "strtol_value (fmt_d v @ digits 6 (nat m)) = encode_value v m"
    using assms(1) by (simp add: strtol_value_digits dec_val_append dec_val_dec_digits encode_value_def)
  moreover have "clamp_long (encode_value v m) = encode_value v m"
    using assms by (auto simp: clamp_long_def LONG_MIN_def LONG_MAX_def encode_value_def)
  ultimately show ?thesis by (simp add: strtol_clamp)
qed

lemma length_fmt_d_seconds:
  assumes "- 99999999999 \<le> v" "v \<le> 999999999999"
  shows "length (fmt_d v) \<le> 12"
proof (cases "v < 0")
  case True
  then have "length (dec_digits (nat (- v))) \<le> 11" using assms by (intro dec_digits_length) (simp_all add: nat_less_iff)
  then show ?thesis using True by (simp add: fmt_d_def)
next
  case False
  then have "length (dec_digits (nat v)) \<le> 12" using assms by (intro dec_digits_length) (simp_all add: nat_less_iff)
  then show ?thesis using False by (simp add: fmt_d_def)
qed

section \<open>The round trip\<close>

lemma year_of_day:
  assumes "365243 \<le> n" "n < 3652425"
  shows "1000 \<le> civil_year n \<and> civil_year n \<le> 9999"
proof -
  have y: "days_before_year 1000 = 365243" "days_before_year 10000 = 3652425" by (simp_all add: days_before_year_def)
  have "1000 \<le> civil_year n"
  proof (rule ccontr)
    assume "\<not> 1000 \<le> civil_year n"
    then have "days_before_year (civil_year n + 1) \<le> days_before_year 1000"
      using days_before_year_mono [of "1000 - (civil_year n + 1)" "civil_year n + 1"] by simp
    then show False using civil_year_bounds [of n] assms(1) y(1) by simp
  qed
  moreover have "civil_year n \<le> 9999"
  proof (rule ccontr)
    assume "\<not> civil_year n \<le> 9999"
    then have "days_before_year 10000 \<le> days_before_year (civil_year n)"
      using days_before_year_mono [of "civil_year n - 10000" 10000] by simp
    then show False using civil_year_bounds [of n] assms(2) y(2) by simp
  qed
  ultimately show ?thesis by simp
qed

lemma printable_gmtime:
  assumes "- 30610224000 \<le> l" "l < 253402300800"
  shows "printable (gmtime l)"
proof -
  define d x where "d = l div 86400" and "x = l mod 86400"
  have "d * 86400 + x = l" "0 \<le> x" "x < 86400" unfolding d_def x_def by (rule div_mult_mod_eq day_range)+
  then have "365243 \<le> d + epoch_day" "d + epoch_day < 3652425" using assms unfolding epoch_day_def by linarith+
  from year_of_day [OF this] have "1000 \<le> tm_year (gmtime l) + 1900 \<and> tm_year (gmtime l) + 1900 \<le> 9999"
    unfolding gmtime_def Let_def d_def by simp
  then show ?thesis using gmtime_in_range [of l] by (simp add: printable_def)
qed

lemma printable_localtime: "printable (gmtime (s + offset_at zone s)) \<Longrightarrow> printable (localtime zone s)"
  by (simp add: printable_def localtime_def fields_in_range_def)

lemma strftime_append:
  "plain_format fmt \<Longrightarrow> strftime fmt t = Some s \<Longrightarrow> strftime (fmt @ g) t = map_option (append s) (strftime g t)"
proof (induction fmt arbitrary: s rule: plain_format.induct)
  case 1
  then show ?case by (cases "strftime g t") simp_all
next
  case (2 c)
  then have "strftime (c # g) t = map_option (Cons c) (strftime g t)" by (cases g) (auto split: if_splits)
  then show ?case using 2 by (cases "strftime g t") (auto split: if_splits)
next
  case (3 c k fmt)
  show ?case
  proof (cases "c = ch CHR ''%''")
    case True
    then obtain f s' where "print_field k t = Some f" "strftime fmt t = Some s'" "s = f @ s'"
      using 3(5) by (auto simp: bind_eq_Some_conv)
    then show ?thesis using True 3(1) [of s'] 3(4) by (cases "strftime g t") simp_all
  next
    case False
    then obtain s' where s': "strftime (k # fmt) t = Some s'" "s = c # s'" using 3(5) by auto
    have "plain_format (k # fmt)" using 3(4) False by (auto split: if_splits)
    then have "strftime ((k # fmt) @ g) t = map_option (append s') (strftime g t)"
      using 3(2,3) [OF False _ _ s'(1)] by blast
    then show ?thesis using False s'(2) by (cases "strftime g t") simp_all
  qed
qed

definition zone_parts :: "int \<Rightarrow> bytes" where
  "zone_parts off = offset_text (sign_char off) (nat (\<bar>off\<bar> div 60 div 60)) (nat (\<bar>off\<bar> div 60 mod 60)) (nat (\<bar>off\<bar> mod 60))"

lemma zone_ranges:
  assumes "\<bar>off\<bar> < 86400"
  shows "nat (\<bar>off\<bar> div 60 div 60) < 24" "nat (\<bar>off\<bar> div 60 mod 60) < 60" "nat (\<bar>off\<bar> mod 60) < 60"
proof -
  define a where "a = \<bar>off\<bar>"
  have "0 \<le> a" "a < 86400" using assms unfolding a_def by simp_all
  then show "nat (\<bar>off\<bar> div 60 div 60) < 24" "nat (\<bar>off\<bar> div 60 mod 60) < 60" "nat (\<bar>off\<bar> mod 60) < 60"
    unfolding a_def [symmetric] by (auto simp: nat_less_iff div_mult2_eq [symmetric] zdiv_zmult2_eq [symmetric])
qed

lemma zone_offset_digits:
  assumes "\<bar>off\<bar> < 86400"
  shows "zone_offset off = sign_char off # digits 2 (nat (\<bar>off\<bar> div 60 div 60)) @ digits 2 (nat (\<bar>off\<bar> div 60 mod 60))"
proof -
  define h mi where "h = \<bar>off\<bar> div 60 div 60" and "mi = \<bar>off\<bar> div 60 mod 60"
  have r: "nat h < 24" "nat mi < 60" using zone_ranges [OF assms] unfolding h_def mi_def by simp_all
  have p: "0 \<le> h" "0 \<le> mi" unfolding h_def mi_def by simp_all
  then have "fmt_0d 4 (h * 100 + mi) = digits 4 (nat (h * 100 + mi))" using r by (intro fmt_0d_digits) auto
  also have "nat (h * 100 + mi) = nat h * 100 + nat mi" using p by (simp add: nat_add_distrib nat_mult_distrib)
  also have "digits 4 (nat h * 100 + nat mi) = digits 2 (nat h) @ digits 2 (nat mi)" using r by (intro digits_4_split) simp
  finally show ?thesis unfolding zone_offset_def Let_def h_def mi_def sign_char_def by simp
qed

lemma seconds_digits:
  assumes "\<bar>off\<bar> < 86400"
  shows "[of_int (48 + \<bar>cmod (cmod off 3600) 60\<bar> div 10), of_int (48 + \<bar>cmod (cmod off 3600) 60\<bar> mod 10)]
    = digits 2 (nat (\<bar>off\<bar> mod 60))"
proof -
  have cm: "cmod x b = sgn x * (\<bar>x\<bar> mod b)" if "0 < b" for x b :: int
  proof -
    have "sgn x * \<bar>x\<bar> = x" by (rule sgn_mult_abs)
    then have "cmod x b = sgn x * (\<bar>x\<bar> - \<bar>x\<bar> div b * b)"
      using that by (simp add: cmod_def cdiv_pos right_diff_distrib mult.assoc)
    then show ?thesis by (simp only: minus_div_mult_eq_mod)
  qed
  define a where "a = \<bar>off\<bar>"
  have s: "\<bar>sgn x * y\<bar> = y" if "0 \<le> y" "x = 0 \<Longrightarrow> y = 0" for x y :: int
    using that by (cases x "0 :: int" rule: linorder_cases) simp_all
  have "\<bar>cmod off 3600\<bar> = a mod 3600" unfolding cm [OF zero_less_numeral] a_def by (rule s) simp_all
  then have "\<bar>cmod (cmod off 3600) 60\<bar> = a mod 3600 mod 60"
    unfolding cm [OF zero_less_numeral, of "cmod off 3600" "num.Bit0 (num.Bit0 (num.Bit1 (num.Bit1 (num.Bit1 num.One))))"] by (subst s) auto
  also have "a mod 3600 mod 60 = a mod 60" by (rule mod_mod_cancel) simp
  finally have e: "\<bar>cmod (cmod off 3600) 60\<bar> = a mod 60" .
  define k where "k = nat (a mod 60)"
  have k: "a mod 60 = int k" "k < 60" unfolding k_def by (simp_all add: nat_less_iff)
  have "of_int (48 + int k div 10) = (digit (k div 10 mod 10) :: byte)" "of_int (48 + int k mod 10) = (digit (k mod 10) :: byte)"
  proof -
    have i: "(48 :: int) + int k div 10 = int (48 + k div 10)" "(48 :: int) + int k mod 10 = int (48 + k mod 10)"
      by (simp_all add: zdiv_int zmod_int)
    show "of_int (48 + int k div 10) = (digit (k div 10 mod 10) :: byte)" "of_int (48 + int k mod 10) = (digit (k mod 10) :: byte)"
      unfolding i digit_def of_int_of_nat_eq using k(2) by simp_all
  qed
  then show ?thesis unfolding e k(1) a_def [symmetric] digits_2 by simp
qed

text \<open>The text of a timestamp: the fields, the microseconds without trailing zeros and the offset of the zone.\<close>

lemma timestamp_text:
  assumes "plain_format fmt" "text_width fmt \<le> 23" "printable (gmtime (u div 1000000))"
  shows "\<exists>s. strftime fmt (gmtime (u div 1000000)) = Some s \<and> length s \<le> 23
    \<and> ydboctoDateTimeInternalFormat2TextC zone mktime now (instant_value u) TIMESTAMP_LITERAL fmt = Some (s @ micro_text (u mod 1000000))"
proof -
  from strptime_strftime [OF assms(3,1)] obtain s where s: "strftime fmt (gmtime (u div 1000000)) = Some s" "length s \<le> text_width fmt"
    by blast
  have fmt: "cstr fmt = fmt" using copy_fields_select [OF assms(1)] by (intro cstr_nul_free) (simp add: nul_free_def)
  have len: "length s \<le> 23" using s(2) assms(2) by simp
  then have am: "append_micro s (u mod 1000000) = Some (s @ micro_text (u mod 1000000))"
    by (intro append_micro_text micro_range) simp
  have "ydboctoDateTimeInternalFormat2TextC zone mktime now (instant_value u) TIMESTAMP_LITERAL fmt
      = append_micro s (u mod 1000000)"
    unfolding ydboctoDateTimeInternalFormat2TextC_def remove_micro_instant fmt
    using s(1) len by (simp add: output_time_def is_zone_type_def Let_def)
  then show ?thesis using s(1) am len by auto
qed

lemma length_zone_parts: "length (zone_parts off) \<le> 9"
  by (simp add: zone_parts_def offset_text_def)

lemma timestamp_zone_text:
  assumes "plain_format fmt" "text_width fmt \<le> 23" "printable (localtime zone (u div 1000000))"
    and "\<bar>offset_at zone (u div 1000000)\<bar> < 86400"
  shows "\<exists>s. strftime fmt (localtime zone (u div 1000000)) = Some s \<and> length s \<le> 23
    \<and> ydboctoDateTimeInternalFormat2TextC zone mktime now (instant_value u) TIMESTAMP_WITH_TIME_ZONE_LITERAL (fmt @ lit ''%z'')
      = Some (s @ micro_text (u mod 1000000) @ zone_parts (offset_at zone (u div 1000000)))"
proof -
  define t off where "t = localtime zone (u div 1000000)" and "off = offset_at zone (u div 1000000)"
  have o: "tm_gmtoff t = off" by (simp add: t_def off_def localtime_def)
  have r: "\<bar>off\<bar> < 86400" using assms(4) by (simp add: off_def)
  from strptime_strftime [OF assms(3,1)] obtain s where s: "strftime fmt t = Some s" "length s \<le> text_width fmt"
    unfolding t_def by blast
  have fmt: "cstr (fmt @ lit ''%z'') = fmt @ lit ''%z''"
    using copy_fields_select [OF assms(1)] by (intro cstr_nul_free) (simp add: nul_free_def ch_def)
  have len: "length s \<le> 23" using s(2) assms(2) by simp
  let ?h = "nat (\<bar>off\<bar> div 60 div 60)" and ?mi = "nat (\<bar>off\<bar> div 60 mod 60)" and ?se = "nat (\<bar>off\<bar> mod 60)"
  have zo: "zone_offset off = sign_char off # digits 2 ?h @ digits 2 ?mi" by (rule zone_offset_digits [OF r])
  then have lz: "length (zone_offset off) = 5" by simp
  have "strftime (lit ''%z'') t = Some (zone_offset off)" by (simp add: print_field_def o)
  then have st: "strftime (fmt @ lit ''%z'') t = Some (s @ zone_offset off)"
    using strftime_append [OF assms(1) s(1)] by simp
  have am: "append_micro s (u mod 1000000) = Some (s @ micro_text (u mod 1000000))"
    using len by (intro append_micro_text micro_range) simp
  have zt: "zone_text (zone_offset off @ digits 2 ?se) = zone_parts off"
    unfolding zo zone_parts_def using zone_ranges [OF r] by (simp add: zone_text_offset)
  have "length (micro_text (u mod 1000000)) \<le> 7"
    using arg_cong [OF trim_zeros_replicate [of "digits 6 (nat (u mod 1000000))"], of length] by (simp add: micro_text_def)
  then have "fits 40 ((s @ micro_text (u mod 1000000)) @ zone_parts off) = Some ((s @ micro_text (u mod 1000000)) @ zone_parts off)"
    using len length_zone_parts [of off] by (simp add: fits_def)
  then have "ydboctoDateTimeInternalFormat2TextC zone mktime now (instant_value u) TIMESTAMP_WITH_TIME_ZONE_LITERAL (fmt @ lit ''%z'')
      = Some ((s @ micro_text (u mod 1000000)) @ zone_parts off)"
    unfolding ydboctoDateTimeInternalFormat2TextC_def remove_micro_instant fmt
    using st len lz am zt seconds_digits [OF r]
    by (simp add: output_time_def is_zone_type_def Let_def t_def [symmetric] o)
  then show ?thesis using s(1) len unfolding off_def t_def by auto
qed

lemma utc_mktime_copy:
  assumes "plain_format fmt" "field_chars \<subseteq> set fmt"
  shows "utc_mktime ((copy_fields fmt t t0)\<lparr>tm_gmtoff := g, tm_sec := tm_sec (copy_fields fmt t t0) + x\<rparr>) = utc_mktime t + x"
    "utc_mktime ((copy_fields fmt t t0)\<lparr>tm_sec := tm_sec (copy_fields fmt t t0) + x\<rparr>) = utc_mktime t + x"
  using copy_fields_select [OF assms(1), of t t0] assms(2) by (simp_all add: utc_mktime_def)

lemma text_nul_free: "\<forall>b \<in> set s. text_char b \<Longrightarrow> nul_free s" "nul_free (digits w n)" "nul_free (micro_text m)"
proof -
  show "\<forall>b \<in> set s. text_char b \<Longrightarrow> nul_free s" using text_char_special(2) by (auto simp: nul_free_def)
  have d: "nul_free (digits w n)" for w n
    using digits_in [of 0 w n] digit_special(3) unfolding nul_free_def by metis
  then show "nul_free (digits w n)" .
  show "nul_free (micro_text m)"
    using d [of 6 "nat m"] set_trim_zeros [of "digits 6 (nat m)"] by (auto simp: micro_text_def nul_free_def ch_def)
qed

lemma fits_seconds:
  assumes "- 99999999999 \<le> v" "v \<le> 999999999999"
  shows "fits 19 (fmt_d v @ digits 6 n) = Some (fmt_d v @ digits 6 n)"
  using length_fmt_d_seconds [OF assms] by (simp add: fits_def)

lemma read_timestamp_text:
  assumes "plain_format fmt" "field_chars \<subseteq> set fmt" "printable t" "strftime fmt t = Some s" "0 \<le> m" "m < 1000000"
    and "- 99999999999 \<le> utc_mktime t" "utc_mktime t \<le> 999999999999"
  shows "ydboctoText2InternalFormatC zone mktime now (s @ micro_text m) fmt = Some (fmt_d (utc_mktime t) @ digits 6 (nat m))"
proof -
  from strptime_strftime [OF assms(3,1)] assms(4) have s: "\<forall>b \<in> set s. text_char b"
    "\<And>more_fmt rest t0. strptime (fmt @ more_fmt) (s @ rest) t0 = strptime more_fmt rest (copy_fields fmt t t0)" by auto
  have scan: "strptime fmt s zero_tm = Some (copy_fields fmt t zero_tm, Some [])"
    using s(2) [of "[]" "[]" zero_tm] by (simp add: strptime_Nil)
  have z: "ch CHR ''z'' \<notin> set fmt" "cstr fmt = fmt" "ch CHR ''S'' \<in> set fmt"
    using copy_fields_select [OF assms(1)] assms(2) by (auto intro: cstr_nul_free simp: nul_free_def)
  have str: "cstr (s @ micro_text m) = s @ micro_text m" using text_nul_free s(1) by (intro cstr_nul_free) simp
  have em: "extract_micro (s @ micro_text m) = Some (s, digits 6 (nat m), False)"
    using extract_micro_text [OF assms(5,6) s(1), of "[]"] by simp
  show ?thesis
    using z em scan fits_seconds [OF assms(7,8)] utc_mktime_copy(2) [OF assms(1,2), of t zero_tm 0]
    by (simp add: ydboctoText2InternalFormatC_def str match_state_def)
qed

lemma zone_parts_shape: "zone_parts off \<noteq> []" "is_gmt_offset (hd (zone_parts off))" "ch CHR ''.'' \<notin> set (zone_parts off)" "nul_free (zone_parts off)"
proof -
  have "sign_char off \<noteq> ch CHR ''.''" "sign_char off \<noteq> 0" by (simp_all add: sign_char_def ch_def [of "CHR ''-''"] ch_def [of "CHR ''+''"] ch_def [of "CHR ''.''"])
  moreover have "ch CHR ''.'' \<notin> set (digits 2 n)" for n using digits_in digit_special(4) by metis
  moreover have "ch CHR '':'' \<noteq> 0" by (simp add: ch_def)
  ultimately show "zone_parts off \<noteq> []" "is_gmt_offset (hd (zone_parts off))" "ch CHR ''.'' \<notin> set (zone_parts off)" "nul_free (zone_parts off)"
    using text_nul_free(2) by (auto simp: zone_parts_def offset_text_def sign_char_def is_gmt_offset_def)
qed

lemma zone_seconds_value:
  assumes "\<bar>off\<bar> < 86400"
  shows "\<bar>off\<bar> = int (nat (\<bar>off\<bar> div 60 div 60)) * 3600 + int (nat (\<bar>off\<bar> div 60 mod 60)) * 60 + int (nat (\<bar>off\<bar> mod 60))"
proof -
  define a q where "a = \<bar>off\<bar>" and "q = a div 60"
  have "0 \<le> a" unfolding a_def by simp
  then have i: "int (nat (q div 60)) = q div 60" "int (nat (q mod 60)) = q mod 60" "int (nat (a mod 60)) = a mod 60"
    unfolding q_def by simp_all
  have "\<lbrakk>q * 60 + z = a; x * 60 + y = q\<rbrakk> \<Longrightarrow> a = x * 3600 + y * 60 + z" for x y z :: int by linarith
  then show ?thesis
    unfolding a_def [symmetric] q_def [symmetric] i using div_mult_mod_eq [of a 60, folded q_def] div_mult_mod_eq [of q 60] by blast
qed

lemma strtol_in_two:
  assumes "n < 60"
  shows "strtol (digits 2 n) = int n"
proof -
  obtain d r where e: "digits 2 n = digit d # r" "d < 10" using digits_Suc_shape [of 2 n] by auto
  have "\<forall>b \<in> set (digits 2 n). is_digit b" using digits_in is_digit_digit by blast
  then have tw: "takeWhile is_digit (digits 2 n) = digits 2 n" by (simp add: takeWhile_eq_all_conv)
  have "digit d \<noteq> 45" "digit d \<noteq> 43" using unat_of_digit [OF e(2)] by (auto simp: word_unat_eq_iff)
  then have "strtol_value (digits 2 n) = int (dec_val (digits 2 n))"
    using e tw digit_special(1) [OF e(2)] by (simp add: strtol_value_def)
  moreover have "dec_val (digits 2 n) = n" using assms by (intro dec_val_digits) simp
  ultimately show ?thesis using assms by (simp add: strtol_clamp clamp_long_def LONG_MIN_def LONG_MAX_def)
qed

lemma read_timestamp_zone_text:
  assumes "plain_format fmt" "field_chars \<subseteq> set fmt" "printable t" "strftime fmt t = Some s" "0 \<le> m" "m < 1000000"
    and "- 99999999999 \<le> utc_mktime t - off" "utc_mktime t - off \<le> 999999999999"
    and "\<bar>off\<bar> < 86400" "off \<le> - 60 \<or> 0 \<le> off"
  shows "ydboctoText2InternalFormatC zone mktime now (s @ micro_text m @ zone_parts off) (fmt @ lit ''%z'')
    = Some (fmt_d (utc_mktime t - off) @ digits 6 (nat m))"
proof -
  define h mi se where "h = nat (\<bar>off\<bar> div 60 div 60)" and "mi = nat (\<bar>off\<bar> div 60 mod 60)" and "se = nat (\<bar>off\<bar> mod 60)"
  define g where "g = (if off < 0 then - (int h * 3600 + int mi * 60) else int h * 3600 + int mi * 60)"
  define rest where "rest = (if se = 0 then [] else ch CHR '':'' # digits 2 se)"
  let ?c = "copy_fields fmt t zero_tm"
  from strptime_strftime [OF assms(3,1)] assms(4) have s: "\<forall>b \<in> set s. text_char b"
    "\<And>more_fmt rest t0. strptime (fmt @ more_fmt) (s @ rest) t0 = strptime more_fmt rest (copy_fields fmt t t0)" by auto
  have r: "h < 24" "mi < 60" "se < 60" unfolding h_def mi_def se_def by (rule zone_ranges [OF assms(9)])+
  have v: "\<bar>off\<bar> = int h * 3600 + int mi * 60 + int se" unfolding h_def mi_def se_def by (rule zone_seconds_value [OF assms(9)])
  have "get_offset (zone_parts off) = Some (g, rest)"
    unfolding zone_parts_def h_def [symmetric] mi_def [symmetric] se_def [symmetric] rest_def g_def
    using get_offset_text [of h mi "sign_char off" se] r by (simp add: sign_char_def)
  then have scan: "strptime (fmt @ lit ''%z'') (s @ zone_parts off) zero_tm = Some (?c\<lparr>tm_gmtoff := g\<rparr>, Some rest)"
    using s(2) strptime_zone by (simp add: set_field_def)
  have fmt: "cstr (fmt @ lit ''%z'') = fmt @ lit ''%z''" "ch CHR ''S'' \<in> set fmt"
    using copy_fields_select [OF assms(1)] assms(2) by (auto intro!: cstr_nul_free simp: nul_free_def ch_def)
  have str: "cstr (s @ micro_text m @ zone_parts off) = s @ micro_text m @ zone_parts off"
    using text_nul_free s(1) zone_parts_shape(4) by (intro cstr_nul_free) simp
  have em: "extract_micro (s @ micro_text m @ zone_parts off) = Some (s @ zone_parts off, digits 6 (nat m), m \<noteq> 0)"
    using extract_micro_text [OF assms(5,6) s(1) length_zone_parts zone_parts_shape(3)] zone_parts_shape(1,2) by simp
  have "strtol (digits 2 se) = int se"
    using strtol_in_two [OF r(3)] .
  then have ms: "match_state (?c\<lparr>tm_gmtoff := g\<rparr>) (Some rest) True b = (True, off - g, True)" for b
    using v r assms(10) by (auto simp: match_state_def rest_def g_def s32_small)
  show ?thesis
    using em scan ms fits_seconds [OF assms(7,8)] utc_mktime_copy(1) [OF assms(1,2), where t = t and t0 = zero_tm and g = g and x = "- off"] fmt(2)
    unfolding ydboctoText2InternalFormatC_def fmt(1) str Let_def by simp
qed

text \<open>The formats of timestamps in a date style: all six fields, in any order, and room for the offset of a time zone.\<close>

definition is_timestamp_format :: "bytes \<Rightarrow> bool" where
  "is_timestamp_format fmt \<longleftrightarrow> plain_format fmt \<and> field_chars \<subseteq> set fmt \<and> text_width fmt \<le> 23"

text \<open>
  C25: a timestamp between the years 1000 and 9999 that is printed in any format of the date styles, in a buffer of 40
  bytes that it does not leave, is read back to the microsecond; with a time zone too, whose offset is printed to the
  second and taken out again, provided it is less than a day and not between 0 and one minute west.
\<close>

theorem timestamp_text_roundtrip:
  assumes "is_timestamp_format fmt" "off = offset_at zone (u div 1000000)"
    and "\<bar>off\<bar> < 86400" "off \<le> - 60 \<or> 0 \<le> off"
    and "- 30610224000000000 \<le> u" "u < 253402300800000000"
    and "- 30610224000000000 \<le> u + off * 1000000" "u + off * 1000000 < 253402300800000000"
  shows "\<exists>r. Option.bind (ydboctoDateTimeInternalFormat2TextC zone mktime now (instant_value u) TIMESTAMP_LITERAL fmt)
        (\<lambda>s. ydboctoText2InternalFormatC zone mktime now s fmt) = Some r
      \<and> Option.bind (ydboctoDateTimeInternalFormat2TextC zone mktime now (instant_value u) TIMESTAMP_WITH_TIME_ZONE_LITERAL (fmt @ lit ''%z''))
        (\<lambda>s. ydboctoText2InternalFormatC zone mktime now s (fmt @ lit ''%z'')) = Some r
      \<and> strtol r = instant_value u"
proof -
  define v m where "v = u div 1000000" and "m = u mod 1000000"
  have m: "0 \<le> m" "m < 1000000" unfolding m_def by (rule micro_range)+
  have u: "v * 1000000 + m = u" unfolding v_def m_def by (rule div_mult_mod_eq)
  have bounds: "- 30610224000 \<le> v" "v < 253402300800" "- 30610224000 \<le> v + off" "v + off < 253402300800"
    using assms(5-8) u m by linarith+
  note fmt = assms(1) [unfolded is_timestamp_format_def]
  have p: "printable (gmtime v)" "printable (localtime zone v)"
    using bounds assms(2) by (auto intro!: printable_gmtime printable_localtime simp: v_def)
  from timestamp_text [of fmt u zone mktime now] fmt p(1) obtain s where
    s: "strftime fmt (gmtime v) = Some s"
      "ydboctoDateTimeInternalFormat2TextC zone mktime now (instant_value u) TIMESTAMP_LITERAL fmt = Some (s @ micro_text m)"
    unfolding v_def m_def by auto
  have r1: "ydboctoText2InternalFormatC zone mktime now (s @ micro_text m) fmt = Some (fmt_d v @ digits 6 (nat m))"
    using read_timestamp_text [OF _ _ p(1) s(1) m, of zone mktime now] fmt bounds by (simp add: utc_mktime_gmtime)
  from timestamp_zone_text [of fmt zone u mktime now] fmt p(2) assms(2,3) obtain s' where
    s': "strftime fmt (localtime zone v) = Some s'"
      "ydboctoDateTimeInternalFormat2TextC zone mktime now (instant_value u) TIMESTAMP_WITH_TIME_ZONE_LITERAL (fmt @ lit ''%z'')
        = Some (s' @ micro_text m @ zone_parts off)"
    unfolding v_def m_def by auto
  have "utc_mktime (localtime zone v) - off = v" using assms(2) by (simp add: utc_mktime_localtime v_def)
  then have r2: "ydboctoText2InternalFormatC zone mktime now (s' @ micro_text m @ zone_parts off) (fmt @ lit ''%z'')
      = Some (fmt_d v @ digits 6 (nat m))"
    using read_timestamp_zone_text [OF _ _ p(2) s'(1) m _ _ assms(3,4), of zone mktime now] fmt bounds by simp
  have "strtol (fmt_d v @ digits 6 (nat m)) = instant_value u"
    using strtol_encoded [OF m, of v] bounds unfolding instant_value_def v_def [symmetric] m_def [symmetric] by simp
  then show ?thesis
    unfolding s(2) s'(2) using r1 r2 by simp
qed

theorem timestamp_text_roundtrip_witness:
  "\<exists>r. Option.bind (ydboctoDateTimeInternalFormat2TextC \<lparr>offset_at = (\<lambda>_. - 19815), dst_at = (\<lambda>_. False)\<rparr> utc_mktime 0
         (instant_value 1700000000120000) TIMESTAMP_LITERAL (lit ''%d-%m-%Y %H:%M:%S''))
       (\<lambda>s. ydboctoText2InternalFormatC \<lparr>offset_at = (\<lambda>_. - 19815), dst_at = (\<lambda>_. False)\<rparr> utc_mktime 0 s (lit ''%d-%m-%Y %H:%M:%S'')) = Some r
     \<and> Option.bind (ydboctoDateTimeInternalFormat2TextC \<lparr>offset_at = (\<lambda>_. - 19815), dst_at = (\<lambda>_. False)\<rparr> utc_mktime 0
         (instant_value 1700000000120000) TIMESTAMP_WITH_TIME_ZONE_LITERAL (lit ''%d-%m-%Y %H:%M:%S'' @ lit ''%z''))
       (\<lambda>s. ydboctoText2InternalFormatC \<lparr>offset_at = (\<lambda>_. - 19815), dst_at = (\<lambda>_. False)\<rparr> utc_mktime 0 s (lit ''%d-%m-%Y %H:%M:%S'' @ lit ''%z'')) = Some r
     \<and> strtol r = instant_value 1700000000120000"
  by (rule timestamp_text_roundtrip [where off = "- 19815"]) (simp_all add: is_timestamp_format_def text_width_def)

end
