(* ===== verification/Date_Style_Laws.thy ===== *)
theory Date_Style_Laws
  imports Date_Style Date_Text_Laws
begin

text \<open>
  Which date styles are accepted and what they mean, against a reference that reads the value as a list of tokens;
  and that every format they give is one in which timestamps can be read back.
\<close>

section \<open>Tokens\<close>

datatype style_token = ISO_token | ORDER_token bytes | COMMA_token

definition is_order :: "bytes \<Rightarrow> bool" where
  "is_order p \<longleftrightarrow> p \<in> {lit ''ymd'', lit ''ydm'', lit ''myd'', lit ''mdy'', lit ''dym'', lit ''dmy''}"

function style_tokens :: "bytes \<Rightarrow> style_token list option" where
  "style_tokens [] = Some []"
| "style_tokens (c # s) =
     (if is_blank c then style_tokens s
      else if c = ch CHR '','' then map_option (Cons COMMA_token) (style_tokens s)
      else if take 3 (c # s) = lit ''iso'' then map_option (Cons ISO_token) (style_tokens (drop 2 s))
      else if is_order (take 3 (c # s)) then map_option (Cons (ORDER_token (take 3 (c # s)))) (style_tokens (drop 2 s))
      else None)"
  by pat_completeness auto
termination
  by (relation "measure length") auto

text \<open>A style names the output ISO, an order of year, month and day, or both separated by a comma.\<close>

fun style_meaning :: "style_token list \<Rightarrow> bytes option option" where
  "style_meaning [] = Some None"
| "style_meaning [ISO_token] = Some None"
| "style_meaning [ORDER_token p] = Some (Some p)"
| "style_meaning [ISO_token, COMMA_token, ORDER_token p] = Some (Some p)"
| "style_meaning [ORDER_token p, COMMA_token, ISO_token] = Some (Some p)"
| "style_meaning ts = None"

definition order_format :: "bytes \<Rightarrow> bytes" where
  "order_format p =
     tl (concat (map (\<lambda>c. [ch CHR ''-'', ch CHR ''%'', if c = ch CHR ''y'' then ch CHR ''Y'' else c]) p))"

definition style_config :: "bytes \<Rightarrow> date_config \<Rightarrow> date_config" where
  "style_config p config = config\<lparr>datestyle := lit ''ISO, '' @ map toupper p, date_format := order_format p,
     timestamp_format := order_format p @ lit '' %H:%M:%S'', timestamptz_format := order_format p @ lit '' %H:%M:%S%z''\<rparr>"

section \<open>The loop reads tokens\<close>

definition order_state :: "bytes \<Rightarrow> style_state \<Rightarrow> style_state" where
  "order_state p st = st\<lparr>is_first_char := False, is_date_time_format_set := True, is_year_set := True, is_month_set := True,
     is_day_set := True, date_buf := order_format p, timestamp_buf := order_format p, style_buf := lit ''ISO, '' @ map toupper p\<rparr>"

definition token_step :: "style_token \<Rightarrow> style_state \<Rightarrow> style_error + style_state" where
  "token_step t st =
     (case t of
        ISO_token \<Rightarrow> if is_iso_format st then Inl STYLE_INVALID else Inr (st\<lparr>is_iso_format := True\<rparr>)
      | ORDER_token p \<Rightarrow> if is_date_time_format_set st then Inl STYLE_INVALID else Inr (order_state p st)
      | COMMA_token \<Rightarrow> style_comma st)"

fun style_run :: "style_token list \<Rightarrow> style_state \<Rightarrow> style_error + style_state" where
  "style_run [] st = Inr st"
| "style_run (t # ts) st = bindE (token_step t st) (style_run ts)"

text \<open>Before the order has been read the buffers are empty.\<close>

definition style_inv :: "style_state \<Rightarrow> bool" where
  "style_inv st \<longleftrightarrow> is_date_time_format_set st \<or>
     \<not> is_year_set st \<and> \<not> is_month_set st \<and> \<not> is_day_set st \<and> is_first_char st
     \<and> date_buf st = [] \<and> timestamp_buf st = [] \<and> style_buf st = lit ''ISO, ''"

lemma style_inv_step: "style_inv st \<Longrightarrow> token_step t st = Inr st' \<Longrightarrow> style_inv st'"
  by (cases t) (auto simp: token_step_def style_inv_def style_comma_def order_state_def split: if_splits)

lemma order_cases:
  "is_order [a, b, c] \<longleftrightarrow> {a, b, c} \<subseteq> {ch CHR ''y'', ch CHR ''m'', ch CHR ''d''} \<and> a \<noteq> b \<and> a \<noteq> c \<and> b \<noteq> c"
  by (auto simp: is_order_def)

lemma style_field_letter:
  assumes "c = ch CHR ''y'' \<or> c = ch CHR ''m'' \<or> c = ch CHR ''d''"
  shows "style_field c st =
    (if c = ch CHR ''y'' \<and> is_year_set st \<or> c = ch CHR ''m'' \<and> is_month_set st \<or> c = ch CHR ''d'' \<and> is_day_set st then Inl STYLE_INVALID
     else
       let piece = (if is_first_char st then [] else [ch CHR ''-'']) @ [ch CHR ''%'', if c = ch CHR ''y'' then ch CHR ''Y'' else c] in
       bindE (put_bytes DEFAULT_DATE_FORMAT (date_buf st) piece) (\<lambda>d.
       bindE (put_bytes DEFAULT_TIMESTAMP_FORMAT (timestamp_buf st) piece) (\<lambda>t.
       bindE (put_bytes DEFAULT_DATESTYLE (style_buf st) [toupper c]) (\<lambda>s.
       Inr (st\<lparr>is_year_set := is_year_set st \<or> c = ch CHR ''y'', is_month_set := is_month_set st \<or> c = ch CHR ''m'',
               is_day_set := is_day_set st \<or> c = ch CHR ''d'', is_first_char := False, date_buf := d, timestamp_buf := t,
               style_buf := s\<rparr>)))))"
  using assms by (simp add: style_field_def Let_def)

abbreviation is_letter :: "byte \<Rightarrow> bool" where
  "is_letter c \<equiv> c = ch CHR ''y'' \<or> c = ch CHR ''m'' \<or> c = ch CHR ''d''"

lemma style_field_other: "\<not> is_letter c \<Longrightarrow> style_field c st = Inl STYLE_INVALID"
  by (simp add: style_field_def)

lemma nul_no_letter: "\<not> is_letter 0"
  by (simp add: ch_def)

lemma char_at_simps [simp]: "char_at (c # s) 0 = c" "char_at (c # b # s) (Suc 0) = b" "char_at (c # b # a # s) 2 = a"
  "char_at [c] (Suc 0) = 0" "char_at [c] 2 = 0" "char_at [c, b] 2 = 0"
  by (simp_all add: char_at_def)

text \<open>The state after the first letters of the order.\<close>

definition partial_order :: "bytes \<Rightarrow> style_state \<Rightarrow> style_state" where
  "partial_order p st = st\<lparr>is_first_char := (p = []), is_date_time_format_set := True, is_year_set := ch CHR ''y'' \<in> set p,
     is_month_set := ch CHR ''m'' \<in> set p, is_day_set := ch CHR ''d'' \<in> set p, date_buf := order_format p,
     timestamp_buf := order_format p, style_buf := lit ''ISO, '' @ map toupper p\<rparr>"

lemma order_format_snoc:
  "order_format (p @ [c]) = order_format p @ (if p = [] then [] else [ch CHR ''-'']) @ [ch CHR ''%'', if c = ch CHR ''y'' then ch CHR ''Y'' else c]"
  by (cases p) (simp_all add: order_format_def)

lemma length_order_format: "length (order_format p) = 3 * length p - 1"
  by (simp add: order_format_def length_concat o_def sum_list_triv)

lemma style_field_partial:
  assumes "is_letter c" "length p < 3"
  shows "style_field c (partial_order p st) = (if c \<in> set p then Inl STYLE_INVALID else Inr (partial_order (p @ [c]) st))"
proof -
  have len: "length (order_format p) + (if p = [] then 2 else 3) \<le> 9"
    using assms(2) by (cases p) (simp_all add: length_order_format)
  have piece: "length ((if p = [] then [] else [ch CHR ''-'']) @ [ch CHR ''%'', if c = ch CHR ''y'' then ch CHR ''Y'' else c])
      = (if p = [] then 2 else 3)" by simp
  have "put_bytes DEFAULT_DATE_FORMAT (order_format p) ((if p = [] then [] else [ch CHR ''-'']) @ [ch CHR ''%'', if c = ch CHR ''y'' then ch CHR ''Y'' else c])
      = Inr (order_format (p @ [c]))"
    "put_bytes DEFAULT_TIMESTAMP_FORMAT (order_format p) ((if p = [] then [] else [ch CHR ''-'']) @ [ch CHR ''%'', if c = ch CHR ''y'' then ch CHR ''Y'' else c])
      = Inr (order_format (p @ [c]))"
    "put_bytes DEFAULT_DATESTYLE (lit ''ISO, '' @ map toupper p) [toupper c] = Inr (lit ''ISO, '' @ map toupper (p @ [c]))"
    using len assms(2) unfolding put_bytes_def piece order_format_snoc
    by (simp_all add: DEFAULT_DATE_FORMAT_def DEFAULT_TIMESTAMP_FORMAT_def DEFAULT_DATESTYLE_def)
  then show ?thesis
    using assms(1) unfolding style_field_letter [OF assms(1)]
    by (auto simp: partial_order_def Let_def)
qed

lemma order_state_partial: "is_order p \<Longrightarrow> order_state p st = partial_order p st"
  by (auto simp: is_order_def order_state_def partial_order_def)

lemma style_order_tokens:
  assumes "style_inv st" "\<not> is_date_time_format_set st" "is_letter c"
  shows "style_order (c # s) st = (if is_order (take 3 (c # s)) then Inr (order_state (take 3 (c # s)) st) else Inl STYLE_INVALID)"
proof -
  have start: "st\<lparr>is_date_time_format_set := True\<rparr> = partial_order [] st"
    using assms(1,2) by (cases st) (simp add: style_inv_def partial_order_def order_format_def)
  have first: "style_field c (partial_order [] st) = Inr (partial_order [c] st)"
    using style_field_partial [OF assms(3), of "[]" st] by simp
  have shorter: "\<not> is_order p" if "length p \<noteq> 3" for p using that by (auto simp: is_order_def)
  have o: "style_order (c # s) st = bindE (style_field (char_at (c # s) 1) (partial_order [c] st)) (style_field (char_at (c # s) 2))"
    using assms(2) first by (simp add: style_order_def start)
  show ?thesis
  proof (cases s)
    case Nil
    then show ?thesis unfolding o using shorter [of "[c]"] nul_no_letter by (simp add: style_field_other)
  next
    case (Cons b r)
    have second: "style_field b (partial_order [c] st) = (if is_letter b \<and> b \<noteq> c then Inr (partial_order [c, b] st) else Inl STYLE_INVALID)"
      using style_field_partial [of b "[c]" st] style_field_other [of b] by (cases "is_letter b") auto
    show ?thesis
    proof (cases r)
      case Nil
      then show ?thesis unfolding o using Cons second shorter [of "[c, b]"] nul_no_letter by (simp add: style_field_other)
    next
      case (Cons a r')
      have third: "style_field a (partial_order [c, b] st) = (if is_letter a \<and> a \<noteq> c \<and> a \<noteq> b then Inr (partial_order [c, b, a] st) else Inl STYLE_INVALID)"
        using style_field_partial [of a "[c, b]" st] style_field_other [of a] by (cases "is_letter a") auto
      have "is_order [c, b, a] \<longleftrightarrow> is_letter b \<and> b \<noteq> c \<and> is_letter a \<and> a \<noteq> c \<and> a \<noteq> b"
        using assms(3) by (auto simp: order_cases)
      then show ?thesis
        unfolding o using Cons \<open>s = b # r\<close> second third order_state_partial [of "[c, b, a]" st] by auto
    qed
  qed
qed

lemma style_iso_tokens:
  "style_iso (ch CHR ''i'' # s) st
     = (if is_iso_format st \<or> take 3 (ch CHR ''i'' # s) \<noteq> lit ''iso'' then Inl STYLE_INVALID else Inr (st\<lparr>is_iso_format := True\<rparr>))"
proof (cases s)
  case Nil
  then show ?thesis by (simp add: style_iso_def)
next
  case (Cons a r)
  have "ch CHR ''s'' \<noteq> 0" "ch CHR ''o'' \<noteq> 0" by (simp_all add: ch_def)
  then show ?thesis using Cons by (cases r) (auto simp: style_iso_def)
qed

lemma order_first: "is_order (take 3 (c # s)) \<Longrightarrow> is_letter c"
  by (auto simp: is_order_def)

lemma letter_not_blank: "is_letter c \<Longrightarrow> \<not> is_blank c \<and> c \<noteq> ch CHR '','' \<and> c \<noteq> ch CHR ''i''"
  "\<not> is_blank (ch CHR ''i'')" "\<not> is_blank (ch CHR '','')" "take 3 (c # s) = lit ''iso'' \<Longrightarrow> c = ch CHR ''i''"
  by (auto simp: is_blank_def ch_def)

text \<open>The loop over the characters is the run over the tokens.\<close>

lemma style_loop_tokens:
  "style_inv st \<Longrightarrow>
     style_loop s st = (case style_tokens s of None \<Rightarrow> Inl STYLE_INVALID | Some ts \<Rightarrow> style_run ts st)"
proof (induction s st rule: style_loop.induct)
  case (1 st)
  show ?case by simp
next
  case (2 c s st)
  consider (iso) "c = ch CHR ''i''" | (order) "c \<noteq> ch CHR ''i''" "is_letter c"
    | (comma) "c \<noteq> ch CHR ''i''" "\<not> is_letter c" "c = ch CHR '',''"
    | (blank) "c \<noteq> ch CHR ''i''" "\<not> is_letter c" "c \<noteq> ch CHR '',''" "is_blank c"
    | (other) "c \<noteq> ch CHR ''i''" "\<not> is_letter c" "c \<noteq> ch CHR '',''" "\<not> is_blank c"
    by blast
  then show ?case
  proof cases
    case iso
    have no: "\<not> is_order (take 3 (ch CHR ''i'' # s))" using order_first by force
    show ?thesis
    proof (cases "is_iso_format st \<or> take 3 (ch CHR ''i'' # s) \<noteq> lit ''iso''")
      case True
      then show ?thesis
        using iso no letter_not_blank(2) style_iso_tokens [of s st]
        by (auto simp: token_step_def simp del: take_Cons_numeral split: option.splits)
    next
      case False
      then have "style_iso (c # s) st = Inr (st\<lparr>is_iso_format := True\<rparr>)" using iso style_iso_tokens by simp
      moreover have "style_inv (st\<lparr>is_iso_format := True\<rparr>)" using 2(5) by (simp add: style_inv_def)
      ultimately show ?thesis
        using 2(1) [OF iso] False iso letter_not_blank(2)
        by (simp add: token_step_def del: take_Cons_numeral split: option.splits)
    qed
  next
    case order
    note l = letter_not_blank(1) [OF order(2)]
    have ni: "take 3 (c # s) \<noteq> lit ''iso''" using letter_not_blank(4) order(1) by blast
    show ?thesis
    proof (cases "is_date_time_format_set st")
      case True
      then show ?thesis
        using order l ni by (auto simp: style_order_def token_step_def simp del: take_Cons_numeral split: option.splits)
    next
      case False
      note o = style_order_tokens [OF 2(5) False order(2), of s]
      have "style_inv (order_state (take 3 (c # s)) st)" by (simp add: style_inv_def order_state_def)
      then show ?thesis
        using 2(2) [OF order] o order l ni False
        by (cases "is_order (take 3 (c # s))") (auto simp: token_step_def simp del: take_Cons_numeral split: option.splits)
    qed
  next
    case comma
    have "style_inv st' " if "style_comma st = Inr st'" for st'
      using 2(5) that style_inv_step [of st COMMA_token st'] by (simp add: token_step_def)
    then show ?thesis
      using 2(3) [OF comma(1,2,3)] comma letter_not_blank(3)
      by (cases "style_comma st") (auto simp: token_step_def style_comma_def split: option.splits if_splits)
  next
    case blank
    then show ?thesis using 2(4) [OF blank(1,2,3,4) 2(5)] by simp
  next
    case other
    then show ?thesis using order_first letter_not_blank(4) by (auto simp del: take_Cons_numeral)
  qed
qed

section \<open>The meaning of a date style\<close>

lemma tokens_orders: "style_tokens s = Some ts \<Longrightarrow> ORDER_token p \<in> set ts \<Longrightarrow> is_order p"
  by (induction s arbitrary: ts rule: style_tokens.induct) (auto simp del: take_Cons_numeral split: if_splits)

lemma style_finish_order:
  assumes "is_order p"
  shows "style_finish config (order_state p st) =
    (if is_separator_reached st = is_iso_format st then Inr (style_config p config) else Inl STYLE_INVALID)"
proof -
  have n: "nul_free (order_format p)" "nul_free (map toupper p)" "length (order_format p) = 8" "length p = 3"
    using assms by (auto simp: is_order_def order_format_def toupper_def ch_def)
  have c: "nul_free (lit '' %H:%M:%S'')" "nul_free (lit '' %H:%M:%S%z'')" "nul_free (lit ''ISO, '')" by (simp_all add: ch_def)
  have "cstr (order_format p @ lit '' %H:%M:%S'' @ [0]) = order_format p @ lit '' %H:%M:%S''"
    using cstr_append [of "order_format p @ lit '' %H:%M:%S''" "[]"] n(1) c(1) by simp
  moreover have "cstr (order_format p @ lit '' %H:%M:%S%z'' @ [0]) = order_format p @ lit '' %H:%M:%S%z''"
    using cstr_append [of "order_format p @ lit '' %H:%M:%S%z''" "[]"] n(1) c(2) by simp
  moreover have "cstr (lit ''ISO, '' @ map toupper p @ [0]) = lit ''ISO, '' @ map toupper p"
    using cstr_append [of "lit ''ISO, '' @ map toupper p" "[]"] n(2) c(3) by simp
  moreover have "cstr (order_format p @ [0]) = order_format p"
    using cstr_append [of "order_format p" "[]"] n(1) by simp
  ultimately show ?thesis
    using n(3,4)
    by (simp add: style_finish_def order_state_def style_config_def put_bytes_def DEFAULT_DATESTYLE_def
        DEFAULT_DATE_FORMAT_def DEFAULT_TIMESTAMP_FORMAT_def DEFAULT_TIME_FORMAT_def)
qed

text \<open>Every token sets one of three flags, so no more than three are read.\<close>

definition flags_set :: "style_state \<Rightarrow> nat" where
  "flags_set st = of_bool (is_iso_format st) + of_bool (is_date_time_format_set st) + of_bool (is_separator_reached st)"

lemma token_step_flag: "token_step t st = Inr st' \<Longrightarrow> flags_set st' = Suc (flags_set st)"
  by (cases t) (auto simp: token_step_def style_comma_def order_state_def flags_set_def split: if_splits)

lemma style_run_flags: "style_run ts st = Inr st' \<Longrightarrow> flags_set st' = flags_set st + length ts"
  by (induction ts arbitrary: st) (auto simp: bindE_Inr_iff token_step_flag)

lemma token_step_invalid: "token_step t st = Inl e \<Longrightarrow> e = STYLE_INVALID"
  by (cases t) (auto simp: token_step_def style_comma_def split: if_splits)

lemma style_run_invalid: "style_run ts st = Inl e \<Longrightarrow> e = STYLE_INVALID"
  by (induction ts arbitrary: st) (auto simp: bindE_Inl_iff token_step_invalid)

lemma style_run_long: "3 < length ts \<Longrightarrow> style_run ts style_start = Inl STYLE_INVALID"
proof (cases "style_run ts style_start")
  case (Inl e)
  then show ?thesis using style_run_invalid by simp
next
  case (Inr st)
  assume "3 < length ts"
  moreover have "flags_set st \<le> 3" by (simp add: flags_set_def)
  ultimately show ?thesis using style_run_flags [OF Inr] by simp
qed

lemma style_meaning_long: "3 < length ts \<Longrightarrow> style_meaning ts = None"
  by (induction ts rule: style_meaning.induct) auto

definition style_result :: "date_config \<Rightarrow> bytes option option \<Rightarrow> style_error + date_config" where
  "style_result config r =
     (case r of None \<Rightarrow> Inl STYLE_INVALID | Some None \<Rightarrow> Inr config | Some (Some p) \<Rightarrow> Inr (style_config p config))"

lemma style_start_flags [simp]:
  "\<not> is_iso_format style_start" "\<not> is_date_time_format_set style_start" "\<not> is_separator_reached style_start"
  by (simp_all add: style_start_def)

lemma order_state_flags [simp]:
  "is_iso_format (order_state p st) = is_iso_format st" "is_date_time_format_set (order_state p st)"
  "is_separator_reached (order_state p st) = is_separator_reached st"
  "(order_state p st)\<lparr>is_iso_format := b\<rparr> = order_state p (st\<lparr>is_iso_format := b\<rparr>)"
  "(order_state p st)\<lparr>is_separator_reached := b\<rparr> = order_state p (st\<lparr>is_separator_reached := b\<rparr>)"
  by (simp_all add: order_state_def)

lemma style_finish_unset: "\<not> is_date_time_format_set st \<Longrightarrow>
    style_finish config st = (if is_separator_reached st then Inl STYLE_INVALID else Inr config)"
  by (simp add: style_finish_def)

lemma style_run_meaning:
  assumes "\<forall>p. ORDER_token p \<in> set ts \<longrightarrow> is_order p"
  shows "bindE (style_run ts style_start) (style_finish config) = style_result config (style_meaning ts)"
proof (cases "3 < length ts")
  case True
  then show ?thesis by (simp add: style_run_long style_meaning_long style_result_def)
next
  case False
  then consider "ts = []" | a where "ts = [a]" | a b where "ts = [a, b]" | a b c where "ts = [a, b, c]"
    by (cases ts rule: remdups_adj.cases; cases "tl (tl ts)") (auto simp: length_Suc_conv)
  then show ?thesis
  proof cases
    case 1
    then show ?thesis by (simp add: style_result_def style_finish_unset)
  next
    case 2
    then show ?thesis using assms
      by (cases a) (simp_all add: token_step_def style_comma_def style_result_def style_finish_unset style_finish_order)
  next
    case 3
    then show ?thesis using assms
      by (cases a; cases b) (simp_all add: token_step_def style_comma_def style_result_def style_finish_unset style_finish_order)
  next
    case 4
    then show ?thesis using assms
      by (cases a; cases b; cases c)
        (simp_all add: token_step_def style_comma_def style_result_def style_finish_unset style_finish_order)
  qed
qed

lemma datestyle_result:
  "fst (set_date_time_format_from_datestyle (Some v) config)
     = style_result config (Option.bind (style_tokens (map tolower v)) style_meaning)"
proof (cases "v = []")
  case True
  then show ?thesis by (simp add: set_date_time_format_from_datestyle_def style_result_def)
next
  case False
  have "style_inv style_start" by (simp add: style_inv_def style_start_def)
  note loop = style_loop_tokens [OF this, of "map tolower v"]
  show ?thesis
  proof (cases "style_tokens (map tolower v)")
    case None
    then show ?thesis using False loop
      by (simp add: set_date_time_format_from_datestyle_def Let_def style_result_def)
  next
    case (Some ts)
    then have "bindE (style_run ts style_start) (style_finish config) = style_result config (style_meaning ts)"
      using tokens_orders by (intro style_run_meaning) blast
    then show ?thesis using False loop Some
      by (simp add: set_date_time_format_from_datestyle_def Let_def)
  qed
qed


definition formats_ok :: "date_config \<Rightarrow> bool" where
  "formats_ok config \<longleftrightarrow> is_timestamp_format (timestamp_format config)
     \<and> timestamptz_format config = timestamp_format config @ lit ''%z''"

lemma style_config_ok: "is_order p \<Longrightarrow> formats_ok (style_config p config)"
  by (auto simp: is_order_def formats_ok_def style_config_def order_format_def is_timestamp_format_def text_width_def)

text \<open>
  whatever value the date style is set to, the formats of the configuration stay formats in which every timestamp
  can be printed and read back.
\<close>

theorem date_style_keeps_formats:
  assumes "formats_ok config" "fst (set_date_time_format_from_datestyle v config) = Inr config'"
  shows "formats_ok config'"
proof (cases v)
  case None
  then show ?thesis using assms by (simp add: set_date_time_format_from_datestyle_def)
next
  case (Some s)
  have "is_order p" if "style_tokens x = Some ts" "style_meaning ts = Some (Some p)" for x ts p
    using that tokens_orders [of x ts p] by (cases ts rule: style_meaning.cases) auto
  then show ?thesis
    using assms Some
    by (auto simp: datestyle_result style_result_def bind_eq_Some_conv split: option.splits intro: style_config_ok)
qed

theorem date_style_keeps_formats_witness:
  "formats_ok (style_config (lit ''dmy'') (style_config (lit ''ymd'') \<lparr>datestyle = [], date_format = [], timestamp_format = [], timestamptz_format = []\<rparr>))"
proof (rule date_style_keeps_formats)
  show "formats_ok (style_config (lit ''ymd'') \<lparr>datestyle = [], date_format = [], timestamp_format = [], timestamptz_format = []\<rparr>)"
    by (rule style_config_ok) (simp add: is_order_def)
  show "fst (set_date_time_format_from_datestyle (Some (lit ''DMY , Iso'')) (style_config (lit ''ymd'')
      \<lparr>datestyle = [], date_format = [], timestamp_format = [], timestamptz_format = []\<rparr>))
    = Inr (style_config (lit ''dmy'') (style_config (lit ''ymd'') \<lparr>datestyle = [], date_format = [], timestamp_format = [], timestamptz_format = []\<rparr>))"
    by code_simp
qed

end
