(* ===== verification/Date_Format_Laws.thy ===== *)
theory Date_Format_Laws
  imports Date_Format Date_Style_Laws
begin

text \<open>
  \<open>DATE_FORMAT\<close> never leaves its buffers: what the two passes write is never longer than \<open>get_max_date_length\<close> has
  computed, for every date and every format, so its result is that of a formatter without size limits.
\<close>

section \<open>Fields in range\<close>

definition date_fields :: "tm \<Rightarrow> bool" where
  "date_fields t \<longleftrightarrow> 0 \<le> tm_year t + 1900 \<and> tm_year t + 1900 \<le> 9999 \<and> - 1 \<le> tm_mon t \<and> tm_mon t \<le> 11
     \<and> 0 \<le> tm_mday t \<and> tm_mday t \<le> 31 \<and> 0 \<le> tm_hour t \<and> tm_hour t \<le> 23
     \<and> 0 \<le> tm_min t \<and> tm_min t \<le> 59 \<and> 0 \<le> tm_sec t \<and> tm_sec t \<le> 61"

definition full_fields :: "full_tm \<Rightarrow> bool" where
  "full_fields t \<longleftrightarrow> date_fields (ftm t) \<and> 0 \<le> tm_wday t \<and> tm_wday t \<le> 6 \<and> - 99 \<le> tm_yday t + 1 \<and> tm_yday t + 1 \<le> 999"

lemma date_field_range: "date_field lo hi c = Some (v, r) \<Longrightarrow> lo \<le> v \<and> v \<le> hi"
  by (auto simp: date_field_def Let_def split: if_splits)

lemma dashed_field_cases:
  "dashed_field hi c t f = Some (r, t') \<Longrightarrow> t' = t \<or> (\<exists>v. 0 \<le> v \<and> v \<le> hi \<and> t' = f v)"
  by (auto simp: dashed_field_def dest: date_field_range split: if_splits option.splits)

lemma time_part_cases:
  "time_part hi c t f reset = Some (r, t') \<Longrightarrow> t' = t \<or> (\<exists>v. 0 \<le> v \<and> v \<le> hi \<and> (t' = f v \<or> t' = reset (f v)))"
  by (auto simp: time_part_def Let_def dest: date_field_range split: if_splits option.splits)

lemma get_date_fields:
  assumes "get_date_from_string s zero_tm = Some (rev_date, t)"
  shows "date_fields t"
proof -
  have z: "date_fields zero_tm" by (simp add: date_fields_def zero_tm_def)
  from assms obtain c1 t1 c2 t2 c3 t3 c5 t5 c6 t6 where
    d: "dashed_field 9999 s zero_tm (\<lambda>v. zero_tm\<lparr>tm_year := v - 1900\<rparr>) = Some (c1, t1)"
      "dashed_field 12 c1 t1 (\<lambda>v. t1\<lparr>tm_mon := v - 1\<rparr>) = Some (c2, t2)"
      "(if c2 = [] then Some (c2, t2) else map_option (\<lambda>(v, r). (r, t2\<lparr>tm_mday := v\<rparr>)) (date_field 0 31 c2)) = Some (c3, t3)"
    and t: "time_part 23 (alphabetic_delimiter c3) (if alphabetic_delimiter c3 = [] then t3\<lparr>tm_hour := 0, tm_min := 0, tm_sec := 0\<rparr> else t3)
        (\<lambda>v. (if alphabetic_delimiter c3 = [] then t3\<lparr>tm_hour := 0, tm_min := 0, tm_sec := 0\<rparr> else t3)\<lparr>tm_hour := v\<rparr>)
        (\<lambda>t. t\<lparr>tm_min := 0, tm_sec := 0\<rparr>) = Some (c5, t5)"
      "time_part 59 c5 t5 (\<lambda>v. t5\<lparr>tm_min := v\<rparr>) (\<lambda>t. t\<lparr>tm_sec := 0\<rparr>) = Some (c6, t6)"
      "(if c6 = [] then Some t6 else map_option (\<lambda>(v, r). t6\<lparr>tm_sec := v\<rparr>) (date_field 0 59 c6)) = Some t"
    by (auto simp: get_date_from_string_def bind_eq_Some_conv Let_def)
  have t1: "date_fields t1" using dashed_field_cases [OF d(1)] z by (auto simp: date_fields_def)
  have t2: "date_fields t2" using dashed_field_cases [OF d(2)] t1 by (auto simp: date_fields_def)
  have t3: "date_fields t3" using d(3) t2 by (auto simp: date_fields_def dest!: date_field_range split: if_splits)
  have t5: "date_fields t5" using time_part_cases [OF t(1)] t3 by (auto simp: date_fields_def split: if_splits)
  have t6: "date_fields t6" using time_part_cases [OF t(2)] t5 by (auto simp: date_fields_def)
  show ?thesis using t(3) t6 by (auto simp: date_fields_def dest!: date_field_range split: if_splits)
qed

section \<open>Lengths of numbers\<close>

lemma length_fmt_0d: "0 \<le> n \<Longrightarrow> n < 10 ^ w \<Longrightarrow> 0 < w \<Longrightarrow> length (fmt_0d w n) = w"
  by (simp add: fmt_0d_digits)

lemma length_fmt_d_small: "0 \<le> n \<Longrightarrow> n < 10 ^ w \<Longrightarrow> 0 < w \<Longrightarrow> length (fmt_d n) \<le> w"
  using dec_digits_length [of "nat n" w] by (simp add: fmt_d_def nat_less_iff)

lemma length_fmt_zd: "0 < w \<Longrightarrow> - (10 ^ w) < n \<Longrightarrow> n < 10 ^ Suc w \<Longrightarrow> length (fmt_zd (Suc w) n) = Suc w"
  using length_fmt_0d [of "- n" w] length_fmt_0d [of n "Suc w"] by (simp add: fmt_zd_def)

lemma length_print_week: "0 \<le> n \<Longrightarrow> n < 1000000000 \<Longrightarrow> length (print_week n) \<le> 10"
  using length_fmt_d_small [of n 1] length_fmt_d_small [of n 9] by (simp add: print_week_def)

section \<open>Weeks and days of the year\<close>

lemma u32_range: "0 \<le> u32 x" "u32 x < 4294967296"
  by (simp_all add: u32_def)

lemma week_number_bound:
  "0 \<le> fst (get_week t first_weekday start_week use_ISO) \<and> fst (get_week t first_weekday start_week use_ISO) \<le> 613566757"
proof -
  have "0 \<le> u32 x div 7 + 1 \<and> u32 x div 7 + 1 \<le> 613566757" for x
    using u32_range [of x] zdiv_mono1 [of "u32 x" 4294967295 7] by simp
  then show ?thesis by (simp add: get_week_def Let_def)
qed

lemma s32_week: "s32 (fst (get_week t first_weekday start_week use_ISO)) = fst (get_week t first_weekday start_week use_ISO)"
  using week_number_bound [of t first_weekday start_week use_ISO] by (intro s32_small) simp_all

text \<open>The year of a week: that of the date, the one before or, when the next year starts early in the week, the one after.\<close>

lemma if_choice:
  assumes "A \<Longrightarrow> P b" "B \<Longrightarrow> P d" "P e"
  shows "P (if A then b else if B then d else e)"
  using assms by simp

lemma week_year:
  fixes t first_weekday
  defines "y \<equiv> tm_year t + 1900"
    and "w \<equiv> get_weekday_from_day_num (get_day_num (t\<lparr>tm_mon := 0, tm_mday := 1\<rparr>)) first_weekday"
  shows "snd (get_week t first_weekday start_week use_ISO) \<in> {u32 y, u32 (u32 y - 1), u32 (u32 (u32 y - 1) + 1)}
    \<or> snd (get_week t first_weekday start_week use_ISO) = u32 (u32 y + 1) \<and> \<not> starts_late use_ISO ((w + get_days_in_year (u32 y)) mod 7)"
    (is "?P (snd (get_week t first_weekday start_week use_ISO))")
proof -
  define fd where "fd \<longleftrightarrow> tm_mon t = 0 \<and> u32 (tm_mday t) \<le> u32 (7 - w)"
  note unfold = get_week_def [of t first_weekday start_week use_ISO, unfolded Let_def, folded w_def y_def, folded fd_def]
  show ?thesis
  proof (cases fd)
    case True
    show ?thesis
      unfolding unfold if_distrib [of snd] if_P [OF True] snd_conv using True by (intro if_choice [where P = ?P]) simp_all
  next
    case False
    show ?thesis
      unfolding unfold if_distrib [of snd] if_not_P [OF False] snd_conv using False by (intro if_choice [where P = ?P]) simp_all
  qed
qed

text \<open>The last day of the year 9999 belongs to a week of that year.\<close>

lemma week_year_cases:
  assumes "0 \<le> y" "y \<le> 9999" "tm_year t + 1900 = y"
    and "y = 9999 \<Longrightarrow> starts_late use_ISO ((get_weekday_from_day_num (get_day_num (t\<lparr>tm_mon := 0, tm_mday := 1\<rparr>)) first_weekday + 365) mod 7)"
  shows "- 1 \<le> s32 (snd (get_week t first_weekday start_week use_ISO)) \<and> s32 (snd (get_week t first_weekday start_week use_ISO)) \<le> 9999"
proof -
  have u: "u32 y = y" "u32 (y + 1) = y + 1" "u32 (u32 (y - 1) + 1) = y"
    using assms(1,2) by (simp_all add: u32_def mod_pos_pos_trivial mod_add_left_eq)
  have p: "s32 (u32 (y - 1)) = y - 1" using assms(1,2) by (simp add: u32_def s32_def mod_add_left_eq)
  have s: "s32 y = y" "s32 (y + 1) = y + 1" using assms(1,2) by (simp_all add: s32_small)
  have leap: "get_days_in_year 9999 = 365" by (simp add: get_days_in_year_def is_leap_def)
  from week_year [of t first_weekday start_week use_ISO, unfolded assms(3) u(1)]
  consider "snd (get_week t first_weekday start_week use_ISO) = y" | "snd (get_week t first_weekday start_week use_ISO) = u32 (y - 1)"
    | "snd (get_week t first_weekday start_week use_ISO) = y + 1" "y \<noteq> 9999"
    unfolding u(2,3) using assms(4) by (cases "y = 9999") (auto simp: leap)
  then show ?thesis by cases (use s p assms(1,2) in simp_all)
qed

lemma first_day_9999: "tm_year t + 1900 = 9999 \<Longrightarrow> get_day_num (t\<lparr>tm_mon := 0, tm_mday := 1\<rparr>) = 3652060"
  by (simp add: get_day_num_def Let_def cdiv_def)

lemma week_year_bound:
  assumes "date_fields t"
  shows "- 1 \<le> s32 (snd (get_week t SUNDAY WEEK_ONE False)) \<and> s32 (snd (get_week t SUNDAY WEEK_ONE False)) \<le> 9999"
    "- 1 \<le> s32 (snd (get_week t MONDAY WEEK_ONE True)) \<and> s32 (snd (get_week t MONDAY WEEK_ONE True)) \<le> 9999"
  using assms first_day_9999 [of t]
  by (intro week_year_cases [OF _ _ refl]; simp add: date_fields_def get_weekday_from_day_num_def u32_def starts_late_def)+

lemma weekday_range: "0 \<le> get_weekday_from_day_num n d \<and> get_weekday_from_day_num n d \<le> 6"
proof -
  have "0 \<le> u32 x mod 7 \<and> u32 x mod 7 \<le> 6" for x using pos_mod_bound [of 7 "u32 x"] by simp
  then show ?thesis by (simp add: get_weekday_from_day_num_def)
qed

text \<open>The leap days that \<open>get_day_num\<close> counts grow by at most one from year to year.\<close>

lemma leap_count_step:
  fixes y :: int
  assumes "0 \<le> y"
  defines "g \<equiv> \<lambda>y. cdiv y 4 - cdiv ((cdiv y 100 + 1) * 3) 4"
  shows "- 1 \<le> g y - g (y - 1) \<and> g y - g (y - 1) \<le> 1"
proof (cases "y = 0")
  case True
  then show ?thesis by (simp add: g_def cdiv_def)
next
  case False
  define c d where "c = y div 100" and "d = (y - 1) div 100"
  have cd: "c = d \<or> c = d + 1" "0 \<le> d" "0 \<le> c" using assms(1) False unfolding c_def d_def by auto
  have e: "g y = y div 4 - (c + 1) * 3 div 4" "g (y - 1) = (y - 1) div 4 - (d + 1) * 3 div 4"
    using assms(1) False cd unfolding g_def c_def d_def by (simp_all add: cdiv_nonneg)
  have "(c + 1) * 3 div 4 = (d + 1) * 3 div 4 \<or> (c + 1) * 3 div 4 = (d + 1) * 3 div 4 + 1" using cd(1) by auto
  moreover have "y div 4 = (y - 1) div 4 \<or> y div 4 = (y - 1) div 4 + 1" by auto
  ultimately show ?thesis unfolding e by auto
qed

lemma year_day_bound:
  assumes "date_fields t"
  shows "- 40 \<le> year_day t \<and> year_day t \<le> 400"
proof -
  define y m g where "y = tm_year t + 1900" and "m = tm_mon t" and "g = (\<lambda>y. cdiv y 4 - cdiv ((cdiv y 100 + 1) * 3) 4)"
  have r: "0 \<le> y" "- 1 \<le> m" "m \<le> 11" "0 \<le> tm_mday t" "tm_mday t \<le> 31" using assms by (simp_all add: date_fields_def y_def m_def)
  have first: "get_day_num (t\<lparr>tm_mon := 0, tm_mday := 1\<rparr>) = 365 * y + 1 + g (y - 1)"
    unfolding get_day_num_def Let_def y_def g_def by simp
  have step: "- 1 \<le> g y - g (y - 1)" "g y - g (y - 1) \<le> 1" using leap_count_step [OF r(1)] unfolding g_def by auto
  show ?thesis
  proof (cases "m \<le> 1")
    case True
    then have "get_day_num t = 365 * y + 31 * m + tm_mday t + g (y - 1)"
      unfolding get_day_num_def Let_def y_def m_def g_def by simp
    then show ?thesis unfolding year_day_def first using r True by auto
  next
    case False
    then have "get_day_num t = 365 * y + 31 * m + tm_mday t - cdiv ((m + 1) * 4 + 23) 10 + g y"
      unfolding get_day_num_def Let_def y_def m_def g_def by simp
    moreover have "0 \<le> cdiv ((m + 1) * 4 + 23) 10" "cdiv ((m + 1) * 4 + 23) 10 \<le> 8" using False r by (simp_all add: cdiv_nonneg)
    ultimately show ?thesis unfolding year_day_def first using r False step by linarith
  qed
qed

section \<open>One conversion\<close>

lemma ch_nonzero: "c \<noteq> CHR 0x00 \<Longrightarrow> ch c \<noteq> 0"
proof -
  have "ch (CHR 0x00) = 0" by (simp add: ch_def)
  then show "c \<noteq> CHR 0x00 \<Longrightarrow> ch c \<noteq> 0" using ch_eq_iff [of c "CHR 0x00"] by metis
qed

lemma name_lengths: "length (weekday_name d) \<le> 9" "length (month_name m) \<le> 9"
proof -
  have "\<forall>s \<in> set [lit ''Sunday'', lit ''Monday'', lit ''Tuesday'', lit ''Wednesday'', lit ''Thursday'', lit ''Friday'', lit ''Saturday'']. length s \<le> 9"
    by simp
  moreover have "\<forall>s \<in> set [lit ''January'', lit ''February'', lit ''March'', lit ''April'', lit ''May'', lit ''June'', lit ''July'', lit ''August'',
      lit ''September'', lit ''October'', lit ''November'', lit ''December'']. length s \<le> 9" by simp
  ultimately show "length (weekday_name d) \<le> 9" "length (month_name m) \<le> 9"
    unfolding weekday_name_def month_name_def
    by (auto simp del: set_simps simp: nth_mem)
qed

lemma hour12_range: "0 \<le> h \<Longrightarrow> h \<le> 23 \<Longrightarrow> 0 \<le> twenty_four_to_twelve_hour h \<and> twenty_four_to_twelve_hour h \<le> 12"
  by (simp add: twenty_four_to_twelve_hour_def)

text \<open>The conversion that the first pass leaves for the second, and the length of what the second prints for it.\<close>

definition second_length :: "byte \<Rightarrow> nat" where
  "second_length k =
     (if k = ch CHR ''A'' \<or> k = ch CHR ''B'' then 9
      else if k = ch CHR ''a'' \<or> k = ch CHR ''b'' \<or> k = ch CHR ''j'' then 3
      else if k = ch CHR ''r'' then 11
      else if k = ch CHR ''T'' then 8
      else if k \<in> set (lit ''dHIMmpSwy'') then 2
      else 1)"

lemma print_conversion_length:
  assumes "full_fields t"
  shows "length (print_conversion k t) \<le> second_length k"
proof -
  have f: "0 \<le> tm_year (ftm t) + 1900" "- 1 \<le> tm_mon (ftm t)" "tm_mon (ftm t) \<le> 11"
    "0 \<le> tm_mday (ftm t)" "tm_mday (ftm t) \<le> 31" "0 \<le> tm_hour (ftm t)" "tm_hour (ftm t) \<le> 23"
    "0 \<le> tm_min (ftm t)" "tm_min (ftm t) \<le> 59" "0 \<le> tm_sec (ftm t)" "tm_sec (ftm t) \<le> 61"
    "0 \<le> tm_wday t" "tm_wday t \<le> 6" "- 99 \<le> tm_yday t + 1" "tm_yday t + 1 \<le> 999"
    using assms by (simp_all add: full_fields_def date_fields_def)
  have two: "length (fmt_0d 2 v) = 2" if "0 \<le> v" "v < 100" for v using that by (intro length_fmt_0d) simp_all
  have l: "length (fmt_0d 2 (tm_mday (ftm t))) = 2" "length (fmt_0d 2 (tm_hour (ftm t))) = 2" "length (fmt_0d 2 (tm_min (ftm t))) = 2"
    "length (fmt_0d 2 (tm_sec (ftm t))) = 2" "length (fmt_0d 2 (tm_mon (ftm t) + 1)) = 2"
    "length (fmt_0d 2 (twenty_four_to_twelve_hour (tm_hour (ftm t)))) = 2"
    "length (fmt_0d 2 ((tm_year (ftm t) + 1900) mod 100)) = 2" "length (fmt_d (tm_wday t)) \<le> 1" "length (fmt_zd 3 (tm_yday t + 1)) = 3"
    using f two hour12_range [OF f(6,7)] length_fmt_d_small [of "tm_wday t" 1] length_fmt_zd [of 2 "tm_yday t + 1"]
    by (simp_all add: numeral_3_eq_3 numeral_2_eq_2)
  show ?thesis
    unfolding print_conversion_def Let_def second_length_def
    using l name_lengths(1) [of "tm_wday t"] name_lengths(2) [of "tm_mon (ftm t)"] by auto
qed

lemma no_percent: "ch CHR ''%'' \<notin> set (fmt_d n)" "ch CHR ''%'' \<notin> set (fmt_0d w n)" "ch CHR ''%'' \<notin> set (fmt_zd w n)"
  "ch CHR ''%'' \<notin> set (print_week n)"
proof -
  have c: "unat (ch CHR ''%'') = 37" by (simp add: ch_def)
  then have v: "ch CHR ''%'' \<noteq> 45" "ch CHR ''%'' \<noteq> 48" by auto
  have "\<not> is_digit (ch CHR ''%'')" using c by (simp add: is_digit_def)
  then have "ch CHR ''%'' \<notin> set (dec_digits k)" for k using dec_digits_all_digit by blast
  then have d: "ch CHR ''%'' \<notin> set (fmt_d n)" for n using v(1) by (simp add: fmt_d_def)
  then show "ch CHR ''%'' \<notin> set (fmt_d n)" "ch CHR ''%'' \<notin> set (fmt_0d w n)" "ch CHR ''%'' \<notin> set (fmt_zd w n)"
    "ch CHR ''%'' \<notin> set (print_week n)"
    using v by (auto simp: fmt_0d_def fmt_zd_def print_week_def)
qed

definition piece_fits :: "byte \<Rightarrow> bytes \<Rightarrow> bool" where
  "piece_fits k s \<longleftrightarrow> (\<exists>k2. s = keep k2 \<and> k2 \<noteq> 0 \<and> second_length k2 \<le> conversion_length k)
     \<or> ch CHR ''%'' \<notin> set s \<and> length s \<le> conversion_length k"

lemma piece_keep: "c \<noteq> CHR 0x00 \<Longrightarrow> second_length (ch c) \<le> conversion_length k \<Longrightarrow> piece_fits k (keep (ch c))"
  using ch_nonzero by (auto simp: piece_fits_def)

lemma piece_plain: "ch CHR ''%'' \<notin> set s \<Longrightarrow> length s \<le> conversion_length k \<Longrightarrow> piece_fits k s"
  by (simp add: piece_fits_def)

lemma full_fields_weekday: "full_fields t \<Longrightarrow> full_fields (set_weekday t)" "ftm (set_weekday t) = ftm t"
  using weekday_range by (auto simp: full_fields_def set_weekday_def)

lemma full_fields_yday: "full_fields t \<Longrightarrow> full_fields (t\<lparr>tm_yday := year_day (ftm t)\<rparr>)"
  using year_day_bound [of "ftm t"] by (auto simp: full_fields_def)

lemma number_pieces:
  assumes "full_fields t"
  shows "length (fmt_d (tm_mday (ftm t))) \<le> 2" "length (fmt_d (tm_hour (ftm t))) \<le> 2" "length (fmt_d (tm_mon (ftm t) + 1)) \<le> 2"
    "length (fmt_d (twenty_four_to_twelve_hour (tm_hour (ftm t)))) \<le> 2" "length (fmt_zd 4 (tm_year (ftm t) + 1900)) = 4"
    "length (fmt_zd 4 (s32 (snd (get_week (ftm t) SUNDAY WEEK_ONE False)))) = 4"
    "length (fmt_zd 4 (s32 (snd (get_week (ftm t) MONDAY WEEK_ONE True)))) = 4"
proof -
  have d: "date_fields (ftm t)" using assms by (simp add: full_fields_def)
  have e: "(4 :: nat) = Suc 3" by simp
  have four: "length (fmt_zd 4 v) = 4" if "- 1 \<le> v" "v \<le> 9999" for v
    unfolding e using that by (intro length_fmt_zd) simp_all
  show "length (fmt_d (tm_mday (ftm t))) \<le> 2" "length (fmt_d (tm_hour (ftm t))) \<le> 2" "length (fmt_d (tm_mon (ftm t) + 1)) \<le> 2"
    "length (fmt_d (twenty_four_to_twelve_hour (tm_hour (ftm t)))) \<le> 2"
    using d hour12_range [of "tm_hour (ftm t)"] by (intro length_fmt_d_small; simp add: date_fields_def)+
  show "length (fmt_zd 4 (tm_year (ftm t) + 1900)) = 4" using d by (intro four) (simp_all add: date_fields_def)
  show "length (fmt_zd 4 (s32 (snd (get_week (ftm t) SUNDAY WEEK_ONE False)))) = 4"
    "length (fmt_zd 4 (s32 (snd (get_week (ftm t) MONDAY WEEK_ONE True)))) = 4"
    using week_year_bound [OF d] by (intro four; simp)+
qed

lemma week_pieces: "length (print_week (s32 (fst (get_week t d r i)))) \<le> 10"
  unfolding s32_week using week_number_bound [of t d r i] by (intro length_print_week) simp_all

lemma day_suffix_piece: "length (day_suffix d) = 2" "ch CHR ''%'' \<notin> set (day_suffix d)"
  by (simp_all add: day_suffix_def)

lemma negative_day_piece:
  assumes "v < 0" "- 10 < v"
  shows "length (48 # fmt_d v) \<le> 3"
  using assms dec_digits_length [of "nat (- v)" 1] by (simp add: fmt_d_def nat_less_iff)

lemma lit_memE: "k \<in> set (lit (c # cs)) \<Longrightarrow> (k = ch c \<Longrightarrow> P) \<Longrightarrow> (k \<in> set (lit cs) \<Longrightarrow> P) \<Longrightarrow> P"
  "k \<in> set (lit []) \<Longrightarrow> P"
  by auto

text \<open>The conversions that are printed, left to \<open>strftime\<close> as they are, or left to it under another letter.\<close>

lemma piece_numbers:
  assumes "full_fields t" "k \<in> set (lit ''eDfklYXxcUuVv'')"
  shows "\<exists>s call. populate_conversion k t = Some (s, t, call) \<and> piece_fits k s"
proof -
  note n = number_pieces [OF assms(1)] and w = week_pieces [of "ftm t"]
  have v: "ch CHR ''%'' \<noteq> 48" by (simp add: ch_def)
  from assms(2) show ?thesis
    using n w v day_suffix_piece [of "fmt_d (tm_mday (ftm t))"]
    by (elim lit_memE) (simp_all add: populate_conversion_def Let_def piece_plain conversion_length_def no_percent ex_bool_eq)
qed

lemma piece_kept:
  assumes "k \<in> set (lit ''hisdHIprSTmy%'')"
  shows "\<exists>k2. populate_conversion k t = Some (keep k2, t, True) \<and> k2 \<noteq> 0 \<and> second_length k2 \<le> conversion_length k"
  using assms
  by (elim lit_memE) (simp_all add: populate_conversion_def Let_def keep_def conversion_length_def second_length_def ch_nonzero)

lemma populate_names:
  "populate_conversion (ch CHR ''a'') t = Some (keep (ch CHR ''a''), set_weekday t, True)"
  "populate_conversion (ch CHR ''w'') t = Some (keep (ch CHR ''w''), set_weekday t, True)"
  "populate_conversion (ch CHR ''W'') t = Some (keep (ch CHR ''A''), set_weekday t, True)"
  "populate_conversion (ch CHR ''M'') t = (if tm_mon (ftm t) = - 1 then None else Some (keep (ch CHR ''B''), t, True))"
  "populate_conversion (ch CHR ''b'') t = (if tm_mon (ftm t) = - 1 then None else Some (keep (ch CHR ''b''), t, True))"
  "populate_conversion (ch CHR ''j'') t =
     (if tm_mday (ftm t) = 0 \<or> tm_mon (ftm t) \<le> 0 then
        if year_day (ftm t) + 1 < 0 \<and> - 10 < year_day (ftm t) + 1
        then Some (48 # fmt_d (year_day (ftm t) + 1), t\<lparr>tm_yday := year_day (ftm t)\<rparr>, False)
        else Some (keep (ch CHR ''j''), t\<lparr>tm_yday := year_day (ftm t)\<rparr>, True)
      else Some (keep (ch CHR ''j''), t, True))"
  by (simp_all add: populate_conversion_def Let_def)

lemma keep_names:
  "piece_fits (ch CHR ''a'') (keep (ch CHR ''a''))" "piece_fits (ch CHR ''w'') (keep (ch CHR ''w''))"
  "piece_fits (ch CHR ''W'') (keep (ch CHR ''A''))" "piece_fits (ch CHR ''M'') (keep (ch CHR ''B''))"
  "piece_fits (ch CHR ''b'') (keep (ch CHR ''b''))" "piece_fits (ch CHR ''j'') (keep (ch CHR ''j''))"
  by (rule piece_keep; simp add: conversion_length_def second_length_def)+

lemma piece_names:
  assumes "full_fields t" "k \<in> set (lit ''awWMbj'')" "populate_conversion k t = Some (s, t', call)"
  shows "full_fields t' \<and> piece_fits k s"
proof -
  note w = full_fields_weekday(1) [OF assms(1)] and y = full_fields_yday [OF assms(1)]
  have "piece_fits (ch CHR ''j'') (48 # fmt_d v)" if "v < 0" "- 10 < v" for v
    using negative_day_piece [OF that] no_percent(1) [of v]
    by (intro piece_plain) (simp_all add: conversion_length_def ch_def [of "CHR ''%''"])
  with assms(2) show ?thesis
    using assms(1,3) w y by (elim lit_memE) (simp_all add: populate_names keep_names split: if_splits, auto simp: keep_names)
qed

lemma piece_other:
  assumes "k \<notin> set (lit ''eDfklYXxcUuVv'')" "k \<notin> set (lit ''hisdHIprSTmy%'')" "k \<notin> set (lit ''awWMbj'')"
  shows "populate_conversion k t = Some ([k], t, False) \<and> piece_fits k [k]"
proof -
  have "populate_conversion k t = Some ([k], t, False)" using assms by (simp add: populate_conversion_def Let_def)
  moreover have "ch CHR ''%'' \<notin> set [k]" "1 \<le> conversion_length k" using assms(2) by (auto simp: conversion_length_def)
  ultimately show ?thesis using piece_plain [of "[k]" k] by simp
qed

lemma populate_conversion_piece:
  assumes "full_fields t" "populate_conversion k t = Some (s, t', call)"
  shows "full_fields t' \<and> piece_fits k s"
proof -
  consider "k \<in> set (lit ''eDfklYXxcUuVv'')" | "k \<in> set (lit ''hisdHIprSTmy%'')" | "k \<in> set (lit ''awWMbj'')"
    | "k \<notin> set (lit ''eDfklYXxcUuVv'')" "k \<notin> set (lit ''hisdHIprSTmy%'')" "k \<notin> set (lit ''awWMbj'')" by blast
  then show ?thesis
  proof cases
    case 1
    then show ?thesis using piece_numbers [OF assms(1)] assms by fastforce
  next
    case 2
    then show ?thesis using piece_kept [of k t] assms by (auto simp: piece_fits_def)
  next
    case 3
    then show ?thesis using piece_names assms by blast
  next
    case 4
    then show ?thesis using piece_other [of k t] assms by simp
  qed
qed

section \<open>The whole format\<close>

lemma strftime_plain: "ch CHR ''%'' \<notin> set p \<Longrightarrow> strftime_full (p @ x) t = p @ strftime_full x t"
proof (induction p)
  case (Cons c p)
  show ?case
  proof (cases "p @ x")
    case Nil
    then show ?thesis by simp
  next
    case (Cons k r)
    then show ?thesis using Cons.IH Cons.prems by auto
  qed
qed simp

lemma cstr_split_append: "cstr (p @ r) = (if nul_free p then p @ cstr r else cstr p)"
  by (induction p) (auto simp: cstr_def)

lemma strftime_plain_length: "ch CHR ''%'' \<notin> set p \<Longrightarrow> length (strftime_full (cstr (p @ r)) t) \<le> length p + length (strftime_full (cstr r) t)"
proof (cases "nul_free p")
  case True
  assume "ch CHR ''%'' \<notin> set p"
  then show ?thesis using True by (simp add: cstr_split_append strftime_plain)
next
  case False
  assume p: "ch CHR ''%'' \<notin> set p"
  then have "ch CHR ''%'' \<notin> set (cstr p)" by (auto simp: cstr_def dest: set_takeWhileD)
  from strftime_plain [OF this, of "[]" t] have "strftime_full (cstr p) t = cstr p" by simp
  then show ?thesis using False length_cstr_le [of p] by (simp add: cstr_split_append del: length_cstr_le)
qed

lemma strftime_keep:
  assumes "k \<noteq> 0"
  shows "strftime_full (cstr (keep k @ r)) t = print_conversion k t @ strftime_full (cstr r) t"
proof -
  have "ch CHR ''%'' \<noteq> 0" by (simp add: ch_def)
  then show ?thesis using assms by (simp add: cstr_def keep_def)
qed

lemma conversion_length_pos: "1 \<le> conversion_length k"
  by (simp add: conversion_length_def)

lemma date_length_Cons: "date_length fmt + 1 \<le> date_length (k # fmt)"
  using conversion_length_pos by (cases fmt) auto

lemma piece_second:
  assumes "piece_fits k s" "full_fields t"
  shows "length s \<le> conversion_length k + 1"
    and "length (strftime_full (cstr (s @ r)) t) \<le> conversion_length k + length (strftime_full (cstr r) t)"
proof -
  consider k2 where "s = keep k2" "k2 \<noteq> 0" "second_length k2 \<le> conversion_length k"
    | "ch CHR ''%'' \<notin> set s" "length s \<le> conversion_length k"
    using assms(1) by (auto simp: piece_fits_def)
  then show "length s \<le> conversion_length k + 1"
    "length (strftime_full (cstr (s @ r)) t) \<le> conversion_length k + length (strftime_full (cstr r) t)"
  proof (atomize (full), cases)
    case 1
    then show "length s \<le> conversion_length k + 1 \<and> length (strftime_full (cstr (s @ r)) t) \<le> conversion_length k + length (strftime_full (cstr r) t)"
      using conversion_length_pos [of k] print_conversion_length [OF assms(2), of k2] by (simp add: strftime_keep) (simp add: keep_def)
  next
    case 2
    then show "length s \<le> conversion_length k + 1 \<and> length (strftime_full (cstr (s @ r)) t) \<le> conversion_length k + length (strftime_full (cstr r) t)"
      using strftime_plain_length [of s r t] by auto
  qed
qed

lemma populate_loop_fits:
  "populate_loop fmt t cs = Some (s, t2, call) \<Longrightarrow> full_fields t \<Longrightarrow>
     full_fields t2 \<and> length s \<le> date_length fmt \<and> (\<forall>t'. full_fields t' \<longrightarrow> length (strftime_full (cstr s) t') \<le> date_length fmt)"
proof (induction fmt t cs arbitrary: s t2 call rule: populate_loop.induct)
  case (1 t cs)
  then show ?case by (simp add: cstr_def)
next
  case (2 c t cs)
  then show ?case by (auto simp: cstr_def)
next
  case (3 c k fmt t cs)
  show ?case
  proof (cases "c = ch CHR ''%''")
    case True
    obtain p t' call1 r where p: "populate_conversion k t = Some (p, t', call1)"
      and r: "populate_loop fmt t' (cs \<or> call1) = Some (r, t2, call)" "s = p @ r"
      using 3(3) True by (auto split: option.splits prod.splits)
    note pf = populate_conversion_piece [OF 3(4) p]
    have ih: "full_fields t2 \<and> length r \<le> date_length fmt \<and> (\<forall>t'. full_fields t' \<longrightarrow> length (strftime_full (cstr r) t') \<le> date_length fmt)"
      using 3(1) [OF True p refl refl r(1)] pf by blast
    have l: "conversion_length k + 1 + date_length fmt \<le> date_length (c # k # fmt)" using True date_length_Cons [of fmt k] by simp
    have p1: "length p \<le> conversion_length k + 1" using piece_second(1) [OF conjunct2 [OF pf] 3(4)] .
    have p2: "length (strftime_full (cstr (p @ r)) t') \<le> conversion_length k + date_length fmt" if "full_fields t'" for t'
    proof -
      have "length (strftime_full (cstr r) t') \<le> date_length fmt" using ih that by blast
      then show ?thesis using piece_second(2) [OF conjunct2 [OF pf] that, of r] by linarith
    qed
    show ?thesis
      unfolding r(2)
    proof (intro conjI allI impI)
      show "full_fields t2" using ih by blast
      show "length (p @ r) \<le> date_length (c # k # fmt)" using ih p1 l by (simp only: length_append) linarith
      show "length (strftime_full (cstr (p @ r)) t') \<le> date_length (c # k # fmt)" if "full_fields t'" for t'
        using p2 [OF that] l by linarith
    qed
  next
    case False
    obtain r where r: "populate_loop (k # fmt) t cs = Some (r, t2, call)" "s = c # r" using 3(3) False by auto
    note ih = 3(2) [OF False r(1) 3(4)]
    have c: "length (strftime_full (cstr (c # r)) t') \<le> 1 + length (strftime_full (cstr r) t')" for t'
      using strftime_plain_length [of "[c]" r t'] False by simp
    have l: "date_length (c # k # fmt) = 1 + date_length (k # fmt)" using False by simp
    show ?thesis
      unfolding r(2) l
    proof (intro conjI allI impI)
      show "full_fields t2" using ih by blast
      show "length (c # r) \<le> 1 + date_length (k # fmt)" using ih by simp
      show "length (strftime_full (cstr (c # r)) t') \<le> 1 + date_length (k # fmt)" if "full_fields t'" for t'
      proof -
        have "length (strftime_full (cstr r) t') \<le> date_length (k # fmt)" using ih that by blast
        then show ?thesis using c [of t'] by linarith
      qed
    qed
  qed
qed

lemma get_number_range: "get_number lo hi n s = Some (v, r) \<Longrightarrow> lo \<le> v \<and> v \<le> hi"
  by (auto simp: get_number_def split: list.splits if_splits prod.splits)

lemma scan_conversion_fields:
  assumes "date_fields t" "0 \<le> tm_mon t" "scan_conversion k s t = Some (t', r)"
  shows "date_fields t' \<and> 0 \<le> tm_mon t'"
  using assms
  by (auto simp: scan_conversion_def set_field_def date_fields_def dest!: get_number_range split: if_splits option.splits)

lemma strptime_fields:
  "strptime fmt s t = Some (t', r) \<Longrightarrow> date_fields t \<Longrightarrow> 0 \<le> tm_mon t \<Longrightarrow> date_fields t' \<and> 0 \<le> tm_mon t'"
proof (induction fmt s t arbitrary: t' r rule: strptime.induct)
  case (1 fmt s t)
  show ?case
  proof (cases fmt)
    case Nil
    then show ?thesis using 1(4,5,6) by (simp add: strptime.simps)
  next
    case (Cons c fmt')
    note e = 1(4) [unfolded Cons, unfolded strptime.simps [of "c # fmt'" s t] list.case]
    show ?thesis
    proof (cases "is_space c")
      case True
      then show ?thesis using 1(1) [OF Cons True] e 1(5,6) by simp
    next
      case False
      show ?thesis
      proof (cases "c = ch CHR ''%''")
        case True
        then obtain k fmt'' t1 r1 where k: "fmt' = k # fmt''" "scan_conversion k s t = Some (t1, r1)"
          using e False by (auto split: list.splits option.splits prod.splits)
        note f = scan_conversion_fields [OF 1(5,6) k(2)]
        show ?thesis
        proof (cases r1)
          case None
          then show ?thesis using e False True k f by simp
        next
          case (Some s')
          then show ?thesis using 1(3) [OF Cons False _ k(1), of "(t1, r1)" t1 r1 s'] e False True k f by simp
        qed
      next
        case c: False
        then show ?thesis using 1(2) [OF Cons False] e False 1(5,6) by (auto split: list.splits if_splits)
      qed
    qed
  qed
qed

lemma read_revised_fields:
  assumes "read_revised r t = Some t1" "date_fields t" "0 \<le> tm_mon t"
  shows "full_fields t1"
proof -
  from assms(1) obtain t' rest where s: "strptime (lit ''%Y-%m-%d %H:%M:%S'') r t = Some (t', Some rest)"
    and t1: "t1 = \<lparr>ftm = t', tm_wday = (day_number (tm_year t' + 1900) (tm_mon t') (tm_mday t') - 1) mod 7,
      tm_yday = day_number (tm_year t' + 1900) (tm_mon t') (tm_mday t') - days_before_year (tm_year t' + 1900)\<rparr>"
    unfolding read_revised_def Let_def by (auto split: option.splits prod.splits)
  have f: "date_fields t'" "0 \<le> tm_mon t'" using strptime_fields [OF s assms(2,3)] by auto
  define m where "m = tm_mon t'"
  have "m = 0 \<or> m = 1 \<or> m = 2 \<or> m = 3 \<or> m = 4 \<or> m = 5 \<or> m = 6 \<or> m = 7 \<or> m = 8 \<or> m = 9 \<or> m = 10 \<or> m = 11"
    using f unfolding date_fields_def m_def by presburger
  then have d: "0 \<le> days_before_month y m \<and> days_before_month y m \<le> 335" for y
    by (elim disjE) (simp_all add: days_before_month_def)
  have "0 \<le> n mod 7 \<and> n mod 7 \<le> 6" for n :: int using pos_mod_bound [of 7 n] pos_mod_sign [of 7 n] by simp
  moreover have "- 99 \<le> tm_yday t1 + 1" "tm_yday t1 + 1 \<le> 999"
    using d [of "tm_year t' + 1900"] f(1) unfolding t1 day_number_def m_def by (simp_all add: date_fields_def)
  ultimately show ?thesis using f(1) unfolding full_fields_def by (simp add: t1)
qed

section \<open>DATE_FORMAT without limits\<close>

text \<open>The fields of a date that is accepted.\<close>

definition accepted_date :: "bytes \<Rightarrow> full_tm option" where
  "accepted_date date =
     (case get_date_from_string (cstr date) zero_tm of
        None \<Rightarrow> None
      | Some (revised_date, t) \<Rightarrow>
          if tm_mday t = 0 \<and> tm_mon t = - 1 \<and> tm_year t = - 1900 \<or> \<not> day_valid t then None
          else if date_known t then read_revised revised_date t
          else Some \<lparr>ftm = t, tm_wday = 0, tm_yday = 0\<rparr>)"

lemma accepted_date_fields: "accepted_date date = Some t \<Longrightarrow> full_fields t"
proof -
  assume "accepted_date date = Some t"
  then obtain r u where u: "get_date_from_string (cstr date) zero_tm = Some (r, u)"
    and t: "if date_known u then read_revised r u = Some t else t = \<lparr>ftm = u, tm_wday = 0, tm_yday = 0\<rparr>"
    by (auto simp: accepted_date_def split: option.splits prod.splits if_splits)
  note f = get_date_fields [OF u]
  show "full_fields t"
  proof (cases "date_known u")
    case True
    then show ?thesis using t f read_revised_fields [of r u t] by (simp add: date_known_def)
  next
    case False
    then show ?thesis using t f by (simp add: full_fields_def)
  qed
qed

text \<open>
  C27: for every date and every format, \<open>DATE_FORMAT\<close> writes only inside of its buffers and cuts nothing off: the result
  is that of the two passes without any limit. When \<open>strftime\<close> is not needed, the length returned is the size of the
  buffer and not that of the string.
\<close>

theorem date_format_fits:
  "ydboctoDateFormatC date fmt =
     Inr (case accepted_date date of
            None \<Rightarrow> ([], 0)
          | Some t \<Rightarrow>
              (case populate_loop fmt t False of
                 None \<Rightarrow> ([], 0)
               | Some (s, t', call_strftime) \<Rightarrow>
                   if call_strftime then (strftime_full (cstr s) t', length (strftime_full (cstr s) t'))
                   else (s, get_max_date_length fmt)))"
proof (cases "accepted_date date")
  case None
  then show ?thesis
    by (auto simp: ydboctoDateFormatC_def accepted_date_def Let_def split: option.splits prod.splits if_splits)
next
  case (Some t)
  note f = accepted_date_fields [OF Some]
  have d: "ydboctoDateFormatC date fmt =
      (case populate_sql_time_format fmt t of
         Inl RETURN_NULL \<Rightarrow> Inr ([], 0)
       | Inl BUFFER_OVERRUN \<Rightarrow> Inl BUFFER_OVERRUN
       | Inr (s, t2, call_strftime) \<Rightarrow>
           if call_strftime then
             (let r = strftime_full (cstr s) t2 in if length r < get_max_date_length fmt then Inr (r, length r) else Inr ([], 0))
           else Inr (s, get_max_date_length fmt))"
    using Some
    by (auto simp: ydboctoDateFormatC_def accepted_date_def Let_def split: option.splits prod.splits if_splits)
  show ?thesis
  proof (cases "populate_loop fmt t False")
    case None
    then show ?thesis using Some d by (simp add: populate_sql_time_format_def)
  next
    case p: (Some x)
    obtain s t2 call where x: "x = (s, t2, call)" by (cases x) auto
    note l = populate_loop_fits [OF p [unfolded x] f]
    then have "length s + 1 \<le> get_max_date_length fmt + 1" "length (strftime_full (cstr s) t2) < get_max_date_length fmt"
      unfolding get_max_date_length_def by (simp_all add: le_imp_less_Suc)
    then show ?thesis using Some d p x by (simp add: populate_sql_time_format_def Let_def)
  qed
qed

text \<open>
  In the year 0 the day of the year is not computed: \<open>strptime\<close> is skipped, and \<open>%j\<close> computes it only for a day or
  month of 0 and in January.
\<close>

lemma day_of_year_in_year_0: "ydboctoDateFormatC (lit ''0000-05-05'') (lit ''%j'') = Inr (lit ''001'', 3)"
  by code_simp

text \<open>The length of a result without \<open>strftime\<close> is that of the buffer: here four for one character.\<close>

lemma length_of_buffer: "ydboctoDateFormatC (lit ''2023-01-05'') (lit ''%e'') = Inr (lit ''5'', 4)"
  by code_simp

end
