(* ===== verification/Compress_Statement.thy ===== *)
theory Compress_Statement
  imports Data_Types
begin

text \<open>
  The binary definition of a table, view or function: \<open>compress_statement.c\<close> copies the graph of statements below a
  CREATE statement into one block of memory in which every pointer is relative to its own location.
  \<open>compress_statement_helper\<close> runs twice, once with a NULL buffer to find the size and once to write.
  Structures that several others may point to carry a member \<open>bin_defn_offset\<close> by which both passes recognise
  what they have seen.

  The graph is a map from addresses to objects, 0 is NULL. The buffer is a second map, since \<open>malloc\<close> returns
  memory of its own; \<open>bin_defn_offset\<close> of the source structures, which both passes change, is a third one. A write
  outside the allocated block or to something that is not the expected object is the error \<open>OUT_OF_BLOCK\<close>. The sizes
  of the structures and the offsets of their members are a parameter. The recursion and the loops over circular lists
  carry fuel; \<open>Compress_Laws\<close> shows how much is enough.
\<close>

section \<open>Statements and structures\<close>

text \<open>The members that point to other statements, and the text of a value.\<close>

datatype member =
    M_tableName | M_source | M_columns | M_delim | M_aim_type
  | M_viewName | M_src_table_alias_stmt
  | M_table | M_alias | M_parent_table_alias | M_column_list | M_correlation_specification
  | M_table_asterisk_column_alias
  | M_table_list | M_where_expression | M_select_list | M_group_by_expression | M_having_expression
  | M_order_by_expression | M_optional_words
  | M_value | M_condition | M_keywords | M_outer_query_column_alias
  | M_column | M_table_alias_stmt | M_set_oper_stmt | M_parameter
  | M_operand0 | M_operand1 | M_col_type_list_stmt | M_value_list | M_row_value_stmt | M_column_stmt
  | M_function_name | M_parameter_type_list | M_return_type | M_extrinsic_function | M_function_hash
  | M_data_type_struct | M_calculated | M_coerce_target | M_string_literal
  | M_columnName | M_keyword_v | M_name | M_definition | M_check_columns | M_uniq_gblname
  | M_operand | M_function_schema | M_parameters | M_arguments | M_left | M_right
  | M_branches | M_optional_else | M_argument | M_table_name | M_optional_keyword

datatype OptionalKeyword =
    NO_KEYWORD | PRIMARY_KEY | NOT_NULL | UNIQUE_CONSTRAINT | OPTIONAL_GLOBAL | OPTIONAL_END | OPTIONAL_START
  | OPTIONAL_DELIM | OPTIONAL_EXTRACT | OPTIONAL_CASCADE | OPTIONAL_RESTRICT | OPTIONAL_PIECE
  | OPTIONAL_KEY_NUM | OPTIONAL_ADVANCE | OPTIONAL_LIMIT | OPTIONAL_DISTINCT | OPTIONAL_XREF_INDEX
  | OPTIONAL_BOOLEAN_EXPANSION | OPTIONAL_ASC | OPTIONAL_DESC | OPTIONAL_STARTINCLUDE | OPTIONAL_READONLY
  | OPTIONAL_READWRITE | OPTIONAL_ENDPOINT | OPTIONAL_KEEPDATA | OPTIONAL_CHECK_CONSTRAINT
  | OPTIONAL_AIM_TYPE | OPTIONAL_OVERRIDING_SYSTEM_VALUE | OPTIONAL_OVERRIDING_USER_VALUE
  | OPTIONAL_DEFAULT | OPTIONAL_GENERATED_BY_DEFAULT_IDENTITY | OPTIONAL_GENERATED_ALWAYS_IDENTITY
  | OPTIONAL_DATE_TIME_HOROLOG | OPTIONAL_DATE_TIME_ZHOROLOG | OPTIONAL_DATE_TIME_FILEMAN
  | OPTIONAL_DATE_TIME_ZUT | OPTIONAL_DATE_TIME_TEXT

text \<open>
  A structure: its pointers, the links of its list, \<open>bin_defn_offset\<close> (as far as it has them), the members that steer the
  traversal, the parameter indexes that \<open>is_view_processing\<close> clears, and everything else that \<open>memcpy\<close> copies.
\<close>

record struct_obj =
  member_of :: "member \<Rightarrow> int"
  obj_next :: int
  obj_prev :: int
  obj_bin_defn_offset :: int
  value_type :: SqlValueType
  constraint_kind :: OptionalKeyword
  keyword :: OptionalKeyword
  unique_id :: int
  max_unique_id :: int
  parameter_index :: int
  scale_parameter_index :: int
  size_or_precision_parameter_index :: int
  plain :: nat

text \<open>\<open>Statement type v data\<close>: \<open>v\<close> is the union, for \<open>data_type_struct_STATEMENT\<close> not a pointer.\<close>

datatype obj = Statement SqlStatementType int nat | Struct struct_obj | Text bytes

type_synonym heap = "int \<Rightarrow> obj option"

record layout =
  size_of_SqlStatement :: int
  size_of :: "SqlStatementType \<Rightarrow> int"
  offset_of_v :: int
  offset_of :: "SqlStatementType \<Rightarrow> member \<Rightarrow> int"
  offset_of_next :: "SqlStatementType \<Rightarrow> int"

datatype compress_error = FATAL_UNKNOWN_KEYWORD_STATE | INVALID_POINTER | OUT_OF_BLOCK | OUT_OF_FUEL | ASSERTION_VIOLATED

text \<open>\<open>bin_defn_offset\<close>: 0 for NULL, -1 for \<open>MAX_BIN_DEFN_OFFSET\<close>, else an address in the buffer.\<close>

abbreviation MAX_BIN_DEFN_OFFSET :: int where
  "MAX_BIN_DEFN_OFFSET \<equiv> - 1"

record compress_state =
  offs :: "int \<Rightarrow> int"
  buf :: heap
  out_length :: int

type_synonym compress_call = "int \<Rightarrow> compress_state \<Rightarrow> compress_error + int \<times> compress_state"

section \<open>Which members are compressed\<close>

text \<open>The calls of \<open>CALL_COMPRESS_HELPER\<close> for each type, in their order.\<close>

definition constraint_members :: "OptionalKeyword \<Rightarrow> member list" where
  "constraint_members k =
     [M_name, M_definition]
     @ (if k = OPTIONAL_CHECK_CONSTRAINT then [M_check_columns] else if k = UNIQUE_CONSTRAINT then [M_uniq_gblname] else [])"

fun pointer_members :: "SqlStatementType \<Rightarrow> member list" where
  "pointer_members create_table_STATEMENT = [M_tableName, M_source, M_columns, M_delim, M_aim_type]"
| "pointer_members create_view_STATEMENT = [M_viewName, M_src_table_alias_stmt]"
| "pointer_members table_alias_STATEMENT =
     [M_table, M_alias, M_parent_table_alias, M_column_list, M_correlation_specification, M_table_asterisk_column_alias]"
| "pointer_members select_STATEMENT =
     [M_table_list, M_where_expression, M_select_list, M_group_by_expression, M_having_expression, M_order_by_expression,
      M_optional_words]"
| "pointer_members join_STATEMENT = [M_value, M_condition]"
| "pointer_members column_list_alias_STATEMENT = [M_column_list, M_alias, M_keywords, M_outer_query_column_alias]"
| "pointer_members column_alias_STATEMENT = [M_column, M_table_alias_stmt, M_set_oper_stmt]"
| "pointer_members aggregate_function_STATEMENT = [M_parameter, M_table_alias_stmt]"
| "pointer_members set_operation_STATEMENT = [M_operand0, M_operand1, M_col_type_list_stmt]"
| "pointer_members row_value_STATEMENT = [M_value_list]"
| "pointer_members table_value_STATEMENT = [M_row_value_stmt, M_column_stmt]"
| "pointer_members create_function_STATEMENT =
     [M_function_name, M_parameter_type_list, M_return_type, M_extrinsic_function, M_function_hash]"
| "pointer_members parameter_type_list_STATEMENT = [M_data_type_struct]"
| "pointer_members column_STATEMENT = [M_table, M_columnName, M_keywords]"
| "pointer_members keyword_STATEMENT = [M_keyword_v]"
| "pointer_members unary_STATEMENT = [M_operand]"
| "pointer_members binary_STATEMENT = [M_operand0, M_operand1]"
| "pointer_members function_call_STATEMENT = [M_function_name, M_function_schema, M_parameters]"
| "pointer_members coalesce_STATEMENT = [M_arguments]"
| "pointer_members greatest_STATEMENT = [M_arguments]"
| "pointer_members least_STATEMENT = [M_arguments]"
| "pointer_members null_if_STATEMENT = [M_left, M_right]"
| "pointer_members column_list_STATEMENT = [M_value]"
| "pointer_members cas_STATEMENT = [M_value, M_branches, M_optional_else]"
| "pointer_members cas_branch_STATEMENT = [M_condition, M_value]"
| "pointer_members array_STATEMENT = [M_argument]"
| "pointer_members t = []"

text \<open>
  The shapes of the cases of the switch: a structure, a structure that others may share, a circular list, a circular list
  whose elements others may share, a value, a constraint, a data type, and the types that have no binary definition.
\<close>

datatype shape =
  PLAIN_STRUCT | SHARED_STRUCT | PLAIN_LIST | SHARED_LIST | VALUE_SHAPE | CONSTRAINT_SHAPE | DATA_TYPE_SHAPE | NO_SHAPE

fun shape_of :: "SqlStatementType \<Rightarrow> shape" where
  "shape_of create_table_STATEMENT = SHARED_STRUCT"
| "shape_of create_view_STATEMENT = PLAIN_STRUCT"
| "shape_of table_alias_STATEMENT = SHARED_STRUCT"
| "shape_of select_STATEMENT = PLAIN_STRUCT"
| "shape_of join_STATEMENT = PLAIN_LIST"
| "shape_of column_list_alias_STATEMENT = SHARED_LIST"
| "shape_of column_alias_STATEMENT = SHARED_STRUCT"
| "shape_of aggregate_function_STATEMENT = PLAIN_STRUCT"
| "shape_of set_operation_STATEMENT = PLAIN_STRUCT"
| "shape_of row_value_STATEMENT = PLAIN_LIST"
| "shape_of table_value_STATEMENT = PLAIN_STRUCT"
| "shape_of create_function_STATEMENT = PLAIN_STRUCT"
| "shape_of parameter_type_list_STATEMENT = PLAIN_LIST"
| "shape_of data_type_struct_STATEMENT = DATA_TYPE_SHAPE"
| "shape_of value_STATEMENT = VALUE_SHAPE"
| "shape_of column_STATEMENT = SHARED_LIST"
| "shape_of keyword_STATEMENT = PLAIN_LIST"
| "shape_of constraint_STATEMENT = CONSTRAINT_SHAPE"
| "shape_of unary_STATEMENT = PLAIN_STRUCT"
| "shape_of binary_STATEMENT = PLAIN_STRUCT"
| "shape_of function_call_STATEMENT = PLAIN_STRUCT"
| "shape_of coalesce_STATEMENT = PLAIN_STRUCT"
| "shape_of greatest_STATEMENT = PLAIN_STRUCT"
| "shape_of least_STATEMENT = PLAIN_STRUCT"
| "shape_of null_if_STATEMENT = PLAIN_STRUCT"
| "shape_of column_list_STATEMENT = PLAIN_LIST"
| "shape_of cas_STATEMENT = PLAIN_STRUCT"
| "shape_of cas_branch_STATEMENT = PLAIN_LIST"
| "shape_of array_STATEMENT = PLAIN_STRUCT"
| "shape_of t = NO_SHAPE"

definition has_text :: "SqlValueType \<Rightarrow> bool" where
  "has_text t \<longleftrightarrow> t \<in> {BOOLEAN_VALUE, NUMERIC_LITERAL, INTEGER_LITERAL, BOOLEAN_OR_STRING_LITERAL, STRING_LITERAL,
     DELIM_VALUE, NUL_VALUE, FUNCTION_NAME, FUNCTION_HASH, COLUMN_REFERENCE, TABLE_ASTERISK, DATE_LITERAL, TIME_LITERAL,
     TIME_WITH_TIME_ZONE_LITERAL, TIMESTAMP_LITERAL, TIMESTAMP_WITH_TIME_ZONE_LITERAL}"

section \<open>The source and the buffer\<close>

definition get_struct :: "heap \<Rightarrow> int \<Rightarrow> compress_error + struct_obj" where
  "get_struct h a = (case h a of Some (Struct s) \<Rightarrow> Inr s | _ \<Rightarrow> Inl INVALID_POINTER)"

text \<open>\<open>A2R\<close>: what a pointer stored at location \<open>at\<close> holds when it points to \<open>target\<close>.\<close>

definition A2R :: "int \<Rightarrow> int \<Rightarrow> int" where
  "A2R target at = target - at"

text \<open>A copy at the end of the buffer; nothing is written when \<open>out\<close> is NULL.\<close>

definition put :: "int \<Rightarrow> int \<Rightarrow> obj \<Rightarrow> int \<Rightarrow> compress_state \<Rightarrow> compress_error + compress_state" where
  "put out limit x sz st =
     (if out = 0 then Inr (st\<lparr>out_length := out_length st + sz\<rparr>)
      else if limit < out_length st + sz then Inl OUT_OF_BLOCK
      else Inr (st\<lparr>buf := (buf st)(out + out_length st \<mapsto> x), out_length := out_length st + sz\<rparr>))"

definition set_v :: "layout \<Rightarrow> int \<Rightarrow> int \<Rightarrow> int \<Rightarrow> compress_state \<Rightarrow> compress_error + compress_state" where
  "set_v L out new_stmt target st =
     (if out = 0 then Inr st
      else
        (case buf st new_stmt of
           Some (Statement t v d) \<Rightarrow>
             Inr (st\<lparr>buf := (buf st)(new_stmt \<mapsto> Statement t (A2R target (new_stmt + offset_of_v L)) d)\<rparr>)
         | _ \<Rightarrow> Inl OUT_OF_BLOCK))"

definition set_struct :: "int \<Rightarrow> int \<Rightarrow> (struct_obj \<Rightarrow> struct_obj) \<Rightarrow> compress_state \<Rightarrow> compress_error + compress_state" where
  "set_struct out new f st =
     (if out = 0 then Inr st
      else
        (case buf st new of
           Some (Struct s) \<Rightarrow> Inr (st\<lparr>buf := (buf st)(new \<mapsto> Struct (f s))\<rparr>)
         | _ \<Rightarrow> Inl OUT_OF_BLOCK))"

definition set_offs :: "int \<Rightarrow> int \<Rightarrow> compress_state \<Rightarrow> compress_state" where
  "set_offs a x st = st\<lparr>offs := (offs st)(a := x)\<rparr>"

section \<open>The cases\<close>

text \<open>\<open>CALL_COMPRESS_HELPER\<close> for one member after the other.\<close>

fun compress_members ::
    "layout \<Rightarrow> int \<Rightarrow> compress_call \<Rightarrow> SqlStatementType \<Rightarrow> struct_obj \<Rightarrow> int \<Rightarrow> member list \<Rightarrow> compress_state
     \<Rightarrow> compress_error + compress_state" where
  "compress_members L out call ty s new [] st = Inr st"
| "compress_members L out call ty s new (m # ms) st =
     bindE (call (member_of s m) st) (\<lambda>(r, st').
     bindE (set_struct out new
              (\<lambda>c. c\<lparr>member_of := (member_of c)(m := if r = 0 then 0 else A2R r (new + offset_of L ty m))\<rparr>) st') (\<lambda>st''.
     compress_members L out call ty s new ms st''))"

definition compress_struct ::
    "layout \<Rightarrow> int \<Rightarrow> int \<Rightarrow> compress_call \<Rightarrow> SqlStatementType \<Rightarrow> struct_obj \<Rightarrow> struct_obj \<Rightarrow> member list \<Rightarrow> compress_state
     \<Rightarrow> compress_error + compress_state" where
  "compress_struct L out limit call ty s copy ms st =
     (let new = out + out_length st in
      bindE (put out limit (Struct copy) (size_of L ty) st) (compress_members L out call ty s new ms))"

text \<open>A structure seen before is referred to by its place in the buffer.\<close>

definition compress_shared ::
    "layout \<Rightarrow> int \<Rightarrow> int \<Rightarrow> compress_call \<Rightarrow> SqlStatementType \<Rightarrow> int \<Rightarrow> struct_obj \<Rightarrow> int \<Rightarrow> compress_state
     \<Rightarrow> compress_error + compress_state" where
  "compress_shared L out limit call ty a s new_stmt st =
     (let new = out + out_length st in
      if out \<noteq> 0 then
        (if offs st a = MAX_BIN_DEFN_OFFSET then
           compress_struct L out limit call ty s (s\<lparr>obj_bin_defn_offset := new\<rparr>) (pointer_members ty) (set_offs a new st)
         else set_v L out new_stmt (offs st a) st)
      else if offs st a = MAX_BIN_DEFN_OFFSET then Inr st
      else compress_struct L out limit call ty s s (pointer_members ty) (set_offs a MAX_BIN_DEFN_OFFSET st))"

definition unlinked :: "struct_obj \<Rightarrow> struct_obj" where
  "unlinked s = s\<lparr>obj_next := 0, obj_prev := 0\<rparr>"

definition link_next :: "layout \<Rightarrow> int \<Rightarrow> SqlStatementType \<Rightarrow> int \<Rightarrow> int \<Rightarrow> compress_state \<Rightarrow> compress_error + compress_state" where
  "link_next L out ty new target st =
     set_struct out new (\<lambda>c. c\<lparr>obj_next := A2R target (new + offset_of_next L ty)\<rparr>) st"

text \<open>The loop over a circular list.\<close>

fun compress_list ::
    "layout \<Rightarrow> heap \<Rightarrow> int \<Rightarrow> int \<Rightarrow> compress_call \<Rightarrow> SqlStatementType \<Rightarrow> int \<Rightarrow> nat \<Rightarrow> int \<Rightarrow> compress_state
     \<Rightarrow> compress_error + compress_state" where
  "compress_list L h out limit call ty start 0 cur st = Inl OUT_OF_FUEL"
| "compress_list L h out limit call ty start (Suc k) cur st =
     bindE (get_struct h cur) (\<lambda>s.
     let new = out + out_length st in
     bindE (compress_struct L out limit call ty s (unlinked s) (pointer_members ty) st) (\<lambda>st.
     if obj_next s = start then Inr st
     else
       bindE (link_next L out ty new (out + out_length st) st)
         (compress_list L h out limit call ty start k (obj_next s))))"

text \<open>One element of a list whose elements are shared: the result is the place of the element in the buffer.\<close>

definition compress_element ::
    "layout \<Rightarrow> int \<Rightarrow> int \<Rightarrow> compress_call \<Rightarrow> SqlStatementType \<Rightarrow> int \<Rightarrow> int \<Rightarrow> int \<Rightarrow> struct_obj \<Rightarrow> compress_state
     \<Rightarrow> compress_error + int \<times> compress_state" where
  "compress_element L out limit call ty new_stmt start cur s st =
     (let new = out + out_length st in
      if out \<noteq> 0 then
        (if offs st cur = MAX_BIN_DEFN_OFFSET then
           map_sum id (Pair new)
             (compress_struct L out limit call ty s (unlinked (s\<lparr>obj_bin_defn_offset := new\<rparr>)) (pointer_members ty)
               (set_offs cur new st))
         else
           map_sum id (Pair (offs st cur)) (if cur = start then set_v L out new_stmt (offs st cur) st else Inr st))
      else
        map_sum id (Pair new)
          (if offs st cur = MAX_BIN_DEFN_OFFSET then Inr st
           else compress_struct L out limit call ty s s (pointer_members ty) (set_offs cur MAX_BIN_DEFN_OFFSET st)))"

fun compress_shared_list ::
    "layout \<Rightarrow> heap \<Rightarrow> int \<Rightarrow> int \<Rightarrow> compress_call \<Rightarrow> SqlStatementType \<Rightarrow> int \<Rightarrow> int \<Rightarrow> nat \<Rightarrow> int \<Rightarrow> compress_state
     \<Rightarrow> compress_error + compress_state" where
  "compress_shared_list L h out limit call ty new_stmt start 0 cur st = Inl OUT_OF_FUEL"
| "compress_shared_list L h out limit call ty new_stmt start (Suc k) cur st =
     bindE (get_struct h cur) (\<lambda>s.
     bindE (compress_element L out limit call ty new_stmt start cur s st) (\<lambda>(new, st).
     if obj_next s = start then Inr st
     else
       bindE (link_next L out ty new
                (if offs st (obj_next s) = MAX_BIN_DEFN_OFFSET then out + out_length st else offs st (obj_next s)) st)
         (compress_shared_list L h out limit call ty new_stmt start k (obj_next s))))"

definition compress_text ::
    "layout \<Rightarrow> heap \<Rightarrow> int \<Rightarrow> int \<Rightarrow> bool \<Rightarrow> struct_obj \<Rightarrow> int \<Rightarrow> compress_state \<Rightarrow> compress_error + compress_state" where
  "compress_text L h out limit is_view_processing s new st =
     (case h (member_of s M_string_literal) of
        Some (Text b) \<Rightarrow>
          let target = out + out_length st in
          bindE (put out limit (Text b) (int (length b) + 1) st)
            (set_struct out new
               (\<lambda>c. c\<lparr>member_of := (member_of c)
                         (M_string_literal := A2R target (new + offset_of L value_STATEMENT M_string_literal)),
                      parameter_index := if is_view_processing then 0 else parameter_index c\<rparr>))
      | _ \<Rightarrow> Inl INVALID_POINTER)"

definition compress_value ::
    "layout \<Rightarrow> heap \<Rightarrow> int \<Rightarrow> int \<Rightarrow> bool \<Rightarrow> compress_call \<Rightarrow> struct_obj \<Rightarrow> compress_state
     \<Rightarrow> compress_error + compress_state" where
  "compress_value L h out limit is_view_processing call s st =
     (let new = out + out_length st; ty = value_STATEMENT in
      bindE (put out limit (Struct s) (size_of L ty) st) (\<lambda>st.
      if value_type s = CALCULATED_VALUE then compress_members L out call ty s new [M_calculated] st
      else if value_type s = COERCE_TYPE then
        bindE (if is_view_processing then
                 set_struct out new (\<lambda>c. c\<lparr>scale_parameter_index := 0, size_or_precision_parameter_index := 0\<rparr>) st
               else Inr st)
          (compress_members L out call ty s new [M_coerce_target])
      else if has_text (value_type s) then compress_text L h out limit is_view_processing s new st
      else Inl FATAL_UNKNOWN_KEYWORD_STATE))"

section \<open>compress_statement\<close>

definition compress_body ::
    "layout \<Rightarrow> heap \<Rightarrow> int \<Rightarrow> int \<Rightarrow> bool \<Rightarrow> nat \<Rightarrow> compress_call \<Rightarrow> SqlStatementType \<Rightarrow> int \<Rightarrow> int \<Rightarrow> compress_state
     \<Rightarrow> compress_error + compress_state" where
  "compress_body L h out limit is_view_processing k call ty a new_stmt st =
     (case shape_of ty of
        PLAIN_STRUCT \<Rightarrow> bindE (get_struct h a) (\<lambda>s. compress_struct L out limit call ty s s (pointer_members ty) st)
      | SHARED_STRUCT \<Rightarrow> bindE (get_struct h a) (\<lambda>s. compress_shared L out limit call ty a s new_stmt st)
      | PLAIN_LIST \<Rightarrow> compress_list L h out limit call ty a k a st
      | SHARED_LIST \<Rightarrow> compress_shared_list L h out limit call ty new_stmt a k a st
      | VALUE_SHAPE \<Rightarrow> bindE (get_struct h a) (\<lambda>s. compress_value L h out limit is_view_processing call s st)
      | CONSTRAINT_SHAPE \<Rightarrow>
          bindE (get_struct h a) (\<lambda>s.
            compress_struct L out limit call ty s s (constraint_members (constraint_kind s)) st)
      | DATA_TYPE_SHAPE \<Rightarrow> Inr st
      | NO_SHAPE \<Rightarrow> Inl FATAL_UNKNOWN_KEYWORD_STATE)"

definition compress_step ::
    "layout \<Rightarrow> heap \<Rightarrow> int \<Rightarrow> int \<Rightarrow> bool \<Rightarrow> nat \<Rightarrow> compress_call \<Rightarrow> compress_call" where
  "compress_step L h out limit is_view_processing k call stmt st =
     (if stmt = 0 then Inr (0, st)
      else
        case h stmt of
          Some (Statement ty v d) \<Rightarrow>
            if v = 0 then Inr (0, st)
            else
              let new_stmt = out + out_length st; ret = (if out = 0 then 0 else new_stmt) in
              bindE (put out limit (Statement ty v d) (size_of_SqlStatement L) st) (\<lambda>st.
              if out \<noteq> 0 \<and> ty = data_type_struct_STATEMENT then Inr (ret, st)
              else
                bindE (set_v L out new_stmt (out + out_length st) st) (\<lambda>st.
                map_sum id (Pair ret) (compress_body L h out limit is_view_processing k call ty v new_stmt st)))
        | _ \<Rightarrow> Inl INVALID_POINTER)"

primrec compress_statement_helper :: "layout \<Rightarrow> heap \<Rightarrow> int \<Rightarrow> int \<Rightarrow> bool \<Rightarrow> nat \<Rightarrow> compress_call" where
  "compress_statement_helper L h out limit is_view_processing 0 = (\<lambda>stmt st. Inl OUT_OF_FUEL)"
| "compress_statement_helper L h out limit is_view_processing (Suc k) =
     compress_step L h out limit is_view_processing k (compress_statement_helper L h out limit is_view_processing k)"

text \<open>
  \<open>malloc\<close> returns the address \<open>block\<close>; the result is the final state, \<open>None\<close> where \<open>*out\<close> becomes NULL.
\<close>

definition compress_statement ::
    "layout \<Rightarrow> heap \<Rightarrow> bool \<Rightarrow> nat \<Rightarrow> int \<Rightarrow> int \<Rightarrow> (int \<Rightarrow> int) \<Rightarrow> compress_error + compress_state option" where
  "compress_statement L h is_view_processing fuel block stmt bin_defn_offsets =
     bindE (compress_statement_helper L h 0 0 is_view_processing fuel stmt
              \<lparr>offs = bin_defn_offsets, buf = Map.empty, out_length = 0\<rparr>) (\<lambda>(_, st).
     if out_length st = 0 then Inr None
     else
       bindE (compress_statement_helper L h block (out_length st) is_view_processing fuel stmt
                (st\<lparr>buf := Map.empty, out_length := 0\<rparr>)) (\<lambda>(_, st). Inr (Some st)))"

end
