(* ===== verification/Decompress_Statement.thy ===== *)
theory Decompress_Statement
  imports Compress_Statement
begin

text \<open>
  Reading a binary definition: \<open>decompress_statement.c\<close>, \<open>get_keyword.c\<close> and \<open>get_keyword_from_keywords.c\<close>. The block that
  \<open>compress_statement\<close> wrote has been loaded at some address; every relative pointer in it is replaced by an absolute one, in
  place. A structure that carries \<open>bin_defn_offset\<close> has it cleared when it is met first, the others are met once only.
  Table aliases get new numbers from \<open>config->plan_id\<close>. The state is the memory and the two members of \<open>config\<close> that are used. The check of
  a debug build that a function is still in the catalog is not part of the model.

  A failing assertion is the error \<open>ASSERTION_VIOLATED\<close>, a pointer to something else than expected \<open>INVALID_POINTER\<close>. The recursion and
  the loops over circular lists carry fuel, the loop over the keywords of a column has its own.
\<close>

record decompress_state =
  memory :: heap
  plan_id :: int
  in_auto_load_octo_seed :: bool

type_synonym decompress_call = "int \<Rightarrow> decompress_state \<Rightarrow> compress_error + int \<times> decompress_state"

text \<open>\<open>R2A\<close>: where a relative pointer \<open>x\<close> stored at location \<open>at\<close> leads.\<close>

definition R2A :: "int \<Rightarrow> int \<Rightarrow> int" where
  "R2A at x = at + x"

definition update_struct ::
    "int \<Rightarrow> (struct_obj \<Rightarrow> struct_obj) \<Rightarrow> decompress_state \<Rightarrow> compress_error + decompress_state" where
  "update_struct a f st =
     bindE (get_struct (memory st) a) (\<lambda>s. Inr (st\<lparr>memory := (memory st)(a \<mapsto> Struct (f s))\<rparr>))"

text \<open>\<open>CALL_DECOMPRESS_HELPER\<close> for one member after the other.\<close>

fun decompress_members ::
    "layout \<Rightarrow> decompress_call \<Rightarrow> SqlStatementType \<Rightarrow> int \<Rightarrow> member list \<Rightarrow> decompress_state \<Rightarrow> compress_error + decompress_state" where
  "decompress_members L call ty a [] st = Inr st"
| "decompress_members L call ty a (m # ms) st =
     bindE (get_struct (memory st) a) (\<lambda>s.
     if member_of s m = 0 then decompress_members L call ty a ms st
     else
       let p = R2A (a + offset_of L ty m) (member_of s m) in
       bindE (update_struct a (\<lambda>s. s\<lparr>member_of := (member_of s)(m := p)\<rparr>) st) (\<lambda>st.
       bindE (call p st) (\<lambda>(_, st). decompress_members L call ty a ms st)))"

section \<open>Lists\<close>

text \<open>The link of an element; the last one leads back to the first.\<close>

definition relocate_next ::
    "layout \<Rightarrow> SqlStatementType \<Rightarrow> int \<Rightarrow> int \<Rightarrow> decompress_state \<Rightarrow> compress_error + int \<times> decompress_state" where
  "relocate_next L ty start cur st =
     bindE (get_struct (memory st) cur) (\<lambda>s.
     let n = (if obj_next s = 0 then start else R2A (cur + offset_of_next L ty) (obj_next s)) in
     map_sum id (Pair n) (update_struct cur (\<lambda>s. s\<lparr>obj_next := n\<rparr>) st))"

definition set_prev :: "int \<Rightarrow> int \<Rightarrow> decompress_state \<Rightarrow> compress_error + decompress_state" where
  "set_prev n cur st = update_struct n (\<lambda>s. s\<lparr>obj_prev := cur\<rparr>) st"

text \<open>The types of the parameters of a function are the only list whose link is relocated before its members.\<close>

definition decompress_element ::
    "layout \<Rightarrow> decompress_call \<Rightarrow> SqlStatementType \<Rightarrow> int \<Rightarrow> int \<Rightarrow> decompress_state \<Rightarrow> compress_error + int \<times> decompress_state" where
  "decompress_element L call ty start cur st =
     (if ty = parameter_type_list_STATEMENT then
        bindE (relocate_next L ty start cur st) (\<lambda>(n, st).
        map_sum id (Pair n) (decompress_members L call ty cur (pointer_members ty) st))
      else bindE (decompress_members L call ty cur (pointer_members ty) st) (relocate_next L ty start cur))"

fun decompress_list ::
    "layout \<Rightarrow> decompress_call \<Rightarrow> SqlStatementType \<Rightarrow> int \<Rightarrow> nat \<Rightarrow> int \<Rightarrow> decompress_state \<Rightarrow> compress_error + decompress_state" where
  "decompress_list L call ty start 0 cur st = Inl OUT_OF_FUEL"
| "decompress_list L call ty start (Suc k) cur st =
     bindE (decompress_element L call ty start cur st) (\<lambda>(n, st).
     bindE (set_prev n cur st) (\<lambda>st.
     if n = start then Inr st else decompress_list L call ty start k n st))"

text \<open>\<open>get_keyword_from_keywords\<close>: the first keyword of a kind in a circular list, or NULL.\<close>

fun get_keyword_from_keywords :: "heap \<Rightarrow> OptionalKeyword \<Rightarrow> int \<Rightarrow> nat \<Rightarrow> int \<Rightarrow> compress_error + int" where
  "get_keyword_from_keywords h kind start 0 cur = Inl OUT_OF_FUEL"
| "get_keyword_from_keywords h kind start (Suc k) cur =
     bindE (get_struct h cur) (\<lambda>s.
     if keyword s = kind then Inr cur
     else if obj_next s = start then Inr 0 else get_keyword_from_keywords h kind start k (obj_next s))"

definition get_keyword :: "heap \<Rightarrow> nat \<Rightarrow> int \<Rightarrow> OptionalKeyword \<Rightarrow> compress_error + int" where
  "get_keyword h k column kind =
     bindE (get_struct h column) (\<lambda>s.
     if member_of s M_keywords = 0 then Inr 0
     else
       case h (member_of s M_keywords) of
         Some (Statement t v d) \<Rightarrow>
           if t = keyword_STATEMENT then get_keyword_from_keywords h kind v k v else Inl ASSERTION_VIOLATED
       | _ \<Rightarrow> Inl INVALID_POINTER)"

text \<open>\<open>cur_column->delim\<close> is set up from the keywords.\<close>

definition fix_delim :: "nat \<Rightarrow> int \<Rightarrow> decompress_state \<Rightarrow> compress_error + decompress_state" where
  "fix_delim k column st =
     bindE (get_keyword (memory st) k column OPTIONAL_DELIM) (\<lambda>kw.
     bindE (if kw = 0 then Inr 0 else map_sum id (\<lambda>s. member_of s M_keyword_v) (get_struct (memory st) kw)) (\<lambda>delim.
     update_struct column (\<lambda>s. s\<lparr>member_of := (member_of s)(M_delim := delim)\<rparr>) st))"

fun decompress_shared_list ::
    "layout \<Rightarrow> nat \<Rightarrow> decompress_call \<Rightarrow> SqlStatementType \<Rightarrow> int \<Rightarrow> nat \<Rightarrow> int \<Rightarrow> decompress_state \<Rightarrow> compress_error + decompress_state" where
  "decompress_shared_list L kws call ty start 0 cur st = Inl OUT_OF_FUEL"
| "decompress_shared_list L kws call ty start (Suc k) cur st =
     bindE (get_struct (memory st) cur) (\<lambda>s.
     if obj_bin_defn_offset s = 0 then Inr st
     else
       bindE (update_struct cur (\<lambda>s. s\<lparr>obj_bin_defn_offset := 0\<rparr>) st) (\<lambda>st.
       bindE (decompress_members L call ty cur (pointer_members ty) st) (\<lambda>st.
       bindE (if ty = column_STATEMENT then fix_delim kws cur st else Inr st) (\<lambda>st.
       bindE (relocate_next L ty start cur st) (\<lambda>(n, st).
       bindE (set_prev n cur st) (\<lambda>st.
       if n = start then Inr st else decompress_shared_list L kws call ty start k n st))))))"

text \<open>
  The number of the table alias that the first operand of a join was created with last. The right operand of a set
  operation is taken to be a table alias; the number of anything else is not there.
\<close>

definition alias_number :: "heap \<Rightarrow> int \<Rightarrow> compress_error + int" where
  "alias_number h stmt =
     (case h stmt of
        Some (Statement t v d) \<Rightarrow>
          if t = table_alias_STATEMENT then map_sum id unique_id (get_struct h v) else Inl INVALID_POINTER
      | _ \<Rightarrow> Inl INVALID_POINTER)"

definition last_alias_number :: "heap \<Rightarrow> int \<Rightarrow> compress_error + int" where
  "last_alias_number h stmt =
     (case h stmt of
        Some (Statement t v d) \<Rightarrow>
          if t = table_alias_STATEMENT then alias_number h stmt
          else if t = set_operation_STATEMENT then bindE (get_struct h v) (\<lambda>oper. alias_number h (member_of oper M_operand1))
          else Inl ASSERTION_VIOLATED
      | _ \<Rightarrow> Inl INVALID_POINTER)"

definition set_max_unique_id :: "int \<Rightarrow> decompress_state \<Rightarrow> compress_error + decompress_state" where
  "set_max_unique_id start st =
     bindE (get_struct (memory st) start) (\<lambda>s.
     bindE (last_alias_number (memory st) (member_of s M_value)) (\<lambda>n.
     update_struct start (\<lambda>s. s\<lparr>max_unique_id := n + 1\<rparr>) st))"

section \<open>Structures\<close>

definition decompress_shared ::
    "layout \<Rightarrow> decompress_call \<Rightarrow> SqlStatementType \<Rightarrow> int \<Rightarrow> decompress_state \<Rightarrow> compress_error + decompress_state" where
  "decompress_shared L call ty a st =
     bindE (get_struct (memory st) a) (\<lambda>s.
     if obj_bin_defn_offset s = 0 then Inr st
     else
       bindE (update_struct a (\<lambda>s. s\<lparr>obj_bin_defn_offset := 0\<rparr>) st) (\<lambda>st.
       bindE (decompress_members L call ty a (pointer_members ty) st) (\<lambda>st.
       if ty = table_alias_STATEMENT then
         map_sum id (plan_id_update (\<lambda>n. n + 1)) (update_struct a (\<lambda>s. s\<lparr>unique_id := plan_id st\<rparr>) st)
       else Inr st)))"

definition decompress_value ::
    "layout \<Rightarrow> decompress_call \<Rightarrow> int \<Rightarrow> decompress_state \<Rightarrow> compress_error + decompress_state" where
  "decompress_value L call a st =
     (let ty = value_STATEMENT in
      bindE (get_struct (memory st) a) (\<lambda>s.
      if value_type s = CALCULATED_VALUE then decompress_members L call ty a [M_calculated] st
      else if value_type s = COERCE_TYPE then decompress_members L call ty a [M_coerce_target] st
      else if has_text (value_type s) then
        update_struct a (\<lambda>s. s\<lparr>member_of := (member_of s)
          (M_string_literal := R2A (a + offset_of L ty M_string_literal) (member_of s M_string_literal))\<rparr>) st
      else Inl FATAL_UNKNOWN_KEYWORD_STATE))"

section \<open>decompress_statement\<close>

definition decompress_body ::
    "layout \<Rightarrow> nat \<Rightarrow> nat \<Rightarrow> decompress_call \<Rightarrow> SqlStatementType \<Rightarrow> int \<Rightarrow> decompress_state \<Rightarrow> compress_error + decompress_state" where
  "decompress_body L kws k call ty a st =
     (case shape_of ty of
        PLAIN_STRUCT \<Rightarrow> decompress_members L call ty a (pointer_members ty) st
      | SHARED_STRUCT \<Rightarrow> decompress_shared L call ty a st
      | PLAIN_LIST \<Rightarrow>
          if ty = parameter_type_list_STATEMENT \<and> a = 0 then Inr st
          else
            bindE (decompress_list L call ty a k a st) (\<lambda>st.
            if ty = join_STATEMENT then set_max_unique_id a st else Inr st)
      | SHARED_LIST \<Rightarrow> decompress_shared_list L kws call ty a k a st
      | VALUE_SHAPE \<Rightarrow> decompress_value L call a st
      | CONSTRAINT_SHAPE \<Rightarrow>
          bindE (get_struct (memory st) a) (\<lambda>s.
            decompress_members L call ty a (constraint_members (constraint_kind s)) st)
      | DATA_TYPE_SHAPE \<Rightarrow> Inl ASSERTION_VIOLATED
      | NO_SHAPE \<Rightarrow> Inl FATAL_UNKNOWN_KEYWORD_STATE)"

definition decompress_step ::
    "layout \<Rightarrow> int \<Rightarrow> int \<Rightarrow> nat \<Rightarrow> nat \<Rightarrow> decompress_call \<Rightarrow> decompress_call" where
  "decompress_step L out out_len kws k call stmt st =
     (if out + out_len \<le> stmt then Inl ASSERTION_VIOLATED
      else if stmt = 0 then Inr (0, st)
      else
        case memory st stmt of
          Some (Statement ty v d) \<Rightarrow>
            if v = 0 then Inr (0, st)
            else if ty = data_type_struct_STATEMENT then Inr (stmt, st)
            else
              let a = R2A (stmt + offset_of_v L) v in
              map_sum id (Pair stmt)
                (decompress_body L kws k call ty a (st\<lparr>memory := (memory st)(stmt \<mapsto> Statement ty a d)\<rparr>))
        | _ \<Rightarrow> Inl INVALID_POINTER)"

primrec decompress_statement_helper :: "layout \<Rightarrow> int \<Rightarrow> int \<Rightarrow> nat \<Rightarrow> nat \<Rightarrow> decompress_call" where
  "decompress_statement_helper L out out_len kws 0 = (\<lambda>stmt st. Inl OUT_OF_FUEL)"
| "decompress_statement_helper L out out_len kws (Suc k) =
     decompress_step L out out_len kws k (decompress_statement_helper L out out_len kws k)"

definition decompress_statement ::
    "layout \<Rightarrow> nat \<Rightarrow> int \<Rightarrow> int \<Rightarrow> decompress_state \<Rightarrow> compress_error + int \<times> decompress_state" where
  "decompress_statement L fuel buffer out_len st =
     (if in_auto_load_octo_seed st then Inl ASSERTION_VIOLATED
      else decompress_statement_helper L buffer out_len fuel fuel buffer st)"

end
