(* ===== verification/Compress_Laws.thy ===== *)
theory Compress_Laws
  imports Compress_Statement
begin

text \<open>
  The two passes of \<open>compress_statement\<close> agree: the second one follows the first step by step, so it writes exactly
  as many bytes as the first has counted and stays inside the allocated block, whatever the graph of statements is
  and whatever earlier compressions have left in \<open>bin_defn_offset\<close>.
\<close>

section \<open>How the states of the two passes correspond\<close>

datatype kind = K_Statement | K_Struct | K_Text

fun kind_of :: "obj \<Rightarrow> kind" where
  "kind_of (Statement _ _ _) = K_Statement"
| "kind_of (Struct _) = K_Struct"
| "kind_of (Text _) = K_Text"

definition kind_at :: "compress_state \<Rightarrow> int \<Rightarrow> kind option" where
  "kind_at st x = map_option kind_of (buf st x)"

definition maxed :: "compress_state \<Rightarrow> int set" where
  "maxed st = {a. offs st a = MAX_BIN_DEFN_OFFSET}"

definition sized :: "layout \<Rightarrow> bool" where
  "sized L \<longleftrightarrow> 0 < size_of_SqlStatement L \<and> (\<forall>t. 0 < size_of L t)"

text \<open>What has been marked or counted stays so; what has been written stays in place.\<close>

definition grows :: "compress_state \<Rightarrow> compress_state \<Rightarrow> bool" where
  "grows st st' \<longleftrightarrow> maxed st \<subseteq> maxed st' \<and> out_length st \<le> out_length st'"

definition keeps :: "compress_state \<Rightarrow> compress_state \<Rightarrow> bool" where
  "keeps st st' \<longleftrightarrow> kind_at st \<subseteq>\<^sub>m kind_at st'"

text \<open>
  \<open>st1\<close> is a state of the first pass, \<open>st2\<close> the corresponding one of the second. \<open>K\<close> are the structures that the whole
  first pass marks: those marked so far have a copy in the buffer, the others still carry the mark of the first pass.
\<close>

definition synced :: "int set \<Rightarrow> int \<Rightarrow> compress_state \<Rightarrow> compress_state \<Rightarrow> bool" where
  "synced K out st1 st2 \<longleftrightarrow>
     out_length st1 = out_length st2 \<and> 0 \<le> out_length st2
     \<and> (\<forall>x. kind_at st2 x \<noteq> None \<longrightarrow> x < out + out_length st2)
     \<and> (\<forall>a\<in>K. if a \<in> maxed st1 then a \<notin> maxed st2 \<and> kind_at st2 (offs st2 a) = Some K_Struct else a \<in> maxed st2)"

definition bounded :: "int set \<Rightarrow> int \<Rightarrow> compress_state \<Rightarrow> bool" where
  "bounded K limit st \<longleftrightarrow> maxed st \<subseteq> K \<and> out_length st \<le> limit"

lemma grows_refl [simp]: "grows st st"
  by (simp add: grows_def)

lemma grows_trans: "grows a b \<Longrightarrow> grows b c \<Longrightarrow> grows a c"
  by (auto simp: grows_def)

lemma keeps_refl [simp]: "keeps st st"
  by (simp add: keeps_def)

lemma keeps_trans: "keeps a b \<Longrightarrow> keeps b c \<Longrightarrow> keeps a c"
  by (auto simp: keeps_def intro: map_le_trans)

lemma keepsD: "keeps st st' \<Longrightarrow> kind_at st x = Some k \<Longrightarrow> kind_at st' x = Some k"
  by (auto simp: keeps_def map_le_def dom_def)

lemma bounded_grows: "grows st st' \<Longrightarrow> bounded K limit st' \<Longrightarrow> bounded K limit st"
  by (auto simp: grows_def bounded_def)

section \<open>The elementary operations\<close>

lemma set_out0 [simp]:
  "set_v L 0 new t st = Inr st" "set_struct 0 new f st = Inr st" "link_next L 0 ty new t st = Inr st"
  by (simp_all add: set_v_def set_struct_def link_next_def)

lemma put_out0 [simp]: "put 0 limit x sz st = Inr (st\<lparr>out_length := out_length st + sz\<rparr>)"
  by (simp add: put_def)

lemma put_sim:
  assumes "synced K out st1 st2" "out_length st1 + sz \<le> limit" "0 < sz" "0 < out"
  obtains st2' where "put out limit x sz st2 = Inr st2'" "synced K out (st1\<lparr>out_length := out_length st1 + sz\<rparr>) st2'"
    "keeps st2 st2'" "kind_at st2' (out + out_length st2) = Some (kind_of x)"
proof
  let ?st = "st2\<lparr>buf := (buf st2)(out + out_length st2 \<mapsto> x), out_length := out_length st2 + sz\<rparr>"
  have k: "kind_at ?st = (kind_at st2)(out + out_length st2 \<mapsto> kind_of x)" by (rule ext) (simp add: kind_at_def)
  have new: "kind_at st2 (out + out_length st2) = None" using assms(1) by (auto simp: synced_def)
  show "put out limit x sz st2 = Inr ?st" using assms by (simp add: put_def synced_def)
  show "keeps st2 ?st" using new by (auto simp: keeps_def k map_le_def)
  show "kind_at ?st (out + out_length st2) = Some (kind_of x)" by (simp add: k)
  have "offs st2 a \<noteq> out + out_length st2" if "kind_at st2 (offs st2 a) = Some K_Struct" for a using that new by auto
  moreover have "maxed ?st = maxed st2" "maxed (st1\<lparr>out_length := out_length st1 + sz\<rparr>) = maxed st1"
    by (simp_all add: maxed_def)
  ultimately show "synced K out (st1\<lparr>out_length := out_length st1 + sz\<rparr>) ?st"
    using assms by (auto simp: synced_def k)
qed

lemma update_buf_sim:
  assumes "synced K out st1 st2" "kind_at st2 x = Some (kind_of y)"
  shows "synced K out st1 (st2\<lparr>buf := (buf st2)(x \<mapsto> y)\<rparr>)" "keeps st2 (st2\<lparr>buf := (buf st2)(x \<mapsto> y)\<rparr>)"
proof -
  have "kind_at (st2\<lparr>buf := (buf st2)(x \<mapsto> y)\<rparr>) = kind_at st2" using assms(2) by (auto simp: kind_at_def)
  moreover have "maxed (st2\<lparr>buf := (buf st2)(x \<mapsto> y)\<rparr>) = maxed st2" by (simp add: maxed_def)
  ultimately show "synced K out st1 (st2\<lparr>buf := (buf st2)(x \<mapsto> y)\<rparr>)" "keeps st2 (st2\<lparr>buf := (buf st2)(x \<mapsto> y)\<rparr>)"
    using assms(1) by (simp_all add: synced_def keeps_def)
qed

lemma kind_at_Struct: "kind_at st x = Some K_Struct \<longleftrightarrow> (\<exists>s. buf st x = Some (Struct s))"
  by (auto simp: kind_at_def elim: kind_of.elims)

lemma kind_at_Statement: "kind_at st x = Some K_Statement \<longleftrightarrow> (\<exists>t v d. buf st x = Some (Statement t v d))"
  by (auto simp: kind_at_def elim: kind_of.elims)

lemma set_struct_sim:
  assumes "synced K out st1 st2" "kind_at st2 new = Some K_Struct"
  shows "\<exists>st2'. set_struct out new f st2 = Inr st2' \<and> synced K out st1 st2' \<and> keeps st2 st2'"
proof (cases "out = 0")
  case True
  then show ?thesis using assms(1) by simp
next
  case False
  obtain s where "buf st2 new = Some (Struct s)" using assms(2) by (auto simp: kind_at_Struct)
  then show ?thesis
    using update_buf_sim [OF assms(1), of new "Struct (f s)"] assms(2) False by (simp add: set_struct_def)
qed

lemma set_v_sim:
  assumes "synced K out st1 st2" "kind_at st2 new = Some K_Statement"
  shows "\<exists>st2'. set_v L out new t st2 = Inr st2' \<and> synced K out st1 st2' \<and> keeps st2 st2'"
proof (cases "out = 0")
  case True
  then show ?thesis using assms(1) by simp
next
  case False
  obtain ty v d where s: "buf st2 new = Some (Statement ty v d)" using assms(2) by (auto simp: kind_at_Statement)
  then show ?thesis
    using update_buf_sim [OF assms(1), of new "Statement ty (A2R t (new + offset_of_v L)) d"] assms(2) False
    by (simp add: set_v_def)
qed

text \<open>A structure that the first pass marks and the second one gives its place in the buffer.\<close>

lemma set_offs_sim:
  assumes "synced K out st1 st2" "a \<notin> maxed st1" "a \<in> K" "0 < out" "out_length st1 + sz \<le> limit" "0 < sz"
  obtains st2' where "put out limit (Struct c) sz (set_offs a (out + out_length st2) st2) = Inr st2'"
    "synced K out ((set_offs a MAX_BIN_DEFN_OFFSET st1)\<lparr>out_length := out_length st1 + sz\<rparr>) st2'" "keeps st2 st2'"
    "kind_at st2' (out + out_length st2) = Some K_Struct"
proof
  let ?new = "out + out_length st2"
  let ?st = "(set_offs a ?new st2)\<lparr>buf := (buf st2)(?new \<mapsto> Struct c), out_length := out_length st2 + sz\<rparr>"
  have k: "kind_at ?st = (kind_at st2)(?new \<mapsto> K_Struct)" by (rule ext) (simp add: kind_at_def)
  have new: "kind_at st2 ?new = None" using assms(1) by (auto simp: synced_def)
  show "put out limit (Struct c) sz (set_offs a ?new st2) = Inr ?st"
    using assms by (simp add: put_def synced_def set_offs_def)
  show "keeps st2 ?st" using new by (auto simp: keeps_def k map_le_def)
  show "kind_at ?st ?new = Some K_Struct" by (simp add: k)
  have "?new \<noteq> - 1" using assms by (simp add: synced_def)
  then have "maxed ?st = maxed st2 - {a}" by (auto simp: maxed_def set_offs_def)
  moreover have "maxed ((set_offs a MAX_BIN_DEFN_OFFSET st1)\<lparr>out_length := out_length st1 + sz\<rparr>) = insert a (maxed st1)"
    by (auto simp: maxed_def set_offs_def)
  moreover have "offs st2 b \<noteq> ?new" if "kind_at st2 (offs st2 b) = Some K_Struct" for b using that new by auto
  moreover have "offs ?st b = (if b = a then ?new else offs st2 b)" for b by (simp add: set_offs_def)
  ultimately show "synced K out ((set_offs a MAX_BIN_DEFN_OFFSET st1)\<lparr>out_length := out_length st1 + sz\<rparr>) ?st"
    using assms by (auto simp: synced_def k)
qed

section \<open>The first pass only adds\<close>

definition call_grows :: "compress_call \<Rightarrow> bool" where
  "call_grows call \<longleftrightarrow> (\<forall>s st r st'. call s st = Inr (r, st') \<longrightarrow> grows st st')"

lemma call_growsD: "call_grows call \<Longrightarrow> call s st = Inr (r, st') \<Longrightarrow> grows st st'"
  by (auto simp: call_grows_def)

lemma members_grow:
  assumes "call_grows call"
  shows "compress_members L 0 call ty s new ms st = Inr st' \<Longrightarrow> grows st st'"
proof (induction ms arbitrary: st)
  case (Cons m ms)
  then obtain r sta where "call (member_of s m) st = Inr (r, sta)" "compress_members L 0 call ty s new ms sta = Inr st'"
    by (auto simp: bindE_Inr_iff)
  then show ?case using Cons.IH call_growsD [OF assms] grows_trans by blast
qed simp

lemma grows_longer: "0 \<le> n \<Longrightarrow> grows st (st\<lparr>out_length := out_length st + n\<rparr>)"
  by (simp add: grows_def maxed_def)

lemma grows_set_offs: "grows st (set_offs a MAX_BIN_DEFN_OFFSET st)"
  by (auto simp: grows_def maxed_def set_offs_def)

lemma size_pos: "sized L \<Longrightarrow> 0 < size_of L ty" "sized L \<Longrightarrow> 0 < size_of_SqlStatement L"
  by (simp_all add: sized_def)

lemma struct_grows:
  assumes "sized L" "call_grows call" "compress_struct L 0 limit call ty s c ms st = Inr st'"
  shows "grows st st'"
proof -
  have "grows st (st\<lparr>out_length := out_length st + size_of L ty\<rparr>)"
    using size_pos(1) [OF assms(1), of ty] by (intro grows_longer) simp
  then show ?thesis using assms(3) members_grow [OF assms(2)] grows_trans by (auto simp: compress_struct_def Let_def)
qed

lemma shared_grows:
  assumes "sized L" "call_grows call" "compress_shared L 0 limit call ty a s new_stmt st = Inr st'"
  shows "grows st st'"
  using assms(3)
  by (auto simp: compress_shared_def split: if_splits intro: grows_trans [OF grows_set_offs] struct_grows [OF assms(1,2)])

lemma list_grows:
  assumes "sized L" "call_grows call"
  shows "compress_list L h 0 limit call ty start k cur st = Inr st' \<Longrightarrow> grows st st'"
proof (induction k arbitrary: cur st)
  case (Suc k)
  then obtain s sta where sta: "compress_struct L 0 limit call ty s (unlinked s) (pointer_members ty) st = Inr sta"
    "sta = st' \<or> compress_list L h 0 limit call ty start k (obj_next s) sta = Inr st'"
    by (auto simp: bindE_Inr_iff split: if_splits)
  then show ?case using Suc.IH struct_grows [OF assms sta(1)] grows_trans by blast
qed simp

lemma map_sum_Inr: "map_sum id f x = Inr y \<longleftrightarrow> (\<exists>z. x = Inr z \<and> y = f z)"
  by (cases x) auto

lemma element_grows:
  assumes "sized L" "call_grows call" "compress_element L 0 limit call ty new_stmt start cur s st = Inr (new, st')"
  shows "grows st st'"
  using assms(3)
  by (auto simp: compress_element_def map_sum_Inr split: if_splits
      intro: grows_trans [OF grows_set_offs] struct_grows [OF assms(1,2)])

lemma shared_list_grows:
  assumes "sized L" "call_grows call"
  shows "compress_shared_list L h 0 limit call ty new_stmt start k cur st = Inr st' \<Longrightarrow> grows st st'"
proof (induction k arbitrary: cur st)
  case (Suc k)
  then obtain s new sta where sta: "compress_element L 0 limit call ty new_stmt start cur s st = Inr (new, sta)"
    "sta = st' \<or> compress_shared_list L h 0 limit call ty new_stmt start k (obj_next s) sta = Inr st'"
    by (auto simp: bindE_Inr_iff split: if_splits)
  then show ?case using Suc.IH element_grows [OF assms sta(1)] grows_trans by blast
qed simp

lemma value_grows:
  assumes "sized L" "call_grows call" "compress_value L h 0 limit v call s st = Inr st'"
  shows "grows st st'"
proof -
  let ?st = "st\<lparr>out_length := out_length st + size_of L value_STATEMENT\<rparr>"
  have g: "grows st ?st" using size_pos(1) [OF assms(1)] by (intro grows_longer) (simp add: order.strict_implies_order)
  consider m where "compress_members L 0 call value_STATEMENT s (out_length st) [m] ?st = Inr st'"
    | n where "st' = ?st\<lparr>out_length := out_length ?st + (int n + 1)\<rparr>"
    using assms(3) by (auto simp: compress_value_def compress_text_def Let_def
        split: if_splits option.splits obj.splits simp del: compress_members.simps)
  then have "grows ?st st'"
  proof cases
    case (2 n)
    then show ?thesis using grows_longer [of "int n + 1" ?st] by (simp add: add.assoc)
  qed (rule members_grow [OF assms(2)])
  then show ?thesis by (rule grows_trans [OF g])
qed

lemma body_grows:
  assumes "sized L" "call_grows call" "compress_body L h 0 limit v k call ty a new_stmt st = Inr st'"
  shows "grows st st'"
  using assms(3) struct_grows [OF assms(1,2)] shared_grows [OF assms(1,2)] list_grows [OF assms(1,2)]
    shared_list_grows [OF assms(1,2)] value_grows [OF assms(1,2)]
  by (auto simp: compress_body_def bindE_Inr_iff split: shape.splits)

lemma step_grows:
  assumes "sized L" "call_grows call"
  shows "call_grows (compress_step L h 0 limit v k call)"
  unfolding call_grows_def
proof (intro allI impI)
  fix s st r st'
  assume "compress_step L h 0 limit v k call s st = Inr (r, st')"
  then consider "st' = st" | ty a st1 where "st1 = st\<lparr>out_length := out_length st + size_of_SqlStatement L\<rparr>"
      "compress_body L h 0 limit v k call ty a (out_length st) st1 = Inr st'"
    by (auto simp: compress_step_def Let_def map_sum_Inr split: if_splits option.splits obj.splits)
  then show "grows st st'"
  proof cases
    case (2 ty a st1)
    then show ?thesis
      using grows_trans [OF grows_longer [of "size_of_SqlStatement L" st] body_grows [OF assms, of h limit v k ty a]]
        size_pos(2) [OF assms(1)]
      by (simp add: order.strict_implies_order)
  qed simp
qed

lemma helper_grows: "sized L \<Longrightarrow> call_grows (compress_statement_helper L h 0 limit v k)"
  by (induction k) (simp_all add: call_grows_def [of "\<lambda>stmt st. Inl OUT_OF_FUEL"] step_grows)

section \<open>The second pass follows the first\<close>

definition call_sim :: "int set \<Rightarrow> int \<Rightarrow> int \<Rightarrow> compress_call \<Rightarrow> compress_call \<Rightarrow> bool" where
  "call_sim K out limit call1 call2 \<longleftrightarrow>
     (\<forall>s st1 r st1' st2. call1 s st1 = Inr (r, st1') \<longrightarrow> synced K out st1 st2 \<longrightarrow> bounded K limit st1' \<longrightarrow>
        (\<exists>r' st2'. call2 s st2 = Inr (r', st2') \<and> synced K out st1' st2' \<and> keeps st2 st2'))"

lemma call_simE:
  assumes "call_sim K out limit call1 call2" "call1 s st1 = Inr (r, st1')" "synced K out st1 st2" "bounded K limit st1'"
  obtains r' st2' where "call2 s st2 = Inr (r', st2')" "synced K out st1' st2'" "keeps st2 st2'"
  using assms unfolding call_sim_def by blast

lemma members_sim:
  assumes "call_grows call1" "call_sim K out limit call1 call2"
  shows "compress_members L 0 call1 ty s new1 ms st1 = Inr st1' \<Longrightarrow> synced K out st1 st2 \<Longrightarrow> bounded K limit st1' \<Longrightarrow>
    kind_at st2 new = Some K_Struct \<Longrightarrow>
    \<exists>st2'. compress_members L out call2 ty s new ms st2 = Inr st2' \<and> synced K out st1' st2' \<and> keeps st2 st2'"
proof (induction ms arbitrary: st1 st2)
  case (Cons m ms)
  then obtain r sta where a: "call1 (member_of s m) st1 = Inr (r, sta)"
      "compress_members L 0 call1 ty s new1 ms sta = Inr st1'"
    by (auto simp: bindE_Inr_iff)
  have "bounded K limit sta" using members_grow [OF assms(1) a(2)] Cons.prems(3) by (rule bounded_grows)
  then obtain r' stb where b: "call2 (member_of s m) st2 = Inr (r', stb)" "synced K out sta stb" "keeps st2 stb"
    using call_simE [OF assms(2) a(1) Cons.prems(2)] by blast
  let ?f = "\<lambda>c. c\<lparr>member_of := (member_of c)(m := if r' = 0 then 0 else A2R r' (new + offset_of L ty m))\<rparr>"
  obtain stc where c: "set_struct out new ?f stb = Inr stc" "synced K out sta stc" "keeps stb stc"
    using set_struct_sim [OF b(2) keepsD [OF b(3) Cons.prems(4)]] by blast
  have "kind_at stc new = Some K_Struct" using keepsD [OF keeps_trans [OF b(3) c(3)] Cons.prems(4)] .
  from Cons.IH [OF a(2) c(2) Cons.prems(3) this] obtain std where
    "compress_members L out call2 ty s new ms stc = Inr std" "synced K out st1' std" "keeps stc std" by blast
  then show ?case using b(1) c(1) keeps_trans [OF b(3) keeps_trans [OF c(3)]] by simp
qed simp

lemma struct_sim:
  assumes "sized L" "0 < out" "call_grows call1" "call_sim K out limit call1 call2"
    and "compress_struct L 0 limit1 call1 ty s c1 ms st1 = Inr st1'" "synced K out st1 st2" "bounded K limit st1'"
  shows "\<exists>st2'. compress_struct L out limit call2 ty s c2 ms st2 = Inr st2' \<and> synced K out st1' st2' \<and> keeps st2 st2'
    \<and> kind_at st2' (out + out_length st2) = Some K_Struct"
proof -
  let ?st = "st1\<lparr>out_length := out_length st1 + size_of L ty\<rparr>"
  have m: "compress_members L 0 call1 ty s (out_length st1) ms ?st = Inr st1'"
    using assms(5) by (simp add: compress_struct_def)
  have "bounded K limit ?st" using members_grow [OF assms(3) m] assms(7) by (rule bounded_grows)
  then have "out_length st1 + size_of L ty \<le> limit" by (simp add: bounded_def)
  then obtain sta where a: "put out limit (Struct c2) (size_of L ty) st2 = Inr sta" "synced K out ?st sta" "keeps st2 sta"
    "kind_at sta (out + out_length st2) = Some K_Struct"
    using put_sim [OF assms(6) _ size_pos(1) [OF assms(1)] assms(2), of ty limit "Struct c2"] by auto
  from members_sim [OF assms(3,4) m a(2) assms(7) a(4)] obtain stb where
    "compress_members L out call2 ty s (out + out_length st2) ms sta = Inr stb" "synced K out st1' stb" "keeps sta stb"
    by blast
  then show ?thesis
    using a keeps_trans [OF a(3)] keepsD by (auto simp: compress_struct_def Let_def)
qed

text \<open>The first visit of a structure that others share.\<close>

lemma first_visit_sim:
  assumes "sized L" "0 < out" "call_grows call1" "call_sim K out limit call1 call2"
    and "compress_struct L 0 limit1 call1 ty s c1 ms (set_offs a MAX_BIN_DEFN_OFFSET st1) = Inr st1'"
    and "a \<notin> maxed st1" "synced K out st1 st2" "bounded K limit st1'"
  shows "\<exists>st2'. compress_struct L out limit call2 ty s c2 ms (set_offs a (out + out_length st2) st2) = Inr st2'
    \<and> synced K out st1' st2' \<and> keeps st2 st2' \<and> kind_at st2' (out + out_length st2) = Some K_Struct"
proof -
  let ?st = "(set_offs a MAX_BIN_DEFN_OFFSET st1)\<lparr>out_length := out_length st1 + size_of L ty\<rparr>"
  have m: "compress_members L 0 call1 ty s (out_length st1) ms ?st = Inr st1'"
    using assms(5) by (simp add: compress_struct_def set_offs_def)
  have "bounded K limit ?st" using members_grow [OF assms(3) m] assms(8) by (rule bounded_grows)
  then have b: "out_length st1 + size_of L ty \<le> limit" "a \<in> K" by (auto simp: bounded_def maxed_def set_offs_def)
  obtain sta where a: "put out limit (Struct c2) (size_of L ty) (set_offs a (out + out_length st2) st2) = Inr sta"
    "synced K out ?st sta" "keeps st2 sta" "kind_at sta (out + out_length st2) = Some K_Struct"
    using set_offs_sim [OF assms(7,6) b(2) assms(2) b(1) size_pos(1) [OF assms(1)], of c2] .
  from members_sim [OF assms(3,4) m a(2) assms(8) a(4)] obtain stb where
    "compress_members L out call2 ty s (out + out_length st2) ms sta = Inr stb" "synced K out st1' stb" "keeps sta stb"
    by blast
  moreover have "out_length (set_offs a (out + out_length st2) st2) = out_length st2" by (simp add: set_offs_def)
  ultimately show ?thesis
    using a keeps_trans [OF a(3)] keepsD by (auto simp: compress_struct_def Let_def)
qed

lemma visited_iff:
  assumes "synced K out st1 st2" "bounded K limit st1'" "a \<in> maxed st1'"
  shows "a \<in> maxed st1 \<longleftrightarrow> a \<notin> maxed st2" "a \<in> maxed st1 \<Longrightarrow> kind_at st2 (offs st2 a) = Some K_Struct"
  using assms by (auto simp: synced_def bounded_def split: if_splits)

lemma maxed_iff: "a \<in> maxed st \<longleftrightarrow> offs st a = MAX_BIN_DEFN_OFFSET"
  by (simp add: maxed_def)

lemma maxed_after_struct:
  assumes "sized L" "call_grows call" "compress_struct L 0 limit call ty s c ms (set_offs a MAX_BIN_DEFN_OFFSET st) = Inr st'"
  shows "a \<in> maxed st'"
  using struct_grows [OF assms] by (auto simp: grows_def maxed_def set_offs_def)

lemma shared_sim:
  assumes "sized L" "0 < out" "call_grows call1" "call_sim K out limit call1 call2"
    and "compress_shared L 0 limit1 call1 ty a s new1 st1 = Inr st1'" "synced K out st1 st2" "bounded K limit st1'"
    and "kind_at st2 new_stmt = Some K_Statement"
  shows "\<exists>st2'. compress_shared L out limit call2 ty a s new_stmt st2 = Inr st2' \<and> synced K out st1' st2' \<and> keeps st2 st2'"
proof (cases "a \<in> maxed st1")
  case True
  then have "st1' = st1" using assms(5) by (simp add: compress_shared_def maxed_iff)
  then show ?thesis
    using visited_iff [OF assms(6,7), of a] True set_v_sim [OF assms(6,8), of L "offs st2 a"] assms(2)
    by (auto simp: compress_shared_def maxed_iff)
next
  case False
  have v: "compress_struct L 0 limit1 call1 ty s s (pointer_members ty) (set_offs a MAX_BIN_DEFN_OFFSET st1) = Inr st1'"
    using assms(5) False by (simp add: compress_shared_def maxed_iff)
  have "a \<in> maxed st2" using False visited_iff(1) [OF assms(6,7) maxed_after_struct [OF assms(1,3) v]] by simp
  then show ?thesis
    using first_visit_sim [OF assms(1-4) v False assms(6,7)] assms(2)
    by (auto simp: compress_shared_def maxed_iff Let_def)
qed

lemma list_sim:
  assumes "sized L" "0 < out" "call_grows call1" "call_sim K out limit call1 call2"
  shows "compress_list L h 0 limit1 call1 ty start k cur st1 = Inr st1' \<Longrightarrow> synced K out st1 st2 \<Longrightarrow> bounded K limit st1' \<Longrightarrow>
    \<exists>st2'. compress_list L h out limit call2 ty start k cur st2 = Inr st2' \<and> synced K out st1' st2' \<and> keeps st2 st2'"
proof (induction k arbitrary: cur st1 st2)
  case (Suc k)
  then obtain s sta where s: "get_struct h cur = Inr s"
    and a: "compress_struct L 0 limit1 call1 ty s (unlinked s) (pointer_members ty) st1 = Inr sta"
    and rest: "obj_next s = start \<and> sta = st1'
      \<or> obj_next s \<noteq> start \<and> compress_list L h 0 limit1 call1 ty start k (obj_next s) sta = Inr st1'"
    by (auto simp: bindE_Inr_iff split: if_splits)
  have "grows sta st1'"
    using rest list_grows [OF assms(1,3)] grows_refl by blast
  then have "bounded K limit sta" using Suc.prems(3) by (rule bounded_grows)
  from struct_sim [OF assms a Suc.prems(2) this, of "unlinked s"] obtain stb where
    b: "compress_struct L out limit call2 ty s (unlinked s) (pointer_members ty) st2 = Inr stb" "synced K out sta stb"
      "keeps st2 stb" "kind_at stb (out + out_length st2) = Some K_Struct" by blast
  show ?case
  proof (cases "obj_next s = start")
    case True
    then show ?thesis using s b rest by simp
  next
    case False
    obtain stc where c: "link_next L out ty (out + out_length st2) (out + out_length stb) stb = Inr stc" "synced K out sta stc"
      "keeps stb stc"
      using set_struct_sim [OF b(2,4)] unfolding link_next_def by blast
    then show ?thesis
      using Suc.IH [of "obj_next s" sta stc] rest False s b Suc.prems(3) keeps_trans [OF b(3) keeps_trans [OF c(3)]] by auto
  qed
qed simp

lemma element_sim:
  assumes "sized L" "0 < out" "call_grows call1" "call_sim K out limit call1 call2"
    and "compress_element L 0 limit1 call1 ty new1 start cur s st1 = Inr (new, st1')" "synced K out st1 st2"
    and "bounded K limit st1'" "kind_at st2 new_stmt = Some K_Statement"
  shows "\<exists>new st2'. compress_element L out limit call2 ty new_stmt start cur s st2 = Inr (new, st2')
    \<and> synced K out st1' st2' \<and> keeps st2 st2' \<and> kind_at st2' new = Some K_Struct"
proof (cases "cur \<in> maxed st1")
  case True
  then have st1': "st1' = st1" using assms(5) by (simp add: compress_element_def maxed_iff)
  have v: "cur \<notin> maxed st2" "kind_at st2 (offs st2 cur) = Some K_Struct"
    using visited_iff [OF assms(6,7), of cur] True st1' by simp_all
  obtain sta where "(if cur = start then set_v L out new_stmt (offs st2 cur) st2 else Inr st2) = Inr sta"
      "synced K out st1 sta" "keeps st2 sta"
    using set_v_sim [OF assms(6,8), of L "offs st2 cur"] assms(6) keeps_refl by (cases "cur = start") auto
  then show ?thesis
    using v assms(2) st1' keepsD [of st2 sta] by (simp add: compress_element_def maxed_iff)
next
  case False
  have v: "compress_struct L 0 limit1 call1 ty s s (pointer_members ty) (set_offs cur MAX_BIN_DEFN_OFFSET st1) = Inr st1'"
    using assms(5) False by (auto simp: compress_element_def maxed_iff map_sum_Inr)
  have "cur \<in> maxed st2" using False visited_iff(1) [OF assms(6,7) maxed_after_struct [OF assms(1,3) v]] by simp
  then show ?thesis
    using first_visit_sim [OF assms(1-4) v False assms(6,7), of "unlinked (s\<lparr>obj_bin_defn_offset := out + out_length st2\<rparr>)"] assms(2)
    by (auto simp: compress_element_def maxed_iff Let_def)
qed

lemma shared_list_sim:
  assumes "sized L" "0 < out" "call_grows call1" "call_sim K out limit call1 call2"
  shows "compress_shared_list L h 0 limit1 call1 ty new1 start k cur st1 = Inr st1' \<Longrightarrow> synced K out st1 st2 \<Longrightarrow>
    bounded K limit st1' \<Longrightarrow> kind_at st2 new_stmt = Some K_Statement \<Longrightarrow>
    \<exists>st2'. compress_shared_list L h out limit call2 ty new_stmt start k cur st2 = Inr st2'
      \<and> synced K out st1' st2' \<and> keeps st2 st2'"
proof (induction k arbitrary: cur st1 st2)
  case (Suc k)
  then obtain s new sta where s: "get_struct h cur = Inr s"
    and a: "compress_element L 0 limit1 call1 ty new1 start cur s st1 = Inr (new, sta)"
    and rest: "obj_next s = start \<and> sta = st1'
      \<or> obj_next s \<noteq> start \<and> compress_shared_list L h 0 limit1 call1 ty new1 start k (obj_next s) sta = Inr st1'"
    by (auto simp: bindE_Inr_iff split: if_splits)
  have "grows sta st1'"
    using rest shared_list_grows [OF assms(1,3)] grows_refl by blast
  then have "bounded K limit sta" using Suc.prems(3) by (rule bounded_grows)
  from element_sim [OF assms a Suc.prems(2) this Suc.prems(4)] obtain new stb where
    b: "compress_element L out limit call2 ty new_stmt start cur s st2 = Inr (new, stb)" "synced K out sta stb"
      "keeps st2 stb" "kind_at stb new = Some K_Struct" by blast
  show ?case
  proof (cases "obj_next s = start")
    case True
    then show ?thesis using s b rest by simp
  next
    case False
    let ?t = "if offs stb (obj_next s) = MAX_BIN_DEFN_OFFSET then out + out_length stb else offs stb (obj_next s)"
    obtain stc where c: "link_next L out ty new ?t stb = Inr stc" "synced K out sta stc" "keeps stb stc"
      using set_struct_sim [OF b(2,4)] unfolding link_next_def by blast
    have "kind_at stc new_stmt = Some K_Statement" using keepsD [OF keeps_trans [OF b(3) c(3)] Suc.prems(4)] .
    then show ?thesis
      using Suc.IH [of "obj_next s" sta stc] rest False s b c Suc.prems(3) keeps_trans [OF b(3) keeps_trans [OF c(3)]]
      by auto
  qed
qed simp

lemma text_sim:
  assumes "0 < out" "compress_text L h 0 limit1 v s new1 st1 = Inr st1'" "synced K out st1 st2" "bounded K limit st1'"
    and "kind_at st2 new = Some K_Struct"
  shows "\<exists>st2'. compress_text L h out limit v s new st2 = Inr st2' \<and> synced K out st1' st2' \<and> keeps st2 st2'"
proof -
  obtain b where b: "h (member_of s M_string_literal) = Some (Text b)"
      "st1' = st1\<lparr>out_length := out_length st1 + (int (length b) + 1)\<rparr>"
    using assms(2) by (auto simp: compress_text_def split: option.splits obj.splits)
  have "out_length st1 + (int (length b) + 1) \<le> limit" using assms(4) b(2) by (simp add: bounded_def)
  then obtain sta where a: "put out limit (Text b) (int (length b) + 1) st2 = Inr sta" "synced K out st1' sta" "keeps st2 sta"
    using put_sim [OF assms(3) _ _ assms(1), of "int (length b) + 1" limit "Text b"] b(2) by auto
  show ?thesis
    using set_struct_sim [OF a(2) keepsD [OF a(3) assms(5)]] a(1) b(1) keeps_trans [OF a(3)]
    by (auto simp: compress_text_def Let_def)
qed

lemma value_sim:
  assumes "sized L" "0 < out" "call_grows call1" "call_sim K out limit call1 call2"
    and "compress_value L h 0 limit1 v call1 s st1 = Inr st1'" "synced K out st1 st2" "bounded K limit st1'"
  shows "\<exists>st2'. compress_value L h out limit v call2 s st2 = Inr st2' \<and> synced K out st1' st2' \<and> keeps st2 st2'"
proof -
  let ?ty = value_STATEMENT
  let ?st = "st1\<lparr>out_length := out_length st1 + size_of L ?ty\<rparr>"
  have "value_type s = CALCULATED_VALUE \<and>
      compress_members L 0 call1 ?ty s (out_length st1) [M_calculated] ?st = Inr st1'
    \<or> value_type s = COERCE_TYPE \<and> compress_members L 0 call1 ?ty s (out_length st1) [M_coerce_target] ?st = Inr st1'
    \<or> value_type s \<noteq> CALCULATED_VALUE \<and> value_type s \<noteq> COERCE_TYPE \<and> has_text (value_type s)
      \<and> compress_text L h 0 limit1 v s (out_length st1) ?st = Inr st1'"
    using assms(5) by (auto simp: compress_value_def Let_def split: if_splits simp del: compress_members.simps)
  then consider (calculated) "value_type s = CALCULATED_VALUE"
      "compress_members L 0 call1 ?ty s (out_length st1) [M_calculated] ?st = Inr st1'"
    | (coerce) "value_type s = COERCE_TYPE"
      "compress_members L 0 call1 ?ty s (out_length st1) [M_coerce_target] ?st = Inr st1'"
    | (literal) "value_type s \<noteq> CALCULATED_VALUE" "value_type s \<noteq> COERCE_TYPE" "has_text (value_type s)"
      "compress_text L h 0 limit1 v s (out_length st1) ?st = Inr st1'"
    by blast
  note cases = this
  have "grows ?st st1'"
  proof (cases rule: cases)
    case literal
    then show ?thesis
      using grows_longer [of "int n + 1" ?st for n] by (auto simp: compress_text_def add.assoc split: option.splits obj.splits)
  qed (blast intro: members_grow [OF assms(3)])+
  then have "bounded K limit ?st" using assms(7) by (rule bounded_grows)
  then have "out_length st1 + size_of L ?ty \<le> limit" by (simp add: bounded_def)
  then obtain sta where a: "put out limit (Struct s) (size_of L ?ty) st2 = Inr sta" "synced K out ?st sta" "keeps st2 sta"
      "kind_at sta (out + out_length st2) = Some K_Struct"
    using put_sim [OF assms(6) _ size_pos(1) [OF assms(1)] assms(2), of ?ty limit "Struct s"] by auto
  obtain stb where b: "(if v then set_struct out (out + out_length st2)
        (\<lambda>c. c\<lparr>scale_parameter_index := 0, size_or_precision_parameter_index := 0\<rparr>) sta else Inr sta) = Inr stb"
      "synced K out ?st stb" "keeps sta stb"
    using set_struct_sim [OF a(2,4)] a(2) keeps_refl by (cases v) auto
  show ?thesis
  proof (cases rule: cases)
    case calculated
    then show ?thesis
      using members_sim [OF assms(3,4) calculated(2) a(2) assms(7) a(4)] a(1) keeps_trans [OF a(3)]
      by (auto simp: compress_value_def Let_def simp del: compress_members.simps)
  next
    case coerce
    then show ?thesis
      using members_sim [OF assms(3,4) coerce(2) b(2) assms(7) keepsD [OF b(3) a(4)]] a(1) b(1)
        keeps_trans [OF a(3) keeps_trans [OF b(3)]]
      by (auto simp: compress_value_def Let_def simp del: compress_members.simps)
  next
    case literal
    then show ?thesis
      using text_sim [OF assms(2) literal(4) a(2) assms(7) a(4)] a(1) keeps_trans [OF a(3)]
      by (auto simp: compress_value_def Let_def)
  qed
qed

lemma body_sim:
  assumes "sized L" "0 < out" "call_grows call1" "call_sim K out limit call1 call2"
    and "compress_body L h 0 limit1 v k call1 ty a new1 st1 = Inr st1'" "synced K out st1 st2" "bounded K limit st1'"
    and "kind_at st2 new_stmt = Some K_Statement"
  shows "\<exists>st2'. compress_body L h out limit v k call2 ty a new_stmt st2 = Inr st2' \<and> synced K out st1' st2' \<and> keeps st2 st2'"
proof (cases "shape_of ty")
  case PLAIN_STRUCT
  then show ?thesis
    using assms(5) struct_sim [OF assms(1-4) _ assms(6,7)] by (fastforce simp: compress_body_def bindE_Inr_iff)
next
  case SHARED_STRUCT
  then show ?thesis
    using assms(5) shared_sim [OF assms(1-4) _ assms(6-8)] by (fastforce simp: compress_body_def bindE_Inr_iff)
next
  case PLAIN_LIST
  then show ?thesis
    using assms(5) list_sim [OF assms(1-4) _ assms(6,7)] by (simp add: compress_body_def)
next
  case SHARED_LIST
  then show ?thesis
    using assms(5) shared_list_sim [OF assms(1-4) _ assms(6-8)] by (simp add: compress_body_def)
next
  case VALUE_SHAPE
  then show ?thesis
    using assms(5) value_sim [OF assms(1-4) _ assms(6,7)] by (fastforce simp: compress_body_def bindE_Inr_iff)
next
  case CONSTRAINT_SHAPE
  then show ?thesis
    using assms(5) struct_sim [OF assms(1-4) _ assms(6,7)] by (fastforce simp: compress_body_def bindE_Inr_iff)
next
  case DATA_TYPE_SHAPE
  then show ?thesis using assms(5,6) by (auto simp: compress_body_def)
next
  case NO_SHAPE
  then show ?thesis using assms(5) by (simp add: compress_body_def)
qed

lemma step_sim:
  assumes "sized L" "0 < out" "call_grows call1" "call_sim K out limit call1 call2"
  shows "call_sim K out limit (compress_step L h 0 limit1 v k call1) (compress_step L h out limit v k call2)"
  unfolding call_sim_def
proof (intro allI impI)
  fix s st1 r st1' st2
  assume run: "compress_step L h 0 limit1 v k call1 s st1 = Inr (r, st1')"
    and sync: "synced K out st1 st2" and bound: "bounded K limit st1'"
  let ?st = "st1\<lparr>out_length := out_length st1 + size_of_SqlStatement L\<rparr>"
  consider "s = 0 \<or> (\<exists>ty d. h s = Some (Statement ty 0 d))" "st1' = st1"
    | ty a d where "s \<noteq> 0" "h s = Some (Statement ty a d)" "a \<noteq> 0"
      "compress_body L h 0 limit1 v k call1 ty a (out_length st1) ?st = Inr st1'"
    using run by (auto simp: compress_step_def Let_def map_sum_Inr split: if_splits option.splits obj.splits)
  then show "\<exists>r' st2'. compress_step L h out limit v k call2 s st2 = Inr (r', st2') \<and> synced K out st1' st2' \<and> keeps st2 st2'"
  proof cases
    case 1
    then show ?thesis using sync by (auto simp: compress_step_def)
  next
    case (2 ty a d)
    have "bounded K limit ?st" using body_grows [OF assms(1,3) 2(4)] bound by (rule bounded_grows)
    then have "out_length st1 + size_of_SqlStatement L \<le> limit" by (simp add: bounded_def)
    then obtain sta where a: "put out limit (Statement ty a d) (size_of_SqlStatement L) st2 = Inr sta" "synced K out ?st sta"
        "keeps st2 sta" "kind_at sta (out + out_length st2) = Some K_Statement"
      using put_sim [OF sync _ size_pos(2) [OF assms(1)] assms(2), of limit "Statement ty a d"] by auto
    obtain stb where b: "set_v L out (out + out_length st2) (out + out_length sta) sta = Inr stb" "synced K out ?st stb"
        "keeps sta stb"
      using set_v_sim [OF a(2,4)] by blast
    from body_sim [OF assms 2(4) b(2) bound keepsD [OF b(3) a(4)]] obtain stc where
      c: "compress_body L h out limit v k call2 ty a (out + out_length st2) stb = Inr stc" "synced K out st1' stc" "keeps stb stc"
      by blast
    show ?thesis
    proof (cases "ty = data_type_struct_STATEMENT")
      case True
      then have "st1' = ?st" using 2(4) by (simp add: compress_body_def)
      then show ?thesis using True 2 a assms(2) by (simp add: compress_step_def Let_def)
    next
      case False
      then show ?thesis
        using 2 a b c assms(2) keeps_trans [OF a(3) keeps_trans [OF b(3) c(3)]] by (simp add: compress_step_def Let_def)
    qed
  qed
qed

lemma helper_sim:
  assumes "sized L" "0 < out"
  shows "call_sim K out limit (compress_statement_helper L h 0 limit1 v k) (compress_statement_helper L h out limit v k)"
proof (induction k)
  case (Suc k)
  then show ?case using step_sim [OF assms helper_grows [OF assms(1)]] by simp
qed (simp add: call_sim_def)

lemma passes_agree:
  assumes "sized L" "0 < block" "\<forall>a. offsets a \<noteq> MAX_BIN_DEFN_OFFSET"
    and "compress_statement_helper L h 0 0 is_view_processing fuel stmt \<lparr>offs = offsets, buf = Map.empty, out_length = 0\<rparr>
           = Inr (r, st1)"
    and "out_length st1 \<noteq> 0"
  shows "\<exists>st2. compress_statement L h is_view_processing fuel block stmt offsets = Inr (Some st2)
    \<and> out_length st2 = out_length st1"
proof -
  let ?init = "\<lparr>offs = offsets, buf = Map.empty, out_length = 0\<rparr>"
  let ?start = "st1\<lparr>buf := Map.empty, out_length := 0\<rparr>"
  have "maxed ?init = {}" "maxed ?start = maxed st1" using assms(3) by (simp_all add: maxed_def)
  then have "synced (maxed st1) block ?init ?start" by (simp add: synced_def kind_at_def)
  moreover have "bounded (maxed st1) (out_length st1) st1" by (simp add: bounded_def)
  ultimately obtain r' st2 where
    "compress_statement_helper L h block (out_length st1) is_view_processing fuel stmt ?start = Inr (r', st2)"
    "synced (maxed st1) block st1 st2"
    using call_simE [OF helper_sim [OF assms(1,2)] assms(4)] by blast
  then show ?thesis using assms(4,5) by (simp add: compress_statement_def synced_def)
qed

text \<open>
  C4: the two passes of \<open>compress_statement\<close> agree. If no structure carries the mark of the first pass beforehand and the
  first pass finds the size \<open>n\<close>, then the second pass writes into the block of \<open>n\<close> bytes without leaving it, never follows a
  \<open>bin_defn_offset\<close> left over from an earlier call, and ends with exactly \<open>n\<close> bytes written; for any graph of statements,
  with shared structures and cycles.
\<close>

theorem compress_passes_agree:
  assumes "sized L" "0 < block" "\<forall>a. offsets a \<noteq> MAX_BIN_DEFN_OFFSET"
    and "compress_statement_helper L h 0 0 is_view_processing fuel stmt \<lparr>offs = offsets, buf = Map.empty, out_length = 0\<rparr>
           = Inr (r, st1)"
    and "out_length st1 \<noteq> 0"
  shows "\<exists>st2. compress_statement L h is_view_processing fuel block stmt offsets = Inr (Some st2)
    \<and> out_length st2 = out_length st1"
  using assms by (rule passes_agree)

end
