(* ===== verification/Compress_Ends.thy ===== *)
theory Compress_Ends
  imports Compress_Laws
begin

text \<open>
  Compression ends. The graph may have cycles, but only through the structures that carry \<open>bin_defn_offset\<close>: every visit
  of such a structure marks it, and between two of them the traversal descends.
\<close>

section \<open>Well-formed graphs\<close>

definition is_statement :: "heap \<Rightarrow> int \<Rightarrow> bool" where
  "is_statement h s \<longleftrightarrow> (case h s of Some (Statement _ _ _) \<Rightarrow> True | _ \<Rightarrow> False)"

definition shared :: "SqlStatementType \<Rightarrow> bool" where
  "shared ty \<longleftrightarrow> shape_of ty = SHARED_STRUCT \<or> shape_of ty = SHARED_LIST"

definition is_list :: "SqlStatementType \<Rightarrow> bool" where
  "is_list ty \<longleftrightarrow> shape_of ty = PLAIN_LIST \<or> shape_of ty = SHARED_LIST"

text \<open>The elements of a circular list, from \<open>start\<close> on.\<close>

fun ring :: "heap \<Rightarrow> int \<Rightarrow> int list \<Rightarrow> bool" where
  "ring h start [] \<longleftrightarrow> False"
| "ring h start (a # as) \<longleftrightarrow>
     (case h a of
        Some (Struct s) \<Rightarrow> (case as of [] \<Rightarrow> obj_next s = start | b # _ \<Rightarrow> obj_next s = b \<and> b \<noteq> start \<and> ring h start as)
      | _ \<Rightarrow> False)"

definition members_of :: "SqlStatementType \<Rightarrow> struct_obj \<Rightarrow> member list" where
  "members_of ty s =
     (case shape_of ty of
        VALUE_SHAPE \<Rightarrow>
          if value_type s = CALCULATED_VALUE then [M_calculated]
          else if value_type s = COERCE_TYPE then [M_coerce_target] else []
      | CONSTRAINT_SHAPE \<Rightarrow> constraint_members (constraint_kind s)
      | _ \<Rightarrow> pointer_members ty)"

text \<open>A value is calculated, a cast or a literal with its text.\<close>

definition value_ok :: "heap \<Rightarrow> struct_obj \<Rightarrow> bool" where
  "value_ok h s \<longleftrightarrow>
     value_type s = CALCULATED_VALUE \<or> value_type s = COERCE_TYPE
     \<or> has_text (value_type s) \<and> (case h (member_of s M_string_literal) of Some (Text _) \<Rightarrow> True | _ \<Rightarrow> False)"

definition wf_element :: "heap \<Rightarrow> (int \<Rightarrow> nat) \<Rightarrow> nat \<Rightarrow> SqlStatementType \<Rightarrow> int \<Rightarrow> bool" where
  "wf_element h depth d ty e \<longleftrightarrow>
     (\<exists>s. h e = Some (Struct s) \<and> (shape_of ty = VALUE_SHAPE \<longrightarrow> value_ok h s)
        \<and> (\<forall>m \<in> set (members_of ty s). member_of s m = 0
             \<or> is_statement h (member_of s m) \<and> (shared ty \<or> depth (member_of s m) < d)))"

definition wf_statement :: "heap \<Rightarrow> int set \<Rightarrow> (int \<Rightarrow> nat) \<Rightarrow> nat \<Rightarrow> int \<Rightarrow> SqlStatementType \<Rightarrow> int \<Rightarrow> bool" where
  "wf_statement h S depth D s ty v \<longleftrightarrow>
     depth s < D
     \<and> (v = 0 \<or> shape_of ty = DATA_TYPE_SHAPE
        \<or> shape_of ty \<noteq> NO_SHAPE
          \<and> (\<exists>es. hd es = v \<and> length es \<le> D \<and> (if is_list ty then ring h v es else es = [v])
               \<and> (shared ty \<longrightarrow> set es \<subseteq> S) \<and> (\<forall>e \<in> set es. wf_element h depth (depth s) ty e)))"

text \<open>
  \<open>S\<close> are the structures with \<open>bin_defn_offset\<close>, \<open>depth\<close> decreases from a statement to the statements below unless it
  belongs to one of them, and \<open>D\<close> bounds the depth and the length of the lists.
\<close>

definition wf_graph :: "heap \<Rightarrow> int set \<Rightarrow> (int \<Rightarrow> nat) \<Rightarrow> nat \<Rightarrow> bool" where
  "wf_graph h S depth D \<longleftrightarrow> finite S \<and> (\<forall>s ty v d. h s = Some (Statement ty v d) \<longrightarrow> wf_statement h S depth D s ty v)"

section \<open>How much fuel is enough\<close>

definition fuel_for :: "int set \<Rightarrow> nat \<Rightarrow> compress_state \<Rightarrow> nat \<Rightarrow> nat" where
  "fuel_for S D st d = card (S - maxed st) * (D + 1) + d + D + 1"

definition call_total :: "heap \<Rightarrow> int set \<Rightarrow> (int \<Rightarrow> nat) \<Rightarrow> nat \<Rightarrow> nat \<Rightarrow> compress_call \<Rightarrow> bool" where
  "call_total h S depth D n call \<longleftrightarrow>
     (\<forall>s st. (s = 0 \<and> 0 < n \<or> is_statement h s \<and> fuel_for S D st (depth s) \<le> n) \<longrightarrow> (\<exists>r st'. call s st = Inr (r, st')))"

lemma fuel_grows:
  assumes "finite S" "grows st st'"
  shows "fuel_for S D st' d \<le> fuel_for S D st d"
proof -
  have "card (S - maxed st') \<le> card (S - maxed st)" using assms by (intro card_mono) (auto simp: grows_def)
  then show ?thesis unfolding fuel_for_def by (intro add_mono mult_le_mono1) simp_all
qed

lemma fuel_marked:
  assumes "finite S" "a \<in> S" "a \<notin> maxed st" "d' < D"
  shows "fuel_for S D (set_offs a MAX_BIN_DEFN_OFFSET st) d' < fuel_for S D st d"
proof -
  have eq: "S - maxed (set_offs a MAX_BIN_DEFN_OFFSET st) = (S - maxed st) - {a}" by (auto simp: maxed_def set_offs_def)
  have "card (S - maxed st) = Suc (card ((S - maxed st) - {a}))"
    using assms by (intro card.remove) auto
  then have "card (S - maxed st) * (D + 1) = card ((S - maxed st) - {a}) * (D + 1) + (D + 1)" by simp
  then show ?thesis using assms(4) unfolding fuel_for_def eq by linarith
qed

lemma call_totalD:
  assumes "call_total h S depth D n call" "s = 0 \<and> 0 < n \<or> is_statement h s \<and> fuel_for S D st (depth s) \<le> n"
  obtains r st' where "call s st = Inr (r, st')"
  using assms unfolding call_total_def by blast

lemma members_total:
  assumes "call_total h S depth D n call" "call_grows call" "finite S"
  shows "\<forall>m \<in> set ms. member_of s m = 0 \<and> 0 < n \<or> is_statement h (member_of s m) \<and> fuel_for S D st (depth (member_of s m)) \<le> n \<Longrightarrow>
    \<exists>st'. compress_members L 0 call ty s new ms st = Inr st'"
proof (induction ms arbitrary: st)
  case (Cons m ms)
  then obtain r st1 where st1: "call (member_of s m) st = Inr (r, st1)"
    using call_totalD [OF assms(1), of "member_of s m" st] by auto
  have "fuel_for S D st1 d \<le> fuel_for S D st d" for d by (rule fuel_grows [OF assms(3) call_growsD [OF assms(2) st1]])
  then have "\<forall>m \<in> set ms. member_of s m = 0 \<and> 0 < n
      \<or> is_statement h (member_of s m) \<and> fuel_for S D st1 (depth (member_of s m)) \<le> n"
    using Cons.prems le_trans by (metis list.set_intros(2))
  then show ?case using Cons.IH st1 by simp
qed simp

lemma fuel_out_length [simp]: "fuel_for S D (st\<lparr>out_length := n\<rparr>) d = fuel_for S D st d"
  by (simp add: fuel_for_def maxed_def)

lemma struct_total:
  assumes "call_total h S depth D n call" "call_grows call" "finite S"
    and "\<forall>m \<in> set ms. member_of s m = 0 \<and> 0 < n \<or> is_statement h (member_of s m) \<and> fuel_for S D st (depth (member_of s m)) \<le> n"
  shows "\<exists>st'. compress_struct L 0 limit call ty s c ms st = Inr st'"
  using members_total [OF assms(1-3), of ms s "st\<lparr>out_length := out_length st + size_of L ty\<rparr>"] assms(4)
  by (simp add: compress_struct_def)

text \<open>What the members of an element need, when the structure is not shared and when it is visited for the first time.\<close>

lemma element_fuel:
  assumes "wf_element h depth d ty e" "h e = Some (Struct s)" "fuel_for S D st d \<le> Suc n" "0 < D"
    and "\<forall>t. is_statement h t \<and> (shared ty \<or> depth t < d) \<longrightarrow> fuel_for S D st' (depth t) < fuel_for S D st d"
  shows "\<forall>m \<in> set (members_of ty s). member_of s m = 0 \<and> 0 < n
    \<or> is_statement h (member_of s m) \<and> fuel_for S D st' (depth (member_of s m)) \<le> n"
proof
  fix m assume "m \<in> set (members_of ty s)"
  then have "member_of s m = 0 \<or> is_statement h (member_of s m) \<and> (shared ty \<or> depth (member_of s m) < d)"
    using assms(1,2) by (auto simp: wf_element_def)
  moreover have "0 < n" using assms(3,4) by (simp add: fuel_for_def)
  ultimately show "member_of s m = 0 \<and> 0 < n
      \<or> is_statement h (member_of s m) \<and> fuel_for S D st' (depth (member_of s m)) \<le> n"
    using assms(3,5) by (metis less_Suc_eq_le order_less_le_trans)
qed

lemma unshared_fuel:
  assumes "\<not> shared ty" "finite S" "grows st st'"
  shows "\<forall>t. is_statement h t \<and> (shared ty \<or> depth t < d) \<longrightarrow> fuel_for S D st' (depth t) < fuel_for S D st d"
proof (intro allI impI)
  fix t assume "is_statement h t \<and> (shared ty \<or> depth t < d)"
  then have "fuel_for S D st (depth t) < fuel_for S D st d" using assms(1) by (simp add: fuel_for_def)
  then show "fuel_for S D st' (depth t) < fuel_for S D st d"
    using fuel_grows [OF assms(2,3)] by (rule le_less_trans [rotated])
qed

lemma depth_bound: "wf_graph h S depth D \<Longrightarrow> is_statement h t \<Longrightarrow> depth t < D"
  by (auto simp: wf_graph_def wf_statement_def is_statement_def split: option.splits obj.splits)

lemma shared_fuel:
  assumes "wf_graph h S depth D" "a \<in> S" "a \<notin> maxed st'" "grows st st'"
  shows "\<forall>t. is_statement h t \<and> (shared ty \<or> depth t < d) \<longrightarrow>
    fuel_for S D (set_offs a MAX_BIN_DEFN_OFFSET st') (depth t) < fuel_for S D st d"
proof (intro allI impI)
  fix t assume "is_statement h t \<and> (shared ty \<or> depth t < d)"
  then have "depth t < D" using depth_bound [OF assms(1)] by blast
  have S: "finite S" using assms(1) by (simp add: wf_graph_def)
  show "fuel_for S D (set_offs a MAX_BIN_DEFN_OFFSET st') (depth t) < fuel_for S D st d"
    using fuel_marked [OF S assms(2,3) \<open>depth t < D\<close>] fuel_grows [OF S assms(4)] by (rule less_le_trans)
qed

lemma list_total:
  assumes "call_total h S depth D n call" "call_grows call" "wf_graph h S depth D" "sized L" "0 < D"
    and "\<not> shared ty" "shape_of ty = PLAIN_LIST" "fuel_for S D st0 d \<le> Suc n"
  shows "ring h start es \<Longrightarrow> \<forall>e \<in> set es. wf_element h depth d ty e \<Longrightarrow> length es \<le> k \<Longrightarrow> grows st0 st \<Longrightarrow>
    \<exists>st'. compress_list L h 0 limit call ty start k (hd es) st = Inr st'"
proof (induction es arbitrary: k st)
  case (Cons e es)
  obtain k' where k: "k = Suc k'" using Cons.prems(3) by (cases k) auto
  obtain s where s: "h e = Some (Struct s)" using Cons.prems(1) by (auto split: option.splits obj.splits)
  have fin: "finite S" using assms(3) by (simp add: wf_graph_def)
  have ms: "members_of ty s = pointer_members ty" using assms(7) by (simp add: members_of_def)
  have "wf_element h depth d ty e" using Cons.prems(2) by simp
  from element_fuel [OF this s assms(8,5) unshared_fuel [OF assms(6) fin Cons.prems(4), of h depth d D]]
  obtain st1 where st1: "compress_struct L 0 limit call ty s (unlinked s) (pointer_members ty) st = Inr st1"
    using struct_total [OF assms(1,2) fin] unfolding ms by blast
  have g: "grows st0 st1" using grows_trans [OF Cons.prems(4) struct_grows [OF assms(4,2) st1]] .
  show ?case
  proof (cases es)
    case Nil
    then show ?thesis using Cons.prems(1) s k st1 by (simp add: get_struct_def)
  next
    case (Cons b es')
    have "ring h start es" "obj_next s = hd es" "hd es \<noteq> start" using Cons.prems(1) s Cons by auto
    then show ?thesis
      using Cons.IH [of k' st1] Cons.prems(2,3) g s k st1 by (simp add: get_struct_def Let_def)
  qed
qed simp

lemma shared_struct_total:
  assumes "call_total h S depth D n call" "call_grows call" "wf_graph h S depth D" "0 < D"
    and "shape_of ty = SHARED_STRUCT \<or> shape_of ty = SHARED_LIST" "fuel_for S D st0 d \<le> Suc n" "wf_element h depth d ty e"
    and "h e = Some (Struct s)" "e \<in> S" "e \<notin> maxed st" "grows st0 st"
  shows "\<exists>st'. compress_struct L 0 limit call ty s c (pointer_members ty) (set_offs e MAX_BIN_DEFN_OFFSET st) = Inr st'"
proof -
  have fin: "finite S" using assms(3) by (simp add: wf_graph_def)
  have ms: "members_of ty s = pointer_members ty" using assms(5) by (auto simp: members_of_def)
  show ?thesis
    using element_fuel [OF assms(7,8,6,4) shared_fuel [OF assms(3,9,10,11), of ty d]] struct_total [OF assms(1,2) fin]
    unfolding ms by blast
qed

lemma shared_list_total:
  assumes "call_total h S depth D n call" "call_grows call" "wf_graph h S depth D" "sized L" "0 < D"
    and "shape_of ty = SHARED_LIST" "fuel_for S D st0 d \<le> Suc n"
  shows "ring h start es \<Longrightarrow> \<forall>e \<in> set es. wf_element h depth d ty e \<Longrightarrow> set es \<subseteq> S \<Longrightarrow> length es \<le> k \<Longrightarrow> grows st0 st \<Longrightarrow>
    \<exists>st'. compress_shared_list L h 0 limit call ty new_stmt start k (hd es) st = Inr st'"
proof (induction es arbitrary: k st)
  case (Cons e es)
  obtain k' where k: "k = Suc k'" using Cons.prems(4) by (cases k) auto
  obtain s where s: "h e = Some (Struct s)" using Cons.prems(1) by (auto split: option.splits obj.splits)
  have e: "wf_element h depth d ty e" "e \<in> S" using Cons.prems(2,3) by simp_all
  obtain new st1 where st1: "compress_element L 0 limit call ty new_stmt start e s st = Inr (new, st1)"
  proof (cases "e \<in> maxed st")
    case True
    then show thesis using that by (simp add: compress_element_def maxed_iff)
  next
    case False
    obtain st1 where "compress_struct L 0 limit call ty s s (pointer_members ty) (set_offs e MAX_BIN_DEFN_OFFSET st) = Inr st1"
      using shared_struct_total [OF assms(1-3,5) _ assms(7) e(1) s e(2) False Cons.prems(5)] assms(6) by blast
    then show thesis using that False by (simp add: compress_element_def maxed_iff)
  qed
  have g: "grows st0 st1" using grows_trans [OF Cons.prems(5) element_grows [OF assms(4,2) st1]] .
  show ?case
  proof (cases es)
    case Nil
    then show ?thesis using Cons.prems(1) s k st1 by (simp add: get_struct_def)
  next
    case (Cons b es')
    have "ring h start es" "obj_next s = hd es" "hd es \<noteq> start" using Cons.prems(1) s Cons by auto
    then show ?thesis
      using Cons.IH [of k' st1] Cons.prems(2-4) g s k st1 by (simp add: get_struct_def Let_def)
  qed
qed simp

lemma value_total:
  assumes "call_total h S depth D n call" "call_grows call" "wf_graph h S depth D" "0 < D"
    and "fuel_for S D st0 d \<le> Suc n" "wf_element h depth d value_STATEMENT e" "h e = Some (Struct s)" "grows st0 st"
  shows "\<exists>st'. compress_value L h 0 limit v call s st = Inr st'"
proof -
  have fin: "finite S" using assms(3) by (simp add: wf_graph_def)
  have "\<not> shared value_STATEMENT" by (simp add: shared_def)
  note f = element_fuel [OF assms(6,7,5,4) unshared_fuel [OF this fin assms(8), of h depth d D]]
  have mem: "value_type s = CALCULATED_VALUE \<Longrightarrow> members_of value_STATEMENT s = [M_calculated]"
    "value_type s = COERCE_TYPE \<Longrightarrow> members_of value_STATEMENT s = [M_coerce_target]"
    by (simp_all add: members_of_def)
  have total: "\<exists>st'. compress_members L 0 call value_STATEMENT s (out_length st) (members_of value_STATEMENT s)
      (st\<lparr>out_length := out_length st + size_of L value_STATEMENT\<rparr>) = Inr st'"
    using members_total [OF assms(1,2) fin, of "members_of value_STATEMENT s" s] f by simp
  have "value_ok h s" using assms(6,7) by (simp add: wf_element_def)
  then consider "value_type s = CALCULATED_VALUE" | "value_type s = COERCE_TYPE"
    | b where "value_type s \<noteq> CALCULATED_VALUE" "value_type s \<noteq> COERCE_TYPE" "has_text (value_type s)"
        "h (member_of s M_string_literal) = Some (Text b)"
    unfolding value_ok_def by (auto split: option.splits obj.splits)
  then show ?thesis
  proof cases
    case 1
    then show ?thesis using total unfolding mem(1) [OF 1] by (simp add: compress_value_def del: compress_members.simps)
  next
    case 2
    then show ?thesis using total unfolding mem(2) [OF 2] by (simp add: compress_value_def Let_def del: compress_members.simps)
  next
    case (3 b)
    then show ?thesis by (simp add: compress_value_def compress_text_def)
  qed
qed

lemma body_total:
  assumes "call_total h S depth D k call" "call_grows call" "wf_graph h S depth D" "sized L"
    and "wf_statement h S depth D s ty a" "a \<noteq> 0" "fuel_for S D st (depth s) \<le> Suc k"
  shows "\<exists>st'. compress_body L h 0 limit v k call ty a new_stmt st = Inr st'"
proof (cases "shape_of ty = DATA_TYPE_SHAPE")
  case True
  then show ?thesis by (simp add: compress_body_def)
next
  case False
  have D: "0 < D" "D \<le> k" using assms(5,7) by (auto simp: wf_statement_def fuel_for_def)
  have fin: "finite S" using assms(3) by (simp add: wf_graph_def)
  obtain es where es: "hd es = a" "length es \<le> D" "if is_list ty then ring h a es else es = [a]"
    "shared ty \<longrightarrow> set es \<subseteq> S" "\<forall>e \<in> set es. wf_element h depth (depth s) ty e" "shape_of ty \<noteq> NO_SHAPE"
    using assms(5,6) False unfolding wf_statement_def by blast
  have len: "length es \<le> k" using es(2) D(2) by (rule le_trans)
  show ?thesis
  proof (cases "is_list ty")
    case True
    then show ?thesis
      using es len list_total [where ty = ty and start = a and es = es, OF assms(1-4) D(1) _ _ assms(7) _ _ _ grows_refl]
        shared_list_total [where ty = ty and start = a and es = es, OF assms(1-4) D(1) _ assms(7) _ _ _ _ grows_refl]
      by (auto simp: is_list_def shared_def compress_body_def)
  next
    case False
    then obtain st_obj where e: "wf_element h depth (depth s) ty a" "h a = Some (Struct st_obj)"
      using es(3,5) by (auto simp: wf_element_def)
    show ?thesis
    proof (cases "shared ty")
      case True
      then have S: "a \<in> S" "shape_of ty = SHARED_STRUCT" using es False by (auto simp: shared_def is_list_def)
      show ?thesis
        using shared_struct_total [where L = L and limit = limit and c = st_obj, OF assms(1-3) D(1) _ assms(7) e S(1) _ grows_refl] S(2) e(2)
        by (cases "a \<in> maxed st") (simp_all add: compress_body_def compress_shared_def get_struct_def maxed_iff)
    next
      case unshared: False
      have st: "\<exists>st'. compress_struct L 0 limit call ty st_obj c (members_of ty st_obj) st = Inr st'" for c
        using struct_total [OF assms(1,2) fin]
          element_fuel [OF e assms(7) D(1) unshared_fuel [OF unshared fin grows_refl, of h depth "depth s" D st]]
        by blast
      have "shape_of ty = VALUE_SHAPE \<Longrightarrow> ty = value_STATEMENT" by (cases ty) simp_all
      then show ?thesis
        using st [of st_obj] e(2) es(6) unshared False \<open>shape_of ty \<noteq> DATA_TYPE_SHAPE\<close>
          value_total [where L = L and limit = limit and v = v, OF assms(1-3) D(1) assms(7) _ e(2) grows_refl] e(1)
        by (cases "shape_of ty") (auto simp: compress_body_def get_struct_def members_of_def is_list_def shared_def)
    qed
  qed
qed

lemma step_total:
  assumes "call_total h S depth D k call" "call_grows call" "wf_graph h S depth D" "sized L"
  shows "call_total h S depth D (Suc k) (compress_step L h 0 limit v k call)"
  unfolding call_total_def
proof (intro allI impI)
  fix s st
  assume "s = 0 \<and> 0 < Suc k \<or> is_statement h s \<and> fuel_for S D st (depth s) \<le> Suc k"
  then consider "s = 0" | ty a d where "s \<noteq> 0" "h s = Some (Statement ty a d)" "fuel_for S D st (depth s) \<le> Suc k"
    by (cases "s = 0") (auto simp: is_statement_def split: option.splits obj.splits)
  then show "\<exists>r st'. compress_step L h 0 limit v k call s st = Inr (r, st')"
  proof cases
    case 1
    then show ?thesis by (simp add: compress_step_def)
  next
    case (2 ty a d)
    then have "wf_statement h S depth D s ty a" using assms(3) by (auto simp: wf_graph_def)
    then show ?thesis
      using body_total [OF assms, of s ty a "st\<lparr>out_length := out_length st + size_of_SqlStatement L\<rparr>" limit v "out_length st"]
        2
      by (cases "a = 0") (auto simp: compress_step_def Let_def)
  qed
qed

lemma helper_total:
  assumes "wf_graph h S depth D" "sized L"
  shows "call_total h S depth D k (compress_statement_helper L h 0 limit v k)"
proof (induction k)
  case 0
  show ?case by (simp add: call_total_def fuel_for_def)
next
  case (Suc k)
  then show ?case using step_total [OF Suc helper_grows [OF assms(2)] assms] by simp
qed

section \<open>Compression returns\<close>

lemma helper_counts:
  assumes "sized L" "compress_statement_helper L h 0 limit v k s st = Inr (r, st')" "h s = Some (Statement ty a d)" "s \<noteq> 0" "a \<noteq> 0"
  shows "out_length st < out_length st'"
proof (cases k)
  case (Suc k')
  let ?st = "st\<lparr>out_length := out_length st + size_of_SqlStatement L\<rparr>"
  have "compress_body L h 0 limit v k' (compress_statement_helper L h 0 limit v k') ty a (out_length st) ?st = Inr st'"
    using assms(2-5) Suc by (auto simp: compress_step_def Let_def map_sum_Inr)
  then have "grows ?st st'" by (rule body_grows [OF assms(1) helper_grows [OF assms(1)]])
  then show ?thesis using size_pos(2) [OF assms(1)] by (simp add: grows_def)
qed (use assms(2) in simp)

text \<open>
  C8: compression ends and succeeds. For a well-formed graph, in which cycles run only through structures that carry
  \<open>bin_defn_offset\<close>, the recursion never goes deeper than the number of such structures times the depth between them, both
  passes return, and the binary definition is not empty.
\<close>

theorem compress_statement_returns:
  assumes "wf_graph h S depth D" "sized L" "0 < block" "\<forall>a. offsets a \<noteq> MAX_BIN_DEFN_OFFSET"
    and "h stmt = Some (Statement ty v d)" "stmt \<noteq> 0" "v \<noteq> 0" "card S * (D + 1) + 2 * D \<le> fuel"
  shows "\<exists>st. compress_statement L h is_view_processing fuel block stmt offsets = Inr (Some st) \<and> 0 < out_length st"
proof -
  let ?init = "\<lparr>offs = offsets, buf = Map.empty, out_length = 0\<rparr> :: compress_state"
  have s: "is_statement h stmt" using assms(5) by (simp add: is_statement_def)
  have "maxed ?init = {}" using assms(4) by (simp add: maxed_def)
  then have "fuel_for S D ?init (depth stmt) \<le> fuel"
    using depth_bound [OF assms(1) s] assms(8) by (simp add: fuel_for_def)
  then obtain r st1 where st1: "compress_statement_helper L h 0 0 is_view_processing fuel stmt ?init = Inr (r, st1)"
    using call_totalD [where s = stmt and st = ?init, OF helper_total [OF assms(1,2)]] s by blast
  have "0 < out_length st1" using helper_counts [OF assms(2) st1 assms(5-7)] by simp
  then show ?thesis using passes_agree [OF assms(2-4) st1] by auto
qed

text \<open>A table with one column that points back to the table.\<close>

definition example_struct :: struct_obj where
  "example_struct = \<lparr>member_of = (\<lambda>_. 0), obj_next = 0, obj_prev = 0, obj_bin_defn_offset = 0, value_type = STRING_LITERAL,
     constraint_kind = PRIMARY_KEY, keyword = NO_KEYWORD, unique_id = 0, max_unique_id = 0, parameter_index = 0, scale_parameter_index = 0, size_or_precision_parameter_index = 0,
     plain = 0\<rparr>"

definition example_table :: heap where
  "example_table = [1 \<mapsto> Statement create_table_STATEMENT 2 0,
     2 \<mapsto> Struct (example_struct\<lparr>member_of := (\<lambda>_. 0)(M_tableName := 3, M_columns := 5)\<rparr>),
     3 \<mapsto> Statement value_STATEMENT 4 0,
     4 \<mapsto> Struct (example_struct\<lparr>member_of := (\<lambda>_. 0)(M_string_literal := 9)\<rparr>),
     5 \<mapsto> Statement column_STATEMENT 6 0,
     6 \<mapsto> Struct (example_struct\<lparr>member_of := (\<lambda>_. 0)(M_table := 1, M_columnName := 7), obj_next := 6, obj_prev := 6\<rparr>),
     7 \<mapsto> Statement value_STATEMENT 8 0,
     8 \<mapsto> Struct (example_struct\<lparr>member_of := (\<lambda>_. 0)(M_string_literal := 10)\<rparr>),
     9 \<mapsto> Text (lit ''T''), 10 \<mapsto> Text (lit ''ID'')]"

definition example_layout :: layout where
  "example_layout = \<lparr>size_of_SqlStatement = 64, size_of = (\<lambda>_. 96), offset_of_v = 16, offset_of = (\<lambda>_ _. 8), offset_of_next = (\<lambda>_. 72)\<rparr>"

lemma example_sized: "sized example_layout"
  by (simp add: sized_def example_layout_def)

lemma example_wf: "wf_graph example_table {2, 6} (\<lambda>_. 0) 1"
proof -
  have t: "example_table s = Some (Statement ty v d) \<Longrightarrow>
      s = 1 \<and> ty = create_table_STATEMENT \<and> v = 2 \<or> s = 3 \<and> ty = value_STATEMENT \<and> v = 4
      \<or> s = 5 \<and> ty = column_STATEMENT \<and> v = 6 \<or> s = 7 \<and> ty = value_STATEMENT \<and> v = 8" for s ty v d
    by (auto simp: example_table_def split: if_splits)
  have e: "wf_element example_table (\<lambda>_. 0) 0 create_table_STATEMENT 2" "wf_element example_table (\<lambda>_. 0) 0 value_STATEMENT 4"
    "wf_element example_table (\<lambda>_. 0) 0 column_STATEMENT 6" "wf_element example_table (\<lambda>_. 0) 0 value_STATEMENT 8"
    by (simp_all add: wf_element_def example_table_def example_struct_def members_of_def is_statement_def shared_def value_ok_def
        has_text_def)
  have r: "ring example_table 6 [6]" by (simp add: example_table_def)
  have "wf_statement example_table {2, 6} (\<lambda>_. 0) 1 s ty v" if "example_table s = Some (Statement ty v d)" for s ty v d
    using t [OF that]
    by (elim disjE conjE; intro wf_statement_def [THEN iffD2] conjI disjI2 exI [of _ "[v]"])
      (simp_all add: is_list_def shared_def e r del: ring.simps)
  then show ?thesis by (simp add: wf_graph_def)
qed

theorem compress_statement_returns_witness:
  "\<exists>st. compress_statement example_layout example_table False 6 1000 1 (\<lambda>_. 0) = Inr (Some st) \<and> 0 < out_length st"
  by (rule compress_statement_returns [OF example_wf example_sized, where ty = create_table_STATEMENT and v = 2 and d = 0])
    (simp_all add: example_table_def)

lemma example_first_pass:
  "map_sum id (out_length \<circ> snd)
     (compress_statement_helper example_layout example_table 0 0 False 6 1 \<lparr>offs = \<lambda>_. 0, buf = Map.empty, out_length = 0\<rparr>) = Inr 709"
  by code_simp

theorem compress_passes_agree_witness:
  "\<exists>st. compress_statement example_layout example_table False 6 1000 1 (\<lambda>_. 0) = Inr (Some st) \<and> out_length st = 709"
proof -
  obtain r st1 where st1: "compress_statement_helper example_layout example_table 0 0 False 6 1
      \<lparr>offs = \<lambda>_. 0, buf = Map.empty, out_length = 0\<rparr> = Inr (r, st1)" "out_length st1 = 709"
    using example_first_pass by (auto simp: map_sum_Inr)
  have "\<exists>st. compress_statement example_layout example_table False 6 1000 1 (\<lambda>_. 0) = Inr (Some st)
      \<and> out_length st = out_length st1"
    by (rule compress_passes_agree [OF example_sized _ _ st1(1)]) (simp_all add: st1(2))
  then show ?thesis by (simp add: st1(2))
qed

end
