(* ===== verification/Compress_Image.thy ===== *)
theory Compress_Image
  imports Compress_Ends
begin

text \<open>
  What compression writes. An image says for every address of the block of which object of the source it holds a copy.
  The copy of an object has the data of the object, and each of its pointers, read relative to its own location,
  leads to the copy of what the source points to. Structures that carry \<open>bin_defn_offset\<close> have a single copy; every
  other object has exactly one reference to it in the block, which is what allows \<open>decompress_statement\<close> to relocate in place.
\<close>

section \<open>Images\<close>

datatype tag = T_Statement | T_Struct SqlStatementType | T_Text

type_synonym image = "int \<Rightarrow> (tag \<times> int) option"

fun extent :: "layout \<Rightarrow> tag \<Rightarrow> int" where
  "extent L T_Statement = size_of_SqlStatement L"
| "extent L (T_Struct ty) = size_of L ty"
| "extent L T_Text = 1"

text \<open>Every pointer lies inside of its structure.\<close>

definition laid_out :: "layout \<Rightarrow> bool" where
  "laid_out L \<longleftrightarrow> sized L \<and> 0 \<le> offset_of_v L \<and> offset_of_v L < size_of_SqlStatement L
     \<and> (\<forall>t m. 0 \<le> offset_of L t m \<and> offset_of L t m < size_of L t)
     \<and> (\<forall>t. 0 \<le> offset_of_next L t \<and> offset_of_next L t < size_of L t)"

text \<open>A statement that is copied; the others become NULL.\<close>

definition live :: "heap \<Rightarrow> int \<Rightarrow> bool" where
  "live h a \<longleftrightarrow> a \<noteq> 0 \<and> (\<exists>t v d. h a = Some (Statement t v d) \<and> v \<noteq> 0)"

text \<open>A structure that carries \<open>bin_defn_offset\<close> is used as one type only.\<close>

definition typed :: "heap \<Rightarrow> (int \<Rightarrow> SqlStatementType) \<Rightarrow> bool" where
  "typed h T \<longleftrightarrow>
     (\<forall>s ty v d. h s = Some (Statement ty v d) \<longrightarrow> v \<noteq> 0 \<longrightarrow> shared ty \<longrightarrow> T v = ty)
     \<and> (\<forall>a s. h a = Some (Struct s) \<longrightarrow> shape_of (T a) = SHARED_LIST \<longrightarrow> T (obj_next s) = T a)"

definition points_to :: "image \<Rightarrow> int \<Rightarrow> int \<Rightarrow> tag \<Rightarrow> int \<Rightarrow> bool" where
  "points_to \<phi> at rel t a \<longleftrightarrow> rel \<noteq> 0 \<and> \<phi> (at + rel) = Some (t, a)"

text \<open>The data of a structure apart from its pointers; a view forgets the parameter numbers of its query.\<close>

definition copy_of :: "bool \<Rightarrow> SqlStatementType \<Rightarrow> struct_obj \<Rightarrow> struct_obj \<Rightarrow> bool" where
  "copy_of vp ty s c \<longleftrightarrow>
     value_type c = value_type s \<and> constraint_kind c = constraint_kind s \<and> keyword c = keyword s \<and> plain c = plain s
     \<and> parameter_index c = (if vp \<and> ty = value_STATEMENT \<and> has_text (value_type s) then 0 else parameter_index s)
     \<and> scale_parameter_index c = (if vp \<and> ty = value_STATEMENT \<and> value_type s = COERCE_TYPE then 0 else scale_parameter_index s)
     \<and> size_or_precision_parameter_index c =
         (if vp \<and> ty = value_STATEMENT \<and> value_type s = COERCE_TYPE then 0 else size_or_precision_parameter_index s)"

definition good_member :: "layout \<Rightarrow> heap \<Rightarrow> image \<Rightarrow> SqlStatementType \<Rightarrow> int \<Rightarrow> struct_obj \<Rightarrow> struct_obj \<Rightarrow> member \<Rightarrow> bool" where
  "good_member L h \<phi> ty b s c m \<longleftrightarrow>
     (if live h (member_of s m) then points_to \<phi> (b + offset_of L ty m) (member_of c m) T_Statement (member_of s m)
      else member_of c m = 0)"

definition good_next :: "layout \<Rightarrow> image \<Rightarrow> SqlStatementType \<Rightarrow> int \<Rightarrow> struct_obj \<Rightarrow> struct_obj \<Rightarrow> bool" where
  "good_next L \<phi> ty b s c \<longleftrightarrow>
     obj_next c = 0 \<or> points_to \<phi> (b + offset_of_next L ty) (obj_next c) (T_Struct ty) (obj_next s)"

definition good_text :: "layout \<Rightarrow> image \<Rightarrow> SqlStatementType \<Rightarrow> int \<Rightarrow> struct_obj \<Rightarrow> struct_obj \<Rightarrow> bool" where
  "good_text L \<phi> ty b s c \<longleftrightarrow>
     (ty = value_STATEMENT \<longrightarrow> has_text (value_type s) \<longrightarrow>
        points_to \<phi> (b + offset_of L ty M_string_literal) (member_of c M_string_literal) T_Text (member_of s M_string_literal))"

definition good_struct :: "layout \<Rightarrow> heap \<Rightarrow> bool \<Rightarrow> image \<Rightarrow> SqlStatementType \<Rightarrow> int \<Rightarrow> struct_obj \<Rightarrow> struct_obj \<Rightarrow> bool" where
  "good_struct L h vp \<phi> ty b s c \<longleftrightarrow>
     copy_of vp ty s c \<and> (\<forall>m\<in>set (members_of ty s). good_member L h \<phi> ty b s c m)
     \<and> (is_list ty \<longrightarrow> good_next L \<phi> ty b s c) \<and> good_text L \<phi> ty b s c \<and> (shared ty \<longrightarrow> obj_bin_defn_offset c \<noteq> 0)"

fun good_object :: "layout \<Rightarrow> heap \<Rightarrow> bool \<Rightarrow> image \<Rightarrow> heap \<Rightarrow> int \<Rightarrow> tag \<Rightarrow> int \<Rightarrow> bool" where
  "good_object L h vp \<phi> B b T_Statement a \<longleftrightarrow>
     (\<exists>t v d r. h a = Some (Statement t v d) \<and> v \<noteq> 0 \<and> B b = Some (Statement t r d)
        \<and> (if t = data_type_struct_STATEMENT then r = v else points_to \<phi> (b + offset_of_v L) r (T_Struct t) v))"
| "good_object L h vp \<phi> B b (T_Struct ty) a \<longleftrightarrow>
     (\<exists>s c. h a = Some (Struct s) \<and> B b = Some (Struct c) \<and> good_struct L h vp \<phi> ty b s c)"
| "good_object L h vp \<phi> B b T_Text a \<longleftrightarrow> (\<exists>x. h a = Some (Text x) \<and> B b = Some (Text x))"

section \<open>References\<close>

datatype slot = Slot_V | Slot_Member member | Slot_Next

fun slot_target :: "layout \<Rightarrow> tag \<Rightarrow> int \<Rightarrow> obj \<Rightarrow> slot \<Rightarrow> int option" where
  "slot_target L T_Statement b (Statement t r d) Slot_V =
     (if t = data_type_struct_STATEMENT then None else Some (b + offset_of_v L + r))"
| "slot_target L (T_Struct ty) b (Struct c) (Slot_Member m) =
     (if m \<in> set (members_of ty c) \<and> member_of c m \<noteq> 0 then Some (b + offset_of L ty m + member_of c m) else None)"
| "slot_target L (T_Struct ty) b (Struct c) Slot_Next =
     (if is_list ty \<and> obj_next c \<noteq> 0 then Some (b + offset_of_next L ty + obj_next c) else None)"
| "slot_target L _ b _ _ = None"

definition target :: "layout \<Rightarrow> image \<Rightarrow> heap \<Rightarrow> int \<Rightarrow> slot \<Rightarrow> int option" where
  "target L \<phi> B b sl =
     (case \<phi> b of None \<Rightarrow> None | Some (t, _) \<Rightarrow> (case B b of None \<Rightarrow> None | Some x \<Rightarrow> slot_target L t b x sl))"

definition unshared :: "image \<Rightarrow> int \<Rightarrow> bool" where
  "unshared \<phi> y \<longleftrightarrow> (case \<phi> y of Some (T_Statement, _) \<Rightarrow> True | Some (T_Struct ty, _) \<Rightarrow> \<not> shared ty | _ \<Rightarrow> False)"

text \<open>Each unshared object among \<open>N\<close> has at most one reference from \<open>N\<close>, those in \<open>R\<close> have none.\<close>

definition forest :: "layout \<Rightarrow> image \<Rightarrow> heap \<Rightarrow> int set \<Rightarrow> int set \<Rightarrow> bool" where
  "forest L \<phi> B N R \<longleftrightarrow>
     (\<forall>b\<in>N. \<forall>sl y. target L \<phi> B b sl = Some y \<longrightarrow> unshared \<phi> y \<longrightarrow> y \<in> N \<and> y \<notin> R)
     \<and> (\<forall>b\<in>N. \<forall>b'\<in>N. \<forall>sl sl' y. target L \<phi> B b sl = Some y \<longrightarrow> target L \<phi> B b' sl' = Some y \<longrightarrow> unshared \<phi> y \<longrightarrow> b = b' \<and> sl = sl')"

text \<open>The copies of the elements of a list, linked one to the next.\<close>

fun chain :: "layout \<Rightarrow> heap \<Rightarrow> image \<Rightarrow> heap \<Rightarrow> SqlStatementType \<Rightarrow> int list \<Rightarrow> int list \<Rightarrow> bool" where
  "chain L h \<phi> B ty [b] [x] \<longleftrightarrow> \<phi> b = Some (T_Struct ty, x)"
| "chain L h \<phi> B ty (b # b' # bs) (x # x' # xs) \<longleftrightarrow>
     \<phi> b = Some (T_Struct ty, x) \<and> (\<exists>s. h x = Some (Struct s) \<and> obj_next s = x')
     \<and> target L \<phi> B b Slot_Next = Some b' \<and> chain L h \<phi> B ty (b' # bs) (x' # xs)"
| "chain L h \<phi> B ty _ _ \<longleftrightarrow> False"

definition chained :: "layout \<Rightarrow> heap \<Rightarrow> image \<Rightarrow> heap \<Rightarrow> int set \<Rightarrow> int \<Rightarrow> bool" where
  "chained L h \<phi> B N b \<longleftrightarrow>
     (\<forall>a t v d e xs. \<phi> b = Some (T_Statement, a) \<longrightarrow> h a = Some (Statement t v d) \<longrightarrow> is_list t \<longrightarrow> hd xs = v \<longrightarrow> ring h v xs \<longrightarrow>
        target L \<phi> B b Slot_V = Some e \<longrightarrow>
        (\<exists>bs. hd bs = e \<and> chain L h \<phi> B t bs xs
           \<and> (\<not> shared t \<longrightarrow> set bs \<subseteq> N \<and> target L \<phi> B (last bs) Slot_Next = None)))"

definition placed :: "layout \<Rightarrow> heap \<Rightarrow> bool \<Rightarrow> image \<Rightarrow> heap \<Rightarrow> int set \<Rightarrow> int set \<Rightarrow> bool" where
  "placed L h vp \<phi> B N R \<longleftrightarrow>
     N \<subseteq> dom \<phi> \<and> R \<subseteq> N \<and> (\<forall>b\<in>N. good_object L h vp \<phi> B b (fst (the (\<phi> b))) (snd (the (\<phi> b))) \<and> chained L h \<phi> B N b)
     \<and> forest L \<phi> B N R"

section \<open>What later writes keep\<close>

text \<open>An element of a shared list may get its link while another list that runs through it is written.\<close>

definition relinked :: "layout \<Rightarrow> heap \<Rightarrow> image \<Rightarrow> int \<Rightarrow> obj option \<Rightarrow> obj option \<Rightarrow> bool" where
  "relinked L h \<phi> b x y \<longleftrightarrow>
     y = x \<or> (\<exists>ty a s c n. \<phi> b = Some (T_Struct ty, a) \<and> shape_of ty = SHARED_LIST \<and> h a = Some (Struct s)
       \<and> x = Some (Struct c) \<and> y = Some (Struct (c\<lparr>obj_next := n\<rparr>))
       \<and> points_to \<phi> (b + offset_of_next L ty) n (T_Struct ty) (obj_next s))"

text \<open>Objects in \<open>X\<close> are being written; of them only the links are kept, which a list that was written runs through.\<close>

definition loose :: "layout \<Rightarrow> heap \<Rightarrow> image \<Rightarrow> image \<Rightarrow> int \<Rightarrow> obj option \<Rightarrow> obj option \<Rightarrow> bool" where
  "loose L h \<phi> \<phi>' b x y \<longleftrightarrow>
     y \<noteq> None
     \<and> (\<forall>ty a s c. \<phi> b = Some (T_Struct ty, a) \<longrightarrow> shape_of ty = SHARED_LIST \<longrightarrow> h a = Some (Struct s) \<longrightarrow> x = Some (Struct c) \<longrightarrow>
          (\<exists>c'. y = Some (Struct c')
             \<and> (obj_next c' = obj_next c \<or> points_to \<phi>' (b + offset_of_next L ty) (obj_next c') (T_Struct ty) (obj_next s)
                \<or> (\<forall>z. \<phi> z \<noteq> Some (T_Struct ty, obj_next s)))))"

definition framed :: "layout \<Rightarrow> heap \<Rightarrow> int set \<Rightarrow> image \<Rightarrow> image \<Rightarrow> heap \<Rightarrow> heap \<Rightarrow> bool" where
  "framed L h X \<phi> \<phi>' B B' \<longleftrightarrow>
     (\<forall>b. B b \<noteq> None \<longrightarrow> (if b \<in> X then loose L h \<phi> \<phi>' b (B b) (B' b) else relinked L h \<phi>' b (B b) (B' b)))"

definition single :: "image \<Rightarrow> bool" where
  "single \<phi> \<longleftrightarrow> (\<forall>x y ty a. \<phi> x = Some (T_Struct ty, a) \<longrightarrow> \<phi> y = Some (T_Struct ty, a) \<longrightarrow> shared ty \<longrightarrow> x = y)"

lemma singleD: "single \<phi> \<Longrightarrow> \<phi> x = Some (T_Struct ty, a) \<Longrightarrow> \<phi> y = Some (T_Struct ty, a) \<Longrightarrow> shared ty \<Longrightarrow> x = y"
  unfolding single_def by blast

lemma members_of_cong:
  "value_type c = value_type s \<Longrightarrow> constraint_kind c = constraint_kind s \<Longrightarrow> members_of ty c = members_of ty s"
  unfolding members_of_def by (simp only:)

lemma members_of_next [simp]: "members_of ty (c\<lparr>obj_next := n\<rparr>) = members_of ty c"
  by (rule members_of_cong) simp_all

lemma relinkedE:
  assumes "relinked L h \<phi> b x y"
  obtains "y = x"
  | ty a s c n where "\<phi> b = Some (T_Struct ty, a)" "shape_of ty = SHARED_LIST" "h a = Some (Struct s)" "x = Some (Struct c)"
    "y = Some (Struct (c\<lparr>obj_next := n\<rparr>))" "points_to \<phi> (b + offset_of_next L ty) n (T_Struct ty) (obj_next s)"
  using assms unfolding relinked_def by blast

lemma points_to_mono: "points_to \<phi> at r t a \<Longrightarrow> \<phi> \<subseteq>\<^sub>m \<phi>' \<Longrightarrow> points_to \<phi>' at r t a"
  by (auto simp: points_to_def map_le_def dom_def)

lemma map_leD: "\<phi> \<subseteq>\<^sub>m \<phi>' \<Longrightarrow> \<phi> b = Some x \<Longrightarrow> \<phi>' b = Some x"
  by (auto simp: map_le_def dom_def)

lemma map_le_dom: "\<phi> \<subseteq>\<^sub>m \<phi>' \<Longrightarrow> b \<in> dom \<phi> \<Longrightarrow> \<phi>' b = \<phi> b"
  by (simp add: map_le_def)

lemma relinked_mono: "relinked L h \<phi> b x y \<Longrightarrow> \<phi> \<subseteq>\<^sub>m \<phi>' \<Longrightarrow> relinked L h \<phi>' b x y"
  unfolding relinked_def by (elim disjE exE conjE) (blast intro: map_leD points_to_mono)+

lemma relinked_trans: "relinked L h \<phi> b x y \<Longrightarrow> relinked L h \<phi> b y z \<Longrightarrow> relinked L h \<phi> b x z"
  unfolding relinked_def by (elim disjE exE conjE) auto

lemma relinked_Some: "relinked L h \<phi> b (Some x) y \<Longrightarrow> \<exists>y'. y = Some y'"
  by (auto simp: relinked_def)

lemma relinked_loose:
  assumes "relinked L h \<phi>' b x y" "x \<noteq> None" "\<phi> \<subseteq>\<^sub>m \<phi>'"
  shows "loose L h \<phi> \<phi>' b x y"
  using assms(1)
proof (cases rule: relinkedE)
  case 1
  then show ?thesis using assms(2) by (auto simp: loose_def)
next
  case (2 ty a s c n)
  then show ?thesis using map_leD [OF assms(3)] by (fastforce simp: loose_def)
qed

lemma loose_trans:
  assumes "loose L h \<phi> \<phi>1 b x y" "loose L h \<phi>1 \<phi>2 b y z" "\<phi> \<subseteq>\<^sub>m \<phi>1" "\<phi>1 \<subseteq>\<^sub>m \<phi>2"
  shows "loose L h \<phi> \<phi>2 b x z"
  unfolding loose_def
proof (intro conjI allI impI)
  show "z \<noteq> None" using assms(2) by (simp add: loose_def)
  fix ty a s c
  assume a: "\<phi> b = Some (T_Struct ty, a)" "shape_of ty = SHARED_LIST" "h a = Some (Struct s)" "x = Some (Struct c)"
  let ?right = "\<lambda>\<phi> n. points_to \<phi> (b + offset_of_next L ty) n (T_Struct ty) (obj_next s)"
  obtain c1 where c1: "y = Some (Struct c1)"
      "obj_next c1 = obj_next c \<or> ?right \<phi>1 (obj_next c1) \<or> (\<forall>z. \<phi> z \<noteq> Some (T_Struct ty, obj_next s))"
    using assms(1) a unfolding loose_def by blast
  obtain c2 where c2: "z = Some (Struct c2)"
      "obj_next c2 = obj_next c1 \<or> ?right \<phi>2 (obj_next c2) \<or> (\<forall>z. \<phi>1 z \<noteq> Some (T_Struct ty, obj_next s))"
    using assms(2) map_leD [OF assms(3) a(1)] a(2,3) c1(1) unfolding loose_def by blast
  have "\<forall>z. \<phi>1 z \<noteq> Some (T_Struct ty, obj_next s) \<Longrightarrow> \<forall>z. \<phi> z \<noteq> Some (T_Struct ty, obj_next s)"
    using map_leD [OF assms(3)] by blast
  moreover have "?right \<phi>1 n \<Longrightarrow> ?right \<phi>2 n" for n using assms(4) points_to_mono by blast
  ultimately show "\<exists>c'. z = Some (Struct c')
      \<and> (obj_next c' = obj_next c \<or> ?right \<phi>2 (obj_next c') \<or> (\<forall>z. \<phi> z \<noteq> Some (T_Struct ty, obj_next s)))"
    using c1(2) c2 by metis
qed

lemma framedD:
  assumes "framed L h X \<phi> \<phi>' B B'" "B b \<noteq> None"
  shows "b \<notin> X \<Longrightarrow> relinked L h \<phi>' b (B b) (B' b)" "b \<in> X \<Longrightarrow> loose L h \<phi> \<phi>' b (B b) (B' b)" "B' b \<noteq> None"
proof -
  show r: "b \<notin> X \<Longrightarrow> relinked L h \<phi>' b (B b) (B' b)" and l: "b \<in> X \<Longrightarrow> loose L h \<phi> \<phi>' b (B b) (B' b)"
    using assms by (auto simp: framed_def)
  show "B' b \<noteq> None"
    using r l assms(2) by (cases "b \<in> X") (auto simp: loose_def dest: relinked_Some)
qed

lemma framed_loose: "framed L h X \<phi> \<phi>' B B' \<Longrightarrow> B b \<noteq> None \<Longrightarrow> \<phi> \<subseteq>\<^sub>m \<phi>' \<Longrightarrow> loose L h \<phi> \<phi>' b (B b) (B' b)"
  by (cases "b \<in> X") (auto dest: framedD intro: relinked_loose)

lemma framed_trans:
  assumes "framed L h X \<phi> \<phi>1 B B'" "framed L h X \<phi>1 \<phi>2 B' B''" "\<phi> \<subseteq>\<^sub>m \<phi>1" "\<phi>1 \<subseteq>\<^sub>m \<phi>2"
  shows "framed L h X \<phi> \<phi>2 B B''"
  unfolding framed_def
proof (intro allI impI)
  fix b assume b: "B b \<noteq> None"
  note d = framedD [OF assms(1) b]
  note d' = framedD [OF assms(2) d(3)]
  show "if b \<in> X then loose L h \<phi> \<phi>2 b (B b) (B'' b) else relinked L h \<phi>2 b (B b) (B'' b)"
    using d d' assms(3,4) by (auto intro: loose_trans relinked_trans relinked_mono)
qed

lemma framed_weaken:
  assumes "framed L h X \<phi> \<phi>' B B'" "X \<subseteq> Y" "\<phi> \<subseteq>\<^sub>m \<phi>'"
  shows "framed L h Y \<phi> \<phi>' B B'"
  unfolding framed_def using framed_loose [OF assms(1) _ assms(3)] framedD(1) [OF assms(1)] assms(2) by auto

lemma framed_refl [simp]: "\<phi> \<subseteq>\<^sub>m \<phi>' \<Longrightarrow> framed L h X \<phi> \<phi>' B B"
  by (auto simp: framed_def relinked_def loose_def)

text \<open>The objects of a framed block keep their references to unshared objects and their chains.\<close>

lemma good_member_mono: "good_member L h \<phi> ty b s c m \<Longrightarrow> \<phi> \<subseteq>\<^sub>m \<phi>' \<Longrightarrow> good_member L h \<phi>' ty b s c m"
  by (auto simp: good_member_def intro: points_to_mono)

lemma good_struct_mono: "good_struct L h vp \<phi> ty b s c \<Longrightarrow> \<phi> \<subseteq>\<^sub>m \<phi>' \<Longrightarrow> good_struct L h vp \<phi>' ty b s c"
  by (auto simp: good_struct_def good_next_def good_text_def intro: good_member_mono points_to_mono)

lemma good_struct_relink:
  assumes "good_struct L h vp \<phi> ty b s c" "points_to \<phi> (b + offset_of_next L ty) n (T_Struct ty) (obj_next s)"
  shows "good_struct L h vp \<phi> ty b s (c\<lparr>obj_next := n\<rparr>)"
  using assms by (simp add: good_struct_def good_next_def good_text_def copy_of_def good_member_def)

lemma good_object_frame:
  assumes "good_object L h vp \<phi> B b t a" "\<phi> b = Some (t, a)" "\<phi> \<subseteq>\<^sub>m \<phi>'" "relinked L h \<phi>' b (B b) (B' b)"
  shows "good_object L h vp \<phi>' B' b t a"
proof (cases t)
  case T_Statement
  with assms have "B' b = B b" by (auto simp: relinked_def)
  with T_Statement assms(1,3) show ?thesis by (fastforce intro: points_to_mono split: if_splits)
next
  case (T_Struct ty)
  then obtain s c where s: "h a = Some (Struct s)" "B b = Some (Struct c)" "good_struct L h vp \<phi>' ty b s c"
    using assms(1,3) by (auto intro: good_struct_mono)
  have "\<phi>' b = Some (T_Struct ty, a)" using map_leD [OF assms(3,2)] T_Struct by simp
  with assms(4) s show ?thesis
    by (auto simp: T_Struct relinked_def intro: good_struct_relink)
next
  case T_Text
  with assms have "B' b = B b" by (auto simp: relinked_def)
  with T_Text assms(1) show ?thesis by auto
qed

lemma shared_list [simp]: "shape_of ty = SHARED_LIST \<Longrightarrow> shared ty" "shape_of ty = SHARED_LIST \<Longrightarrow> is_list ty"
  by (simp_all add: shared_def is_list_def)

text \<open>References to unshared objects stay; a link may appear or stay.\<close>

lemma target_frame:
  assumes "\<phi> b = Some (t, a)" "\<phi> \<subseteq>\<^sub>m \<phi>'" "relinked L h \<phi>' b (B b) (B' b)" "target L \<phi>' B' b sl = Some y" "unshared \<phi>' y"
  shows "target L \<phi> B b sl = Some y"
proof (cases "B' b = B b")
  case True
  then show ?thesis using assms(1,4) map_leD [OF assms(2,1)] by (simp add: target_def)
next
  case False
  have f: "\<phi>' b = Some (t, a)" by (rule map_leD [OF assms(2,1)])
  from assms(3) have "\<exists>ty (s :: struct_obj) c n. t = T_Struct ty \<and> shape_of ty = SHARED_LIST \<and> B b = Some (Struct c)
    \<and> B' b = Some (Struct (c\<lparr>obj_next := n\<rparr>)) \<and> points_to \<phi>' (b + offset_of_next L ty) n (T_Struct ty) (obj_next s)"
  proof (cases rule: relinkedE)
    case (2 ty a' s c n)
    then have "t = T_Struct ty" using f by simp
    with 2 show ?thesis by blast
  qed (use False in simp)
  then obtain ty c n and s :: struct_obj where r: "t = T_Struct ty" "shape_of ty = SHARED_LIST" "B b = Some (Struct c)"
    "B' b = Some (Struct (c\<lparr>obj_next := n\<rparr>))" "points_to \<phi>' (b + offset_of_next L ty) n (T_Struct ty) (obj_next s)"
    by blast
  show ?thesis
  proof (cases sl)
    case Slot_Next
    then have "\<phi>' y = Some (T_Struct ty, obj_next s)"
      using r f assms(4) by (auto simp: target_def points_to_def split: if_splits)
    then show ?thesis using r(2) assms(5) by (simp add: unshared_def)
  next
    case Slot_V
    then show ?thesis using r f assms(4) by (simp add: target_def)
  next
    case (Slot_Member m)
    then show ?thesis using r f assms(1,4) by (auto simp: target_def split: if_splits)
  qed
qed

lemma members_of_copy: "copy_of vp ty s c \<Longrightarrow> members_of ty c = members_of ty s"
  by (rule members_of_cong) (simp_all add: copy_of_def)

text \<open>A reference of a good object leads to an object of the image.\<close>

lemma good_target:
  assumes "good_object L h vp \<phi> B b t a" "\<phi> b = Some (t, a)" "target L \<phi> B b sl = Some y"
  shows "y \<in> dom \<phi>"
proof (cases t)
  case T_Statement
  then show ?thesis
    using assms by (cases sl) (auto simp: target_def points_to_def add.assoc split: if_splits)
next
  case (T_Struct ty)
  then obtain s c where s: "h a = Some (Struct s)" "B b = Some (Struct c)" "good_struct L h vp \<phi> ty b s c"
    using assms(1) by auto
  have m: "members_of ty c = members_of ty s" using s(3) by (auto simp: good_struct_def intro: members_of_copy)
  show ?thesis
    using T_Struct assms(2,3) s m
    by (cases sl) (auto simp: target_def good_struct_def good_next_def good_member_def points_to_def add.assoc split: if_splits)
next
  case T_Text
  then show ?thesis using assms by (cases sl) (auto simp: target_def)
qed

lemma unshared_mono: "\<phi> \<subseteq>\<^sub>m \<phi>' \<Longrightarrow> y \<in> dom \<phi> \<Longrightarrow> unshared \<phi>' y = unshared \<phi> y"
  by (auto simp: unshared_def dest: map_leD)

lemma next_target:
  assumes "\<phi> b = Some (T_Struct ty, a)"
  shows "target L \<phi> B b Slot_Next = Some y \<longleftrightarrow>
    (\<exists>c. B b = Some (Struct c) \<and> is_list ty \<and> obj_next c \<noteq> 0 \<and> y = b + offset_of_next L ty + obj_next c)"
proof (cases "B b")
  case (Some x)
  then show ?thesis using assms by (cases x) (auto simp: target_def)
qed (use assms in \<open>simp add: target_def\<close>)

lemma target_next_frame:
  assumes "\<phi> b = Some (T_Struct ty, a)" "\<phi> \<subseteq>\<^sub>m \<phi>'" "single \<phi>'" "B' b = B b \<or> shape_of ty = SHARED_LIST \<and> loose L h \<phi> \<phi>' b (B b) (B' b)"
    and "target L \<phi> B b Slot_Next = Some y" "\<phi> y = Some (T_Struct ty, x)" "h a = Some (Struct s)" "obj_next s = x"
  shows "target L \<phi>' B' b Slot_Next = Some y"
proof (cases "B' b = B b")
  case True
  then show ?thesis using assms(1,5) map_leD [OF assms(2,1)] by (simp add: target_def)
next
  case False
  have f: "\<phi>' b = Some (T_Struct ty, a)" by (rule map_leD [OF assms(2,1)])
  obtain c where c: "B b = Some (Struct c)" "y = b + offset_of_next L ty + obj_next c"
    using assms(5) next_target [of \<phi> b ty a L B y, OF assms(1)] by blast
  with assms(1,4,6-8) False obtain c' where r: "shape_of ty = SHARED_LIST" "B' b = Some (Struct c')"
    "obj_next c' = obj_next c \<or> points_to \<phi>' (b + offset_of_next L ty) (obj_next c') (T_Struct ty) x"
    unfolding loose_def by blast
  have "b + offset_of_next L ty + obj_next c' = y"
    using r(3)
  proof
    assume "points_to \<phi>' (b + offset_of_next L ty) (obj_next c') (T_Struct ty) x"
    then show ?thesis using singleD [OF assms(3) _ map_leD [OF assms(2,6)]] r(1) by (simp add: points_to_def)
  qed (use c(2) in simp)
  moreover have "obj_next c' \<noteq> 0"
    using r(3) assms(5) c(1) next_target [of \<phi> b ty a L B y, OF assms(1)] by (auto simp: points_to_def)
  ultimately show ?thesis using r f by (simp add: target_def)
qed

lemma chain_head: "chain L h \<phi> B ty bs xs \<Longrightarrow> bs \<noteq> [] \<and> xs \<noteq> [] \<and> \<phi> (hd bs) = Some (T_Struct ty, hd xs)"
  by (induction L h \<phi> B ty bs xs rule: chain.induct) auto

lemma chain_elements: "chain L h \<phi> B ty bs xs \<Longrightarrow> b \<in> set bs \<Longrightarrow> \<exists>x. \<phi> b = Some (T_Struct ty, x)"
  by (induction L h \<phi> B ty bs xs rule: chain.induct) auto

lemma chain_is_list: "chain L h \<phi> B ty bs xs \<Longrightarrow> length bs = 1 \<or> is_list ty"
  by (induction L h \<phi> B ty bs xs rule: chain.induct) (auto simp: next_target)

lemma chain_one: "chain L h \<phi> B ty bs xs \<Longrightarrow> length bs = 1 \<Longrightarrow> \<exists>b x. bs = [b] \<and> xs = [x] \<and> \<phi> b = Some (T_Struct ty, x)"
  by (induction L h \<phi> B ty bs xs rule: chain.induct) auto

lemma chain_frame:
  assumes "chain L h \<phi> B ty bs xs" "\<phi> \<subseteq>\<^sub>m \<phi>'" "single \<phi>'"
    and "\<forall>b\<in>set bs. B' b = B b \<or> shape_of ty = SHARED_LIST \<and> loose L h \<phi> \<phi>' b (B b) (B' b)"
  shows "chain L h \<phi>' B' ty bs xs"
  using assms
proof (induction L h \<phi> B ty bs xs rule: chain.induct)
  case (1 L h \<phi> B ty b x)
  then show ?case by (simp add: map_leD)
next
  case (2 L h \<phi> B ty b b' bs x x' xs)
  from 2(2) obtain s where c: "\<phi> b = Some (T_Struct ty, x)" "target L \<phi> B b Slot_Next = Some b'"
      "chain L h \<phi> B ty (b' # bs) (x' # xs)"
    and s: "h x = Some (Struct s)" "obj_next s = x'"
    unfolding chain.simps by blast
  have b': "\<phi> b' = Some (T_Struct ty, x')" using chain_head [OF c(3)] by simp
  have r: "B' b = B b \<or> shape_of ty = SHARED_LIST \<and> loose L h \<phi> \<phi>' b (B b) (B' b)" using 2(5) by simp
  have t: "target L \<phi>' B' b Slot_Next = Some b'"
    by (rule target_next_frame [where B = B and B' = B' and \<phi> = \<phi> and \<phi>' = \<phi>' and b = b, OF c(1) 2(3,4) r c(2) b' s])
  have "chain L h \<phi>' B' ty (b' # bs) (x' # xs)" using 2(1) [OF c(3) 2(3,4)] 2(5) by simp
  then show ?case unfolding chain.simps using t s map_leD [OF 2(3) c(1)] by blast
qed simp_all

lemma chain_kept:
  assumes "chain L h \<phi> B ty bs xs" "\<phi> \<subseteq>\<^sub>m \<phi>'" "single \<phi>'" "framed L h X \<phi> \<phi>' B B'" "dom \<phi> \<subseteq> dom B"
    and "\<not> shared ty \<longrightarrow> set bs \<inter> X = {}"
  shows "chain L h \<phi>' B' ty bs xs" "b \<in> set bs \<Longrightarrow> \<not> shared ty \<Longrightarrow> B' b = B b"
proof -
  have d: "B b \<noteq> None" if "b \<in> set bs" for b using chain_elements [OF assms(1) that] assms(5) by auto
  have k: "B' b = B b" if b: "b \<in> set bs" "\<not> shape_of ty = SHARED_LIST" "b \<notin> X" for b
    using framedD(1) [OF assms(4) d [OF b(1)] b(3)]
  proof (cases rule: relinkedE)
    case (2 ty' a s c n)
    then show ?thesis using chain_elements [OF assms(1) b(1)] map_leD [OF assms(2)] b(2) by fastforce
  qed
  have l: "loose L h \<phi> \<phi>' b (B b) (B' b)" if "b \<in> set bs" for b
    by (rule framed_loose [OF assms(4) d [OF that] assms(2)])
  have "chain L h \<phi>' B' ty bs xs" if "shape_of ty = SHARED_LIST \<or> \<not> shared ty"
    using that k l assms(6) by (intro chain_frame [OF assms(1-3)]) auto
  moreover have "shape_of ty = SHARED_LIST \<or> \<not> shared ty \<or> length bs = 1"
    using chain_is_list [OF assms(1)] by (auto simp: is_list_def shared_def)
  moreover have "length bs = 1 \<Longrightarrow> chain L h \<phi>' B' ty bs xs"
    using chain_one [OF assms(1)] map_leD [OF assms(2)] by auto
  ultimately show "chain L h \<phi>' B' ty bs xs" by blast
  show "b \<in> set bs \<Longrightarrow> \<not> shared ty \<Longrightarrow> B' b = B b" using k [of b] assms(6) shared_list by blast
qed

lemma chained_frame:
  assumes "chained L h \<phi> B N b" "b \<in> N" "\<phi> \<subseteq>\<^sub>m \<phi>'" "single \<phi>'" "framed L h X \<phi> \<phi>' B B'" "dom \<phi> \<subseteq> dom B" "N \<subseteq> dom \<phi>" "N \<inter> X = {}"
  shows "chained L h \<phi>' B' N b"
  unfolding chained_def
proof (intro allI impI)
  fix a t v d e xs
  assume p: "\<phi>' b = Some (T_Statement, a)" "h a = Some (Statement t v d)" "is_list t" "hd xs = v" "ring h v xs"
    and e: "target L \<phi>' B' b Slot_V = Some e"
  have f: "\<phi> b = Some (T_Statement, a)" using p(1) map_le_dom [OF assms(3) subsetD [OF assms(7,2)]] by simp
  then have "B b \<noteq> None" using assms(6) by auto
  then have "relinked L h \<phi>' b (B b) (B' b)" using framedD(1) [OF assms(5)] assms(2,8) by auto
  then have "B' b = B b" using p(1) by (auto elim: relinkedE)
  then have "target L \<phi> B b Slot_V = Some e" using e f p(1) by (simp add: target_def)
  then obtain bs where bs: "hd bs = e" "chain L h \<phi> B t bs xs" "\<not> shared t \<longrightarrow> set bs \<subseteq> N \<and> target L \<phi> B (last bs) Slot_Next = None"
    using assms(1) f p(2-5) unfolding chained_def by blast
  have X: "\<not> shared t \<longrightarrow> set bs \<inter> X = {}" using bs(3) assms(8) by auto
  note k = chain_kept [OF bs(2) assms(3-6) X]
  have "target L \<phi>' B' (last bs) Slot_Next = None" if "\<not> shared t"
  proof -
    have "last bs \<in> set bs" using chain_head [OF bs(2)] by auto
    with k(2) [OF _ that] have "B' (last bs) = B (last bs)" by auto
    moreover obtain x where "\<phi> (last bs) = Some (T_Struct t, x)" using chain_elements [OF bs(2)] \<open>last bs \<in> set bs\<close> by blast
    ultimately show ?thesis using bs(3) that map_leD [OF assms(3)] by (auto simp: target_def)
  qed
  then show "\<exists>bs. hd bs = e \<and> chain L h \<phi>' B' t bs xs
      \<and> (\<not> shared t \<longrightarrow> set bs \<subseteq> N \<and> target L \<phi>' B' (last bs) Slot_Next = None)"
    using bs k(1) by blast
qed

lemma placedD:
  assumes "placed L h vp \<phi> B N R" "b \<in> N"
  obtains t a where "\<phi> b = Some (t, a)" "good_object L h vp \<phi> B b t a" "chained L h \<phi> B N b"
proof -
  from assms obtain p where "\<phi> b = Some p" by (auto simp: placed_def)
  then show thesis using that [of "fst p" "snd p"] assms by (auto simp: placed_def)
qed

lemma forestD:
  assumes "forest L \<phi> B N R" "b \<in> N" "target L \<phi> B b sl = Some y" "unshared \<phi> y"
  shows "y \<in> N" "y \<notin> R"
  using assms unfolding forest_def by simp_all

lemma forest_inj:
  assumes "forest L \<phi> B N R" "b \<in> N" "b' \<in> N" "target L \<phi> B b sl = Some y" "target L \<phi> B b' sl' = Some y" "unshared \<phi> y"
  shows "b = b' \<and> sl = sl'"
  using assms unfolding forest_def by blast

lemma placed_frame:
  assumes "placed L h vp \<phi> B N R" "\<phi> \<subseteq>\<^sub>m \<phi>'" "single \<phi>'" "framed L h X \<phi> \<phi>' B B'" "dom \<phi> \<subseteq> dom B" "N \<inter> X = {}"
  shows "placed L h vp \<phi>' B' N R"
proof -
  have N: "N \<subseteq> dom \<phi>" using assms(1) by (simp add: placed_def)
  have r: "relinked L h \<phi>' b (B b) (B' b)" if "b \<in> N" for b
  proof -
    have "b \<in> dom B" "b \<notin> X" using that assms(5,6) N by blast+
    then have "B b \<noteq> None" "b \<notin> X" by auto
    then show ?thesis by (rule framedD(1) [OF assms(4)])
  qed
  have g: "good_object L h vp \<phi>' B' b (fst (the (\<phi>' b))) (snd (the (\<phi>' b))) \<and> chained L h \<phi>' B' N b" if b: "b \<in> N" for b
    using b assms(1)
  proof (elim placedD)
    fix t a assume f: "\<phi> b = Some (t, a)" "good_object L h vp \<phi> B b t a" "chained L h \<phi> B N b"
    from good_object_frame [where B' = B', OF f(2,1) assms(2) r [OF b]] chained_frame [OF f(3) b assms(2-5) N assms(6)]
    show ?thesis using map_leD [OF assms(2) f(1)] by simp
  qed
  have t: "target L \<phi> B b sl = Some y \<and> unshared \<phi> y" if b: "b \<in> N" and y: "target L \<phi>' B' b sl = Some y" "unshared \<phi>' y" for b sl y
    using b assms(1)
  proof (elim placedD)
    fix t a assume f: "\<phi> b = Some (t, a)" "good_object L h vp \<phi> B b t a"
    from target_frame [where B = B, OF f(1) assms(2) r [OF b] y] have "target L \<phi> B b sl = Some y" .
    with good_target [OF f(2,1)] y(2) unshared_mono [OF assms(2)] show ?thesis by auto
  qed
  have f: "forest L \<phi> B N R" using assms(1) by (simp add: placed_def)
  have "forest L \<phi>' B' N R"
    unfolding forest_def
  proof (intro conjI ballI allI impI)
    fix b sl y assume "b \<in> N" "target L \<phi>' B' b sl = Some y" "unshared \<phi>' y"
    with t forestD [OF f] show "y \<in> N" "y \<notin> R" by blast+
  next
    fix b b' sl sl' y
    assume b: "b \<in> N" "b' \<in> N" and y: "target L \<phi>' B' b sl = Some y" "target L \<phi>' B' b' sl' = Some y" "unshared \<phi>' y"
    from t [OF b(1) y(1,3)] t [OF b(2) y(2,3)] forest_inj [OF f b] show "b = b'" "sl = sl'" by blast+
  qed
  then show ?thesis
    using assms(1) g N map_le_implies_dom_le [OF assms(2)] unfolding placed_def by auto
qed

lemma chained_mono:
  assumes "chained L h \<phi> B N b" "N \<subseteq> N'"
  shows "chained L h \<phi> B N' b"
  unfolding chained_def
proof (intro allI impI)
  fix a t v d e xs
  assume p: "\<phi> b = Some (T_Statement, a)" "h a = Some (Statement t v d)" "is_list t" "hd xs = v" "ring h v xs"
    "target L \<phi> B b Slot_V = Some e"
  then obtain bs where "hd bs = e" "chain L h \<phi> B t bs xs" "\<not> shared t \<longrightarrow> set bs \<subseteq> N \<and> target L \<phi> B (last bs) Slot_Next = None"
    using assms(1) unfolding chained_def by blast
  then show "\<exists>bs. hd bs = e \<and> chain L h \<phi> B t bs xs
      \<and> (\<not> shared t \<longrightarrow> set bs \<subseteq> N' \<and> target L \<phi> B (last bs) Slot_Next = None)"
    using assms(2) by blast
qed

lemma forest_Un:
  assumes "forest L \<phi> B N R" "forest L \<phi> B N' R'" "N \<inter> N' = {}" "R \<subseteq> N" "R' \<subseteq> N'"
  shows "forest L \<phi> B (N \<union> N') (R \<union> R')"
proof -
  have t: "b \<in> N \<and> y \<in> N \<and> y \<notin> R \<or> b \<in> N' \<and> y \<in> N' \<and> y \<notin> R'"
    if "b \<in> N \<union> N'" "target L \<phi> B b sl = Some y" "unshared \<phi> y" for b sl y
    using that forestD [OF assms(1)] forestD [OF assms(2)] by blast
  show ?thesis
    unfolding forest_def
  proof (intro conjI ballI allI impI)
    fix b sl y assume "b \<in> N \<union> N'" "target L \<phi> B b sl = Some y" "unshared \<phi> y"
    from t [OF this] show "y \<in> N \<union> N'" "y \<notin> R \<union> R'" using assms(3-5) by blast+
  next
    fix b b' sl sl' y
    assume b: "b \<in> N \<union> N'" "b' \<in> N \<union> N'" and y: "target L \<phi> B b sl = Some y" "target L \<phi> B b' sl' = Some y" "unshared \<phi> y"
    from t [OF b(1) y(1,3)] t [OF b(2) y(2,3)] assms(3) have "b \<in> N \<and> b' \<in> N \<or> b \<in> N' \<and> b' \<in> N'" by blast
    then have "b = b' \<and> sl = sl'" using forest_inj [OF assms(1) _ _ y] forest_inj [OF assms(2) _ _ y] by blast
    then show "b = b'" "sl = sl'" by simp_all
  qed
qed

lemma placed_Un:
  assumes "placed L h vp \<phi> B N R" "placed L h vp \<phi> B N' R'" "N \<inter> N' = {}"
  shows "placed L h vp \<phi> B (N \<union> N') (R \<union> R')"
proof -
  have "forest L \<phi> B (N \<union> N') (R \<union> R')"
    using assms by (intro forest_Un) (simp_all add: placed_def)
  moreover have "good_object L h vp \<phi> B b (fst (the (\<phi> b))) (snd (the (\<phi> b))) \<and> chained L h \<phi> B (N \<union> N') b"
    if "b \<in> N \<union> N'" for b
    using that assms(1,2) chained_mono [of L h \<phi> B N b "N \<union> N'"] chained_mono [of L h \<phi> B N' b "N \<union> N'"]
    unfolding placed_def by blast
  ultimately show ?thesis using assms(1,2) unfolding placed_def by blast
qed

lemma placed_insert:
  assumes "placed L h vp \<phi> B N R" "new \<notin> N" "\<phi> new = Some (t, a)" "good_object L h vp \<phi> B new t a" "chained L h \<phi> B (insert new N) new"
    and "\<And>sl y. target L \<phi> B new sl = Some y \<Longrightarrow> unshared \<phi> y \<Longrightarrow> y \<in> R"
    and "\<And>sl sl' y. target L \<phi> B new sl = Some y \<Longrightarrow> target L \<phi> B new sl' = Some y \<Longrightarrow> unshared \<phi> y \<Longrightarrow> sl = sl'"
  shows "placed L h vp \<phi> B (insert new N) {new}"
proof -
  have f: "forest L \<phi> B N R" and R: "R \<subseteq> N" using assms(1) by (simp_all add: placed_def)
  have N: "y \<in> N \<and> (b = new \<longleftrightarrow> y \<in> R)" if b: "b \<in> insert new N" and y: "target L \<phi> B b sl = Some y" "unshared \<phi> y" for b sl y
  proof (cases "b = new")
    case True
    then have "y \<in> R" using assms(6) y by simp
    with True R show ?thesis by auto
  next
    case False
    with b have "b \<in> N" by simp
    from forestD [OF f this y] False show ?thesis by simp
  qed
  have "forest L \<phi> B (insert new N) {new}"
    unfolding forest_def
  proof (intro conjI ballI allI impI)
    fix b sl y assume "b \<in> insert new N" "target L \<phi> B b sl = Some y" "unshared \<phi> y"
    from N [OF this] show "y \<in> insert new N" "y \<notin> {new}" using assms(2) by auto
  next
    fix b b' sl sl' y
    assume b: "b \<in> insert new N" "b' \<in> insert new N" and y: "target L \<phi> B b sl = Some y" "target L \<phi> B b' sl' = Some y" "unshared \<phi> y"
    from N [OF b(1) y(1,3)] N [OF b(2) y(2,3)] have e: "b = new \<longleftrightarrow> b' = new" by simp
    have "b = b' \<and> sl = sl'"
    proof (cases "b = new")
      case True
      then show ?thesis using e assms(7) [of sl y sl'] y by simp
    next
      case False
      then have "b \<in> N" "b' \<in> N" using b e by simp_all
      then show ?thesis by (rule forest_inj [OF f _ _ y])
    qed
    then show "b = b'" "sl = sl'" by simp_all
  qed
  moreover have "chained L h \<phi> B (insert new N) b" if "b \<in> insert new N" for b
  proof (cases "b = new")
    case False
    then have "chained L h \<phi> B N b" using that assms(1) by (simp add: placed_def)
    then show ?thesis by (rule chained_mono) auto
  qed (use assms(5) in simp)
  moreover have "good_object L h vp \<phi> B b (fst (the (\<phi> b))) (snd (the (\<phi> b)))" if "b \<in> insert new N" for b
    using that assms(1,3,4) by (cases "b = new") (simp_all add: placed_def)
  moreover have "insert new N \<subseteq> dom \<phi>" using assms(1,3) by (auto simp: placed_def)
  ultimately show ?thesis unfolding placed_def by simp
qed

section \<open>States of the second pass\<close>

text \<open>
  The image of a state: copies do not overlap, a structure that carries \<open>bin_defn_offset\<close> is where this says, and those of
  \<open>K\<close> whose offset is no longer the mark of the first pass have a copy.
\<close>

definition spaced :: "layout \<Rightarrow> int \<Rightarrow> image \<Rightarrow> int \<Rightarrow> bool" where
  "spaced L out \<phi> lim \<longleftrightarrow>
     (\<forall>b t a. \<phi> b = Some (t, a) \<longrightarrow> out \<le> b \<and> b + extent L t \<le> lim \<and> (\<forall>b'. b < b' \<longrightarrow> \<phi> b' \<noteq> None \<longrightarrow> b + extent L t \<le> b'))"

definition located :: "(int \<Rightarrow> SqlStatementType) \<Rightarrow> image \<Rightarrow> (int \<Rightarrow> int) \<Rightarrow> bool" where
  "located T \<phi> os \<longleftrightarrow> (\<forall>b ty a. \<phi> b = Some (T_Struct ty, a) \<longrightarrow> shared ty \<longrightarrow> T a = ty \<and> os a = b)"

definition covered :: "int set \<Rightarrow> (int \<Rightarrow> SqlStatementType) \<Rightarrow> image \<Rightarrow> (int \<Rightarrow> int) \<Rightarrow> bool" where
  "covered K T \<phi> os \<longleftrightarrow> (\<forall>a\<in>K. os a \<noteq> MAX_BIN_DEFN_OFFSET \<longrightarrow> \<phi> (os a) = Some (T_Struct (T a), a))"

definition inv :: "layout \<Rightarrow> int set \<Rightarrow> (int \<Rightarrow> SqlStatementType) \<Rightarrow> int \<Rightarrow> image \<Rightarrow> compress_state \<Rightarrow> bool" where
  "inv L K T out \<phi> st \<longleftrightarrow>
     dom \<phi> = dom (buf st) \<and> 0 \<le> out_length st \<and> spaced L out \<phi> (out + out_length st) \<and> located T \<phi> (offs st) \<and> covered K T \<phi> (offs st)"

lemma spacedD:
  "spaced L out \<phi> lim \<Longrightarrow> \<phi> b = Some (t, a) \<Longrightarrow> out \<le> b \<and> b + extent L t \<le> lim"
  "spaced L out \<phi> lim \<Longrightarrow> \<phi> b = Some (t, a) \<Longrightarrow> b < b' \<Longrightarrow> \<phi> b' = Some x \<Longrightarrow> b + extent L t \<le> b'"
  unfolding spaced_def by blast+

lemma inv_dom: "inv L K T out \<phi> st \<Longrightarrow> dom \<phi> = dom (buf st)"
  by (simp add: inv_def)

lemma inv_offs: "inv L K T out \<phi> st \<Longrightarrow> \<phi> b = Some (T_Struct ty, a) \<Longrightarrow> shared ty \<Longrightarrow> T a = ty \<and> offs st a = b"
  unfolding inv_def located_def by blast

lemma inv_covered:
  "inv L K T out \<phi> st \<Longrightarrow> a \<in> K \<Longrightarrow> offs st a \<noteq> MAX_BIN_DEFN_OFFSET \<Longrightarrow> \<phi> (offs st a) = Some (T_Struct (T a), a)"
  unfolding inv_def covered_def by blast

lemma inv_single: "inv L K T out \<phi> st \<Longrightarrow> single \<phi>"
  unfolding single_def using inv_offs by metis

lemma inv_spaced: "inv L K T out \<phi> st \<Longrightarrow> spaced L out \<phi> (out + out_length st)"
  by (simp add: inv_def)

lemma extent_pos: "laid_out L \<Longrightarrow> 0 < extent L t"
  by (cases t) (auto simp: laid_out_def sized_def)

lemma inv_fresh:
  assumes "laid_out L" "inv L K T out \<phi> st"
  shows "\<phi> (out + out_length st) = None"
proof (cases "\<phi> (out + out_length st)")
  case (Some p)
  then show ?thesis using spacedD(1) [OF inv_spaced [OF assms(2)], of "out + out_length st" "fst p" "snd p"] extent_pos [OF assms(1), of "fst p"] by simp
qed

text \<open>A location inside of a structure is not the beginning of another one.\<close>

lemma inv_inside:
  assumes "laid_out L" "inv L K T out \<phi> st" "\<phi> b = Some (t, a)" "\<phi> y = Some x" "0 \<le> off" "off < extent L t" "y \<noteq> b"
  shows "y \<noteq> b + off"
proof
  assume y: "y = b + off"
  with assms(5,7) have "b < y" by simp
  then have "b + extent L t \<le> y" using spacedD(2) [OF inv_spaced [OF assms(2)] assms(3) _ assms(4)] by blast
  with y assms(6) show False by simp
qed

lemma points_to_A2R:
  assumes "laid_out L" "inv L K T out \<phi> st" "\<phi> b = Some (t, a)" "\<phi> y = Some (t', a')" "0 \<le> off" "off < extent L t" "y \<noteq> b"
  shows "points_to \<phi> (b + off) (A2R y (b + off)) t' a'" "b + off + A2R y (b + off) = y"
  using inv_inside [OF assms(1-3,4-7)] assms(4) by (simp_all add: points_to_def A2R_def)

lemma inv_buf:
  assumes "inv L K T out \<phi> st" "dom B = dom (buf st)"
  shows "inv L K T out \<phi> (st\<lparr>buf := B\<rparr>)"
  using assms by (simp add: inv_def)

text \<open>A new object at the end of the block.\<close>

lemma spaced_put:
  assumes "laid_out L" "spaced L out \<phi> b" "extent L t \<le> sz" "out \<le> b"
  shows "spaced L out (\<phi>(b \<mapsto> (t, a))) (b + sz)"
  unfolding spaced_def
proof (intro allI impI)
  fix c u e assume c: "(\<phi>(b \<mapsto> (t, a))) c = Some (u, e)"
  have p: "0 < extent L t" by (rule extent_pos [OF assms(1)])
  show "out \<le> c \<and> c + extent L u \<le> b + sz \<and> (\<forall>b'. c < b' \<longrightarrow> (\<phi>(b \<mapsto> (t, a))) b' \<noteq> None \<longrightarrow> c + extent L u \<le> b')"
  proof (cases "c = b")
    case True
    have "\<phi> b' = None" if "b < b'" for b'
      using that spacedD(1) [OF assms(2), of b' "fst (the (\<phi> b'))" "snd (the (\<phi> b'))"] extent_pos [OF assms(1), of "fst (the (\<phi> b'))"]
      by (cases "\<phi> b'") auto
    then show ?thesis using True c assms(3,4) by auto
  next
    case False
    then have c': "\<phi> c = Some (u, e)" using c by simp
    from spacedD(1) [OF assms(2) c'] spacedD(2) [OF assms(2) c'] show ?thesis using p assms(3) by auto
  qed
qed

lemma covered_put: "covered K T \<phi> os \<Longrightarrow> \<phi> b = None \<Longrightarrow> covered K T (\<phi>(b \<mapsto> x)) os"
  unfolding covered_def by auto

lemma inv_put:
  assumes "laid_out L" "inv L K T out \<phi> st" "extent L t \<le> sz" "\<forall>ty. t = T_Struct ty \<longrightarrow> \<not> shared ty" "out + out_length st = b"
  shows "inv L K T out (\<phi>(b \<mapsto> (t, a))) (st\<lparr>buf := (buf st)(b \<mapsto> x), out_length := out_length st + sz\<rparr>)"
proof -
  have p: "0 < sz" "0 \<le> out_length st" using assms(2,3) extent_pos [OF assms(1), of t] by (auto simp: inv_def)
  have n: "\<phi> b = None" using inv_fresh [OF assms(1,2)] assms(5) by simp
  have "spaced L out (\<phi>(b \<mapsto> (t, a))) (b + sz)"
    using spaced_put [OF assms(1) _ assms(3)] inv_spaced [OF assms(2)] assms(5) p by auto
  moreover have "located T (\<phi>(b \<mapsto> (t, a))) (offs st)"
    using assms(2,4) by (auto simp: inv_def located_def)
  ultimately show ?thesis
    using p assms(2,5) covered_put [where \<phi> = \<phi> and b = b, OF _ n] by (auto simp: inv_def algebra_simps)
qed

lemma inv_place:
  assumes "laid_out L" "inv L K T out \<phi> st" "shared ty" "T a = ty" "0 < out"
    and "offs st a = MAX_BIN_DEFN_OFFSET" "out + out_length st = b"
  shows "inv L K T out (\<phi>(b \<mapsto> (T_Struct ty, a)))
    ((set_offs a b st)\<lparr>buf := (buf st)(b \<mapsto> x), out_length := out_length st + size_of L ty\<rparr>)"
proof -
  have p: "0 < size_of L ty" "0 \<le> out_length st" using assms(2) extent_pos [OF assms(1), of "T_Struct ty"] by (auto simp: inv_def)
  have n: "\<phi> b = None" using inv_fresh [OF assms(1,2)] assms(7) by simp
  have "spaced L out (\<phi>(b \<mapsto> (T_Struct ty, a))) (b + size_of L ty)"
    using inv_spaced [OF assms(2)] assms(7) p by (intro spaced_put [OF assms(1)]) auto
  moreover have "e \<noteq> a" if "\<phi> c = Some (T_Struct u, e)" "shared u" for c u e
    using inv_offs [OF assms(2) that] spacedD(1) [OF inv_spaced [OF assms(2)] that(1)] assms(5,6) by auto
  then have "located T (\<phi>(b \<mapsto> (T_Struct ty, a))) ((offs st)(a := b))"
    using assms(2,4) by (auto simp: inv_def located_def)
  moreover have "covered K T (\<phi>(b \<mapsto> (T_Struct ty, a))) ((offs st)(a := b))"
    using assms(2,4) n by (auto simp: inv_def covered_def)
  ultimately show ?thesis
    using p assms(2,7) by (auto simp: inv_def set_offs_def algebra_simps)
qed

section \<open>Steps of the second pass\<close>

text \<open>
  From \<open>st\<close> to \<open>st'\<close> only good objects are added, and nothing that was there before is changed except for the
  objects in \<open>X\<close>; of the new objects only those in \<open>R\<close> may be without a reference.
\<close>

definition extends ::
    "layout \<Rightarrow> heap \<Rightarrow> bool \<Rightarrow> int set \<Rightarrow> (int \<Rightarrow> SqlStatementType) \<Rightarrow> int \<Rightarrow> int set \<Rightarrow> image \<Rightarrow> compress_state \<Rightarrow> image \<Rightarrow> compress_state
     \<Rightarrow> int set \<Rightarrow> bool" where
  "extends L h vp K T out X \<phi> st \<phi>' st' R \<longleftrightarrow>
     inv L K T out \<phi>' st' \<and> \<phi> \<subseteq>\<^sub>m \<phi>' \<and> framed L h X \<phi> \<phi>' (buf st) (buf st')
     \<and> placed L h vp \<phi>' (buf st') (dom \<phi>' - dom \<phi>) R"

lemma extendsD:
  assumes "extends L h vp K T out X \<phi> st \<phi>' st' R"
  shows "inv L K T out \<phi>' st'" "\<phi> \<subseteq>\<^sub>m \<phi>'" "framed L h X \<phi> \<phi>' (buf st) (buf st')"
    "placed L h vp \<phi>' (buf st') (dom \<phi>' - dom \<phi>) R"
  using assms by (simp_all add: extends_def)

lemma extends_trans:
  assumes "extends L h vp K T out X \<phi> st \<phi>1 st1 R1" "extends L h vp K T out X \<phi>1 st1 \<phi>2 st2 R2" "X \<subseteq> dom \<phi>"
  shows "extends L h vp K T out X \<phi> st \<phi>2 st2 (R1 \<union> R2)"
proof -
  note a = extendsD [OF assms(1)] and b = extendsD [OF assms(2)]
  have le: "\<phi> \<subseteq>\<^sub>m \<phi>2" using a(2) b(2) by (rule map_le_trans)
  have "placed L h vp \<phi>2 (buf st2) (dom \<phi>1 - dom \<phi>) R1"
    by (rule placed_frame [OF a(4) b(2) inv_single [OF b(1)] b(3)]) (use inv_dom [OF a(1)] assms(3) in auto)
  then have "placed L h vp \<phi>2 (buf st2) ((dom \<phi>1 - dom \<phi>) \<union> (dom \<phi>2 - dom \<phi>1)) (R1 \<union> R2)"
    by (rule placed_Un [OF _ b(4)]) auto
  moreover have "(dom \<phi>1 - dom \<phi>) \<union> (dom \<phi>2 - dom \<phi>1) = dom \<phi>2 - dom \<phi>"
    using map_le_implies_dom_le [OF a(2)] map_le_implies_dom_le [OF b(2)] by auto
  ultimately show ?thesis
    using b(1) le framed_trans [OF a(3) b(3) a(2) b(2)] by (simp add: extends_def)
qed

lemma placed_empty [simp]: "placed L h vp \<phi> B {} {}"
  by (simp add: placed_def forest_def)

lemma extends_refl: "inv L K T out \<phi> st \<Longrightarrow> extends L h vp K T out X \<phi> st \<phi> st {}"
  by (simp add: extends_def)

lemma extends_weaken: "extends L h vp K T out X \<phi> st \<phi>' st' R \<Longrightarrow> X \<subseteq> Y \<Longrightarrow> extends L h vp K T out Y \<phi> st \<phi>' st' R"
  unfolding extends_def using framed_weaken by blast

text \<open>A change of an object that is being written.\<close>

lemma extends_update:
  assumes "inv L K T out \<phi> st" "buf st b \<noteq> None" "loose L h \<phi> \<phi> b (buf st b) (Some x)" "b \<in> X"
  shows "extends L h vp K T out X \<phi> st \<phi> (st\<lparr>buf := (buf st)(b \<mapsto> x)\<rparr>) {}"
proof -
  have "inv L K T out \<phi> (st\<lparr>buf := (buf st)(b \<mapsto> x)\<rparr>)"
    using assms(2) by (intro inv_buf [OF assms(1)]) auto
  moreover have "framed L h X \<phi> \<phi> (buf st) ((buf st)(b \<mapsto> x))"
    using assms(3,4) by (auto simp: framed_def relinked_def loose_def)
  ultimately show ?thesis by (simp add: extends_def)
qed

lemma loose_same_next:
  assumes "x = Some (Struct c)" "y = Struct c'" "obj_next c' = obj_next c"
  shows "loose L h \<phi> \<phi>' b x (Some y)"
  using assms by (auto simp: loose_def)

lemma set_struct_run:
  assumes "set_struct out b f st = Inr st'" "0 < out"
  obtains c where "buf st b = Some (Struct c)" "st' = st\<lparr>buf := (buf st)(b \<mapsto> Struct (f c))\<rparr>"
  using assms by (auto simp: set_struct_def split: option.splits obj.splits)

lemma set_v_run:
  assumes "set_v L out b y st = Inr st'" "0 < out"
  obtains t v d where "buf st b = Some (Statement t v d)"
    "st' = st\<lparr>buf := (buf st)(b \<mapsto> Statement t (A2R y (b + offset_of_v L)) d)\<rparr>"
  using assms by (auto simp: set_v_def split: option.splits obj.splits)

lemma put_run:
  assumes "put out limit x sz st = Inr st'" "0 < out"
  shows "st' = st\<lparr>buf := (buf st)(out + out_length st \<mapsto> x), out_length := out_length st + sz\<rparr>"
  using assms by (auto simp: put_def split: if_splits)

section \<open>Members\<close>

definition call_image ::
    "layout \<Rightarrow> heap \<Rightarrow> bool \<Rightarrow> int set \<Rightarrow> (int \<Rightarrow> SqlStatementType) \<Rightarrow> int \<Rightarrow> int \<Rightarrow> compress_call \<Rightarrow> compress_call \<Rightarrow> bool" where
  "call_image L h vp K T out limit call1 call2 \<longleftrightarrow>
     (\<forall>s st1 r1 st1' st r st' \<phi>.
        call1 s st1 = Inr (r1, st1') \<longrightarrow> synced K out st1 st \<longrightarrow> bounded K limit st1' \<longrightarrow> call2 s st = Inr (r, st') \<longrightarrow>
        inv L K T out \<phi> st \<longrightarrow>
        (if live h s then \<exists>\<phi>'. extends L h vp K T out {} \<phi> st \<phi>' st' {r} \<and> \<phi>' r = Some (T_Statement, s) \<and> r \<notin> dom \<phi>
         else r = 0 \<and> st' = st))"

lemma call_imageD:
  assumes "call_image L h vp K T out limit call1 call2" "call1 s st1 = Inr (r1, st1')" "synced K out st1 st"
    and "bounded K limit st1'" "call2 s st = Inr (r, st')" "inv L K T out \<phi> st"
  shows "live h s \<Longrightarrow> \<exists>\<phi>'. extends L h vp K T out {} \<phi> st \<phi>' st' {r} \<and> \<phi>' r = Some (T_Statement, s) \<and> r \<notin> dom \<phi>"
    "\<not> live h s \<Longrightarrow> r = 0 \<and> st' = st"
proof -
  have "if live h s then \<exists>\<phi>'. extends L h vp K T out {} \<phi> st \<phi>' st' {r} \<and> \<phi>' r = Some (T_Statement, s) \<and> r \<notin> dom \<phi>
    else r = 0 \<and> st' = st"
    using assms(1) [unfolded call_image_def, rule_format, OF assms(2-6)] .
  then show "live h s \<Longrightarrow> \<exists>\<phi>'. extends L h vp K T out {} \<phi> st \<phi>' st' {r} \<and> \<phi>' r = Some (T_Statement, s) \<and> r \<notin> dom \<phi>"
    "\<not> live h s \<Longrightarrow> r = 0 \<and> st' = st" by simp_all
qed

text \<open>Where the copy \<open>c\<close> at \<open>new\<close> of a structure has its pointer \<open>m\<close>.\<close>

definition member_target :: "layout \<Rightarrow> SqlStatementType \<Rightarrow> int \<Rightarrow> struct_obj \<Rightarrow> member \<Rightarrow> int" where
  "member_target L ty new c m = new + offset_of L ty m + member_of c m"

text \<open>The link of a structure that is being written stays, or becomes right when a shared list is written that runs through it.\<close>

definition link_kept :: "layout \<Rightarrow> image \<Rightarrow> SqlStatementType \<Rightarrow> int \<Rightarrow> struct_obj \<Rightarrow> struct_obj \<Rightarrow> struct_obj \<Rightarrow> bool" where
  "link_kept L \<phi> ty new s c c' \<longleftrightarrow>
     obj_next c' = obj_next c
     \<or> shape_of ty = SHARED_LIST \<and> points_to \<phi> (new + offset_of_next L ty) (obj_next c') (T_Struct ty) (obj_next s)"

lemma link_kept_trans: "link_kept L \<phi> ty new s c c1 \<Longrightarrow> link_kept L \<phi>' ty new s c1 c2 \<Longrightarrow> \<phi> \<subseteq>\<^sub>m \<phi>' \<Longrightarrow> link_kept L \<phi>' ty new s c c2"
  unfolding link_kept_def using points_to_mono by metis

lemma relinked_struct:
  assumes "relinked L h \<phi> b (Some (Struct c)) y" "\<phi> b = Some (T_Struct ty, a)" "h a = Some (Struct s)"
  obtains n where "y = Some (Struct (c\<lparr>obj_next := n\<rparr>))" "link_kept L \<phi> ty b s c (c\<lparr>obj_next := n\<rparr>)"
  using assms(1)
proof (cases rule: relinkedE)
  case 1
  then show ?thesis using that [of "obj_next c"] by (simp add: link_kept_def)
next
  case (2 ty' a' s' c' n)
  then show ?thesis using that [of n] assms(2,3) by (simp add: link_kept_def)
qed

end
