(* ===== verification/Compress_Copies.thy ===== *)
theory Compress_Copies
  imports Compress_Image
begin

text \<open>
  The second pass of \<open>compress_statement\<close> builds an image of the graph. The proof follows the cases of the function. The
  run of the first pass that goes with it is carried along, because it is what tells that every structure with \<open>bin_defn_offset\<close>
  the second pass meets has been marked.
\<close>

section \<open>Members of a structure\<close>

lemma members_image:
  assumes "laid_out L" "0 < out" "call_grows call1" "call_sim K out limit call1 call2" "call_image L h vp K T out limit call1 call2"
  shows "compress_members L 0 call1 ty s new1 ms st1 = Inr st1' \<Longrightarrow> synced K out st1 st \<Longrightarrow> bounded K limit st1' \<Longrightarrow>
    compress_members L out call2 ty s new ms st = Inr st' \<Longrightarrow> inv L K T out \<phi> st \<Longrightarrow> distinct ms \<Longrightarrow>
    \<phi> new = Some (T_Struct ty, a) \<Longrightarrow> h a = Some (Struct s) \<Longrightarrow> buf st new = Some (Struct c) \<Longrightarrow>
    \<exists>\<phi>' c' R. extends L h vp K T out {new} \<phi> st \<phi>' st' R \<and> buf st' new = Some (Struct c')
      \<and> c' = c\<lparr>member_of := member_of c', obj_next := obj_next c'\<rparr> \<and> link_kept L \<phi>' ty new s c c'
      \<and> (\<forall>m. m \<notin> set ms \<longrightarrow> member_of c' m = member_of c m)
      \<and> (\<forall>m\<in>set ms. good_member L h \<phi>' ty new s c' m
           \<and> (live h (member_of s m) \<longrightarrow> member_target L ty new c' m \<in> R \<and> member_target L ty new c' m \<notin> dom \<phi>))
      \<and> (\<forall>m\<in>set ms. \<forall>m'\<in>set ms. live h (member_of s m) \<longrightarrow> live h (member_of s m') \<longrightarrow>
           member_target L ty new c' m = member_target L ty new c' m' \<longrightarrow> m = m')"
proof (induction ms arbitrary: st1 st \<phi> c)
  case Nil
  then show ?case
    by (intro exI [of _ \<phi>] exI [of _ c] exI [of _ "{}"]) (auto simp: extends_refl link_kept_def)
next
  case (Cons m ms)
  obtain r1 sta where a: "call1 (member_of s m) st1 = Inr (r1, sta)" "compress_members L 0 call1 ty s new1 ms sta = Inr st1'"
    using Cons.prems(1) by (auto simp: bindE_Inr_iff)
  have ba: "bounded K limit sta" using members_grow [OF assms(3) a(2)] Cons.prems(3) by (rule bounded_grows)
  obtain r stb where b: "call2 (member_of s m) st = Inr (r, stb)" "synced K out sta stb" "keeps st stb"
    using call_simE [OF assms(4) a(1) Cons.prems(2) ba] by blast
  let ?off = "new + offset_of L ty m"
  let ?f = "\<lambda>c. c\<lparr>member_of := (member_of c)(m := if r = 0 then 0 else A2R r ?off)\<rparr>"
  obtain stc where set: "set_struct out new ?f stb = Inr stc" and rest: "compress_members L out call2 ty s new ms stc = Inr st'"
    using Cons.prems(4) b(1) by (auto simp: bindE_Inr_iff)
  have "\<exists>\<phi>1. extends L h vp K T out {} \<phi> st \<phi>1 stb (if live h (member_of s m) then {r} else {})
      \<and> (if live h (member_of s m) then \<phi>1 r = Some (T_Statement, member_of s m) \<and> r \<notin> dom \<phi> else r = 0)"
    using call_imageD [OF assms(5) a(1) Cons.prems(2) ba b(1) Cons.prems(5)] extends_refl [OF Cons.prems(5), of h vp "{}"]
    by (cases "live h (member_of s m)") auto
  then obtain \<phi>1 where e1: "extends L h vp K T out {} \<phi> st \<phi>1 stb (if live h (member_of s m) then {r} else {})"
    and r: "if live h (member_of s m) then \<phi>1 r = Some (T_Statement, member_of s m) \<and> r \<notin> dom \<phi> else r = 0" by blast
  note e1' = extendsD [OF e1]
  have n1: "\<phi>1 new = Some (T_Struct ty, a)" by (rule map_leD [OF e1'(2) Cons.prems(7)])
  have "relinked L h \<phi>1 new (Some (Struct c)) (buf stb new)"
    using framedD(1) [OF e1'(3), of new] Cons.prems(9) by simp
  then obtain n where c1: "buf stb new = Some (Struct (c\<lparr>obj_next := n\<rparr>))" "link_kept L \<phi>1 ty new s c (c\<lparr>obj_next := n\<rparr>)"
    using relinked_struct n1 Cons.prems(8) by blast
  let ?c2 = "?f (c\<lparr>obj_next := n\<rparr>)"
  have stc: "stc = stb\<lparr>buf := (buf stb)(new \<mapsto> Struct ?c2)\<rparr>"
    by (rule set_struct_run [OF set assms(2)]) (use c1(1) in simp)
  have e2: "extends L h vp K T out {new} \<phi>1 stb \<phi>1 stc {}"
    unfolding stc by (rule extends_update [OF e1'(1)]) (use c1(1) in \<open>auto intro: loose_same_next\<close>)
  have sc: "synced K out sta stc" "kind_at stc new = Some K_Struct"
    using update_buf_sim(1) [OF b(2), of new "Struct ?c2"] c1(1) by (auto simp: stc kind_at_def)
  have bc: "buf stc new = Some (Struct ?c2)" by (simp add: stc)
  have d: "distinct ms" using Cons.prems(6) by simp
  from Cons.IH [OF a(2) sc(1) Cons.prems(3) rest extendsD(1) [OF e2] d n1 Cons.prems(8) bc]
  obtain \<phi>' c' R where e3: "extends L h vp K T out {new} \<phi>1 stc \<phi>' st' R" and c': "buf st' new = Some (Struct c')"
      "c' = ?c2\<lparr>member_of := member_of c', obj_next := obj_next c'\<rparr>" and lk: "link_kept L \<phi>' ty new s ?c2 c'"
    and other: "\<forall>m'. m' \<notin> set ms \<longrightarrow> member_of c' m' = member_of ?c2 m'"
    and good: "\<forall>m\<in>set ms. good_member L h \<phi>' ty new s c' m
       \<and> (live h (member_of s m) \<longrightarrow> member_target L ty new c' m \<in> R \<and> member_target L ty new c' m \<notin> dom \<phi>1)"
    and inj: "\<forall>m\<in>set ms. \<forall>m'\<in>set ms. live h (member_of s m) \<longrightarrow> live h (member_of s m') \<longrightarrow>
       member_target L ty new c' m = member_target L ty new c' m' \<longrightarrow> m = m'"
    by (elim exE conjE) (rule that)
  let ?R = "if live h (member_of s m) then {r} else {}"
  have le: "\<phi>1 \<subseteq>\<^sub>m \<phi>'" "dom \<phi> \<subseteq> dom \<phi>1" using extendsD(2) [OF e3] map_le_implies_dom_le [OF e1'(2)] by auto
  have X: "{new} \<subseteq> dom \<phi>" using Cons.prems(7) by auto
  have "extends L h vp K T out {new} \<phi> st \<phi>1 stc (?R \<union> {})"
    by (rule extends_trans [OF extends_weaken [OF e1] e2 X]) simp
  then have "extends L h vp K T out {new} \<phi> st \<phi>1 stc ?R" by (simp only: Un_empty_right)
  from extends_trans [OF this e3 X] have ext: "extends L h vp K T out {new} \<phi> st \<phi>' st' (?R \<union> R)" .
  have m: "member_of c' m = (if r = 0 then 0 else A2R r ?off)" using other Cons.prems(6) by simp
  have rm: "good_member L h \<phi>' ty new s c' m" "live h (member_of s m) \<Longrightarrow> member_target L ty new c' m = r"
  proof -
    have "points_to \<phi>1 ?off (A2R r ?off) T_Statement (member_of s m) \<and> ?off + A2R r ?off = r \<and> r \<noteq> 0" if "live h (member_of s m)"
    proof -
      have f: "\<phi>1 r = Some (T_Statement, member_of s m)" using r that by simp
      then have "r \<noteq> new" "out \<le> r" using n1 spacedD(1) [OF inv_spaced [OF e1'(1)] f] by auto
      then show ?thesis
        using points_to_A2R [OF assms(1) e1'(1) n1 f, of "offset_of L ty m"] assms(1,2) by (auto simp: laid_out_def)
    qed
    then show "good_member L h \<phi>' ty new s c' m" "live h (member_of s m) \<Longrightarrow> member_target L ty new c' m = r"
      using m r le(1) by (auto simp: good_member_def member_target_def intro: points_to_mono split: if_splits)
  qed
  have "link_kept L \<phi>' ty new s c c'"
    using link_kept_trans [OF c1(2) _ le(1), of c'] lk by (simp add: link_kept_def)
  moreover have "c' = c\<lparr>member_of := member_of c', obj_next := obj_next c'\<rparr>" using c'(2) by simp
  moreover have "\<forall>m'. m' \<notin> set (m # ms) \<longrightarrow> member_of c' m' = member_of c m'" using other by simp
  moreover have "\<forall>m'\<in>set (m # ms). good_member L h \<phi>' ty new s c' m'
      \<and> (live h (member_of s m') \<longrightarrow> member_target L ty new c' m' \<in> ?R \<union> R \<and> member_target L ty new c' m' \<notin> dom \<phi>)"
  proof
    fix m' assume "m' \<in> set (m # ms)"
    then consider "m' = m" | "m' \<in> set ms" by auto
    then show "good_member L h \<phi>' ty new s c' m'
        \<and> (live h (member_of s m') \<longrightarrow> member_target L ty new c' m' \<in> ?R \<union> R \<and> member_target L ty new c' m' \<notin> dom \<phi>)"
    proof cases
      case 1
      then show ?thesis using rm r by simp
    next
      case 2
      then show ?thesis using good le(2) by blast
    qed
  qed
  moreover have "member_target L ty new c' m' \<noteq> r" if "m' \<in> set ms" "live h (member_of s m')" "live h (member_of s m)" for m'
    using good that r by auto
  then have "\<forall>x\<in>set (m # ms). \<forall>y\<in>set (m # ms). live h (member_of s x) \<longrightarrow> live h (member_of s y) \<longrightarrow>
      member_target L ty new c' x = member_target L ty new c' y \<longrightarrow> x = y"
    using inj rm(2) by auto
  ultimately show ?case
    by (intro exI [of _ \<phi>'] exI [of _ c'] exI [of _ "?R \<union> R"] conjI ext c'(1))
qed

definition written ::
    "layout \<Rightarrow> heap \<Rightarrow> image \<Rightarrow> int set \<Rightarrow> SqlStatementType \<Rightarrow> int \<Rightarrow> struct_obj \<Rightarrow> struct_obj \<Rightarrow> member list \<Rightarrow> bool" where
  "written L h \<phi> R ty new s c ms \<longleftrightarrow>
     (\<forall>m\<in>set ms. good_member L h \<phi> ty new s c m \<and> (live h (member_of s m) \<longrightarrow> member_target L ty new c m \<in> R))
     \<and> (\<forall>m\<in>set ms. \<forall>m'\<in>set ms. live h (member_of s m) \<longrightarrow> live h (member_of s m') \<longrightarrow>
          member_target L ty new c m = member_target L ty new c m' \<longrightarrow> m = m')"

text \<open>A structure, opened by its copy at the end of the block, when its members have been written.\<close>

definition opened ::
    "layout \<Rightarrow> heap \<Rightarrow> bool \<Rightarrow> int set \<Rightarrow> (int \<Rightarrow> SqlStatementType) \<Rightarrow> int \<Rightarrow> SqlStatementType \<Rightarrow> int \<Rightarrow> int \<Rightarrow> struct_obj \<Rightarrow> struct_obj \<Rightarrow>
     member list \<Rightarrow> image \<Rightarrow> compress_state \<Rightarrow> image \<Rightarrow> compress_state \<Rightarrow> struct_obj \<Rightarrow> int set \<Rightarrow> bool" where
  "opened L h vp K T out ty a new s c ms \<phi> st \<phi>' st' c' R \<longleftrightarrow>
     (\<exists>st0. extends L h vp K T out {new} (\<phi>(new \<mapsto> (T_Struct ty, a))) st0 \<phi>' st' R \<and> buf st0 = (buf st)(new \<mapsto> Struct c))
     \<and> \<phi> new = None \<and> dom \<phi> = dom (buf st) \<and> buf st' new = Some (Struct c')
     \<and> c' = c\<lparr>member_of := member_of c', obj_next := obj_next c'\<rparr> \<and> link_kept L \<phi>' ty new s c c'
     \<and> (\<forall>m. m \<notin> set ms \<longrightarrow> member_of c' m = member_of c m) \<and> written L h \<phi>' R ty new s c' ms"

lemma openedD:
  assumes "opened L h vp K T out ty a new s c ms \<phi> st \<phi>' st' c' R"
  shows "inv L K T out \<phi>' st'" "\<phi> \<subseteq>\<^sub>m \<phi>'" "\<phi>' new = Some (T_Struct ty, a)" "\<phi> new = None" "buf st' new = Some (Struct c')"
    "c' = c\<lparr>member_of := member_of c', obj_next := obj_next c'\<rparr>" "link_kept L \<phi>' ty new s c c'" "written L h \<phi>' R ty new s c' ms"
    "\<forall>m. m \<notin> set ms \<longrightarrow> member_of c' m = member_of c m" "dom \<phi> = dom (buf st)"
proof -
  obtain st0 where e: "extends L h vp K T out {new} (\<phi>(new \<mapsto> (T_Struct ty, a))) st0 \<phi>' st' R" and n: "\<phi> new = None"
    using assms by (auto simp: opened_def)
  note d = extendsD [OF e]
  show "inv L K T out \<phi>' st'" by (rule d(1))
  have "\<phi> \<subseteq>\<^sub>m \<phi>(new \<mapsto> (T_Struct ty, a))" using n by (auto simp: map_le_def)
  then show "\<phi> \<subseteq>\<^sub>m \<phi>'" using d(2) by (rule map_le_trans)
  show "\<phi>' new = Some (T_Struct ty, a)" by (rule map_leD [OF d(2)]) simp
qed (use assms in \<open>auto simp: opened_def\<close>)

lemma written_mono: "written L h \<phi> R ty new s c ms \<Longrightarrow> \<phi> \<subseteq>\<^sub>m \<phi>' \<Longrightarrow> R \<subseteq> R' \<Longrightarrow> written L h \<phi>' R' ty new s c ms"
  unfolding written_def by (meson good_member_mono subsetD)

text \<open>A finished structure.\<close>

lemma struct_closed:
  assumes "opened L h vp K T out ty a new s c ms \<phi> st \<phi>1 st1 c1 R1" "extends L h vp K T out {new} \<phi>1 st1 \<phi>' st' R2"
    and "buf st' new = Some (Struct c')" "h a = Some (Struct s)" "good_struct L h vp \<phi>' ty new s c'"
    and "written L h \<phi>' (R1 \<union> R2) ty new s c' (members_of ty s)"
    and "\<And>y. target L \<phi>' (buf st') new Slot_Next = Some y \<Longrightarrow> unshared \<phi>' y \<Longrightarrow> y \<in> R2"
  shows "extends L h vp K T out {} \<phi> st \<phi>' st' {new}"
proof -
  let ?\<phi> = "\<phi>(new \<mapsto> (T_Struct ty, a))"
  from assms(1) obtain st0 where e: "extends L h vp K T out {new} ?\<phi> st0 \<phi>1 st1 R1" "buf st0 = (buf st)(new \<mapsto> Struct c)"
    by (auto simp: opened_def)
  note o = openedD [OF assms(1)]
  have "extends L h vp K T out {new} ?\<phi> st0 \<phi>' st' (R1 \<union> R2)"
    by (rule extends_trans [OF e(1) assms(2)]) simp
  note x = extendsD [OF this]
  have le: "\<phi> \<subseteq>\<^sub>m \<phi>'" using o(2) extendsD(2) [OF assms(2)] by (rule map_le_trans)
  have new: "\<phi>' new = Some (T_Struct ty, a)" by (rule map_leD [OF extendsD(2) [OF assms(2)] o(3)])
  have "framed L h {} \<phi> \<phi>' (buf st) (buf st')"
    unfolding framed_def
  proof (intro allI impI)
    fix b assume b: "buf st b \<noteq> None"
    then have "b \<noteq> new" using o(4,10) by auto
    then have "relinked L h \<phi>' b (buf st0 b) (buf st' b)" using b e(2) by (intro framedD(1) [OF x(3)]) auto
    then show "if b \<in> {} then loose L h \<phi> \<phi>' b (buf st b) (buf st' b) else relinked L h \<phi>' b (buf st b) (buf st' b)"
      using \<open>b \<noteq> new\<close> e(2) by simp
  qed
  moreover have "dom \<phi>' - dom \<phi> = insert new (dom \<phi>' - dom ?\<phi>)" using new o(4) by auto
  moreover have "placed L h vp \<phi>' (buf st') (insert new (dom \<phi>' - dom ?\<phi>)) {new}"
  proof (rule placed_insert [OF x(4) _ new])
    show "good_object L h vp \<phi>' (buf st') new (T_Struct ty) a" using assms(3-5) by simp
    show "chained L h \<phi>' (buf st') (insert new (dom \<phi>' - dom ?\<phi>)) new" using new by (simp add: chained_def)
    have m: "members_of ty c' = members_of ty s" using assms(5) by (auto simp: good_struct_def intro: members_of_copy)
    have mem: "live h (member_of s m) \<and> y = member_target L ty new c' m \<and> m \<in> set (members_of ty s) \<and> y \<in> R1 \<union> R2
        \<and> \<phi>' y = Some (T_Statement, member_of s m)"
      if "target L \<phi>' (buf st') new (Slot_Member m) = Some y" for m y
      using that new assms(3,6) m
      by (auto simp: target_def written_def good_member_def member_target_def points_to_def add.assoc split: if_splits)
    have nxt: "\<phi>' y = Some (T_Struct ty, obj_next s)" if "target L \<phi>' (buf st') new Slot_Next = Some y" for y
      using that new assms(3,5) by (auto simp: target_def good_struct_def good_next_def points_to_def add.assoc split: if_splits)
    have nv: "target L \<phi>' (buf st') new Slot_V \<noteq> Some y" for y using new assms(3) by (simp add: target_def)
    show "y \<in> R1 \<union> R2" if "target L \<phi>' (buf st') new sl = Some y" "unshared \<phi>' y" for sl y
      using that mem nv assms(7) by (cases sl) auto
    show "sl = sl'" if "target L \<phi>' (buf st') new sl = Some y" "target L \<phi>' (buf st') new sl' = Some y" "unshared \<phi>' y" for sl sl' y
      using that mem [of _ y] nxt [of y] nv assms(6) by (cases sl; cases sl') (auto simp: written_def)
  qed simp
  ultimately show ?thesis using x(1) le by (simp add: extends_def)
qed

section \<open>Structures\<close>

lemma distinct_members: "distinct (members_of ty s)"
  by (cases ty) (simp_all add: members_of_def constraint_members_def)

lemma struct_opened:
  assumes "laid_out L" "0 < out" "call_grows call1" "call_sim K out limit call1 call2" "call_image L h vp K T out limit call1 call2"
    and "compress_members L 0 call1 ty s new1 ms sta = Inr st1'" "synced K out sta st0" "bounded K limit st1'"
    and "compress_members L out call2 ty s new ms st0 = Inr st'" "inv L K T out (\<phi>(new \<mapsto> (T_Struct ty, a))) st0"
    and "buf st0 = (buf st)(new \<mapsto> Struct c)" "\<phi> new = None" "dom \<phi> = dom (buf st)" "distinct ms" "h a = Some (Struct s)"
  shows "\<exists>\<phi>' c' R. opened L h vp K T out ty a new s c ms \<phi> st \<phi>' st' c' R"
proof -
  have n: "(\<phi>(new \<mapsto> (T_Struct ty, a))) new = Some (T_Struct ty, a)" "buf st0 new = Some (Struct c)" using assms(11) by simp_all
  from members_image [OF assms(1-9) assms(10,14) n(1) assms(15) n(2)]
  obtain \<phi>' c' R where "extends L h vp K T out {new} (\<phi>(new \<mapsto> (T_Struct ty, a))) st0 \<phi>' st' R" "buf st' new = Some (Struct c')"
      "c' = c\<lparr>member_of := member_of c', obj_next := obj_next c'\<rparr>" "link_kept L \<phi>' ty new s c c'"
      "\<forall>m. m \<notin> set ms \<longrightarrow> member_of c' m = member_of c m" "written L h \<phi>' R ty new s c' ms"
    unfolding written_def by blast
  then show ?thesis using assms(11-13) unfolding opened_def by blast
qed

lemma plain_opened:
  assumes "laid_out L" "0 < out" "call_grows call1" "call_sim K out limit call1 call2" "call_image L h vp K T out limit call1 call2"
    and "compress_struct L 0 limit1 call1 ty s c1 ms st1 = Inr st1'" "synced K out st1 st" "bounded K limit st1'"
    and "compress_struct L out limit call2 ty s c ms st = Inr st'" "inv L K T out \<phi> st" "\<not> shared ty" "distinct ms" "h a = Some (Struct s)"
  shows "\<exists>\<phi>' c' R. opened L h vp K T out ty a (out + out_length st) s c ms \<phi> st \<phi>' st' c' R"
proof -
  let ?new = "out + out_length st" and ?sta = "st1\<lparr>out_length := out_length st1 + size_of L ty\<rparr>"
  have m1: "compress_members L 0 call1 ty s (out_length st1) ms ?sta = Inr st1'" using assms(6) by (simp add: compress_struct_def)
  obtain st0 where p: "put out limit (Struct c) (size_of L ty) st = Inr st0" and m2: "compress_members L out call2 ty s ?new ms st0 = Inr st'"
    using assms(9) by (auto simp: compress_struct_def Let_def bindE_Inr_iff)
  note st0 = put_run [OF p assms(2)]
  have L: "sized L" using assms(1) by (simp add: laid_out_def)
  have "bounded K limit ?sta" using members_grow [OF assms(3) m1] assms(8) by (rule bounded_grows)
  then have "synced K out ?sta st0"
    using put_sim [OF assms(7) _ size_pos(1) [OF L] assms(2), of ty limit "Struct c"] p by (auto simp: bounded_def)
  moreover have "inv L K T out (\<phi>(?new \<mapsto> (T_Struct ty, a))) st0"
    unfolding st0 using assms(11) by (intro inv_put [OF assms(1,10)]) auto
  ultimately show ?thesis
    using inv_fresh [OF assms(1,10)] inv_dom [OF assms(10)] st0
    by (intro struct_opened [OF assms(1-5) m1 _ assms(8) m2 _ _ _ _ assms(12,13)]) auto
qed

lemma shared_opened:
  assumes "laid_out L" "0 < out" "call_grows call1" "call_sim K out limit call1 call2" "call_image L h vp K T out limit call1 call2"
    and "compress_struct L 0 limit1 call1 ty s c1 ms (set_offs a MAX_BIN_DEFN_OFFSET st1) = Inr st1'" "synced K out st1 st" "bounded K limit st1'"
    and "compress_struct L out limit call2 ty s c ms (set_offs a (out + out_length st) st) = Inr st'" "inv L K T out \<phi> st"
    and "shared ty" "T a = ty" "distinct ms" "h a = Some (Struct s)" "a \<notin> maxed st1" "offs st a = MAX_BIN_DEFN_OFFSET"
  shows "\<exists>\<phi>' c' R. opened L h vp K T out ty a (out + out_length st) s c ms \<phi> st \<phi>' st' c' R"
proof -
  let ?new = "out + out_length st" and ?sta = "(set_offs a MAX_BIN_DEFN_OFFSET st1)\<lparr>out_length := out_length st1 + size_of L ty\<rparr>"
  have m1: "compress_members L 0 call1 ty s (out_length st1) ms ?sta = Inr st1'" using assms(6) by (simp add: compress_struct_def set_offs_def)
  have n: "out_length (set_offs a ?new st) = out_length st" "buf (set_offs a ?new st) = buf st" by (simp_all add: set_offs_def)
  obtain st0 where p: "put out limit (Struct c) (size_of L ty) (set_offs a ?new st) = Inr st0"
    and m2: "compress_members L out call2 ty s ?new ms st0 = Inr st'"
    using assms(9) n by (auto simp: compress_struct_def Let_def bindE_Inr_iff)
  note st0 = put_run [OF p assms(2), unfolded n]
  have L: "sized L" using assms(1) by (simp add: laid_out_def)
  have b: "bounded K limit ?sta" using members_grow [OF assms(3) m1] assms(8) by (rule bounded_grows)
  then have "a \<in> K" "out_length st1 + size_of L ty \<le> limit" by (auto simp: bounded_def maxed_def set_offs_def)
  from set_offs_sim [OF assms(7,15) this(1) assms(2) this(2) size_pos(1) [OF L], of c] p
  have "synced K out ?sta st0" by auto
  moreover have "inv L K T out (\<phi>(?new \<mapsto> (T_Struct ty, a))) st0"
    unfolding st0 using assms(11,12,16) by (intro inv_place [OF assms(1,10) _ _ assms(2)]) auto
  ultimately show ?thesis
    using inv_fresh [OF assms(1,10)] inv_dom [OF assms(10)] st0
    by (intro struct_opened [OF assms(1-5) m1 _ assms(8) m2 _ _ _ _ assms(13,14)]) auto
qed

text \<open>A structure outside of lists that has no text is finished with its members.\<close>

lemma struct_finished:
  assumes "opened L h vp K T out ty a new s c (members_of ty s) \<phi> st \<phi>' st' c' R" "h a = Some (Struct s)" "\<not> is_list ty"
    and "copy_of vp ty s c" "shared ty \<longrightarrow> obj_bin_defn_offset c \<noteq> 0" "ty = value_STATEMENT \<longrightarrow> \<not> has_text (value_type s)"
  shows "extends L h vp K T out {} \<phi> st \<phi>' st' {new}"
proof -
  note o = openedD [OF assms(1)]
  obtain ms n where c': "c' = c\<lparr>member_of := ms, obj_next := n\<rparr>" using o(6) by blast
  have "good_struct L h vp \<phi>' ty new s c'"
    using o(8) assms(3-6) by (simp add: good_struct_def good_text_def written_def c' copy_of_def)
  moreover have "target L \<phi>' (buf st') new Slot_Next = None" using o(3,5) assms(3) by (simp add: target_def)
  ultimately show ?thesis
    using struct_closed [OF assms(1) extends_refl [OF o(1)] o(5) assms(2)] o(8) by simp
qed

section \<open>Lists\<close>

lemma written_next [simp]: "written L h \<phi> R ty new s (c\<lparr>obj_next := n\<rparr>) ms = written L h \<phi> R ty new s c ms"
  by (simp add: written_def good_member_def member_target_def)

lemma copy_of_next [simp]: "copy_of vp ty s (c\<lparr>obj_next := n\<rparr>) = copy_of vp ty s c"
  by (simp add: copy_of_def)

lemma link_next_run:
  assumes "link_next L out ty new e st = Inr st'" "0 < out"
  obtains c where "buf st new = Some (Struct c)"
    "st' = st\<lparr>buf := (buf st)(new \<mapsto> Struct (c\<lparr>obj_next := A2R e (new + offset_of_next L ty)\<rparr>))\<rparr>"
  using assms by (auto simp: link_next_def elim: set_struct_run)

text \<open>An element of a list with its link, or the last one without.\<close>

lemma element_closed:
  assumes "opened L h vp K T out ty a new s c (members_of ty s) \<phi> st \<phi>1 st1 c1 R1" "extends L h vp K T out {new} \<phi>1 st1 \<phi>' st' R2"
    and "buf st' new = Some (Struct (c1\<lparr>obj_next := n\<rparr>))" "h a = Some (Struct s)" "is_list ty"
    and "copy_of vp ty s c" "shared ty \<longrightarrow> obj_bin_defn_offset c \<noteq> 0"
    and "n = 0 \<or> points_to \<phi>' (new + offset_of_next L ty) n (T_Struct ty) (obj_next s) \<and> (\<not> shared ty \<longrightarrow> new + offset_of_next L ty + n \<in> R2)"
  shows "extends L h vp K T out {} \<phi> st \<phi>' st' {new}"
proof -
  note o = openedD [OF assms(1)]
  obtain ms n' where c1: "c1 = c\<lparr>member_of := ms, obj_next := n'\<rparr>" using o(6) by blast
  have ty: "ty \<noteq> value_STATEMENT" using assms(5) by (auto simp: is_list_def)
  have w: "written L h \<phi>' (R1 \<union> R2) ty new s c1 (members_of ty s)"
    by (rule written_mono [OF o(8) extendsD(2) [OF assms(2)]]) simp
  then have "good_struct L h vp \<phi>' ty new s (c1\<lparr>obj_next := n\<rparr>)"
    using assms(5-8) ty by (auto simp: good_struct_def good_text_def written_def c1 copy_of_def good_next_def good_member_def)
  moreover have "y \<in> R2" if "target L \<phi>' (buf st') new Slot_Next = Some y" "unshared \<phi>' y" for y
  proof -
    have f: "\<phi>' new = Some (T_Struct ty, a)" by (rule map_leD [OF extendsD(2) [OF assms(2)] o(3)])
    then have y: "n \<noteq> 0" "y = new + offset_of_next L ty + n" using that(1) assms(3) next_target [of \<phi>' new ty a L "buf st'" y] by auto
    with assms(8) that(2) show ?thesis by (auto simp: points_to_def unshared_def)
  qed
  ultimately show ?thesis
    using struct_closed [OF assms(1,2,3,4)] w by simp
qed

lemma ring_step:
  assumes "ring h start (cur # xs)" "h cur = Some (Struct s)"
  shows "obj_next s = start \<Longrightarrow> xs = []" "obj_next s \<noteq> start \<Longrightarrow> \<exists>xs'. xs = obj_next s # xs' \<and> ring h start xs"
  using assms by (cases xs; auto)+

lemma get_struct_Some: "get_struct h a = Inr s \<longleftrightarrow> h a = Some (Struct s)"
  by (auto simp: get_struct_def split: option.splits obj.splits)

lemma list_image:
  assumes "laid_out L" "0 < out" "call_grows call1" "call_sim K out limit call1 call2" "call_image L h vp K T out limit call1 call2"
    and "shape_of ty = PLAIN_LIST"
  shows "compress_list L h 0 limit1 call1 ty start k cur st1 = Inr st1' \<Longrightarrow> synced K out st1 st \<Longrightarrow> bounded K limit st1' \<Longrightarrow>
    compress_list L h out limit call2 ty start k cur st = Inr st' \<Longrightarrow> inv L K T out \<phi> st \<Longrightarrow> ring h start (cur # xs) \<Longrightarrow>
    \<exists>\<phi>' bs. extends L h vp K T out {} \<phi> st \<phi>' st' {out + out_length st} \<and> hd bs = out + out_length st
      \<and> chain L h \<phi>' (buf st') ty bs (cur # xs) \<and> set bs \<subseteq> dom \<phi>' - dom \<phi> \<and> target L \<phi>' (buf st') (last bs) Slot_Next = None"
proof (induction k arbitrary: cur st1 st \<phi> xs)
  case (Suc k)
  let ?new = "out + out_length st"
  have ty: "is_list ty" "\<not> shared ty" "members_of ty s = pointer_members ty" "copy_of vp ty s (unlinked s)" for s
    using assms(6) by (auto simp: is_list_def shared_def members_of_def copy_of_def unlinked_def)
  have L: "sized L" using assms(1) by (simp add: laid_out_def)
  obtain s sta where s: "h cur = Some (Struct s)"
    and a: "compress_struct L 0 limit1 call1 ty s (unlinked s) (members_of ty s) st1 = Inr sta"
    and rest: "obj_next s = start \<and> sta = st1'
      \<or> obj_next s \<noteq> start \<and> compress_list L h 0 limit1 call1 ty start k (obj_next s) sta = Inr st1'"
    using Suc.prems(1) by (auto simp: bindE_Inr_iff get_struct_Some ty(3) split: if_splits)
  obtain stb where b: "compress_struct L out limit call2 ty s (unlinked s) (members_of ty s) st = Inr stb"
    and rest2: "obj_next s = start \<and> stb = st'
      \<or> obj_next s \<noteq> start \<and> (\<exists>stl. link_next L out ty ?new (out + out_length stb) stb = Inr stl
           \<and> compress_list L h out limit call2 ty start k (obj_next s) stl = Inr st')"
    using Suc.prems(4) s by (auto simp: bindE_Inr_iff get_struct_Some ty(3) Let_def split: if_splits)
  have "grows sta st1'" using rest list_grows [OF L assms(3)] grows_refl by blast
  then have ba: "bounded K limit sta" using Suc.prems(3) by (rule bounded_grows)
  have sb: "synced K out sta stb"
    using struct_sim [OF L assms(2-4) a Suc.prems(2) ba, of "unlinked s"] b by auto
  obtain \<phi>1 c1 R1 where o: "opened L h vp K T out ty cur ?new s (unlinked s) (members_of ty s) \<phi> st \<phi>1 stb c1 R1"
    using plain_opened [OF assms(1-5) a Suc.prems(2) ba b Suc.prems(5) ty(2) distinct_members s] by blast
  note o' = openedD [OF o]
  show ?case
  proof (cases "obj_next s = start")
    case True
    then have e: "st' = stb" "xs = []" using rest2 ring_step(1) [OF Suc.prems(6) s] by auto
    have "link_kept L \<phi>1 ty ?new s (unlinked s) c1" by (rule o'(7))
    then have n: "obj_next c1 = 0" using assms(6) by (simp add: link_kept_def unlinked_def)
    then have c1: "buf stb ?new = Some (Struct (c1\<lparr>obj_next := 0\<rparr>))" using o'(5) by (cases c1) simp
    have "extends L h vp K T out {} \<phi> st \<phi>1 stb {?new}"
      by (rule element_closed [OF o extends_refl [OF o'(1)] c1 s ty(1,4)]) (use ty(2) in auto)
    moreover have "target L \<phi>1 (buf stb) ?new Slot_Next = None" using o'(3) c1 by (simp add: target_def)
    ultimately show ?thesis
      using o'(3,4) e by (intro exI [of _ \<phi>1] exI [of _ "[?new]"]) auto
  next
    case False
    from ring_step(2) [OF Suc.prems(6) s False] obtain xs' where xs: "xs = obj_next s # xs'" "ring h start (obj_next s # xs')" by auto
    from rest2 False obtain stl where l: "link_next L out ty ?new (out + out_length stb) stb = Inr stl"
      and rl: "compress_list L h out limit call2 ty start k (obj_next s) stl = Inr st'" by auto
    let ?e = "out + out_length stb" and ?n = "A2R (out + out_length stb) (?new + offset_of_next L ty)"
    have stl: "stl = stb\<lparr>buf := (buf stb)(?new \<mapsto> Struct (c1\<lparr>obj_next := ?n\<rparr>))\<rparr>"
      by (rule link_next_run [OF l assms(2)]) (use o'(5) in simp)
    have sl: "synced K out sta stl"
      using update_buf_sim(1) [OF sb, of ?new "Struct (c1\<lparr>obj_next := ?n\<rparr>)"] o'(5) by (simp add: stl kind_at_def)
    have el: "extends L h vp K T out {?new} \<phi>1 stb \<phi>1 stl {}"
      unfolding stl by (rule extends_update [OF o'(1)]) (use o'(3,5) assms(6) in \<open>auto simp: loose_def\<close>)
    from rest False have r1: "compress_list L h 0 limit1 call1 ty start k (obj_next s) sta = Inr st1'" by blast
    have "out_length stl = out_length stb" by (simp add: stl)
    with Suc.IH [OF r1 sl Suc.prems(3) rl extendsD(1) [OF el] xs(2)] obtain \<phi>' bs where
      i: "extends L h vp K T out {} \<phi>1 stl \<phi>' st' {?e}" "hd bs = ?e" "chain L h \<phi>' (buf st') ty bs (obj_next s # xs')"
        "set bs \<subseteq> dom \<phi>' - dom \<phi>1" "target L \<phi>' (buf st') (last bs) Slot_Next = None" by auto
    note i' = extendsD [OF i(1)]
    have "extends L h vp K T out {?new} \<phi>1 stb \<phi>' st' ({} \<union> {?e})"
      using o'(3) by (intro extends_trans [OF el extends_weaken [OF i(1)]]) auto
    then have x: "extends L h vp K T out {?new} \<phi>1 stb \<phi>' st' {?e}" by simp
    have new: "\<phi>' ?new = Some (T_Struct ty, cur)" by (rule map_leD [OF i'(2) o'(3)])
    have "relinked L h \<phi>' ?new (buf stl ?new) (buf st' ?new)" by (rule framedD(1) [OF i'(3)]) (simp_all add: stl)
    then have c': "buf st' ?new = Some (Struct (c1\<lparr>obj_next := ?n\<rparr>))"
      by (cases rule: relinkedE) (use new assms(6) in \<open>auto simp: stl\<close>)
    have "?e \<in> set bs" using chain_head [OF i(3)] i(2) hd_in_set [of bs] by simp
    then have e: "\<phi>' ?e = Some (T_Struct ty, obj_next s)" "?e \<in> dom \<phi>' - dom \<phi>1" using chain_head [OF i(3)] i(2,4) by auto
    then have "?e \<noteq> ?new" using o'(3) by auto
    from points_to_A2R [OF assms(1) i'(1) new e(1) _ _ this, of "offset_of_next L ty"] assms(1)
    have p: "points_to \<phi>' (?new + offset_of_next L ty) ?n (T_Struct ty) (obj_next s)" "?new + offset_of_next L ty + ?n = ?e"
      by (auto simp: laid_out_def)
    have "extends L h vp K T out {} \<phi> st \<phi>' st' {?new}"
      by (rule element_closed [OF o x c' s ty(1,4)]) (use ty(2) p in auto)
    moreover have t: "target L \<phi>' (buf st') ?new Slot_Next = Some ?e"
      using next_target [of \<phi>' ?new ty cur, OF new] c' ty(1) p by (auto simp: points_to_def)
    obtain b bs' where bs: "bs = b # bs'" using chain_head [OF i(3)] by (cases bs) auto
    then have "chain L h \<phi>' (buf st') ty (?new # bs) (cur # xs)" using i(2,3) new s t xs(1) by simp
    moreover have "set (?new # bs) \<subseteq> dom \<phi>' - dom \<phi>"
    proof -
      have "set bs \<subseteq> dom \<phi>' - dom \<phi>" using i(4) map_le_implies_dom_le [OF o'(2)] by blast
      then show ?thesis using new o'(4) by auto
    qed
    moreover have "last (?new # bs) = last bs" using bs by simp
    ultimately show ?thesis using i(5) by (intro exI [of _ \<phi>'] exI [of _ "?new # bs"]) simp
  qed
qed simp

section \<open>Lists whose elements are shared\<close>

lemma placed_roots: "placed L h vp \<phi> B N R \<Longrightarrow> placed L h vp \<phi> B N {}"
  unfolding placed_def forest_def by simp

lemma extends_roots: "extends L h vp K T out X \<phi> st \<phi>' st' R \<Longrightarrow> extends L h vp K T out X \<phi> st \<phi>' st' {}"
  unfolding extends_def using placed_roots by blast

lemma ring_struct: "ring h start (a # xs) \<Longrightarrow> \<exists>s. h a = Some (Struct s)"
  by (auto split: option.splits obj.splits)

lemma ring_unique: "ring h start (a # xs) \<Longrightarrow> ring h start (a # ys) \<Longrightarrow> xs = ys"
proof (induction xs arbitrary: a ys)
  case Nil
  obtain s where s: "h a = Some (Struct s)" using ring_struct [OF Nil.prems(1)] by blast
  then have "obj_next s = start" using Nil.prems(1) by simp
  then show ?case using ring_step(1) [OF Nil.prems(2) s] by simp
next
  case (Cons b xs)
  obtain s where s: "h a = Some (Struct s)" using ring_struct [OF Cons.prems(1)] by blast
  then have b: "obj_next s = b" "b \<noteq> start" "ring h start (b # xs)" using Cons.prems(1) by auto
  then obtain ys' where "ys = b # ys'" "ring h start (b # ys')" using ring_step(2) [OF Cons.prems(2) s] by auto
  with Cons.IH b(3) show ?case by blast
qed

lemma ring_next_differs:
  assumes "ring h start (cur # b # xs)"
  shows "b \<noteq> cur"
proof
  assume "b = cur"
  moreover obtain s where "h cur = Some (Struct s)" using ring_struct [OF assms] by blast
  ultimately have "ring h start (cur # cur # xs)" "ring h start (cur # xs)" using assms by auto
  from ring_unique [OF this] show False by (metis not_Cons_self)
qed

text \<open>Linking an element: the link is right as soon as its target has been written.\<close>

lemma link_extends:
  assumes "laid_out L" "extends L h vp K T out X \<phi> stl \<phi>' st' R"
    and "stl = st\<lparr>buf := (buf st)(new \<mapsto> Struct (c\<lparr>obj_next := A2R e (new + offset_of_next L ty)\<rparr>))\<rparr>"
    and "\<phi> new = Some (T_Struct ty, a)" "shape_of ty = SHARED_LIST" "h a = Some (Struct s)" "buf st new = Some (Struct c)"
    and "\<phi>' e = Some (T_Struct ty, obj_next s)" "e \<noteq> new" "new \<notin> X"
  shows "extends L h vp K T out X \<phi> st \<phi>' st' R" "target L \<phi>' (buf st') new Slot_Next = Some e"
proof -
  note x = extendsD [OF assms(2)]
  let ?at = "new + offset_of_next L ty"
  let ?n = "A2R e ?at"
  have new: "\<phi>' new = Some (T_Struct ty, a)" by (rule map_leD [OF x(2) assms(4)])
  have p: "points_to \<phi>' ?at ?n (T_Struct ty) (obj_next s)"
    using points_to_A2R(1) [OF assms(1) x(1) new assms(8) _ _ assms(9), of "offset_of_next L ty"] assms(1) by (auto simp: laid_out_def)
  have "relinked L h \<phi>' new (Some (Struct (c\<lparr>obj_next := ?n\<rparr>))) (buf st' new)"
    using framedD(1) [OF x(3), of new] assms(3,10) by simp
  then obtain n where n: "buf st' new = Some (Struct (c\<lparr>obj_next := n\<rparr>))" "points_to \<phi>' ?at n (T_Struct ty) (obj_next s)"
    by (rule relinked_struct [where \<phi> = \<phi>' and b = new and h = h, OF _ new assms(6)]) (use p in \<open>auto simp: link_kept_def\<close>)
  have "relinked L h \<phi>' new (buf st new) (buf st' new)"
    using new assms(5-7) n unfolding relinked_def by blast
  then have "framed L h X \<phi> \<phi>' (buf st) (buf st')"
    using x(3) assms(3,10) unfolding framed_def by (auto split: if_splits)
  then show "extends L h vp K T out X \<phi> st \<phi>' st' R" using x by (simp add: extends_def)
  have "?at + n = e"
    using n(2) singleD [OF inv_single [OF x(1)] _ assms(8)] assms(5) by (auto simp: points_to_def)
  then show "target L \<phi>' (buf st') new Slot_Next = Some e"
    using next_target [of \<phi>' new ty a, OF new] n assms(5) by (auto simp: points_to_def)
qed

text \<open>Where the copy of an element is or will be.\<close>

definition place :: "int \<Rightarrow> compress_state \<Rightarrow> int \<Rightarrow> int" where
  "place out st a = (if offs st a = MAX_BIN_DEFN_OFFSET then out + out_length st else offs st a)"

lemma first_visit_image:
  assumes "laid_out L" "0 < out" "call_grows call1" "call_sim K out limit call1 call2" "call_image L h vp K T out limit call1 call2"
    and "compress_struct L 0 limit1 call1 ty s c1 (members_of ty s) (set_offs a MAX_BIN_DEFN_OFFSET st1) = Inr st1'" "synced K out st1 st"
    and "bounded K limit st1'" "compress_struct L out limit call2 ty s c (members_of ty s) (set_offs a (out + out_length st) st) = Inr st'"
    and "inv L K T out \<phi> st" "shared ty" "T a = ty" "h a = Some (Struct s)" "a \<notin> maxed st1" "offs st a = MAX_BIN_DEFN_OFFSET"
    and "copy_of vp ty s c" "obj_bin_defn_offset c \<noteq> 0" "is_list ty \<longrightarrow> obj_next c = 0"
  shows "\<exists>\<phi>'. extends L h vp K T out {} \<phi> st \<phi>' st' {out + out_length st} \<and> \<phi>' (out + out_length st) = Some (T_Struct ty, a)"
proof -
  let ?new = "out + out_length st"
  obtain \<phi>' c' R where o: "opened L h vp K T out ty a ?new s c (members_of ty s) \<phi> st \<phi>' st' c' R"
    using shared_opened [OF assms(1-9,10-12) distinct_members assms(13-15)] by blast
  note o' = openedD [OF o]
  have ty: "ty \<noteq> value_STATEMENT" using assms(11) by (auto simp: shared_def)
  have "extends L h vp K T out {} \<phi> st \<phi>' st' {?new}"
  proof (cases "is_list ty")
    case True
    have "buf st' ?new = Some (Struct (c'\<lparr>obj_next := obj_next c'\<rparr>))" using o'(5) by simp
    moreover have "obj_next c' = 0 \<or> points_to \<phi>' (?new + offset_of_next L ty) (obj_next c') (T_Struct ty) (obj_next s)"
      using o'(7) assms(18) True by (auto simp: link_kept_def)
    ultimately show ?thesis
      using assms(11,16,17) by (intro element_closed [OF o extends_refl [OF o'(1)] _ assms(13) True]) auto
  next
    case False
    then show ?thesis using struct_finished [OF o assms(13)] assms(16,17) ty by auto
  qed
  then show ?thesis using o'(3) by blast
qed

lemma statement_kept:
  assumes "extends L h vp K T out X \<phi> st \<phi>' st' R" "buf st b = Some (Statement t v d)" "b \<notin> X"
  shows "buf st' b = Some (Statement t v d)"
proof -
  have "relinked L h \<phi>' b (Some (Statement t v d)) (buf st' b)"
    using framedD(1) [OF extendsD(3) [OF assms(1)], of b] assms(2,3) by simp
  then show ?thesis by (cases rule: relinkedE) auto
qed

text \<open>The statement in progress is made to point to a copy that exists.\<close>

lemma set_v_extends:
  assumes "set_v L out b y st = Inr st'" "0 < out" "inv L K T out \<phi> st" "buf st b = Some (Statement t v d)"
  shows "extends L h vp K T out {b} \<phi> st \<phi> st' {}" "buf st' b = Some (Statement t (A2R y (b + offset_of_v L)) d)"
proof -
  have st': "st' = st\<lparr>buf := (buf st)(b \<mapsto> Statement t (A2R y (b + offset_of_v L)) d)\<rparr>"
    by (rule set_v_run [OF assms(1,2)]) (use assms(4) in simp)
  show "extends L h vp K T out {b} \<phi> st \<phi> st' {}"
    unfolding st' by (rule extends_update [OF assms(3)]) (use assms(4) in \<open>auto simp: loose_def\<close>)
  show "buf st' b = Some (Statement t (A2R y (b + offset_of_v L)) d)" by (simp add: st')
qed

lemma element_image:
  assumes "laid_out L" "0 < out" "call_grows call1" "call_sim K out limit call1 call2" "call_image L h vp K T out limit call1 call2"
    and "shape_of ty = SHARED_LIST" "T cur = ty" "h cur = Some (Struct s)"
    and "compress_element L 0 limit1 call1 ty new1 start cur s st1 = Inr (n1, sta)" "synced K out st1 st" "bounded K limit sta"
    and "compress_element L out limit call2 ty new_stmt start cur s st = Inr (new, ste)" "inv L K T out \<phi> st"
    and "buf st new_stmt = Some (Statement t v d)"
  shows "new = place out st cur \<and> (\<exists>\<phi>'. extends L h vp K T out {new_stmt} \<phi> st \<phi>' ste {} \<and> \<phi>' new = Some (T_Struct ty, cur))
    \<and> buf ste new_stmt = Some (Statement t (if cur = start \<and> offs st cur \<noteq> MAX_BIN_DEFN_OFFSET
        then A2R (offs st cur) (new_stmt + offset_of_v L) else v) d)"
proof (cases "cur \<in> maxed st1")
  case True
  then have "sta = st1" using assms(9) by (simp add: compress_element_def maxed_iff)
  then have "cur \<notin> maxed st" "cur \<in> K" using visited_iff(1) [OF assms(10,11), of cur] True assms(11) by (auto simp: bounded_def)
  then have o: "offs st cur \<noteq> MAX_BIN_DEFN_OFFSET" "\<phi> (offs st cur) = Some (T_Struct ty, cur)"
    using inv_covered [OF assms(13)] assms(7) by (auto simp: maxed_iff)
  have r: "new = offs st cur" "(if cur = start then set_v L out new_stmt (offs st cur) st else Inr st) = Inr ste"
    using assms(2,12) o(1) by (auto simp: compress_element_def map_sum_Inr Let_def)
  show ?thesis
  proof (cases "cur = start")
    case True
    then have "set_v L out new_stmt (offs st cur) st = Inr ste" using r(2) by simp
    from set_v_extends(1) [OF this assms(2,13,14), of h vp] set_v_extends(2) [OF this assms(2,13,14)] show ?thesis using r(1) o True by (auto simp: place_def)
  next
    case False
    then have "ste = st" using r(2) by simp
    then show ?thesis using r(1) o False assms(14) extends_refl [OF assms(13), of h vp "{new_stmt}"] by (auto simp: place_def)
  qed
next
  case False
  have ty: "members_of ty s = pointer_members ty" "copy_of vp ty s (unlinked (s\<lparr>obj_bin_defn_offset := x\<rparr>))" "shared ty" for x
    using assms(6) by (auto simp: members_of_def copy_of_def unlinked_def shared_def)
  have L: "sized L" using assms(1) by (simp add: laid_out_def)
  have a: "compress_struct L 0 limit1 call1 ty s s (members_of ty s) (set_offs cur MAX_BIN_DEFN_OFFSET st1) = Inr sta"
    using assms(9) False by (auto simp: compress_element_def maxed_iff map_sum_Inr ty(1))
  have "cur \<in> maxed st" using False visited_iff(1) [OF assms(10,11) maxed_after_struct [OF L assms(3) a]] by simp
  then have o: "offs st cur = MAX_BIN_DEFN_OFFSET" by (simp add: maxed_iff)
  let ?c = "unlinked (s\<lparr>obj_bin_defn_offset := out + out_length st\<rparr>)"
  have r: "new = out + out_length st"
      "compress_struct L out limit call2 ty s ?c (members_of ty s) (set_offs cur (out + out_length st) st) = Inr ste"
    using assms(2,12) o by (auto simp: compress_element_def map_sum_Inr Let_def ty(1))
  have "0 \<le> out_length st" using assms(13) by (simp add: inv_def)
  then obtain \<phi>' where x: "extends L h vp K T out {} \<phi> st \<phi>' ste {new}" "\<phi>' new = Some (T_Struct ty, cur)"
    using first_visit_image [OF assms(1-5) a assms(10,11) r(2) assms(13) ty(3) assms(7,8) False o ty(2)] r(1) assms(2)
    by (auto simp: unlinked_def)
  have "extends L h vp K T out {new_stmt} \<phi> st \<phi>' ste {}"
    by (rule extends_roots [OF extends_weaken [OF x(1)]]) simp
  moreover have "buf ste new_stmt = Some (Statement t v d)" by (rule statement_kept [OF x(1) assms(14)]) simp
  ultimately show ?thesis using x(2) r(1) o by (auto simp: place_def)
qed

lemma shared_list_image:
  assumes "laid_out L" "0 < out" "call_grows call1" "call_sim K out limit call1 call2" "call_image L h vp K T out limit call1 call2"
    and "shape_of ty = SHARED_LIST" "typed h T"
  shows "compress_shared_list L h 0 limit1 call1 ty new1 start k cur st1 = Inr st1' \<Longrightarrow> synced K out st1 st \<Longrightarrow> bounded K limit st1' \<Longrightarrow>
    compress_shared_list L h out limit call2 ty new_stmt start k cur st = Inr st' \<Longrightarrow> inv L K T out \<phi> st \<Longrightarrow>
    buf st new_stmt = Some (Statement t v d) \<Longrightarrow> T cur = ty \<Longrightarrow> ring h start (cur # xs) \<Longrightarrow>
    \<exists>\<phi>' bs. extends L h vp K T out {new_stmt} \<phi> st \<phi>' st' {} \<and> hd bs = place out st cur \<and> chain L h \<phi>' (buf st') ty bs (cur # xs)
      \<and> buf st' new_stmt = Some (Statement t (if cur = start \<and> offs st cur \<noteq> MAX_BIN_DEFN_OFFSET
          then A2R (offs st cur) (new_stmt + offset_of_v L) else v) d)"
proof (induction k arbitrary: cur st1 st \<phi> xs v)
  case (Suc k)
  have L: "sized L" using assms(1) by (simp add: laid_out_def)
  obtain s n1 sta where s: "h cur = Some (Struct s)"
    and a: "compress_element L 0 limit1 call1 ty new1 start cur s st1 = Inr (n1, sta)"
    and rest: "obj_next s = start \<and> sta = st1'
      \<or> obj_next s \<noteq> start \<and> compress_shared_list L h 0 limit1 call1 ty new1 start k (obj_next s) sta = Inr st1'"
    using Suc.prems(1) by (auto simp: bindE_Inr_iff get_struct_Some split: if_splits)
  obtain new ste where b: "compress_element L out limit call2 ty new_stmt start cur s st = Inr (new, ste)"
    and rest2: "obj_next s = start \<and> ste = st'
      \<or> obj_next s \<noteq> start \<and> (\<exists>stl. link_next L out ty new (place out ste (obj_next s)) ste = Inr stl
           \<and> compress_shared_list L h out limit call2 ty new_stmt start k (obj_next s) stl = Inr st')"
    using Suc.prems(4) s by (auto simp: bindE_Inr_iff get_struct_Some place_def split: if_splits)
  have "grows sta st1'" using rest shared_list_grows [OF L assms(3)] grows_refl by blast
  then have ba: "bounded K limit sta" using Suc.prems(3) by (rule bounded_grows)
  have "kind_at st new_stmt = Some K_Statement" using Suc.prems(6) by (simp add: kind_at_def)
  from element_sim [OF L assms(2-4) a Suc.prems(2) ba this] b have sb: "synced K out sta ste" by auto
  let ?v = "if cur = start \<and> offs st cur \<noteq> MAX_BIN_DEFN_OFFSET then A2R (offs st cur) (new_stmt + offset_of_v L) else v"
  obtain \<phi>1 where new: "new = place out st cur" and x: "extends L h vp K T out {new_stmt} \<phi> st \<phi>1 ste {}"
    and f: "\<phi>1 new = Some (T_Struct ty, cur)" and bs: "buf ste new_stmt = Some (Statement t ?v d)"
    using element_image [OF assms(1-6) Suc.prems(7) s a Suc.prems(2) ba b Suc.prems(5,6)] by blast
  show ?case
  proof (cases "obj_next s = start")
    case True
    then have "st' = ste" "xs = []" using rest2 ring_step(1) [OF Suc.prems(8) s] by auto
    then show ?thesis using x f bs new by (intro exI [of _ \<phi>1] exI [of _ "[new]"]) simp
  next
    case False
    from ring_step(2) [OF Suc.prems(8) s False] obtain xs' where xs: "xs = obj_next s # xs'" "ring h start (obj_next s # xs')" by auto
    let ?e = "place out ste (obj_next s)"
    from rest2 False obtain stl where l: "link_next L out ty new ?e ste = Inr stl"
      and rl: "compress_shared_list L h out limit call2 ty new_stmt start k (obj_next s) stl = Inr st'" by auto
    obtain c where c: "buf ste new = Some (Struct c)"
      and stl: "stl = ste\<lparr>buf := (buf ste)(new \<mapsto> Struct (c\<lparr>obj_next := A2R ?e (new + offset_of_next L ty)\<rparr>))\<rparr>"
      using link_next_run [OF l assms(2)] by blast
    have nn: "new \<noteq> new_stmt" using c bs by auto
    have sl: "synced K out sta stl" using update_buf_sim(1) [OF sb, of new "Struct _"] c by (simp add: stl kind_at_def)
    have il: "inv L K T out \<phi>1 stl" unfolding stl by (rule inv_buf [OF extendsD(1) [OF x]]) (use c in auto)
    have bl: "buf stl new_stmt = Some (Statement t ?v d)" using bs nn by (simp add: stl)
    have Tn: "T (obj_next s) = ty" using assms(6,7) Suc.prems(7) s by (auto simp: typed_def)
    from rest False have r1: "compress_shared_list L h 0 limit1 call1 ty new1 start k (obj_next s) sta = Inr st1'" by blast
    have "place out stl (obj_next s) = ?e" by (simp add: place_def stl)
    with Suc.IH [OF r1 sl Suc.prems(3) rl il bl Tn xs(2)] False
    obtain \<phi>' ds where i: "extends L h vp K T out {new_stmt} \<phi>1 stl \<phi>' st' {}" "hd ds = ?e" "chain L h \<phi>' (buf st') ty ds (obj_next s # xs')"
        "buf st' new_stmt = Some (Statement t ?v d)" by auto
    have e: "\<phi>' ?e = Some (T_Struct ty, obj_next s)" using chain_head [OF i(3)] i(2) by simp
    have "?e \<noteq> new"
      using e map_leD [OF extendsD(2) [OF i(1)] f] ring_next_differs [of h start cur "obj_next s" xs'] Suc.prems(8) xs(1) by auto
    note lx = link_extends [OF assms(1) i(1) stl f assms(6) s c e this]
    have "new_stmt \<in> dom \<phi>" using Suc.prems(6) inv_dom [OF Suc.prems(5)] by auto
    then have "extends L h vp K T out {new_stmt} \<phi> st \<phi>' st' ({} \<union> {})"
      by (intro extends_trans [OF x lx(1)]) (use nn in auto)
    moreover have "chain L h \<phi>' (buf st') ty (new # ds) (cur # xs)"
      using i(2,3) lx(2) nn s xs(1) map_leD [OF extendsD(2) [OF i(1)] f] chain_head [OF i(3)] by (cases ds) auto
    ultimately show ?thesis using i(4) new by (intro exI [of _ \<phi>'] exI [of _ "new # ds"]) simp
  qed
qed simp

section \<open>Values\<close>

lemma extends_text:
  assumes "laid_out L" "inv L K T out \<phi> st" "h a = Some (Text x)" "out + out_length st = b"
  shows "extends L h vp K T out X \<phi> st (\<phi>(b \<mapsto> (T_Text, a)))
    (st\<lparr>buf := (buf st)(b \<mapsto> Text x), out_length := out_length st + (int (length x) + 1)\<rparr>) {}"
proof -
  let ?\<phi> = "\<phi>(b \<mapsto> (T_Text, a))" and ?B = "(buf st)(b \<mapsto> Text x)"
  have n: "\<phi> b = None" using inv_fresh [OF assms(1,2)] assms(4) by simp
  have le: "\<phi> \<subseteq>\<^sub>m ?\<phi>" using n by (auto simp: map_le_def)
  have d: "dom \<phi> = dom (buf st)" by (rule inv_dom [OF assms(2)])
  then have "\<exists>y. buf st c = Some y \<Longrightarrow> c \<noteq> b" for c using n by auto
  then have "framed L h X \<phi> ?\<phi> (buf st) ?B" using n by (auto simp: framed_def relinked_def loose_def)
  moreover have "target L ?\<phi> ?B b sl = None" for sl by (cases sl) (simp_all add: target_def)
  then have "placed L h vp ?\<phi> ?B {b} {}"
    using assms(3) by (auto simp: placed_def forest_def chained_def)
  moreover have "dom ?\<phi> - dom \<phi> = {b}" using n by auto
  moreover have "inv L K T out ?\<phi> (st\<lparr>buf := ?B, out_length := out_length st + (int (length x) + 1)\<rparr>)"
    by (rule inv_put [OF assms(1,2) _ _ assms(4)]) simp_all
  ultimately show ?thesis using le by (simp add: extends_def)
qed

text \<open>The copy of a structure at the end of the block, before anything else is written.\<close>

lemma just_opened:
  assumes "laid_out L" "0 < out" "put out limit (Struct c) (size_of L ty) st = Inr st0" "inv L K T out \<phi> st" "\<not> shared ty"
  shows "opened L h vp K T out ty a (out + out_length st) s c [] \<phi> st (\<phi>(out + out_length st \<mapsto> (T_Struct ty, a))) st0 c {}"
proof -
  note st0 = put_run [OF assms(3,2)]
  have "inv L K T out (\<phi>(out + out_length st \<mapsto> (T_Struct ty, a))) st0"
    unfolding st0 using assms(5) by (intro inv_put [OF assms(1,4)]) auto
  then have "extends L h vp K T out {out + out_length st} (\<phi>(out + out_length st \<mapsto> (T_Struct ty, a))) st0
      (\<phi>(out + out_length st \<mapsto> (T_Struct ty, a))) st0 {}"
    by (rule extends_refl)
  moreover have "buf st0 = (buf st)(out + out_length st \<mapsto> Struct c)" by (simp add: st0)
  ultimately show ?thesis
    using inv_fresh [OF assms(1,4)] inv_dom [OF assms(4)] unfolding opened_def
    by (intro conjI exI [of _ st0]) (simp_all add: link_kept_def written_def)
qed

lemma text_image:
  assumes "laid_out L" "0 < out" "put out limit (Struct s) (size_of L value_STATEMENT) st = Inr st0" "inv L K T out \<phi> st"
    and "compress_text L h out limit vp s (out + out_length st) st0 = Inr st'" "h a = Some (Struct s)" "has_text (value_type s)"
  shows "\<exists>\<phi>'. extends L h vp K T out {} \<phi> st \<phi>' st' {out + out_length st} \<and> \<phi>' (out + out_length st) = Some (T_Struct value_STATEMENT, a)"
proof -
  let ?ty = "value_STATEMENT" and ?new = "out + out_length st"
  let ?\<phi>1 = "\<phi>(?new \<mapsto> (T_Struct ?ty, a))" and ?at = "?new + offset_of L value_STATEMENT M_string_literal"
  have o: "opened L h vp K T out ?ty a ?new s s [] \<phi> st ?\<phi>1 st0 s {}"
    by (rule just_opened [OF assms(1-4)]) (simp add: shared_def)
  note o' = openedD [OF o]
  let ?b = "out + out_length st0" and ?l = "member_of s M_string_literal"
  let ?f = "\<lambda>c. c\<lparr>member_of := (member_of c)(M_string_literal := A2R ?b ?at), parameter_index := if vp then 0 else parameter_index c\<rparr>"
  obtain x sta where x: "h ?l = Some (Text x)" and p: "put out limit (Text x) (int (length x) + 1) st0 = Inr sta"
    and f: "set_struct out ?new ?f sta = Inr st'"
    using assms(5) by (auto simp: compress_text_def Let_def bindE_Inr_iff split: option.splits obj.splits)
  let ?\<phi>2 = "?\<phi>1(?b \<mapsto> (T_Text, ?l))"
  note sta = put_run [OF p assms(2)]
  have n: "?\<phi>1 ?b = None" by (rule inv_fresh [OF assms(1) o'(1)])
  then have nb: "?b \<noteq> ?new" by auto
  have e1: "extends L h vp K T out {?new} ?\<phi>1 st0 ?\<phi>2 sta {}" unfolding sta by (rule extends_text [where h = h and a = ?l, OF assms(1) o'(1) x refl])
  have st': "st' = sta\<lparr>buf := (buf sta)(?new \<mapsto> Struct (?f s))\<rparr>"
    by (rule set_struct_run [OF f assms(2)]) (use o'(5) nb in \<open>simp add: sta\<close>)
  have e2: "extends L h vp K T out {?new} ?\<phi>2 sta ?\<phi>2 st' {}"
    unfolding st' by (rule extends_update [OF extendsD(1) [OF e1]]) (use o'(5) nb in \<open>auto simp: sta intro: loose_same_next\<close>)
  have "extends L h vp K T out {?new} ?\<phi>1 st0 ?\<phi>2 st' ({} \<union> {})" by (rule extends_trans [OF e1 e2]) simp
  then have e: "extends L h vp K T out {?new} ?\<phi>1 st0 ?\<phi>2 st' {}" by simp
  have new: "?\<phi>2 ?new = Some (T_Struct ?ty, a)" "?\<phi>2 ?b = Some (T_Text, ?l)" using nb by auto
  have off: "0 \<le> offset_of L ?ty M_string_literal" "offset_of L ?ty M_string_literal < extent L (T_Struct ?ty)"
    using assms(1) by (auto simp: laid_out_def)
  have "points_to ?\<phi>2 ?at (A2R ?b ?at) T_Text ?l"
    by (rule points_to_A2R(1) [where \<phi> = ?\<phi>2, OF assms(1) extendsD(1) [OF e] new off nb])
  moreover have m: "members_of ?ty s = []" using assms(7) by (auto simp: members_of_def has_text_def)
  moreover have "value_type s \<noteq> COERCE_TYPE" using assms(7) by (auto simp: has_text_def)
  ultimately have "good_struct L h vp ?\<phi>2 ?ty ?new s (?f s)"
    using assms(7) by (auto simp: good_struct_def good_text_def copy_of_def is_list_def shared_def)
  moreover have c': "buf st' ?new = Some (Struct (?f s))" by (simp add: st')
  moreover have "target L ?\<phi>2 (buf st') ?new Slot_Next = None" using new(1) c' by (simp add: target_def is_list_def)
  ultimately have "extends L h vp K T out {} \<phi> st ?\<phi>2 st' {?new}"
    using m by (intro struct_closed [OF o e c' assms(6)]) (auto simp: written_def)
  then show ?thesis using new(1) by blast
qed

lemma coerce_image:
  assumes "laid_out L" "0 < out" "call_grows call1" "call_sim K out limit call1 call2" "call_image L h vp K T out limit call1 call2"
    and "compress_members L 0 call1 value_STATEMENT s new1 [M_coerce_target] sta = Inr st1'" "bounded K limit st1'"
    and "put out limit (Struct s) (size_of L value_STATEMENT) st = Inr st0" "synced K out sta st0" "inv L K T out \<phi> st"
    and "bindE (if vp then set_struct out (out + out_length st) (\<lambda>c. c\<lparr>scale_parameter_index := 0, size_or_precision_parameter_index := 0\<rparr>) st0
           else Inr st0) (compress_members L out call2 value_STATEMENT s (out + out_length st) [M_coerce_target]) = Inr st'"
    and "h a = Some (Struct s)" "value_type s = COERCE_TYPE"
  shows "\<exists>\<phi>'. extends L h vp K T out {} \<phi> st \<phi>' st' {out + out_length st} \<and> \<phi>' (out + out_length st) = Some (T_Struct value_STATEMENT, a)"
proof -
  let ?ty = "value_STATEMENT" and ?new = "out + out_length st"
  let ?c = "if vp then s\<lparr>scale_parameter_index := 0, size_or_precision_parameter_index := 0\<rparr> else s"
  let ?\<phi>1 = "\<phi>(?new \<mapsto> (T_Struct ?ty, a))"
  have o: "opened L h vp K T out ?ty a ?new s s [] \<phi> st ?\<phi>1 st0 s {}"
    by (rule just_opened [OF assms(1,2,8,10)]) (simp add: shared_def)
  note o' = openedD [OF o] and st0 = put_run [OF assms(8,2)]
  obtain stc where c: "(if vp then set_struct out ?new (\<lambda>c. c\<lparr>scale_parameter_index := 0, size_or_precision_parameter_index := 0\<rparr>) st0
      else Inr st0) = Inr stc" and m2: "compress_members L out call2 ?ty s ?new [M_coerce_target] stc = Inr st'"
    using assms(11) by (auto simp: bindE_Inr_iff)
  have stc: "stc = st0\<lparr>buf := (buf st)(?new \<mapsto> Struct ?c)\<rparr>"
  proof (cases vp)
    case True
    then show ?thesis using c o'(5) assms(2) by (auto simp: st0 elim!: set_struct_run)
  next
    case False
    then show ?thesis using c by (auto simp: st0)
  qed
  have "synced K out sta stc"
    using update_buf_sim(1) [OF assms(9), of ?new "Struct ?c"] o'(5) by (simp add: stc kind_at_def st0)
  moreover have "inv L K T out ?\<phi>1 stc" unfolding stc by (rule inv_buf [OF o'(1)]) (simp add: st0)
  moreover have "buf stc = (buf st)(?new \<mapsto> Struct ?c)" by (simp add: stc)
  ultimately obtain \<phi>' c' R where op: "opened L h vp K T out ?ty a ?new s ?c [M_coerce_target] \<phi> st \<phi>' st' c' R"
    using struct_opened [where st = st and \<phi> = \<phi> and c = ?c, OF assms(1-6) _ assms(7) m2 _ _ o'(4,10) _ assms(12)] by auto
  have m: "members_of ?ty s = [M_coerce_target]" using assms(13) by (simp add: members_of_def)
  have "extends L h vp K T out {} \<phi> st \<phi>' st' {?new}"
    by (rule struct_finished [OF op [folded m] assms(12)])
      (use assms(13) in \<open>auto simp: is_list_def shared_def copy_of_def has_text_def\<close>)
  then show ?thesis using openedD(3) [OF op] by blast
qed

lemma value_image:
  assumes "laid_out L" "0 < out" "call_grows call1" "call_sim K out limit call1 call2" "call_image L h vp K T out limit call1 call2"
    and "compress_value L h 0 limit1 vp call1 s st1 = Inr st1'" "synced K out st1 st" "bounded K limit st1'"
    and "compress_value L h out limit vp call2 s st = Inr st'" "inv L K T out \<phi> st" "h a = Some (Struct s)"
  shows "\<exists>\<phi>'. extends L h vp K T out {} \<phi> st \<phi>' st' {out + out_length st} \<and> \<phi>' (out + out_length st) = Some (T_Struct value_STATEMENT, a)"
proof -
  let ?ty = "value_STATEMENT" and ?new = "out + out_length st"
  let ?sta = "st1\<lparr>out_length := out_length st1 + size_of L value_STATEMENT\<rparr>"
  obtain st0 where p: "put out limit (Struct s) (size_of L ?ty) st = Inr st0" using assms(9) by (auto simp: compress_value_def Let_def bindE_Inr_iff)
  have ty: "\<not> shared ?ty" by (simp add: shared_def)
  have L: "sized L" using assms(1) by (simp add: laid_out_def)
  consider (calc) "value_type s = CALCULATED_VALUE" | (coerce) "value_type s = COERCE_TYPE"
    | (literal) "value_type s \<noteq> CALCULATED_VALUE" "value_type s \<noteq> COERCE_TYPE" "has_text (value_type s)"
    using assms(9) p by (auto simp: compress_value_def Let_def split: if_splits)
  then show ?thesis
  proof cases
    case calc
    have r: "compress_struct L 0 limit1 call1 ?ty s s [M_calculated] st1 = Inr st1'" "compress_struct L out limit call2 ?ty s s [M_calculated] st = Inr st'"
      using assms(6,9) calc by (simp_all add: compress_value_def compress_struct_def Let_def del: compress_members.simps)
    have "distinct [M_calculated]" by simp
    from plain_opened [OF assms(1-5) r(1) assms(7,8) r(2) assms(10) ty this assms(11)]
    obtain \<phi>' c' R where o: "opened L h vp K T out ?ty a ?new s s [M_calculated] \<phi> st \<phi>' st' c' R" by blast
    have m: "members_of ?ty s = [M_calculated]" using calc by (simp add: members_of_def)
    have "extends L h vp K T out {} \<phi> st \<phi>' st' {?new}"
      by (rule struct_finished [OF o [folded m] assms(11)])
        (use calc in \<open>auto simp: is_list_def shared_def copy_of_def has_text_def\<close>)
    then show ?thesis using openedD(3) [OF o] by blast
  next
    case coerce
    have m1: "compress_members L 0 call1 ?ty s (out_length st1) [M_coerce_target] ?sta = Inr st1'"
      using assms(6) coerce by (auto simp: compress_value_def Let_def split: if_splits)
    have "bounded K limit ?sta" using members_grow [OF assms(3) m1] assms(8) by (rule bounded_grows)
    then have "synced K out ?sta st0"
      using put_sim [OF assms(7) _ size_pos(1) [OF L] assms(2), of ?ty limit "Struct s"] p by (auto simp: bounded_def)
    then show ?thesis
      using assms(9) p coerce by (intro coerce_image [OF assms(1-5) m1 assms(8) p _ assms(10) _ assms(11) coerce]) (auto simp: compress_value_def Let_def)
  next
    case literal
    then have "compress_text L h out limit vp s ?new st0 = Inr st'" using assms(9) p by (simp add: compress_value_def Let_def)
    from text_image [OF assms(1,2) p assms(10) this assms(11) literal(3)] show ?thesis .
  qed
qed

section \<open>Statements\<close>

text \<open>What the statement at \<open>new_stmt\<close> points to after its structure or list has been written.\<close>

definition body_written ::
    "layout \<Rightarrow> heap \<Rightarrow> bool \<Rightarrow> int set \<Rightarrow> (int \<Rightarrow> SqlStatementType) \<Rightarrow> int \<Rightarrow> SqlStatementType \<Rightarrow> int \<Rightarrow> nat \<Rightarrow> int \<Rightarrow> image \<Rightarrow> compress_state
     \<Rightarrow> compress_state \<Rightarrow> bool" where
  "body_written L h vp K T out ty a d new_stmt \<phi> st st' \<longleftrightarrow>
     (\<exists>\<phi>' R e. extends L h vp K T out {new_stmt} \<phi> st \<phi>' st' R \<and> \<phi>' e = Some (T_Struct ty, a) \<and> (\<not> shared ty \<longrightarrow> e \<in> R)
        \<and> buf st' new_stmt = Some (Statement ty (A2R e (new_stmt + offset_of_v L)) d)
        \<and> (is_list ty \<longrightarrow> (\<forall>xs. hd xs = a \<longrightarrow> ring h a xs \<longrightarrow>
             (\<exists>bs. hd bs = e \<and> chain L h \<phi>' (buf st') ty bs xs
                \<and> (\<not> shared ty \<longrightarrow> set bs \<subseteq> dom \<phi>' - dom \<phi> \<and> target L \<phi>' (buf st') (last bs) Slot_Next = None)))))"

lemma struct_body_written:
  assumes "extends L h vp K T out {} \<phi> st \<phi>' st' {new}" "\<phi>' new = Some (T_Struct ty, a)" "\<not> is_list ty"
    and "buf st new_stmt = Some (Statement ty (A2R new (new_stmt + offset_of_v L)) d)"
  shows "body_written L h vp K T out ty a d new_stmt \<phi> st st'"
  unfolding body_written_def
proof (intro exI conjI)
  show "extends L h vp K T out {new_stmt} \<phi> st \<phi>' st' {new}" using extends_weaken [OF assms(1)] by blast
  show "buf st' new_stmt = Some (Statement ty (A2R new (new_stmt + offset_of_v L)) d)"
    by (rule statement_kept [OF assms(1,4)]) simp
qed (use assms(2,3) in auto)

lemma shared_image:
  assumes "laid_out L" "0 < out" "call_grows call1" "call_sim K out limit call1 call2" "call_image L h vp K T out limit call1 call2"
    and "compress_shared L 0 limit1 call1 ty a s new1 st1 = Inr st1'" "synced K out st1 st" "bounded K limit st1'"
    and "compress_shared L out limit call2 ty a s new_stmt st = Inr st'" "inv L K T out \<phi> st" "shape_of ty = SHARED_STRUCT" "T a = ty"
    and "h a = Some (Struct s)" "buf st new_stmt = Some (Statement ty (A2R (out + out_length st) (new_stmt + offset_of_v L)) d)"
  shows "body_written L h vp K T out ty a d new_stmt \<phi> st st'"
proof (cases "a \<in> maxed st1")
  case True
  then have "st1' = st1" using assms(6) by (simp add: compress_shared_def maxed_iff)
  then have "a \<notin> maxed st" "a \<in> K" using visited_iff(1) [OF assms(7,8), of a] True assms(8) by (auto simp: bounded_def)
  then have o: "offs st a \<noteq> MAX_BIN_DEFN_OFFSET" "\<phi> (offs st a) = Some (T_Struct ty, a)"
    using inv_covered [OF assms(10)] assms(12) by (auto simp: maxed_iff)
  then have "set_v L out new_stmt (offs st a) st = Inr st'" using assms(2,9) by (simp add: compress_shared_def Let_def)
  from set_v_extends(1) [OF this assms(2,10,14), of h vp] set_v_extends(2) [OF this assms(2,10,14)] o assms(11)
  show ?thesis unfolding body_written_def by (intro exI [of _ \<phi>] exI [of _ "{}"] exI [of _ "offs st a"]) (auto simp: shared_def is_list_def)
next
  case False
  have L: "sized L" using assms(1) by (simp add: laid_out_def)
  have ty: "members_of ty s = pointer_members ty" "copy_of vp ty s (s\<lparr>obj_bin_defn_offset := x\<rparr>)" "shared ty" "\<not> is_list ty" for x
    using assms(11) by (auto simp: members_of_def copy_of_def shared_def is_list_def)
  have a: "compress_struct L 0 limit1 call1 ty s s (members_of ty s) (set_offs a MAX_BIN_DEFN_OFFSET st1) = Inr st1'"
    using assms(6) False by (simp add: compress_shared_def maxed_iff ty(1))
  have "a \<in> maxed st" using False visited_iff(1) [OF assms(7,8) maxed_after_struct [OF L assms(3) a]] by simp
  then have o: "offs st a = MAX_BIN_DEFN_OFFSET" by (simp add: maxed_iff)
  let ?c = "s\<lparr>obj_bin_defn_offset := out + out_length st\<rparr>"
  have r: "compress_struct L out limit call2 ty s ?c (members_of ty s) (set_offs a (out + out_length st) st) = Inr st'"
    using assms(2,9) o by (simp add: compress_shared_def Let_def ty(1))
  have "0 \<le> out_length st" using assms(10) by (simp add: inv_def)
  then obtain \<phi>' where "extends L h vp K T out {} \<phi> st \<phi>' st' {out + out_length st}" "\<phi>' (out + out_length st) = Some (T_Struct ty, a)"
    using first_visit_image [OF assms(1-5) a assms(7,8) r assms(10) ty(3) assms(12,13) False o ty(2)] ty(4) assms(2) by auto
  then show ?thesis by (rule struct_body_written [OF _ _ ty(4) assms(14)])
qed

lemma body_image:
  assumes "laid_out L" "0 < out" "call_grows call1" "call_sim K out limit call1 call2" "call_image L h vp K T out limit call1 call2"
    and "compress_body L h 0 limit1 vp k call1 ty a new1 st1 = Inr st1'" "synced K out st1 st" "bounded K limit st1'"
    and "compress_body L h out limit vp k call2 ty a new_stmt st = Inr st'" "inv L K T out \<phi> st" "typed h T" "ty \<noteq> data_type_struct_STATEMENT"
    and "shared ty \<longrightarrow> T a = ty" "is_list ty \<longrightarrow> (\<exists>xs. ring h a (a # xs))"
    and "buf st new_stmt = Some (Statement ty (A2R (out + out_length st) (new_stmt + offset_of_v L)) d)"
  shows "body_written L h vp K T out ty a d new_stmt \<phi> st st'"
proof -
  let ?new = "out + out_length st"
  have dt: "shape_of ty \<noteq> DATA_TYPE_SHAPE" using assms(12) by (cases ty) auto
  have ms: "members_of ty s = (if shape_of ty = CONSTRAINT_SHAPE then constraint_members (constraint_kind s) else pointer_members ty)"
    if "shape_of ty \<noteq> VALUE_SHAPE" for s
    using that by (cases "shape_of ty") (auto simp: members_of_def)
  have vs: "shape_of ty = VALUE_SHAPE \<longleftrightarrow> ty = value_STATEMENT" by (cases ty) auto
  consider (plain) s ms where "shape_of ty = PLAIN_STRUCT \<or> shape_of ty = CONSTRAINT_SHAPE" "h a = Some (Struct s)" "ms = members_of ty s"
      "compress_struct L 0 limit1 call1 ty s s ms st1 = Inr st1'" "compress_struct L out limit call2 ty s s ms st = Inr st'"
    | (shared) s where "shape_of ty = SHARED_STRUCT" "h a = Some (Struct s)" "compress_shared L 0 limit1 call1 ty a s new1 st1 = Inr st1'"
      "compress_shared L out limit call2 ty a s new_stmt st = Inr st'"
    | (list) "shape_of ty = PLAIN_LIST" "compress_list L h 0 limit1 call1 ty a k a st1 = Inr st1'"
      "compress_list L h out limit call2 ty a k a st = Inr st'"
    | (shared_list) "shape_of ty = SHARED_LIST" "compress_shared_list L h 0 limit1 call1 ty new1 a k a st1 = Inr st1'"
      "compress_shared_list L h out limit call2 ty new_stmt a k a st = Inr st'"
    | (value_struct) s where "ty = value_STATEMENT" "h a = Some (Struct s)" "compress_value L h 0 limit1 vp call1 s st1 = Inr st1'"
      "compress_value L h out limit vp call2 s st = Inr st'"
    using assms(6,9) dt ms vs
    by (cases "shape_of ty") (auto simp: compress_body_def bindE_Inr_iff get_struct_Some)
  then show ?thesis
  proof cases
    case plain
    then have ty: "\<not> shared ty" "\<not> is_list ty" "ty \<noteq> value_STATEMENT" "copy_of vp ty s s" by (auto simp: shared_def is_list_def copy_of_def)
    obtain \<phi>' c' R where o: "opened L h vp K T out ty a ?new s s (members_of ty s) \<phi> st \<phi>' st' c' R"
      using plain_opened [OF assms(1-5) plain(4) assms(7,8) plain(5) assms(10) ty(1) _ plain(2)] distinct_members plain(3) by auto
    have "extends L h vp K T out {} \<phi> st \<phi>' st' {?new}"
      by (rule struct_finished [OF o plain(2) ty(2,4)]) (use ty in auto)
    from struct_body_written [OF this openedD(3) [OF o] ty(2) assms(15)] show ?thesis .
  next
    case shared
    have "T a = ty" using shared(1) assms(13) by (simp add: shared_def)
    then show ?thesis by (rule shared_image [OF assms(1-5) shared(3) assms(7,8) shared(4) assms(10) shared(1) _ shared(2) assms(15)])
  next
    case list
    then obtain xs where xs: "ring h a (a # xs)" using assms(14) by (auto simp: is_list_def)
    from list_image [OF assms(1-5) list(1,2) assms(7,8) list(3) assms(10) xs] obtain \<phi>' bs where
      i: "extends L h vp K T out {} \<phi> st \<phi>' st' {?new}" "hd bs = ?new" "chain L h \<phi>' (buf st') ty bs (a # xs)"
        "set bs \<subseteq> dom \<phi>' - dom \<phi>" "target L \<phi>' (buf st') (last bs) Slot_Next = None" by blast
    have u: "ys = a # xs" if "hd ys = a" "ring h a ys" for ys using that ring_unique [OF xs] by (cases ys) auto
    have "extends L h vp K T out {new_stmt} \<phi> st \<phi>' st' {?new}" using extends_weaken [OF i(1)] by blast
    moreover have "buf st' new_stmt = Some (Statement ty (A2R ?new (new_stmt + offset_of_v L)) d)"
      by (rule statement_kept [OF i(1) assms(15)]) simp
    ultimately show ?thesis
      using i chain_head [OF i(3)] u unfolding body_written_def
      by (intro exI [of _ \<phi>'] exI [of _ "{?new}"] exI [of _ ?new]) auto
  next
    case shared_list
    have ty: "shared ty" "is_list ty" using shared_list(1) by simp_all
    then obtain xs where xs: "ring h a (a # xs)" using assms(14) by blast
    from shared_list_image [OF assms(1-5) shared_list(1) assms(11) shared_list(2) assms(7,8) shared_list(3) assms(10,15) _ xs] ty(1) assms(13)
    obtain \<phi>' bs where i: "extends L h vp K T out {new_stmt} \<phi> st \<phi>' st' {}" "hd bs = place out st a" "chain L h \<phi>' (buf st') ty bs (a # xs)"
        "buf st' new_stmt = Some (Statement ty (if offs st a \<noteq> MAX_BIN_DEFN_OFFSET then A2R (offs st a) (new_stmt + offset_of_v L)
           else A2R ?new (new_stmt + offset_of_v L)) d)" by auto
    have u: "ys = a # xs" if "hd ys = a" "ring h a ys" for ys using that ring_unique [OF xs] by (cases ys) auto
    have "buf st' new_stmt = Some (Statement ty (A2R (place out st a) (new_stmt + offset_of_v L)) d)" using i(4) by (simp add: place_def)
    then show ?thesis
      using i(1-3) chain_head [OF i(3)] u ty(1) unfolding body_written_def
      by (intro exI [of _ \<phi>'] exI [of _ "{}"] exI [of _ "place out st a"]) auto
  next
    case value_struct
    from value_image [OF assms(1-5) value_struct(3) assms(7,8) value_struct(4) assms(10) value_struct(2)] obtain \<phi>' where
      i: "extends L h vp K T out {} \<phi> st \<phi>' st' {?new}" "\<phi>' ?new = Some (T_Struct ty, a)" using value_struct(1) by blast
    have "\<not> is_list ty" using value_struct(1) by (simp add: is_list_def)
    from struct_body_written [OF i this assms(15)] show ?thesis .
  qed
qed

lemma statement_closed:
  assumes "extends L h vp K T out {b} (\<phi>(b \<mapsto> (T_Statement, a))) stv \<phi>' st' R" "\<phi> b = None" "dom \<phi> = dom (buf st)"
    and "\<forall>c. c \<noteq> b \<longrightarrow> buf stv c = buf st c" "h a = Some (Statement t v d)" "v \<noteq> 0" "buf st' b = Some (Statement t r d)"
    and "if t = data_type_struct_STATEMENT then r = v
         else points_to \<phi>' (b + offset_of_v L) r (T_Struct t) v \<and> (\<not> shared t \<longrightarrow> b + offset_of_v L + r \<in> R)"
    and "chained L h \<phi>' (buf st') (insert b (dom \<phi>' - dom (\<phi>(b \<mapsto> (T_Statement, a))))) b"
  shows "extends L h vp K T out {} \<phi> st \<phi>' st' {b} \<and> \<phi>' b = Some (T_Statement, a)"
proof -
  let ?\<phi> = "\<phi>(b \<mapsto> (T_Statement, a))"
  note x = extendsD [OF assms(1)]
  have new: "\<phi>' b = Some (T_Statement, a)" by (rule map_leD [OF x(2)]) simp
  have "\<phi> \<subseteq>\<^sub>m ?\<phi>" using assms(2) by (auto simp: map_le_def)
  then have le: "\<phi> \<subseteq>\<^sub>m \<phi>'" using x(2) by (rule map_le_trans)
  have "framed L h {} \<phi> \<phi>' (buf st) (buf st')"
    unfolding framed_def
  proof (intro allI impI)
    fix c assume c: "buf st c \<noteq> None"
    then have "c \<noteq> b" using assms(2,3) by auto
    then have "relinked L h \<phi>' c (buf stv c) (buf st' c)" using c assms(4) by (intro framedD(1) [OF x(3)]) auto
    then show "if c \<in> {} then loose L h \<phi> \<phi>' c (buf st c) (buf st' c) else relinked L h \<phi>' c (buf st c) (buf st' c)"
      using \<open>c \<noteq> b\<close> assms(4) by simp
  qed
  moreover have "dom \<phi>' - dom \<phi> = insert b (dom \<phi>' - dom ?\<phi>)" using new assms(2) by auto
  moreover have "placed L h vp \<phi>' (buf st') (insert b (dom \<phi>' - dom ?\<phi>)) {b}"
  proof (rule placed_insert [OF x(4) _ new _ assms(9)])
    show "good_object L h vp \<phi>' (buf st') b T_Statement a" using assms(5-8) by (auto split: if_splits)
    have tg: "sl = Slot_V \<and> t \<noteq> data_type_struct_STATEMENT \<and> y = b + offset_of_v L + r" if "target L \<phi>' (buf st') b sl = Some y" for sl y
      using that new assms(7) by (cases sl) (auto simp: target_def split: if_splits)
    show "y \<in> R" if "target L \<phi>' (buf st') b sl = Some y" "unshared \<phi>' y" for sl y
      using tg [OF that(1)] that(2) assms(8) by (auto simp: unshared_def points_to_def)
    show "sl = sl'" if "target L \<phi>' (buf st') b sl = Some y" "target L \<phi>' (buf st') b sl' = Some y" for sl sl' y
      using tg [OF that(1)] tg [OF that(2)] by simp
  qed simp
  ultimately show ?thesis using x(1) le new by (simp add: extends_def)
qed

lemma body_statement_closed:
  assumes "laid_out L" "body_written L h vp K T out t v d b (\<phi>(b \<mapsto> (T_Statement, a))) stv st'" "\<phi> b = None" "dom \<phi> = dom (buf st)"
    and "\<forall>c. c \<noteq> b \<longrightarrow> buf stv c = buf st c" "h a = Some (Statement t v d)" "v \<noteq> 0" "t \<noteq> data_type_struct_STATEMENT"
  shows "\<exists>\<phi>'. extends L h vp K T out {} \<phi> st \<phi>' st' {b} \<and> \<phi>' b = Some (T_Statement, a)"
proof -
  let ?\<phi> = "\<phi>(b \<mapsto> (T_Statement, a))" and ?at = "b + offset_of_v L"
  obtain \<phi>' R e where x: "extends L h vp K T out {b} ?\<phi> stv \<phi>' st' R" and e: "\<phi>' e = Some (T_Struct t, v)" "\<not> shared t \<longrightarrow> e \<in> R"
    and b: "buf st' b = Some (Statement t (A2R e ?at) d)"
    and l: "\<And>xs. is_list t \<Longrightarrow> hd xs = v \<Longrightarrow> ring h v xs \<Longrightarrow> \<exists>bs. hd bs = e \<and> chain L h \<phi>' (buf st') t bs xs
        \<and> (\<not> shared t \<longrightarrow> set bs \<subseteq> dom \<phi>' - dom ?\<phi> \<and> target L \<phi>' (buf st') (last bs) Slot_Next = None)"
    using assms(2) unfolding body_written_def by blast
  have new: "\<phi>' b = Some (T_Statement, a)" by (rule map_leD [OF extendsD(2) [OF x]]) simp
  then have "e \<noteq> b" using e(1) by auto
  from points_to_A2R [OF assms(1) extendsD(1) [OF x] new e(1) _ _ this, of "offset_of_v L"] assms(1)
  have p: "points_to \<phi>' ?at (A2R e ?at) (T_Struct t) v" "?at + A2R e ?at = e" by (auto simp: laid_out_def)
  have "chained L h \<phi>' (buf st') (insert b (dom \<phi>' - dom ?\<phi>)) b"
    unfolding chained_def
  proof (intro allI impI)
    fix a' t' v' d' e' xs
    assume c: "\<phi>' b = Some (T_Statement, a')" "h a' = Some (Statement t' v' d')" "is_list t'" "hd xs = v'" "ring h v' xs"
      "target L \<phi>' (buf st') b Slot_V = Some e'"
    then have "t' = t" "v' = v" "e' = e" using new assms(6,8) b p(2) by (auto simp: target_def)
    then show "\<exists>bs. hd bs = e' \<and> chain L h \<phi>' (buf st') t' bs xs
        \<and> (\<not> shared t' \<longrightarrow> set bs \<subseteq> insert b (dom \<phi>' - dom ?\<phi>) \<and> target L \<phi>' (buf st') (last bs) Slot_Next = None)"
      using l [of xs] c by blast
  qed
  then have "extends L h vp K T out {} \<phi> st \<phi>' st' {b} \<and> \<phi>' b = Some (T_Statement, a)"
    using p e(2) assms(8) by (intro statement_closed [OF x assms(3-7) b]) auto
  then show ?thesis by blast
qed

lemma statement_elements:
  assumes "wf_graph h S depth D" "typed h T" "h s = Some (Statement ty v d)" "v \<noteq> 0"
  shows "shared ty \<longrightarrow> T v = ty" "is_list ty \<longrightarrow> (\<exists>xs. ring h v (v # xs))"
proof -
  show "shared ty \<longrightarrow> T v = ty" using assms(2-4) by (auto simp: typed_def)
  have w: "wf_statement h S depth D s ty v" using assms(1,3) by (auto simp: wf_graph_def)
  show "is_list ty \<longrightarrow> (\<exists>xs. ring h v (v # xs))"
  proof
    assume l: "is_list ty"
    with w assms(4) obtain es where "hd es = v" "ring h v es" by (auto simp: wf_statement_def is_list_def)
    then show "\<exists>xs. ring h v (v # xs)" by (cases es) auto
  qed
qed

lemma step_image:
  assumes "laid_out L" "0 < out" "call_grows call1" "call_sim K out limit call1 call2" "call_image L h vp K T out limit call1 call2"
    and "wf_graph h S depth D" "typed h T"
  shows "call_image L h vp K T out limit (compress_step L h 0 limit1 vp k call1) (compress_step L h out limit vp k call2)"
  unfolding call_image_def
proof (intro allI impI)
  fix s st1 r1 st1' st r st' \<phi>
  assume c1: "compress_step L h 0 limit1 vp k call1 s st1 = Inr (r1, st1')" and sy: "synced K out st1 st" and bd: "bounded K limit st1'"
    and c2: "compress_step L h out limit vp k call2 s st = Inr (r, st')" and i: "inv L K T out \<phi> st"
  have L: "sized L" using assms(1) by (simp add: laid_out_def)
  show "if live h s then \<exists>\<phi>'. extends L h vp K T out {} \<phi> st \<phi>' st' {r} \<and> \<phi>' r = Some (T_Statement, s) \<and> r \<notin> dom \<phi>
    else r = 0 \<and> st' = st"
  proof (cases "live h s")
    case False
    then show ?thesis using c2 by (auto simp: compress_step_def live_def split: option.splits obj.splits if_splits)
  next
    case True
    then obtain ty v d where s: "s \<noteq> 0" "h s = Some (Statement ty v d)" "v \<noteq> 0" by (auto simp: live_def)
    let ?b = "out + out_length st" and ?sta = "st1\<lparr>out_length := out_length st1 + size_of_SqlStatement L\<rparr>"
    let ?\<phi> = "\<phi>(?b \<mapsto> (T_Statement, s))"
    have b1: "compress_body L h 0 limit1 vp k call1 ty v (out_length st1) ?sta = Inr st1'"
      using c1 s by (auto simp: compress_step_def Let_def map_sum_Inr)
    obtain st0 where p: "put out limit (Statement ty v d) (size_of_SqlStatement L) st = Inr st0"
      and rest: "if ty = data_type_struct_STATEMENT then r = ?b \<and> st' = st0
        else r = ?b \<and> (\<exists>stv. set_v L out ?b (out + out_length st0) st0 = Inr stv \<and> compress_body L h out limit vp k call2 ty v ?b stv = Inr st')"
      using c2 s assms(2) by (auto simp: compress_step_def Let_def bindE_Inr_iff map_sum_Inr split: if_splits)
    note st0 = put_run [OF p assms(2)]
    have n: "\<phi> ?b = None" by (rule inv_fresh [OF assms(1) i])
    have i0: "inv L K T out ?\<phi> st0" unfolding st0 by (rule inv_put [OF assms(1) i]) simp_all
    have oth: "\<forall>c. c \<noteq> ?b \<longrightarrow> buf st0 c = buf st c" "buf st0 ?b = Some (Statement ty v d)" by (simp_all add: st0)
    have "\<exists>\<phi>'. extends L h vp K T out {} \<phi> st \<phi>' st' {?b} \<and> \<phi>' ?b = Some (T_Statement, s)"
    proof (cases "ty = data_type_struct_STATEMENT")
      case True
      then have st': "st' = st0" using rest by simp
      have "chained L h ?\<phi> (buf st0) (insert ?b (dom ?\<phi> - dom ?\<phi>)) ?b" using oth(2) True s(2) by (auto simp: chained_def target_def is_list_def)
      with True have "extends L h vp K T out {} \<phi> st ?\<phi> st0 {?b} \<and> ?\<phi> ?b = Some (T_Statement, s)"
        by (intro statement_closed [where h = h and vp = vp and b = ?b and \<phi> = \<phi> and a = s and R = "{}",
              OF extends_refl [OF i0, of h vp "{?b}"] n inv_dom [OF i] oth(1) s(2,3) oth(2)]) auto
      then show ?thesis unfolding st' by blast
    next
      case False
      then obtain stv where v: "set_v L out ?b (out + out_length st0) st0 = Inr stv" and b2: "compress_body L h out limit vp k call2 ty v ?b stv = Inr st'"
        using rest by auto
      have stv: "stv = st0\<lparr>buf := (buf st0)(?b \<mapsto> Statement ty (A2R (out + out_length st0) (?b + offset_of_v L)) d)\<rparr>"
        by (rule set_v_run [OF v assms(2)]) (use oth(2) in simp)
      have "grows ?sta st1'" by (rule body_grows [OF L assms(3) b1])
      then have "bounded K limit ?sta" using bd by (rule bounded_grows)
      then have "synced K out ?sta st0"
        using put_sim [OF sy _ size_pos(2) [OF L] assms(2), of limit "Statement ty v d"] p by (auto simp: bounded_def)
      then have sv: "synced K out ?sta stv" unfolding stv by (rule update_buf_sim(1)) (simp add: kind_at_def oth(2))
      have iv: "inv L K T out ?\<phi> stv" unfolding stv by (rule inv_buf [OF i0]) (use oth(2) in auto)
      have bv: "buf stv ?b = Some (Statement ty (A2R (out + out_length stv) (?b + offset_of_v L)) d)" by (simp add: stv)
      have "\<forall>c. c \<noteq> ?b \<longrightarrow> buf stv c = buf st c" using oth(1) by (simp add: stv)
      from body_statement_closed [OF assms(1) body_image [OF assms(1-5) b1 sv bd b2 iv assms(7) False statement_elements [OF assms(6,7) s(2,3)] bv]
          n inv_dom [OF i] this s(2,3) False]
      show ?thesis .
    qed
    moreover have "r = ?b" using rest by (auto split: if_splits)
    ultimately show ?thesis using True n by auto
  qed
qed

lemma helper_image:
  assumes "laid_out L" "0 < out" "wf_graph h S depth D" "typed h T"
  shows "call_image L h vp K T out limit (compress_statement_helper L h 0 limit1 vp k) (compress_statement_helper L h out limit vp k)"
proof (induction k)
  case 0
  show ?case by (simp add: call_image_def)
next
  case (Suc k)
  have L: "sized L" using assms(1) by (simp add: laid_out_def)
  show ?case
    unfolding compress_statement_helper.simps
    by (rule step_image [OF assms(1,2) helper_grows [OF L] helper_sim [OF L assms(2)] Suc assms(3,4)])
qed

section \<open>The binary definition\<close>

text \<open>\<open>\<phi>\<close> is an image of the graph below \<open>stmt\<close> in the block \<open>B\<close> of \<open>n\<close> bytes at \<open>out\<close>, with its root at \<open>root\<close>.\<close>

definition image_of :: "layout \<Rightarrow> heap \<Rightarrow> bool \<Rightarrow> image \<Rightarrow> heap \<Rightarrow> int \<Rightarrow> int \<Rightarrow> int \<Rightarrow> bool" where
  "image_of L h vp \<phi> B out n stmt \<longleftrightarrow>
     dom \<phi> = dom B \<and> spaced L out \<phi> (out + n) \<and> single \<phi> \<and> \<phi> out = Some (T_Statement, stmt) \<and> placed L h vp \<phi> B (dom \<phi>) {out}"

lemma helper_root:
  assumes "compress_statement_helper L h out limit vp k s st = Inr (r, st')" "live h s" "0 < out"
  shows "r = out + out_length st"
proof (cases k)
  case (Suc k')
  then show ?thesis
    using assms by (auto simp: compress_step_def live_def Let_def bindE_Inr_iff map_sum_Inr split: if_splits)
qed (use assms(1) in simp)

lemma compressed_image:
  assumes "laid_out L" "0 < block" "wf_graph h S depth D" "typed h T" "\<forall>a. offsets a \<noteq> MAX_BIN_DEFN_OFFSET" "live h stmt"
    and "compress_statement L h vp fuel block stmt offsets = Inr (Some st)"
  shows "\<exists>\<phi>. image_of L h vp \<phi> (buf st) block (out_length st) stmt"
proof -
  let ?init = "\<lparr>offs = offsets, buf = Map.empty, out_length = 0\<rparr> :: compress_state"
  obtain r1 st1 r where p1: "compress_statement_helper L h 0 0 vp fuel stmt ?init = Inr (r1, st1)"
    and p2: "compress_statement_helper L h block (out_length st1) vp fuel stmt (st1\<lparr>buf := Map.empty, out_length := 0\<rparr>) = Inr (r, st)"
    using assms(7) by (auto simp: compress_statement_def bindE_Inr_iff split: if_splits)
  let ?start = "st1\<lparr>buf := Map.empty, out_length := 0\<rparr>" and ?K = "maxed st1"
  have "maxed ?init = {}" "maxed ?start = maxed st1" using assms(5) by (simp_all add: maxed_def)
  then have "synced ?K block ?init ?start" by (simp add: synced_def kind_at_def)
  moreover have "bounded ?K (out_length st1) st1" by (simp add: bounded_def)
  moreover have "inv L ?K T block Map.empty ?start" by (simp add: inv_def spaced_def located_def covered_def maxed_def)
  ultimately obtain \<phi> where x: "extends L h vp ?K T block {} Map.empty ?start \<phi> st {r}" "\<phi> r = Some (T_Statement, stmt)"
    using call_imageD(1) [OF helper_image [OF assms(1-4)] p1 _ _ p2 _ assms(6)] by blast
  have "r = block" using helper_root [OF p2 assms(6,2)] by simp
  moreover note d = extendsD [OF x(1)]
  ultimately show ?thesis
    using x(2) inv_dom [OF d(1)] inv_spaced [OF d(1)] inv_single [OF d(1)] d(4)
    by (intro exI [of _ \<phi>]) (simp add: image_of_def)
qed

end
