(* ===== verification/Decompress_Laws.thy ===== *)
theory Decompress_Laws
  imports Decompress_Statement Compress_Copies
begin

text \<open>
  Relocation in place. The traversal of \<open>decompress_statement\<close> enters every object once: an unshared one because its only
  reference is relocated once, a shared one because entering it clears \<open>bin_defn_offset\<close>. The invariant describes the memory by the
  set of the objects that have been entered and the pointers that have been relocated, with their new values.
\<close>

section \<open>The memory during the traversal\<close>

type_synonym relocation = "int \<times> slot \<Rightarrow> int option"

definition reloc :: "relocation \<Rightarrow> int \<Rightarrow> slot \<Rightarrow> int \<Rightarrow> int" where
  "reloc R b sl r = (case R (b, sl) of None \<Rightarrow> r | Some y \<Rightarrow> y)"

definition same_data :: "struct_obj \<Rightarrow> struct_obj \<Rightarrow> bool" where
  "same_data c c' \<longleftrightarrow> value_type c' = value_type c \<and> constraint_kind c' = constraint_kind c \<and> keyword c' = keyword c \<and> plain c' = plain c
     \<and> parameter_index c' = parameter_index c \<and> scale_parameter_index c' = scale_parameter_index c
     \<and> size_or_precision_parameter_index c' = size_or_precision_parameter_index c"

text \<open>What has become of the object \<open>x\<close> of the block at \<open>b\<close>; \<open>prev\<close>, the numbers of aliases and \<open>delim\<close> of a column are left open.\<close>

definition progress_struct :: "int set \<Rightarrow> relocation \<Rightarrow> int \<Rightarrow> SqlStatementType \<Rightarrow> struct_obj \<Rightarrow> struct_obj \<Rightarrow> bool" where
  "progress_struct E R b ty c c' \<longleftrightarrow>
     same_data c c' \<and> (shared ty \<longrightarrow> (obj_bin_defn_offset c' = 0 \<longleftrightarrow> b \<in> E))
     \<and> (\<forall>m\<in>insert M_string_literal (set (members_of ty c)). member_of c' m = reloc R b (Slot_Member m) (member_of c m))
     \<and> (is_list ty \<longrightarrow> obj_next c' = reloc R b Slot_Next (obj_next c))"

fun progress :: "int set \<Rightarrow> relocation \<Rightarrow> int \<Rightarrow> tag \<Rightarrow> obj \<Rightarrow> obj \<Rightarrow> bool" where
  "progress E R b T_Statement (Statement t r d) y \<longleftrightarrow> y = Statement t (reloc R b Slot_V r) d"
| "progress E R b (T_Struct ty) (Struct c) y \<longleftrightarrow> (\<exists>c'. y = Struct c' \<and> progress_struct E R b ty c c')"
| "progress E R b T_Text (Text x) y \<longleftrightarrow> y = Text x"
| "progress E R b _ _ _ \<longleftrightarrow> False"

text \<open>An unshared object is entered when its reference has been relocated; \<open>root\<close> is where the traversal starts.\<close>

definition referenced :: "layout \<Rightarrow> image \<Rightarrow> heap \<Rightarrow> int \<Rightarrow> relocation \<Rightarrow> int \<Rightarrow> bool" where
  "referenced L \<phi> B root R y \<longleftrightarrow> y = root \<or> (\<exists>b sl. R (b, sl) = Some y \<and> target L \<phi> B b sl = Some y)"

definition dinv :: "layout \<Rightarrow> image \<Rightarrow> heap \<Rightarrow> int \<Rightarrow> int set \<Rightarrow> relocation \<Rightarrow> heap \<Rightarrow> bool" where
  "dinv L \<phi> B root E R D \<longleftrightarrow>
     E \<subseteq> dom \<phi>
     \<and> (\<forall>b sl y. R (b, sl) = Some y \<longrightarrow> b \<in> E \<and> (target L \<phi> B b sl = Some y \<or> sl = Slot_Next \<or> sl = Slot_Member M_string_literal))
     \<and> (\<forall>y\<in>E. unshared \<phi> y \<longrightarrow> referenced L \<phi> B root R y)
     \<and> (\<forall>b t a. \<phi> b = Some (t, a) \<longrightarrow> (\<exists>x y. B b = Some x \<and> D b = Some y \<and> progress E R b t x y))"

text \<open>The elements of a list from \<open>start\<close> on, as the relocated links lead.\<close>

fun links :: "relocation \<Rightarrow> int \<Rightarrow> int list \<Rightarrow> bool" where
  "links R start [] \<longleftrightarrow> False"
| "links R start [d] \<longleftrightarrow> R (d, Slot_Next) = Some start"
| "links R start (d # e # ds) \<longleftrightarrow> R (d, Slot_Next) = Some e \<and> links R start (e # ds)"

text \<open>An object all of whose pointers have been relocated and lead to objects that have been entered.\<close>

fun whole :: "layout \<Rightarrow> heap \<Rightarrow> image \<Rightarrow> heap \<Rightarrow> int set \<Rightarrow> relocation \<Rightarrow> int \<Rightarrow> tag \<Rightarrow> int \<Rightarrow> bool" where
  "whole L h \<phi> B E R b T_Statement a \<longleftrightarrow>
     (\<forall>y. target L \<phi> B b Slot_V = Some y \<longrightarrow> R (b, Slot_V) = Some y \<and> y \<in> E
        \<and> (\<forall>t v d. h a = Some (Statement t v d) \<longrightarrow> shape_of t = PLAIN_LIST \<longrightarrow>
             (\<exists>ds. hd ds = y \<and> links R y ds \<and> distinct ds \<and> (\<forall>d\<in>set ds. \<exists>z. \<phi> d = Some (T_Struct t, z)))))"
| "whole L h \<phi> B E R b (T_Struct ty) a \<longleftrightarrow>
     (\<forall>m y. target L \<phi> B b (Slot_Member m) = Some y \<longrightarrow> R (b, Slot_Member m) = Some y \<and> y \<in> E)
     \<and> (is_list ty \<longrightarrow> (\<exists>s y. h a = Some (Struct s) \<and> R (b, Slot_Next) = Some y \<and> y \<in> E \<and> \<phi> y = Some (T_Struct ty, obj_next s)))
     \<and> (\<forall>s. h a = Some (Struct s) \<longrightarrow> ty = value_STATEMENT \<longrightarrow> has_text (value_type s) \<longrightarrow>
          (\<exists>y. R (b, Slot_Member M_string_literal) = Some y \<and> \<phi> y = Some (T_Text, member_of s M_string_literal)))"
| "whole L h \<phi> B E R b T_Text a \<longleftrightarrow> True"

text \<open>
  A part of the traversal: what it enters becomes whole, of what had been entered only the objects in \<open>X\<close> get pointers relocated,
  and of the objects whose references had been relocated before only those in \<open>Y\<close> are entered.
\<close>

definition dext ::
    "layout \<Rightarrow> heap \<Rightarrow> image \<Rightarrow> heap \<Rightarrow> int \<Rightarrow> int set \<Rightarrow> int set \<Rightarrow> int set \<Rightarrow> relocation \<Rightarrow> int set \<Rightarrow> relocation \<Rightarrow> bool" where
  "dext L h \<phi> B root X Y E R E' R' \<longleftrightarrow>
     E \<subseteq> E' \<and> R \<subseteq>\<^sub>m R' \<and> (\<forall>b\<in>E - X. \<forall>sl. R' (b, sl) = R (b, sl))
     \<and> (\<forall>b\<in>E' - E. \<forall>t a. \<phi> b = Some (t, a) \<longrightarrow> whole L h \<phi> B E' R' b t a)
     \<and> (\<forall>y\<in>E' - E. unshared \<phi> y \<longrightarrow> referenced L \<phi> B root R y \<longrightarrow> y \<in> Y)"

lemma referenced_mono: "referenced L \<phi> B root R y \<Longrightarrow> R \<subseteq>\<^sub>m R' \<Longrightarrow> referenced L \<phi> B root R' y"
  unfolding referenced_def by (blast dest: map_leD)

lemma links_mono: "links R start ds \<Longrightarrow> R \<subseteq>\<^sub>m R' \<Longrightarrow> links R' start ds"
  by (induction R start ds rule: links.induct) (auto dest: map_leD)

lemma whole_mono:
  assumes "whole L h \<phi> B E R b t a" "E \<subseteq> E'" "R \<subseteq>\<^sub>m R'"
  shows "whole L h \<phi> B E' R' b t a"
proof (cases t)
  case T_Statement
  then show ?thesis
    using assms(1) map_leD [OF assms(3)] links_mono [OF _ assms(3)] subsetD [OF assms(2)] unfolding T_Statement whole.simps by meson
next
  case (T_Struct ty)
  then show ?thesis
    using assms(1) map_leD [OF assms(3)] subsetD [OF assms(2)] unfolding T_Struct whole.simps by meson
qed simp

lemma dextD:
  assumes "dext L h \<phi> B root X Y E R E' R'"
  shows "E \<subseteq> E'" "R \<subseteq>\<^sub>m R'" "\<And>b sl. b \<in> E \<Longrightarrow> b \<notin> X \<Longrightarrow> R' (b, sl) = R (b, sl)"
    "\<And>b t a. b \<in> E' \<Longrightarrow> b \<notin> E \<Longrightarrow> \<phi> b = Some (t, a) \<Longrightarrow> whole L h \<phi> B E' R' b t a"
    "\<And>y. y \<in> E' \<Longrightarrow> y \<notin> E \<Longrightarrow> unshared \<phi> y \<Longrightarrow> referenced L \<phi> B root R y \<Longrightarrow> y \<in> Y"
  using assms unfolding dext_def by auto

lemma dext_refl [simp]: "dext L h \<phi> B root X Y E R E R"
  by (simp add: dext_def)

lemma dext_weaken: "dext L h \<phi> B root X Y E R E' R' \<Longrightarrow> X \<subseteq> X' \<Longrightarrow> dext L h \<phi> B root X' Y E R E' R'"
  unfolding dext_def by blast

lemma dext_trans:
  assumes "dext L h \<phi> B root X Y E R E1 R1" "dext L h \<phi> B root X Z E1 R1 E2 R2" "X \<subseteq> E"
    and "\<And>y. y \<in> Z \<Longrightarrow> unshared \<phi> y \<Longrightarrow> referenced L \<phi> B root R y \<Longrightarrow> y \<in> Y"
  shows "dext L h \<phi> B root X Y E R E2 R2"
  unfolding dext_def
proof (intro conjI ballI allI impI)
  note a = dextD [OF assms(1)] and b = dextD [OF assms(2)]
  show "E \<subseteq> E2" using a(1) b(1) by blast
  show "R \<subseteq>\<^sub>m R2" using a(2) b(2) by (rule map_le_trans)
  fix x
  { fix sl assume "x \<in> E - X"
    then show "R2 (x, sl) = R (x, sl)" using a(1) a(3) [of x sl] b(3) [of x sl] by auto }
  { fix t aa assume x: "x \<in> E2 - E" "\<phi> x = Some (t, aa)"
    show "whole L h \<phi> B E2 R2 x t aa"
    proof (cases "x \<in> E1")
      case True
      then have "whole L h \<phi> B E1 R1 x t aa" using x a(4) by blast
      then show ?thesis using b(1,2) by (rule whole_mono)
    qed (use x b(4) in blast) }
  assume x: "x \<in> E2 - E" "unshared \<phi> x" "referenced L \<phi> B root R x"
  show "x \<in> Y"
  proof (cases "x \<in> E1")
    case False
    then show ?thesis using x b(5) [OF _ _ x(2) referenced_mono [OF x(3) a(2)]] assms(4) by blast
  qed (use x a(5) in blast)
qed

text \<open>An object is entered, and it is whole in the end.\<close>

lemma dext_enter:
  assumes "dext L h \<phi> B root {p} Y (insert p E) R1 E' R'" "R \<subseteq>\<^sub>m R1" "\<And>b sl. b \<in> E \<Longrightarrow> R1 (b, sl) = R (b, sl)" "p \<notin> E"
    and "\<And>t a. \<phi> p = Some (t, a) \<Longrightarrow> whole L h \<phi> B E' R' p t a"
    and "\<And>y. y \<in> Y \<Longrightarrow> unshared \<phi> y \<Longrightarrow> \<not> referenced L \<phi> B root R y"
  shows "dext L h \<phi> B root {} {p} E R E' R'"
  unfolding dext_def
proof (intro conjI ballI allI impI)
  note a = dextD [OF assms(1)]
  show "E \<subseteq> E'" using a(1) by blast
  show "R \<subseteq>\<^sub>m R'" using assms(2) a(2) by (rule map_le_trans)
  fix x
  { fix sl assume x: "x \<in> E - {}"
    then have "R' (x, sl) = R1 (x, sl)" using a(3) [of x sl] assms(4) by auto
    then show "R' (x, sl) = R (x, sl)" using x assms(3) by simp }
  { fix t aa assume x: "x \<in> E' - E" "\<phi> x = Some (t, aa)"
    then show "whole L h \<phi> B E' R' x t aa" using assms(5) a(4) by (cases "x = p") auto }
  assume x: "x \<in> E' - E" "unshared \<phi> x" "referenced L \<phi> B root R x"
  show "x \<in> {p}"
  proof (rule ccontr)
    assume "x \<notin> {p}"
    then have "x \<in> Y" using a(5) [OF _ _ x(2) referenced_mono [OF x(3) assms(2)]] x(1) by auto
    then show False using assms(6) x by blast
  qed
qed

text \<open>A change of one object, which may be entered by it.\<close>

lemma dinv_change:
  assumes "dinv L \<phi> B root E R D" "\<phi> b = Some (t, a)" "B b = Some x" "progress E' R' b t x y"
    and "E' = E \<or> E' = insert b E" "R \<subseteq>\<^sub>m R'" "\<And>b' sl. b' \<noteq> b \<Longrightarrow> R' (b', sl) = R (b', sl)"
    and "\<And>sl y. R' (b, sl) = Some y \<Longrightarrow> b \<in> E' \<and> (target L \<phi> B b sl = Some y \<or> sl = Slot_Next \<or> sl = Slot_Member M_string_literal)"
    and "b \<notin> E \<Longrightarrow> unshared \<phi> b \<Longrightarrow> referenced L \<phi> B root R b"
  shows "dinv L \<phi> B root E' R' (D(b \<mapsto> y))"
  unfolding dinv_def
proof (intro conjI allI ballI impI)
  note i = assms(1) [unfolded dinv_def]
  show "E' \<subseteq> dom \<phi>" using i assms(2,5) by auto
  fix c sl z
  { assume r: "R' (c, sl) = Some z"
    have "(c \<in> E \<or> c = b) \<and> c \<in> E' \<and> (target L \<phi> B c sl = Some z \<or> sl = Slot_Next \<or> sl = Slot_Member M_string_literal)"
    proof (cases "c = b")
      case False
      then have "R (c, sl) = Some z" using r assms(7) by simp
      then show ?thesis using i assms(5) by blast
    qed (use assms(8) r in blast)
    then show "c \<in> E'" "target L \<phi> B c sl = Some z \<or> sl = Slot_Next \<or> sl = Slot_Member M_string_literal" by blast+ }
  { assume "c \<in> E'" "unshared \<phi> c"
    then have "referenced L \<phi> B root R c" using i assms(5,9) by blast
    then show "referenced L \<phi> B root R' c" using assms(6) by (rule referenced_mono) }
  fix t' a' assume c: "\<phi> c = Some (t', a')"
  show "\<exists>x z. B c = Some x \<and> (D(b \<mapsto> y)) c = Some z \<and> progress E' R' c t' x z"
  proof (cases "c = b")
    case True
    then show ?thesis using assms(2,3,4) c by simp
  next
    case False
    obtain x z where z: "B c = Some x" "D c = Some z" "progress E R c t' x z" using i c by blast
    have "reloc R' c sl r = reloc R c sl r" for sl r using False assms(7) by (simp add: reloc_def)
    then have "progress E' R' c t' x z"
      using z(3) False assms(5) by (cases "(E, R, c, t', x, z)" rule: progress.cases) (auto simp: progress_struct_def)
    then show ?thesis using z False by simp
  qed
qed

section \<open>The block\<close>

text \<open>The keywords of a column or of a column alias are a list of keywords.\<close>

definition keywords_typed :: "heap \<Rightarrow> bool" where
  "keywords_typed h \<longleftrightarrow>
     (\<forall>a s t v d. h a = Some (Struct s) \<longrightarrow> h (member_of s M_keywords) = Some (Statement t v d) \<longrightarrow> v \<noteq> 0 \<longrightarrow> t = keyword_STATEMENT)"

text \<open>
  The first operand of a join is a table alias, or a set operation whose right operand is a table alias.
\<close>

definition has_alias :: "heap \<Rightarrow> int \<Rightarrow> bool" where
  "has_alias h a \<longleftrightarrow> (\<exists>v d. a \<noteq> 0 \<and> v \<noteq> 0 \<and> h a = Some (Statement table_alias_STATEMENT v d))"

definition joins_typed :: "heap \<Rightarrow> bool" where
  "joins_typed h \<longleftrightarrow>
     (\<forall>a v d s. h a = Some (Statement join_STATEMENT v d) \<longrightarrow> h v = Some (Struct s) \<longrightarrow>
        has_alias h (member_of s M_value)
        \<or> (\<exists>v d s'. member_of s M_value \<noteq> 0 \<and> v \<noteq> 0 \<and> h (member_of s M_value) = Some (Statement set_operation_STATEMENT v d)
             \<and> h v = Some (Struct s') \<and> has_alias h (member_of s' M_operand1)))"

definition block_image :: "layout \<Rightarrow> heap \<Rightarrow> bool \<Rightarrow> image \<Rightarrow> heap \<Rightarrow> int \<Rightarrow> int \<Rightarrow> int \<Rightarrow> bool" where
  "block_image L h vp \<phi> B root n stmt \<longleftrightarrow>
     laid_out L \<and> 0 < root \<and> image_of L h vp \<phi> B root n stmt \<and> (\<exists>S depth D. wf_graph h S depth D) \<and> keywords_typed h \<and> joins_typed h"

lemma block_object:
  assumes "block_image L h vp \<phi> B root n stmt" "\<phi> b = Some (t, a)"
  shows "good_object L h vp \<phi> B b t a" "chained L h \<phi> B (dom \<phi>) b"
proof -
  have "placed L h vp \<phi> B (dom \<phi>) {root}" using assms(1) unfolding block_image_def image_of_def by blast
  then show "good_object L h vp \<phi> B b t a" "chained L h \<phi> B (dom \<phi>) b"
    using placedD [of L h vp \<phi> B "dom \<phi>" "{root}" b] assms(2) by fastforce+
qed

lemma block_struct:
  assumes "block_image L h vp \<phi> B root n stmt" "\<phi> b = Some (T_Struct ty, a)"
  obtains s c where "h a = Some (Struct s)" "B b = Some (Struct c)" "good_struct L h vp \<phi> ty b s c" "members_of ty c = members_of ty s"
    "value_type c = value_type s" "constraint_kind c = constraint_kind s"
proof -
  obtain s c where s: "h a = Some (Struct s)" "B b = Some (Struct c)" "good_struct L h vp \<phi> ty b s c"
    using block_object(1) [OF assms] by auto
  then have "copy_of vp ty s c" by (simp add: good_struct_def)
  then show thesis using that [OF s members_of_copy] by (simp add: copy_of_def)
qed

lemma block_statement:
  assumes "block_image L h vp \<phi> B root n stmt" "\<phi> b = Some (T_Statement, a)"
  obtains t v d r where "h a = Some (Statement t v d)" "v \<noteq> 0" "B b = Some (Statement t r d)" "r \<noteq> 0"
    "t = data_type_struct_STATEMENT \<and> r = v \<and> target L \<phi> B b Slot_V = None
     \<or> t \<noteq> data_type_struct_STATEMENT \<and> target L \<phi> B b Slot_V = Some (b + offset_of_v L + r) \<and> \<phi> (b + offset_of_v L + r) = Some (T_Struct t, v)"
proof -
  obtain t v d r where t: "h a = Some (Statement t v d)" "v \<noteq> 0" "B b = Some (Statement t r d)"
    "if t = data_type_struct_STATEMENT then r = v else points_to \<phi> (b + offset_of_v L) r (T_Struct t) v"
    using block_object(1) [OF assms] by auto
  then show thesis using that [OF t(1-3)] assms(2) by (auto simp: points_to_def target_def split: if_splits)
qed

text \<open>A reference that has not been relocated leads to an object that has not been entered, unless it is shared.\<close>

lemma not_referenced:
  assumes "block_image L h vp \<phi> B root n stmt" "target L \<phi> B b sl = Some y" "unshared \<phi> y" "R (b, sl) = None"
  shows "\<not> referenced L \<phi> B root R y"
proof
  have f: "forest L \<phi> B (dom \<phi>) {root}" using assms(1) unfolding block_image_def image_of_def placed_def by blast
  have d: "x \<in> dom \<phi>" if "target L \<phi> B x sl' = Some y" for x sl' using that by (auto simp: target_def split: option.splits)
  assume "referenced L \<phi> B root R y"
  then consider "y = root" | b' sl' where "R (b', sl') = Some y" "target L \<phi> B b' sl' = Some y"
    unfolding referenced_def by blast
  then show False
  proof cases
    case 1
    then show False using forestD(2) [OF f d [OF assms(2)] assms(2,3)] by simp
  next
    case 2
    then have "b = b' \<and> sl = sl'" using forest_inj [OF f d [OF assms(2)] d [OF 2(2)] assms(2) 2(2) assms(3)] by simp
    then show False using 2(1) assms(4) by simp
  qed
qed

lemma not_entered:
  assumes "block_image L h vp \<phi> B root n stmt" "target L \<phi> B b sl = Some y" "unshared \<phi> y" "R (b, sl) = None" "dinv L \<phi> B root E R D"
  shows "y \<notin> E"
  using not_referenced [where R = R, OF assms(1-4)] assms(3,5) unfolding dinv_def by blast

lemma member_target_at:
  assumes "block_image L h vp \<phi> B root n stmt" "\<phi> b = Some (T_Struct ty, a)" "B b = Some (Struct c)" "m \<in> set (members_of ty c)"
  shows "member_of c m = 0 \<Longrightarrow> target L \<phi> B b (Slot_Member m) = None"
    "member_of c m \<noteq> 0 \<Longrightarrow> target L \<phi> B b (Slot_Member m) = Some (b + offset_of L ty m + member_of c m)
       \<and> (\<exists>p. \<phi> (b + offset_of L ty m + member_of c m) = Some (T_Statement, p))"
proof -
  obtain s where s: "good_struct L h vp \<phi> ty b s c" "members_of ty c = members_of ty s"
    using block_struct [OF assms(1,2)] assms(3) by (metis obj.inject(2) option.inject)
  then have "good_member L h \<phi> ty b s c m" using assms(4) by (simp add: good_struct_def)
  then show "member_of c m = 0 \<Longrightarrow> target L \<phi> B b (Slot_Member m) = None"
    "member_of c m \<noteq> 0 \<Longrightarrow> target L \<phi> B b (Slot_Member m) = Some (b + offset_of L ty m + member_of c m)
       \<and> (\<exists>p. \<phi> (b + offset_of L ty m + member_of c m) = Some (T_Statement, p))"
    using assms(2-4) by (auto simp: target_def good_member_def points_to_def split: if_splits)
qed

lemma dinv_struct:
  assumes "dinv L \<phi> B root E R D" "\<phi> b = Some (T_Struct ty, a)" "B b = Some (Struct c)"
  obtains c' where "D b = Some (Struct c')" "progress_struct E R b ty c c'"
proof -
  from assms(1,2) obtain x y where "B b = Some x" "D b = Some y" "progress E R b (T_Struct ty) x y" unfolding dinv_def by blast
  then show thesis using that assms(3) by auto
qed

lemma dinv_statement:
  assumes "dinv L \<phi> B root E R D" "\<phi> b = Some (T_Statement, a)" "B b = Some (Statement t r d)"
  shows "D b = Some (Statement t (reloc R b Slot_V r) d)"
proof -
  from assms(1,2) obtain x y where "B b = Some x" "D b = Some y" "progress E R b T_Statement x y" unfolding dinv_def by blast
  then show ?thesis using assms(3) by auto
qed

lemma dinv_slot: "dinv L \<phi> B root E R D \<Longrightarrow> b \<notin> E \<Longrightarrow> R (b, sl) = None"
  unfolding dinv_def by (metis not_None_eq)

lemma dinv_dom: "dinv L \<phi> B root E R D \<Longrightarrow> E \<subseteq> dom \<phi>"
  by (simp add: dinv_def)

lemma map_le_upd: "R k = None \<Longrightarrow> R \<subseteq>\<^sub>m R(k \<mapsto> y)"
  by (auto simp: map_le_def)

lemma dinv_slotD:
  "dinv L \<phi> B root E R D \<Longrightarrow> R (b, sl) = Some y \<Longrightarrow>
     b \<in> E \<and> (target L \<phi> B b sl = Some y \<or> sl = Slot_Next \<or> sl = Slot_Member M_string_literal)"
  by (simp add: dinv_def)

lemma dinv_relocate:
  assumes "dinv L \<phi> B root E R D" "\<phi> b = Some (t, a)" "B b = Some x" "b \<in> E" "R (b, sl) = None"
    and "target L \<phi> B b sl = Some y \<or> sl = Slot_Next \<or> sl = Slot_Member M_string_literal" "progress E (R((b, sl) \<mapsto> y)) b t x z"
  shows "dinv L \<phi> B root E (R((b, sl) \<mapsto> y)) (D(b \<mapsto> z))"
proof (rule dinv_change [OF assms(1-3,7)])
  show "R \<subseteq>\<^sub>m R((b, sl) \<mapsto> y)" by (rule map_le_upd [where R = R, OF assms(5)])
  show "b \<in> E \<and> (target L \<phi> B b sl' = Some u \<or> sl' = Slot_Next \<or> sl' = Slot_Member M_string_literal)"
    if "(R((b, sl) \<mapsto> y)) (b, sl') = Some u" for sl' u
    using that assms(4,6) dinv_slotD [OF assms(1), of b sl' u] by (auto split: if_splits)
qed (use assms(4) in auto)

text \<open>An object is entered.\<close>

lemma dinv_enter:
  assumes "dinv L \<phi> B root E R D" "\<phi> b = Some (t, a)" "B b = Some x" "b \<notin> E" "unshared \<phi> b \<Longrightarrow> referenced L \<phi> B root R b"
    and "progress (insert b E) R b t x z"
  shows "dinv L \<phi> B root (insert b E) R (D(b \<mapsto> z))"
  by (rule dinv_change [OF assms(1-3,6)]) (use assms(4,5) dinv_slotD [OF assms(1), of b] in auto)

text \<open>A change of what the invariant leaves open.\<close>

lemma dinv_open:
  assumes "dinv L \<phi> B root E R D" "\<phi> b = Some (t, a)" "B b = Some x" "progress E R b t x z"
  shows "dinv L \<phi> B root E R (D(b \<mapsto> z))"
  unfolding dinv_def
proof (intro conjI allI impI)
  fix c t' a' assume c: "\<phi> c = Some (t', a')"
  then obtain u v where "B c = Some u" "D c = Some v" "progress E R c t' u v" using assms(1) unfolding dinv_def by blast
  then show "\<exists>x y. B c = Some x \<and> (D(b \<mapsto> z)) c = Some y \<and> progress E R c t' x y" using assms(2-4) c by (cases "c = b") auto
qed (use assms(1) in \<open>auto simp: dinv_def\<close>)

text \<open>Fuel: every entered object makes one less necessary.\<close>

lemma block_finite:
  assumes "block_image L h vp \<phi> B root n stmt"
  shows "finite (dom \<phi>)" "card (dom \<phi>) \<le> nat n"
proof -
  have "b \<in> {root..<root + n}" if "\<phi> b = Some (t, a)" for b t a
    using assms that spacedD(1) [of L root \<phi> "root + n" b t a] extent_pos [of L t] by (auto simp: block_image_def image_of_def)
  then have d: "dom \<phi> \<subseteq> {root..<root + n}" by auto
  then show "finite (dom \<phi>)" by (rule finite_subset) simp
  show "card (dom \<phi>) \<le> nat n" using card_mono [OF _ d] by simp
qed

lemma left_less:
  assumes "block_image L h vp \<phi> B root n stmt" "insert p E \<subseteq> E'" "p \<in> dom \<phi>" "p \<notin> E"
  shows "card (dom \<phi> - E') < card (dom \<phi> - E)"
  using assms(2-4) by (intro psubset_card_mono) (auto simp: block_finite(1) [OF assms(1)])

lemma left_mono:
  assumes "block_image L h vp \<phi> B root n stmt" "E \<subseteq> E'"
  shows "card (dom \<phi> - E') \<le> card (dom \<phi> - E)"
  using assms(2) by (intro card_mono) (auto simp: block_finite(1) [OF assms(1)])

section \<open>Members\<close>

definition call_relocates ::
    "layout \<Rightarrow> heap \<Rightarrow> image \<Rightarrow> heap \<Rightarrow> int \<Rightarrow> nat \<Rightarrow> decompress_call \<Rightarrow> bool" where
  "call_relocates L h \<phi> B root k call \<longleftrightarrow>
     (\<forall>p a E R st.
        \<phi> p = Some (T_Statement, a) \<longrightarrow> p \<notin> E \<longrightarrow> referenced L \<phi> B root R p \<longrightarrow> dinv L \<phi> B root E R (memory st) \<longrightarrow>
        card (dom \<phi> - E) < k \<longrightarrow>
        (\<exists>r st' E' R'. call p st = Inr (r, st') \<and> dinv L \<phi> B root E' R' (memory st') \<and> dext L h \<phi> B root {} {p} E R E' R' \<and> p \<in> E'))"

lemma call_relocatesE:
  assumes "call_relocates L h \<phi> B root k call" "\<phi> p = Some (T_Statement, a)" "p \<notin> E" "referenced L \<phi> B root R p"
    and "dinv L \<phi> B root E R (memory st)" "card (dom \<phi> - E) < k"
  obtains r st' E' R' where "call p st = Inr (r, st')" "dinv L \<phi> B root E' R' (memory st')" "dext L h \<phi> B root {} {p} E R E' R'" "p \<in> E'"
  using assms(1) [unfolded call_relocates_def, rule_format, OF assms(2-6)] by blast

text \<open>The pointers \<open>ms\<close> of the structure at \<open>b\<close> have been relocated, and no others of it.\<close>

definition members_done :: "layout \<Rightarrow> image \<Rightarrow> heap \<Rightarrow> int \<Rightarrow> member list \<Rightarrow> relocation \<Rightarrow> int set \<Rightarrow> relocation \<Rightarrow> bool" where
  "members_done L \<phi> B b ms R E' R' \<longleftrightarrow>
     (\<forall>m\<in>set ms. \<forall>y. target L \<phi> B b (Slot_Member m) = Some y \<longrightarrow> R' (b, Slot_Member m) = Some y \<and> y \<in> E')
     \<and> (\<forall>sl. sl \<notin> Slot_Member ` set ms \<longrightarrow> R' (b, sl) = R (b, sl))"

lemma relocate_member:
  assumes "block_image L h vp \<phi> B root n stmt" "dinv L \<phi> B root E R (memory st)" "\<phi> b = Some (T_Struct ty, a)" "B b = Some (Struct c)" "b \<in> E"
    and "m \<in> set (members_of ty c) \<or> m = M_string_literal" "R (b, Slot_Member m) = None"
    and "target L \<phi> B b (Slot_Member m) = Some y \<or> m = M_string_literal"
  shows "\<exists>st'. update_struct b (\<lambda>s. s\<lparr>member_of := (member_of s)(m := y)\<rparr>) st = Inr st'
    \<and> dinv L \<phi> B root E (R((b, Slot_Member m) \<mapsto> y)) (memory st')"
proof -
  obtain c' where c': "memory st b = Some (Struct c')" "progress_struct E R b ty c c'" using dinv_struct [OF assms(2-4)] by blast
  let ?c = "c'\<lparr>member_of := (member_of c')(m := y)\<rparr>" and ?R = "R((b, Slot_Member m) \<mapsto> y)"
  have "progress_struct E ?R b ty c ?c"
    using c'(2) by (auto simp: progress_struct_def reloc_def same_data_def)
  then have p: "progress E ?R b (T_Struct ty) (Struct c) (Struct ?c)" by simp
  have "dinv L \<phi> B root E ?R ((memory st)(b \<mapsto> Struct ?c))"
    by (rule dinv_relocate [where R = R, OF assms(2-5,7) _ p]) (use assms(8) in auto)
  then show ?thesis using c'(1) by (simp add: update_struct_def get_struct_def)
qed

lemma members_relocated:
  assumes "block_image L h vp \<phi> B root n stmt" "call_relocates L h \<phi> B root k call"
    and b: "\<phi> b = Some (T_Struct ty, a)" "B b = Some (Struct c)"
    and "dinv L \<phi> B root E R (memory st)" "b \<in> E" "distinct ms" "set ms \<subseteq> set (members_of ty c)"
    and "\<forall>m\<in>set ms. R (b, Slot_Member m) = None" "card (dom \<phi> - E) < k"
  shows "\<exists>st' E' R'. decompress_members L call ty b ms st = Inr st' \<and> dinv L \<phi> B root E' R' (memory st')
    \<and> dext L h \<phi> B root {b} {} E R E' R' \<and> members_done L \<phi> B b ms R E' R'"
  using assms(5-)
proof (induction ms arbitrary: E R st)
  case Nil
  then show ?case by (intro exI [of _ st] exI [of _ E] exI [of _ R]) (simp add: members_done_def)
next
  case (Cons m ms)
  obtain c' where c': "memory st b = Some (Struct c')" "progress_struct E R b ty c c'" using dinv_struct [OF Cons.prems(1) b] by blast
  have m: "m \<in> set (members_of ty c)" "R (b, Slot_Member m) = None" using Cons.prems by auto
  then have v: "member_of c' m = member_of c m" using c'(2) by (simp add: progress_struct_def reloc_def)
  note t = member_target_at [OF assms(1) b m(1)]
  show ?case
  proof (cases "member_of c m = 0")
    case True
    obtain st' E' R' where *: "decompress_members L call ty b ms st = Inr st'" "dinv L \<phi> B root E' R' (memory st')"
      "dext L h \<phi> B root {b} {} E R E' R'" "members_done L \<phi> B b ms R E' R'"
      using Cons.IH [OF Cons.prems(1,2) _ _ _ Cons.prems(6)] Cons.prems(3-5) by auto
    then have "members_done L \<phi> B b (m # ms) R E' R'" using t(1) True by (auto simp: members_done_def)
    with * show ?thesis using c'(1) v True by (auto simp: get_struct_def)
  next
    case False
    define y where "y = b + offset_of L ty m + member_of c m"
    obtain p where y: "target L \<phi> B b (Slot_Member m) = Some y" "\<phi> y = Some (T_Statement, p)"
      using t(2) [OF False] y_def by blast
    then have un: "unshared \<phi> y" by (simp add: unshared_def)
    let ?R = "R((b, Slot_Member m) \<mapsto> y)"
    obtain st1 where s1: "update_struct b (\<lambda>s. s\<lparr>member_of := (member_of s)(m := y)\<rparr>) st = Inr st1" "dinv L \<phi> B root E ?R (memory st1)"
      using relocate_member [OF assms(1) Cons.prems(1) b Cons.prems(2), of m y] m y(1) by blast
    have nr: "\<not> referenced L \<phi> B root R y" by (rule not_referenced [where R = R, OF assms(1) y(1) un m(2)])
    have "y \<notin> E" by (rule not_entered [where R = R, OF assms(1) y(1) un m(2) Cons.prems(1)])
    moreover have "referenced L \<phi> B root ?R y" using y(1) by (auto simp: referenced_def)
    ultimately obtain r st2 E2 R2 where s2: "call y st1 = Inr (r, st2)" "dinv L \<phi> B root E2 R2 (memory st2)"
        "dext L h \<phi> B root {} {y} E ?R E2 R2" "y \<in> E2"
      using call_relocatesE [OF assms(2) y(2) _ _ s1(2) Cons.prems(6)] by blast
    note d2 = dextD [OF s2(3)]
    have b2: "R2 (b, sl) = ?R (b, sl)" for sl using d2(3) [OF Cons.prems(2)] by simp
    have "m' \<noteq> m" if "m' \<in> set ms" for m' using that Cons.prems(3) by auto
    then have "\<forall>m'\<in>set ms. R2 (b, Slot_Member m') = None" using b2 Cons.prems(5) by simp
    then obtain st' E' R' where s3: "decompress_members L call ty b ms st2 = Inr st'" "dinv L \<phi> B root E' R' (memory st')"
      "dext L h \<phi> B root {b} {} E2 R2 E' R'" "members_done L \<phi> B b ms R2 E' R'"
      using Cons.IH [OF s2(2) subsetD [OF d2(1) Cons.prems(2)]] Cons.prems(3,4) left_mono [OF assms(1) d2(1)] Cons.prems(6) by auto
    have "dext L h \<phi> B root {b} {} E R E ?R" using m(2) Cons.prems(2) by (auto simp: dext_def map_le_upd)
    then have "dext L h \<phi> B root {b} {} E R E2 R2"
      by (rule dext_trans [OF _ dext_weaken [OF s2(3)]]) (use Cons.prems(2) nr in auto)
    then have x: "dext L h \<phi> B root {b} {} E R E' R'" by (rule dext_trans [OF _ s3(3)]) (use Cons.prems(2) in auto)
    have "R' (b, Slot_Member m) = Some y" "y \<in> E'"
      using b2 [of "Slot_Member m"] map_leD [OF dextD(2) [OF s3(3)]] dextD(1) [OF s3(3)] s2(4) by auto
    then have "members_done L \<phi> B b (m # ms) R E' R'" using s3(4) y(1) b2 by (auto simp: members_done_def)
    with x s3(1,2) show ?thesis using c'(1) v False s1(1) s2(1) by (auto simp: get_struct_def R2A_def y_def Let_def)
  qed
qed

section \<open>Structures\<close>

lemma update_open:
  assumes "dinv L \<phi> B root E R (memory st)" "\<phi> b = Some (T_Struct ty, a)" "B b = Some (Struct c)"
    and "\<And>c'. progress_struct E R b ty c c' \<Longrightarrow> progress_struct E R b ty c (f c')"
  shows "\<exists>st'. update_struct b f st = Inr st' \<and> dinv L \<phi> B root E R (memory st') \<and> plan_id st' = plan_id st"
proof -
  obtain c' where c': "memory st b = Some (Struct c')" "progress_struct E R b ty c c'" using dinv_struct [OF assms(1-3)] by blast
  have "progress E R b (T_Struct ty) (Struct c) (Struct (f c'))" using assms(4) [OF c'(2)] by simp
  from dinv_open [OF assms(1-3) this] show ?thesis using c'(1) by (simp add: update_struct_def get_struct_def)
qed

lemma progress_struct_open:
  assumes "progress_struct E R b ty c c'"
  shows "progress_struct E R b ty c (c'\<lparr>obj_prev := x\<rparr>)" "progress_struct E R b ty c (c'\<lparr>unique_id := x\<rparr>)"
    "progress_struct E R b ty c (c'\<lparr>max_unique_id := x\<rparr>)"
    "ty = column_STATEMENT \<Longrightarrow> progress_struct E R b ty c (c'\<lparr>member_of := (member_of c')(M_delim := x)\<rparr>)"
  using assms by (auto simp: progress_struct_def same_data_def members_of_def)

lemma enter_shared:
  assumes "dinv L \<phi> B root E R (memory st)" "\<phi> b = Some (T_Struct ty, a)" "B b = Some (Struct c)" "shared ty"
  shows "\<exists>c'. get_struct (memory st) b = Inr c' \<and> (obj_bin_defn_offset c' = 0 \<longleftrightarrow> b \<in> E)"
    "b \<notin> E \<Longrightarrow> \<exists>st'. update_struct b (\<lambda>s. s\<lparr>obj_bin_defn_offset := 0\<rparr>) st = Inr st' \<and> dinv L \<phi> B root (insert b E) R (memory st')"
proof -
  obtain c' where c': "memory st b = Some (Struct c')" "progress_struct E R b ty c c'" using dinv_struct [OF assms(1-3)] by blast
  then show "\<exists>c'. get_struct (memory st) b = Inr c' \<and> (obj_bin_defn_offset c' = 0 \<longleftrightarrow> b \<in> E)"
    using assms(4) by (auto simp: get_struct_def progress_struct_def)
  assume n: "b \<notin> E"
  have "progress (insert b E) R b (T_Struct ty) (Struct c) (Struct (c'\<lparr>obj_bin_defn_offset := 0\<rparr>))"
    using c'(2) by (auto simp: progress_struct_def same_data_def)
  from dinv_enter [OF assms(1-3) n _ this] assms(2,4)
  show "\<exists>st'. update_struct b (\<lambda>s. s\<lparr>obj_bin_defn_offset := 0\<rparr>) st = Inr st' \<and> dinv L \<phi> B root (insert b E) R (memory st')"
    using c'(1) by (simp add: update_struct_def get_struct_def unshared_def)
qed

lemma enter_plain:
  assumes "dinv L \<phi> B root E R D" "\<phi> b = Some (T_Struct ty, a)" "B b = Some (Struct c)" "\<not> shared ty" "b \<notin> E" "referenced L \<phi> B root R b"
  shows "dinv L \<phi> B root (insert b E) R D"
proof -
  obtain c' where c': "D b = Some (Struct c')" "progress_struct E R b ty c c'" using dinv_struct [OF assms(1-3)] by blast
  then have "progress (insert b E) R b (T_Struct ty) (Struct c) (Struct c')" using assms(4) by (auto simp: progress_struct_def)
  from dinv_enter [OF assms(1-3,5) assms(6) this] show ?thesis using c'(1) by (simp add: fun_upd_idem)
qed

lemma struct_whole:
  assumes "block_image L h vp \<phi> B root n stmt" "\<phi> b = Some (T_Struct ty, a)" "B b = Some (Struct c)"
    and "members_done L \<phi> B b (members_of ty c) R E' R1" "R1 \<subseteq>\<^sub>m R'" "E' \<subseteq> E''"
    and "is_list ty \<Longrightarrow> \<exists>s y. h a = Some (Struct s) \<and> R' (b, Slot_Next) = Some y \<and> y \<in> E'' \<and> \<phi> y = Some (T_Struct ty, obj_next s)"
    and "\<And>s. h a = Some (Struct s) \<Longrightarrow> ty = value_STATEMENT \<Longrightarrow> has_text (value_type s) \<Longrightarrow>
      \<exists>y. R' (b, Slot_Member M_string_literal) = Some y \<and> \<phi> y = Some (T_Text, member_of s M_string_literal)"
  shows "whole L h \<phi> B E'' R' b (T_Struct ty) a"
proof -
  have "R' (b, Slot_Member m) = Some y \<and> y \<in> E''" if t: "target L \<phi> B b (Slot_Member m) = Some y" for m y
  proof -
    have "m \<in> set (members_of ty c)" using t assms(2,3) by (auto simp: target_def split: if_splits)
    then show ?thesis using t assms(4,6) map_leD [OF assms(5)] unfolding members_done_def by blast
  qed
  then show ?thesis unfolding whole.simps using assms(7,8) by blast
qed

text \<open>The members of a structure that has just been entered.\<close>

lemma entered_members:
  assumes "block_image L h vp \<phi> B root n stmt" "call_relocates L h \<phi> B root k call"
    and b: "\<phi> b = Some (T_Struct ty, a)" "B b = Some (Struct c)"
    and "dinv L \<phi> B root (insert b E) R (memory st)" "b \<notin> E" "dinv L \<phi> B root E R D" "card (dom \<phi> - E) < k"
  shows "\<exists>st' E' R'. decompress_members L call ty b (members_of ty c) st = Inr st' \<and> dinv L \<phi> B root E' R' (memory st')
    \<and> dext L h \<phi> B root {b} {} (insert b E) R E' R' \<and> members_done L \<phi> B b (members_of ty c) R E' R'
    \<and> b \<in> E' \<and> card (dom \<phi> - E') < card (dom \<phi> - E)"
proof -
  have "b \<in> dom \<phi>" using b(1) by auto
  then have "card (dom \<phi> - insert b E) < k" using left_less [OF assms(1) subset_refl, of b E] assms(6,8) by auto
  moreover have "\<forall>m\<in>set (members_of ty c). R (b, Slot_Member m) = None" using dinv_slot [OF assms(7,6)] by simp
  ultimately obtain st' E' R' where *: "decompress_members L call ty b (members_of ty c) st = Inr st'" "dinv L \<phi> B root E' R' (memory st')"
      "dext L h \<phi> B root {b} {} (insert b E) R E' R'" "members_done L \<phi> B b (members_of ty c) R E' R'"
    using members_relocated [OF assms(1,2) b assms(5) _ distinct_members subset_refl] by blast
  then show ?thesis
    using dextD(1) [OF *(3)] left_less [OF assms(1) dextD(1) [OF *(3)] \<open>b \<in> dom \<phi>\<close> assms(6)] by blast
qed

definition relocated ::
    "layout \<Rightarrow> heap \<Rightarrow> image \<Rightarrow> heap \<Rightarrow> int \<Rightarrow> int \<Rightarrow> int set \<Rightarrow> relocation \<Rightarrow> int set \<Rightarrow> relocation \<Rightarrow> decompress_state \<Rightarrow> bool" where
  "relocated L h \<phi> B root b E R E' R' st' \<longleftrightarrow>
     dinv L \<phi> B root E' R' (memory st') \<and> dext L h \<phi> B root {} {b} E R E' R' \<and> b \<in> E'"

lemma shared_relocated:
  assumes "block_image L h vp \<phi> B root n stmt" "call_relocates L h \<phi> B root k call" "\<phi> b = Some (T_Struct ty, a)" "shape_of ty = SHARED_STRUCT"
    and "dinv L \<phi> B root E R (memory st)" "card (dom \<phi> - E) < k"
  shows "\<exists>st' E' R'. decompress_shared L call ty b st = Inr st' \<and> relocated L h \<phi> B root b E R E' R' st'"
proof -
  obtain c where c: "B b = Some (Struct c)" using block_struct [OF assms(1,3)] by blast
  have ty: "shared ty" "\<not> is_list ty" "members_of ty c = pointer_members ty" "ty \<noteq> value_STATEMENT"
    using assms(4) by (auto simp: shared_def is_list_def members_of_def)
  note e = enter_shared [OF assms(5,3) c ty(1)]
  show ?thesis
  proof (cases "b \<in> E")
    case True
    then show ?thesis using e(1) assms(5) by (intro exI [of _ st] exI [of _ E] exI [of _ R]) (auto simp: decompress_shared_def relocated_def)
  next
    case False
    from e(1) False obtain c' where c': "get_struct (memory st) b = Inr c'" "obj_bin_defn_offset c' \<noteq> 0" by blast
    from e(2) [OF False] obtain st1 where
      s1: "update_struct b (\<lambda>s. s\<lparr>obj_bin_defn_offset := 0\<rparr>) st = Inr st1" "dinv L \<phi> B root (insert b E) R (memory st1)" by blast
    obtain st2 E' R' where s2: "decompress_members L call ty b (pointer_members ty) st1 = Inr st2" "dinv L \<phi> B root E' R' (memory st2)"
      "dext L h \<phi> B root {b} {} (insert b E) R E' R'" "members_done L \<phi> B b (members_of ty c) R E' R'" "b \<in> E'"
      using entered_members [OF assms(1,2,3) c s1(2) False assms(5,6)] ty(3) by auto
    have "whole L h \<phi> B E' R' b (T_Struct ty) a"
      by (rule struct_whole [where R' = R' and E'' = E', OF assms(1,3) c s2(4)]) (use ty in auto)
    then have x: "dext L h \<phi> B root {} {b} E R E' R'"
      by (intro dext_enter [OF s2(3)]) (use assms(3) False in auto)
    obtain st3 where s3: "update_struct b (\<lambda>s. s\<lparr>unique_id := plan_id st2\<rparr>) st2 = Inr st3" "dinv L \<phi> B root E' R' (memory st3)"
      using update_open [OF s2(2) assms(3) c, where f = "\<lambda>s. s\<lparr>unique_id := plan_id st2\<rparr>"] progress_struct_open(2) by blast
    let ?st = "if ty = table_alias_STATEMENT then plan_id_update (\<lambda>n. n + 1) st3 else st2"
    have "decompress_shared L call ty b st = Inr ?st"
      using c' s1(1) s2(1) s3(1) by (simp add: decompress_shared_def)
    then show ?thesis using x s2(2,5) s3(2) by (intro exI [of _ ?st] exI [of _ E'] exI [of _ R']) (simp add: relocated_def)
  qed
qed

text \<open>A structure that is not in a list, and a value.\<close>

lemma plain_relocated:
  assumes "block_image L h vp \<phi> B root n stmt" "call_relocates L h \<phi> B root k call" "\<phi> b = Some (T_Struct ty, a)" "B b = Some (Struct c)"
    and "\<not> shared ty" "\<not> is_list ty" "ty = value_STATEMENT \<Longrightarrow> \<not> has_text (value_type c)"
    and "dinv L \<phi> B root E R (memory st)" "card (dom \<phi> - E) < k" "b \<notin> E" "referenced L \<phi> B root R b"
  shows "\<exists>st' E' R'. decompress_members L call ty b (members_of ty c) st = Inr st' \<and> relocated L h \<phi> B root b E R E' R' st'"
proof -
  have "dinv L \<phi> B root (insert b E) R (memory st)" by (rule enter_plain [OF assms(8,3,4,5,10,11)])
  then obtain st2 E' R' where s2: "decompress_members L call ty b (members_of ty c) st = Inr st2" "dinv L \<phi> B root E' R' (memory st2)"
      "dext L h \<phi> B root {b} {} (insert b E) R E' R'" "members_done L \<phi> B b (members_of ty c) R E' R'" "b \<in> E'"
    using entered_members [OF assms(1-4) _ assms(10,8,9)] by blast
  have v: "value_type c = value_type s" if "h a = Some (Struct s)" for s
    using block_struct [OF assms(1,3)] that assms(4) by (metis obj.inject(2) option.inject)
  have "whole L h \<phi> B E' R' b (T_Struct ty) a"
    by (rule struct_whole [where R' = R' and E'' = E', OF assms(1,3,4) s2(4)]) (use assms(6,7) v in auto)
  then have "dext L h \<phi> B root {} {b} E R E' R'"
    by (intro dext_enter [OF s2(3)]) (use assms(3,10) in auto)
  then show ?thesis using s2 by (auto simp: relocated_def)
qed

lemma value_relocated:
  assumes "block_image L h vp \<phi> B root n stmt" "call_relocates L h \<phi> B root k call" "\<phi> b = Some (T_Struct value_STATEMENT, a)"
    and "h a = Some (Struct s)" "value_ok h s"
    and "dinv L \<phi> B root E R (memory st)" "card (dom \<phi> - E) < k" "b \<notin> E" "referenced L \<phi> B root R b"
  shows "\<exists>st' E' R'. decompress_value L call b st = Inr st' \<and> relocated L h \<phi> B root b E R E' R' st'"
proof -
  obtain c where c: "B b = Some (Struct c)" "good_struct L h vp \<phi> value_STATEMENT b s c" "value_type c = value_type s"
    using block_struct [OF assms(1,3)] assms(4) by (metis obj.inject(2) option.inject)
  obtain c' where c': "memory st b = Some (Struct c')" "progress_struct E R b value_STATEMENT c c'" using dinv_struct [OF assms(6,3) c(1)] by blast
  have v: "value_type c' = value_type s" using c'(2) c(3) by (simp add: progress_struct_def same_data_def)
  have ty: "\<not> shared value_STATEMENT" "\<not> is_list value_STATEMENT" by (simp_all add: shared_def is_list_def)
  show ?thesis
  proof (cases "has_text (value_type s)")
    case False
    then have "decompress_value L call b st = decompress_members L call value_STATEMENT b (members_of value_STATEMENT c) st"
      using assms(5) c'(1) v c(3) by (auto simp: decompress_value_def value_ok_def get_struct_def members_of_def simp del: decompress_members.simps)
    then show ?thesis using plain_relocated [OF assms(1-3) c(1) ty _ assms(6-9)] False c(3) by simp
  next
    case True
    let ?y = "b + offset_of L value_STATEMENT M_string_literal + member_of c M_string_literal"
    let ?sl = "Slot_Member M_string_literal" and ?E = "insert b E"
    have y: "\<phi> ?y = Some (T_Text, member_of s M_string_literal)" using c(2) True by (simp add: good_struct_def good_text_def points_to_def)
    have "R (b, ?sl) = None" by (rule dinv_slot [OF assms(6,8)])
    moreover have i: "dinv L \<phi> B root ?E R (memory st)" by (rule enter_plain [OF assms(6,3) c(1) ty(1) assms(8,9)])
    ultimately obtain st' where s: "update_struct b (\<lambda>s. s\<lparr>member_of := (member_of s)(M_string_literal := ?y)\<rparr>) st = Inr st'"
        "dinv L \<phi> B root ?E (R((b, ?sl) \<mapsto> ?y)) (memory st')"
      using relocate_member [OF assms(1) i assms(3) c(1), of M_string_literal ?y] by blast
    have "member_of c' M_string_literal = member_of c M_string_literal"
      using c'(2) \<open>R (b, ?sl) = None\<close> by (simp add: progress_struct_def reloc_def)
    then have r: "decompress_value L call b st = Inr st'"
      using s(1) c'(1) v True by (auto simp: decompress_value_def get_struct_def update_struct_def R2A_def has_text_def Let_def)
    have "members_of value_STATEMENT c = []" using True c(3) by (auto simp: members_of_def has_text_def)
    then have "members_done L \<phi> B b (members_of value_STATEMENT c) (R((b, ?sl) \<mapsto> ?y)) ?E (R((b, ?sl) \<mapsto> ?y))" by (simp add: members_done_def)
    then have "whole L h \<phi> B ?E (R((b, ?sl) \<mapsto> ?y)) b (T_Struct value_STATEMENT) a"
      by (rule struct_whole [OF assms(1,3) c(1)]) (use ty(2) y assms(4) in auto)
    then have "dext L h \<phi> B root {} {b} E R ?E (R((b, ?sl) \<mapsto> ?y))"
      by (intro dext_enter [OF dext_refl [where Y = "{}"]]) (use assms(3,8) map_le_upd [where R = R, OF \<open>R (b, ?sl) = None\<close>] in auto)
    then show ?thesis using r s(2) by (auto simp: relocated_def)
  qed
qed

section \<open>Lists\<close>

lemma next_at:
  assumes "block_image L h vp \<phi> B root n stmt" "\<phi> b = Some (T_Struct ty, a)" "is_list ty"
  obtains s c where "h a = Some (Struct s)" "B b = Some (Struct c)"
    "obj_next c = 0 \<and> target L \<phi> B b Slot_Next = None
     \<or> obj_next c \<noteq> 0 \<and> target L \<phi> B b Slot_Next = Some (b + offset_of_next L ty + obj_next c)
       \<and> \<phi> (b + offset_of_next L ty + obj_next c) = Some (T_Struct ty, obj_next s)"
proof -
  obtain s c where s: "h a = Some (Struct s)" "B b = Some (Struct c)" "good_struct L h vp \<phi> ty b s c"
    using block_struct [OF assms(1,2)] by blast
  then show thesis
    using that [OF s(1,2)] assms(2,3) by (auto simp: good_struct_def good_next_def points_to_def target_def)
qed

definition next_of :: "layout \<Rightarrow> image \<Rightarrow> heap \<Rightarrow> int \<Rightarrow> int \<Rightarrow> int" where
  "next_of L \<phi> B start b = (case target L \<phi> B b Slot_Next of None \<Rightarrow> start | Some y \<Rightarrow> y)"

lemma next_relocated:
  assumes "block_image L h vp \<phi> B root n stmt" "\<phi> b = Some (T_Struct ty, a)" "is_list ty"
    and "dinv L \<phi> B root E R (memory st)" "b \<in> E" "R (b, Slot_Next) = None"
  shows "\<exists>st'. relocate_next L ty start b st = Inr (next_of L \<phi> B start b, st')
    \<and> dinv L \<phi> B root E (R((b, Slot_Next) \<mapsto> next_of L \<phi> B start b)) (memory st')"
proof -
  obtain c where c: "B b = Some (Struct c)"
      "next_of L \<phi> B start b = (if obj_next c = 0 then start else b + offset_of_next L ty + obj_next c)"
    by (rule next_at [OF assms(1-3)]) (auto simp: next_of_def)
  obtain c' where c': "memory st b = Some (Struct c')" "progress_struct E R b ty c c'" using dinv_struct [OF assms(4,2) c(1)] by blast
  let ?n = "next_of L \<phi> B start b"
  have "obj_next c' = obj_next c" using c'(2) assms(3,6) by (simp add: progress_struct_def reloc_def)
  then have "relocate_next L ty start b st = Inr (?n, st\<lparr>memory := (memory st)(b \<mapsto> Struct (c'\<lparr>obj_next := ?n\<rparr>))\<rparr>)"
    using c'(1) c(2) by (simp add: relocate_next_def get_struct_def update_struct_def R2A_def Let_def)
  moreover have "progress E (R((b, Slot_Next) \<mapsto> ?n)) b (T_Struct ty) (Struct c) (Struct (c'\<lparr>obj_next := ?n\<rparr>))"
    using c'(2) by (auto simp: progress_struct_def same_data_def reloc_def)
  ultimately show ?thesis using dinv_relocate [where R = R, OF assms(4,2) c(1) assms(5,6)] by simp
qed

lemma prev_set:
  assumes "block_image L h vp \<phi> B root n stmt" "\<phi> b = Some (T_Struct ty, a)" "dinv L \<phi> B root E R (memory st)"
  shows "\<exists>st'. set_prev b cur st = Inr st' \<and> dinv L \<phi> B root E R (memory st')"
proof -
  obtain c where "B b = Some (Struct c)" using block_struct [OF assms(1,2)] by blast
  from update_open [OF assms(3,2) this, where f = "\<lambda>s. s\<lparr>obj_prev := cur\<rparr>"] show ?thesis
    using progress_struct_open(1) unfolding set_prev_def by blast
qed

lemma dext_slot: "b \<in> E \<Longrightarrow> R (b, sl) = None \<Longrightarrow> dext L h \<phi> B root {b} Y E R E (R((b, sl) \<mapsto> y))"
  by (auto simp: dext_def map_le_upd)

text \<open>One element: its members and its link have been relocated, and what the link leads to has not been entered.\<close>

lemma element_relocated:
  assumes "block_image L h vp \<phi> B root n stmt" "call_relocates L h \<phi> B root k call"
    and b: "\<phi> b = Some (T_Struct ty, a)" "B b = Some (Struct c)" and ty: "shape_of ty = PLAIN_LIST"
    and "dinv L \<phi> B root E R (memory st)" "b \<notin> E" "referenced L \<phi> B root R b" "card (dom \<phi> - E) < k"
  shows "\<exists>st' E' R' R1. decompress_element L call ty start b st = Inr (next_of L \<phi> B start b, st') \<and> dinv L \<phi> B root E' R' (memory st')
    \<and> dext L h \<phi> B root {b} {} (insert b E) R E' R' \<and> members_done L \<phi> B b (members_of ty c) R E' R1 \<and> R1 \<subseteq>\<^sub>m R'
    \<and> R' (b, Slot_Next) = Some (next_of L \<phi> B start b) \<and> b \<in> E' \<and> card (dom \<phi> - E') < card (dom \<phi> - E)
    \<and> (\<forall>y. target L \<phi> B b Slot_Next = Some y \<longrightarrow> unshared \<phi> y \<longrightarrow> y \<notin> E')"
proof -
  let ?E = "insert b E" and ?n = "next_of L \<phi> B start b"
  have l: "is_list ty" "\<not> shared ty" "members_of ty c = pointer_members ty" using ty by (auto simp: is_list_def shared_def members_of_def)
  have i: "dinv L \<phi> B root ?E R (memory st)" by (rule enter_plain [OF assms(6) b l(2) assms(7,8)])
  have r: "R (b, sl) = None" for sl by (rule dinv_slot [OF assms(6,7)])
  have bd: "b \<in> dom \<phi>" using b(1) by auto
  show ?thesis
  proof (cases "ty = parameter_type_list_STATEMENT")
    case True
    let ?R = "R((b, Slot_Next) \<mapsto> ?n)"
    obtain st1 where s1: "relocate_next L ty start b st = Inr (?n, st1)" "dinv L \<phi> B root ?E ?R (memory st1)"
      using next_relocated [OF assms(1) b(1) l(1) i _ r] by blast
    have "card (dom \<phi> - ?E) < k" using left_less [OF assms(1) subset_refl bd assms(7)] assms(9) by simp
    then obtain st2 E' R' where s2: "decompress_members L call ty b (members_of ty c) st1 = Inr st2" "dinv L \<phi> B root E' R' (memory st2)"
        "dext L h \<phi> B root {b} {} ?E ?R E' R'" "members_done L \<phi> B b (members_of ty c) ?R E' R'"
      using members_relocated [OF assms(1,2) b s1(2) _ distinct_members subset_refl] r by auto
    note d = dextD [OF s2(3)]
    have "y \<notin> E'" if y: "target L \<phi> B b Slot_Next = Some y" "unshared \<phi> y" for y
    proof
      assume e: "y \<in> E'"
      have "y \<notin> ?E" by (rule not_entered [where R = R, OF assms(1) y r i])
      moreover have "referenced L \<phi> B root ?R y" using y(1) by (auto simp: referenced_def next_of_def)
      ultimately show False using d(5) e y(2) by blast
    qed
    moreover have "decompress_element L call ty start b st = Inr (?n, st2)"
      using s1(1) s2(1) l(3) True by (simp add: decompress_element_def del: decompress_members.simps)
    moreover have "dext L h \<phi> B root {b} {} ?E R E' R'"
      by (rule dext_trans [OF dext_slot [where R = R and sl = Slot_Next] s2(3)]) (use r in auto)
    moreover have "members_done L \<phi> B b (members_of ty c) R E' (R'((b, Slot_Next) := None))" using s2(4) r by (auto simp: members_done_def)
    moreover have "R' (b, Slot_Next) = Some ?n" using s2(4) by (auto simp: members_done_def)
    moreover have "R'((b, Slot_Next) := None) \<subseteq>\<^sub>m R'" by (simp add: map_le_def)
    ultimately show ?thesis using s2(2) d(1) left_less [OF assms(1) d(1) bd assms(7)] by blast
  next
    case False
    obtain st1 E' R1 where s1: "decompress_members L call ty b (members_of ty c) st = Inr st1" "dinv L \<phi> B root E' R1 (memory st1)"
        "dext L h \<phi> B root {b} {} ?E R E' R1" "members_done L \<phi> B b (members_of ty c) R E' R1" "b \<in> E'" "card (dom \<phi> - E') < card (dom \<phi> - E)"
      using entered_members [OF assms(1,2) b i assms(7,6,9)] by blast
    have r1: "R1 (b, Slot_Next) = None" using s1(4) r by (auto simp: members_done_def)
    let ?R = "R1((b, Slot_Next) \<mapsto> ?n)"
    obtain st2 where s2: "relocate_next L ty start b st1 = Inr (?n, st2)" "dinv L \<phi> B root E' ?R (memory st2)"
      using next_relocated [OF assms(1) b(1) l(1) s1(2,5) r1] by blast
    have "y \<notin> E'" if y: "target L \<phi> B b Slot_Next = Some y" "unshared \<phi> y" for y
      by (rule not_entered [where R = R1, OF assms(1) y r1 s1(2)])
    moreover have "decompress_element L call ty start b st = Inr (?n, st2)"
      using s1(1) s2(1) l(3) False by (simp add: decompress_element_def)
    moreover have "dext L h \<phi> B root {b} {} ?E R E' ?R"
      by (rule dext_trans [OF s1(3) dext_slot [where R = R1 and sl = Slot_Next and Y = "{}"]]) (use r1 s1(5) in auto)
    moreover have "R1 \<subseteq>\<^sub>m ?R" by (rule map_le_upd [where R = R1, OF r1])
    ultimately show ?thesis using s2(2) s1(4-6) by (intro exI [of _ st2] exI [of _ E'] exI [of _ ?R] exI [of _ R1]) simp
  qed
qed

text \<open>The loop over a list: the chain of the elements that are still to be entered, \<open>start\<close> the first one of all.\<close>

definition list_linked :: "image \<Rightarrow> relocation \<Rightarrow> SqlStatementType \<Rightarrow> int \<Rightarrow> int list \<Rightarrow> int set \<Rightarrow> bool" where
  "list_linked \<phi> R ty start ds N \<longleftrightarrow>
     links R start ds \<and> distinct ds \<and> set ds \<subseteq> N \<and> (\<forall>d\<in>set ds. \<exists>z. \<phi> d = Some (T_Struct ty, z))"

lemma list_linked_Cons:
  assumes "list_linked \<phi> R' ty start ds (E' - E)" "R (b, Slot_Next) = Some (hd ds)" "R \<subseteq>\<^sub>m R'" "b \<in> E" "b \<notin> F" "F \<subseteq> E" "E \<subseteq> E'"
    and "\<phi> b = Some (T_Struct ty, a)"
  shows "list_linked \<phi> R' ty start (b # ds) (E' - F)"
proof (cases ds)
  case (Cons d ds')
  then show ?thesis using assms map_leD [OF assms(3,2)] by (auto simp: list_linked_def)
qed (use assms(1) in \<open>simp add: list_linked_def\<close>)

lemma list_relocated:
  assumes "block_image L h vp \<phi> B root n stmt" "call_relocates L h \<phi> B root K call" "shape_of ty = PLAIN_LIST"
    and start: "\<phi> start = Some (T_Struct ty, v)"
    and "chain L h \<phi> B ty (cur # bs) (x # xs)" "ring h v (x # xs)" "target L \<phi> B (last (cur # bs)) Slot_Next = None"
    and "dinv L \<phi> B root E R (memory st)" "cur \<notin> E" "referenced L \<phi> B root R cur" "start \<in> insert cur E"
    and "card (dom \<phi> - E) < k" "card (dom \<phi> - E) < K"
  shows "\<exists>st' E' R' ds. decompress_list L call ty start k cur st = Inr st' \<and> relocated L h \<phi> B root cur E R E' R' st'
    \<and> hd ds = cur \<and> list_linked \<phi> R' ty start ds (E' - E)"
  using assms(5-)
proof (induction k arbitrary: cur bs x xs E R st)
  case 0
  then show ?case by simp
next
  case (Suc k)
  have l: "is_list ty" "\<not> shared ty" "ty \<noteq> value_STATEMENT" using assms(3) by (auto simp: is_list_def shared_def)
  have cur: "\<phi> cur = Some (T_Struct ty, x)" using chain_head [OF Suc.prems(1)] by simp
  obtain s c where s: "h x = Some (Struct s)" "B cur = Some (Struct c)" using block_struct [OF assms(1) cur] by blast
  let ?n = "next_of L \<phi> B start cur"
  obtain st1 E1 R1 Rm where s1: "decompress_element L call ty start cur st = Inr (?n, st1)" "dinv L \<phi> B root E1 R1 (memory st1)"
      "dext L h \<phi> B root {cur} {} (insert cur E) R E1 R1" "members_done L \<phi> B cur (members_of ty c) R E1 Rm" "Rm \<subseteq>\<^sub>m R1"
      "R1 (cur, Slot_Next) = Some ?n" "cur \<in> E1" "card (dom \<phi> - E1) < card (dom \<phi> - E)"
    and fresh: "\<And>y. target L \<phi> B cur Slot_Next = Some y \<Longrightarrow> unshared \<phi> y \<Longrightarrow> y \<notin> E1"
    using element_relocated [OF assms(1,2) cur s(2) assms(3) Suc.prems(4,5,6,9)] by blast
  note d1 = dextD [OF s1(3)]
  have r: "R (cur, sl) = None" for sl by (rule dinv_slot [OF Suc.prems(4,5)])
  have w: "whole L h \<phi> B E' R' cur (T_Struct ty) x" if "R1 \<subseteq>\<^sub>m R'" "E1 \<subseteq> E'" "?n \<in> E'" "\<phi> ?n = Some (T_Struct ty, obj_next s)" for E' R'
    using that s(1) s1(6) l(3) map_leD [OF that(1) s1(6)]
    by (intro struct_whole [OF assms(1) cur s(2) s1(4) map_le_trans [OF s1(5) that(1)] that(2)]) auto
  show ?case
  proof (cases bs)
    case Nil
    then have xs: "xs = []" using Suc.prems(1) by (cases xs) auto
    then have v: "obj_next s = v" using Suc.prems(2) s(1) by simp
    have n: "?n = start" using Suc.prems(3) Nil by (simp add: next_of_def)
    obtain st2 where s2: "set_prev start cur st1 = Inr st2" "dinv L \<phi> B root E1 R1 (memory st2)"
      using prev_set [OF assms(1) start s1(2)] by blast
    have "start \<in> E1" using Suc.prems(7) d1(1) by blast
    then have "whole L h \<phi> B E1 R1 cur (T_Struct ty) x" using w [of R1 E1] n v start by simp
    then have "dext L h \<phi> B root {} {cur} E R E1 R1" by (intro dext_enter [OF s1(3)]) (use cur Suc.prems(5) in auto)
    moreover have "list_linked \<phi> R1 ty start [cur] (E1 - E)" using s1(6,7) n cur Suc.prems(5) by (simp add: list_linked_def)
    moreover have "decompress_list L call ty start (Suc k) cur st = Inr st2" using s1(1) s2(1) n by simp
    ultimately show ?thesis using s2(2) s1(7) by (intro exI [of _ st2] exI [of _ E1] exI [of _ R1] exI [of _ "[cur]"]) (simp add: relocated_def)
  next
    case (Cons b' bs')
    then obtain x' xs' where xs: "xs = x' # xs'" using Suc.prems(1) by (cases xs) auto
    have ch: "target L \<phi> B cur Slot_Next = Some b'" "obj_next s = x'" "chain L h \<phi> B ty (b' # bs') (x' # xs')"
      using Suc.prems(1) s(1) unfolding Cons xs by auto
    have n: "?n = b'" using ch(1) by (simp add: next_of_def)
    have b': "\<phi> b' = Some (T_Struct ty, x')" using chain_head [OF ch(3)] by simp
    then have un: "unshared \<phi> b'" using l(2) by (simp add: unshared_def)
    have b1: "b' \<notin> E1" by (rule fresh [OF ch(1) un])
    then have ne: "b' \<noteq> start" using Suc.prems(7) d1(1) by blast
    obtain st2 where s2: "set_prev b' cur st1 = Inr st2" "dinv L \<phi> B root E1 R1 (memory st2)"
      using prev_set [OF assms(1) b' s1(2)] by blast
    have "referenced L \<phi> B root R1 b'" using s1(6) ch(1) n by (auto simp: referenced_def)
    moreover have "ring h v (x' # xs')" using Suc.prems(2) s(1) xs by simp
    moreover have "target L \<phi> B (last (b' # bs')) Slot_Next = None" using Suc.prems(3) Cons by simp
    moreover have "start \<in> insert b' E1" "card (dom \<phi> - E1) < k" "card (dom \<phi> - E1) < K"
      using Suc.prems(7-9) d1(1) s1(8) by auto
    ultimately obtain st' E' R' ds where s3: "decompress_list L call ty start k b' st2 = Inr st'" "relocated L h \<phi> B root b' E1 R1 E' R' st'"
        "hd ds = b'" "list_linked \<phi> R' ty start ds (E' - E1)"
      using Suc.IH [OF ch(3) _ _ s2(2) b1] by blast
    have d3: "dinv L \<phi> B root E' R' (memory st')" "dext L h \<phi> B root {} {b'} E1 R1 E' R'" "b' \<in> E'" using s3(2) by (simp_all add: relocated_def)
    have nr: "\<not> referenced L \<phi> B root R b'" by (rule not_referenced [where R = R, OF assms(1) ch(1) un r])
    have "dext L h \<phi> B root {cur} {} (insert cur E) R E' R'"
      by (rule dext_trans [OF s1(3) dext_weaken [OF d3(2)]]) (use nr in auto)
    moreover have "whole L h \<phi> B E' R' cur (T_Struct ty) x" using w [OF dextD(2,1) [OF d3(2)]] n d3(3) b' ch(2) by simp
    ultimately have "dext L h \<phi> B root {} {cur} E R E' R'" by (intro dext_enter) (use cur Suc.prems(5) in auto)
    moreover have "list_linked \<phi> R' ty start (cur # ds) (E' - E)"
      by (rule list_linked_Cons [where R = R1, OF s3(4) _ dextD(2) [OF d3(2)] s1(7) Suc.prems(5) _ dextD(1) [OF d3(2)] cur])
        (use s1(6) n s3(3) d1(1) in auto)
    moreover have "decompress_list L call ty start (Suc k) cur st = Inr st'" using s1(1) s2(1) s3(1) n ne by simp
    ultimately show ?thesis
      using d3 dextD(1) [OF d3(2)] s1(7) by (intro exI [of _ st'] exI [of _ E'] exI [of _ R'] exI [of _ "cur # ds"]) (auto simp: relocated_def)
  qed
qed

text \<open>An unshared object reached by a part of the traversal is whole.\<close>

lemma newly_whole:
  assumes "block_image L h vp \<phi> B root n stmt" "dext L h \<phi> B root X Y E R E' R'" "dinv L \<phi> B root E R D"
    and "target L \<phi> B b sl = Some y" "unshared \<phi> y" "R (b, sl) = None" "y \<in> E'" "\<phi> y = Some (t, a)"
  shows "y \<notin> E" "whole L h \<phi> B E' R' y t a"
proof -
  show "y \<notin> E" by (rule not_entered [where R = R, OF assms(1,4-6,3)])
  then show "whole L h \<phi> B E' R' y t a" using dextD(4) [OF assms(2,7)] assms(8) by blast
qed

text \<open>A statement that is whole, as the memory has it.\<close>

lemma whole_statement:
  assumes "block_image L h vp \<phi> B root n stmt" "dinv L \<phi> B root E R D" "\<phi> y = Some (T_Statement, a)" "whole L h \<phi> B E R y T_Statement a"
    and "h a = Some (Statement t v d)" "t \<noteq> data_type_struct_STATEMENT"
  obtains e where "D y = Some (Statement t e d)" "\<phi> e = Some (T_Struct t, v)" "e \<in> E" "target L \<phi> B y Slot_V = Some e"
    "shape_of t = PLAIN_LIST \<longrightarrow> (\<exists>ds. hd ds = e \<and> links R e ds \<and> distinct ds \<and> (\<forall>d\<in>set ds. \<exists>z. \<phi> d = Some (T_Struct t, z)))"
proof -
  obtain r where r: "B y = Some (Statement t r d)" "target L \<phi> B y Slot_V = Some (y + offset_of_v L + r)"
      "\<phi> (y + offset_of_v L + r) = Some (T_Struct t, v)"
    by (rule block_statement [OF assms(1,3)]) (use assms(5,6) in auto)
  have "R (y, Slot_V) = Some (y + offset_of_v L + r)" "y + offset_of_v L + r \<in> E" using assms(4) r(2) by auto
  moreover have "D y = Some (Statement t (reloc R y Slot_V r) d)" by (rule dinv_statement [OF assms(2,3) r(1)])
  ultimately show thesis using that [of "y + offset_of_v L + r"] r(2,3) assms(4,5) by (auto simp: reloc_def)
qed

text \<open>The member \<open>m\<close> of a structure that is being relocated, when it is done.\<close>

lemma member_reached:
  assumes "block_image L h vp \<phi> B root n stmt" "dext L h \<phi> B root X Y E R E' R'" "dinv L \<phi> B root E R D" "dinv L \<phi> B root E' R' D'"
    and "\<phi> b = Some (T_Struct ty, a)" "h a = Some (Struct s)" "m \<in> set (members_of ty s)" "live h (member_of s m)"
    and "R (b, Slot_Member m) = None"
    and "\<And>y. target L \<phi> B b (Slot_Member m) = Some y \<Longrightarrow> R' (b, Slot_Member m) = Some y \<and> y \<in> E'"
  obtains c' y where "D' b = Some (Struct c')" "member_of c' m = y" "\<phi> y = Some (T_Statement, member_of s m)" "y \<notin> E" "y \<in> E'"
    "whole L h \<phi> B E' R' y T_Statement (member_of s m)"
proof -
  obtain c where c: "B b = Some (Struct c)" "good_struct L h vp \<phi> ty b s c" "members_of ty c = members_of ty s"
    using block_struct [OF assms(1,5)] assms(6) by (metis obj.inject(2) option.inject)
  let ?y = "b + offset_of L ty m + member_of c m"
  have y: "target L \<phi> B b (Slot_Member m) = Some ?y" "\<phi> ?y = Some (T_Statement, member_of s m)"
    using c assms(5,7,8) by (auto simp: good_struct_def good_member_def points_to_def target_def)
  then have un: "unshared \<phi> ?y" by (simp add: unshared_def)
  have "R' (b, Slot_Member m) = Some ?y" "?y \<in> E'" using assms(10) [OF y(1)] by simp_all
  moreover obtain c' where c': "D' b = Some (Struct c')" "progress_struct E' R' b ty c c'" using dinv_struct [OF assms(4,5) c(1)] by blast
  ultimately have "member_of c' m = ?y" using assms(7) c(3) by (simp add: progress_struct_def reloc_def)
  then show thesis
    using that [OF c'(1) _ y(2)] newly_whole [where R = R, OF assms(1-3) y(1) un assms(9) \<open>?y \<in> E'\<close> y(2)] \<open>?y \<in> E'\<close> by blast
qed

section \<open>Keywords of a column\<close>

lemma keyword_found:
  assumes "block_image L h vp \<phi> B root n stmt" "dinv L \<phi> B root E R D" "links R start ds" "length ds \<le> k"
    and "\<forall>d\<in>set ds. \<exists>z. \<phi> d = Some (T_Struct ty, z)" "is_list ty"
  shows "\<exists>kw. get_keyword_from_keywords D kind start k (hd ds) = Inr kw \<and> (kw = 0 \<or> kw \<in> set ds)"
  using assms(3-5)
proof (induction ds arbitrary: k)
  case (Cons d ds)
  then obtain k' where k: "k = Suc k'" by (cases k) auto
  obtain z where z: "\<phi> d = Some (T_Struct ty, z)" using Cons.prems(3) by auto
  then obtain c where c: "B d = Some (Struct c)" using block_struct [OF assms(1)] by blast
  obtain c' where c': "D d = Some (Struct c')" "progress_struct E R d ty c c'" using dinv_struct [OF assms(2) z c] by blast
  have n: "obj_next c' = reloc R d Slot_Next (obj_next c)" using c'(2) assms(6) by (simp add: progress_struct_def)
  show ?case
  proof (cases ds)
    case Nil
    then show ?thesis using Cons.prems(1) c'(1) n k by (auto simp: get_struct_def reloc_def)
  next
    case (Cons e ds')
    then have n: "obj_next c' = e" "links R start ds" "hd ds = e" using Cons.prems(1) n by (auto simp: reloc_def)
    then obtain kw where "get_keyword_from_keywords D kind start k' e = Inr kw \<and> (kw = 0 \<or> kw \<in> set ds)"
      using Cons.IH [of k'] Cons.prems(2,3) k by auto
    then show ?thesis using c'(1) n(1) k by (auto simp: get_struct_def)
  qed
qed simp

lemma delim_keyword:
  assumes "block_image L h vp \<phi> B root n stmt" "dinv L \<phi> B root E R D" "dinv L \<phi> B root E' R' (memory st)"
    and "dext L h \<phi> B root X Y E R E' R'" "\<phi> b = Some (T_Struct column_STATEMENT, a)" "B b = Some (Struct c)"
    and "R (b, Slot_Member M_keywords) = None" "members_done L \<phi> B b (members_of column_STATEMENT c) R E' R'" "card (dom \<phi>) \<le> k"
  shows "\<exists>kw. get_keyword (memory st) k b OPTIONAL_DELIM = Inr kw \<and> (kw = 0 \<or> (\<exists>z. \<phi> kw = Some (T_Struct keyword_STATEMENT, z)))"
proof -
  obtain s where s: "h a = Some (Struct s)" "good_struct L h vp \<phi> column_STATEMENT b s c"
    using block_struct [OF assms(1,5)] assms(6) by (metis obj.inject(2) option.inject)
  have m: "M_keywords \<in> set (members_of column_STATEMENT s)" "M_keywords \<in> set (members_of column_STATEMENT c)" by (simp_all add: members_of_def)
  obtain c' where c': "memory st b = Some (Struct c')" "progress_struct E' R' b column_STATEMENT c c'" using dinv_struct [OF assms(3,5,6)] by blast
  show ?thesis
  proof (cases "live h (member_of s M_keywords)")
    case False
    then have "member_of c M_keywords = 0" using s(2) m(1) by (simp add: good_struct_def good_member_def)
    then have "target L \<phi> B b (Slot_Member M_keywords) = None" using assms(5,6) by (simp add: target_def)
    then have "R' (b, Slot_Member M_keywords) = None"
      using dinv_slotD [OF assms(3), of b "Slot_Member M_keywords"] by (cases "R' (b, Slot_Member M_keywords)") auto
    then have "member_of c' M_keywords = 0"
      using \<open>member_of c M_keywords = 0\<close> c'(2) m(2) by (simp add: progress_struct_def reloc_def)
    then show ?thesis using c'(1) by (simp add: get_keyword_def get_struct_def)
  next
    case True
    obtain y where y: "member_of c' M_keywords = y" "\<phi> y = Some (T_Statement, member_of s M_keywords)"
        "whole L h \<phi> B E' R' y T_Statement (member_of s M_keywords)"
      by (rule member_reached [where R = R, OF assms(1,4,2,3,5) s(1) m(1) True assms(7)])
        (use assms(8) m(2) c'(1) in \<open>auto simp: members_done_def\<close>)
    obtain t v d where t: "h (member_of s M_keywords) = Some (Statement t v d)" "v \<noteq> 0" using True by (auto simp: live_def)
    then have k: "t = keyword_STATEMENT" using assms(1) s(1) unfolding block_image_def keywords_typed_def by blast
    obtain e ds where e: "memory st y = Some (Statement keyword_STATEMENT e d)" "hd ds = e" "links R' e ds" "distinct ds"
        "\<forall>d\<in>set ds. \<exists>z. \<phi> d = Some (T_Struct keyword_STATEMENT, z)"
      by (rule whole_statement [OF assms(1,3) y(2,3) t(1)]) (use k in auto)
    have "set ds \<subseteq> dom \<phi>" using e(5) by auto
    then have "length ds \<le> k"
      using card_mono [OF block_finite(1) [OF assms(1)], of "set ds"] assms(9) e(4) by (simp add: distinct_card)
    then obtain kw where "get_keyword_from_keywords (memory st) OPTIONAL_DELIM e k e = Inr kw" "kw = 0 \<or> kw \<in> set ds"
      using keyword_found [OF assms(1,3) e(3) _ e(5), of k OPTIONAL_DELIM] e(2) by (auto simp: is_list_def)
    moreover have "y \<noteq> 0" using e(1) y(2) assms(1) spacedD(1) [of L root \<phi> "root + n" y] by (auto simp: block_image_def image_of_def)
    ultimately show ?thesis using c'(1) y(1) e(1,5) by (auto simp: get_keyword_def get_struct_def)
  qed
qed

lemma delim_fixed:
  assumes "block_image L h vp \<phi> B root n stmt" "dinv L \<phi> B root E R D" "dinv L \<phi> B root E' R' (memory st)"
    and "dext L h \<phi> B root X Y E R E' R'" "\<phi> b = Some (T_Struct column_STATEMENT, a)" "B b = Some (Struct c)"
    and "R (b, Slot_Member M_keywords) = None" "members_done L \<phi> B b (members_of column_STATEMENT c) R E' R'" "card (dom \<phi>) \<le> k"
  shows "\<exists>st'. fix_delim k b st = Inr st' \<and> dinv L \<phi> B root E' R' (memory st')"
proof -
  obtain kw where kw: "get_keyword (memory st) k b OPTIONAL_DELIM = Inr kw" "kw = 0 \<or> (\<exists>z. \<phi> kw = Some (T_Struct keyword_STATEMENT, z))"
    using delim_keyword [where R = R, OF assms] by blast
  have "\<exists>x. (if kw = 0 then Inr 0 else map_sum id (\<lambda>s. member_of s M_keyword_v) (get_struct (memory st) kw)) = Inr x"
    using kw(2)
  proof
    assume "\<exists>z. \<phi> kw = Some (T_Struct keyword_STATEMENT, z)"
    then obtain z where z: "\<phi> kw = Some (T_Struct keyword_STATEMENT, z)" by blast
    obtain cc where "B kw = Some (Struct cc)" using block_struct [OF assms(1) z] by blast
    then obtain c2 where "memory st kw = Some (Struct c2)" using dinv_struct [OF assms(3) z] by blast
    then show ?thesis by (simp add: get_struct_def)
  qed simp
  then obtain x where x: "(if kw = 0 then Inr 0 else map_sum id (\<lambda>s. member_of s M_keyword_v) (get_struct (memory st) kw)) = Inr x" by blast
  obtain st' where "update_struct b (\<lambda>s. s\<lparr>member_of := (member_of s)(M_delim := x)\<rparr>) st = Inr st'" "dinv L \<phi> B root E' R' (memory st')"
    using update_open [OF assms(3,5,6), where f = "\<lambda>s. s\<lparr>member_of := (member_of s)(M_delim := x)\<rparr>"] progress_struct_open(4) by blast
  then show ?thesis using kw(1) x by (simp add: fix_delim_def)
qed

end
