(* ===== verification/Decompress_Returns.thy ===== *)
theory Decompress_Returns
  imports Decompress_Laws
begin

text \<open>
  The rest of the traversal: lists whose elements are shared, joins, and the recursion. The result is that
  \<open>decompress_statement\<close> returns and that everything it has reached is whole.
\<close>

section \<open>Lists whose elements are shared\<close>

lemma next_good:
  assumes "block_image L h vp \<phi> B root n stmt" "chain L h \<phi> B ty (cur # bs) (x # xs)" "ring h v (x # xs)" "h x = Some (Struct s)"
    and "\<phi> start = Some (T_Struct ty, v)" "shape_of ty = SHARED_LIST"
  shows "\<phi> (next_of L \<phi> B start cur) = Some (T_Struct ty, obj_next s)"
    "next_of L \<phi> B start cur \<noteq> start \<Longrightarrow> \<exists>bs' x' xs'. bs = next_of L \<phi> B start cur # bs' \<and> xs = x' # xs'
       \<and> chain L h \<phi> B ty (next_of L \<phi> B start cur # bs') (x' # xs') \<and> ring h v (x' # xs')"
proof -
  let ?n = "next_of L \<phi> B start cur"
  have cur: "\<phi> cur = Some (T_Struct ty, x)" using chain_head [OF assms(2)] by simp
  have single: "single \<phi>" using assms(1) by (simp add: block_image_def image_of_def)
  have l: "is_list ty" "shared ty" using assms(6) by simp_all
  have alone: "obj_next s = v \<and> xs = []" if "bs = []" using that assms(2-4) by (cases xs) auto
  show g: "\<phi> ?n = Some (T_Struct ty, obj_next s)"
  proof (cases "target L \<phi> B cur Slot_Next")
    case None
    then have "bs = []" using assms(2) by (cases bs; cases xs) auto
    then show ?thesis using None alone assms(5) by (simp add: next_of_def)
  next
    case (Some y)
    have "\<phi> y = Some (T_Struct ty, obj_next s)"
      by (rule next_at [OF assms(1) cur l(1)]) (use Some assms(4) in auto)
    then show ?thesis using Some by (simp add: next_of_def)
  qed
  assume ne: "?n \<noteq> start"
  have "bs \<noteq> []"
  proof
    assume "bs = []"
    then have "\<phi> ?n = Some (T_Struct ty, v)" using g alone by simp
    then show False using singleD [OF single _ assms(5) l(2)] ne by blast
  qed
  then obtain b' bs' where bs: "bs = b' # bs'" by (cases bs) auto
  then obtain x' xs' where xs: "xs = x' # xs'" using assms(2) by (cases xs) auto
  have ch: "target L \<phi> B cur Slot_Next = Some b'" "chain L h \<phi> B ty (b' # bs') (x' # xs')" using assms(2) unfolding bs xs by auto
  moreover have "ring h v (x' # xs')" using assms(3,4) xs by simp
  ultimately show "\<exists>bs' x' xs'. bs = ?n # bs' \<and> xs = x' # xs' \<and> chain L h \<phi> B ty (?n # bs') (x' # xs') \<and> ring h v (x' # xs')"
    using bs xs by (simp add: next_of_def)
qed

text \<open>One element that has not been entered before.\<close>

lemma shared_element_relocated:
  assumes "block_image L h vp \<phi> B root n stmt" "call_relocates L h \<phi> B root K call" "shape_of ty = SHARED_LIST"
    and cur: "\<phi> cur = Some (T_Struct ty, x)" "B cur = Some (Struct c)" and nx: "\<phi> (next_of L \<phi> B start cur) = Some (T_Struct ty, z)"
    and "dinv L \<phi> B root E R (memory st)" "cur \<notin> E" "card (dom \<phi> - E) < K" "card (dom \<phi>) \<le> kws"
  shows "\<exists>st' E' R1. dinv L \<phi> B root E' (R1((cur, Slot_Next) \<mapsto> next_of L \<phi> B start cur)) (memory st')
    \<and> dext L h \<phi> B root {cur} {} (insert cur E) R E' (R1((cur, Slot_Next) \<mapsto> next_of L \<phi> B start cur))
    \<and> R1 (cur, Slot_Next) = None \<and> members_done L \<phi> B cur (members_of ty c) R E' R1
    \<and> cur \<in> E' \<and> card (dom \<phi> - E') < card (dom \<phi> - E)
    \<and> (\<forall>k. decompress_shared_list L kws call ty start (Suc k) cur st =
         (if next_of L \<phi> B start cur = start then Inr st'
          else decompress_shared_list L kws call ty start k (next_of L \<phi> B start cur) st'))"
proof -
  let ?n = "next_of L \<phi> B start cur"
  have l: "is_list ty" "shared ty" "members_of ty c = pointer_members ty" using assms(3) by (simp_all add: members_of_def)
  note e = enter_shared [OF assms(7) cur l(2)]
  from e(1) assms(8) obtain c' where c': "get_struct (memory st) cur = Inr c'" "obj_bin_defn_offset c' \<noteq> 0" by blast
  from e(2) [OF assms(8)] obtain st1 where
    s1: "update_struct cur (\<lambda>s. s\<lparr>obj_bin_defn_offset := 0\<rparr>) st = Inr st1" "dinv L \<phi> B root (insert cur E) R (memory st1)" by blast
  obtain st2 E' R1 where s2: "decompress_members L call ty cur (pointer_members ty) st1 = Inr st2" "dinv L \<phi> B root E' R1 (memory st2)"
      "dext L h \<phi> B root {cur} {} (insert cur E) R E' R1" "members_done L \<phi> B cur (members_of ty c) R E' R1" "cur \<in> E'"
      "card (dom \<phi> - E') < card (dom \<phi> - E)"
    using entered_members [OF assms(1,2) cur s1(2) assms(8,7,9)] l(3) by auto
  have r: "R (cur, sl) = None" for sl by (rule dinv_slot [OF assms(7,8)])
  have "\<exists>st3. (if ty = column_STATEMENT then fix_delim kws cur st2 else Inr st2) = Inr st3 \<and> dinv L \<phi> B root E' R1 (memory st3)"
  proof (cases "ty = column_STATEMENT")
    case True
    then show ?thesis using delim_fixed [where R = R, OF assms(1) s1(2) s2(2,3) _ cur(2) r _ assms(10)] cur(1) s2(4) by simp
  qed (use s2(2) in simp)
  then obtain st3 where s3: "(if ty = column_STATEMENT then fix_delim kws cur st2 else Inr st2) = Inr st3" "dinv L \<phi> B root E' R1 (memory st3)"
    by blast
  have r1: "R1 (cur, Slot_Next) = None" using s2(4) r by (auto simp: members_done_def)
  let ?R = "R1((cur, Slot_Next) \<mapsto> ?n)"
  obtain st4 where s4: "relocate_next L ty start cur st3 = Inr (?n, st4)" "dinv L \<phi> B root E' ?R (memory st4)"
    using next_relocated [OF assms(1) cur(1) l(1) s3(2) s2(5) r1] by blast
  obtain st5 where s5: "set_prev ?n cur st4 = Inr st5" "dinv L \<phi> B root E' ?R (memory st5)"
    using prev_set [OF assms(1) nx s4(2)] by blast
  have "dext L h \<phi> B root {cur} {} (insert cur E) R E' ?R"
    by (rule dext_trans [OF s2(3) dext_slot [where R = R1 and sl = Slot_Next and Y = "{}"]]) (use r1 s2(5) in auto)
  moreover have "decompress_shared_list L kws call ty start (Suc k) cur st =
      (if ?n = start then Inr st5 else decompress_shared_list L kws call ty start k ?n st5)" for k
    using c' s1(1) s2(1) s3(1) s4(1) s5(1) by simp
  ultimately show ?thesis using s5(2) r1 s2(4-6) by blast
qed

lemma shared_list_relocated:
  assumes "block_image L h vp \<phi> B root n stmt" "call_relocates L h \<phi> B root K call" "shape_of ty = SHARED_LIST"
    and start: "\<phi> start = Some (T_Struct ty, v)" and kws: "card (dom \<phi>) \<le> kws"
    and "chain L h \<phi> B ty (cur # bs) (x # xs)" "ring h v (x # xs)" "dinv L \<phi> B root E R (memory st)" "start \<in> insert cur E"
    and "card (dom \<phi> - E) < k" "card (dom \<phi> - E) < K"
  shows "\<exists>st' E' R'. decompress_shared_list L kws call ty start k cur st = Inr st' \<and> relocated L h \<phi> B root cur E R E' R' st'"
  using assms(6-)
proof (induction k arbitrary: cur bs x xs E R st)
  case 0
  then show ?case by simp
next
  case (Suc k)
  have l: "is_list ty" "shared ty" "ty \<noteq> value_STATEMENT" using assms(3) by auto
  have cur: "\<phi> cur = Some (T_Struct ty, x)" using chain_head [OF Suc.prems(1)] by simp
  obtain s c where s: "h x = Some (Struct s)" "B cur = Some (Struct c)" using block_struct [OF assms(1) cur] by blast
  show ?case
  proof (cases "cur \<in> E")
    case True
    then show ?thesis
      using enter_shared(1) [OF Suc.prems(3) cur s(2) l(2)] Suc.prems(3) by (intro exI [of _ st] exI [of _ E] exI [of _ R]) (auto simp: relocated_def)
  next
    case False
    let ?n = "next_of L \<phi> B start cur"
    note n = next_good [OF assms(1) Suc.prems(1,2) s(1) start assms(3)]
    obtain st1 E1 R1 where s1: "dinv L \<phi> B root E1 (R1((cur, Slot_Next) \<mapsto> ?n)) (memory st1)"
        "dext L h \<phi> B root {cur} {} (insert cur E) R E1 (R1((cur, Slot_Next) \<mapsto> ?n))" "R1 (cur, Slot_Next) = None"
        "members_done L \<phi> B cur (members_of ty c) R E1 R1" "cur \<in> E1" "card (dom \<phi> - E1) < card (dom \<phi> - E)"
      and run: "\<And>k. decompress_shared_list L kws call ty start (Suc k) cur st =
        (if ?n = start then Inr st1 else decompress_shared_list L kws call ty start k ?n st1)"
      using shared_element_relocated [OF assms(1-3) cur s(2) n(1) Suc.prems(3) False Suc.prems(6) kws] by blast
    let ?R = "R1((cur, Slot_Next) \<mapsto> ?n)"
    have le: "R1 \<subseteq>\<^sub>m ?R" by (rule map_le_upd [where R = R1, OF s1(3)])
    have st1: "start \<in> E1" using Suc.prems(4) dextD(1) [OF s1(2)] by blast
    have fin: "relocated L h \<phi> B root cur E R E' R' st'"
      if d: "dinv L \<phi> B root E' R' (memory st')" "dext L h \<phi> B root {} {?n} E1 ?R E' R'" "?n \<in> E'" for st' E' R'
    proof -
      have un: "\<not> unshared \<phi> ?n" using n(1) l(2) by (simp add: unshared_def)
      have "dext L h \<phi> B root {cur} {} (insert cur E) R E' R'"
        by (rule dext_trans [OF s1(2) dext_weaken [OF d(2)]]) (use un in auto)
      moreover have "R' (cur, Slot_Next) = Some ?n" using map_leD [OF dextD(2) [OF d(2)]] by simp
      then have "whole L h \<phi> B E' R' cur (T_Struct ty) x"
        using struct_whole [where R' = R', OF assms(1) cur s(2) s1(4) map_le_trans [OF le dextD(2) [OF d(2)]] dextD(1) [OF d(2)]] s(1) n(1) d(3) l(3)
        by blast
      ultimately have "dext L h \<phi> B root {} {cur} E R E' R'" by (intro dext_enter) (use cur False in auto)
      then show ?thesis using d dextD(1) [OF d(2)] s1(5) by (auto simp: relocated_def)
    qed
    show ?thesis
    proof (cases "?n = start")
      case True
      then have "relocated L h \<phi> B root cur E R E1 ?R st1" using fin [OF s1(1) dext_refl] st1 by simp
      then show ?thesis using run [of k] True by auto
    next
      case ne: False
      then obtain bs' x' xs' where ch: "chain L h \<phi> B ty (?n # bs') (x' # xs')" "ring h v (x' # xs')" using n(2) by blast
      have fuel: "card (dom \<phi> - E1) < k" "card (dom \<phi> - E1) < K" using Suc.prems(5,6) s1(6) by simp_all
      obtain st' E' R' where "decompress_shared_list L kws call ty start k ?n st1 = Inr st'" "relocated L h \<phi> B root ?n E1 ?R E' R' st'"
        using Suc.IH [OF ch s1(1) _ fuel] st1 by blast
      moreover then have "relocated L h \<phi> B root cur E R E' R' st'" using fin unfolding relocated_def by blast
      ultimately show ?thesis using run [of k] ne by auto
    qed
  qed
qed

section \<open>Joins\<close>

lemma alias_found:
  assumes "block_image L h vp \<phi> B root n stmt" "dinv L \<phi> B root E R D" "\<phi> y = Some (T_Statement, a)" "whole L h \<phi> B E R y T_Statement a"
    and "has_alias h a"
  shows "\<exists>v d. D y = Some (Statement table_alias_STATEMENT v d)" "\<exists>m. alias_number D y = Inr m"
proof -
  obtain v d where a: "h a = Some (Statement table_alias_STATEMENT v d)" using assms(5) by (auto simp: has_alias_def)
  obtain e where e: "D y = Some (Statement table_alias_STATEMENT e d)" "\<phi> e = Some (T_Struct table_alias_STATEMENT, v)"
    by (rule whole_statement [OF assms(1-4) a]) auto
  then obtain c where "B e = Some (Struct c)" using block_struct [OF assms(1)] by blast
  then obtain c' where "D e = Some (Struct c')" using dinv_struct [OF assms(2) e(2)] by blast
  with e(1) show "\<exists>v d. D y = Some (Statement table_alias_STATEMENT v d)" "\<exists>m. alias_number D y = Inr m"
    by (simp_all add: alias_number_def get_struct_def)
qed

lemma operation_alias_found:
  assumes "block_image L h vp \<phi> B root n stmt" "dinv L \<phi> B root E R D" "dinv L \<phi> B root E' R' D'" "dext L h \<phi> B root X Y E R E' R'"
    and "\<phi> y = Some (T_Statement, a)" "y \<notin> E" "whole L h \<phi> B E' R' y T_Statement a"
    and "h a = Some (Statement set_operation_STATEMENT v d)" "h v = Some (Struct s)" "has_alias h (member_of s M_operand1)"
  shows "\<exists>m. last_alias_number D' y = Inr m"
proof -
  have ty: "\<not> shared set_operation_STATEMENT" by (simp add: shared_def)
  obtain e where e: "D' y = Some (Statement set_operation_STATEMENT e d)" "\<phi> e = Some (T_Struct set_operation_STATEMENT, v)" "e \<in> E'"
      "target L \<phi> B y Slot_V = Some e"
    by (rule whole_statement [OF assms(1,3,5,7,8)]) auto
  have "unshared \<phi> e" using e(2) ty by (simp add: unshared_def)
  note w = newly_whole [where R = R, OF assms(1,4,2) e(4) this dinv_slot [OF assms(2,6)] e(3,2)]
  have l: "live h (member_of s M_operand1)" using assms(10) by (auto simp: live_def has_alias_def)
  obtain c' y' where y': "D' e = Some (Struct c')" "member_of c' M_operand1 = y'" "\<phi> y' = Some (T_Statement, member_of s M_operand1)"
      "whole L h \<phi> B E' R' y' T_Statement (member_of s M_operand1)"
    by (rule member_reached [where R = R, OF assms(1,4,2,3) e(2) assms(9), of M_operand1])
      (use l w(2) dinv_slot [OF assms(2) w(1)] in \<open>auto simp: members_of_def\<close>)
  then show ?thesis using alias_found(2) [OF assms(1,3) y'(3,4) assms(10)] e(1) by (simp add: last_alias_number_def get_struct_def)
qed

lemma join_numbered:
  assumes "block_image L h vp \<phi> B root n stmt" "dinv L \<phi> B root E R D" "relocated L h \<phi> B root b E R E' R' st" "b \<notin> E"
    and "\<phi> b = Some (T_Struct join_STATEMENT, v)" "h a = Some (Statement join_STATEMENT v d)"
  shows "\<exists>st'. set_max_unique_id b st = Inr st' \<and> dinv L \<phi> B root E' R' (memory st')"
proof -
  have st: "dinv L \<phi> B root E' R' (memory st)" "dext L h \<phi> B root {} {b} E R E' R'" "b \<in> E'" using assms(3) by (simp_all add: relocated_def)
  obtain s c where s: "h v = Some (Struct s)" "B b = Some (Struct c)" using block_struct [OF assms(1,5)] by blast
  have w: "whole L h \<phi> B E' R' b (T_Struct join_STATEMENT) v" using dextD(4) [OF st(2,3) assms(4,5)] .
  have j: "joins_typed h" using assms(1) by (simp add: block_image_def)
  then have l: "live h (member_of s M_value)" using assms(6) s(1) unfolding joins_typed_def has_alias_def live_def by blast
  obtain c' y where y: "memory st b = Some (Struct c')" "member_of c' M_value = y" "\<phi> y = Some (T_Statement, member_of s M_value)" "y \<notin> E"
      "whole L h \<phi> B E' R' y T_Statement (member_of s M_value)"
    by (rule member_reached [where R = R, OF assms(1) st(2) assms(2) st(1) assms(5) s(1), of M_value])
      (use l w dinv_slot [OF assms(2,4)] in \<open>auto simp: members_of_def\<close>)
  have "\<exists>m. last_alias_number (memory st) y = Inr m"
  proof (cases "has_alias h (member_of s M_value)")
    case True
    then show ?thesis using alias_found [OF assms(1) st(1) y(3,5)] by (auto simp: last_alias_number_def)
  next
    case False
    then obtain v' d' s' where "h (member_of s M_value) = Some (Statement set_operation_STATEMENT v' d')" "h v' = Some (Struct s')"
        "has_alias h (member_of s' M_operand1)"
      using j assms(6) s(1) unfolding joins_typed_def by blast
    then show ?thesis by (rule operation_alias_found [where R = R, OF assms(1,2) st(1,2) y(3-5)])
  qed
  then obtain m where m: "last_alias_number (memory st) y = Inr m" by blast
  obtain st' where "update_struct b (\<lambda>s. s\<lparr>max_unique_id := m + 1\<rparr>) st = Inr st'" "dinv L \<phi> B root E' R' (memory st')"
    using update_open [OF st(1) assms(5) s(2), where f = "\<lambda>s. s\<lparr>max_unique_id := m + 1\<rparr>"] progress_struct_open(3) by blast
  then show ?thesis using m y(1,2) by (simp add: set_max_unique_id_def get_struct_def)
qed

section \<open>The recursion\<close>

text \<open>The elements of a statement of the source.\<close>

lemma source_elements:
  assumes "block_image L h vp \<phi> B root n stmt" "\<phi> p = Some (T_Statement, a)" "h a = Some (Statement ty v d)" "v \<noteq> 0"
    and "ty \<noteq> data_type_struct_STATEMENT"
  shows "shape_of ty \<noteq> NO_SHAPE" "shape_of ty \<noteq> DATA_TYPE_SHAPE" "is_list ty \<Longrightarrow> \<exists>xs. ring h v (v # xs)"
    "shape_of ty = VALUE_SHAPE \<Longrightarrow> h v = Some (Struct s) \<Longrightarrow> value_ok h s"
proof -
  obtain S depth N where "wf_graph h S depth N" using assms(1) by (auto simp: block_image_def)
  then have "wf_statement h S depth N a ty v" using assms(3) by (auto simp: wf_graph_def)
  moreover show dt: "shape_of ty \<noteq> DATA_TYPE_SHAPE" using assms(5) by (cases ty) auto
  ultimately obtain es where es: "hd es = v" "if is_list ty then ring h v es else es = [v]"
      "\<forall>x\<in>set es. wf_element h depth (depth a) ty x" "shape_of ty \<noteq> NO_SHAPE"
    using assms(4) unfolding wf_statement_def by blast
  show "shape_of ty \<noteq> NO_SHAPE" by (rule es(4))
  show "\<exists>xs. ring h v (v # xs)" if "is_list ty"
  proof (cases es)
    case (Cons x xs)
    then show ?thesis using es(1,2) that by (intro exI [of _ xs]) (simp del: ring.simps)
  qed (use es(2) that in simp)
  show "value_ok h s" if "shape_of ty = VALUE_SHAPE" "h v = Some (Struct s)"
  proof -
    have "es = [v]" using es(2) that(1) by (simp add: is_list_def del: ring.simps)
    then have "wf_element h depth (depth a) ty v" using es(3) by simp
    then show ?thesis using that by (simp add: wf_element_def)
  qed
qed

lemma statement_chain:
  assumes "block_image L h vp \<phi> B root n stmt" "\<phi> p = Some (T_Statement, a)" "h a = Some (Statement ty v d)" "is_list ty"
    and "target L \<phi> B p Slot_V = Some e" "ring h v (v # xs)"
  shows "\<exists>bs. chain L h \<phi> B ty (e # bs) (v # xs) \<and> (\<not> shared ty \<longrightarrow> target L \<phi> B (last (e # bs)) Slot_Next = None)"
proof -
  obtain bs where bs: "hd bs = e" "chain L h \<phi> B ty bs (v # xs)" "\<not> shared ty \<longrightarrow> target L \<phi> B (last bs) Slot_Next = None"
    using block_object(2) [OF assms(1,2), unfolded chained_def, rule_format, OF assms(2,3,4) _ assms(6,5)] by auto
  moreover have "bs = e # tl bs" using chain_head [OF bs(2)] bs(1) by (cases bs) auto
  ultimately show ?thesis by metis
qed

lemma body_relocated:
  assumes "block_image L h vp \<phi> B root n stmt" "call_relocates L h \<phi> B root k call" "card (dom \<phi>) \<le> kws"
    and p: "\<phi> p = Some (T_Statement, a)" "h a = Some (Statement ty v d)" "v \<noteq> 0" "ty \<noteq> data_type_struct_STATEMENT"
    and e: "target L \<phi> B p Slot_V = Some e" "\<phi> e = Some (T_Struct ty, v)"
    and "dinv L \<phi> B root E R (memory st)" "card (dom \<phi> - E) < k"
    and un: "\<not> shared ty \<Longrightarrow> e \<notin> E \<and> referenced L \<phi> B root R e"
  shows "\<exists>st' E' R'. decompress_body L kws k call ty e st = Inr st' \<and> relocated L h \<phi> B root e E R E' R' st'
    \<and> (shape_of ty = PLAIN_LIST \<longrightarrow> (\<exists>ds. hd ds = e \<and> list_linked \<phi> R' ty e ds UNIV))"
proof -
  obtain s c where s: "h v = Some (Struct s)" "B e = Some (Struct c)" "constraint_kind c = constraint_kind s"
    using block_struct [OF assms(1) e(2)] by blast
  note wf = source_elements [OF assms(1) p]
  note plain = plain_relocated [OF assms(1,2) e(2) s(2) _ _ _ assms(10,11)]
  show ?thesis
  proof (cases "shape_of ty")
    case PLAIN_STRUCT
    then have "\<not> shared ty" "\<not> is_list ty" "ty \<noteq> value_STATEMENT" "members_of ty c = pointer_members ty"
      by (auto simp: shared_def is_list_def members_of_def)
    then show ?thesis using plain un PLAIN_STRUCT by (auto simp: decompress_body_def)
  next
    case SHARED_STRUCT
    then show ?thesis using shared_relocated [OF assms(1,2) e(2) _ assms(10,11)] by (auto simp: decompress_body_def)
  next
    case VALUE_SHAPE
    then have ty: "ty = value_STATEMENT" "\<not> shared ty" "\<not> is_list ty" by (cases ty; auto simp: shared_def is_list_def)+
    have "value_ok h s" using wf(4) [OF VALUE_SHAPE s(1)] .
    then show ?thesis using value_relocated [OF assms(1,2) _ s(1) _ assms(10,11)] e(2) un ty by (auto simp: decompress_body_def)
  next
    case CONSTRAINT_SHAPE
    then have ty: "\<not> shared ty" "\<not> is_list ty" "ty \<noteq> value_STATEMENT" "members_of ty c = constraint_members (constraint_kind c)"
      by (auto simp: shared_def is_list_def members_of_def)
    obtain c' where c': "memory st e = Some (Struct c')" "progress_struct E R e ty c c'" using dinv_struct [OF assms(10) e(2) s(2)] by blast
    then have "constraint_kind c' = constraint_kind c" by (simp add: progress_struct_def same_data_def)
    then show ?thesis using plain [OF ty(1,2)] un [OF ty(1)] ty(3,4) c'(1) CONSTRAINT_SHAPE by (auto simp: decompress_body_def get_struct_def)
  next
    case PLAIN_LIST
    then have l: "is_list ty" "\<not> shared ty" by (simp_all add: is_list_def shared_def)
    obtain xs where r: "ring h v (v # xs)" using wf(3) [OF l(1)] by blast
    obtain bs where ch: "chain L h \<phi> B ty (e # bs) (v # xs)" "target L \<phi> B (last (e # bs)) Slot_Next = None"
      using statement_chain [OF assms(1) p(1,2) l(1) e(1) r] l(2) by blast
    obtain st1 E' R' ds where s1: "decompress_list L call ty e k e st = Inr st1" "relocated L h \<phi> B root e E R E' R' st1"
        "hd ds = e" "list_linked \<phi> R' ty e ds (E' - E)"
      using list_relocated [OF assms(1,2) PLAIN_LIST e(2) ch(1) r ch(2) assms(10) _ _ _ assms(11,11)] un [OF l(2)] by blast
    have "\<exists>st2. (if ty = join_STATEMENT then set_max_unique_id e st1 else Inr st1) = Inr st2 \<and> dinv L \<phi> B root E' R' (memory st2)"
      using join_numbered [OF assms(1,10) s1(2)] un [OF l(2)] e(2) p(2) s1(2) by (auto simp: relocated_def)
    then obtain st2 where s2: "(if ty = join_STATEMENT then set_max_unique_id e st1 else Inr st1) = Inr st2" "dinv L \<phi> B root E' R' (memory st2)"
      by blast
    have "0 < e" using assms(1) e(2) spacedD(1) [of L root \<phi> "root + n" e "T_Struct ty" v] by (auto simp: block_image_def image_of_def)
    then have "decompress_body L kws k call ty e st = Inr st2" using s1(1) s2(1) PLAIN_LIST by (simp add: decompress_body_def)
    moreover have "relocated L h \<phi> B root e E R E' R' st2" using s1(2) s2(2) by (simp add: relocated_def)
    moreover have "list_linked \<phi> R' ty e ds UNIV" using s1(4) by (simp add: list_linked_def)
    ultimately show ?thesis using s1(3) by blast
  next
    case SHARED_LIST
    obtain xs where r: "ring h v (v # xs)" using wf(3) shared_list(2) [OF SHARED_LIST] by blast
    obtain bs where ch: "chain L h \<phi> B ty (e # bs) (v # xs)"
      using statement_chain [OF assms(1) p(1,2) shared_list(2) [OF SHARED_LIST] e(1) r] by blast
    show ?thesis
      using shared_list_relocated [OF assms(1,2) SHARED_LIST e(2) assms(3) ch r assms(10) _ assms(11,11)] SHARED_LIST
      by (auto simp: decompress_body_def)
  qed (use wf(1,2) in auto)
qed

lemma block_bounds:
  assumes "block_image L h vp \<phi> B root n stmt" "\<phi> b = Some (t, a)"
  shows "0 < b" "b < root + n"
  using assms spacedD(1) [of L root \<phi> "root + n" b t a] extent_pos [of L t] by (auto simp: block_image_def image_of_def)

lemma statement_relocated:
  assumes "block_image L h vp \<phi> B root n stmt" "\<phi> p = Some (T_Statement, a)" "B p = Some (Statement t r d)" "p \<notin> E" "referenced L \<phi> B root R p"
    and "dinv L \<phi> B root E R D"
  shows "dinv L \<phi> B root (insert p E) R D"
    "target L \<phi> B p Slot_V = Some e \<Longrightarrow> dinv L \<phi> B root (insert p E) (R((p, Slot_V) \<mapsto> e)) (D(p \<mapsto> Statement t e d))"
proof -
  have rn: "R (p, Slot_V) = None" by (rule dinv_slot [OF assms(6,4)])
  have D: "D p = Some (Statement t r d)" using dinv_statement [OF assms(6,2,3)] rn by (simp add: reloc_def)
  have pr: "progress (insert p E) R p T_Statement (Statement t r d) (Statement t r d)" using rn by (simp add: reloc_def)
  from dinv_enter [OF assms(6,2,3,4,5) pr] show i: "dinv L \<phi> B root (insert p E) R D" using D by (simp add: fun_upd_idem)
  show "target L \<phi> B p Slot_V = Some e \<Longrightarrow> dinv L \<phi> B root (insert p E) (R((p, Slot_V) \<mapsto> e)) (D(p \<mapsto> Statement t e d))"
    by (rule dinv_relocate [where R = R, OF i assms(2,3) _ rn]) (auto simp: reloc_def)
qed

lemma step_relocates:
  assumes "block_image L h vp \<phi> B root n stmt" "call_relocates L h \<phi> B root k call" "card (dom \<phi>) \<le> kws"
  shows "call_relocates L h \<phi> B root (Suc k) (decompress_step L root n kws k call)"
  unfolding call_relocates_def
proof (intro allI impI)
  fix p a E R and st :: decompress_state
  assume p: "\<phi> p = Some (T_Statement, a)" "p \<notin> E" "referenced L \<phi> B root R p" and i: "dinv L \<phi> B root E R (memory st)"
    and fuel: "card (dom \<phi> - E) < Suc k"
  obtain t v d r where t: "h a = Some (Statement t v d)" "v \<noteq> 0" "B p = Some (Statement t r d)" "r \<noteq> 0"
      "t = data_type_struct_STATEMENT \<and> r = v \<and> target L \<phi> B p Slot_V = None
       \<or> t \<noteq> data_type_struct_STATEMENT \<and> target L \<phi> B p Slot_V = Some (p + offset_of_v L + r) \<and> \<phi> (p + offset_of_v L + r) = Some (T_Struct t, v)"
    by (rule block_statement [OF assms(1) p(1)])
  have rn: "R (p, Slot_V) = None" by (rule dinv_slot [OF i p(2)])
  have D: "memory st p = Some (Statement t r d)" using dinv_statement [OF i p(1) t(3)] rn by (simp add: reloc_def)
  note enter = statement_relocated [OF assms(1) p(1) t(3) p(2,3) i]
  note bounds = block_bounds [OF assms(1) p(1)]
  show "\<exists>r st' E' R'. decompress_step L root n kws k call p st = Inr (r, st') \<and> dinv L \<phi> B root E' R' (memory st')
      \<and> dext L h \<phi> B root {} {p} E R E' R' \<and> p \<in> E'"
  proof (cases "t = data_type_struct_STATEMENT")
    case True
    then have "decompress_step L root n kws k call p st = Inr (p, st)" using D t(4) bounds by (simp add: decompress_step_def)
    moreover have "target L \<phi> B p Slot_V = None" using t(5) True by simp
    then have "dext L h \<phi> B root {} {p} E R (insert p E) R"
      by (intro dext_enter [OF dext_refl [where Y = "{}"]]) (use p(1,2) in auto)
    ultimately show ?thesis using enter(1) by blast
  next
    case False
    define e where "e = p + offset_of_v L + r"
    have e: "target L \<phi> B p Slot_V = Some e" "\<phi> e = Some (T_Struct t, v)" using t(5) False by (simp_all add: e_def)
    let ?R = "R((p, Slot_V) \<mapsto> e)" and ?E = "insert p E" and ?st = "st\<lparr>memory := (memory st)(p \<mapsto> Statement t e d)\<rparr>"
    have "dinv L \<phi> B root ?E ?R (memory ?st)" using enter(2) [OF e(1)] by simp
    moreover have "card (dom \<phi> - ?E) < k" using left_less [OF assms(1) subset_refl _ p(2)] p(1) fuel by (auto simp: domIff)
    moreover have "e \<notin> ?E \<and> referenced L \<phi> B root ?R e" if "\<not> shared t"
    proof -
      have "unshared \<phi> e" using e(2) that by (simp add: unshared_def)
      then show ?thesis using not_entered [where R = R, OF assms(1) e(1) _ rn enter(1)] e(1) by (auto simp: referenced_def)
    qed
    ultimately obtain st' E' R' where s: "decompress_body L kws k call t e ?st = Inr st'" "relocated L h \<phi> B root e ?E ?R E' R' st'"
        "shape_of t = PLAIN_LIST \<longrightarrow> (\<exists>ds. hd ds = e \<and> list_linked \<phi> R' t e ds UNIV)"
      using body_relocated [OF assms(1-3) p(1) t(1,2) False e] by blast
    have s2: "dinv L \<phi> B root E' R' (memory st')" "dext L h \<phi> B root {} {e} ?E ?R E' R'" "e \<in> E'" using s(2) by (simp_all add: relocated_def)
    have "R' (p, Slot_V) = Some e" using map_leD [OF dextD(2) [OF s2(2)]] by simp
    then have "whole L h \<phi> B E' R' p T_Statement a" using e(1) s2(3) t(1) s(3) by (auto simp: list_linked_def)
    then have "dext L h \<phi> B root {} {p} E R E' R'"
      by (intro dext_enter [OF dext_weaken [OF s2(2)] map_le_upd [where R = R, OF rn]])
        (use p(1,2) not_referenced [where R = R, OF assms(1) e(1) _ rn] in auto)
    moreover have "decompress_step L root n kws k call p st = Inr (p, st')"
      using s(1) D t(4) False bounds by (simp add: decompress_step_def R2A_def e_def Let_def)
    ultimately show ?thesis using s2(1) dextD(1) [OF s2(2)] by blast
  qed
qed

lemma helper_relocates:
  assumes "block_image L h vp \<phi> B root n stmt" "card (dom \<phi>) \<le> kws"
  shows "call_relocates L h \<phi> B root k (decompress_statement_helper L root n kws k)"
proof (induction k)
  case 0
  then show ?case by (simp add: call_relocates_def)
next
  case (Suc k)
  then show ?case using step_relocates [OF assms(1) _ assms(2)] by simp
qed

lemma helper_result:
  assumes "decompress_statement_helper L out n kws k p st = Inr (r, st')" "memory st p = Some (Statement t v d)" "v \<noteq> 0" "p \<noteq> 0"
  shows "r = p"
proof (cases k)
  case (Suc k')
  then show ?thesis using assms by (auto simp: decompress_step_def map_sum_Inr Let_def split: if_splits)
qed (use assms(1) in simp)

lemma decompressed:
  assumes "block_image L h vp \<phi> B root n stmt" "nat n < fuel"
  shows "\<exists>st E R. decompress_statement L fuel root n \<lparr>memory = B, plan_id = i, in_auto_load_octo_seed = False\<rparr> = Inr (root, st) \<and> dinv L \<phi> B root E R (memory st)
    \<and> root \<in> E \<and> (\<forall>b\<in>E. \<forall>t a. \<phi> b = Some (t, a) \<longrightarrow> whole L h \<phi> B E R b t a)"
proof -
  let ?st = "\<lparr>memory = B, plan_id = i, in_auto_load_octo_seed = False\<rparr>"
  have root: "\<phi> root = Some (T_Statement, stmt)" using assms(1) by (simp add: block_image_def image_of_def)
  have pr: "\<exists>x y. B b = Some x \<and> B b = Some y \<and> progress {} Map.empty b t x y" if "\<phi> b = Some (t, a)" for b t a
    using block_object(1) [OF assms(1) that] by (cases t) (auto simp: progress_struct_def same_data_def reloc_def good_struct_def)
  then have i0: "dinv L \<phi> B root {} Map.empty (memory ?st)" by (auto simp: dinv_def)
  have c: "card (dom \<phi>) \<le> fuel" "card (dom \<phi> - {}) < fuel" using block_finite(2) [OF assms(1)] assms(2) by simp_all
  have notin_empty: "root \<notin> {}" by simp
  have rf: "referenced L \<phi> B root Map.empty root" by (simp add: referenced_def)
  obtain r st E R where s: "decompress_statement_helper L root n fuel fuel root ?st = Inr (r, st)" "dinv L \<phi> B root E R (memory st)"
      "dext L h \<phi> B root {} {root} {} Map.empty E R" "root \<in> E"
    by (rule call_relocatesE [OF helper_relocates [OF assms(1) c(1)] root notin_empty rf i0 c(2)]) blast+
  obtain t v d where "B root = Some (Statement t v d)" "v \<noteq> 0" using block_statement [OF assms(1) root] by blast
  then have "r = root" using helper_result [OF s(1)] block_bounds(1) [OF assms(1) root] by simp
  then show ?thesis using s dextD(4) [OF s(3)] by (simp add: decompress_statement_def) blast
qed

end
