(* ===== verification/Binary_Definition.thy ===== *)
theory Binary_Definition
  imports Decompress_Returns
begin

text \<open>
  The round trip of a binary definition: the block that \<open>compress_statement\<close> writes is stored in the catalog, loaded into memory at another address and
  relocated there by \<open>decompress_statement\<close>. What can be reached from the statement by any sequence of pointers is then the
  same as in the graph that was compressed.
\<close>

section \<open>A block at another address\<close>

definition moved :: "int \<Rightarrow> (int \<Rightarrow> 'a option) \<Rightarrow> int \<Rightarrow> 'a option" where
  "moved d B b = B (b - d)"

lemma points_to_moved: "points_to (moved d \<phi>) (at + d) rel t a = points_to \<phi> at rel t a"
proof -
  have "at + d + rel - d = at + rel" by simp
  then show ?thesis by (simp add: points_to_def moved_def)
qed

lemma good_struct_moved: "good_struct L h vp (moved d \<phi>) ty (b + d) s c = good_struct L h vp \<phi> ty b s c"
proof -
  have p: "points_to (moved d \<phi>) (b + d + x) rel t a = points_to \<phi> (b + x) rel t a" for x rel t a
    using points_to_moved [of d \<phi> "b + x" rel t a] by (simp add: algebra_simps)
  show ?thesis by (simp add: good_struct_def good_member_def good_next_def good_text_def p)
qed

lemma good_object_moved: "good_object L h vp (moved d \<phi>) (moved d B) (b + d) t a = good_object L h vp \<phi> B b t a"
proof (cases t)
  case T_Statement
  have p: "points_to (moved d \<phi>) (b + d + x) rel t a = points_to \<phi> (b + x) rel t a" for x rel t a
    using points_to_moved [of d \<phi> "b + x" rel t a] by (simp add: algebra_simps)
  have B: "moved d B (b + d) = B b" by (simp add: moved_def)
  show ?thesis unfolding T_Statement good_object.simps p B ..
next
  case (T_Struct ty)
  have B: "moved d B (b + d) = B b" by (simp add: moved_def)
  show ?thesis unfolding T_Struct good_object.simps good_struct_moved B ..
next
  case T_Text
  then show ?thesis by (simp add: moved_def)
qed

lemma target_moved: "target L (moved d \<phi>) (moved d B) (b + d) sl = map_option (\<lambda>y. y + d) (target L \<phi> B b sl)"
proof (cases "\<phi> b")
  case (Some x)
  obtain t a where x: "x = (t, a)" by (cases x)
  show ?thesis
  proof (cases "B b")
    case (Some y)
    then show ?thesis
      using \<open>\<phi> b = Some x\<close> x by (cases "(L, t, b, y, sl)" rule: slot_target.cases) (simp_all add: target_def moved_def algebra_simps)
  qed (use Some x in \<open>simp add: target_def moved_def\<close>)
qed (simp add: target_def moved_def)

lemma chain_moved: "chain L h \<phi> B ty bs xs \<Longrightarrow> chain L h (moved d \<phi>) (moved d B) ty (map (\<lambda>b. b + d) bs) xs"
proof (induction L h \<phi> B ty bs xs rule: chain.induct)
  case (1 L h \<phi> B ty b x)
  then show ?case by (simp add: moved_def)
next
  case (2 L h \<phi> B ty b b' bs x x' xs)
  then show ?case by (simp add: target_moved) (simp add: moved_def)
qed simp_all

lemma unshared_moved: "unshared (moved d \<phi>) (y + d) = unshared \<phi> y"
  by (simp add: unshared_def moved_def)

lemma dom_moved: "dom (moved d \<phi>) = (\<lambda>b. b + d) ` dom \<phi>"
proof (rule set_eqI)
  fix x show "x \<in> dom (moved d \<phi>) \<longleftrightarrow> x \<in> (\<lambda>b. b + d) ` dom \<phi>"
    by (auto simp: moved_def image_iff dom_def intro!: exI [of _ "x - d"])
qed

lemma forest_moved:
  assumes "forest L \<phi> B N R"
  shows "forest L (moved d \<phi>) (moved d B) ((\<lambda>b. b + d) ` N) ((\<lambda>b. b + d) ` R)"
  unfolding forest_def
proof (intro conjI ballI allI impI)
  have t: "\<exists>z. y = z + d \<and> target L \<phi> B b sl = Some z" if "target L (moved d \<phi>) (moved d B) (b + d) sl = Some y" for b sl y
    using that by (auto simp: target_moved)
  fix b sl y assume b: "b \<in> (\<lambda>b. b + d) ` N" "target L (moved d \<phi>) (moved d B) b sl = Some y" "unshared (moved d \<phi>) y"
  then obtain c z where c: "b = c + d" "c \<in> N" "y = z + d" "target L \<phi> B c sl = Some z" using t by blast
  then have u: "unshared \<phi> z" using b(3) by (simp add: unshared_moved)
  show "y \<in> (\<lambda>b. b + d) ` N" "y \<notin> (\<lambda>b. b + d) ` R" using forestD [OF assms c(2,4) u] c(3) by auto
next
  have t: "\<exists>z. y = z + d \<and> target L \<phi> B b sl = Some z" if "target L (moved d \<phi>) (moved d B) (b + d) sl = Some y" for b sl y
    using that by (auto simp: target_moved)
  fix b b' sl sl' y
  assume b: "b \<in> (\<lambda>b. b + d) ` N" "b' \<in> (\<lambda>b. b + d) ` N" "target L (moved d \<phi>) (moved d B) b sl = Some y"
    "target L (moved d \<phi>) (moved d B) b' sl' = Some y" "unshared (moved d \<phi>) y"
  obtain c z where c: "b = c + d" "c \<in> N" "y = z + d" "target L \<phi> B c sl = Some z" using b(1,3) t by blast
  obtain c' where c': "b' = c' + d" "c' \<in> N" "target L \<phi> B c' sl' = Some z" using b(2,4) t c(3) by fastforce
  have "unshared \<phi> z" using b(5) c(3) by (simp add: unshared_moved)
  then show "b = b'" "sl = sl'" using forest_inj [OF assms c(2) c'(2) c(4) c'(3)] c(1) c'(1) by simp_all
qed

lemma chained_moved:
  assumes "chained L h \<phi> B N b"
  shows "chained L h (moved d \<phi>) (moved d B) ((\<lambda>b. b + d) ` N) (b + d)"
  unfolding chained_def
proof (intro allI impI)
  fix a t v da e xs
  assume p: "moved d \<phi> (b + d) = Some (T_Statement, a)" "h a = Some (Statement t v da)" "is_list t" "hd xs = v" "ring h v xs"
    and e: "target L (moved d \<phi>) (moved d B) (b + d) Slot_V = Some e"
  have "\<phi> b = Some (T_Statement, a)" using p(1) by (simp add: moved_def)
  moreover obtain f where f: "e = f + d" "target L \<phi> B b Slot_V = Some f" using e by (auto simp: target_moved)
  ultimately obtain bs where bs: "hd bs = f" "chain L h \<phi> B t bs xs"
      "\<not> shared t \<longrightarrow> set bs \<subseteq> N \<and> target L \<phi> B (last bs) Slot_Next = None"
    using assms p(2-5) unfolding chained_def by blast
  have ne: "bs \<noteq> []" using chain_head [OF bs(2)] by simp
  show "\<exists>bs. hd bs = e \<and> chain L h (moved d \<phi>) (moved d B) t bs xs
      \<and> (\<not> shared t \<longrightarrow> set bs \<subseteq> (\<lambda>b. b + d) ` N \<and> target L (moved d \<phi>) (moved d B) (last bs) Slot_Next = None)"
    using bs(1,3) f(1) ne chain_moved [OF bs(2)]
    by (intro exI [of _ "map (\<lambda>b. b + d) bs"]) (auto simp: hd_map last_map target_moved)
qed

lemma single_moved:
  assumes "single \<phi>"
  shows "single (moved d \<phi>)"
  unfolding single_def moved_def
proof (intro allI impI)
  fix x y ty a assume "\<phi> (x - d) = Some (T_Struct ty, a)" "\<phi> (y - d) = Some (T_Struct ty, a)" "shared ty"
  then have "x - d = y - d" by (rule singleD [OF assms])
  then show "x = y" by simp
qed

lemma spaced_moved:
  assumes "spaced L out \<phi> lim"
  shows "spaced L (out + d) (moved d \<phi>) (lim + d)"
  unfolding spaced_def moved_def
proof (intro allI impI)
  fix b t a assume b: "\<phi> (b - d) = Some (t, a)"
  have "b + extent L t \<le> b'" if b': "b < b'" "\<phi> (b' - d) \<noteq> None" for b'
  proof -
    obtain x where x: "\<phi> (b' - d) = Some x" using b'(2) by blast
    have "b - d < b' - d" using b'(1) by simp
    from spacedD(2) [OF assms b this x] show ?thesis by simp
  qed
  moreover have "out \<le> b - d \<and> b - d + extent L t \<le> lim" by (rule spacedD(1) [OF assms b])
  ultimately show "out + d \<le> b \<and> b + extent L t \<le> lim + d \<and> (\<forall>b'. b < b' \<longrightarrow> \<phi> (b' - d) \<noteq> None \<longrightarrow> b + extent L t \<le> b')" by simp
qed

lemma placed_moved:
  assumes "placed L h vp \<phi> B (dom \<phi>) {out}"
  shows "placed L h vp (moved d \<phi>) (moved d B) (dom (moved d \<phi>)) {out + d}"
  unfolding placed_def dom_moved
proof (intro conjI ballI)
  have o: "out \<in> dom \<phi>" "forest L \<phi> B (dom \<phi>) {out}" using assms by (simp_all add: placed_def)
  show "(\<lambda>b. b + d) ` dom \<phi> \<subseteq> (\<lambda>b. b + d) ` dom \<phi>" by (rule subset_refl)
  show "{out + d} \<subseteq> (\<lambda>b. b + d) ` dom \<phi>" using o(1) by blast
  show "forest L (moved d \<phi>) (moved d B) ((\<lambda>b. b + d) ` dom \<phi>) {out + d}" using forest_moved [OF o(2), of d] by simp
  fix b assume "b \<in> (\<lambda>b. b + d) ` dom \<phi>"
  then obtain c where c: "b = c + d" "c \<in> dom \<phi>" by blast
  obtain t a where t: "\<phi> c = Some (t, a)" "good_object L h vp \<phi> B c t a" "chained L h \<phi> B (dom \<phi>) c" by (rule placedD [OF assms c(2)])
  have "moved d \<phi> b = Some (t, a)" using t(1) c(1) by (simp add: moved_def)
  then show "good_object L h vp (moved d \<phi>) (moved d B) b (fst (the (moved d \<phi> b))) (snd (the (moved d \<phi> b)))"
    using t(2) good_object_moved [of L h vp d \<phi> B c t a] c(1) by simp
  show "chained L h (moved d \<phi>) (moved d B) ((\<lambda>b. b + d) ` dom \<phi>) b" unfolding c(1) by (rule chained_moved [OF t(3)])
qed

lemma image_of_moved:
  assumes "image_of L h vp \<phi> B out n stmt"
  shows "image_of L h vp (moved d \<phi>) (moved d B) (out + d) n stmt"
proof -
  have i: "dom \<phi> = dom B" "spaced L out \<phi> (out + n)" "single \<phi>" "\<phi> out = Some (T_Statement, stmt)" "placed L h vp \<phi> B (dom \<phi>) {out}"
    using assms unfolding image_of_def by blast+
  have "dom (moved d \<phi>) = dom (moved d B)" using i(1) by (simp only: dom_moved)
  moreover have "spaced L (out + d) (moved d \<phi>) (out + d + n)" using spaced_moved [OF i(2), of d] by (simp add: algebra_simps)
  moreover have "moved d \<phi> (out + d) = Some (T_Statement, stmt)" using i(4) by (simp add: moved_def)
  ultimately show ?thesis unfolding image_of_def using single_moved [OF i(3)] placed_moved [OF i(5)] by blast
qed

section \<open>What can be reached\<close>

text \<open>From an object along one pointer: to the structure of a statement, to a member, to the next element of a list, to the text of a value.\<close>

datatype pointer = Down | To member | Onward | Literal

fun hop :: "heap \<Rightarrow> pointer \<Rightarrow> tag \<times> int \<Rightarrow> (tag \<times> int) option" where
  "hop h Down (T_Statement, a) =
     (case h a of
        Some (Statement t v d) \<Rightarrow> if v = 0 \<or> t = data_type_struct_STATEMENT then None else Some (T_Struct t, v)
      | _ \<Rightarrow> None)"
| "hop h (To m) (T_Struct ty, a) =
     (case h a of
        Some (Struct s) \<Rightarrow> if m \<in> set (members_of ty s) \<and> live h (member_of s m) then Some (T_Statement, member_of s m) else None
      | _ \<Rightarrow> None)"
| "hop h Onward (T_Struct ty, a) =
     (case h a of Some (Struct s) \<Rightarrow> if is_list ty then Some (T_Struct ty, obj_next s) else None | _ \<Rightarrow> None)"
| "hop h Literal (T_Struct ty, a) =
     (case h a of
        Some (Struct s) \<Rightarrow> if ty = value_STATEMENT \<and> has_text (value_type s) then Some (T_Text, member_of s M_string_literal) else None
      | _ \<Rightarrow> None)"
| "hop h _ _ = None"

fun walk :: "heap \<Rightarrow> pointer list \<Rightarrow> tag \<times> int \<Rightarrow> (tag \<times> int) option" where
  "walk h [] x = Some x"
| "walk h (p # ps) x = (case hop h p x of None \<Rightarrow> None | Some y \<Rightarrow> walk h ps y)"

text \<open>An object without its pointers and the numbers that are given anew; a view forgets the parameters of its query.\<close>

definition erased :: "bool \<Rightarrow> SqlStatementType \<Rightarrow> struct_obj \<Rightarrow> struct_obj" where
  "erased vp ty s = s\<lparr>member_of := \<lambda>_. 0, obj_next := 0, obj_prev := 0, obj_bin_defn_offset := 0, unique_id := 0, max_unique_id := 0,
     parameter_index := if vp \<and> ty = value_STATEMENT \<and> has_text (value_type s) then 0 else parameter_index s,
     scale_parameter_index := if vp \<and> ty = value_STATEMENT \<and> value_type s = COERCE_TYPE then 0 else scale_parameter_index s,
     size_or_precision_parameter_index :=
       if vp \<and> ty = value_STATEMENT \<and> value_type s = COERCE_TYPE then 0 else size_or_precision_parameter_index s\<rparr>"

fun contents :: "bool \<Rightarrow> heap \<Rightarrow> tag \<times> int \<Rightarrow> obj option" where
  "contents vp h (T_Statement, a) =
     (case h a of
        Some (Statement t v d) \<Rightarrow> Some (Statement t (if t = data_type_struct_STATEMENT then v else 0) d)
      | _ \<Rightarrow> None)"
| "contents vp h (T_Struct ty, a) = (case h a of Some (Struct s) \<Rightarrow> Some (Struct (erased vp ty s)) | _ \<Rightarrow> None)"
| "contents vp h (T_Text, a) = (case h a of Some (Text x) \<Rightarrow> Some (Text x) | _ \<Rightarrow> None)"

definition reached :: "bool \<Rightarrow> heap \<Rightarrow> pointer list \<Rightarrow> int \<Rightarrow> obj option" where
  "reached vp h path stmt = Option.bind (walk h path (T_Statement, stmt)) (contents vp h)"

lemma erased_copy: "copy_of vp ty s c \<Longrightarrow> same_data c c' \<Longrightarrow> erased False ty c' = erased vp ty s"
  by (cases s; cases c'; cases c) (auto simp: copy_of_def same_data_def erased_def)

section \<open>The relocated block\<close>

lemma entered_statement:
  assumes "block_image L h vp \<phi> B root n stmt" "dinv L \<phi> B root E R D" "\<phi> b = Some (T_Statement, a)" "whole L h \<phi> B E R b T_Statement a"
  obtains t v d v' where "h a = Some (Statement t v d)" "v \<noteq> 0" "D b = Some (Statement t v' d)" "v' \<noteq> 0"
    "if t = data_type_struct_STATEMENT then v' = v else \<phi> v' = Some (T_Struct t, v) \<and> v' \<in> E"
proof -
  obtain t v d r where t: "h a = Some (Statement t v d)" "v \<noteq> 0" "B b = Some (Statement t r d)" "r \<noteq> 0"
      "t = data_type_struct_STATEMENT \<and> r = v \<and> target L \<phi> B b Slot_V = None
       \<or> t \<noteq> data_type_struct_STATEMENT \<and> target L \<phi> B b Slot_V = Some (b + offset_of_v L + r) \<and> \<phi> (b + offset_of_v L + r) = Some (T_Struct t, v)"
    by (rule block_statement [OF assms(1,3)])
  have D: "D b = Some (Statement t (reloc R b Slot_V r) d)" by (rule dinv_statement [OF assms(2,3) t(3)])
  show thesis
  proof (cases "t = data_type_struct_STATEMENT")
    case True
    then have "R (b, Slot_V) = None" using t(5) dinv_slotD [OF assms(2), of b Slot_V] by (cases "R (b, Slot_V)") auto
    then show thesis using that [OF t(1,2) D] t(5) True t(4) by (simp add: reloc_def)
  next
    case False
    then have e: "target L \<phi> B b Slot_V = Some (b + offset_of_v L + r)" "\<phi> (b + offset_of_v L + r) = Some (T_Struct t, v)" using t(5) by simp_all
    then have "R (b, Slot_V) = Some (b + offset_of_v L + r)" "b + offset_of_v L + r \<in> E" using assms(4) by auto
    then show thesis using that [OF t(1,2) D] e(2) False block_bounds(1) [OF assms(1) e(2)] by (simp add: reloc_def)
  qed
qed

lemma entered_struct:
  assumes "block_image L h vp \<phi> B root n stmt" "dinv L \<phi> B root E R D" "\<phi> b = Some (T_Struct ty, a)" "whole L h \<phi> B E R b (T_Struct ty) a"
  obtains s c where "h a = Some (Struct s)" "D b = Some (Struct c)" "erased False ty c = erased vp ty s" "members_of ty c = members_of ty s"
    "value_type c = value_type s"
    "\<forall>m\<in>set (members_of ty s). live h (member_of s m) \<longrightarrow> \<phi> (member_of c m) = Some (T_Statement, member_of s m) \<and> member_of c m \<in> E"
    "\<forall>m\<in>set (members_of ty s). \<not> live h (member_of s m) \<longrightarrow> member_of c m = 0"
    "is_list ty \<longrightarrow> \<phi> (obj_next c) = Some (T_Struct ty, obj_next s) \<and> obj_next c \<in> E"
    "ty = value_STATEMENT \<longrightarrow> has_text (value_type s) \<longrightarrow> \<phi> (member_of c M_string_literal) = Some (T_Text, member_of s M_string_literal)"
proof -
  obtain s c0 where s: "h a = Some (Struct s)" "B b = Some (Struct c0)" "good_struct L h vp \<phi> ty b s c0" "members_of ty c0 = members_of ty s"
      "value_type c0 = value_type s"
    by (rule block_struct [OF assms(1,3)])
  obtain c where c: "D b = Some (Struct c)" "progress_struct E R b ty c0 c" by (rule dinv_struct [OF assms(2,3) s(2)])
  have cp: "copy_of vp ty s c0" using s(3) by (simp add: good_struct_def)
  have sd: "same_data c0 c" using c(2) by (simp add: progress_struct_def)
  have m: "member_of c m = reloc R b (Slot_Member m) (member_of c0 m)" if "m \<in> set (members_of ty s) \<or> m = M_string_literal" for m
    using c(2) that s(4) by (auto simp: progress_struct_def)
  have g: "good_member L h \<phi> ty b s c0 m" if "m \<in> set (members_of ty s)" for m using s(3) that by (simp add: good_struct_def)
  show thesis
  proof (rule that [OF s(1) c(1) erased_copy [OF cp sd]])
    show "members_of ty c = members_of ty s" using members_of_cong [of c c0 ty] sd s(4) by (simp add: same_data_def)
    show "value_type c = value_type s" using sd s(5) by (simp add: same_data_def)
    show "\<forall>m\<in>set (members_of ty s). live h (member_of s m) \<longrightarrow> \<phi> (member_of c m) = Some (T_Statement, member_of s m) \<and> member_of c m \<in> E"
    proof (intro ballI impI)
      fix m assume mm: "m \<in> set (members_of ty s)" and l: "live h (member_of s m)"
      let ?y = "b + offset_of L ty m + member_of c0 m"
      have "target L \<phi> B b (Slot_Member m) = Some ?y" "\<phi> ?y = Some (T_Statement, member_of s m)"
        using g [OF mm] l mm s(2,4) assms(3) by (auto simp: good_member_def points_to_def target_def)
      moreover then have "R (b, Slot_Member m) = Some ?y" "?y \<in> E" using assms(4) by auto
      ultimately show "\<phi> (member_of c m) = Some (T_Statement, member_of s m) \<and> member_of c m \<in> E" using m mm by (simp add: reloc_def)
    qed
    show "\<forall>m\<in>set (members_of ty s). \<not> live h (member_of s m) \<longrightarrow> member_of c m = 0"
    proof (intro ballI impI)
      fix m assume mm: "m \<in> set (members_of ty s)" and l: "\<not> live h (member_of s m)"
      then have z: "member_of c0 m = 0" using g [OF mm] by (simp add: good_member_def)
      then have "target L \<phi> B b (Slot_Member m) = None" using s(2) assms(3) by (simp add: target_def)
      moreover have "m \<noteq> M_string_literal" using mm by (cases ty) (auto simp: members_of_def constraint_members_def split: if_splits)
      ultimately have "R (b, Slot_Member m) = None" using dinv_slotD [OF assms(2), of b "Slot_Member m"] by (cases "R (b, Slot_Member m)") auto
      then show "member_of c m = 0" using m mm z by (simp add: reloc_def)
    qed
    show "is_list ty \<longrightarrow> \<phi> (obj_next c) = Some (T_Struct ty, obj_next s) \<and> obj_next c \<in> E"
    proof
      assume l: "is_list ty"
      then obtain y where "R (b, Slot_Next) = Some y" "y \<in> E" "\<phi> y = Some (T_Struct ty, obj_next s)" using assms(4) s(1) by auto
      then show "\<phi> (obj_next c) = Some (T_Struct ty, obj_next s) \<and> obj_next c \<in> E" using c(2) l by (simp add: progress_struct_def reloc_def)
    qed
    show "ty = value_STATEMENT \<longrightarrow> has_text (value_type s) \<longrightarrow> \<phi> (member_of c M_string_literal) = Some (T_Text, member_of s M_string_literal)"
    proof (intro impI)
      assume "ty = value_STATEMENT" "has_text (value_type s)"
      then obtain y where "R (b, Slot_Member M_string_literal) = Some y" "\<phi> y = Some (T_Text, member_of s M_string_literal)"
      using assms(4) s(1) by auto
      then show "\<phi> (member_of c M_string_literal) = Some (T_Text, member_of s M_string_literal)" using m by (simp add: reloc_def)
    qed
  qed
qed

text \<open>The objects of the relocated block correspond to the objects they are copies of, and every pointer leads to the corresponding object.\<close>

definition same_place :: "image \<Rightarrow> int set \<Rightarrow> tag \<times> int \<Rightarrow> tag \<times> int \<Rightarrow> bool" where
  "same_place \<phi> E x y \<longleftrightarrow> fst y = fst x \<and> \<phi> (snd y) = Some x \<and> (fst x = T_Text \<or> snd y \<in> E)"

lemma same_contents:
  assumes "block_image L h vp \<phi> B root n stmt" "dinv L \<phi> B root E R D" "\<And>b t a. b \<in> E \<Longrightarrow> \<phi> b = Some (t, a) \<Longrightarrow> whole L h \<phi> B E R b t a"
    and "same_place \<phi> E (t, a) (t, b)"
  shows "contents False D (t, b) = contents vp h (t, a)"
proof (cases t)
  case T_Statement
  then have b: "\<phi> b = Some (T_Statement, a)" "b \<in> E" using assms(4) by (simp_all add: same_place_def)
  show ?thesis by (rule entered_statement [OF assms(1,2) b(1) assms(3) [OF b(2,1)]]) (auto simp: T_Statement)
next
  case (T_Struct ty)
  then have b: "\<phi> b = Some (T_Struct ty, a)" "b \<in> E" using assms(4) by (simp_all add: same_place_def)
  obtain s c where "h a = Some (Struct s)" "D b = Some (Struct c)" "erased False ty c = erased vp ty s"
    by (rule entered_struct [OF assms(1,2) b(1) assms(3) [OF b(2,1)]])
  then show ?thesis by (simp add: T_Struct)
next
  case T_Text
  then have b: "\<phi> b = Some (T_Text, a)" using assms(4) by (simp add: same_place_def)
  obtain x where x: "h a = Some (Text x)" "B b = Some (Text x)" using block_object(1) [OF assms(1) b] by auto
  from assms(2) b obtain u v where "B b = Some u" "D b = Some v" "progress E R b T_Text u v" unfolding dinv_def by blast
  with x have "D b = Some (Text x)" by auto
  then show ?thesis using x T_Text by simp
qed

lemma same_hop:
  assumes "block_image L h vp \<phi> B root n stmt" "dinv L \<phi> B root E R D" "\<And>b t a. b \<in> E \<Longrightarrow> \<phi> b = Some (t, a) \<Longrightarrow> whole L h \<phi> B E R b t a"
    and "same_place \<phi> E (t, a) (t, b)"
  shows "rel_option (same_place \<phi> E) (hop h p (t, a)) (hop D p (t, b))"
proof (cases t)
  case T_Statement
  then have b: "\<phi> b = Some (T_Statement, a)" "b \<in> E" using assms(4) by (simp_all add: same_place_def)
  obtain t' v d v' where t: "h a = Some (Statement t' v d)" "v \<noteq> 0" "D b = Some (Statement t' v' d)" "v' \<noteq> 0"
      "if t' = data_type_struct_STATEMENT then v' = v else \<phi> v' = Some (T_Struct t', v) \<and> v' \<in> E"
    by (rule entered_statement [OF assms(1,2) b(1) assms(3) [OF b(2,1)]])
  then show ?thesis unfolding T_Statement by (cases p) (simp_all add: same_place_def)
next
  case (T_Struct ty)
  then have b: "\<phi> b = Some (T_Struct ty, a)" "b \<in> E" using assms(4) by (simp_all add: same_place_def)
  have l: "live D y" if y: "\<phi> y = Some (T_Statement, x)" "y \<in> E" for x y
    by (rule entered_statement [OF assms(1,2) y(1) assms(3) [OF y(2,1)]]) (use block_bounds(1) [OF assms(1) y(1)] in \<open>simp add: live_def\<close>)
  obtain s c where s: "h a = Some (Struct s)" "D b = Some (Struct c)" "erased False ty c = erased vp ty s" "members_of ty c = members_of ty s"
      "value_type c = value_type s"
    and m: "\<forall>m\<in>set (members_of ty s). live h (member_of s m) \<longrightarrow> \<phi> (member_of c m) = Some (T_Statement, member_of s m) \<and> member_of c m \<in> E"
      "\<forall>m\<in>set (members_of ty s). \<not> live h (member_of s m) \<longrightarrow> member_of c m = 0"
    and n: "is_list ty \<longrightarrow> \<phi> (obj_next c) = Some (T_Struct ty, obj_next s) \<and> obj_next c \<in> E"
      "ty = value_STATEMENT \<longrightarrow> has_text (value_type s) \<longrightarrow> \<phi> (member_of c M_string_literal) = Some (T_Text, member_of s M_string_literal)"
    by (rule entered_struct [OF assms(1,2) b(1) assms(3) [OF b(2,1)]])
  have "live D (member_of c m) = live h (member_of s m)" if "m \<in> set (members_of ty s)" for m
    using bspec [OF m(1) that] bspec [OF m(2) that] l [of "member_of c m" "member_of s m"] by (cases "live h (member_of s m)") (auto simp: live_def)
  then show ?thesis unfolding T_Struct using s(1,2,4,5) m(1) n by (cases p) (simp_all add: same_place_def)
next
  case T_Text
  then show ?thesis by (cases p) simp_all
qed

lemma same_walk:
  assumes "block_image L h vp \<phi> B root n stmt" "dinv L \<phi> B root E R D" "\<And>b t a. b \<in> E \<Longrightarrow> \<phi> b = Some (t, a) \<Longrightarrow> whole L h \<phi> B E R b t a"
    and "same_place \<phi> E x y"
  shows "rel_option (same_place \<phi> E) (walk h path x) (walk D path y)"
  using assms(4)
proof (induction path arbitrary: x y)
  case (Cons p path)
  obtain t a b where x: "x = (t, a)" "y = (t, b)" using Cons.prems by (cases x; cases y) (auto simp: same_place_def)
  have "rel_option (same_place \<phi> E) (hop h p x) (hop D p y)" using same_hop [OF assms(1-3)] Cons.prems unfolding x by blast
  then show ?case using Cons.IH by (cases rule: option.rel_cases) auto
qed simp

lemma same_reached:
  assumes "block_image L h vp \<phi> B root n stmt" "dinv L \<phi> B root E R D" "\<And>b t a. b \<in> E \<Longrightarrow> \<phi> b = Some (t, a) \<Longrightarrow> whole L h \<phi> B E R b t a"
    and "root \<in> E"
  shows "reached False D path root = reached vp h path stmt"
proof -
  have "same_place \<phi> E (T_Statement, stmt) (T_Statement, root)" using assms(1,4) by (simp add: same_place_def block_image_def image_of_def)
  note w = same_walk [OF assms(1-3) this, of path]
  show ?thesis
  proof (cases "walk h path (T_Statement, stmt)")
    case None
    then show ?thesis using w by (simp add: reached_def)
  next
    case (Some x)
    then obtain y where y: "walk D path (T_Statement, root) = Some y" "same_place \<phi> E x y" using w by (auto simp: option_rel_Some1)
    then obtain t a b where "x = (t, a)" "y = (t, b)" by (cases x; cases y) (auto simp: same_place_def)
    then show ?thesis using Some y same_contents [OF assms(1-3)] by (simp add: reached_def)
  qed
qed

text \<open>The block is loaded at \<open>address\<close> and relocated.\<close>

lemma relocated_block:
  assumes "laid_out L" "image_of L h vp \<phi> B block n stmt" "wf_graph h S depth D" "keywords_typed h" "joins_typed h" "0 < address" "nat n < fuel"
  shows "\<exists>st. decompress_statement L fuel address n \<lparr>memory = moved (address - block) B, plan_id = i, in_auto_load_octo_seed = False\<rparr> = Inr (address, st)
    \<and> (\<forall>path. reached False (memory st) path address = reached vp h path stmt)"
proof -
  let ?d = "address - block"
  have "image_of L h vp (moved ?d \<phi>) (moved ?d B) address n stmt" using image_of_moved [OF assms(2), of ?d] by simp
  then have b: "block_image L h vp (moved ?d \<phi>) (moved ?d B) address n stmt" unfolding block_image_def using assms(1,3-6) by blast
  obtain st E R where s: "decompress_statement L fuel address n \<lparr>memory = moved ?d B, plan_id = i, in_auto_load_octo_seed = False\<rparr> = Inr (address, st)"
      "dinv L (moved ?d \<phi>) (moved ?d B) address E R (memory st)" "address \<in> E"
      "\<forall>b\<in>E. \<forall>t a. moved ?d \<phi> b = Some (t, a) \<longrightarrow> whole L h (moved ?d \<phi>) (moved ?d B) E R b t a"
    using decompressed [OF b assms(7)] by blast
  have "reached False (memory st) path address = reached vp h path stmt" for path
    by (rule same_reached [OF b s(2) _ s(3)]) (use s(4) in blast)
  then show ?thesis using s(1) by blast
qed

section \<open>The round trip\<close>

text \<open>C2: a block that \<open>compress_statement\<close> has written at \<open>block\<close> is loaded at any other \<open>address\<close> and given to \<open>decompress_statement\<close>. It returns, without an
  assertion failing and without following a pointer that does not lead to the expected object, and every walk along pointers from the
  statement it returns arrives at the same data as the walk from the statement that was compressed (or at nothing in both): the types, the values and texts, the members
  and the order and the ends of all lists. For a view the parameter numbers are zero. The source is a finite graph of circular lists, a join begins with a table alias or with a set operation whose
  right operand is one, and keywords are keyword lists.\<close>

theorem binary_definition_roundtrip:
  assumes "laid_out L" "0 < block" "0 < address" "wf_graph h S depth D" "typed h T" "keywords_typed h" "joins_typed h"
    and "\<forall>a. offsets a \<noteq> MAX_BIN_DEFN_OFFSET" "live h stmt"
    and "compress_statement L h vp fuel block stmt offsets = Inr (Some st)" "nat (out_length st) < fuel'"
  shows "\<exists>st'. decompress_statement L fuel' address (out_length st)
      \<lparr>memory = moved (address - block) (buf st), plan_id = i, in_auto_load_octo_seed = False\<rparr> = Inr (address, st')
    \<and> (\<forall>path. reached False (memory st') path address = reached vp h path stmt)"
proof -
  obtain \<phi> where "image_of L h vp \<phi> (buf st) block (out_length st) stmt"
    using compressed_image [OF assms(1,2,4,5,8-10)] by blast
  then show ?thesis by (rule relocated_block [OF assms(1) _ assms(4,6,7,3,11)])
qed

lemma example_laid_out: "laid_out example_layout"
  by (simp add: laid_out_def sized_def example_layout_def)

lemma example_typed:
  "typed example_table (\<lambda>a. if a = 6 then column_STATEMENT else create_table_STATEMENT)" "keywords_typed example_table" "joins_typed example_table"
  by (auto simp: typed_def keywords_typed_def joins_typed_def example_table_def example_struct_def shared_def split: if_splits)

lemma example_block:
  "case compress_statement example_layout example_table False 6 1000 1 (\<lambda>_. 0) of Inr (Some st) \<Rightarrow> out_length st = 709 | _ \<Rightarrow> False"
  by code_simp

lemma live_code [code]: "live h a \<longleftrightarrow> a \<noteq> 0 \<and> (case h a of Some (Statement t v d) \<Rightarrow> v \<noteq> 0 | _ \<Rightarrow> False)"
  by (auto simp: live_def split: option.splits obj.splits)

lemma example_reached:
  "case reached False example_table [Down, To M_columns, Down, Onward, To M_table, Down, To M_tableName, Down, Literal] 1 of
     Some (Text x) \<Rightarrow> x = lit ''T'' | _ \<Rightarrow> False"
  by code_simp

theorem binary_definition_roundtrip_witness:
  "\<exists>st st'. compress_statement example_layout example_table False 6 1000 1 (\<lambda>_. 0) = Inr (Some st)
     \<and> decompress_statement example_layout 710 5000 709
         \<lparr>memory = moved 4000 (buf st), plan_id = 1, in_auto_load_octo_seed = False\<rparr> = Inr (5000, st')
     \<and> reached False (memory st') [Down, To M_columns, Down, Onward, To M_table, Down, To M_tableName, Down, Literal] 5000
         = Some (Text (lit ''T''))"
proof -
  obtain st where st: "compress_statement example_layout example_table False 6 1000 1 (\<lambda>_. 0) = Inr (Some st)" "out_length st = 709"
    using example_block by (auto split: sum.splits option.splits)
  have "live example_table 1" by code_simp
  then obtain st' where "decompress_statement example_layout 710 5000 709
      \<lparr>memory = moved 4000 (buf st), plan_id = 1, in_auto_load_octo_seed = False\<rparr> = Inr (5000, st')"
    and r: "\<forall>path. reached False (memory st') path 5000 = reached False example_table path 1"
    using binary_definition_roundtrip [OF example_laid_out _ _ example_wf example_typed _ _ st(1), of 5000 710 1] st(2) by auto
  moreover have "reached False example_table [Down, To M_columns, Down, Onward, To M_table, Down, To M_tableName, Down, Literal] 1 = Some (Text (lit ''T''))"
    using example_reached by (simp split: option.splits obj.splits)
  ultimately show ?thesis using st(1) by metis
qed

end
