(* ===== verification/Double_List.thy ===== *)
theory Double_List
  imports Octo_Prelude
begin

text \<open>
  The circular doubly linked lists of \<open>double_list.h\<close>, which all lists of a parse tree, of the plans and of the memory
  chunks are. The links are two maps from addresses to addresses; the macros are sequences of assignments to them.
\<close>

record dq_links =
  dq_next :: "int \<Rightarrow> int"
  dq_prev :: "int \<Rightarrow> int"

definition put_next :: "int \<Rightarrow> int \<Rightarrow> dq_links \<Rightarrow> dq_links" where
  "put_next a x l = l\<lparr>dq_next := (dq_next l)(a := x)\<rparr>"

definition put_prev :: "int \<Rightarrow> int \<Rightarrow> dq_links \<Rightarrow> dq_links" where
  "put_prev a x l = l\<lparr>dq_prev := (dq_prev l)(a := x)\<rparr>"

definition dqinit :: "int \<Rightarrow> dq_links \<Rightarrow> dq_links" where
  "dqinit ob l = put_prev ob ob (put_next ob ob l)"

definition dqappend :: "int \<Rightarrow> int \<Rightarrow> dq_links \<Rightarrow> dq_links" where
  "dqappend self new_elem l =
     (let tmpPtr = dq_prev l self;
          l = put_next (dq_prev l self) new_elem l;
          l = put_prev self (dq_prev l new_elem) l;
          l = put_next (dq_prev l new_elem) self l
      in put_prev new_elem tmpPtr l)"

definition dqdel :: "int \<Rightarrow> dq_links \<Rightarrow> dq_links" where
  "dqdel self l =
     (let l = put_next (dq_prev l self) (dq_next l self) l;
          l = put_prev (dq_next l self) (dq_prev l self) l
      in dqinit self l)"

section \<open>The lists they stand for\<close>

text \<open>A path of dq_links in both directions, and a circle that begins at its first element.\<close>

fun path :: "dq_links \<Rightarrow> int list \<Rightarrow> bool" where
  "path l [] \<longleftrightarrow> True"
| "path l [x] \<longleftrightarrow> True"
| "path l (x # y # xs) \<longleftrightarrow> dq_next l x = y \<and> dq_prev l y = x \<and> path l (y # xs)"

definition circle :: "dq_links \<Rightarrow> int list \<Rightarrow> bool" where
  "circle l xs \<longleftrightarrow> xs \<noteq> [] \<and> distinct xs \<and> path l xs \<and> dq_next l (last xs) = hd xs \<and> dq_prev l (hd xs) = last xs"

lemma path_append:
  "xs \<noteq> [] \<Longrightarrow> ys \<noteq> [] \<Longrightarrow>
     path l (xs @ ys) \<longleftrightarrow> path l xs \<and> dq_next l (last xs) = hd ys \<and> dq_prev l (hd ys) = last xs \<and> path l ys"
proof (induction l xs rule: path.induct)
  case (2 l x)
  then show ?case by (cases ys) auto
next
  case (3 l x y xs)
  then show ?case by auto
qed simp

lemma path_cong:
  "(\<And>x. x \<in> set (butlast xs) \<Longrightarrow> dq_next l' x = dq_next l x) \<Longrightarrow> (\<And>x. x \<in> set (tl xs) \<Longrightarrow> dq_prev l' x = dq_prev l x) \<Longrightarrow>
     path l' xs = path l xs"
  by (induction l xs rule: path.induct) auto

text \<open>Turning a circle.\<close>

lemma circle_rotate: "circle l (xs @ ys) \<Longrightarrow> ys \<noteq> [] \<Longrightarrow> circle l (ys @ xs)"
proof (cases "xs = []")
  case False
  assume c: "circle l (xs @ ys)" and y: "ys \<noteq> []"
  then show ?thesis using False path_append [OF False y, of l] path_append [OF y False, of l] by (auto simp: circle_def)
qed simp

lemma dqinit_circle: "circle (dqinit a l) [a]"
  by (simp add: circle_def dqinit_def put_next_def put_prev_def)

lemma dqinit_other: "x \<noteq> a \<Longrightarrow> dq_next (dqinit a l) x = dq_next l x" "x \<noteq> a \<Longrightarrow> dq_prev (dqinit a l) x = dq_prev l x"
  by (simp_all add: dqinit_def put_next_def put_prev_def)

lemma circle_butlast_tl:
  assumes "distinct xs" "xs \<noteq> []"
  shows "x \<in> set (butlast xs) \<Longrightarrow> x \<noteq> last xs" "x \<in> set (tl xs) \<Longrightarrow> x \<noteq> hd xs"
proof -
  have "distinct (butlast xs @ [last xs])" using assms by simp
  then show "x \<in> set (butlast xs) \<Longrightarrow> x \<noteq> last xs" by auto
  have "distinct (hd xs # tl xs)" using assms by simp
  then show "x \<in> set (tl xs) \<Longrightarrow> x \<noteq> hd xs" by auto
qed

lemma path_kept:
  assumes "distinct xs" "\<And>x. x \<in> set xs \<Longrightarrow> x \<noteq> last xs \<Longrightarrow> dq_next l' x = dq_next l x" "\<And>x. x \<in> set xs \<Longrightarrow> x \<noteq> hd xs \<Longrightarrow> dq_prev l' x = dq_prev l x"
  shows "path l' xs = path l xs"
proof (cases "xs = []")
  case False
  show ?thesis
    by (rule path_cong)
      (use assms circle_butlast_tl [OF assms(1) False] in_set_butlastD list.set_sel(2) [OF False] in metis)+
qed simp

text \<open>\<open>dqappend\<close> joins two circles, \<open>dqdel\<close> takes one element out of a circle.\<close>

lemma dqappend_links:
  assumes "circle l (self # xs)" "circle l (new # ys)" "set (self # xs) \<inter> set (new # ys) = {}"
  shows "dq_next (dqappend self new l) x =
      (if x = last (self # xs) then new else if x = last (new # ys) then self else dq_next l x)"
    "dq_prev (dqappend self new l) x =
      (if x = self then last (new # ys) else if x = new then last (self # xs) else dq_prev l x)"
proof -
  have d: "dq_prev l self = last (self # xs)" "dq_prev l new = last (new # ys)" "self \<noteq> new" using assms by (auto simp: circle_def)
  have "last (self # xs) \<in> set (self # xs)" "last (new # ys) \<in> set (new # ys)" by (rule last_in_set, simp)+
  then have "last (self # xs) \<noteq> last (new # ys)" using assms(3) by (metis disjoint_iff)
  then show "dq_next (dqappend self new l) x =
      (if x = last (self # xs) then new else if x = last (new # ys) then self else dq_next l x)"
    "dq_prev (dqappend self new l) x =
      (if x = self then last (new # ys) else if x = new then last (self # xs) else dq_prev l x)"
    using d by (simp_all add: dqappend_def put_next_def put_prev_def)
qed

lemma dqappend_circle:
  assumes "circle l (self # xs)" "circle l (new # ys)" "set (self # xs) \<inter> set (new # ys) = {}"
  shows "circle (dqappend self new l) (self # xs @ new # ys)"
proof -
  let ?l = "dqappend self new l"
  note k = dqappend_links [OF assms]
  have li: "last (self # xs) \<in> set (self # xs)" "last (new # ys) \<in> set (new # ys)" by (rule last_in_set, simp)+
  have "path ?l (self # xs) = path l (self # xs)"
    by (rule path_kept) (use assms li in \<open>auto simp: k circle_def\<close>)
  moreover have "path ?l (new # ys) = path l (new # ys)"
    by (rule path_kept) (use assms li in \<open>auto simp: k circle_def\<close>)
  ultimately have "path ?l ((self # xs) @ new # ys)"
    using assms li unfolding path_append [OF list.distinct(2) list.distinct(2)] by (auto simp: k circle_def)
  moreover have "distinct ((self # xs) @ new # ys)" using assms by (auto simp: circle_def)
  ultimately show ?thesis using li assms(3) by (auto simp: circle_def k)
qed

lemma dqappend_other:
  assumes "circle l (self # xs)" "circle l (new # ys)" "set (self # xs) \<inter> set (new # ys) = {}" "x \<notin> set (self # xs)" "x \<notin> set (new # ys)"
  shows "dq_next (dqappend self new l) x = dq_next l x" "dq_prev (dqappend self new l) x = dq_prev l x"
proof -
  have li: "last (self # xs) \<in> set (self # xs)" "last (new # ys) \<in> set (new # ys)" by (rule last_in_set, simp)+
  then show "dq_next (dqappend self new l) x = dq_next l x" "dq_prev (dqappend self new l) x = dq_prev l x"
    using assms(4,5) by (auto simp: dqappend_links [OF assms(1-3)] simp del: last.simps)
qed

lemma dqdel_circle:
  assumes "circle l (self # xs)"
  shows "circle (dqdel self l) [self]" "xs \<noteq> [] \<Longrightarrow> circle (dqdel self l) xs"
proof -
  show "circle (dqdel self l) [self]" by (simp add: dqdel_def dqinit_circle Let_def)
  assume ne: "xs \<noteq> []"
  have c: "distinct (self # xs)" "path l (self # xs)" "dq_next l (last xs) = self" "dq_prev l self = last xs" using assms ne by (auto simp: circle_def)
  have p: "dq_next l self = hd xs" "path l xs" using c(2) ne by (cases xs; simp)+
  have li: "last xs \<in> set xs" "hd xs \<in> set xs" "self \<notin> set xs" using ne c(1) by simp_all
  then have n: "dq_next (dqdel self l) x = (if x = self then self else if x = last xs then hd xs else dq_next l x)"
    "dq_prev (dqdel self l) x = (if x = self then self else if x = hd xs then last xs else dq_prev l x)" for x
    using c(4) p(1) by (auto simp: dqdel_def dqinit_def put_next_def put_prev_def Let_def)
  have "path (dqdel self l) xs = path l xs" by (rule path_kept) (use c(1) li(3) in \<open>auto simp: n\<close>)
  then show "circle (dqdel self l) xs" using ne c(1) p(2) li by (auto simp: circle_def n)
qed

text \<open>What a loop \<open>do ... cur = cur->next; while (cur != start)\<close> visits: the elements of the circle, each once.\<close>

fun visits :: "dq_links \<Rightarrow> int \<Rightarrow> nat \<Rightarrow> int \<Rightarrow> int list option" where
  "visits l start 0 cur = None"
| "visits l start (Suc k) cur =
     (if dq_next l cur = start then Some [cur] else map_option (Cons cur) (visits l start k (dq_next l cur)))"

lemma visits_circle:
  assumes "circle l (start # xs)" "length xs < k"
  shows "visits l start k start = Some (start # xs)"
proof -
  have "visits l start k y = Some (y # ys)" if "path l (y # ys)" "dq_next l (last (y # ys)) = start" "start \<notin> set ys" "length ys < k" for y ys k
    using that
  proof (induction ys arbitrary: y k)
    case Nil
    then show ?case by (cases k) auto
  next
    case (Cons z ys)
    then show ?case by (cases k) auto
  qed
  then show ?thesis using assms by (auto simp: circle_def)
qed

section \<open>The macros as operations on lists\<close>

text \<open>C12: the macros of \<open>double_list.h\<close> implement circular lists: \<open>dqinit\<close> makes a list of one element, \<open>dqappend\<close> appends the second list to the first and touches nothing
  else, \<open>dqdel\<close> takes the first element out, which becomes a list of its own, and a loop over \<open>next\<close> from the first element visits all elements in their order, each once, and ends.\<close>

theorem dq_macros_refine_lists:
  assumes "circle l (self # xs)" "circle l (new # ys)" "set (self # xs) \<inter> set (new # ys) = {}"
  shows "circle (dqinit a l) [a]
    \<and> circle (dqappend self new l) (self # xs @ new # ys)
    \<and> visits (dqappend self new l) self (length xs + length ys + 2) self = Some (self # xs @ new # ys)
    \<and> {x. dq_next (dqappend self new l) x \<noteq> dq_next l x \<or> dq_prev (dqappend self new l) x \<noteq> dq_prev l x} \<subseteq> set (self # xs @ new # ys)
    \<and> circle (dqdel self l) [self] \<and> (xs = [] \<or> circle (dqdel self l) xs)"
proof -
  have "visits (dqappend self new l) self (length xs + length ys + 2) self = Some (self # xs @ new # ys)"
    by (rule visits_circle [OF dqappend_circle [OF assms]]) simp
  moreover have "x \<in> set (self # xs @ new # ys)"
    if "dq_next (dqappend self new l) x \<noteq> dq_next l x \<or> dq_prev (dqappend self new l) x \<noteq> dq_prev l x" for x
    using that dqappend_other [OF assms, of x] by auto
  ultimately show ?thesis using dqappend_circle [OF assms] dqdel_circle [OF assms(1)] dqinit_circle by blast
qed

theorem dq_macros_refine_lists_witness:
  "visits (dqappend 1 3 (dqinit 3 (dqappend 1 2 (dqinit 2 (dqinit 1 \<lparr>dq_next = \<lambda>_. 0, dq_prev = \<lambda>_. 0\<rparr>))))) 1 3 1 = Some [1, 2, 3]"
proof -
  let ?l = "dqinit 3 (dqappend 1 2 (dqinit 2 (dqinit 1 \<lparr>dq_next = \<lambda>_. 0, dq_prev = \<lambda>_. 0\<rparr>)))"
  have "circle ?l (1 # [2])" "circle ?l (3 # [])"
    by (simp_all add: circle_def dqinit_def dqappend_def put_next_def put_prev_def Let_def)
  from dq_macros_refine_lists [OF this] have "visits (dqappend 1 3 ?l) 1 (length [2 :: int] + length ([] :: int list) + 2) 1 = Some (1 # [2] @ 3 # [])"
    by simp
  moreover have "length [2 :: int] + length ([] :: int list) + 2 = 3" by simp
  ultimately show ?thesis by (simp only: append.simps)
qed

end
