(* ===== verification/Memory_Chunk.thy ===== *)
theory Memory_Chunk
  imports Double_List
begin

text \<open>
  The allocator of \<open>memory_chunk.c\<close>: a circular list of chunks, of which the last one is filled until a request does not fit. Nothing is freed
  but all chunks together. Addresses are integers, sizes are \<open>size_t\<close> and wrap around at 64 bits. The results of \<open>malloc\<close> and
  \<open>calloc\<close> are parameters.
\<close>

definition MEMORY_CHUNK_SIZE :: nat where
  "MEMORY_CHUNK_SIZE = 1 * 1024 * 1024"

definition size_t :: "nat \<Rightarrow> nat" where
  "size_t n = n mod 2 ^ 64"

record MemoryChunks =
  chunk_links :: dq_links
  chunk_offset :: "int \<Rightarrow> nat"
  max_size :: "int \<Rightarrow> nat"
  chunk_value :: "int \<Rightarrow> int"

text \<open>\<open>ret\<close> is the result of \<open>malloc\<close>, \<open>v\<close> that of \<open>calloc\<close>.\<close>

definition alloc_chunk :: "int \<Rightarrow> int \<Rightarrow> nat \<Rightarrow> MemoryChunks \<Rightarrow> MemoryChunks" where
  "alloc_chunk ret v sz m =
     m\<lparr>chunk_links := dqinit ret (chunk_links m), chunk_offset := (chunk_offset m)(ret := 0), max_size := (max_size m)(ret := sz),
       chunk_value := (chunk_value m)(ret := v)\<rparr>"

definition octo_cmalloc :: "int \<Rightarrow> int \<Rightarrow> int \<Rightarrow> nat \<Rightarrow> MemoryChunks \<Rightarrow> int \<times> MemoryChunks" where
  "octo_cmalloc fresh v root sz m =
     (let cur = dq_prev (chunk_links m) root;
          m = (if max_size m cur < size_t (chunk_offset m cur + sz)
               then
                 let alloc_size = (if MEMORY_CHUNK_SIZE < sz then sz else MEMORY_CHUNK_SIZE);
                     m = alloc_chunk fresh v alloc_size m
                 in m\<lparr>chunk_links := dqappend root fresh (chunk_links m)\<rparr>
               else m);
          cur = dq_prev (chunk_links m) root
      in (chunk_value m cur + int (chunk_offset m cur), m\<lparr>chunk_offset := (chunk_offset m)(cur := size_t (chunk_offset m cur + sz))\<rparr>))"

text \<open>The addresses that \<open>octo_cfree\<close> gives to \<open>free\<close>; the fuel bounds the loop over the list.\<close>

fun cfree_loop :: "MemoryChunks \<Rightarrow> int \<Rightarrow> nat \<Rightarrow> int \<Rightarrow> int list option" where
  "cfree_loop m root 0 cur = None"
| "cfree_loop m root (Suc k) cur =
     (let nxt = dq_next (chunk_links m) cur in
      if nxt = root then Some [chunk_value m cur, cur]
      else map_option (\<lambda>fs. chunk_value m cur # cur # fs) (cfree_loop m root k nxt))"

definition octo_cfree :: "MemoryChunks \<Rightarrow> int \<Rightarrow> nat \<Rightarrow> int list option" where
  "octo_cfree m root k = cfree_loop m root k root"

section \<open>The chunks of an allocator\<close>

text \<open>The memory from \<open>a\<close> on with \<open>n\<close> bytes.\<close>

definition area :: "int \<Rightarrow> nat \<Rightarrow> int set" where
  "area a n = {a..<a + int n}"

text \<open>
  \<open>xs\<close> are the chunks in the order of the list, their memory does not overlap, and all that has been handed out lies below the offsets.
\<close>

definition chunks_ok :: "MemoryChunks \<Rightarrow> int list \<Rightarrow> bool" where
  "chunks_ok m xs \<longleftrightarrow> circle (chunk_links m) xs
     \<and> (\<forall>c\<in>set xs. chunk_offset m c \<le> max_size m c \<and> max_size m c < 2 ^ 63)
     \<and> (\<forall>c\<in>set xs. \<forall>d\<in>set xs. c \<noteq> d \<longrightarrow> area (chunk_value m c) (max_size m c) \<inter> area (chunk_value m d) (max_size m d) = {})"

definition handed_out :: "MemoryChunks \<Rightarrow> int list \<Rightarrow> int set" where
  "handed_out m xs = (\<Union>c\<in>set xs. area (chunk_value m c) (chunk_offset m c))"

text \<open>What \<open>malloc\<close> and \<open>calloc\<close> promise of the new chunk.\<close>

definition fresh_for :: "int \<Rightarrow> int \<Rightarrow> nat \<Rightarrow> MemoryChunks \<Rightarrow> int list \<Rightarrow> bool" where
  "fresh_for fresh v n m xs \<longleftrightarrow> fresh \<notin> set xs \<and> (\<forall>c\<in>set xs. area v n \<inter> area (chunk_value m c) (max_size m c) = {})"

lemma area_mono: "n \<le> n' \<Longrightarrow> area a n \<subseteq> area a n'"
  by (auto simp: area_def)

lemma circle_prev: "circle l (a # xs) \<Longrightarrow> dq_prev l a = last (a # xs)"
  by (simp add: circle_def)

text \<open>The last chunk has room.\<close>

lemma chunk_filled:
  assumes "chunks_ok m xs" "c \<in> set xs" "chunk_offset m c + sz \<le> max_size m c"
  defines "p \<equiv> chunk_value m c + int (chunk_offset m c)"
  defines "m' \<equiv> m\<lparr>chunk_offset := (chunk_offset m)(c := chunk_offset m c + sz)\<rparr>"
  shows "chunks_ok m' xs" "handed_out m' xs = handed_out m xs \<union> area p sz" "area p sz \<inter> handed_out m xs = {}"
    "area p sz \<subseteq> area (chunk_value m' c) (max_size m' c)"
proof -
  show "chunks_ok m' xs" using assms(1-3) by (auto simp: chunks_ok_def m'_def)
  have split: "area (chunk_value m c) (chunk_offset m c + sz) = area (chunk_value m c) (chunk_offset m c) \<union> area p sz"
    by (auto simp: area_def p_def)
  have u: "handed_out n xs = area (chunk_value n c) (chunk_offset n c) \<union> (\<Union>d\<in>set xs - {c}. area (chunk_value n d) (chunk_offset n d))" for n
    using assms(2) unfolding handed_out_def by blast
  show "handed_out m' xs = handed_out m xs \<union> area p sz" unfolding u by (auto simp: m'_def split)
  show sub: "area p sz \<subseteq> area (chunk_value m' c) (max_size m' c)" using assms(3) by (auto simp: area_def p_def m'_def)
  have "area p sz \<inter> area (chunk_value m d) (chunk_offset m d) = {}" if d: "d \<in> set xs" for d
  proof (cases "d = c")
    case True
    then show ?thesis by (auto simp: area_def p_def)
  next
    case False
    have "area (chunk_value m c) (max_size m c) \<inter> area (chunk_value m d) (max_size m d) = {}" "chunk_offset m d \<le> max_size m d"
      using assms(1,2) d False by (auto simp: chunks_ok_def)
    then show ?thesis using sub area_mono [of "chunk_offset m d" "max_size m d" "chunk_value m d"] by (auto simp: m'_def)
  qed
  then show "area p sz \<inter> handed_out m xs = {}" by (auto simp: handed_out_def)
qed

text \<open>A new chunk.\<close>

lemma chunk_added:
  assumes "chunks_ok m (root # xs)" "fresh_for fresh v n m (root # xs)" "n < 2 ^ 63"
  defines "m' \<equiv> (alloc_chunk fresh v n m)\<lparr>chunk_links := dqappend root fresh (dqinit fresh (chunk_links m))\<rparr>"
  shows "chunks_ok m' (root # xs @ [fresh])" "handed_out m' (root # xs @ [fresh]) = handed_out m (root # xs)"
proof -
  let ?l = "dqinit fresh (chunk_links m)"
  have nin: "fresh \<notin> set (root # xs)" using assms(2) by (simp add: fresh_for_def)
  have c: "circle (chunk_links m) (root # xs)" using assms(1) by (simp add: chunks_ok_def)
  have k: "dq_next ?l x = dq_next (chunk_links m) x" "dq_prev ?l x = dq_prev (chunk_links m) x" if "x \<in> set (root # xs)" for x
    using dqinit_other [of x fresh] that nin by metis+
  have "path ?l (root # xs) = path (chunk_links m) (root # xs)" by (rule path_kept) (use c k in \<open>simp_all add: circle_def\<close>)
  moreover have "dq_next ?l (last (root # xs)) = dq_next (chunk_links m) (last (root # xs))" by (rule k(1) [OF last_in_set]) simp
  moreover have "dq_prev ?l root = dq_prev (chunk_links m) root" by (rule k(2)) simp
  ultimately have "circle ?l (root # xs)" using c by (simp add: circle_def)
  then have "circle (dqappend root fresh ?l) (root # xs @ fresh # [])" by (rule dqappend_circle [OF _ dqinit_circle]) (use nin in auto)
  moreover have "chunk_offset m' d = chunk_offset m d" "max_size m' d = max_size m d" "chunk_value m' d = chunk_value m d" if "d \<in> set (root # xs)" for d
    using that nin by (auto simp: m'_def alloc_chunk_def)
  moreover have "chunk_offset m' fresh = 0" "max_size m' fresh = n" "chunk_value m' fresh = v" "chunk_links m' = dqappend root fresh ?l"
    by (simp_all add: m'_def alloc_chunk_def)
  moreover have "set (root # xs @ [fresh]) = insert fresh (set (root # xs))" by auto
  ultimately show "chunks_ok m' (root # xs @ [fresh])" "handed_out m' (root # xs @ [fresh]) = handed_out m (root # xs)"
    using assms(1-3) unfolding chunks_ok_def fresh_for_def handed_out_def by (auto simp: area_def simp del: set_simps)
qed

section \<open>The allocator\<close>

text \<open>C11: a request of less than 2 to the 63 bytes is answered with memory that lies inside one chunk and overlaps nothing that has been handed out
  before, whether the last chunk has room or a new one is allocated; the chunks stay a well-formed circular list.\<close>

theorem octo_cmalloc_disjoint:
  assumes "chunks_ok m (root # xs)" "sz < 2 ^ 63" "fresh_for fresh v (max sz MEMORY_CHUNK_SIZE) m (root # xs)"
    and "octo_cmalloc fresh v root sz m = (p, m')"
  shows "\<exists>ys. chunks_ok m' (root # xs @ ys) \<and> handed_out m' (root # xs @ ys) = handed_out m (root # xs) \<union> area p sz
    \<and> area p sz \<inter> handed_out m (root # xs) = {} \<and> (\<exists>c\<in>set (root # xs @ ys). area p sz \<subseteq> area (chunk_value m' c) (max_size m' c))"
proof -
  let ?c = "last (root # xs)" and ?n = "max sz MEMORY_CHUNK_SIZE"
  have c: "?c \<in> set (root # xs)" by (rule last_in_set) simp
  have prev: "dq_prev (chunk_links m) root = ?c" using assms(1) circle_prev by (auto simp: chunks_ok_def simp del: last.simps)
  have b: "chunk_offset m ?c \<le> max_size m ?c" "max_size m ?c < 2 ^ 63" using assms(1) c by (auto simp: chunks_ok_def simp del: last.simps)
  have w: "size_t (chunk_offset m ?c + sz) = chunk_offset m ?c + sz" using b assms(2) by (simp add: size_t_def)
  show ?thesis
  proof (cases "chunk_offset m ?c + sz \<le> max_size m ?c")
    case True
    then have "p = chunk_value m ?c + int (chunk_offset m ?c)" "m' = m\<lparr>chunk_offset := (chunk_offset m)(?c := chunk_offset m ?c + sz)\<rparr>"
      using assms(4) prev w by (simp_all add: octo_cmalloc_def Let_def del: last.simps)
    then show ?thesis using chunk_filled [OF assms(1) c True] c by (intro exI [of _ "[]"]) (auto simp del: last.simps)
  next
    case False
    let ?m = "(alloc_chunk fresh v ?n m)\<lparr>chunk_links := dqappend root fresh (dqinit fresh (chunk_links m))\<rparr>"
    have n: "?n < 2 ^ 63" using assms(2) by (simp add: MEMORY_CHUNK_SIZE_def)
    note a = chunk_added [OF assms(1,3) n]
    have prev': "dq_prev (chunk_links ?m) root = fresh" using a(1) circle_prev [of "chunk_links ?m" root "xs @ [fresh]"] by (simp add: chunks_ok_def)
    have f: "chunk_offset ?m fresh = 0" "max_size ?m fresh = ?n" "chunk_value ?m fresh = v" "size_t sz = sz"
      using assms(2) by (simp_all add: alloc_chunk_def size_t_def)
    have nn: "(if MEMORY_CHUNK_SIZE < sz then sz else MEMORY_CHUNK_SIZE) = ?n" by simp
    have lt: "max_size m ?c < size_t (chunk_offset m ?c + sz)" using False w by simp
    have "octo_cmalloc fresh v root sz m = (chunk_value ?m fresh + int (chunk_offset ?m fresh),
        ?m\<lparr>chunk_offset := (chunk_offset ?m)(fresh := size_t (chunk_offset ?m fresh + sz))\<rparr>)"
      unfolding octo_cmalloc_def Let_def prev if_P [OF lt] nn using prev' by (simp add: alloc_chunk_def)
    then have pm: "p = chunk_value ?m fresh + int (chunk_offset ?m fresh)"
        "m' = ?m\<lparr>chunk_offset := (chunk_offset ?m)(fresh := chunk_offset ?m fresh + sz)\<rparr>"
      using assms(4) f by simp_all
    have "chunk_offset ?m fresh + sz \<le> max_size ?m fresh" using f by simp
    note r = chunk_filled [OF a(1) _ this, folded pm, unfolded a(2)]
    show ?thesis using r by (intro exI [of _ "[fresh]"]) auto
  qed
qed

definition example_chunks :: MemoryChunks where
  "example_chunks = \<lparr>chunk_links = \<lparr>dq_next = \<lambda>_. 1, dq_prev = \<lambda>_. 1\<rparr>, chunk_offset = \<lambda>_. 10, max_size = \<lambda>_. 100, chunk_value = \<lambda>_. 1000\<rparr>"

theorem octo_cmalloc_disjoint_witness:
  "fst (octo_cmalloc 2 5000 1 200 example_chunks) = 5000 \<and> area 5000 200 \<inter> handed_out example_chunks [1] = {}"
proof -
  have "chunks_ok example_chunks [1]" "fresh_for 2 5000 (max 200 MEMORY_CHUNK_SIZE) example_chunks [1]"
    by (auto simp: chunks_ok_def fresh_for_def example_chunks_def circle_def area_def)
  moreover have p: "fst (octo_cmalloc 2 5000 1 200 example_chunks) = 5000"
    by (simp add: octo_cmalloc_def example_chunks_def size_t_def alloc_chunk_def dqinit_def dqappend_def put_next_def put_prev_def Let_def MEMORY_CHUNK_SIZE_def)
  moreover obtain p m' where r: "octo_cmalloc 2 5000 1 200 example_chunks = (p, m')" by (cases "octo_cmalloc 2 5000 1 200 example_chunks")
  ultimately show ?thesis using octo_cmalloc_disjoint [of example_chunks 1 "[]" 200 2 5000 p m'] by auto
qed

text \<open>\<open>octo_cfree\<close> ends and gives every chunk and its memory to \<open>free\<close>, each exactly once.\<close>

lemma octo_cfree_all:
  assumes "circle (chunk_links m) (root # xs)" "length xs < k"
  shows "octo_cfree m root k = Some (concat (map (\<lambda>c. [chunk_value m c, c]) (root # xs)))"
proof -
  have "cfree_loop m root k y = Some (concat (map (\<lambda>c. [chunk_value m c, c]) (y # ys)))"
    if "path (chunk_links m) (y # ys)" "dq_next (chunk_links m) (last (y # ys)) = root" "root \<notin> set ys" "length ys < k" for y ys k
    using that
  proof (induction ys arbitrary: y k)
    case Nil
    then show ?case by (cases k) auto
  next
    case (Cons z ys)
    then show ?case by (cases k) auto
  qed
  then show ?thesis using assms by (simp add: circle_def octo_cfree_def)
qed

end
