(* ===== verification/Quoting.thy ===== *)
theory Quoting
  imports Octo_Prelude
begin

text \<open>
  String literals of M: \<open>quoting.c\<close> and \<open>m_escape_string2.c\<close> double every double quote of a string. The first writes into memory of a
  fixed size, the second into a buffer that it replaces by a larger one. A string is the list of its characters without the terminating NUL; a write outside
  of the memory is the error \<open>QUOTE_OVERRUN\<close>, a failing assertion \<open>QUOTE_ASSERTION\<close>. Lengths are below the range of \<open>int\<close>.
\<close>

datatype quote_error = QUOTE_OVERRUN | QUOTE_ASSERTION

abbreviation dquote :: byte where
  "dquote \<equiv> 34"

text \<open>Memory being written from its beginning on: what is there, and how much has been written.\<close>

definition append_byte :: "nat \<Rightarrow> byte \<Rightarrow> bytes \<Rightarrow> quote_error + bytes" where
  "append_byte alloc b out = (if length out < alloc then Inr (out @ [b]) else Inl QUOTE_OVERRUN)"

fun escape_into :: "nat \<Rightarrow> bytes \<Rightarrow> bytes \<Rightarrow> quote_error + bytes" where
  "escape_into alloc [] out = append_byte alloc 0 out"
| "escape_into alloc (c # cs) out =
     (if c = dquote then bindE (append_byte alloc dquote out) (\<lambda>out. bindE (append_byte alloc dquote out) (escape_into alloc cs))
      else bindE (append_byte alloc c out) (escape_into alloc cs))"

definition m_escape_string :: "bytes \<Rightarrow> quote_error + bytes" where
  "m_escape_string string = escape_into (2 * length string) string []"

fun unescape_into :: "nat \<Rightarrow> nat \<Rightarrow> bytes \<Rightarrow> bytes \<Rightarrow> quote_error + bytes" where
  "unescape_into alloc quote_count [] out = append_byte alloc 0 out"
| "unescape_into alloc quote_count (c # cs) out =
     (if c = dquote then
        if quote_count = 1 then bindE (append_byte alloc dquote out) (unescape_into alloc 0 cs)
        else unescape_into alloc (quote_count + 1) cs out
      else
        bindE (append_byte alloc c out) (\<lambda>out.
        if quote_count = 0 then unescape_into alloc quote_count cs out else Inl QUOTE_ASSERTION))"

definition m_unescape_string :: "bytes \<Rightarrow> quote_error + bytes" where
  "m_unescape_string string = unescape_into (2 * length string) 0 string []"

section \<open>m_escape_string2\<close>

text \<open>The buffer has the length \<open>*buffer_len\<close>; \<open>junk\<close> is what \<open>malloc\<close> leaves in new memory.\<close>

definition EXPAND_BUFFER_IF_NEEDED :: "byte \<Rightarrow> nat \<Rightarrow> bytes \<Rightarrow> quote_error + bytes" where
  "EXPAND_BUFFER_IF_NEEDED junk next_index buffer =
     (if length buffer \<le> next_index then
        let new_size = (if length buffer * 2 \<le> next_index then next_index + 1 else length buffer * 2) in
        if length buffer < next_index - 1 then Inl QUOTE_OVERRUN
        else Inr (take (next_index - 1) buffer @ replicate (new_size - (next_index - 1)) junk)
      else Inr buffer)"

definition push_byte :: "byte \<Rightarrow> byte \<Rightarrow> nat \<times> bytes \<Rightarrow> quote_error + nat \<times> bytes" where
  "push_byte junk c = (\<lambda>(i, buffer).
     bindE (EXPAND_BUFFER_IF_NEEDED junk (i + 1) buffer) (\<lambda>buffer.
     if i < length buffer then Inr (i + 1, buffer[i := c]) else Inl QUOTE_OVERRUN))"

fun escape_loop :: "byte \<Rightarrow> bytes \<Rightarrow> nat \<times> bytes \<Rightarrow> quote_error + nat \<times> bytes" where
  "escape_loop junk [] st = Inr st"
| "escape_loop junk (c # cs) st =
     (if c = dquote then bindE (push_byte junk dquote st) (\<lambda>st. bindE (push_byte junk dquote st) (escape_loop junk cs))
      else bindE (push_byte junk c st) (escape_loop junk cs))"

definition m_escape_string2 :: "byte \<Rightarrow> bytes \<Rightarrow> bytes \<Rightarrow> quote_error + nat \<times> bytes" where
  "m_escape_string2 junk buffer string = bindE (escape_loop junk string (0, buffer)) (push_byte junk 0)"

section \<open>What is written\<close>

definition doubled :: "bytes \<Rightarrow> bytes" where
  "doubled s = concat (map (\<lambda>c. if c = dquote then [dquote, dquote] else [c]) s)"

lemma doubled_simps [simp]:
  "doubled [] = []" "doubled (c # s) = (if c = dquote then dquote # dquote # doubled s else c # doubled s)"
  by (simp_all add: doubled_def)

text \<open>The first \<open>length done\<close> bytes of the buffer have been written.\<close>

definition holds :: "bytes \<Rightarrow> nat \<times> bytes \<Rightarrow> bool" where
  "holds out st \<longleftrightarrow> fst st = length out \<and> length out \<le> length (snd st) \<and> take (length out) (snd st) = out"

lemma push_holds:
  assumes "holds out st"
  shows "\<exists>st'. push_byte junk c st = Inr st' \<and> holds (out @ [c]) st' \<and> length (snd st) \<le> length (snd st')"
proof -
  obtain i b where st: "st = (i, b)" by (cases st)
  have i: "i = length out" "length out \<le> length b" "take (length out) b = out" using assms st by (simp_all add: holds_def)
  obtain b' where b': "EXPAND_BUFFER_IF_NEEDED junk (i + 1) b = Inr b'" "i < length b'" "take i b' = out" "length b \<le> length b'"
    by (rule that [of "if length b \<le> i + 1
        then take i b @ replicate ((if length b * 2 \<le> i + 1 then i + 2 else length b * 2) - i) junk else b"])
      (use i in \<open>auto simp: EXPAND_BUFFER_IF_NEEDED_def Let_def\<close>)
  have "take (Suc i) (b'[i := c]) = out @ [c]" using b'(2,3) by (simp add: take_Suc_conv_app_nth)
  then show ?thesis using b' i(1) by (auto simp: st push_byte_def holds_def)
qed

lemma escape_loop_holds:
  "holds out st \<Longrightarrow> \<exists>st'. escape_loop junk s st = Inr st' \<and> holds (out @ doubled s) st' \<and> length (snd st) \<le> length (snd st')"
proof (induction s arbitrary: out st)
  case (Cons c s)
  obtain st1 where s1: "push_byte junk c st = Inr st1" "holds (out @ [c]) st1" "length (snd st) \<le> length (snd st1)"
    using push_holds [OF Cons.prems] by blast
  obtain st2 where s2: "push_byte junk c st1 = Inr st2" "holds ((out @ [c]) @ [c]) st2" "length (snd st1) \<le> length (snd st2)"
    using push_holds [OF s1(2)] by blast
  show ?case
  proof (cases "c = dquote")
    case True
    with Cons.IH [OF s2(2)] s1 s2 show ?thesis by fastforce
  next
    case False
    with Cons.IH [OF s1(2)] s1 show ?thesis by fastforce
  qed
qed auto

lemma unescape_doubled:
  "length out + length s < alloc \<Longrightarrow> unescape_into alloc 0 (doubled s) out = Inr (out @ s @ [0])"
  by (induction s arbitrary: out) (auto simp: append_byte_def)

lemma doubled_length: "length s \<le> length (doubled s)" "length (doubled s) \<le> 2 * length s"
  by (induction s) auto


lemma escape_into_exact:
  "escape_into alloc s out =
     (if length out + length (doubled s) < alloc then Inr (out @ doubled s @ [0]) else Inl QUOTE_OVERRUN)"
  by (induction s arbitrary: out) (auto simp: append_byte_def)

text \<open>C17: \<open>m_escape_string\<close> leaves no room for the terminating NUL: it writes behind its memory exactly when the string consists of double quotes only, as the empty string does.\<close>

theorem m_escape_string_overrun:
  "m_escape_string string = (if \<exists>c\<in>set string. c \<noteq> dquote then Inr (doubled string @ [0]) else Inl QUOTE_OVERRUN)"
proof -
  have "length (doubled string) < 2 * length string \<longleftrightarrow> (\<exists>c\<in>set string. c \<noteq> dquote)"
    using doubled_length(2) by (induction string) (auto simp: le_less_Suc_eq less_Suc_eq_le)
  then show ?thesis by (simp add: m_escape_string_def escape_into_exact)
qed

end
