(* ===== verification/Key_Expression.thy ===== *)
theory Key_Expression
  imports C_Library
begin

text \<open>
  The expressions \<open>keys("col")\<close> and \<open>values("col")\<close> in the GLOBAL, START and END keywords of a table: \<open>match_expression.c\<close>,
  \<open>find_column.c\<close>, \<open>parser/validate_global_keyword.c\<close> and \<open>parser/validate_start_end_keyword.c\<close>. A text is the list of its
  characters without the terminating NUL. A write outside of the memory for the column name is the error
  \<open>COLUMN_OVERRUN\<close>, a failing assertion \<open>KEY_ASSERTION\<close>.
\<close>

definition OCTO_MAX_IDENT :: nat where "OCTO_MAX_IDENT = 63"

definition MAX_KEY_COUNT :: nat where "MAX_KEY_COUNT = 256"

datatype ExpressionMatchType = MatchExpressionOFlow | NoMatchExpression | KeysExpression | ValuesExpression

datatype key_error =
    COLUMN_OVERRUN | KEY_ASSERTION | ERR_UNKNOWN_COLUMN_NAME bytes | ERR_KEYS_NEEDS_A_KEY_COLUMN bytes | ERR_GLOBAL_KEY_COLS_ORDER
  | ERR_VALUES_NOT_ALLOWED_IN_GLOBAL | ERR_VALUES_NOT_ALLOWED_IN_START_END | ERR_GLOBAL_MISSING_KEY_COLS

section \<open>match_expression\<close>

text \<open>The loops that compare with \<open>keys(\<close> and \<open>values(\<close>; the result is where they stop.\<close>

fun match_word :: "bytes \<Rightarrow> bytes \<Rightarrow> bytes option" where
  "match_word (c # cs) (k # ks) = (if c \<noteq> k then None else match_word cs ks)"
| "match_word cs ks = Some cs"

text \<open>The loop to the closing parenthesis: what is left of the count, and how many characters it has passed.\<close>

fun scan_parens :: "nat \<Rightarrow> bytes \<Rightarrow> nat \<times> nat" where
  "scan_parens 0 cs = (0, 0)"
| "scan_parens (Suc n) [] = (Suc n, 0)"
| "scan_parens (Suc n) (c # cs) =
     map_prod id Suc (scan_parens (if c = ch CHR ''('' then Suc (Suc n) else if c = ch CHR '')'' then n else Suc n) cs)"

text \<open>The column name and the length of the expression are there when the expression has been matched.\<close>

definition match_column :: "ExpressionMatchType \<Rightarrow> nat \<Rightarrow> bytes \<Rightarrow> key_error + ExpressionMatchType \<times> bytes \<times> nat" where
  "match_column match word_len cs =
     (let (paren_count, n) = scan_parens 1 cs in
      if paren_count = 0 then
        let last = n - 1;
            last = (if 0 < last \<and> cs ! (last - 1) = 34 then last - 1 else last);
            first = (if cs ! 0 = 34 then 1 else 0)
        in
        if OCTO_MAX_IDENT + 1 + first < last \<or> last < first then Inr (MatchExpressionOFlow, [], 0)
        else if last - first < OCTO_MAX_IDENT + 1 then Inr (match, take (last - first) (drop first cs), word_len + n)
        else Inl COLUMN_OVERRUN
      else Inr (NoMatchExpression, [], 0))"

definition match_expression :: "bytes \<Rightarrow> byte \<Rightarrow> key_error + ExpressionMatchType \<times> bytes \<times> nat" where
  "match_expression start prev =
     (let found =
        (case match_word start (lit ''keys('') of
           Some cs \<Rightarrow> Some (KeysExpression, cs)
         | None \<Rightarrow> map_option (Pair ValuesExpression) (match_word start (lit ''values('')))
      in
      case found of
        None \<Rightarrow> Inr (NoMatchExpression, [], 0)
      | Some (match, cs) \<Rightarrow>
          if prev \<noteq> ch CHR ''('' \<and> prev \<noteq> ch CHR '','' then Inr (NoMatchExpression, [], 0)
          else match_column match (length start - length cs) cs)"

section \<open>Columns\<close>

text \<open>Of a column only its name (a table constraint has none) and the text of \<open>OPTIONAL_KEY_NUM\<close> matter here.\<close>

record key_column =
  columnName :: "bytes option"
  key_num_text :: "bytes option"

fun find_column :: "bytes \<Rightarrow> key_column list \<Rightarrow> key_column option" where
  "find_column name [] = None"
| "find_column name (c # cs) = (if columnName c = Some name then Some c else find_column name cs)"

text \<open>
  With \<open>is_auto_upgrade_octo929\<close> a name that is not found is looked up in lower case, and replaced in the text when it is found so.
  \<open>written\<close> is the text up to the expression, \<open>rest\<close> from there on.
\<close>

definition replace_at :: "nat \<Rightarrow> bytes \<Rightarrow> bytes \<Rightarrow> bytes" where
  "replace_at n xs cs = take n cs @ xs @ drop (n + length xs) cs"

definition look_up_column :: "bool \<Rightarrow> key_column list \<Rightarrow> bytes \<Rightarrow> nat \<Rightarrow> bytes \<Rightarrow> (key_column \<times> bytes) option" where
  "look_up_column upgrade table column expr_len rest =
     (case find_column column table of
        Some c \<Rightarrow> Some (c, rest)
      | None \<Rightarrow>
          if upgrade then
            map_option (\<lambda>c. (c, replace_at (expr_len - length column - 2) (map tolower column) rest))
              (find_column (map tolower column) table)
          else None)"

section \<open>The validation of keywords\<close>

definition prev_char :: "bytes \<Rightarrow> bytes \<Rightarrow> byte" where
  "prev_char written rest =
     (if written = [] then (if hd rest = ch CHR ''k'' \<or> hd rest = ch CHR ''v'' then ch CHR ''('' else hd rest) else last written)"

text \<open>
  The loops over the text: \<open>written\<close> has been passed, \<open>rest\<close> is from \<open>ptr\<close> on. They return the text as it has become.
\<close>

definition is_match :: "ExpressionMatchType \<Rightarrow> bool" where
  "is_match t \<longleftrightarrow> t = KeysExpression \<or> t = ValuesExpression"

definition check_key_column :: "nat \<Rightarrow> int \<Rightarrow> bytes \<Rightarrow> key_column \<Rightarrow> byte \<Rightarrow> key_error + unit" where
  "check_key_column max_key next_key_num column c b =
     (if b = ch CHR ''k'' then
        case key_num_text c of
          None \<Rightarrow> Inl (ERR_KEYS_NEEDS_A_KEY_COLUMN column)
        | Some txt \<Rightarrow>
            bindE (guardE (strtol txt < int MAX_KEY_COUNT \<and> strtol txt \<le> int max_key) KEY_ASSERTION) (\<lambda>_.
            guardE (strtol txt = next_key_num) ERR_GLOBAL_KEY_COLS_ORDER)
      else Inl ERR_VALUES_NOT_ALLOWED_IN_GLOBAL)"

function global_loop :: "bool \<Rightarrow> key_column list \<Rightarrow> nat \<Rightarrow> bytes \<Rightarrow> bytes \<Rightarrow> int \<Rightarrow> key_error + bytes" where
  "global_loop upgrade table max_key written rest next_key_num =
     (if rest = [] then
        if next_key_num \<noteq> int max_key + 1 then Inl ERR_GLOBAL_MISSING_KEY_COLS else Inr written
      else
        case match_expression rest (prev_char written rest) of
          Inl e \<Rightarrow> Inl e
        | Inr (t, column, expr_len) \<Rightarrow>
            if is_match t then
              case look_up_column upgrade table column expr_len rest of
                None \<Rightarrow> Inl (ERR_UNKNOWN_COLUMN_NAME column)
              | Some (c, text) \<Rightarrow>
                  case check_key_column max_key next_key_num column c (hd rest) of
                    Inl e \<Rightarrow> Inl e
                  | Inr _ \<Rightarrow>
                      if expr_len = 0 then Inl KEY_ASSERTION
                      else global_loop upgrade table max_key (written @ take expr_len text) (drop expr_len rest) (next_key_num + 1)
            else global_loop upgrade table max_key (written @ [hd rest]) (tl rest) next_key_num)"
  by pat_completeness auto

termination
  by (relation "measure (\<lambda>(_, _, _, _, rest, _). length rest)") auto

declare global_loop.simps [simp del]

definition validate_global_keyword :: "bool \<Rightarrow> key_column list \<Rightarrow> nat \<Rightarrow> bytes \<Rightarrow> key_error + bytes" where
  "validate_global_keyword upgrade table max_key start =
     (if ch CHR ''('' \<notin> set start then Inr start
      else
        let n = length (takeWhile (\<lambda>b. b \<noteq> ch CHR ''('') start) + 1 in
        map_sum id (\<lambda>text. take n start @ text) (global_loop upgrade table max_key [] (drop n start) 0))"

function start_end_loop :: "bool \<Rightarrow> key_column list \<Rightarrow> bytes \<Rightarrow> bytes \<Rightarrow> key_error + bytes" where
  "start_end_loop upgrade table written rest =
     (if rest = [] then Inr written
      else
        case match_expression rest (prev_char written rest) of
          Inl e \<Rightarrow> Inl e
        | Inr (t, column, expr_len) \<Rightarrow>
            if is_match t then
              case look_up_column upgrade table column expr_len rest of
                None \<Rightarrow> Inl (ERR_UNKNOWN_COLUMN_NAME column)
              | Some (c, text) \<Rightarrow>
                  if hd rest \<noteq> ch CHR ''k'' then Inl ERR_VALUES_NOT_ALLOWED_IN_START_END
                  else if key_num_text c = None then Inl (ERR_KEYS_NEEDS_A_KEY_COLUMN column)
                  else if expr_len = 0 then Inl KEY_ASSERTION
                  else start_end_loop upgrade table (written @ take expr_len text) (drop expr_len rest)
            else start_end_loop upgrade table (written @ [hd rest]) (tl rest))"
  by pat_completeness auto

termination
  by (relation "measure (\<lambda>(_, _, _, rest). length rest)") auto

declare start_end_loop.simps [simp del]

definition validate_start_end_keyword :: "bool \<Rightarrow> key_column list \<Rightarrow> bytes \<Rightarrow> key_error + bytes" where
  "validate_start_end_keyword upgrade table start = start_end_loop upgrade table [] start"

section \<open>Matching an expression\<close>

definition plain_name :: "bytes \<Rightarrow> bool" where
  "plain_name name \<longleftrightarrow> ch CHR ''('' \<notin> set name \<and> ch CHR '')'' \<notin> set name"

definition key_expression :: "string \<Rightarrow> bytes \<Rightarrow> bytes" where
  "key_expression word name = lit word @ [ch CHR ''('', 34] @ name @ [34, ch CHR '')'']"

lemma ch_distinct:
  "ch CHR ''('' = 40" "ch CHR '')'' = 41" "ch CHR '','' = 44" "ch CHR ''k'' = 107" "ch CHR ''v'' = 118"
  by (simp_all add: ch_def of_char_def)

lemma map_sum_Inr_ex: "(\<exists>t. map_sum id f x = Inr t) \<longleftrightarrow> (\<exists>t. x = Inr t)"
  by (cases x) auto

lemma scan_name:
  "ch CHR ''('' \<notin> set name \<Longrightarrow> ch CHR '')'' \<notin> set name \<Longrightarrow> scan_parens (Suc 0) (name @ ch CHR '')'' # rest) = (0, length name + 1)"
  by (induction name) (auto simp: ch_distinct)

lemma match_column_name:
  assumes "plain_name name"
  shows "match_column t w (34 # name @ 34 # ch CHR '')'' # rest) =
    (if length name \<le> OCTO_MAX_IDENT then Inr (t, name, w + length name + 3)
     else if length name = OCTO_MAX_IDENT + 1 then Inl COLUMN_OVERRUN else Inr (MatchExpressionOFlow, [], 0))"
proof -
  have "scan_parens (Suc 0) ((34 # name @ [34]) @ ch CHR '')'' # rest) = (0, length (34 # name @ [34]) + 1)"
    by (rule scan_name) (use assms in \<open>auto simp: plain_name_def ch_distinct\<close>)
  then have s: "scan_parens (Suc 0) (34 # name @ 34 # ch CHR '')'' # rest) = (0, length name + 3)" by simp
  have n: "(34 # name @ 34 # ch CHR '')'' # rest) ! Suc (length name) = 34" by (simp add: nth_append)
  show ?thesis by (auto simp: match_column_def s n Let_def simp del: scan_parens.simps)
qed

lemma match_expression_name:
  assumes "plain_name name" "word = ''keys'' \<and> t = KeysExpression \<or> word = ''values'' \<and> t = ValuesExpression" "prev = ch CHR ''('' \<or> prev = ch CHR '',''"
  shows "match_expression (key_expression word name @ rest) prev =
    (if length name \<le> OCTO_MAX_IDENT then Inr (t, name, length (key_expression word name))
     else if length name = OCTO_MAX_IDENT + 1 then Inl COLUMN_OVERRUN else Inr (MatchExpressionOFlow, [], 0))"
proof -
  let ?cs = "34 # name @ 34 # ch CHR '')'' # rest"
  have e: "key_expression word name @ rest = lit word @ ch CHR ''('' # ?cs" by (simp add: key_expression_def)
  have "match_word (lit ''keys'' @ ch CHR ''('' # ?cs) (lit ''keys('') = Some ?cs"
    "match_word (lit ''values'' @ ch CHR ''('' # ?cs) (lit ''keys('') = None"
    "match_word (lit ''values'' @ ch CHR ''('' # ?cs) (lit ''values('') = Some ?cs"
    by (simp_all add: ch_def of_char_def)
  then show ?thesis
    using assms(2,3) unfolding e by (elim disjE conjE) (simp_all add: match_expression_def match_column_name [OF assms(1)] key_expression_def)
qed

text \<open>C14: an expression \<open>keys("name")\<close> or \<open>values("name")\<close> that follows an opening parenthesis or a comma is matched with its name and its length, whatever
  follows, when the name has at most 63 characters. A name of exactly 64 characters passes the check of the length and its terminating NUL is written behind the memory for the name; longer names are refused.\<close>

theorem match_expression_exact:
  assumes "plain_name name" "prev = ch CHR ''('' \<or> prev = ch CHR '',''"
  shows "match_expression (key_expression ''keys'' name @ rest) prev =
      (if length name \<le> 63 then Inr (KeysExpression, name, length name + 8)
       else if length name = 64 then Inl COLUMN_OVERRUN else Inr (MatchExpressionOFlow, [], 0))
    \<and> match_expression (key_expression ''values'' name @ rest) prev =
      (if length name \<le> 63 then Inr (ValuesExpression, name, length name + 10)
       else if length name = 64 then Inl COLUMN_OVERRUN else Inr (MatchExpressionOFlow, [], 0))"
  using match_expression_name [OF assms(1) _ assms(2), of "''keys''" KeysExpression rest]
    match_expression_name [OF assms(1) _ assms(2), of "''values''" ValuesExpression rest]
  by (simp add: key_expression_def OCTO_MAX_IDENT_def)

theorem match_expression_exact_witness:
  "match_expression (key_expression ''keys'' (replicate 64 97)) 44 = Inl COLUMN_OVERRUN"
  using match_expression_exact [of "replicate 64 97" 44 "[]"] by (simp add: plain_name_def ch_distinct)

section \<open>The GLOBAL keyword\<close>

text \<open>The subscripts of a global, one \<open>keys\<close> expression for each column.\<close>

fun subscripts :: "bytes list \<Rightarrow> bytes" where
  "subscripts [] = []"
| "subscripts [n] = key_expression ''keys'' n"
| "subscripts (n # ns) = key_expression ''keys'' n @ ch CHR '','' # subscripts ns"

text \<open>A name of a key column, with its number.\<close>

definition key_name :: "key_column list \<Rightarrow> nat \<Rightarrow> (bytes \<Rightarrow> nat) \<Rightarrow> bytes \<Rightarrow> bool" where
  "key_name table max_key num n \<longleftrightarrow> plain_name n \<and> length n \<le> OCTO_MAX_IDENT \<and> num n \<le> max_key
     \<and> (\<exists>c. find_column n table = Some c \<and> key_num_text c = Some (fmt_d (int (num n))))"

lemma no_match:
  assumes "c \<noteq> ch CHR ''k''" "c \<noteq> ch CHR ''v''"
  shows "match_expression (c # rest) prev = Inr (NoMatchExpression, [], 0)"
  using assms by (simp add: match_expression_def)

lemma loop_skip:
  assumes "c \<noteq> ch CHR ''k''" "c \<noteq> ch CHR ''v''"
  shows "global_loop u table max_key written (c # rest) i = global_loop u table max_key (written @ [c]) rest i"
  by (subst global_loop.simps) (simp add: no_match [OF assms] is_match_def)

lemma loop_end: "global_loop u table max_key written [] i = (if i \<noteq> int max_key + 1 then Inl ERR_GLOBAL_MISSING_KEY_COLS else Inr written)"
  by (subst global_loop.simps) simp

lemma loop_key:
  assumes "key_name table max_key num n" "max_key < MAX_KEY_COUNT" "written = [] \<or> last written = ch CHR '',''"
  shows "global_loop u table max_key written (key_expression ''keys'' n @ rest) i =
    (if int (num n) = i then global_loop u table max_key (written @ key_expression ''keys'' n) rest (i + 1) else Inl ERR_GLOBAL_KEY_COLS_ORDER)"
proof -
  obtain c where c: "find_column n table = Some c" "key_num_text c = Some (fmt_d (int (num n)))" "plain_name n" "length n \<le> OCTO_MAX_IDENT" "num n \<le> max_key"
    using assms(1) by (auto simp: key_name_def)
  have h: "hd (key_expression ''keys'' n @ rest) = ch CHR ''k''" "key_expression ''keys'' n \<noteq> []" by (simp_all add: key_expression_def)
  have "prev_char written (key_expression ''keys'' n @ rest) = ch CHR ''('' \<or> prev_char written (key_expression ''keys'' n @ rest) = ch CHR '',''"
    using assms(3) h by (auto simp: prev_char_def)
  then have m: "match_expression (key_expression ''keys'' n @ rest) (prev_char written (key_expression ''keys'' n @ rest)) =
      Inr (KeysExpression, n, length (key_expression ''keys'' n))"
    using match_expression_name [OF c(3), of "''keys''" KeysExpression] c(4) by simp
  have s: "strtol (fmt_d (int (num n))) = int (num n)" using c(5) assms(2) strtol_fmt_d [of "int (num n)" "[]"] by (simp add: MAX_KEY_COUNT_def LONG_MAX_def LONG_MIN_def)
  show ?thesis
    by (subst global_loop.simps)
      (use h c assms(2) in \<open>auto simp: m is_match_def look_up_column_def check_key_column_def s\<close>)
qed

lemma loop_subscripts:
  assumes "\<forall>n\<in>set ns. key_name table max_key num n" "max_key < MAX_KEY_COUNT" "written = [] \<or> last written = ch CHR '',''" "ns \<noteq> []"
  shows "(\<exists>t. global_loop u table max_key written (subscripts ns @ [ch CHR '')'']) (int i) = Inr t)
    \<longleftrightarrow> map num ns = [i..<Suc max_key]"
  using assms(1,3,4)
proof (induction ns arbitrary: written i rule: subscripts.induct)
  case (2 n)
  then show ?case
    using loop_key [OF _ assms(2), of table num n written u "[ch CHR '')'']" "int i"]
    by (auto simp: loop_skip loop_end ch_distinct upt_rec)
next
  case (3 n m ns)
  let ?w = "written @ key_expression ''keys'' n"
  have k: "key_name table max_key num n" using 3(2) by simp
  have step: "global_loop u table max_key written (subscripts (n # m # ns) @ [ch CHR '')'']) (int i) =
      (if num n = i then global_loop u table max_key (?w @ [ch CHR '','']) (subscripts (m # ns) @ [ch CHR '')'']) (int i + 1)
       else Inl ERR_GLOBAL_KEY_COLS_ORDER)"
    using loop_key [OF k assms(2) 3(3)] by (simp add: loop_skip ch_distinct)
  have suc: "int i + 1 = int (Suc i)" by simp
  have tail: "(\<exists>t. global_loop u table max_key (?w @ [ch CHR '','']) (subscripts (m # ns) @ [ch CHR '')'']) (int (Suc i)) = Inr t)
      \<longleftrightarrow> map num (m # ns) = [Suc i..<Suc max_key]"
    by (rule 3(1)) (use 3(2) in auto)
  have "(\<exists>t. global_loop u table max_key written (subscripts (n # m # ns) @ [ch CHR '')'']) (int i) = Inr t)
      \<longleftrightarrow> num n = i \<and> map num (m # ns) = [Suc i..<Suc max_key]"
    unfolding step suc tail [symmetric] by (cases "num n = i") (simp_all only: if_True if_False simp_thms sum.distinct)
  moreover have "num n \<le> max_key" using k by (simp add: key_name_def)
  ultimately show ?case by (auto simp: upt_rec [of i])
qed simp

text \<open>C13: a GLOBAL keyword whose subscripts are \<open>keys\<close> expressions of key columns is accepted exactly when they are all the key columns of the table, each once and in the order of
  their numbers.\<close>

theorem validate_global_keyword_exact:
  assumes "\<forall>n\<in>set ns. key_name table max_key num n" "max_key < MAX_KEY_COUNT" "ns \<noteq> []" "ch CHR ''('' \<notin> set gvn"
  shows "(\<exists>t. validate_global_keyword upgrade table max_key (gvn @ ch CHR ''('' # subscripts ns @ [ch CHR '')'']) = Inr t)
    \<longleftrightarrow> map num ns = [0..<Suc max_key]"
proof -
  have "takeWhile (\<lambda>b. b \<noteq> ch CHR ''('') (gvn @ ch CHR ''('' # subscripts ns @ [ch CHR '')'']) = gvn"
    using assms(4) by (subst takeWhile_append2) auto
  then have "(\<exists>t. validate_global_keyword upgrade table max_key (gvn @ ch CHR ''('' # subscripts ns @ [ch CHR '')'']) = Inr t)
      \<longleftrightarrow> (\<exists>t. global_loop upgrade table max_key [] (subscripts ns @ [ch CHR '')'']) (int 0) = Inr t)"
    by (simp add: validate_global_keyword_def Let_def map_sum_Inr_ex)
  then show ?thesis using loop_subscripts [OF assms(1,2) _ assms(3), of "[]" upgrade 0] by simp
qed

definition example_keys :: "key_column list" where
  "example_keys = [\<lparr>columnName = None, key_num_text = None\<rparr>, \<lparr>columnName = Some (lit ''a''), key_num_text = Some (fmt_d 0)\<rparr>,
     \<lparr>columnName = Some (lit ''b''), key_num_text = Some (fmt_d 1)\<rparr>]"

theorem validate_global_keyword_exact_witness:
  "\<not> (\<exists>t. validate_global_keyword False example_keys 1 (lit ''^x'' @ ch CHR ''('' # subscripts [lit ''b'', lit ''a''] @ [ch CHR '')'']) = Inr t)"
proof -
  have "\<forall>n\<in>set [lit ''b'', lit ''a'']. key_name example_keys 1 (\<lambda>n. if n = lit ''a'' then 0 else 1) n"
    by (simp add: key_name_def plain_name_def example_keys_def OCTO_MAX_IDENT_def ch_def of_char_def)
  from validate_global_keyword_exact [OF this, of "lit ''^x''" False] show ?thesis
    by (simp add: MAX_KEY_COUNT_def ch_def of_char_def upt_rec)
qed

end
