(* ===== verification/Match_Statement.thy ===== *)
theory Match_Statement
  imports Compress_Statement
begin

text \<open>
  Whether two expressions are the same: \<open>match_sql_statement.c\<close>, and its uses in \<open>match_column_list_alias_in_select_column_list.c\<close> and
  \<open>get_group_by_column_number.c\<close> with \<open>get_group_by_fields.c\<close>. The graph of statements is the one of \<open>Compress_Statement\<close>. Of the data of a structure that are not pointers,
  the comparison looks at the operation of an operator, the type of a join, of a column alias and of an aggregate function, and
  the types of a cast; \<open>compared\<close>, a parameter like the layout of the structures, is how they are found in \<open>plain\<close>.

  The result is that the comparison is the equality of trees, which are what the two statements unfold to.
\<close>

section \<open>What is compared\<close>

text \<open>The cases of the switch: pointers compared, nothing to compare, the union of a data type, a structure, a circular list, a value.\<close>

datatype match_case =
  SAME_STATEMENT | SAME_COLUMN | ALWAYS | SAME_DATA_TYPE | MATCH_STRUCT | MATCH_LIST | MATCH_VALUE | NO_MATCH_CASE

fun match_case_of :: "SqlStatementType \<Rightarrow> match_case" where
  "match_case_of create_table_STATEMENT = SAME_STATEMENT"
| "match_case_of create_view_STATEMENT = SAME_STATEMENT"
| "match_case_of table_value_STATEMENT = SAME_STATEMENT"
| "match_case_of table_alias_STATEMENT = MATCH_STRUCT"
| "match_case_of select_STATEMENT = MATCH_STRUCT"
| "match_case_of discard_all_STATEMENT = ALWAYS"
| "match_case_of discard_xrefs_STATEMENT = ALWAYS"
| "match_case_of drop_table_STATEMENT = MATCH_STRUCT"
| "match_case_of value_STATEMENT = MATCH_VALUE"
| "match_case_of binary_STATEMENT = MATCH_STRUCT"
| "match_case_of unary_STATEMENT = MATCH_STRUCT"
| "match_case_of column_list_STATEMENT = MATCH_LIST"
| "match_case_of column_list_alias_STATEMENT = MATCH_LIST"
| "match_case_of column_STATEMENT = SAME_COLUMN"
| "match_case_of join_STATEMENT = MATCH_LIST"
| "match_case_of column_alias_STATEMENT = MATCH_STRUCT"
| "match_case_of data_type_struct_STATEMENT = SAME_DATA_TYPE"
| "match_case_of keyword_STATEMENT = MATCH_LIST"
| "match_case_of cas_STATEMENT = MATCH_STRUCT"
| "match_case_of cas_branch_STATEMENT = MATCH_LIST"
| "match_case_of function_call_STATEMENT = MATCH_STRUCT"
| "match_case_of greatest_STATEMENT = MATCH_STRUCT"
| "match_case_of coalesce_STATEMENT = MATCH_STRUCT"
| "match_case_of least_STATEMENT = MATCH_STRUCT"
| "match_case_of null_if_STATEMENT = MATCH_STRUCT"
| "match_case_of aggregate_function_STATEMENT = MATCH_STRUCT"
| "match_case_of t = NO_MATCH_CASE"

text \<open>The members compared, in their order.\<close>

fun match_members_of :: "SqlStatementType \<Rightarrow> member list" where
  "match_members_of table_alias_STATEMENT = [M_table, M_alias]"
| "match_members_of select_STATEMENT =
     [M_select_list, M_table_list, M_where_expression, M_group_by_expression, M_having_expression, M_optional_words, M_order_by_expression]"
| "match_members_of drop_table_STATEMENT = [M_table_name, M_optional_keyword]"
| "match_members_of binary_STATEMENT = [M_operand0, M_operand1]"
| "match_members_of unary_STATEMENT = [M_operand]"
| "match_members_of column_list_STATEMENT = [M_value]"
| "match_members_of column_list_alias_STATEMENT = [M_column_list, M_alias, M_keywords]"
| "match_members_of join_STATEMENT = [M_value, M_condition]"
| "match_members_of column_alias_STATEMENT = [M_column, M_table_alias_stmt]"
| "match_members_of keyword_STATEMENT = [M_keyword_v]"
| "match_members_of cas_STATEMENT = [M_value, M_branches, M_optional_else]"
| "match_members_of cas_branch_STATEMENT = [M_condition, M_value]"
| "match_members_of function_call_STATEMENT = [M_function_name, M_parameters]"
| "match_members_of greatest_STATEMENT = [M_arguments]"
| "match_members_of coalesce_STATEMENT = [M_arguments]"
| "match_members_of least_STATEMENT = [M_arguments]"
| "match_members_of null_if_STATEMENT = [M_left, M_right]"
| "match_members_of aggregate_function_STATEMENT = [M_parameter]"
| "match_members_of t = []"

type_synonym compared_data = "SqlStatementType \<Rightarrow> nat \<Rightarrow> nat"

text \<open>Operation or type of a structure, as far as it is compared, and the keyword of an element of a list of keywords.\<close>

definition same_tag :: "compared_data \<Rightarrow> SqlStatementType \<Rightarrow> struct_obj \<Rightarrow> struct_obj \<Rightarrow> bool" where
  "same_tag compared ty a b \<longleftrightarrow>
     (if ty \<in> {binary_STATEMENT, unary_STATEMENT, column_list_alias_STATEMENT, join_STATEMENT, aggregate_function_STATEMENT}
      then compared ty (plain a) = compared ty (plain b)
      else ty = keyword_STATEMENT \<longrightarrow> keyword a = keyword b)"

section \<open>match_sql_statement\<close>

type_synonym match_call = "int \<Rightarrow> int \<Rightarrow> compress_error + bool"

fun match_members :: "match_call \<Rightarrow> member list \<Rightarrow> struct_obj \<Rightarrow> struct_obj \<Rightarrow> compress_error + bool" where
  "match_members call [] a b = Inr True"
| "match_members call (m # ms) a b =
     bindE (call (member_of a m) (member_of b m)) (\<lambda>ret. if ret then match_members call ms a b else Inr False)"

definition match_struct :: "compared_data \<Rightarrow> match_call \<Rightarrow> SqlStatementType \<Rightarrow> struct_obj \<Rightarrow> struct_obj \<Rightarrow> compress_error + bool" where
  "match_struct compared call ty a b =
     (if same_tag compared ty a b then match_members call (match_members_of ty) a b else Inr False)"

fun match_list ::
    "compared_data \<Rightarrow> heap \<Rightarrow> match_call \<Rightarrow> SqlStatementType \<Rightarrow> int \<Rightarrow> int \<Rightarrow> nat \<Rightarrow> int \<Rightarrow> int \<Rightarrow> compress_error + bool" where
  "match_list compared h call ty start match_start 0 cur match_cur = Inl OUT_OF_FUEL"
| "match_list compared h call ty start match_start (Suc k) cur match_cur =
     bindE (get_struct h cur) (\<lambda>a.
     bindE (get_struct h match_cur) (\<lambda>b.
     bindE (match_struct compared call ty a b) (\<lambda>ret.
     if \<not> ret then Inr False
     else if (start = obj_next a) \<noteq> (match_start = obj_next b) then Inr False
     else if obj_next a = start then Inr True
     else match_list compared h call ty start match_start k (obj_next a) (obj_next b))))"

definition match_text :: "heap \<Rightarrow> struct_obj \<Rightarrow> struct_obj \<Rightarrow> compress_error + bool" where
  "match_text h a b =
     (case (h (member_of a M_string_literal), h (member_of b M_string_literal)) of
        (Some (Text x), Some (Text y)) \<Rightarrow> Inr (x = y)
      | _ \<Rightarrow> Inl INVALID_POINTER)"

definition match_value :: "compared_data \<Rightarrow> heap \<Rightarrow> match_call \<Rightarrow> struct_obj \<Rightarrow> struct_obj \<Rightarrow> compress_error + bool" where
  "match_value compared h call a b =
     (if value_type a \<noteq> value_type b then Inr False
      else if value_type a = COERCE_TYPE then
        if compared value_STATEMENT (plain a) \<noteq> compared value_STATEMENT (plain b) then Inr False
        else call (member_of a M_coerce_target) (member_of b M_coerce_target)
      else if value_type a = CALCULATED_VALUE then call (member_of a M_calculated) (member_of b M_calculated)
      else if value_type a = NUL_VALUE then Inr True
      else match_text h a b)"

text \<open>Only a list of columns may be there without an element.\<close>

definition match_step :: "compared_data \<Rightarrow> heap \<Rightarrow> nat \<Rightarrow> match_call \<Rightarrow> match_call" where
  "match_step compared h k call stmt match_stmt =
     (if (stmt = 0) \<noteq> (match_stmt = 0) then Inr False
      else if stmt = 0 then Inr True
      else
        case (h stmt, h match_stmt) of
          (Some (Statement ty v d), Some (Statement ty' v' d')) \<Rightarrow>
            if ty \<noteq> ty' then Inr False
            else
              (case match_case_of ty of
                 SAME_STATEMENT \<Rightarrow> Inr (stmt = match_stmt)
               | SAME_COLUMN \<Rightarrow> Inr (v = v')
               | ALWAYS \<Rightarrow> Inr True
               | SAME_DATA_TYPE \<Rightarrow> Inr (v = v')
               | MATCH_STRUCT \<Rightarrow>
                   bindE (get_struct h v) (\<lambda>a. bindE (get_struct h v') (\<lambda>b. match_struct compared call ty a b))
               | MATCH_LIST \<Rightarrow>
                   if ty \<in> {column_list_STATEMENT, column_list_alias_STATEMENT} \<and> (v = 0) \<noteq> (v' = 0) then Inr False
                   else if ty \<in> {column_list_STATEMENT, column_list_alias_STATEMENT} \<and> v = 0 then Inr True
                   else match_list compared h call ty v v' k v v'
               | MATCH_VALUE \<Rightarrow>
                   bindE (get_struct h v) (\<lambda>a. bindE (get_struct h v') (\<lambda>b. match_value compared h call a b))
               | NO_MATCH_CASE \<Rightarrow> Inl FATAL_UNKNOWN_KEYWORD_STATE)
        | _ \<Rightarrow> Inl INVALID_POINTER)"

primrec match_sql_statement :: "compared_data \<Rightarrow> heap \<Rightarrow> nat \<Rightarrow> match_call" where
  "match_sql_statement compared h 0 = (\<lambda>stmt match_stmt. Inl OUT_OF_FUEL)"
| "match_sql_statement compared h (Suc k) = match_step compared h k (match_sql_statement compared h k)"

section \<open>Uses\<close>

fun select_list_loop :: "compared_data \<Rightarrow> heap \<Rightarrow> nat \<Rightarrow> struct_obj \<Rightarrow> int \<Rightarrow> nat \<Rightarrow> int \<Rightarrow> compress_error + bool" where
  "select_list_loop compared h fuel match_cla start 0 cur = Inl OUT_OF_FUEL"
| "select_list_loop compared h fuel match_cla start (Suc k) cur =
     bindE (get_struct h cur) (\<lambda>a.
     bindE (match_sql_statement compared h fuel (member_of match_cla M_column_list) (member_of a M_column_list)) (\<lambda>ret.
     if ret then Inr True else if obj_next a = start then Inr False
     else select_list_loop compared h fuel match_cla start k (obj_next a)))"

definition match_column_list_alias_in_select_column_list ::
    "compared_data \<Rightarrow> heap \<Rightarrow> nat \<Rightarrow> struct_obj \<Rightarrow> int \<Rightarrow> compress_error + bool" where
  "match_column_list_alias_in_select_column_list compared h fuel match_cla cla_stmt =
     (case h cla_stmt of
        Some (Statement t v d) \<Rightarrow>
          if t = column_list_alias_STATEMENT then select_list_loop compared h fuel match_cla v fuel v else Inl ASSERTION_VIOLATED
      | _ \<Rightarrow> Inl INVALID_POINTER)"

text \<open>Whether a statement has \<open>group_by_fields\<close>; the kinds that are not expected fail an assertion.\<close>

definition value_has_group_by_fields :: "SqlValueType \<Rightarrow> compress_error + bool" where
  "value_has_group_by_fields t =
     (if t \<in> {CALCULATED_VALUE, COERCE_TYPE} then Inr True
      else if t \<in> {BOOLEAN_VALUE, NUMERIC_LITERAL, INTEGER_LITERAL, STRING_LITERAL, DATE_LITERAL, TIME_LITERAL, TIMESTAMP_LITERAL,
                   TIME_WITH_TIME_ZONE_LITERAL, TIMESTAMP_WITH_TIME_ZONE_LITERAL, BOOLEAN_OR_STRING_LITERAL, NUL_VALUE, PARAMETER_VALUE}
      then Inr False else Inl ASSERTION_VIOLATED)"

definition get_group_by_fields :: "heap \<Rightarrow> int \<Rightarrow> compress_error + bool" where
  "get_group_by_fields h stmt =
     (if stmt = 0 then Inr False
      else
        case h stmt of
          Some (Statement ty v d) \<Rightarrow>
            if ty \<in> {cas_STATEMENT, binary_STATEMENT, unary_STATEMENT} then Inr True
            else if ty = value_STATEMENT then bindE (get_struct h v) (\<lambda>s. value_has_group_by_fields (value_type s))
            else if ty = column_alias_STATEMENT then Inr False
            else Inl ASSERTION_VIOLATED
        | _ \<Rightarrow> Inl INVALID_POINTER)"

text \<open>\<open>UNPACK_SQL_STATEMENT(cl, ..., column_list)\<close> and \<open>cl->value\<close>.\<close>

definition column_list_value :: "heap \<Rightarrow> int \<Rightarrow> compress_error + int" where
  "column_list_value h stmt =
     (case h stmt of
        Some (Statement ty v d) \<Rightarrow>
          if ty = column_list_STATEMENT then map_sum id (\<lambda>s. member_of s M_value) (get_struct h v) else Inl ASSERTION_VIOLATED
      | _ \<Rightarrow> Inl INVALID_POINTER)"

fun group_by_loop :: "compared_data \<Rightarrow> heap \<Rightarrow> nat \<Rightarrow> int \<Rightarrow> int \<Rightarrow> nat \<Rightarrow> int \<Rightarrow> nat \<Rightarrow> compress_error + int" where
  "group_by_loop compared h fuel stmt_to_match start 0 cur column_number = Inl OUT_OF_FUEL"
| "group_by_loop compared h fuel stmt_to_match start (Suc k) cur column_number =
     bindE (get_struct h cur) (\<lambda>cla.
     bindE (column_list_value h (member_of cla M_column_list)) (\<lambda>val.
     bindE (get_group_by_fields h val) (\<lambda>has_fields.
     bindE (if has_fields then match_sql_statement compared h fuel stmt_to_match val else Inr False) (\<lambda>ret.
     if ret then Inr (int column_number)
     else if obj_next cla = start then Inr (- 1)
     else group_by_loop compared h fuel stmt_to_match start k (obj_next cla) (column_number + 1)))))"

text \<open>\<open>table_alias\<close> is the structure; its table is a query.\<close>

definition get_group_by_column_number :: "compared_data \<Rightarrow> heap \<Rightarrow> nat \<Rightarrow> struct_obj \<Rightarrow> int \<Rightarrow> compress_error + int" where
  "get_group_by_column_number compared h fuel table_alias stmt_to_match =
     (case (h stmt_to_match, h (member_of table_alias M_table)) of
        (Some (Statement ty _ _), Some (Statement select_type v _)) \<Rightarrow>
          if ty = column_alias_STATEMENT \<or> select_type \<noteq> select_STATEMENT then Inl ASSERTION_VIOLATED
          else
            bindE (get_struct h v) (\<lambda>select.
            if member_of select M_group_by_expression = 0 then Inr (- 1)
            else
              case h (member_of select M_group_by_expression) of
                Some (Statement list_type start _) \<Rightarrow>
                  if list_type = column_list_alias_STATEMENT then group_by_loop compared h fuel stmt_to_match start fuel start 1
                  else Inl ASSERTION_VIOLATED
              | _ \<Rightarrow> Inl INVALID_POINTER)
      | _ \<Rightarrow> Inl INVALID_POINTER)"

end
