(* ===== verification/Match_Laws.thy ===== *)
theory Match_Laws
  imports Match_Statement Compress_Ends
begin

text \<open>
  What \<open>match_sql_statement\<close> compares: the tree that a statement unfolds to along the members it looks at. Tables, views and columns
  are leaves that stand for their address. Two statements match exactly when their trees are equal, so matching is an equivalence.
\<close>

type_synonym match_tag = "nat \<times> OptionalKeyword"

datatype tree =
    N_Null | N_Pointer SqlStatementType int | N_Unit SqlStatementType | N_Struct SqlStatementType match_tag "tree list"
  | N_List SqlStatementType "(match_tag \<times> tree list) list" | N_Value SqlValueType nat tree | N_Text SqlValueType bytes

definition tag_of :: "compared_data \<Rightarrow> SqlStatementType \<Rightarrow> struct_obj \<Rightarrow> match_tag" where
  "tag_of compared ty s =
     (if ty \<in> {binary_STATEMENT, unary_STATEMENT, column_list_alias_STATEMENT, join_STATEMENT, aggregate_function_STATEMENT}
      then compared ty (plain s) else 0,
      if ty = keyword_STATEMENT then keyword s else NO_KEYWORD)"

type_synonym unfold_call = "int \<Rightarrow> compress_error + tree"

fun unfold_members :: "unfold_call \<Rightarrow> struct_obj \<Rightarrow> member list \<Rightarrow> compress_error + tree list" where
  "unfold_members call s [] = Inr []"
| "unfold_members call s (m # ms) =
     bindE (call (member_of s m)) (\<lambda>x. bindE (unfold_members call s ms) (\<lambda>xs. Inr (x # xs)))"

fun unfold_list :: "compared_data \<Rightarrow> heap \<Rightarrow> unfold_call \<Rightarrow> SqlStatementType \<Rightarrow> int \<Rightarrow> nat \<Rightarrow> int \<Rightarrow> compress_error + (match_tag \<times> tree list) list" where
  "unfold_list compared h call ty start 0 cur = Inl OUT_OF_FUEL"
| "unfold_list compared h call ty start (Suc k) cur =
     bindE (get_struct h cur) (\<lambda>s.
     bindE (unfold_members call s (match_members_of ty)) (\<lambda>xs.
     if obj_next s = start then Inr [(tag_of compared ty s, xs)]
     else bindE (unfold_list compared h call ty start k (obj_next s)) (\<lambda>ys. Inr ((tag_of compared ty s, xs) # ys))))"

definition unfold_value :: "compared_data \<Rightarrow> heap \<Rightarrow> unfold_call \<Rightarrow> struct_obj \<Rightarrow> compress_error + tree" where
  "unfold_value compared h call s =
     (if value_type s = COERCE_TYPE then
        map_sum id (N_Value COERCE_TYPE (compared value_STATEMENT (plain s))) (call (member_of s M_coerce_target))
      else if value_type s = CALCULATED_VALUE then map_sum id (N_Value CALCULATED_VALUE 0) (call (member_of s M_calculated))
      else if value_type s = NUL_VALUE then Inr (N_Text NUL_VALUE [])
      else
        (case h (member_of s M_string_literal) of
           Some (Text x) \<Rightarrow> Inr (N_Text (value_type s) x)
         | _ \<Rightarrow> Inl INVALID_POINTER))"

definition unfold_step :: "compared_data \<Rightarrow> heap \<Rightarrow> nat \<Rightarrow> unfold_call \<Rightarrow> unfold_call" where
  "unfold_step compared h k call stmt =
     (if stmt = 0 then Inr N_Null
      else
        case h stmt of
          Some (Statement ty v d) \<Rightarrow>
            (case match_case_of ty of
               SAME_STATEMENT \<Rightarrow> Inr (N_Pointer ty stmt)
             | SAME_COLUMN \<Rightarrow> Inr (N_Pointer ty v)
             | ALWAYS \<Rightarrow> Inr (N_Unit ty)
             | SAME_DATA_TYPE \<Rightarrow> Inr (N_Pointer ty v)
             | MATCH_STRUCT \<Rightarrow>
                 bindE (get_struct h v) (\<lambda>s. map_sum id (N_Struct ty (tag_of compared ty s)) (unfold_members call s (match_members_of ty)))
             | MATCH_LIST \<Rightarrow>
                 if ty \<in> {column_list_STATEMENT, column_list_alias_STATEMENT} \<and> v = 0 then Inr (N_List ty [])
                 else map_sum id (N_List ty) (unfold_list compared h call ty v k v)
             | MATCH_VALUE \<Rightarrow> bindE (get_struct h v) (unfold_value compared h call)
             | NO_MATCH_CASE \<Rightarrow> Inl FATAL_UNKNOWN_KEYWORD_STATE)
        | _ \<Rightarrow> Inl INVALID_POINTER)"

primrec unfold_statement :: "compared_data \<Rightarrow> heap \<Rightarrow> nat \<Rightarrow> unfold_call" where
  "unfold_statement compared h 0 = (\<lambda>stmt. Inl OUT_OF_FUEL)"
| "unfold_statement compared h (Suc k) = unfold_step compared h k (unfold_statement compared h k)"

section \<open>The comparison is the equality of trees\<close>

definition compares :: "unfold_call \<Rightarrow> match_call \<Rightarrow> bool" where
  "compares u m \<longleftrightarrow> (\<forall>s t x y. u s = Inr x \<longrightarrow> u t = Inr y \<longrightarrow> m s t = Inr (x = y))"

lemma comparesD: "compares u m \<Longrightarrow> u s = Inr x \<Longrightarrow> u t = Inr y \<Longrightarrow> m s t = Inr (x = y)"
  unfolding compares_def by blast

lemma same_tag_iff: "same_tag compared ty a b \<longleftrightarrow> tag_of compared ty a = tag_of compared ty b"
  by (auto simp: same_tag_def tag_of_def)

lemma map_sum_id_Inr: "map_sum id f x = Inr y \<longleftrightarrow> (\<exists>z. x = Inr z \<and> y = f z)"
  by (cases x) auto

lemma members_compare:
  assumes "compares u m" "unfold_members u a ms = Inr xs" "unfold_members u b ms = Inr ys"
  shows "match_members m ms a b = Inr (xs = ys)"
  using assms(2,3)
proof (induction ms arbitrary: xs ys)
  case (Cons n ms)
  then obtain x xs' y ys' where "u (member_of a n) = Inr x" "unfold_members u a ms = Inr xs'" "xs = x # xs'"
    "u (member_of b n) = Inr y" "unfold_members u b ms = Inr ys'" "ys = y # ys'"
    by (auto simp: bindE_Inr_iff)
  then show ?case using comparesD [OF assms(1)] Cons.IH by simp
qed simp

lemma struct_compare:
  assumes "compares u m" "unfold_members u a (match_members_of ty) = Inr xs" "unfold_members u b (match_members_of ty) = Inr ys"
  shows "match_struct compared m ty a b = Inr ((tag_of compared ty a, xs) = (tag_of compared ty b, ys))"
  using members_compare [OF assms] by (simp add: match_struct_def same_tag_iff)

lemma unfold_list_not_Nil [simp]: "unfold_list compared h u ty start k cur \<noteq> Inr []"
  by (cases k) (auto simp: bindE_Inr_iff split: if_splits)

lemma list_compare:
  assumes "compares u m" "unfold_list compared h u ty start k cur = Inr xs" "unfold_list compared h u ty start' k cur' = Inr ys"
  shows "match_list compared h m ty start start' k cur cur' = Inr (xs = ys)"
  using assms(2,3)
proof (induction k arbitrary: cur cur' xs ys)
  case (Suc k)
  obtain a as where a: "get_struct h cur = Inr a" "unfold_members u a (match_members_of ty) = Inr as"
      "if obj_next a = start then xs = [(tag_of compared ty a, as)]
       else \<exists>xs'. unfold_list compared h u ty start k (obj_next a) = Inr xs' \<and> xs = (tag_of compared ty a, as) # xs'"
    using Suc.prems(1) by (auto simp: bindE_Inr_iff split: if_splits)
  obtain b bs where b: "get_struct h cur' = Inr b" "unfold_members u b (match_members_of ty) = Inr bs"
      "if obj_next b = start' then ys = [(tag_of compared ty b, bs)]
       else \<exists>ys'. unfold_list compared h u ty start' k (obj_next b) = Inr ys' \<and> ys = (tag_of compared ty b, bs) # ys'"
    using Suc.prems(2) by (auto simp: bindE_Inr_iff split: if_splits)
  have hd: "match_struct compared m ty a b = Inr ((tag_of compared ty a, as) = (tag_of compared ty b, bs))"
    by (rule struct_compare [OF assms(1) a(2) b(2)])
  show ?case
    using a(1,3) b(1,3) hd Suc.IH by (auto split: if_splits)
qed simp

lemma value_compare:
  assumes "compares u m" "unfold_value compared h u a = Inr x" "unfold_value compared h u b = Inr y"
  shows "match_value compared h m a b = Inr (x = y)"
  using assms(2,3) comparesD [OF assms(1)]
  by (auto simp: unfold_value_def match_value_def match_text_def map_sum_id_Inr split: if_splits option.splits obj.splits)

fun tree_type :: "tree \<Rightarrow> SqlStatementType option" where
  "tree_type N_Null = None"
| "tree_type (N_Pointer ty _) = Some ty"
| "tree_type (N_Unit ty) = Some ty"
| "tree_type (N_Struct ty _ _) = Some ty"
| "tree_type (N_List ty _) = Some ty"
| "tree_type (N_Value _ _ _) = Some value_STATEMENT"
| "tree_type (N_Text _ _) = Some value_STATEMENT"

lemma match_value_case: "match_case_of ty = MATCH_VALUE \<longleftrightarrow> ty = value_STATEMENT"
  by (cases ty) auto

lemma unfold_type:
  assumes "unfold_step compared h k u s = Inr x"
  shows "if s = 0 then x = N_Null else \<exists>ty v d. h s = Some (Statement ty v d) \<and> tree_type x = Some ty"
proof (cases "s = 0")
  case False
  then obtain ty v d where s: "h s = Some (Statement ty v d)" using assms by (auto simp: unfold_step_def split: option.splits obj.splits)
  have "tree_type x = Some ty"
  proof (cases "match_case_of ty")
    case MATCH_VALUE
    then show ?thesis
      using assms s False match_value_case [of ty]
      by (auto simp: unfold_step_def unfold_value_def bindE_Inr_iff map_sum_id_Inr split: if_splits option.splits obj.splits)
  qed (use assms s False in \<open>auto simp: unfold_step_def bindE_Inr_iff map_sum_id_Inr split: if_splits\<close>)
  then show ?thesis using s False by simp
qed (use assms in \<open>simp add: unfold_step_def\<close>)

lemma step_compare:
  assumes "compares u m"
  shows "compares (unfold_step compared h k u) (match_step compared h k m)"
  unfolding compares_def
proof (intro allI impI)
  fix s t x y
  assume x: "unfold_step compared h k u s = Inr x" and y: "unfold_step compared h k u t = Inr y"
  note tx = unfold_type [OF x] and ty = unfold_type [OF y]
  show "match_step compared h k m s t = Inr (x = y)"
  proof (cases "s = 0 \<or> t = 0")
    case True
    then show ?thesis using tx ty by (auto simp: match_step_def split: if_splits)
  next
    case False
    then obtain tya va da tyb vb db where s: "h s = Some (Statement tya va da)" "tree_type x = Some tya"
      and t: "h t = Some (Statement tyb vb db)" "tree_type y = Some tyb"
      using tx ty by auto
    show ?thesis
    proof (cases "tya = tyb")
      case ne: False
      then have "x \<noteq> y" using s(2) t(2) by auto
      then show ?thesis using s(1) t(1) False ne by (simp add: match_step_def)
    next
      case eq: True
      have nz: "s \<noteq> 0" "t \<noteq> 0" using False by simp_all
      show ?thesis
      proof (cases "match_case_of tya")
        case MATCH_STRUCT
        then show ?thesis
          using x y s(1) t(1) nz eq struct_compare [OF assms] by (auto simp: unfold_step_def match_step_def bindE_Inr_iff map_sum_id_Inr)
      next
        case MATCH_LIST
        have lc: "match_list compared h m tyb va vb k va vb = Inr (xs = ys)"
          if "unfold_list compared h u tyb va k va = Inr xs" "unfold_list compared h u tyb vb k vb = Inr ys" for xs ys
          by (rule list_compare [OF assms that])
        show ?thesis
          using x y s(1) t(1) nz eq MATCH_LIST lc
          by (auto simp: unfold_step_def match_step_def map_sum_id_Inr split: if_splits)
      next
        case MATCH_VALUE
        then show ?thesis
          using x y s(1) t(1) nz eq value_compare [OF assms] by (auto simp: unfold_step_def match_step_def bindE_Inr_iff)
      qed (use x y s(1) t(1) nz eq in \<open>auto simp: unfold_step_def match_step_def\<close>)
    qed
  qed
qed

lemma statement_compare: "compares (unfold_statement compared h k) (match_sql_statement compared h k)"
proof (induction k)
  case 0
  then show ?case by (simp add: compares_def)
next
  case (Suc k)
  then show ?case by (simp add: step_compare)
qed


definition example_literals :: heap where
  "example_literals = [1 \<mapsto> Statement binary_STATEMENT 2 0,
     2 \<mapsto> Struct (example_struct\<lparr>member_of := (\<lambda>_. 0)(M_operand0 := 3, M_operand1 := 5)\<rparr>),
     3 \<mapsto> Statement value_STATEMENT 4 0, 4 \<mapsto> Struct (example_struct\<lparr>member_of := (\<lambda>_. 0)(M_string_literal := 7), parameter_index := 1\<rparr>),
     5 \<mapsto> Statement value_STATEMENT 6 0, 6 \<mapsto> Struct (example_struct\<lparr>member_of := (\<lambda>_. 0)(M_string_literal := 8), parameter_index := 2\<rparr>),
     7 \<mapsto> Text (lit ''ab''), 8 \<mapsto> Text (lit ''ab'')]"

lemma example_literals_unfold:
  "unfold_statement (\<lambda>_ n. n) example_literals 2 3 = Inr (N_Text STRING_LITERAL (lit ''ab''))"
  "unfold_statement (\<lambda>_ n. n) example_literals 2 5 = Inr (N_Text STRING_LITERAL (lit ''ab''))"
  by code_simp+


section \<open>The select list\<close>

text \<open>The trees of the column lists along a circular list of column aliases.\<close>

fun alias_trees :: "compared_data \<Rightarrow> heap \<Rightarrow> nat \<Rightarrow> int \<Rightarrow> nat \<Rightarrow> int \<Rightarrow> compress_error + tree list" where
  "alias_trees compared h fuel start 0 cur = Inl OUT_OF_FUEL"
| "alias_trees compared h fuel start (Suc k) cur =
     bindE (get_struct h cur) (\<lambda>a.
     bindE (unfold_statement compared h fuel (member_of a M_column_list)) (\<lambda>x.
     if obj_next a = start then Inr [x]
     else bindE (alias_trees compared h fuel start k (obj_next a)) (\<lambda>xs. Inr (x # xs))))"

lemma select_list_found:
  assumes "unfold_statement compared h fuel (member_of match_cla M_column_list) = Inr y" "alias_trees compared h fuel start k cur = Inr xs"
  shows "select_list_loop compared h fuel match_cla start k cur = Inr (y \<in> set xs)"
  using assms(2)
proof (induction k arbitrary: cur xs)
  case (Suc k)
  then obtain a x where a: "get_struct h cur = Inr a" "unfold_statement compared h fuel (member_of a M_column_list) = Inr x"
      "if obj_next a = start then xs = [x] else \<exists>xs'. alias_trees compared h fuel start k (obj_next a) = Inr xs' \<and> xs = x # xs'"
    by (auto simp: bindE_Inr_iff split: if_splits)
  have "match_sql_statement compared h fuel (member_of match_cla M_column_list) (member_of a M_column_list) = Inr (y = x)"
    by (rule comparesD [OF statement_compare assms(1) a(2)])
  then show ?case using a Suc.IH by (auto split: if_splits)
qed simp

section \<open>GROUP BY\<close>

text \<open>The first element of a GROUP BY list that can be matched and whose tree is the one looked for, counted from 1.\<close>

fun group_by_trees :: "compared_data \<Rightarrow> heap \<Rightarrow> nat \<Rightarrow> int \<Rightarrow> nat \<Rightarrow> int \<Rightarrow> compress_error + tree option list" where
  "group_by_trees compared h fuel start 0 cur = Inl OUT_OF_FUEL"
| "group_by_trees compared h fuel start (Suc k) cur =
     bindE (get_struct h cur) (\<lambda>cla.
     bindE (column_list_value h (member_of cla M_column_list)) (\<lambda>val.
     bindE (get_group_by_fields h val) (\<lambda>ok.
     bindE (if ok then map_sum id Some (unfold_statement compared h fuel val) else Inr None) (\<lambda>x.
     if obj_next cla = start then Inr [x]
     else bindE (group_by_trees compared h fuel start k (obj_next cla)) (\<lambda>xs. Inr (x # xs))))))"

definition position :: "tree \<Rightarrow> tree option list \<Rightarrow> nat \<Rightarrow> int" where
  "position y xs n = (if Some y \<in> set xs then int (n + length (takeWhile (\<lambda>x. x \<noteq> Some y) xs)) else - 1)"

lemma position_Cons: "position y (x # xs) n = (if x = Some y then int n else position y xs (n + 1))"
  by (auto simp: position_def)

lemma group_by_found:
  assumes "unfold_statement compared h fuel stmt = Inr y" "group_by_trees compared h fuel start k cur = Inr xs"
  shows "group_by_loop compared h fuel stmt start k cur n = Inr (position y xs n)"
  using assms(2)
proof (induction k arbitrary: cur xs n)
  case (Suc k)
  then obtain cla val ok x where a: "get_struct h cur = Inr cla" "column_list_value h (member_of cla M_column_list) = Inr val"
      "get_group_by_fields h val = Inr ok" "(if ok then map_sum id Some (unfold_statement compared h fuel val) else Inr None) = Inr x"
      "if obj_next cla = start then xs = [x] else \<exists>xs'. group_by_trees compared h fuel start k (obj_next cla) = Inr xs' \<and> xs = x # xs'"
    by (auto simp: bindE_Inr_iff split: if_splits)
  show ?case
  proof (cases ok)
    case True
    then obtain z where z: "unfold_statement compared h fuel val = Inr z" "x = Some z" using a(4) by (auto simp: map_sum_id_Inr)
    have "match_sql_statement compared h fuel stmt val = Inr (y = z)" by (rule comparesD [OF statement_compare assms(1) z(1)])
    then show ?thesis using a True z Suc.IH by (auto simp: position_Cons position_def split: if_splits)
  next
    case False
    then show ?thesis using a Suc.IH by (auto simp: position_Cons position_def split: if_splits)
  qed
qed simp

text \<open>C15: \<open>get_group_by_column_number\<close> returns the number, from 1 on, of the first expression of GROUP BY that has the same tree as the expression looked for, and -1 when there is none; columns and
  literals in the list are passed over.\<close>

theorem group_by_column_number_exact:
  assumes "h stmt = Some (Statement ty sv sd)" "ty \<noteq> column_alias_STATEMENT"
    and "h (member_of table_alias M_table) = Some (Statement select_STATEMENT v d)" "h v = Some (Struct select)"
    and "member_of select M_group_by_expression \<noteq> 0"
    and "h (member_of select M_group_by_expression) = Some (Statement column_list_alias_STATEMENT start gd)"
    and "unfold_statement compared h fuel stmt = Inr y" "group_by_trees compared h fuel start fuel start = Inr xs"
  shows "get_group_by_column_number compared h fuel table_alias stmt = Inr (position y xs 1)"
  using assms(1-6) group_by_found [OF assms(7,8), of 1] by (simp add: get_group_by_column_number_def get_struct_def)

definition example_group :: heap where
  "example_group = example_literals(11 \<mapsto> Statement select_STATEMENT 12 0, 12 \<mapsto> Struct (example_struct\<lparr>member_of := (\<lambda>_. 0)(M_group_by_expression := 13)\<rparr>),
      13 \<mapsto> Statement column_list_alias_STATEMENT 14 0,
      14 \<mapsto> Struct (example_struct\<lparr>member_of := (\<lambda>_. 0)(M_column_list := 16), obj_next := 15\<rparr>),
      15 \<mapsto> Struct (example_struct\<lparr>member_of := (\<lambda>_. 0)(M_column_list := 18), obj_next := 14\<rparr>),
      16 \<mapsto> Statement column_list_STATEMENT 17 0, 17 \<mapsto> Struct (example_struct\<lparr>member_of := (\<lambda>_. 0)(M_value := 5), obj_next := 17\<rparr>),
      18 \<mapsto> Statement column_list_STATEMENT 19 0, 19 \<mapsto> Struct (example_struct\<lparr>member_of := (\<lambda>_. 0)(M_value := 1), obj_next := 19\<rparr>))"

lemma example_group_trees:
  "unfold_statement (\<lambda>_ n. n) example_group 3 1 =
     Inr (N_Struct binary_STATEMENT (0, NO_KEYWORD) [N_Text STRING_LITERAL (lit ''ab''), N_Text STRING_LITERAL (lit ''ab'')])"
  "group_by_trees (\<lambda>_ n. n) example_group 3 14 3 14 =
     Inr [None, Some (N_Struct binary_STATEMENT (0, NO_KEYWORD) [N_Text STRING_LITERAL (lit ''ab''), N_Text STRING_LITERAL (lit ''ab'')])]"
  by code_simp+

theorem group_by_column_number_exact_witness:
  "get_group_by_column_number (\<lambda>_ n. n) example_group 3 (example_struct\<lparr>member_of := (\<lambda>_. 0)(M_table := 11)\<rparr>) 1 = Inr 2"
proof -
  have "example_group 1 = Some (Statement binary_STATEMENT 2 0)" "example_group 11 = Some (Statement select_STATEMENT 12 0)"
    "example_group 12 = Some (Struct (example_struct\<lparr>member_of := (\<lambda>_. 0)(M_group_by_expression := 13)\<rparr>))"
    "example_group 13 = Some (Statement column_list_alias_STATEMENT 14 0)"
    by (simp_all add: example_group_def example_literals_def)
  then have "get_group_by_column_number (\<lambda>_ n. n) example_group 3 (example_struct\<lparr>member_of := (\<lambda>_. 0)(M_table := 11)\<rparr>) 1 =
      Inr (position (N_Struct binary_STATEMENT (0, NO_KEYWORD) [N_Text STRING_LITERAL (lit ''ab''), N_Text STRING_LITERAL (lit ''ab'')])
        [None, Some (N_Struct binary_STATEMENT (0, NO_KEYWORD) [N_Text STRING_LITERAL (lit ''ab''), N_Text STRING_LITERAL (lit ''ab'')])] 1)"
    by (intro group_by_column_number_exact [of example_group 1 binary_STATEMENT 2 0 _ 12 0 "example_struct\<lparr>member_of := (\<lambda>_. 0)(M_group_by_expression := 13)\<rparr>" 14 0,
          OF _ _ _ _ _ _ example_group_trees]) simp_all
  then show ?thesis by (simp add: position_def)
qed

end
