(* ===== verification/Bind_Portal.thy ===== *)
theory Bind_Portal
  imports Bind_Laws Deserialize Message_Make Authentication
begin

text \<open>
  The handler of Bind messages, \<open>rocto/handle_bind.c\<close>. Prepared statements and portals (bound statements) live in local variables of
  YottaDB, \<open>session(id, "prepared", name, ...)\<close> and \<open>session(id, "bound", name, ...)\<close>. The calls of YottaDB are parameters: a record of
  functions over a type \<open>'db\<close> of databases. The name of a variable and its subscripts are a list.

  A call that fails ends the handler with the value 1. A write or read outside of memory and a failing assertion end it with an error
  value. \<open>BindComplete\<close> is part of the result.
\<close>

section \<open>The calls of the database\<close>

text \<open>\<open>ydb_get_s\<close> takes the length of the buffer; when it is too small the status is \<open>YDB_ERR_INVSTRLEN\<close> and the length needed is returned.\<close>

datatype get_result = YDB_OK bytes | YDB_ERR_INVSTRLEN nat | YDB_ERR_LVUNDEF | YDB_ERR_OTHER

text \<open>\<open>ydb_set_s\<close> and \<open>ydb_delete_s\<close> (of a tree) say whether the status is \<open>YDB_OK\<close>; \<open>ydb_data_s\<close> has no result otherwise.\<close>

record 'db ydb_calls =
  ydb_get_s :: "'db \<Rightarrow> bytes list \<Rightarrow> nat \<Rightarrow> get_result"
  ydb_set_s :: "'db \<Rightarrow> bytes list \<Rightarrow> bytes \<Rightarrow> bool \<times> 'db"
  ydb_data_s :: "'db \<Rightarrow> bytes list \<Rightarrow> nat option"
  ydb_delete_s :: "'db \<Rightarrow> bytes list \<Rightarrow> bool \<times> 'db"

text \<open>The longest identifier and the longest string, from \<open>libyottadb.h\<close>.\<close>

definition MAX_ROUTINE_LEN :: nat where "MAX_ROUTINE_LEN = 31"

definition YDB_MAX_STR :: nat where "YDB_MAX_STR = 1024 * 1024"

definition INT16_TO_STRING_MAX :: nat where "INT16_TO_STRING_MAX = 7"

definition OCTO_INIT_BUFFER_LEN :: nat where "OCTO_INIT_BUFFER_LEN = 1024"

datatype bind_error = NUL_OVERRUN | FORMAT_CODE_OVERRUN | VALUE_OVERRUN | BIND_ASSERTION

text \<open>A step of the handler goes on with a value, or the handler returns, with the message that it has sent.\<close>

datatype ('db, 'a) outcome = Crash bind_error | Return int "bytes res option" 'db | Continue 'a 'db

fun and_then :: "('db, 'a) outcome \<Rightarrow> ('a \<Rightarrow> 'db \<Rightarrow> ('db, 'b) outcome) \<Rightarrow> ('db, 'b) outcome" where
  "and_then (Crash e) f = Crash e"
| "and_then (Return r m db) f = Return r m db"
| "and_then (Continue x db) f = f x db"

text \<open>
  What the handler does around the calls. \<open>cleanup\<close> is what happens to the database before it returns 1. A value that is read into an
  array of \<open>n\<close> bytes is terminated with a NUL there.
\<close>

definition drop_portal :: "'db ydb_calls \<Rightarrow> bytes list \<Rightarrow> 'db \<Rightarrow> 'db" where
  "drop_portal y portal db = snd (ydb_delete_s y db portal)"

definition get_terminated :: "'db ydb_calls \<Rightarrow> nat \<Rightarrow> nat \<Rightarrow> bytes list \<Rightarrow> ('db \<Rightarrow> 'db) \<Rightarrow> 'db \<Rightarrow> ('db, bytes) outcome" where
  "get_terminated y alloc n subs cleanup db =
     (case ydb_get_s y db subs alloc of
        YDB_OK v \<Rightarrow> if length v < n then Continue v db else Crash NUL_OVERRUN
      | _ \<Rightarrow> Return 1 None (cleanup db))"

text \<open>With \<open>EXPAND_YDB_BUFFER_T_ALLOCATION\<close> the buffer is replaced by one of the length needed.\<close>

definition get_expanding :: "'db ydb_calls \<Rightarrow> nat \<Rightarrow> bytes list \<Rightarrow> ('db \<Rightarrow> 'db) \<Rightarrow> 'db \<Rightarrow> ('db, ydb_buffer) outcome" where
  "get_expanding y alloc subs cleanup db =
     (case ydb_get_s y db subs alloc of
        YDB_OK v \<Rightarrow> Continue \<lparr>buf_addr = v, len_alloc = alloc\<rparr> db
      | YDB_ERR_INVSTRLEN needed \<Rightarrow>
          (case ydb_get_s y db subs needed of
             YDB_OK v \<Rightarrow> Continue \<lparr>buf_addr = v, len_alloc = needed\<rparr> db
           | YDB_ERR_INVSTRLEN _ \<Rightarrow> Crash BIND_ASSERTION
           | _ \<Rightarrow> Return 1 None (cleanup db))
      | _ \<Rightarrow> Return 1 None (cleanup db))"

definition set_or_return :: "'db ydb_calls \<Rightarrow> bytes list \<Rightarrow> bytes \<Rightarrow> ('db \<Rightarrow> 'db) \<Rightarrow> 'db \<Rightarrow> ('db, unit) outcome" where
  "set_or_return y subs v cleanup db =
     (case ydb_set_s y db subs v of (ok, db) \<Rightarrow> if ok then Continue () db else Return 1 None (cleanup db))"

text \<open>The result of \<open>strtol\<close> is used when it lies between 0 and \<open>hi\<close>, where it cannot be one of the values that go with \<open>ERANGE\<close>.\<close>

definition number_or_return :: "int \<Rightarrow> bytes \<Rightarrow> ('db \<Rightarrow> 'db) \<Rightarrow> 'db \<Rightarrow> ('db, nat) outcome" where
  "number_or_return hi v cleanup db =
     (let n = strtol v in if 0 \<le> n \<and> n \<le> hi then Continue (nat n) db else Return 1 None (cleanup db))"

section \<open>The subscripts\<close>

definition OCTOLIT_PREPARED :: bytes where "OCTOLIT_PREPARED = lit ''prepared''"
definition OCTOLIT_BOUND :: bytes where "OCTOLIT_BOUND = lit ''bound''"
definition OCTOLIT_ROUTINE :: bytes where "OCTOLIT_ROUTINE = lit ''routine''"
definition OCTOLIT_TAG :: bytes where "OCTOLIT_TAG = lit ''tag''"
definition OCTOLIT_VARIABLE :: bytes where "OCTOLIT_VARIABLE = lit ''variable''"
definition OCTOLIT_VALUE :: bytes where "OCTOLIT_VALUE = lit ''value''"
definition OCTOLIT_PARAMETERS :: bytes where "OCTOLIT_PARAMETERS = lit ''parameters''"
definition OCTOLIT_ALL :: bytes where "OCTOLIT_ALL = lit ''all''"
definition OCTOLIT_NONE :: bytes where "OCTOLIT_NONE = lit ''none''"
definition lit_start :: bytes where "lit_start = lit ''start''"
definition lit_end :: bytes where "lit_end = lit ''end''"
definition lit_type :: bytes where "lit_type = lit ''type''"
definition col_formats :: bytes where "col_formats = lit ''col_formats''"

lemmas octolit_defs = OCTOLIT_PREPARED_def OCTOLIT_BOUND_def OCTOLIT_ROUTINE_def OCTOLIT_TAG_def OCTOLIT_VARIABLE_def OCTOLIT_VALUE_def
  OCTOLIT_PARAMETERS_def OCTOLIT_ALL_def OCTOLIT_NONE_def lit_start_def lit_end_def lit_type_def col_formats_def

definition statement_subs :: "bytes \<Rightarrow> bytes \<Rightarrow> bytes \<Rightarrow> bytes list" where
  "statement_subs session session_id source = [session, session_id, OCTOLIT_PREPARED, source]"

definition portal_subs :: "bytes \<Rightarrow> bytes \<Rightarrow> bytes \<Rightarrow> bytes list" where
  "portal_subs session session_id dest = [session, session_id, OCTOLIT_BOUND, dest]"

section \<open>The parts of the handler\<close>

text \<open>A portal of the same name is deleted.\<close>

definition reset_portal :: "'db ydb_calls \<Rightarrow> bytes list \<Rightarrow> 'db \<Rightarrow> ('db, unit) outcome" where
  "reset_portal y portal db =
     (case ydb_data_s y db portal of
        None \<Rightarrow> Return 1 None db
      | Some data_ret \<Rightarrow>
          if 0 < data_ret
          then (case ydb_delete_s y db portal of (ok, db) \<Rightarrow> if ok then Continue () db else Return 1 None db)
          else Continue () db)"

definition copy_routine :: "'db ydb_calls \<Rightarrow> bytes list \<Rightarrow> bytes list \<Rightarrow> 'db \<Rightarrow> ('db, bytes) outcome" where
  "copy_routine y stmt portal db =
     and_then (get_terminated y (MAX_ROUTINE_LEN + 1) (MAX_ROUTINE_LEN + 1) (stmt @ [OCTOLIT_ROUTINE]) id db) (\<lambda>routine db.
     and_then (set_or_return y (portal @ [OCTOLIT_ROUTINE]) routine id db) (\<lambda>_ db.
     Continue routine db))"

text \<open>The tag is the number of a \<open>SqlStatementType\<close>, of which \<open>invalid_STATEMENT\<close> is the last.\<close>

abbreviation set_STATEMENT_number :: nat where "set_STATEMENT_number \<equiv> 29"
abbreviation show_STATEMENT_number :: nat where "show_STATEMENT_number \<equiv> 30"
abbreviation invalid_STATEMENT_number :: nat where "invalid_STATEMENT_number \<equiv> 49"

definition copy_tag :: "'db ydb_calls \<Rightarrow> bytes list \<Rightarrow> bytes list \<Rightarrow> 'db \<Rightarrow> ('db, nat) outcome" where
  "copy_tag y stmt portal db =
     and_then (get_terminated y (MAX_TAG_LEN - 1) MAX_TAG_LEN (stmt @ [OCTOLIT_TAG]) id db) (\<lambda>tag db.
     and_then (set_or_return y (portal @ [OCTOLIT_TAG]) tag (drop_portal y portal) db) (\<lambda>_ db.
     number_or_return (int invalid_STATEMENT_number) tag (drop_portal y portal) db))"

text \<open>The variable of a SHOW, the variable and the value of a SET.\<close>

fun copy_lvns :: "'db ydb_calls \<Rightarrow> bytes list \<Rightarrow> bytes list \<Rightarrow> nat \<Rightarrow> bytes list \<Rightarrow> 'db \<Rightarrow> ('db, unit) outcome" where
  "copy_lvns y stmt portal alloc [] db = Continue () db"
| "copy_lvns y stmt portal alloc (litsub # litsubs) db =
     and_then (get_expanding y alloc (stmt @ [litsub]) (drop_portal y portal) db) (\<lambda>buf db.
     and_then (set_or_return y (portal @ [litsub]) (buf_addr buf) (drop_portal y portal) db) (\<lambda>_ db.
     copy_lvns y stmt portal (len_alloc buf) litsubs db))"

definition copy_setting :: "'db ydb_calls \<Rightarrow> bytes list \<Rightarrow> bytes list \<Rightarrow> nat \<Rightarrow> 'db \<Rightarrow> ('db, unit) outcome" where
  "copy_setting y stmt portal tag db =
     copy_lvns y stmt portal OCTO_INIT_BUFFER_LEN
       (if tag = set_STATEMENT_number then [OCTOLIT_VARIABLE, OCTOLIT_VALUE]
        else if tag = show_STATEMENT_number then [OCTOLIT_VARIABLE] else []) db"

text \<open>The number of bind parameters, which has to be that of the message, and the number of all parameters.\<close>

definition copy_count :: "'db ydb_calls \<Rightarrow> bytes list \<Rightarrow> bytes list \<Rightarrow> bytes list \<Rightarrow> 'db \<Rightarrow> ('db, bytes \<times> nat) outcome" where
  "copy_count y stmt portal subs db =
     and_then (get_terminated y INT16_TO_STRING_MAX INT16_TO_STRING_MAX (stmt @ subs) (drop_portal y portal) db) (\<lambda>v db.
     and_then (set_or_return y (portal @ subs) v (drop_portal y portal) db) (\<lambda>_ db.
     and_then (number_or_return 32767 v (drop_portal y portal) db) (\<lambda>n db.
     Continue (v, n) db)))"

definition copy_counts :: "'db ydb_calls \<Rightarrow> bytes list \<Rightarrow> bytes list \<Rightarrow> Bind \<Rightarrow> 'db \<Rightarrow> ('db, bytes \<times> nat \<times> nat) outcome" where
  "copy_counts y stmt portal b db =
     and_then (copy_count y stmt portal [OCTOLIT_PARAMETERS] db) (\<lambda>(_, num_bind_parms) db.
     if int num_bind_parms \<noteq> sint (bind_num_parms b) then Return 1 None (drop_portal y portal db)
     else
       and_then (copy_count y stmt portal [OCTOLIT_PARAMETERS, OCTOLIT_ALL] db) (\<lambda>(v, num_parms) db.
       Continue (v, num_bind_parms, num_parms) db))"

text \<open>The formats of the columns of the result, from 1 on; no code is the code of the text format for the first column.\<close>

fun store_formats :: "'db ydb_calls \<Rightarrow> bytes list \<Rightarrow> nat \<Rightarrow> 16 word list \<Rightarrow> 'db \<Rightarrow> ('db, unit) outcome" where
  "store_formats y portal cur_format_code [] db = Continue () db"
| "store_formats y portal cur_format_code (code # codes) db =
     and_then (set_or_return y (portal @ [col_formats, fmt_d (int cur_format_code)]) (fmt_d (sint code)) id db) (\<lambda>_ db.
     store_formats y portal (cur_format_code + 1) codes db)"

definition store_col_formats :: "'db ydb_calls \<Rightarrow> bytes list \<Rightarrow> Bind \<Rightarrow> 'db \<Rightarrow> ('db, unit) outcome" where
  "store_col_formats y portal b db =
     (let n = sint (bind_num_result_col_format_codes b); codes = bind_result_col_format_codes b in
      and_then (set_or_return y (portal @ [col_formats]) (fmt_d n) id db) (\<lambda>_ db.
      if n = 0 then store_formats y portal 1 [0] db
      else if length codes < nat n \<or> codes = [] then Crash FORMAT_CODE_OVERRUN
      else if n \<le> 1 then store_formats y portal 1 [hd codes] db
      else store_formats y portal 1 (take (nat n) codes) db))"

section \<open>The values of the parameters\<close>

text \<open>
  \<open>parm_format_codes\<close> points into the message, to the bytes behind the number of codes, which \<open>read_bind\<close> has converted to the order of the
  host. The index of the handler can be larger than the number of codes.
\<close>

definition parm_format_code :: "Bind \<Rightarrow> nat \<Rightarrow> bind_error + nat" where
  "parm_format_code b i =
     (let parm_format_codes = bind_source b + int (length (bind_source_str b)) + 3 in
      case rd_n (bind_block b) (parm_format_codes + 2 * int i) 2 of
        None \<Rightarrow> Inl FORMAT_CODE_OVERRUN
      | Some bs \<Rightarrow> Inr (be_nat (rev bs)))"

text \<open>\<open>COPY_STRING_AND_EXPAND_BUFFER_IF_NEEDED\<close>: the value goes up to the next NUL of the message.\<close>

definition copy_text_parameter :: "Bind \<Rightarrow> BindParm \<Rightarrow> ydb_buffer \<Rightarrow> bind_error + ydb_buffer" where
  "copy_text_parameter b p buf =
     (if parm_value p < 0 \<or> 0 \<notin> set (drop (nat (parm_value p)) (bind_block b)) then Inl VALUE_OVERRUN
      else
        let str = str_at (bind_block b) (parm_value p) in
        Inr \<lparr>buf_addr = str, len_alloc = (if len_alloc buf \<le> length str then length str else len_alloc buf)\<rparr>)"

definition copy_parameter :: "Bind \<Rightarrow> nat \<Rightarrow> nat \<Rightarrow> ydb_buffer \<Rightarrow> bind_error + ydb_buffer" where
  "copy_parameter b cur_parm cur_bind_parm buf =
     bindE (if 1 < sint (bind_num_parm_format_codes b) then parm_format_code b cur_parm
            else if sint (bind_num_parm_format_codes b) = 1 then parm_format_code b 0 else Inr 0) (\<lambda>format.
     bindE (guardE (cur_bind_parm < length (bind_parms b)) VALUE_OVERRUN) (\<lambda>_.
     let p = bind_parms b ! cur_bind_parm in
     bindE (if format = 1 then
              (if sint (parm_length p) < 0 then Inl VALUE_OVERRUN
               else
                 case rd_n (bind_block b) (parm_value p) (nat (sint (parm_length p))) of
                   None \<Rightarrow> Inl VALUE_OVERRUN
                 | Some v \<Rightarrow> Inr (copy_binary_parameter v buf))
            else copy_text_parameter b p buf) (\<lambda>buf.
     bindE (guardE (length (buf_addr buf) \<le> YDB_MAX_STR) BIND_ASSERTION) (\<lambda>_.
     Inr buf))))"

definition from_bind :: "bind_error + 'a \<Rightarrow> 'db \<Rightarrow> ('db, 'a) outcome" where
  "from_bind r db = (case r of Inl e \<Rightarrow> Crash e | Inr x \<Rightarrow> Continue x db)"

text \<open>
  The position of a bind parameter in the query and its type are read and checked; the arrays they are stored in have an entry for each bind parameter and are not
  used otherwise. The end of the handler's \<open>else\<close> branch for bind parameters.
\<close>

definition bind_position :: "'db ydb_calls \<Rightarrow> bytes list \<Rightarrow> ('db \<Rightarrow> 'db) \<Rightarrow> bytes \<Rightarrow> 'db \<Rightarrow> ('db, unit) outcome" where
  "bind_position y stmt cleanup cur_bind_parm_buf db =
     (let n = INT16_TO_STRING_MAX; subs = stmt @ [OCTOLIT_PARAMETERS, cur_bind_parm_buf] in
      and_then (get_terminated y n n (subs @ [lit_start]) cleanup db) (\<lambda>v db.
      and_then (number_or_return (2 ^ 31 - 1) v cleanup db) (\<lambda>_ db.
      and_then (get_terminated y n n (subs @ [lit_end]) cleanup db) (\<lambda>v db.
      and_then (number_or_return (2 ^ 31 - 1) v cleanup db) (\<lambda>_ db.
      and_then (get_terminated y n n (subs @ [lit_type]) cleanup db) (\<lambda>v db.
      and_then (number_or_return 32767 v cleanup db) (\<lambda>_ db. Continue () db)))))))"

text \<open>A parameter with a value is a literal of the query, every other one is the next bind parameter.\<close>

definition parameter_value ::
    "'db ydb_calls \<Rightarrow> bytes list \<Rightarrow> ('db \<Rightarrow> 'db) \<Rightarrow> Bind \<Rightarrow> nat \<Rightarrow> nat \<Rightarrow> nat \<Rightarrow> ydb_buffer \<Rightarrow> 'db \<Rightarrow> ('db, ydb_buffer \<times> nat) outcome" where
  "parameter_value y stmt cleanup b num_bind_parms cur_parm cur_bind_parm buf db =
     (let subs = stmt @ [OCTOLIT_PARAMETERS, OCTOLIT_ALL, fmt_d (int cur_parm + 1)] in
      case ydb_data_s y db subs of
        None \<Rightarrow> Return 1 None (cleanup db)
      | Some data_ret \<Rightarrow>
          if data_ret = 1 then
            and_then (get_expanding y (len_alloc buf) subs cleanup db) (\<lambda>buf db. Continue (buf, cur_bind_parm) db)
          else if \<not> cur_bind_parm < num_bind_parms then Crash BIND_ASSERTION
          else
            and_then (bind_position y stmt cleanup (fmt_d (int cur_bind_parm + 1)) db) (\<lambda>_ db.
            and_then (from_bind (copy_parameter b cur_parm cur_bind_parm buf) db) (\<lambda>buf db.
            Continue (buf, cur_bind_parm + 1) db)))"

fun bind_loop ::
    "'db ydb_calls \<Rightarrow> bytes list \<Rightarrow> bytes list \<Rightarrow> Bind \<Rightarrow> nat \<Rightarrow> nat \<Rightarrow> nat \<Rightarrow> nat \<Rightarrow> ydb_buffer \<Rightarrow> 'db \<Rightarrow> ('db, nat) outcome" where
  "bind_loop y stmt portal b num_bind_parms 0 cur_parm cur_bind_parm buf db = Continue cur_bind_parm db"
| "bind_loop y stmt portal b num_bind_parms (Suc k) cur_parm cur_bind_parm buf db =
     and_then (parameter_value y stmt (drop_portal y portal) b num_bind_parms cur_parm cur_bind_parm buf db) (\<lambda>(buf, cur_bind_parm) db.
     and_then (set_or_return y (portal @ [OCTOLIT_PARAMETERS, OCTOLIT_ALL, fmt_d (int cur_parm + 1)]) (buf_addr buf) (drop_portal y portal) db) (\<lambda>_ db.
     bind_loop y stmt portal b num_bind_parms k (cur_parm + 1) cur_bind_parm (buf\<lparr>buf_addr := []\<rparr>) db))"

section \<open>handle_bind\<close>

text \<open>A query without parameters, or a statement without a physical plan.\<close>

definition bind_without_parameters ::
    "'db ydb_calls \<Rightarrow> bytes list \<Rightarrow> bytes \<Rightarrow> bytes \<Rightarrow> 'db \<Rightarrow> ('db, unit) outcome" where
  "bind_without_parameters y portal sql_expression num_parms_buf db =
     and_then (set_or_return y portal sql_expression (drop_portal y portal) db) (\<lambda>_ db.
     and_then (set_or_return y (portal @ [OCTOLIT_PARAMETERS, OCTOLIT_ALL]) num_parms_buf (drop_portal y portal) db) (\<lambda>_ db.
     Return 0 (Some make_bind_complete) db))"

definition bind_with_parameters ::
    "'db ydb_calls \<Rightarrow> bytes list \<Rightarrow> bytes list \<Rightarrow> Bind \<Rightarrow> nat \<Rightarrow> nat \<Rightarrow> 'db \<Rightarrow> ('db, unit) outcome" where
  "bind_with_parameters y stmt portal b num_bind_parms num_parms db =
     (if \<not> num_bind_parms \<le> num_parms then Crash BIND_ASSERTION
      else
        and_then (bind_loop y stmt portal b num_bind_parms num_parms 0 0 \<lparr>buf_addr = [], len_alloc = OCTO_INIT_BUFFER_LEN\<rparr> db) (\<lambda>cur_bind_parm db.
        if cur_bind_parm \<noteq> num_bind_parms then Crash BIND_ASSERTION
        else Return 0 (Some make_bind_complete) db))"

definition handle_bind :: "'db ydb_calls \<Rightarrow> bytes \<Rightarrow> bytes \<Rightarrow> Bind \<Rightarrow> 'db \<Rightarrow> ('db, unit) outcome" where
  "handle_bind y session session_id b db =
     (let stmt = statement_subs session session_id (bind_source_str b); portal = portal_subs session session_id (bind_dest_str b) in
      and_then (reset_portal y portal db) (\<lambda>_ db.
      and_then (copy_routine y stmt portal db) (\<lambda>routine db.
      and_then (copy_tag y stmt portal db) (\<lambda>tag db.
      and_then (copy_setting y stmt portal tag db) (\<lambda>_ db.
      and_then (copy_counts y stmt portal b db) (\<lambda>(num_parms_buf, num_bind_parms, num_parms) db.
      and_then (get_expanding y OCTO_INIT_BUFFER_LEN stmt (drop_portal y portal) db) (\<lambda>sql_expression db.
      and_then (store_col_formats y portal b db) (\<lambda>_ db.
      if num_parms = 0 \<or> strncmp_eq MAX_ROUTINE_LEN routine OCTOLIT_NONE
      then bind_without_parameters y portal (buf_addr sql_expression) num_parms_buf db
      else bind_with_parameters y stmt portal b num_bind_parms num_parms db))))))))"

end
