(* ===== verification/Bind_Portal_Laws.thy ===== *)
theory Bind_Portal_Laws
  imports Bind_Portal
begin

text \<open>
  What a Bind message leaves in the database. The locale \<open>local_variables\<close> states what the handler relies on of the calls of YottaDB; the
  steps of the handler are proved to be steps on maps there. It is interpreted for a database that is a list of variables and their values.
\<close>

section \<open>The contract of the database\<close>

locale local_variables =
  fixes y :: "'db ydb_calls" and lookup :: "'db \<Rightarrow> bytes list \<Rightarrow> bytes option"
  assumes get_value: "lookup db s = Some v \<Longrightarrow> ydb_get_s y db s n = (if length v \<le> n then YDB_OK v else YDB_ERR_INVSTRLEN (length v))"
    and set_value: "length v \<le> YDB_MAX_STR \<Longrightarrow> \<exists>db'. ydb_set_s y db s v = (True, db') \<and> lookup db' = (lookup db)(s \<mapsto> v)"
    and delete_tree: "\<exists>db'. ydb_delete_s y db s = (True, db') \<and> lookup db' = (\<lambda>t. if take (length s) t = s then None else lookup db t)"
    and data_value: "\<exists>n. ydb_data_s y db s = Some n \<and> (n = 1 \<longleftrightarrow> lookup db s \<noteq> None \<and> (\<forall>t. t \<noteq> [] \<longrightarrow> lookup db (s @ t) = None))
      \<and> (n = 0 \<longleftrightarrow> (\<forall>t. lookup db (s @ t) = None))"

text \<open>What is left without a portal, and what is there with entries of a portal.\<close>

definition without_tree :: "bytes list \<Rightarrow> (bytes list \<Rightarrow> bytes option) \<Rightarrow> bytes list \<Rightarrow> bytes option" where
  "without_tree portal L = (\<lambda>t. if take (length portal) t = portal then None else L t)"

fun stored :: "bytes list \<Rightarrow> (bytes list \<times> bytes) list \<Rightarrow> (bytes list \<Rightarrow> bytes option) \<Rightarrow> bytes list \<Rightarrow> bytes option" where
  "stored portal [] L = L"
| "stored portal ((s, v) # es) L = stored portal es (L(portal @ s \<mapsto> v))"

lemma stored_append: "stored portal (es @ es') L = stored portal es' (stored portal es L)"
  by (induction es arbitrary: L) auto

lemma stored_elsewhere: "(\<And>s. t \<noteq> portal @ s) \<Longrightarrow> stored portal es L t = L t"
  by (induction es arbitrary: L) auto

lemma stored_in: "(s, v) \<in> set es \<Longrightarrow> distinct (map fst es) \<Longrightarrow> stored portal es L (portal @ s) = Some v"
proof (induction es arbitrary: L)
  case (Cons e es)
  have "stored portal es M (portal @ s) = M (portal @ s)" if "s \<notin> set (map fst es)" for M
    using that by (induction es arbitrary: M) auto
  then show ?case using Cons by (cases e) force
qed simp

text \<open>Parameters from number \<open>i\<close> on, and the values they get: a bind parameter takes the next value of the message.\<close>

fun bound_values :: "bytes option list \<Rightarrow> bytes list \<Rightarrow> bytes list" where
  "bound_values [] vs = []"
| "bound_values (Some w # ps) vs = w # bound_values ps vs"
| "bound_values (None # ps) vs = hd vs # bound_values ps (tl vs)"

fun numbered :: "bytes list \<Rightarrow> nat \<Rightarrow> bytes list \<Rightarrow> (bytes list \<times> bytes) list" where
  "numbered s i [] = []"
| "numbered s i (v # vs) = (s @ [fmt_d (int i)], v) # numbered s (i + 1) vs"

text \<open>Position and type of a bind parameter. The text of a position has at most six digits.\<close>

definition position_ok :: "(bytes list \<Rightarrow> bytes option) \<Rightarrow> bytes list \<Rightarrow> nat \<Rightarrow> bool" where
  "position_ok L stmt j \<longleftrightarrow>
     (\<exists>a e t. a < 10 ^ 6 \<and> e < 10 ^ 6 \<and> t < 2 ^ 15
       \<and> L (stmt @ [OCTOLIT_PARAMETERS, fmt_d (int j + 1), lit_start]) = Some (fmt_d (int a))
       \<and> L (stmt @ [OCTOLIT_PARAMETERS, fmt_d (int j + 1), lit_end]) = Some (fmt_d (int e))
       \<and> L (stmt @ [OCTOLIT_PARAMETERS, fmt_d (int j + 1), lit_type]) = Some (fmt_d (int t)))"

abbreviation parm_subs :: "bytes list \<Rightarrow> nat \<Rightarrow> bytes list" where
  "parm_subs stmt i \<equiv> stmt @ [OCTOLIT_PARAMETERS, OCTOLIT_ALL, fmt_d (int i + 1)]"

definition parameter_ok :: "(bytes list \<Rightarrow> bytes option) \<Rightarrow> bytes list \<Rightarrow> nat \<Rightarrow> bytes option \<Rightarrow> bool" where
  "parameter_ok L stmt i p \<longleftrightarrow>
     L (parm_subs stmt i) = p \<and> (\<forall>t. t \<noteq> [] \<longrightarrow> L (parm_subs stmt i @ t) = None) \<and> (\<forall>w. p = Some w \<longrightarrow> length w \<le> YDB_MAX_STR)"

definition value_copied :: "Bind \<Rightarrow> nat \<Rightarrow> nat \<Rightarrow> bytes \<Rightarrow> bool" where
  "value_copied b i j v \<longleftrightarrow>
     length v \<le> YDB_MAX_STR \<and> (\<forall>n. \<exists>m. copy_parameter b i j \<lparr>buf_addr = [], len_alloc = n\<rparr> = Inr \<lparr>buf_addr = v, len_alloc = m\<rparr>)"

fun parameters_ok :: "(bytes list \<Rightarrow> bytes option) \<Rightarrow> bytes list \<Rightarrow> Bind \<Rightarrow> nat \<Rightarrow> nat \<Rightarrow> bytes option list \<Rightarrow> bytes list \<Rightarrow> bool" where
  "parameters_ok L stmt b i j [] vs \<longleftrightarrow> vs = []"
| "parameters_ok L stmt b i j (Some w # ps) vs \<longleftrightarrow> parameter_ok L stmt i (Some w) \<and> parameters_ok L stmt b (i + 1) j ps vs"
| "parameters_ok L stmt b i j (None # ps) [] \<longleftrightarrow> False"
| "parameters_ok L stmt b i j (None # ps) (v # vs) \<longleftrightarrow>
     parameter_ok L stmt i None \<and> position_ok L stmt j \<and> value_copied b i j v \<and> parameters_ok L stmt b (i + 1) (j + 1) ps vs"

lemma parameters_ok_cong:
  "(\<And>t. L' (stmt @ t) = L (stmt @ t)) \<Longrightarrow> parameters_ok L' stmt b i j ps vs = parameters_ok L stmt b i j ps vs"
  by (induction L' stmt b i j ps vs rule: parameters_ok.induct) (auto simp: parameter_ok_def position_ok_def)

lemma fmt_d_six: "n < 10 ^ 6 \<Longrightarrow> length (fmt_d (int n)) < INT16_TO_STRING_MAX"
  using dec_digits_length [of n 6] by (simp add: fmt_d_def INT16_TO_STRING_MAX_def)

lemma strtol_small: "int n < 2 ^ 63 \<Longrightarrow> strtol (fmt_d (int n)) = int n"
  using strtol_fmt_d [of "int n" "[]"] by (simp add: LONG_MIN_def LONG_MAX_def)

lemma fmt_d_inj: "fmt_d (int m) = fmt_d (int n) \<Longrightarrow> int m < 2 ^ 63 \<Longrightarrow> int n < 2 ^ 63 \<Longrightarrow> m = n"
  by (metis strtol_small of_nat_eq_iff)

text \<open>A prepared statement without the values of its parameters: \<open>n\<close> parameters, \<open>nb\<close> of them bind parameters. It is not a SET or SHOW.\<close>

definition prepared :: "(bytes list \<Rightarrow> bytes option) \<Rightarrow> bytes list \<Rightarrow> bytes \<Rightarrow> nat \<Rightarrow> bytes \<Rightarrow> nat \<Rightarrow> nat \<Rightarrow> bool" where
  "prepared L stmt routine tag query n nb \<longleftrightarrow>
     L stmt = Some query \<and> L (stmt @ [OCTOLIT_ROUTINE]) = Some routine \<and> length routine \<le> MAX_ROUTINE_LEN
     \<and> L (stmt @ [OCTOLIT_TAG]) = Some (fmt_d (int tag)) \<and> tag \<le> invalid_STATEMENT_number \<and> tag \<notin> {set_STATEMENT_number, show_STATEMENT_number}
     \<and> L (stmt @ [OCTOLIT_PARAMETERS]) = Some (fmt_d (int nb)) \<and> L (stmt @ [OCTOLIT_PARAMETERS, OCTOLIT_ALL]) = Some (fmt_d (int n))
     \<and> nb \<le> n \<and> n < 2 ^ 15"

definition format_texts :: "16 word list \<Rightarrow> bytes list" where
  "format_texts res = map (\<lambda>c. fmt_d (sint c)) (if res = [] then [0] else res)"

definition portal_entries :: "bytes \<Rightarrow> nat \<Rightarrow> nat \<Rightarrow> 16 word list \<Rightarrow> bytes list \<Rightarrow> (bytes list \<times> bytes) list" where
  "portal_entries routine tag nb res vals =
     [([OCTOLIT_ROUTINE], routine), ([OCTOLIT_TAG], fmt_d (int tag)), ([OCTOLIT_PARAMETERS], fmt_d (int nb)),
      ([OCTOLIT_PARAMETERS, OCTOLIT_ALL], fmt_d (int (length vals))), ([col_formats], fmt_d (int (length res)))]
     @ numbered [col_formats] 1 (format_texts res) @ numbered [OCTOLIT_PARAMETERS, OCTOLIT_ALL] 1 vals"

lemma without_tree_elsewhere: "(\<And>s. t \<noteq> portal @ s) \<Longrightarrow> without_tree portal L t = L t"
  unfolding without_tree_def by (metis append_take_drop_id)

lemma without_nothing:
  assumes "\<forall>t. L (portal @ t) = None"
  shows "without_tree portal L = L"
proof
  fix t
  show "without_tree portal L t = L t"
    using assms append_take_drop_id [of "length portal" t] by (cases "take (length portal) t = portal") (auto simp: without_tree_def dest: spec [of _ "drop (length portal) t"])
qed

lemma fmt_d_short: "- (2 ^ 31) \<le> n \<Longrightarrow> n < 2 ^ 31 \<Longrightarrow> length (fmt_d n) \<le> YDB_MAX_STR"
  using fmt_d_length [of n] by (simp add: YDB_MAX_STR_def)

section \<open>The steps of the handler\<close>

context local_variables
begin

definition goes :: "('db, 'a) outcome \<Rightarrow> (bytes list \<Rightarrow> bytes option) \<Rightarrow> 'a \<Rightarrow> bool" where
  "goes m L x \<longleftrightarrow> (\<exists>db. m = Continue x db \<and> lookup db = L)"

lemma goesI [intro]: "lookup db = L \<Longrightarrow> goes (Continue x db) L x"
  by (auto simp: goes_def)

lemma and_then_goes: "goes m L x \<Longrightarrow> (\<And>db. lookup db = L \<Longrightarrow> goes (f x db) L' z) \<Longrightarrow> goes (and_then m f) L' z"
  by (auto simp: goes_def)

lemma get_terminated_goes:
  "lookup db s = Some v \<Longrightarrow> length v \<le> alloc \<Longrightarrow> length v < n \<Longrightarrow> goes (get_terminated y alloc n s c db) (lookup db) v"
  using get_value [of db s v alloc] by (auto simp: goes_def get_terminated_def)

lemma set_goes: "length v \<le> YDB_MAX_STR \<Longrightarrow> goes (set_or_return y s v c db) ((lookup db)(s \<mapsto> v)) ()"
  using set_value [of v db s] by (auto simp: goes_def set_or_return_def)

lemma get_expanding_goes:
  "lookup db s = Some v \<Longrightarrow> \<exists>m. goes (get_expanding y alloc s c db) (lookup db) \<lparr>buf_addr = v, len_alloc = m\<rparr>"
  using get_value [of db s v alloc] get_value [of db s v "length v"] by (auto simp: goes_def get_expanding_def)

lemma number_goes: "int n \<le> hi \<Longrightarrow> hi < 2 ^ 63 \<Longrightarrow> goes (number_or_return hi (fmt_d (int n)) c db) (lookup db) n"
  using strtol_small [of n] by (auto simp: goes_def number_or_return_def)

lemma position_goes:
  assumes "position_ok (lookup db) stmt j"
  shows "goes (bind_position y stmt c (fmt_d (int j + 1)) db) (lookup db) ()"
proof -
  let ?s = "stmt @ [OCTOLIT_PARAMETERS, fmt_d (int j + 1)]"
  obtain a e t where b: "a < 10 ^ 6" "e < 10 ^ 6" "t < 2 ^ 15" "lookup db (?s @ [lit_start]) = Some (fmt_d (int a))"
    "lookup db (?s @ [lit_end]) = Some (fmt_d (int e))" "lookup db (?s @ [lit_type]) = Some (fmt_d (int t))"
    using assms by (auto simp: position_ok_def)
  have n: "get_terminated y INT16_TO_STRING_MAX INT16_TO_STRING_MAX (?s @ [x]) c db' = Continue (fmt_d (int k)) db'"
    if "k < 10 ^ 6" "lookup db' (?s @ [x]) = Some (fmt_d (int k))" for x k db'
    using fmt_d_six [OF that(1)] get_value [OF that(2)] by (simp add: get_terminated_def)
  have m: "number_or_return hi (fmt_d (int k)) c db' = Continue k db'" if "int k \<le> hi" "hi < 2 ^ 63" for hi k db'
    using strtol_small [of k] that by (simp add: number_or_return_def)
  have t: "t < 10 ^ 6" using b(3) by simp
  have i: "int a \<le> 2 ^ 31 - 1" "int e \<le> 2 ^ 31 - 1" "int t \<le> 32767" "(2 ^ 31 - 1 :: int) < 2 ^ 63" "(32767 :: int) < 2 ^ 63"
    using b(1-3) by simp_all
  show ?thesis
    unfolding bind_position_def Let_def n [OF b(1,4)] and_then.simps m [OF i(1,4)] n [OF b(2,5)] m [OF i(2,4)] n [OF t b(6)] m [OF i(3,5)]
    by (rule goesI) (rule refl)
qed

text \<open>A position of seven digits fills the array, and its NUL is written behind it.\<close>

lemma position_overrun:
  "lookup db (stmt @ [OCTOLIT_PARAMETERS, fmt_d (int j + 1), lit_start]) = Some v \<Longrightarrow> length v = INT16_TO_STRING_MAX \<Longrightarrow>
     bind_position y stmt c (fmt_d (int j + 1)) db = Crash NUL_OVERRUN"
  using get_value by (simp add: bind_position_def get_terminated_def Let_def)

lemma parameter_value_literal:
  assumes "parameter_ok (lookup db) stmt i (Some w)"
  shows "\<exists>m. goes (parameter_value y stmt c b nb i j buf db) (lookup db) (\<lparr>buf_addr = w, len_alloc = m\<rparr>, j)"
proof -
  have l: "lookup db (parm_subs stmt i) = Some w" "\<forall>t. t \<noteq> [] \<longrightarrow> lookup db (parm_subs stmt i @ t) = None"
    using assms by (simp_all add: parameter_ok_def)
  have d: "ydb_data_s y db (parm_subs stmt i) = Some 1" using data_value [of db "parm_subs stmt i"] l by auto
  obtain m where "goes (get_expanding y (len_alloc buf) (parm_subs stmt i) c db) (lookup db) \<lparr>buf_addr = w, len_alloc = m\<rparr>"
    using get_expanding_goes [OF l(1)] by blast
  then show ?thesis using d by (auto simp: parameter_value_def goes_def Let_def)
qed

lemma parameter_value_bind:
  assumes "parameter_ok (lookup db) stmt i None" "position_ok (lookup db) stmt j" "value_copied b i j v" "j < nb" "buf_addr buf = []"
  shows "\<exists>m. goes (parameter_value y stmt c b nb i j buf db) (lookup db) (\<lparr>buf_addr = v, len_alloc = m\<rparr>, j + 1)"
proof -
  have l: "lookup db (parm_subs stmt i) = None" using assms(1) by (simp add: parameter_ok_def)
  obtain n where d: "ydb_data_s y db (parm_subs stmt i) = Some n" "n \<noteq> 1" using data_value [of db "parm_subs stmt i"] l by auto
  have "buf = \<lparr>buf_addr = [], len_alloc = len_alloc buf\<rparr>" using assms(5) by (cases buf) simp
  then obtain m where "copy_parameter b i j buf = Inr \<lparr>buf_addr = v, len_alloc = m\<rparr>" using assms(3) by (metis value_copied_def)
  then show ?thesis using d position_goes [OF assms(2), of c] assms(4) by (auto simp: parameter_value_def goes_def Let_def from_bind_def)
qed

lemma loop_step:
  assumes "goes (parameter_value y stmt (drop_portal y portal) b nb i j buf db) (lookup db) (\<lparr>buf_addr = w, len_alloc = m\<rparr>, j')"
    and "length w \<le> YDB_MAX_STR"
    and "\<And>db'. lookup db' = (lookup db)(parm_subs portal i \<mapsto> w) \<Longrightarrow> goes (bind_loop y stmt portal b nb k (i + 1) j' \<lparr>buf_addr = [], len_alloc = m\<rparr> db') L r"
  shows "goes (bind_loop y stmt portal b nb (Suc k) i j buf db) L r"
proof -
  obtain db1 where 1: "parameter_value y stmt (drop_portal y portal) b nb i j buf db = Continue (\<lparr>buf_addr = w, len_alloc = m\<rparr>, j') db1" "lookup db1 = lookup db"
    using assms(1) by (auto simp: goes_def)
  obtain db2 where 2: "set_or_return y (parm_subs portal i) w (drop_portal y portal) db1 = Continue () db2" "lookup db2 = (lookup db)(parm_subs portal i \<mapsto> w)"
    using set_goes [OF assms(2), of "parm_subs portal i" "drop_portal y portal" db1] 1(2) by (auto simp: goes_def)
  then show ?thesis using 1 assms(3) by simp
qed

lemma loop_goes:
  assumes "parameters_ok (lookup db) stmt b i j ps vs" "\<And>s t. portal @ s \<noteq> stmt @ t" "j + length vs = nb" "buf_addr buf = []"
  shows "goes (bind_loop y stmt portal b nb (length ps) i j buf db)
    (stored portal (numbered [OCTOLIT_PARAMETERS, OCTOLIT_ALL] (i + 1) (bound_values ps vs)) (lookup db)) nb"
  using assms
proof (induction ps arbitrary: db i j vs buf)
  case Nil
  then show ?case by auto
next
  case (Cons p ps)
  have rest: "goes (bind_loop y stmt portal b nb (length ps) (i + 1) j' \<lparr>buf_addr = [], len_alloc = m\<rparr> db')
      (stored portal (numbered [OCTOLIT_PARAMETERS, OCTOLIT_ALL] (i + 2) (bound_values ps vs')) ((lookup db)(parm_subs portal i \<mapsto> w))) nb"
    if ok: "parameters_ok (lookup db) stmt b (i + 1) j' ps vs'" and nb: "j' + length vs' = nb"
      and l: "lookup db' = (lookup db)(parm_subs portal i \<mapsto> w)" for j' vs' w m db'
  proof -
    have s: "stmt @ t \<noteq> parm_subs portal i" for t using Cons.prems(2) by metis
    have "parameters_ok (lookup db') stmt b (i + 1) j' ps vs'"
      using ok parameters_ok_cong [of "lookup db'" stmt "lookup db" b "i + 1" j' ps vs'] s by (simp add: l)
    from Cons.IH [OF this Cons.prems(2) nb, of "\<lparr>buf_addr = [], len_alloc = m\<rparr>"] show ?thesis unfolding l by (simp add: fun_upd_def)
  qed
  show ?case
  proof (cases p)
    case (Some w)
    then have ok: "parameter_ok (lookup db) stmt i (Some w)" "parameters_ok (lookup db) stmt b (i + 1) j ps vs" using Cons.prems(1) by simp_all
    obtain m where v: "goes (parameter_value y stmt (drop_portal y portal) b nb i j buf db) (lookup db) (\<lparr>buf_addr = w, len_alloc = m\<rparr>, j)"
      using parameter_value_literal [OF ok(1)] by blast
    have w: "length w \<le> YDB_MAX_STR" using ok(1) by (simp add: parameter_ok_def)
    show ?thesis using loop_step [OF v w rest [OF ok(2) Cons.prems(3)]] Some by (simp add: add.commute)
  next
    case None
    then obtain v us where vs: "vs = v # us" using Cons.prems(1) by (cases vs) auto
    then have ok: "parameter_ok (lookup db) stmt i None" "position_ok (lookup db) stmt j" "value_copied b i j v"
      "parameters_ok (lookup db) stmt b (i + 1) (j + 1) ps us" using Cons.prems(1) None by simp_all
    have j: "j < nb" "j + 1 + length us = nb" using Cons.prems(3) vs by simp_all
    obtain m where p: "goes (parameter_value y stmt (drop_portal y portal) b nb i j buf db) (lookup db) (\<lparr>buf_addr = v, len_alloc = m\<rparr>, j + 1)"
      using parameter_value_bind [OF ok(1-3) j(1) Cons.prems(4)] by blast
    have w: "length v \<le> YDB_MAX_STR" using ok(3) by (simp add: value_copied_def)
    show ?thesis using loop_step [OF p w rest [OF ok(4) j(2)]] None vs by (simp add: add.commute)
  qed
qed

lemma reset_goes: "goes (reset_portal y portal db) (without_tree portal (lookup db)) ()"
proof -
  obtain n where n: "ydb_data_s y db portal = Some n" "n = 0 \<longleftrightarrow> (\<forall>t. lookup db (portal @ t) = None)"
    using data_value [of db portal] by (elim exE conjE)
  obtain db' where d: "ydb_delete_s y db portal = (True, db')" "lookup db' = without_tree portal (lookup db)"
    using delete_tree [of db portal, folded without_tree_def] by (elim exE conjE)
  show ?thesis
  proof (cases "n = 0")
    case True
    then have "without_tree portal (lookup db) = lookup db" using n(2) by (intro without_nothing) simp
    then show ?thesis using True n(1) by (simp add: reset_portal_def goes_def)
  next
    case False
    then show ?thesis using n(1) d by (simp add: reset_portal_def goes_def)
  qed
qed

lemma routine_goes:
  assumes "lookup db (stmt @ [OCTOLIT_ROUTINE]) = Some r" "length r \<le> MAX_ROUTINE_LEN"
  shows "goes (copy_routine y stmt portal db) ((lookup db)(portal @ [OCTOLIT_ROUTINE] \<mapsto> r)) r"
  unfolding copy_routine_def
proof (rule and_then_goes [OF get_terminated_goes [OF assms(1)]])
  have r: "length r \<le> YDB_MAX_STR" using assms(2) by (simp add: MAX_ROUTINE_LEN_def YDB_MAX_STR_def)
  show "goes (and_then (set_or_return y (portal @ [OCTOLIT_ROUTINE]) r id db') (\<lambda>_. Continue r)) ((lookup db)(portal @ [OCTOLIT_ROUTINE] \<mapsto> r)) r"
    if "lookup db' = lookup db" for db'
    by (rule and_then_goes [OF set_goes [OF r]]) (auto simp: that)
qed (use assms(2) in simp_all)

lemma tag_goes:
  assumes "lookup db (stmt @ [OCTOLIT_TAG]) = Some (fmt_d (int tag))" "tag \<le> invalid_STATEMENT_number"
  shows "goes (copy_tag y stmt portal db) ((lookup db)(portal @ [OCTOLIT_TAG] \<mapsto> fmt_d (int tag))) tag"
  unfolding copy_tag_def
proof (rule and_then_goes [OF get_terminated_goes [OF assms(1)]])
  have l: "length (fmt_d (int tag)) < 7" using fmt_d_six [of tag] assms(2) by (simp add: INT16_TO_STRING_MAX_def)
  show "length (fmt_d (int tag)) \<le> MAX_TAG_LEN - 1" "length (fmt_d (int tag)) < MAX_TAG_LEN" using l by (simp_all add: MAX_TAG_LEN_def)
  have r: "length (fmt_d (int tag)) \<le> YDB_MAX_STR" using l by (simp add: YDB_MAX_STR_def)
  show "goes (and_then (set_or_return y (portal @ [OCTOLIT_TAG]) (fmt_d (int tag)) (drop_portal y portal) db')
      (\<lambda>_. number_or_return (int invalid_STATEMENT_number) (fmt_d (int tag)) (drop_portal y portal)))
      ((lookup db)(portal @ [OCTOLIT_TAG] \<mapsto> fmt_d (int tag))) tag"
    if "lookup db' = lookup db" for db'
  proof (rule and_then_goes [OF set_goes [OF r]])
    fix db2
    assume "lookup db2 = (lookup db')(portal @ [OCTOLIT_TAG] \<mapsto> fmt_d (int tag))"
    then show "goes (number_or_return (int invalid_STATEMENT_number) (fmt_d (int tag)) (drop_portal y portal) db2)
        ((lookup db)(portal @ [OCTOLIT_TAG] \<mapsto> fmt_d (int tag))) tag"
      using number_goes [of tag "int invalid_STATEMENT_number" "drop_portal y portal" db2] assms(2) that by simp
  qed
qed

lemma count_goes:
  assumes "lookup db (stmt @ subs) = Some (fmt_d (int n))" "n < 2 ^ 15"
  shows "goes (copy_count y stmt portal subs db) ((lookup db)(portal @ subs \<mapsto> fmt_d (int n))) (fmt_d (int n), n)"
  unfolding copy_count_def
proof (rule and_then_goes [OF get_terminated_goes [OF assms(1)]])
  show l: "length (fmt_d (int n)) < INT16_TO_STRING_MAX" using fmt_d_six [of n] assms(2) by simp
  then show "length (fmt_d (int n)) \<le> INT16_TO_STRING_MAX" by simp
  have r: "length (fmt_d (int n)) \<le> YDB_MAX_STR" using l by (simp add: INT16_TO_STRING_MAX_def YDB_MAX_STR_def)
  show "goes (and_then (set_or_return y (portal @ subs) (fmt_d (int n)) (drop_portal y portal) db')
      (\<lambda>_ db. and_then (number_or_return 32767 (fmt_d (int n)) (drop_portal y portal) db) (\<lambda>k. Continue (fmt_d (int n), k))))
      ((lookup db)(portal @ subs \<mapsto> fmt_d (int n))) (fmt_d (int n), n)"
    if "lookup db' = lookup db" for db'
  proof (rule and_then_goes [OF set_goes [OF r]], rule and_then_goes)
    fix db2
    assume "lookup db2 = (lookup db')(portal @ subs \<mapsto> fmt_d (int n))"
    then show "goes (number_or_return 32767 (fmt_d (int n)) (drop_portal y portal) db2) ((lookup db)(portal @ subs \<mapsto> fmt_d (int n))) n"
      using number_goes [of n 32767 "drop_portal y portal" db2] assms(2) that by simp
  qed (rule goesI)
qed

lemma store_formats_goes:
  "goes (store_formats y portal i codes db) (stored portal (numbered [col_formats] i (map (\<lambda>c. fmt_d (sint c)) codes)) (lookup db)) ()"
proof (induction codes arbitrary: i db)
  case (Cons c codes)
  have "- (2 ^ 15) \<le> sint c" "sint c < 2 ^ 15" using sint_ge [of c] sint_lt [of c] by simp_all
  then have l: "length (fmt_d (sint c)) \<le> YDB_MAX_STR" by (intro fmt_d_short) simp_all
  show ?case
    unfolding store_formats.simps
  proof (rule and_then_goes [OF set_goes [OF l]])
    fix db'
    assume "lookup db' = (lookup db)(portal @ [col_formats, fmt_d (int i)] \<mapsto> fmt_d (sint c))"
    then show "goes (store_formats y portal (i + 1) codes db')
        (stored portal (numbered [col_formats] i (map (\<lambda>c. fmt_d (sint c)) (c # codes))) (lookup db)) ()"
      using Cons.IH [of "i + 1" db'] by (simp add: fun_upd_def)
  qed
qed auto

lemma col_formats_goes:
  assumes "bind_result_col_format_codes b = res" "bind_num_result_col_format_codes b = of_nat (length res)" "length res < 2 ^ 15"
  shows "goes (store_col_formats y portal b db)
    (stored portal (([col_formats], fmt_d (int (length res))) # numbered [col_formats] 1 (format_texts res)) (lookup db)) ()"
proof -
  have n: "sint (bind_num_result_col_format_codes b) = int (length res)" using sint_of_nat16 [OF assms(3)] assms(2) by simp
  have l: "length (fmt_d (int (length res))) \<le> YDB_MAX_STR" using assms(3) by (intro fmt_d_short) simp_all
  have one: "[hd res] = res" if "length res \<le> 1" "res \<noteq> []" using that by (cases res) auto
  show ?thesis
    unfolding store_col_formats_def Let_def n assms(1)
  proof (rule and_then_goes [OF set_goes [OF l]])
    fix db'
    assume d: "lookup db' = (lookup db)(portal @ [col_formats] \<mapsto> fmt_d (int (length res)))"
    show "goes (if int (length res) = 0 then store_formats y portal 1 [0] db'
        else if length res < nat (int (length res)) \<or> res = [] then Crash FORMAT_CODE_OVERRUN
        else if int (length res) \<le> 1 then store_formats y portal 1 [hd res] db'
        else store_formats y portal 1 (take (nat (int (length res))) res) db')
        (stored portal (([col_formats], fmt_d (int (length res))) # numbered [col_formats] 1 (format_texts res)) (lookup db)) ()"
      using store_formats_goes [of portal 1 "[0]" db'] store_formats_goes [of portal 1 res db'] one d
      by (auto simp: format_texts_def)
  qed
qed

lemma goesE:
  assumes "goes m L x"
  obtains db where "m = Continue x db" "lookup db = L"
  using assms by (auto simp: goes_def)

lemma counts_goes:
  assumes "lookup db (stmt @ [OCTOLIT_PARAMETERS]) = Some (fmt_d (int nb))"
    "lookup db (stmt @ [OCTOLIT_PARAMETERS, OCTOLIT_ALL]) = Some (fmt_d (int n))" "nb < 2 ^ 15" "n < 2 ^ 15"
    "sint (bind_num_parms b) = int nb" "\<And>s t. portal @ s \<noteq> stmt @ t"
  shows "goes (copy_counts y stmt portal b db)
    (stored portal [([OCTOLIT_PARAMETERS], fmt_d (int nb)), ([OCTOLIT_PARAMETERS, OCTOLIT_ALL], fmt_d (int n))] (lookup db)) (fmt_d (int n), nb, n)"
proof -
  obtain db1 where 1: "copy_count y stmt portal [OCTOLIT_PARAMETERS] db = Continue (fmt_d (int nb), nb) db1"
    "lookup db1 = (lookup db)(portal @ [OCTOLIT_PARAMETERS] \<mapsto> fmt_d (int nb))"
    using count_goes [OF assms(1,3)] by (rule goesE)
  have l: "lookup db1 (stmt @ [OCTOLIT_PARAMETERS, OCTOLIT_ALL]) = Some (fmt_d (int n))"
    using assms(2) assms(6) [symmetric] by (simp add: 1(2))
  obtain db2 where 2: "copy_count y stmt portal [OCTOLIT_PARAMETERS, OCTOLIT_ALL] db1 = Continue (fmt_d (int n), n) db2"
    "lookup db2 = (lookup db1)(portal @ [OCTOLIT_PARAMETERS, OCTOLIT_ALL] \<mapsto> fmt_d (int n))"
    using count_goes [OF l assms(4)] by (rule goesE)
  show ?thesis by (simp add: copy_counts_def 1(1) 2(1) assms(5)) (rule goesI, simp add: 2(2) 1(2) fun_upd_def)
qed

text \<open>The whole handler, for a statement with parameters.\<close>

lemma handle_bind_goes:
  fixes session session_id b
  defines "stmt \<equiv> statement_subs session session_id (bind_source_str b)" and "portal \<equiv> portal_subs session session_id (bind_dest_str b)"
  assumes prep: "prepared (lookup db) stmt routine tag query (length ps) (length vs)"
    and ps: "parameters_ok (lookup db) stmt b 0 0 ps vs" "ps \<noteq> []" "\<not> strncmp_eq MAX_ROUTINE_LEN routine OCTOLIT_NONE"
    and b: "sint (bind_num_parms b) = int (length vs)" "bind_result_col_format_codes b = res"
      "bind_num_result_col_format_codes b = of_nat (length res)" "length res < 2 ^ 15"
  shows "\<exists>db'. handle_bind y session session_id b db = Return 0 (Some make_bind_complete) db'
    \<and> lookup db' = stored portal (portal_entries routine tag (length vs) res (bound_values ps vs)) (without_tree portal (lookup db))"
proof -
  have sep: "portal @ s \<noteq> stmt @ t" for s t
    by (simp add: stmt_def portal_def statement_subs_def portal_subs_def OCTOLIT_BOUND_def OCTOLIT_PREPARED_def)
  have keep: "lookup db (stmt @ t) = without_tree portal (lookup db) (stmt @ t)" for t
    using without_tree_elsewhere [of "stmt @ t" portal "lookup db"] sep [of _ t] by metis
  have len: "length (bound_values ps us) = length ps" for us by (induction ps us rule: bound_values.induct) auto
  let ?L = "without_tree portal (lookup db)" and ?es = "portal_entries routine tag (length vs) res (bound_values ps vs)"
  let ?s = "\<lambda>es. stored portal es ?L"
  have at: "?s es (stmt @ t) = lookup db (stmt @ t)" for es t using stored_elsewhere [of "stmt @ t" portal es ?L] sep [of _ t] keep [of t] by metis
  have 0: "lookup db stmt = Some query" using prep by (simp add: prepared_def)
  obtain db1 where 1: "reset_portal y portal db = Continue () db1" "lookup db1 = ?s []" using reset_goes [of portal db] by (auto elim: goesE)
  have "lookup db1 (stmt @ [OCTOLIT_ROUTINE]) = Some routine" using prep unfolding 1(2) at by (simp add: prepared_def)
  then obtain db2 where 2: "copy_routine y stmt portal db1 = Continue routine db2" "lookup db2 = ?s (take 1 ?es)"
    using routine_goes [of db1 stmt routine portal] prep 1(2) by (auto elim: goesE simp: prepared_def portal_entries_def)
  have "lookup db2 (stmt @ [OCTOLIT_TAG]) = Some (fmt_d (int tag))" using prep unfolding 2(2) at by (simp add: prepared_def)
  then obtain db3 where 3: "copy_tag y stmt portal db2 = Continue tag db3" "lookup db3 = ?s (take 2 ?es)"
    using tag_goes [of db2 stmt tag portal] prep 2(2) by (auto elim: goesE simp: prepared_def portal_entries_def)
  have 4: "copy_setting y stmt portal tag db3 = Continue () db3" using prep by (simp add: copy_setting_def prepared_def)
  have c: "lookup db3 (stmt @ [OCTOLIT_PARAMETERS]) = Some (fmt_d (int (length vs)))"
    "lookup db3 (stmt @ [OCTOLIT_PARAMETERS, OCTOLIT_ALL]) = Some (fmt_d (int (length ps)))" "length vs < 2 ^ 15" "length ps < 2 ^ 15"
    using prep unfolding 3(2) at by (simp_all add: prepared_def)
  obtain db5 where 5: "copy_counts y stmt portal b db3 = Continue (fmt_d (int (length ps)), length vs, length ps) db5" "lookup db5 = ?s (take 4 ?es)"
    using counts_goes [OF c b(1) sep] 3(2) by (auto elim: goesE simp: portal_entries_def len)
  have "lookup db5 stmt = Some query" using at [of _ "[]"] 0 5(2) by simp
  then obtain m db6 where 6: "get_expanding y OCTO_INIT_BUFFER_LEN stmt (drop_portal y portal) db5 = Continue \<lparr>buf_addr = query, len_alloc = m\<rparr> db6" "lookup db6 = lookup db5"
    using get_expanding_goes [of db5 stmt query OCTO_INIT_BUFFER_LEN "drop_portal y portal"] by (auto elim: goesE)
  let ?f = "take 4 ?es @ ([col_formats], fmt_d (int (length res))) # numbered [col_formats] 1 (format_texts res)"
  obtain db7 where 7: "store_col_formats y portal b db6 = Continue () db7" "lookup db7 = ?s ?f"
    using col_formats_goes [OF b(2,3,4), of portal db6] 5(2) 6(2) by (auto elim: goesE simp: stored_append)
  have "parameters_ok (lookup db7) stmt b 0 0 ps vs"
    using ps(1) parameters_ok_cong [of "lookup db7" stmt "lookup db" b 0 0 ps vs] at [of ?f] 7(2) by metis
  then obtain db8 where 8: "bind_loop y stmt portal b (length vs) (length ps) 0 0 \<lparr>buf_addr = [], len_alloc = OCTO_INIT_BUFFER_LEN\<rparr> db7 = Continue (length vs) db8"
    "lookup db8 = stored portal (numbered [OCTOLIT_PARAMETERS, OCTOLIT_ALL] 1 (bound_values ps vs)) (lookup db7)"
    using loop_goes [of db7 stmt b 0 0 ps vs portal "length vs" "\<lparr>buf_addr = [], len_alloc = OCTO_INIT_BUFFER_LEN\<rparr>"] sep by (auto elim: goesE)
  have e: "?es = ?f @ numbered [OCTOLIT_PARAMETERS, OCTOLIT_ALL] 1 (bound_values ps vs)" by (simp add: portal_entries_def)
  have "lookup db8 = ?s ?es" unfolding 8(2) 7(2) stored_append [symmetric] e [symmetric] by (rule refl)
  moreover have "length vs \<le> length ps" using prep by (simp add: prepared_def)
  ultimately show ?thesis
    using ps(2,3) unfolding handle_bind_def Let_def stmt_def [symmetric] portal_def [symmetric]
    by (simp add: 1(1) 2(1) 3(1) 4 5(1) 6(1) 7(1) 8(1) bind_with_parameters_def)
qed

end

section \<open>A database as a list\<close>

definition list_calls :: "(bytes list \<times> bytes) list ydb_calls" where
  "list_calls =
     \<lparr>ydb_get_s = (\<lambda>db s n. case map_of db s of
          None \<Rightarrow> YDB_ERR_LVUNDEF
        | Some v \<Rightarrow> if length v \<le> n then YDB_OK v else YDB_ERR_INVSTRLEN (length v)),
      ydb_set_s = (\<lambda>db s v. (True, (s, v) # db)),
      ydb_data_s = (\<lambda>db s. Some ((if map_of db s = None then 0 else 1)
          + (if \<exists>e\<in>set db. fst e \<noteq> s \<and> take (length s) (fst e) = s then 10 else 0))),
      ydb_delete_s = (\<lambda>db s. (True, filter (\<lambda>e. take (length s) (fst e) \<noteq> s) db))\<rparr>"

lemma list_descendants:
  "(\<exists>e\<in>set db. fst e \<noteq> s \<and> take (length s) (fst e) = s) \<longleftrightarrow> (\<exists>t. t \<noteq> [] \<and> map_of db (s @ t) \<noteq> None)"
proof
  assume "\<exists>e\<in>set db. fst e \<noteq> s \<and> take (length s) (fst e) = s"
  then obtain e where e: "e \<in> set db" "fst e \<noteq> s" "take (length s) (fst e) = s" by blast
  let ?t = "drop (length s) (fst e)"
  have f: "fst e = s @ ?t" using append_take_drop_id [of "length s" "fst e"] e(3) by simp
  then have "?t \<noteq> []" using e(2) by (metis append_Nil2)
  moreover have "map_of db (s @ ?t) \<noteq> None" using e(1) f by (metis map_of_eq_None_iff imageI)
  ultimately show "\<exists>t. t \<noteq> [] \<and> map_of db (s @ t) \<noteq> None" by blast
next
  assume "\<exists>t. t \<noteq> [] \<and> map_of db (s @ t) \<noteq> None"
  then obtain t v where t: "t \<noteq> []" "map_of db (s @ t) = Some v" by blast
  then have "(s @ t, v) \<in> set db" by (simp add: map_of_SomeD)
  then show "\<exists>e\<in>set db. fst e \<noteq> s \<and> take (length s) (fst e) = s" using t(1) by (intro bexI [of _ "(s @ t, v)"]) simp_all
qed

interpretation list_db: local_variables list_calls map_of
proof
  fix db :: "(bytes list \<times> bytes) list" and s v n
  show "map_of db s = Some v \<Longrightarrow> ydb_get_s list_calls db s n = (if length v \<le> n then YDB_OK v else YDB_ERR_INVSTRLEN (length v))"
    by (simp add: list_calls_def)
  show "\<exists>db'. ydb_set_s list_calls db s v = (True, db') \<and> map_of db' = (map_of db)(s \<mapsto> v)"
    by (simp add: list_calls_def)
  have "map_of (filter (\<lambda>e. take (length s) (fst e) \<noteq> s) db) t = (if take (length s) t = s then None else map_of db t)" for t
    by (induction db) auto
  then show "\<exists>db'. ydb_delete_s list_calls db s = (True, db') \<and> map_of db' = (\<lambda>t. if take (length s) t = s then None else map_of db t)"
    by (auto simp: list_calls_def)
  have all: "(\<forall>t. map_of db (s @ t) = None) \<longleftrightarrow> map_of db s = None \<and> (\<forall>t. t \<noteq> [] \<longrightarrow> map_of db (s @ t) = None)"
    by (metis append_Nil2)
  show "\<exists>n. ydb_data_s list_calls db s = Some n \<and> (n = 1 \<longleftrightarrow> map_of db s \<noteq> None \<and> (\<forall>t. t \<noteq> [] \<longrightarrow> map_of db (s @ t) = None))
      \<and> (n = 0 \<longleftrightarrow> (\<forall>t. map_of db (s @ t) = None))"
    unfolding all list_calls_def ydb_calls.simps list_descendants by auto
qed

section \<open>The parameters of a message\<close>

lemma htonl_small: "n < 2 ^ 24 \<Longrightarrow> \<exists>bs. htonl (of_nat n) = 0 # bs"
  by (simp add: htonl_eval unat_of_nat div_less)

lemma htons_small: "n < 256 \<Longrightarrow> \<exists>bs. htons (of_nat n) = 0 # bs"
  by (simp add: htons_eval unat_of_nat div_less)

text \<open>Behind the value of a parameter comes the length of the next one or the number of format codes of columns, whose first byte is 0 when they are small.\<close>

lemma parm_list_at:
  assumes "j < length vs" "\<forall>v\<in>set vs. length v < 2 ^ 24"
  shows "\<exists>rest. drop (nat (parm_value (parm_list (int (length pre)) vs ! j))) (pre @ concat (map enc_bind_parm vs) @ 0 # post) = vs ! j @ 0 # rest
    \<and> parm_length (parm_list (int (length pre)) vs ! j) = of_nat (length (vs ! j)) \<and> 0 \<le> parm_value (parm_list (int (length pre)) vs ! j)"
  using assms
proof (induction vs arbitrary: pre j)
  case (Cons v vs)
  show ?case
  proof (cases j)
    case 0
    have "\<exists>rest. concat (map enc_bind_parm vs) @ 0 # post = 0 # rest"
    proof (cases vs)
      case (Cons u us)
      then obtain bs where "htonl (of_nat (length u)) = 0 # bs" using Cons.prems(2) htonl_small [of "length u"] by auto
      then show ?thesis using Cons by (simp add: enc_bind_parm_def)
    qed simp
    moreover have "drop (nat (int (length pre) + 4)) (pre @ enc_bind_parm v @ xs) = v @ xs" for xs
      by (simp add: enc_bind_parm_def nat_add_distrib)
    ultimately show ?thesis using 0 by auto
  next
    case (Suc k)
    have len: "int (length (pre @ enc_bind_parm v)) = int (length pre) + 4 + int (length v)" by (simp add: enc_bind_parm_def)
    have "k < length vs" "\<forall>v\<in>set vs. length v < 2 ^ 24" using Cons.prems Suc by simp_all
    from Cons.IH [OF this, of "pre @ enc_bind_parm v"] show ?thesis
      by (simp only: len Suc parm_list.simps nth_Cons_Suc list.map concat.simps append_assoc)
  qed
qed simp

lemma rd_n_drop: "0 \<le> p \<Longrightarrow> drop (nat p) m = v @ w # rest \<Longrightarrow> rd_n m p (length v) = Some v"
proof -
  assume p: "0 \<le> p" and d: "drop (nat p) m = v @ w # rest"
  have "length m - nat p = length v + length rest + 1" using length_drop [of "nat p" m] unfolding d by simp
  then show ?thesis using p d by (simp add: rd_n_def)
qed

lemma host_code_at:
  "i < length cs \<Longrightarrow> rd_n (pre @ host_codes cs @ post) (int (length pre) + 2 * int i) 2 = Some (rev (htons (cs ! i)))"
proof (induction cs arbitrary: pre i)
  case (Cons c cs)
  show ?case
  proof (cases i)
    case 0
    then show ?thesis using rd_n_append_at [of pre "rev (htons c)" "host_codes cs @ post"] by (simp add: host_codes_def)
  next
    case (Suc k)
    then show ?thesis using Cons.IH [of k "pre @ rev (htons c)"] Cons.prems by (simp add: host_codes_def algebra_simps)
  qed
qed simp

lemma be_nat_htons: "be_nat (htons w) = unat w"
  using unsigned_less [of w, where 'a = nat] by (simp add: htons_def be_nat_nat_be)

text \<open>The format of parameter \<open>j\<close> of a message, and the value it stands for.\<close>

definition parameter_format :: "16 word list \<Rightarrow> nat \<Rightarrow> 16 word" where
  "parameter_format fmts j = (if fmts = [] then 0 else if length fmts = 1 then fmts ! 0 else fmts ! j)"

definition parameter_text :: "16 word list \<Rightarrow> nat \<Rightarrow> bytes \<Rightarrow> bytes" where
  "parameter_text fmts j v = (if parameter_format fmts j = 1 then binary_parameter_text v else v)"

definition parameter_texts :: "16 word list \<Rightarrow> bytes list \<Rightarrow> bytes list" where
  "parameter_texts fmts parms = map (\<lambda>j. parameter_text fmts j (parms ! j)) [0..<length parms]"

text \<open>A message whose values end where the handler takes them to end.\<close>

definition bindable :: "bytes \<Rightarrow> bytes \<Rightarrow> 16 word list \<Rightarrow> bytes list \<Rightarrow> 16 word list \<Rightarrow> bool" where
  "bindable dest source fmts parms res \<longleftrightarrow>
     bind_ok dest source fmts parms res \<and> length res < 256 \<and> (\<forall>v\<in>set parms. length v \<le> YDB_MAX_STR)
     \<and> (\<forall>j<length parms. parameter_format fmts j = 1 \<or> nul_free (parms ! j))"

lemma parsed_format_code:
  assumes "bind_ok dest source fmts parms res" "i < length fmts"
  shows "parm_format_code (parsed_bind dest source fmts parms res) i = Inr (unat (fmts ! i))"
  using host_code_at [OF assms(2), of "bind_strings dest source fmts parms res @ htons (of_nat (length fmts))"]
  by (simp add: parm_format_code_def parsed_bind_strings [OF assms(1)] Let_def)
    (simp add: parsed_bind_def bind_strings_def be_nat_htons algebra_simps)

lemma parsed_value_at:
  assumes "bindable dest source fmts parms res" "j < length parms"
  defines "b \<equiv> parsed_bind dest source fmts parms res"
  shows "\<exists>rest. drop (nat (parm_value (bind_parms b ! j))) (bind_block b) = parms ! j @ 0 # rest
    \<and> sint (parm_length (bind_parms b ! j)) = int (length (parms ! j)) \<and> 0 \<le> parm_value (bind_parms b ! j)"
proof -
  have l: "\<forall>v\<in>set parms. length v < 2 ^ 24" using assms(1) by (auto simp: bindable_def YDB_MAX_STR_def)
  obtain bs where bs: "htons (of_nat (length res)) = 0 # bs" using htons_small [of "length res"] assms(1) by (auto simp: bindable_def)
  have "length (parms ! j) < 2 ^ 31" using l assms(2) nth_mem [OF assms(2)] by fastforce
  then have "sint (of_nat (length (parms ! j)) :: 32 word) = int (length (parms ! j))" by (rule sint_of_nat32)
  then show ?thesis
    using parm_list_at [OF assms(2) l, of "bind_strings dest source fmts parms res @ htons (of_nat (length fmts)) @ host_codes fmts @ htons (of_nat (length parms))"
        "bs @ host_codes res @ replicate 4 0"] bs
    by (simp add: b_def parsed_bind_def bind_strings_def host_codes_def algebra_simps)
qed

lemma length_parm_list [simp]: "length (parm_list p vs) = length vs"
  by (induction p vs rule: parm_list.induct) auto

text \<open>The value is copied in the format that the handler finds.\<close>

lemma parsed_copy:
  assumes ok: "bindable dest source fmts parms res" and j: "j < length parms"
    and f: "(if 1 < length fmts then parm_format_code b i else if length fmts = 1 then parm_format_code b 0 else Inr 0) = Inr f"
    and b: "b = parsed_bind dest source fmts parms res"
    and v: "v = (if f = 1 then binary_parameter_text (parms ! j) else cstr (parms ! j))"
  shows "value_copied b i j v"
proof -
  let ?v = "parms ! j" and ?p = "bind_parms b ! j"
  obtain rest where r: "drop (nat (parm_value ?p)) (bind_block b) = ?v @ 0 # rest" "sint (parm_length ?p) = int (length ?v)" "0 \<le> parm_value ?p"
    using parsed_value_at [OF ok j] b by blast
  have bin: "rd_n (bind_block b) (parm_value ?p) (length ?v) = Some ?v" by (rule rd_n_drop [OF r(3,1)])
  have n: "sint (bind_num_parm_format_codes b) = int (length fmts)" "length (bind_parms b) = length parms"
    using ok sint_of_nat16 [of "length fmts"] by (auto simp: bindable_def bind_ok_def parsed_bind_def b)
  have c: "(if 1 < int (length fmts) then parm_format_code b i else if int (length fmts) = 1 then parm_format_code b 0 else Inr 0) = Inr f"
    using f by (simp split: if_splits)
  have "length ?v \<le> YDB_MAX_STR" using ok j by (auto simp: bindable_def)
  moreover have "length (binary_parameter_text ?v) \<le> max 20 (length ?v)" by (auto simp: binary_parameter_text_def INT64_TO_STRING_MAX_def)
  ultimately have l: "length v \<le> YDB_MAX_STR" unfolding v by (auto simp: YDB_MAX_STR_def intro: order_trans [OF length_cstr_le])
  have "takeWhile P (xs @ x # ys) = takeWhile P xs" if "\<not> P x" for P and x :: byte and xs ys using that by (induction xs) auto
  then have "cstr (?v @ 0 # rest) = cstr ?v" by (simp add: cstr_def)
  then have t: "copy_text_parameter b ?p buf =
      Inr \<lparr>buf_addr = cstr ?v, len_alloc = (if len_alloc buf \<le> length (cstr ?v) then length (cstr ?v) else len_alloc buf)\<rparr>" for buf
    using r(3) by (simp add: copy_text_parameter_def r(1) str_at_def Let_def)
  have e: "copy_parameter b i j buf =
      bindE (if f = 1 then Inr (copy_binary_parameter ?v buf) else copy_text_parameter b ?p buf)
        (\<lambda>buf. bindE (guardE (length (buf_addr buf) \<le> YDB_MAX_STR) BIND_ASSERTION) (\<lambda>_. Inr buf))" for buf
    unfolding copy_parameter_def n c bindE_simps Let_def r(2) nat_int bin using j by simp
  show ?thesis
    unfolding value_copied_def e t using l v by (cases "f = 1") (auto simp: copy_binary_parameter_def Let_def)
qed

lemma parsed_value_copied:
  assumes ok: "bindable dest source fmts parms res" and j: "j < length parms" and i: "i = j \<or> length fmts \<le> 1"
  shows "value_copied (parsed_bind dest source fmts parms res) i j (parameter_text fmts j (parms ! j))"
proof (rule parsed_copy [OF ok j _ refl, where f = "unat (parameter_format fmts j)"])
  have b: "bind_ok dest source fmts parms res" using ok by (simp add: bindable_def)
  consider "fmts = []" | "length fmts = 1" | "1 < length fmts" by (cases "length fmts" rule: nat.exhaust) force+
  then show "(if 1 < length fmts then parm_format_code (parsed_bind dest source fmts parms res) i
      else if length fmts = 1 then parm_format_code (parsed_bind dest source fmts parms res) 0 else Inr 0) = Inr (unat (parameter_format fmts j))"
    by cases (use parsed_format_code [OF b, of j] parsed_format_code [OF b, of 0] i b j in \<open>auto simp: parameter_format_def bind_ok_def\<close>)
  have "unat w = 1 \<longleftrightarrow> w = 1" for w :: "16 word" by (metis unsigned_1 word_unat_eq_iff)
  then show "parameter_text fmts j (parms ! j) = (if unat (parameter_format fmts j) = 1 then binary_parameter_text (parms ! j) else cstr (parms ! j))"
    using ok j nul_free_cstr [of "parms ! j"] by (auto simp: parameter_text_def bindable_def)
qed

section \<open>From the message to the portal\<close>

lemma parameters_okI:
  assumes "\<forall>k<length ps. parameter_ok L stmt (i + k) (ps ! k)" "count_list ps None = length vs" "\<forall>k<length vs. position_ok L stmt (j + k)"
    and "\<forall>k<length vs. \<forall>i'. (free \<or> i' = j + k) \<longrightarrow> value_copied b i' (j + k) (vs ! k)" "free \<or> i = j \<and> set ps \<subseteq> {None}"
  shows "parameters_ok L stmt b i j ps vs"
  using assms
proof (induction ps arbitrary: i j vs)
  case (Cons p ps)
  have ps: "\<forall>k<length ps. parameter_ok L stmt (i + 1 + k) (ps ! k)" using Cons.prems(1) by auto
  have p: "parameter_ok L stmt i p" using Cons.prems(1) by auto
  show ?case
  proof (cases p)
    case (Some w)
    then have "parameters_ok L stmt b (i + 1) j ps vs" using Cons.prems(2-5) ps by (intro Cons.IH) auto
    then show ?thesis using p Some by simp
  next
    case None
    then obtain v us where vs: "vs = v # us" using Cons.prems(2) by (cases vs) auto
    have "parameters_ok L stmt b (i + 1) (j + 1) ps us"
      using Cons.prems(2-5) ps None unfolding vs by (intro Cons.IH) (auto simp: All_less_Suc2)
    moreover have "position_ok L stmt j" "value_copied b i j v" using Cons.prems(3-5) unfolding vs by auto
    ultimately show ?thesis using p None vs by simp
  qed
qed simp

lemma numbered_keys: "map fst (numbered s i vs) = map (\<lambda>k. s @ [fmt_d (int k)]) [i..<i + length vs]"
  by (induction s i vs rule: numbered.induct) (auto simp: upt_rec)

lemma numbered_nth: "k < length vs \<Longrightarrow> (s @ [fmt_d (int (i + k))], vs ! k) \<in> set (numbered s i vs)"
proof (induction vs arbitrary: i k)
  case (Cons v vs)
  then show ?case using Cons.IH [of "k - 1" "i + 1"] by (cases k) auto
qed simp

lemma numbered_distinct: "i + length vs < 2 ^ 63 \<Longrightarrow> distinct (map fst (numbered s i vs))"
  unfolding numbered_keys by (auto simp: distinct_map inj_on_def intro: fmt_d_inj)

lemma portal_entries_distinct:
  assumes "length res < 2 ^ 15" "length vals < 2 ^ 15"
  shows "distinct (map fst (portal_entries routine tag nb res vals))"
proof -
  have "1 + length (format_texts res) < 2 ^ 63" using assms(1) by (auto simp: format_texts_def)
  moreover have "1 + length vals < 2 ^ 63" using assms(2) by simp
  ultimately have d: "distinct (map fst (numbered [col_formats] 1 (format_texts res)))" "distinct (map fst (numbered [OCTOLIT_PARAMETERS, OCTOLIT_ALL] 1 vals))"
    by (intro numbered_distinct; simp)+
  have "distinct [OCTOLIT_ROUTINE, OCTOLIT_TAG, OCTOLIT_PARAMETERS, col_formats]" by (simp add: octolit_defs ch_def of_char_def)
  then show ?thesis using d unfolding portal_entries_def by (auto simp: numbered_keys)
qed

lemma portal_parameter:
  assumes "i < length vals" "length res < 2 ^ 15" "length vals < 2 ^ 15"
  shows "stored portal (portal_entries routine tag nb res vals) L (parm_subs portal i) = Some (vals ! i)"
proof -
  have "([OCTOLIT_PARAMETERS, OCTOLIT_ALL] @ [fmt_d (int (1 + i))], vals ! i) \<in> set (portal_entries routine tag nb res vals)"
    using numbered_nth [OF assms(1), of "[OCTOLIT_PARAMETERS, OCTOLIT_ALL]" 1] by (simp add: portal_entries_def)
  from stored_in [OF this portal_entries_distinct [OF assms(2,3)]] show ?thesis by (simp add: add.commute)
qed


text \<open>A query with the literal \<open>x\<close> and two bind parameters behind it.\<close>

definition example_session :: "(bytes list \<times> bytes) list" where
  "example_session =
     (let stmt = statement_subs (lit ''s'') (lit ''1'') (lit ''q''); parms = stmt @ [OCTOLIT_PARAMETERS] in
      [(stmt, lit ''select''), (stmt @ [OCTOLIT_ROUTINE], lit ''r''), (stmt @ [OCTOLIT_TAG], fmt_d 2), (parms, fmt_d 2), (parms @ [OCTOLIT_ALL], fmt_d 3),
       (parms @ [OCTOLIT_ALL, fmt_d 1], lit ''x''),
       (parms @ [fmt_d 1, lit_start], fmt_d 10), (parms @ [fmt_d 1, lit_end], fmt_d 12), (parms @ [fmt_d 1, lit_type], fmt_d 23),
       (parms @ [fmt_d 2, lit_start], fmt_d 14), (parms @ [fmt_d 2, lit_end], fmt_d 16), (parms @ [fmt_d 2, lit_type], fmt_d 23)])"

lemma list_parameter_ok:
  "parameter_ok (map_of db) stmt i p \<longleftrightarrow>
     map_of db (parm_subs stmt i) = p \<and> \<not> (\<exists>e\<in>set db. fst e \<noteq> parm_subs stmt i \<and> take (length (parm_subs stmt i)) (fst e) = parm_subs stmt i)
     \<and> (case p of None \<Rightarrow> True | Some w \<Rightarrow> length w \<le> YDB_MAX_STR)"
  unfolding parameter_ok_def list_descendants by (auto split: option.splits)

lemma example_numbers:
  "fmt_d 1 = [49]" "fmt_d 2 = [50]" "fmt_d 3 = [51]" "fmt_d 10 = [49, 48]" "fmt_d 12 = [49, 50]" "fmt_d 14 = [49, 52]" "fmt_d 16 = [49, 54]" "fmt_d 23 = [50, 51]"
  by code_simp+

lemmas example_simps = example_session_def statement_subs_def octolit_defs ch_def of_char_def example_numbers

lemma example_prepared:
  "prepared (map_of example_session) (statement_subs (lit ''s'') (lit ''1'') (lit ''q'')) (lit ''r'') 2 (lit ''select'') 3 2"
  by (simp add: prepared_def example_simps MAX_ROUTINE_LEN_def)

lemma example_parameters:
  "\<forall>i<3. parameter_ok (map_of example_session) (statement_subs (lit ''s'') (lit ''1'') (lit ''q'')) i ([Some (lit ''x''), None, None] ! i)"
proof -
  have "parameter_ok (map_of example_session) (statement_subs (lit ''s'') (lit ''1'') (lit ''q'')) 0 (Some (lit ''x''))"
    "parameter_ok (map_of example_session) (statement_subs (lit ''s'') (lit ''1'') (lit ''q'')) 1 None"
    "parameter_ok (map_of example_session) (statement_subs (lit ''s'') (lit ''1'') (lit ''q'')) 2 None"
    unfolding list_parameter_ok by (simp_all add: example_simps YDB_MAX_STR_def)
  then show ?thesis by (auto simp: less_Suc_eq numeral_3_eq_3 numeral_2_eq_2)
qed

lemma example_positions:
  "\<forall>j<2. position_ok (map_of example_session) (statement_subs (lit ''s'') (lit ''1'') (lit ''q'')) j"
proof -
  have "position_ok (map_of example_session) (statement_subs (lit ''s'') (lit ''1'') (lit ''q'')) 0"
    unfolding position_ok_def by (intro exI [of _ 10] exI [of _ 12] exI [of _ 23]) (simp add: example_simps)
  moreover have "position_ok (map_of example_session) (statement_subs (lit ''s'') (lit ''1'') (lit ''q'')) 1"
    unfolding position_ok_def by (intro exI [of _ 14] exI [of _ 16] exI [of _ 23]) (simp add: example_simps)
  ultimately show ?thesis by (auto simp: less_Suc_eq numeral_2_eq_2)
qed

lemma example_values:
  "parameter_texts [1] [[0, 0, 0, 5], [0, 0, 0, 6]] = [lit ''5'', lit ''6'']" "\<not> strncmp_eq MAX_ROUTINE_LEN (lit ''r'') OCTOLIT_NONE"
  by code_simp+


text \<open>The same message with a format code for each of its two parameters.\<close>

definition example_bind :: Bind where
  "example_bind = parsed_bind (lit ''p'') (lit ''q'') [1, 1] [[0, 0, 0, 5], [0, 0, 0, 6]] []"

lemma example_bind_ok: "bindable (lit ''p'') (lit ''q'') [1, 1] [[0, 0, 0, 5], [0, 0, 0, 6]] []"
  by (simp add: bindable_def bind_ok_def enc_bind_def enc_bind_parm_def YDB_MAX_STR_def parameter_format_def ch_def of_char_def less_Suc_eq)

lemma example_formats: "parm_format_code example_bind 1 = Inr 1" "parm_format_code example_bind 2 = Inr 512"
  by code_simp+

lemma example_copied: "value_copied example_bind 1 0 (lit ''5'')" "value_copied example_bind 2 1 []"
proof -
  have "binary_parameter_text [0, 0, 0, 5] = lit ''5''" by code_simp
  then show "value_copied example_bind 1 0 (lit ''5'')"
    using parsed_copy [OF example_bind_ok, of 0 example_bind 1 1 "lit ''5''"] example_formats(1) by (simp add: example_bind_def)
  show "value_copied example_bind 2 1 []"
    using parsed_copy [OF example_bind_ok, of 1 example_bind 2 512 "[]"] example_formats(2) by (simp add: example_bind_def cstr_def)
qed

text \<open>C40: with more than one format code the code is looked up by the number of the parameter among all parameters of the query. For a query with a literal and then two bind parameters, both sent in
  binary format, the third parameter gets a code that is read behind the codes, from the number of parameters of the message; it is taken as a text, and the value 6 is bound as the empty string.\<close>

theorem bind_format_of_another_parameter:
  "\<exists>b db'. read_bind (frame PSQL_Bind (enc_bind (lit ''p'') (lit ''q'') [1, 1] [[0, 0, 0, 5], [0, 0, 0, 6]] [])) = Inr (b, [])
    \<and> handle_bind list_calls (lit ''s'') (lit ''1'') b example_session = Return 0 (Some make_bind_complete) db'
    \<and> map_of db' (parm_subs (portal_subs (lit ''s'') (lit ''1'') (lit ''p'')) 1) = Some (lit ''5'')
    \<and> map_of db' (parm_subs (portal_subs (lit ''s'') (lit ''1'') (lit ''p'')) 2) = Some []"
proof -
  let ?ps = "[Some (lit ''x''), None, None]" and ?vs = "[lit ''5'', []]" and ?portal = "portal_subs (lit ''s'') (lit ''1'') (lit ''p'')"
  have ok: "bind_ok (lit ''p'') (lit ''q'') [1, 1] [[0, 0, 0, 5], [0, 0, 0, 6]] []" using example_bind_ok by (simp only: bindable_def)
  note str = parsed_bind_strings [OF ok, folded example_bind_def]
  have ps: "parameters_ok (map_of example_session) (statement_subs (lit ''s'') (lit ''1'') (lit ''q'')) example_bind 0 0 ?ps ?vs"
    using example_parameters example_positions example_copied by (simp add: numeral_3_eq_3 numeral_2_eq_2 All_less_Suc del: lit_simps)
  have len: "length ?ps = 3" "length ?vs = 2" by simp_all
  have fields: "sint (bind_num_parms example_bind) = int 2" "bind_result_col_format_codes example_bind = []"
    "bind_num_result_col_format_codes example_bind = of_nat (length ([] :: 16 word list))" "length ([] :: 16 word list) < 2 ^ 15" "?ps \<noteq> []"
    using sint_of_nat16 [of 2] by (simp_all add: example_bind_def parsed_bind_def)
  obtain db' where h: "handle_bind list_calls (lit ''s'') (lit ''1'') example_bind example_session = Return 0 (Some make_bind_complete) db'"
    "map_of db' = stored ?portal (portal_entries (lit ''r'') 2 2 [] (bound_values ?ps ?vs)) (without_tree ?portal (map_of example_session))"
    using list_db.handle_bind_goes [of example_session "lit ''s''" "lit ''1''" example_bind "lit ''r''" 2 "lit ''select''" ?ps ?vs "[]"]
      example_prepared ps example_values(2) fields unfolding str len by blast
  have at: "map_of db' (parm_subs ?portal i) = Some (bound_values ?ps ?vs ! i)" if "i < 3" for i
    unfolding h(2) by (rule portal_parameter) (use that in simp_all)
  show ?thesis using at [of 1] at [of 2] h(1) read_bind_parsed [OF ok, of "[]", folded example_bind_def] by (auto simp del: lit_simps)
qed

end
